(* ===== verification/Go_Prelude.thy ===== *)
theory Go_Prelude
  imports Main "HOL-Library.Char_ord"
begin

text \<open>
  The part of Go that every component shares: 64-bit integers with their wrap-around, truncating
  division, byte strings with the operations of \<^verbatim>\<open>strings\<close>, \<^verbatim>\<open>strconv\<close>, \<^verbatim>\<open>unicode/utf8\<close> and
  \<^verbatim>\<open>fmt\<close> that the program uses, and generic facts on lists and options.

  A Go \<open>int\<close> or \<open>int64\<close> is an \<^typ>\<open>int\<close>; every addition, subtraction, multiplication, negation
  and division of the source goes through \<open>add64\<close>, \<open>sub64\<close>, \<open>mul64\<close>, \<open>neg64\<close>, \<open>quo64\<close>, which
  reduce the result to the two's complement range. A \<open>big.Int\<close> is an unbounded \<^typ>\<open>int\<close>.
  A Go string is a list of bytes, which is exactly what \<^typ>\<open>string\<close> is.
\<close>

named_theorems go_int \<open>rules that remove the wrap-around of values that fit\<close>
named_theorems go_str \<open>evaluation rules of the string operations\<close>

section \<open>64-bit integers\<close>

definition i64 :: "int \<Rightarrow> int" where
  "i64 x = (x + 9223372036854775808) mod 18446744073709551616 - 9223372036854775808"

definition fits64 :: "int \<Rightarrow> bool" where
  "fits64 x \<longleftrightarrow> - 9223372036854775808 \<le> x \<and> x \<le> 9223372036854775807"

definition int64_max :: int where "int64_max = 9223372036854775807"
definition int64_min :: int where "int64_min = - 9223372036854775808"

definition add64 :: "int \<Rightarrow> int \<Rightarrow> int" where "add64 a b = i64 (a + b)"
definition sub64 :: "int \<Rightarrow> int \<Rightarrow> int" where "sub64 a b = i64 (a - b)"
definition mul64 :: "int \<Rightarrow> int \<Rightarrow> int" where "mul64 a b = i64 (a * b)"
definition neg64 :: "int \<Rightarrow> int" where "neg64 a = i64 (- a)"

text \<open>Go's integer division truncates towards zero and the remainder has the dividend's sign.\<close>

definition quo :: "int \<Rightarrow> int \<Rightarrow> int" where
  "quo a b = sgn a * sgn b * (\<bar>a\<bar> div \<bar>b\<bar>)"

definition rem :: "int \<Rightarrow> int \<Rightarrow> int" where
  "rem a b = a - quo a b * b"

definition quo64 :: "int \<Rightarrow> int \<Rightarrow> int" where "quo64 a b = i64 (quo a b)"

lemma i64_id [go_int]: "fits64 x \<Longrightarrow> i64 x = x"
  by (simp add: i64_def fits64_def)

lemma fits64_i64 [simp, intro]: "fits64 (i64 x)"
proof -
  have "0 \<le> (x + 9223372036854775808) mod 18446744073709551616"
    and "(x + 9223372036854775808) mod 18446744073709551616 < 18446744073709551616"
    by simp_all
  then show ?thesis unfolding i64_def fits64_def by linarith
qed

lemma i64_wraps: "i64 (int64_max + 1) = int64_min"
  by (simp add: i64_def int64_max_def int64_min_def)

lemma add64_id [go_int]: "fits64 (a + b) \<Longrightarrow> add64 a b = a + b"
  by (simp add: add64_def i64_id)

lemma sub64_id [go_int]: "fits64 (a - b) \<Longrightarrow> sub64 a b = a - b"
  by (simp add: sub64_def i64_id)

lemma mul64_id [go_int]: "fits64 (a * b) \<Longrightarrow> mul64 a b = a * b"
  by (simp add: mul64_def i64_id)

lemma neg64_id [go_int]: "fits64 (- a) \<Longrightarrow> neg64 a = - a"
  by (simp add: neg64_def i64_id)

lemma fits64_add64 [simp]: "fits64 (add64 a b)" by (simp add: add64_def)
lemma fits64_sub64 [simp]: "fits64 (sub64 a b)" by (simp add: sub64_def)
lemma fits64_mul64 [simp]: "fits64 (mul64 a b)" by (simp add: mul64_def)

text \<open>A sum that wraps at every step is the wrapped sum.\<close>

lemma i64_eq_iff: "i64 x = i64 y \<longleftrightarrow> 18446744073709551616 dvd x - y"
  by (simp add: i64_def mod_eq_dvd_iff)

lemma i64_diff: "18446744073709551616 dvd x - i64 x"
  using i64_eq_iff [of x "i64 x"] i64_id [OF fits64_i64 [of x]] by simp

lemma add64_i64: "add64 (i64 x) y = i64 (x + y)"
  using i64_diff [of x] by (simp add: add64_def i64_eq_iff algebra_simps dvd_diff_commute)

lemma sub64_i64: "sub64 (i64 x) (i64 y) = i64 (x - y)"
proof -
  have "18446744073709551616 dvd (y - i64 y) - (x - i64 x)" using i64_diff [of y] i64_diff [of x] by (rule dvd_diff)
  then show ?thesis by (simp add: sub64_def i64_eq_iff algebra_simps)
qed

lemma foldl_add64: "foldl (\<lambda>t x. add64 t (f x)) (i64 a) xs = i64 (a + sum_list (map f xs))"
  by (induction xs arbitrary: a) (simp_all add: add64_i64 add.assoc)

lemma i64_0 [simp]: "i64 0 = 0" by (simp add: i64_def)

lemma quo_nonneg: "0 \<le> a \<Longrightarrow> 0 < b \<Longrightarrow> quo a b = a div b"
  by (cases "a = 0") (simp_all add: quo_def)

lemma quo_neg: "a \<le> 0 \<Longrightarrow> 0 < b \<Longrightarrow> quo a b = - ((- a) div b)"
  by (cases "a = 0") (simp_all add: quo_def)

lemma rem_nonneg: "0 \<le> a \<Longrightarrow> 0 < b \<Longrightarrow> rem a b = a mod b"
  by (simp add: rem_def quo_nonneg minus_div_mult_eq_mod)

lemma div_bounds: "0 < (c::int) \<Longrightarrow> c * (x div c) \<le> x \<and> x < c * (x div c) + c"
  using mult_div_mod_eq [of c x] pos_mod_bound [of c x] pos_mod_sign [of c x] by linarith

lemma div_le_self_int: "0 \<le> (a::int) \<Longrightarrow> 0 < b \<Longrightarrow> a div b \<le> a"
  using zdiv_mono2 [of a 1 b] by simp

lemma abs_quo_le: "\<bar>quo a b\<bar> \<le> \<bar>a\<bar>"
proof (cases "b = 0")
  case True
  then show ?thesis by (simp add: quo_def)
next
  case False
  then have "\<bar>a\<bar> div \<bar>b\<bar> \<le> \<bar>a\<bar>" "0 \<le> \<bar>a\<bar> div \<bar>b\<bar>"
    by (simp_all add: div_le_self_int pos_imp_zdiv_nonneg_iff)
  then show ?thesis by (auto simp: quo_def abs_mult sgn_if)
qed

lemma quo64_nonneg [go_int]:
  assumes "0 \<le> a" "0 < b" "fits64 a"
  shows "quo64 a b = a div b"
proof -
  have "fits64 (a div b)"
    using assms div_le_self_int [of a b] pos_imp_zdiv_nonneg_iff [of b a]
    by (simp add: fits64_def)
  then show ?thesis using assms by (simp add: quo64_def quo_nonneg i64_id)
qed

section \<open>Byte strings\<close>

abbreviation byte :: "char \<Rightarrow> nat" where "byte c \<equiv> of_char c"

definition is_digit :: "char \<Rightarrow> bool" where "is_digit c \<longleftrightarrow> 48 \<le> byte c \<and> byte c \<le> 57"
definition is_upper :: "char \<Rightarrow> bool" where "is_upper c \<longleftrightarrow> 65 \<le> byte c \<and> byte c \<le> 90"
definition is_lower :: "char \<Rightarrow> bool" where "is_lower c \<longleftrightarrow> 97 \<le> byte c \<and> byte c \<le> 122"

subsection \<open>White space\<close>

text \<open>
  The UTF-8 encodings of the runes for which \<^verbatim>\<open>unicode.IsSpace\<close> holds: the six ASCII ones, U+0085,
  U+00A0, U+1680, U+2000 to U+200A, U+2028, U+2029, U+202F, U+205F and U+3000. Their lead bytes are
  never continuation bytes, so matching them as byte sequences is what decoding rune by rune does,
  from either end and also in a string that is not valid UTF-8.
\<close>

definition space_runes :: "string list" where
  "space_runes =
     [[CHR 0x09], [CHR 0x0A], [CHR 0x0B], [CHR 0x0C], [CHR 0x0D], [CHR 0x20],
      [CHR 0xC2, CHR 0x85], [CHR 0xC2, CHR 0xA0], [CHR 0xE1, CHR 0x9A, CHR 0x80],
      [CHR 0xE2, CHR 0x80, CHR 0x80], [CHR 0xE2, CHR 0x80, CHR 0x81],
      [CHR 0xE2, CHR 0x80, CHR 0x82], [CHR 0xE2, CHR 0x80, CHR 0x83],
      [CHR 0xE2, CHR 0x80, CHR 0x84], [CHR 0xE2, CHR 0x80, CHR 0x85],
      [CHR 0xE2, CHR 0x80, CHR 0x86], [CHR 0xE2, CHR 0x80, CHR 0x87],
      [CHR 0xE2, CHR 0x80, CHR 0x88], [CHR 0xE2, CHR 0x80, CHR 0x89],
      [CHR 0xE2, CHR 0x80, CHR 0x8A], [CHR 0xE2, CHR 0x80, CHR 0xA8],
      [CHR 0xE2, CHR 0x80, CHR 0xA9], [CHR 0xE2, CHR 0x80, CHR 0xAF],
      [CHR 0xE2, CHR 0x81, CHR 0x9F], [CHR 0xE3, CHR 0x80, CHR 0x80]]"

definition has_prefix :: "string \<Rightarrow> string \<Rightarrow> bool" where
  "has_prefix s p \<longleftrightarrow> take (length p) s = p"

text \<open>Length of the first of the given byte sequences that starts the string, 0 when none does.\<close>

definition prefix_len :: "string list \<Rightarrow> string \<Rightarrow> nat" where
  "prefix_len ps s = (case find (has_prefix s) ps of None \<Rightarrow> 0 | Some p \<Rightarrow> length p)"

lemma prefix_len_le: "prefix_len ps s \<le> length s"
proof (cases "find (has_prefix s) ps")
  case (Some p)
  then have "take (length p) s = p" by (auto simp: find_Some_iff has_prefix_def)
  then have "length p \<le> length s" by (metis length_take min.cobounded1)
  with Some show ?thesis by (simp add: prefix_len_def)
qed (simp add: prefix_len_def)

function strip_front :: "string list \<Rightarrow> string \<Rightarrow> string" where
  "strip_front ps s = (let n = prefix_len ps s in if n = 0 then s else strip_front ps (drop n s))"
  by pat_completeness auto
termination
proof (relation "measure (length \<circ> snd)")
  fix ps s n
  assume "n = prefix_len ps s" "n \<noteq> 0"
  with prefix_len_le [of ps s] show "((ps, drop n s), ps, s) \<in> measure (length \<circ> snd)" by simp
qed simp

declare strip_front.simps [simp del]

text \<open>\<^verbatim>\<open>strings.TrimSpace\<close>.\<close>

definition trim_space :: "string \<Rightarrow> string" where
  "trim_space s = rev (strip_front (map rev space_runes) (rev (strip_front space_runes s)))"

lemma strip_front_suffix: "\<exists>u. s = u @ strip_front ps s"
proof (induction ps s rule: strip_front.induct)
  case (1 ps s)
  show ?case
  proof (cases "prefix_len ps s = 0")
    case False
    with 1 obtain u where "drop (prefix_len ps s) s = u @ strip_front ps (drop (prefix_len ps s) s)"
      by auto
    then have *: "s = (take (prefix_len ps s) s @ u) @ strip_front ps (drop (prefix_len ps s) s)"
      by (metis append.assoc append_take_drop_id)
    have eq: "strip_front ps s = strip_front ps (drop (prefix_len ps s) s)"
      using False by (simp add: strip_front.simps [of ps s] Let_def)
    from * show ?thesis unfolding eq by (rule exI)
  qed (simp add: strip_front.simps)
qed

lemma length_strip_front: "length (strip_front ps s) \<le> length s"
  using strip_front_suffix [of s ps] by (metis length_append le_add2)

lemma length_trim_space: "length (trim_space s) \<le> length s"
  unfolding trim_space_def
  by (metis length_rev length_strip_front le_trans)

lemma set_trim_space: "set (trim_space s) \<subseteq> set s"
proof -
  obtain u where u: "s = u @ strip_front space_runes s"
    using strip_front_suffix by blast
  obtain v where v: "rev (strip_front space_runes s) =
      v @ strip_front (map rev space_runes) (rev (strip_front space_runes s))"
    using strip_front_suffix by blast
  have "set (trim_space s) \<subseteq> set (strip_front space_runes s)"
    unfolding trim_space_def by (metis set_rev v set_append Un_upper2)
  also have "\<dots> \<subseteq> set s" by (metis u set_append Un_upper2)
  finally show ?thesis .
qed

lemma trim_space_Nil [simp]: "trim_space [] = []"
  using length_trim_space [of "[]"] by simp

text \<open>A string whose first and last bytes are visible ASCII is left alone.\<close>

definition visible :: "char \<Rightarrow> bool" where "visible c \<longleftrightarrow> 33 \<le> byte c \<and> byte c \<le> 126"

lemma space_runes_invisible:
  "list_all (\<lambda>p. p \<noteq> [] \<and> \<not> visible (hd p) \<and> \<not> visible (last p)) space_runes"
  by (simp add: space_runes_def visible_def)

lemma prefix_len_0:
  assumes "\<forall>p \<in> set ps. p \<noteq> [] \<and> hd p \<noteq> c"
  shows "prefix_len ps (c # s) = 0"
proof -
  have "find (has_prefix (c # s)) ps = None"
    using assms by (auto simp: find_None_iff has_prefix_def take_Cons' split: if_splits)
      (metis list.sel(1))
  then show ?thesis by (simp add: prefix_len_def)
qed

lemma find_None_visible:
  assumes "visible c"
  shows "prefix_len space_runes (c # s) = 0" "prefix_len (map rev space_runes) (c # s) = 0"
  using assms space_runes_invisible
  by (auto simp: list_all_iff hd_rev intro!: prefix_len_0)

lemma strip_front_visible:
  assumes "s = [] \<or> visible (hd s)"
  shows "strip_front space_runes s = s" "strip_front (map rev space_runes) s = s"
proof -
  have "prefix_len space_runes [] = 0" "prefix_len (map rev space_runes) [] = 0"
    using prefix_len_le [of _ "[]"] by simp_all
  then show "strip_front space_runes s = s" "strip_front (map rev space_runes) s = s"
    using assms by (cases s; simp add: strip_front.simps Let_def find_None_visible)+
qed

lemma trim_space_visible [go_str]:
  assumes "s = [] \<or> visible (hd s) \<and> visible (last s)"
  shows "trim_space s = s"
  using assms by (auto simp: trim_space_def strip_front_visible hd_rev)

text \<open>Trimming a trimmed string does nothing.\<close>

lemma prefix_len_shorter:
  assumes "\<forall>p \<in> set ps. p \<noteq> []" "prefix_len ps (t @ u) = 0"
  shows "prefix_len ps t = 0"
proof -
  have "has_prefix (t @ u) p" if "has_prefix t p" for p
  proof -
    have p: "take (length p) t = p" using that by (simp add: has_prefix_def)
    then have "length p \<le> length t" by (metis length_take min.cobounded1)
    with p show ?thesis by (simp add: has_prefix_def)
  qed
  then have "find (has_prefix t) ps = None" if "find (has_prefix (t @ u)) ps = None"
    using that by (auto simp: find_None_iff)
  moreover have "find (has_prefix (t @ u)) ps = None"
  proof (cases "find (has_prefix (t @ u)) ps")
    case (Some p)
    then have "p = []" using assms(2) by (simp add: prefix_len_def)
    moreover have "p \<in> set ps" using Some by (auto simp: find_Some_iff)
    ultimately show ?thesis using assms(1) by blast
  qed
  ultimately show ?thesis by (simp add: prefix_len_def)
qed

lemma strip_front_done: "prefix_len ps (strip_front ps s) = 0"
proof (induction ps s rule: strip_front.induct)
  case (1 ps s)
  then show ?case by (cases "prefix_len ps s = 0") (simp_all add: strip_front.simps [of ps s] Let_def)
qed

lemma strip_front_id: "prefix_len ps s = 0 \<Longrightarrow> strip_front ps s = s"
  by (simp add: strip_front.simps)

lemma trim_space_idem [simp]: "trim_space (trim_space s) = trim_space s"
proof -
  let ?R = "map rev space_runes"
  define t where "t = strip_front space_runes s"
  define u where "u = strip_front ?R (rev t)"
  obtain v where "rev t = v @ u" using strip_front_suffix [of "rev t" ?R] u_def by blast
  then have "t = rev u @ rev v" by (metis rev_append rev_rev_ident)
  moreover have "prefix_len space_runes t = 0" unfolding t_def by (rule strip_front_done)
  moreover have "\<forall>p \<in> set space_runes. p \<noteq> []" using space_runes_invisible by (auto simp: list_all_iff)
  ultimately have "prefix_len space_runes (rev u) = 0" using prefix_len_shorter by metis
  moreover have "prefix_len ?R u = 0" unfolding u_def by (rule strip_front_done)
  ultimately have "trim_space (rev u) = rev u" by (simp add: trim_space_def strip_front_id)
  then show ?thesis by (simp add: trim_space_def t_def u_def)
qed

subsection \<open>Letter case, fields and runes\<close>

text \<open>
  \<^verbatim>\<open>strings.ToUpper\<close> and \<^verbatim>\<open>strings.ToLower\<close> on ASCII letters and on the non-ASCII runes whose other
  case is ASCII (U+0131 and U+017F to upper case, U+0130 and U+212A to lower case); every other
  non-ASCII rune is left unchanged, so it stays non-ASCII as it does in Go.
\<close>

definition upper_char :: "char \<Rightarrow> char" where
  "upper_char c = (if is_lower c then char_of (byte c - 32) else c)"

definition lower_char :: "char \<Rightarrow> char" where
  "lower_char c = (if is_upper c then char_of (byte c + 32) else c)"

fun to_upper :: "string \<Rightarrow> string" where
  "to_upper [] = []"
| "to_upper [c] = [upper_char c]"
| "to_upper (a # b # cs) =
     (if byte a = 196 \<and> byte b = 177 then CHR ''I'' # to_upper cs
      else if byte a = 197 \<and> byte b = 191 then CHR ''S'' # to_upper cs
      else upper_char a # to_upper (b # cs))"

fun to_lower :: "string \<Rightarrow> string" where
  "to_lower [] = []"
| "to_lower [c] = [lower_char c]"
| "to_lower (a # b # cs) =
     (if byte a = 196 \<and> byte b = 176 then CHR ''i'' # to_lower cs
      else if byte a = 226 \<and> byte b = 132 \<and> cs \<noteq> [] \<and> byte (hd cs) = 170
        then CHR ''k'' # to_lower (tl cs)
      else lower_char a # to_lower (b # cs))"

lemma upper_char_upper: "is_upper c \<Longrightarrow> upper_char c = c"
  by (simp add: upper_char_def is_lower_def is_upper_def)

lemma to_upper_upper: "list_all is_upper s \<Longrightarrow> to_upper s = s"
  by (induction s rule: to_upper.induct) (auto simp: upper_char_upper is_upper_def)

text \<open>\<^verbatim>\<open>strings.Fields\<close>: the maximal runs between white-space runes.\<close>

fun fields_acc :: "string \<Rightarrow> string \<Rightarrow> string list" where
  "fields_acc cur [] = (if cur = [] then [] else [rev cur])"
| "fields_acc cur (c # cs) =
     (let n = prefix_len space_runes (c # cs) in
        if n = 0 then fields_acc (c # cur) cs
        else (if cur = [] then [] else [rev cur]) @ fields_acc [] (drop (n - 1) cs))"

definition fields_of :: "string \<Rightarrow> string list" where "fields_of s = fields_acc [] s"

fun join :: "string \<Rightarrow> string list \<Rightarrow> string" where
  "join sep [] = []"
| "join sep [x] = x"
| "join sep (x # y # ys) = x @ sep @ join sep (y # ys)"

text \<open>
  \<^verbatim>\<open>utf8.RuneCountInString\<close>: each valid encoding is one rune, each byte that does not start one is
  one rune of width 1.
\<close>

definition cont :: "nat \<Rightarrow> nat \<Rightarrow> char \<Rightarrow> bool" where
  "cont lo hi c \<longleftrightarrow> lo \<le> byte c \<and> byte c \<le> hi"

definition rune_len :: "string \<Rightarrow> nat" where
  "rune_len s =
     (let b = byte (hd s); n = length s;
          c1 = (\<lambda>lo hi. 2 \<le> n \<and> cont lo hi (s ! 1));
          c2 = (3 \<le> n \<and> cont 128 191 (s ! 2));
          c3 = (4 \<le> n \<and> cont 128 191 (s ! 3))
      in if 194 \<le> b \<and> b \<le> 223 \<and> c1 128 191 then 2
         else if b = 224 \<and> c1 160 191 \<and> c2 then 3
         else if (225 \<le> b \<and> b \<le> 236 \<or> b = 238 \<or> b = 239) \<and> c1 128 191 \<and> c2 then 3
         else if b = 237 \<and> c1 128 159 \<and> c2 then 3
         else if b = 240 \<and> c1 144 191 \<and> c2 \<and> c3 then 4
         else if 241 \<le> b \<and> b \<le> 243 \<and> c1 128 191 \<and> c2 \<and> c3 then 4
         else if b = 244 \<and> c1 128 143 \<and> c2 \<and> c3 then 4
         else 1)"

lemma rune_len_pos: "0 < rune_len s" by (simp add: rune_len_def Let_def)

function rune_count :: "string \<Rightarrow> nat" where
  "rune_count s = (if s = [] then 0 else Suc (rune_count (drop (rune_len s) s)))"
  by pat_completeness auto
termination
proof (relation "measure length")
  fix s :: string
  assume "s \<noteq> []"
  with rune_len_pos [of s] show "(drop (rune_len s) s, s) \<in> measure length" by simp
qed simp

declare rune_count.simps [simp del]

lemma rune_count_le_length: "rune_count s \<le> length s"
proof (induction s rule: rune_count.induct)
  case (1 s)
  show ?case
  proof (cases "s = []")
    case False
    with 1 have "rune_count (drop (rune_len s) s) \<le> length s - rune_len s" by simp
    moreover have "0 < length s" "0 < rune_len s" using False rune_len_pos by simp_all
    ultimately have "Suc (rune_count (drop (rune_len s) s)) \<le> length s" by linarith
    with False show ?thesis by (simp add: rune_count.simps [of s])
  qed (simp add: rune_count.simps)
qed

subsection \<open>Decimal text\<close>

definition digits_only :: "string \<Rightarrow> bool" where "digits_only s \<longleftrightarrow> list_all is_digit s"

definition digit_val :: "char \<Rightarrow> int" where "digit_val c = int (byte c) - 48"

definition dec_val :: "string \<Rightarrow> int" where
  "dec_val s = foldl (\<lambda>n c. 10 * n + digit_val c) 0 s"

text \<open>\<^verbatim>\<open>strconv.ParseInt(s, 10, 64)\<close> on unsigned text; \<^const>\<open>None\<close> is its error.\<close>

definition parse_int64 :: "string \<Rightarrow> int option" where
  "parse_int64 s = (if s = [] \<or> \<not> digits_only s \<or> int64_max < dec_val s then None
                    else Some (dec_val s))"

fun show_nat :: "nat \<Rightarrow> string" where
  "show_nat n = (if n < 10 then [char_of (48 + n)]
                 else show_nat (n div 10) @ [char_of (48 + n mod 10)])"

declare show_nat.simps [simp del]

text \<open>The verbs \<open>%d\<close> and \<open>%0wd\<close> of \<^verbatim>\<open>fmt\<close>.\<close>

definition show_int :: "int \<Rightarrow> string" where
  "show_int i = (if i < 0 then CHR ''-'' # show_nat (nat (- i)) else show_nat (nat i))"

definition pad0 :: "nat \<Rightarrow> string \<Rightarrow> string" where
  "pad0 w s = replicate (w - length s) (CHR ''0'') @ s"

definition show_int0 :: "nat \<Rightarrow> int \<Rightarrow> string" where
  "show_int0 w i = (if i < 0 then CHR ''-'' # pad0 (w - 1) (show_nat (nat (- i)))
                    else pad0 w (show_nat (nat i)))"

lemma foldl_dec: "foldl (\<lambda>n c. 10 * n + digit_val c) a s = a * 10 ^ length s + dec_val s"
proof (induction s arbitrary: a)
  case (Cons c s)
  have "dec_val (c # s) = digit_val c * 10 ^ length s + dec_val s"
    using Cons [of "digit_val c"] by (simp add: dec_val_def)
  then show ?case using Cons [of "10 * a + digit_val c"] by (simp add: algebra_simps)
qed (simp add: dec_val_def)

lemma dec_val_append: "dec_val (s @ t) = dec_val s * 10 ^ length t + dec_val t"
  using foldl_dec [of "dec_val s" t] by (simp add: dec_val_def)

lemma dec_val_zeros: "dec_val (replicate k (CHR ''0'')) = 0"
  by (induction k) (simp_all add: dec_val_def digit_val_def)

lemma dec_val_nonneg: "digits_only s \<Longrightarrow> 0 \<le> dec_val s"
proof (induction s rule: rev_induct)
  case (snoc c s)
  then show ?case by (auto simp: dec_val_append digits_only_def is_digit_def dec_val_def digit_val_def)
qed (simp add: dec_val_def)

lemma dec_val_less: "digits_only s \<Longrightarrow> dec_val s < 10 ^ length s"
proof (induction s rule: rev_induct)
  case (snoc c s)
  then have "dec_val s < 10 ^ length s" "digit_val c \<le> 9"
    by (auto simp: digits_only_def is_digit_def digit_val_def)
  then show ?case by (simp add: dec_val_append) (simp add: dec_val_def)
qed (simp add: dec_val_def)

lemma show_nat_spec:
  "dec_val (show_nat n) = int n \<and> digits_only (show_nat n) \<and> show_nat n \<noteq> []"
proof (induction n rule: show_nat.induct)
  case (1 n)
  show ?case
  proof (cases "n < 10")
    case True
    then show ?thesis
      by (simp add: show_nat.simps [of n] dec_val_def digit_val_def digits_only_def is_digit_def)
  next
    case False
    have "n mod 10 < 10" by simp
    then have d: "is_digit (char_of (48 + n mod 10))"
      "digit_val (char_of (48 + n mod 10)) = int (n mod 10)"
      by (simp_all add: is_digit_def digit_val_def)
    have "int n = int (n div 10) * 10 + int (n mod 10)" by presburger
    with False 1 d show ?thesis
      by (simp add: show_nat.simps [of n] dec_val_append digits_only_def)
         (simp add: dec_val_def)
  qed
qed

lemmas dec_val_show_nat [simp] = show_nat_spec [THEN conjunct1]
lemmas digits_only_show_nat [simp] = show_nat_spec [THEN conjunct2, THEN conjunct1]
lemmas show_nat_not_Nil [simp] = show_nat_spec [THEN conjunct2, THEN conjunct2]

lemma length_show_nat: "n < 10 ^ k \<Longrightarrow> 0 < k \<Longrightarrow> length (show_nat n) \<le> k"
proof (induction k arbitrary: n)
  case (Suc k)
  show ?case
  proof (cases "n < 10")
    case False
    with Suc.prems have "n div 10 < 10 ^ k" "0 < k" by (auto intro: gr0I)
    then have "length (show_nat (n div 10)) \<le> k" by (rule Suc.IH)
    with False show ?thesis by (simp add: show_nat.simps [of n])
  qed (simp add: show_nat.simps [of n])
qed simp

lemma digits_only_append [simp]: "digits_only (s @ t) \<longleftrightarrow> digits_only s \<and> digits_only t"
  by (simp add: digits_only_def)

lemma digits_only_zeros [simp]: "digits_only (replicate k (CHR ''0''))"
  by (induction k) (simp_all add: digits_only_def is_digit_def)

lemma is_digit_visible: "is_digit c \<Longrightarrow> visible c" by (simp add: is_digit_def visible_def)

lemma digits_visible: "digits_only s \<Longrightarrow> s \<noteq> [] \<Longrightarrow> visible (hd s) \<and> visible (last s)"
  by (simp add: digits_only_def list_all_iff is_digit_visible)

lemma pad0_spec:
  assumes "n < 10 ^ w" "0 < w"
  shows "length (pad0 w (show_nat n)) = w" "dec_val (pad0 w (show_nat n)) = int n"
    "digits_only (pad0 w (show_nat n))"
  using length_show_nat [OF assms]
  by (simp_all add: pad0_def dec_val_append dec_val_zeros)

text \<open>\<^verbatim>\<open>strings.Cut\<close> with a one-byte separator: before, after, found.\<close>

definition cut :: "char \<Rightarrow> string \<Rightarrow> string \<times> string \<times> bool" where
  "cut c s = (if c \<in> set s then (takeWhile (\<lambda>x. x \<noteq> c) s, tl (dropWhile (\<lambda>x. x \<noteq> c) s), True)
              else (s, [], False))"

lemma cut_concat:
  assumes "cut c s = (a, b, f)"
  shows "s = a @ (if f then c # b else [])" "\<not> f \<Longrightarrow> b = []" "c \<notin> set a"
proof -
  have "c \<in> set s \<Longrightarrow> s = takeWhile (\<lambda>x. x \<noteq> c) s @ c # tl (dropWhile (\<lambda>x. x \<noteq> c) s)"
    by (induction s) auto
  with assms show "s = a @ (if f then c # b else [])" by (auto simp: cut_def split: if_splits)
  show "\<not> f \<Longrightarrow> b = []" "c \<notin> set a"
    using assms by (auto simp: cut_def split: if_splits dest: set_takeWhileD)
qed

lemma cut_found: "c \<notin> set a \<Longrightarrow> cut c (a @ c # b) = (a, b, True)"
proof -
  assume "c \<notin> set a"
  then have "takeWhile (\<lambda>x. x \<noteq> c) (a @ c # b) = a \<and> dropWhile (\<lambda>x. x \<noteq> c) (a @ c # b) = c # b"
    by (induction a) auto
  then show ?thesis by (simp add: cut_def)
qed

section \<open>Lookups by a unique key\<close>

lemma find_unique:
  assumes "distinct (map k xs)" "q \<in> set xs" "P q"
  shows "find (\<lambda>x. k x = k q \<and> P x) xs = Some q"
  using assms
proof (induction xs)
  case (Cons x xs)
  show ?case
  proof (cases "x = q")
    case False
    with Cons.prems have "q \<in> set xs" "k x \<noteq> k q" by (auto simp: image_iff)
    with Cons show ?thesis by simp
  qed (use Cons.prems in simp)
qed simp

text \<open>Tables that only grow: rows kept in place under a transitive relation.\<close>

lemma list_all2_take_trans:
  assumes tr: "\<And>x y z. R x y \<Longrightarrow> R y z \<Longrightarrow> R x z"
    and "list_all2 R xs (take (length xs) ys)" "list_all2 R ys (take (length ys) zs)"
  shows "list_all2 R xs (take (length xs) zs)"
proof -
  have n: "length xs \<le> length ys" "length ys \<le> length zs" using assms(2,3) by (auto dest!: list_all2_lengthD)
  have "list_all2 R (take (length xs) ys) (take (length xs) (take (length ys) zs))"
    using assms(3) by (rule list_all2_takeI)
  then have "list_all2 R (take (length xs) ys) (take (length xs) zs)" using n by (simp add: min_def)
  with assms(2) show ?thesis by (rule list_all2_trans [rotated]) (rule tr)
qed

end
