(* ===== verification/Go_Time.thy ===== *)
theory Go_Time
  imports Go_Prelude
begin

text \<open>
  The part of Go's \<^verbatim>\<open>time\<close> package that the program uses. A \<open>time.Time\<close> is an instant in
  nanoseconds since 1 January of year 1, 00:00 UTC (Go's zero time), together with the offset of its
  location from UTC at that instant. A \<open>time.Duration\<close> is a number of nanoseconds, a
  \<open>*time.Location\<close> a function from instants to offsets. Calendar dates are day numbers since
  1 January of year 1 in the proleptic Gregorian calendar, with the conversions to and from year,
  month and day, and the lemma that they are inverse to each other.
\<close>

named_theorems go_time \<open>rules that reduce time operations to arithmetic on nanoseconds\<close>

record go_time =
  nanos :: int
  zone :: int

type_synonym location = "int \<Rightarrow> int"

definition second_ns :: int where "second_ns = 1000000000"
definition hour_ns :: int where "hour_ns = 3600000000000"
definition day_ns :: int where "day_ns = 86400000000000"

definition zero_time :: go_time where "zero_time = \<lparr>nanos = 0, zone = 0\<rparr>"

definition is_zero :: "go_time \<Rightarrow> bool" where "is_zero t \<longleftrightarrow> nanos t = 0"
definition after :: "go_time \<Rightarrow> go_time \<Rightarrow> bool" where "after a b \<longleftrightarrow> nanos b < nanos a"
definition before :: "go_time \<Rightarrow> go_time \<Rightarrow> bool" where "before a b \<longleftrightarrow> nanos a < nanos b"
definition time_eq :: "go_time \<Rightarrow> go_time \<Rightarrow> bool" where "time_eq a b \<longleftrightarrow> nanos a = nanos b"

text \<open>\<open>Sub\<close> saturates at the bounds of a 64-bit duration.\<close>

definition time_sub :: "go_time \<Rightarrow> go_time \<Rightarrow> int" where
  "time_sub a b = max int64_min (min int64_max (nanos a - nanos b))"

definition time_add :: "go_time \<Rightarrow> int \<Rightarrow> go_time" where
  "time_add t d = t\<lparr>nanos := nanos t + d\<rparr>"

definition utc :: "go_time \<Rightarrow> go_time" where "utc t = t\<lparr>zone := 0\<rparr>"

definition in_loc :: "go_time \<Rightarrow> location \<Rightarrow> go_time" where
  "in_loc t loc = t\<lparr>zone := loc (nanos t)\<rparr>"

definition utc_loc :: location where "utc_loc = (\<lambda>_. 0)"

lemmas time_order [go_time] = is_zero_def after_def before_def time_eq_def

section \<open>The calendar\<close>

definition leap :: "int \<Rightarrow> bool" where
  "leap y \<longleftrightarrow> y mod 4 = 0 \<and> (y mod 100 \<noteq> 0 \<or> y mod 400 = 0)"

definition year_start :: "int \<Rightarrow> int" where
  "year_start y = 365 * (y - 1) + (y - 1) div 4 - (y - 1) div 100 + (y - 1) div 400"

definition month_start :: "bool \<Rightarrow> int \<Rightarrow> int" where
  "month_start l m =
     (let x = (if l then 1 else 0) in
      if m \<le> 1 then 0 else if m = 2 then 31 else if m = 3 then 59 + x else if m = 4 then 90 + x
      else if m = 5 then 120 + x else if m = 6 then 151 + x else if m = 7 then 181 + x
      else if m = 8 then 212 + x else if m = 9 then 243 + x else if m = 10 then 273 + x
      else if m = 11 then 304 + x else 334 + x)"

definition month_of :: "bool \<Rightarrow> int \<Rightarrow> int" where
  "month_of l doy =
     (let x = (if l then 1 else 0) in
      if doy < 31 then 1 else if doy < 59 + x then 2 else if doy < 90 + x then 3
      else if doy < 120 + x then 4 else if doy < 151 + x then 5 else if doy < 181 + x then 6
      else if doy < 212 + x then 7 else if doy < 243 + x then 8 else if doy < 273 + x then 9
      else if doy < 304 + x then 10 else if doy < 334 + x then 11 else 12)"

text \<open>Day number of a year, month and day; the month is normalised as \<open>time.Date\<close> does.\<close>

definition day_number :: "int \<Rightarrow> int \<Rightarrow> int \<Rightarrow> int" where
  "day_number y m d =
     (let y' = y + (m - 1) div 12; m' = (m - 1) mod 12 + 1
      in year_start y' + month_start (leap y') m' + d - 1)"

text \<open>The year of a day: an estimate from the mean length of a year, then one correction.\<close>

definition year_of :: "int \<Rightarrow> int" where
  "year_of n =
     (let e = (400 * n) div 146097 + 1
      in if n < year_start e then e - 1 else if year_start (e + 1) \<le> n then e + 1 else e)"

definition civil :: "int \<Rightarrow> int \<times> int \<times> int" where
  "civil n =
     (let y = year_of n; doy = n - year_start y; m = month_of (leap y) doy
      in (y, m, doy - month_start (leap y) m + 1))"

definition days_in_month :: "int \<Rightarrow> int \<Rightarrow> int" where
  "days_in_month y m = (if m = 12 then 31 else month_start (leap y) (m + 1) - month_start (leap y) m)"

lemma div_pred:
  assumes "0 < c"
  shows "(y::int) div c = (y - 1) div c + (if y mod c = 0 then 1 else 0)"
proof -
  define q r where "q = y div c" and "r = y mod c"
  have y: "y = c * q + r" and r: "0 \<le> r" "r < c" using assms by (simp_all add: q_def r_def)
  show ?thesis
  proof (cases "r = 0")
    case True
    have "(y - 1) div c = q - 1"
      by (rule int_div_pos_eq [of _ _ _ "c - 1"]) (use y True assms in \<open>auto simp: algebra_simps\<close>)
    with True show ?thesis by (simp add: q_def r_def)
  next
    case False
    have "(y - 1) div c = q"
      by (rule int_div_pos_eq [of _ _ _ "r - 1"]) (use y r False in auto)
    with False show ?thesis by (simp add: q_def r_def)
  qed
qed

lemma year_start_Suc: "year_start (y + 1) = year_start y + (if leap y then 366 else 365)"
proof -
  define p4 p100 p400 where "p4 \<longleftrightarrow> y mod 4 = 0" and "p100 \<longleftrightarrow> y mod 100 = 0" and "p400 \<longleftrightarrow> y mod 400 = 0"
  define a b c where "a = (y - 1) div 4" and "b = (y - 1) div 100" and "c = (y - 1) div 400"
  have imp: "p400 \<Longrightarrow> p100" "p100 \<Longrightarrow> p4"
    using dvd_trans [of 100 400 y] dvd_trans [of 4 100 y]
    by (simp_all add: mod_eq_0_iff_dvd p4_def p100_def p400_def)
  have "year_start (y + 1) = 365 * y + y div 4 - y div 100 + y div 400"
    by (simp add: year_start_def)
  also have "y div 4 = a + (if p4 then 1 else 0)" unfolding a_def p4_def by (rule div_pred) simp
  also have "y div 100 = b + (if p100 then 1 else 0)" unfolding b_def p100_def by (rule div_pred) simp
  also have "y div 400 = c + (if p400 then 1 else 0)" unfolding c_def p400_def by (rule div_pred) simp
  finally have l: "year_start (y + 1) = 365 * y + (a + (if p4 then 1 else 0))
      - (b + (if p100 then 1 else 0)) + (c + (if p400 then 1 else 0))" .
  have r: "year_start y = 365 * (y - 1) + a - b + c" by (simp add: year_start_def a_def b_def c_def)
  have "leap y \<longleftrightarrow> p4 \<and> (\<not> p100 \<or> p400)" by (simp add: leap_def p4_def p100_def p400_def)
  with imp show ?thesis unfolding l r by (cases p4; cases p100; cases p400) simp_all
qed

lemma year_start_bounds:
  "146097 * (y - 1) - 700 \<le> 400 * year_start y" (is ?lo)
  "400 * year_start y \<le> 146097 * (y - 1) + 500" (is ?hi)
proof -
  define k a b c where "k = y - 1" and "a = k div 4" and "b = k div 100" and "c = k div 400"
  have "4 * a \<le> k" "k < 4 * a + 4" "100 * b \<le> k" "k < 100 * b + 100" "400 * c \<le> k" "k < 400 * c + 400"
    using div_bounds [of 4 k] div_bounds [of 100 k] div_bounds [of 400 k]
    by (simp_all add: a_def b_def c_def)
  moreover have "year_start y = 365 * k + a - b + c"
    by (simp add: year_start_def k_def a_def b_def c_def)
  ultimately have "146097 * k - 700 \<le> 400 * year_start y" "400 * year_start y \<le> 146097 * k + 500"
    by linarith+
  then show ?lo ?hi by (simp_all add: k_def)
qed

lemma year_of_spec: "year_start (year_of n) \<le> n \<and> n < year_start (year_of n + 1)"
proof -
  define e where "e = (400 * n) div 146097 + 1"
  have e: "146097 * (e - 1) \<le> 400 * n" "400 * n < 146097 * e"
    using div_bounds [of 146097 "400 * n"] by (simp_all add: e_def)
  have "year_start (e - 1) \<le> n"
    using e year_start_bounds(2) [of "e - 1"] by (simp add: algebra_simps)
  moreover have "n < year_start (e + 2)"
    using e year_start_bounds(1) [of "e + 2"] by (simp add: algebra_simps)
  ultimately show ?thesis
    unfolding year_of_def e_def [symmetric] Let_def by (auto simp: add.commute)
qed

lemma month_of_spec:
  assumes "0 \<le> doy" "doy < (if l then 366 else 365)"
  shows "1 \<le> month_of l doy" "month_of l doy \<le> 12" "month_start l (month_of l doy) \<le> doy"
    "month_of l doy < 12 \<Longrightarrow> doy < month_start l (month_of l doy + 1)"
  using assms by (cases l; auto simp: month_of_def month_start_def Let_def split: if_splits)+

lemma civil_valid:
  assumes "civil n = (y, m, d)"
  shows "1 \<le> m" "m \<le> 12" "1 \<le> d" "d \<le> days_in_month y m" "y = year_of n"
proof -
  have y: "y = year_of n" and m: "m = month_of (leap y) (n - year_start y)"
    and d: "d = n - year_start y - month_start (leap y) m + 1"
    using assms by (auto simp: civil_def Let_def)
  have doy: "0 \<le> n - year_start y" "n - year_start y < (if leap y then 366 else 365)"
    using year_of_spec [of n] year_start_Suc [of y] by (auto simp: y split: if_splits)
  note ms = month_of_spec [OF doy, folded m]
  show "1 \<le> m" "m \<le> 12" "1 \<le> d" "y = year_of n" using ms d y by auto
  show "d \<le> days_in_month y m"
  proof (cases "m = 12")
    case True
    then show ?thesis using doy d ms(3)
      by (auto simp: days_in_month_def month_start_def Let_def split: if_splits)
  next
    case False
    with ms have "n - year_start y < month_start (leap y) (m + 1)" by simp
    with False d show ?thesis by (simp add: days_in_month_def)
  qed
qed

theorem day_number_civil: "civil n = (y, m, d) \<Longrightarrow> day_number y m d = n"
proof -
  assume c: "civil n = (y, m, d)"
  have "(m - 1) div 12 = 0" "(m - 1) mod 12 = m - 1" using civil_valid [OF c] by auto
  with c show ?thesis by (auto simp: day_number_def civil_def Let_def)
qed

section \<open>Dates of instants\<close>

definition day_of :: "go_time \<Rightarrow> int" where "day_of t = (nanos t + zone t) div day_ns"

definition midnight :: "int \<Rightarrow> go_time" where "midnight n = \<lparr>nanos = n * day_ns, zone = 0\<rparr>"

text \<open>\<open>t.Date()\<close>, \<open>time.Date(y, m, d, 0, 0, 0, 0, time.UTC)\<close>, \<open>t.Weekday()\<close> and \<open>t.AddDate\<close>.\<close>

definition time_date :: "go_time \<Rightarrow> int \<times> int \<times> int" where "time_date t = civil (day_of t)"

definition date_utc :: "int \<Rightarrow> int \<Rightarrow> int \<Rightarrow> go_time" where
  "date_utc y m d = midnight (day_number y m d)"

definition weekday :: "go_time \<Rightarrow> int" where "weekday t = (day_of t + 1) mod 7"

definition add_date :: "go_time \<Rightarrow> int \<Rightarrow> int \<Rightarrow> int \<Rightarrow> go_time" where
  "add_date t dy dm dd =
     (let (y, m, d) = time_date t
      in t\<lparr>nanos := day_number (y + dy) (m + dm) (d + dd) * day_ns
             + (nanos t + zone t) mod day_ns - zone t\<rparr>)"

text \<open>The pattern \<open>time.Date(t.Year(), t.Month(), t.Day(), 0, 0, 0, 0, time.UTC)\<close>.\<close>

definition truncate_day :: "go_time \<Rightarrow> go_time" where
  "truncate_day t = (let (y, m, d) = time_date t in date_utc y m d)"

text \<open>\<open>int(d.Hours() / 24)\<close>: exact for the whole-day durations it is applied to.\<close>

definition days_of_duration :: "int \<Rightarrow> int" where "days_of_duration d = quo d day_ns"

lemma truncate_day_eq [go_time]: "truncate_day t = midnight (day_of t)"
  by (cases "time_date t") (auto simp: truncate_day_def time_date_def date_utc_def day_number_civil)

lemma day_of_midnight [simp, go_time]: "day_of (midnight n) = n"
  by (simp add: day_of_def midnight_def day_ns_def)

lemma truncate_midnight [simp]: "truncate_day (midnight n) = midnight n"
  by (simp add: truncate_day_eq)

lemma nanos_midnight [simp]: "nanos (midnight n) = n * day_ns" "zone (midnight n) = 0"
  by (simp_all add: midnight_def)

lemma day_ns_pos [simp]: "0 < day_ns" by (simp add: day_ns_def)

lemma before_midnight [simp, go_time]:
  "before (midnight a) (midnight b) \<longleftrightarrow> a < b" "after (midnight a) (midnight b) \<longleftrightarrow> b < a"
  "time_eq (midnight a) (midnight b) \<longleftrightarrow> a = b" "is_zero (midnight a) \<longleftrightarrow> a = 0"
  by (auto simp: before_def after_def time_eq_def is_zero_def day_ns_def)

lemma add_date_days [go_time]: "add_date (midnight n) 0 0 k = midnight (n + k)"
proof -
  obtain y m d where c: "civil n = (y, m, d)" by (metis prod_cases3)
  have "day_number y m (d + k) = n + k"
    using day_number_civil [OF c] by (simp add: day_number_def Let_def)
  then show ?thesis by (simp add: add_date_def time_date_def c)
qed

text \<open>Durations of up to 106751 days (292 years) do not saturate.\<close>

definition near_days :: "int \<Rightarrow> int \<Rightarrow> bool" where "near_days a b \<longleftrightarrow> \<bar>a - b\<bar> \<le> 106751"

lemma time_sub_midnight [go_time]:
  assumes "near_days a b"
  shows "time_sub (midnight a) (midnight b) = (a - b) * day_ns"
  using assms by (auto simp: time_sub_def near_days_def int64_max_def int64_min_def day_ns_def)

lemma quo_day_mult: "quo (k * day_ns) day_ns = k"
  by (simp add: quo_def abs_mult sgn_mult) (simp add: sgn_mult_abs day_ns_def)

lemma days_of_sub [go_time]:
  assumes "near_days a b"
  shows "days_of_duration (time_sub (midnight a) (midnight b)) = a - b"
  by (simp add: days_of_duration_def time_sub_midnight [OF assms] quo_day_mult)

section \<open>Dates as text\<close>

text \<open>The layout \<^verbatim>\<open>2006-01-02\<close>, formatted and parsed.\<close>

definition format_date :: "go_time \<Rightarrow> string" where
  "format_date t = (let (y, m, d) = time_date t
                    in show_int0 4 y @ ''-'' @ show_int0 2 m @ ''-'' @ show_int0 2 d)"

definition parse_date :: "string \<Rightarrow> go_time option" where
  "parse_date s =
     (if length s = 10 \<and> s ! 4 = CHR ''-'' \<and> s ! 7 = CHR ''-''
         \<and> digits_only (take 4 s) \<and> digits_only (take 2 (drop 5 s)) \<and> digits_only (drop 8 s)
      then let y = dec_val (take 4 s); m = dec_val (take 2 (drop 5 s)); d = dec_val (drop 8 s)
           in if 1 \<le> m \<and> m \<le> 12 \<and> 1 \<le> d \<and> d \<le> days_in_month y m then Some (date_utc y m d) else None
      else None)"

lemma days_in_month_le: "1 \<le> m \<Longrightarrow> m \<le> 12 \<Longrightarrow> days_in_month y m \<le> 31"
  by (auto simp: days_in_month_def month_start_def Let_def)

lemma show_int0_nonneg:
  assumes "0 \<le> i" "i < 10 ^ w" "0 < w"
  shows "length (show_int0 w i) = w" "dec_val (show_int0 w i) = i" "digits_only (show_int0 w i)"
proof -
  have "nat i < 10 ^ w" using assms by (simp add: nat_less_iff)
  from pad0_spec [OF this assms(3)] assms(1)
  show "length (show_int0 w i) = w" "dec_val (show_int0 w i) = i" "digits_only (show_int0 w i)"
    by (simp_all add: show_int0_def)
qed

theorem parse_format_date:
  assumes "0 \<le> year_of (day_of t)" "year_of (day_of t) \<le> 9999"
  shows "parse_date (format_date t) = Some (truncate_day t)"
proof -
  obtain y m d where c: "civil (day_of t) = (y, m, d)" by (metis prod_cases3)
  note v = civil_valid [OF c]
  have d31: "d \<le> 31" using v days_in_month_le [of m y] by linarith
  note yy = show_int0_nonneg [of y 4] and mm = show_int0_nonneg [of m 2]
    and dd = show_int0_nonneg [of d 2]
  have "format_date t = show_int0 4 y @ CHR ''-'' # show_int0 2 m @ CHR ''-'' # show_int0 2 d"
    by (simp add: format_date_def time_date_def c)
  then show ?thesis
    using v d31 assms yy mm dd
    by (simp add: parse_date_def nth_append Let_def truncate_day_def time_date_def c)
qed

end
