(* ===== verification/Shared.thy ===== *)
theory Shared
  imports Go_Time
begin

text \<open>
  \<^verbatim>\<open>internal/domain/shared\<close>: the typed errors every package returns, CSV cell neutralisation,
  money formatting and the paging contract.

  A Go \<open>error\<close> is either an \<open>AppError\<close>, which carries a stable code, a message and the sentinel it
  wraps, or a plain error made by \<open>errors.New\<close>, known by its text. A function that returns
  \<open>(T, error)\<close> is a function into \<open>error + T\<close>; one that only returns \<open>error\<close> yields an
  \<open>error option\<close>, with \<^const>\<open>None\<close> for \<open>nil\<close>.
\<close>

section \<open>Errors\<close>

datatype sentinel =
  ErrNotFound | ErrConflict | ErrUnauthorized | ErrForbidden | ErrValidation
| ErrInvalidState | ErrDuplicate | ErrLocked | ErrRateLimited | ErrUnavailable

record app_error =
  code :: string
  message :: string
  err :: sentinel
  retry_after :: int
  details :: "(string \<times> string list) list"

datatype error = App app_error | Plain string

type_synonym 'a result = "error + 'a"

definition mk_app :: "string \<Rightarrow> string \<Rightarrow> sentinel \<Rightarrow> error" where
  "mk_app c m e = App \<lparr>code = c, message = m, err = e, retry_after = 0, details = []\<rparr>"

definition new_validation :: "string \<Rightarrow> error" where
  "new_validation msg = mk_app ''validation_error'' msg ErrValidation"

definition new_not_found :: "string \<Rightarrow> error" where
  "new_not_found entity = mk_app ''not_found'' (entity @ '' not found'') ErrNotFound"

definition new_conflict :: "string \<Rightarrow> error" where
  "new_conflict msg = mk_app ''conflict'' msg ErrConflict"

definition new_forbidden :: "string \<Rightarrow> error" where
  "new_forbidden msg = mk_app ''forbidden'' msg ErrForbidden"

definition new_invalid_state :: "string \<Rightarrow> error" where
  "new_invalid_state msg = mk_app ''invalid_state'' msg ErrInvalidState"

definition with_details :: "error \<Rightarrow> (string \<times> string list) list \<Rightarrow> error" where
  "with_details e ds = (case e of App a \<Rightarrow> App (a\<lparr>details := ds\<rparr>) | Plain m \<Rightarrow> Plain m)"

text \<open>\<open>err.Error()\<close>.\<close>

fun sentinel_text :: "sentinel \<Rightarrow> string" where
  "sentinel_text ErrNotFound = ''not found''"
| "sentinel_text ErrConflict = ''conflict''"
| "sentinel_text ErrUnauthorized = ''unauthorized''"
| "sentinel_text ErrForbidden = ''forbidden''"
| "sentinel_text ErrValidation = ''validation''"
| "sentinel_text ErrInvalidState = ''invalid state transition''"
| "sentinel_text ErrDuplicate = ''duplicate''"
| "sentinel_text ErrLocked = ''locked''"
| "sentinel_text ErrRateLimited = ''rate limited''"
| "sentinel_text ErrUnavailable = ''unavailable''"

definition error_text :: "error \<Rightarrow> string" where
  "error_text e = (case e of App a \<Rightarrow> message a @ '': '' @ sentinel_text (err a) | Plain m \<Rightarrow> m)"

text \<open>\<open>errors.Is\<close> against a sentinel of this package, and the code of an \<open>AppError\<close>.\<close>

definition is_err :: "error \<Rightarrow> sentinel \<Rightarrow> bool" where
  "is_err e s \<longleftrightarrow> (case e of App a \<Rightarrow> err a = s | Plain _ \<Rightarrow> False)"

definition err_code :: "error \<Rightarrow> string" where
  "err_code e = (case e of App a \<Rightarrow> code a | Plain _ \<Rightarrow> [])"

lemmas error_defs = new_validation_def new_not_found_def new_conflict_def new_forbidden_def
  new_invalid_state_def mk_app_def

lemma is_err_simps [simp]:
  "is_err (new_validation m) s \<longleftrightarrow> s = ErrValidation"
  "is_err (new_not_found m) s \<longleftrightarrow> s = ErrNotFound"
  "is_err (new_conflict m) s \<longleftrightarrow> s = ErrConflict"
  "is_err (new_forbidden m) s \<longleftrightarrow> s = ErrForbidden"
  "is_err (new_invalid_state m) s \<longleftrightarrow> s = ErrInvalidState"
  "is_err (Plain m) s \<longleftrightarrow> False"
  "is_err (with_details e ds) s \<longleftrightarrow> is_err e s"
  by (auto simp: is_err_def error_defs with_details_def split: error.split)

section \<open>CSV cells\<close>

definition risky_lead :: "char \<Rightarrow> bool" where
  "risky_lead c \<longleftrightarrow> c \<in> {CHR ''='', CHR ''+'', CHR ''-'', CHR ''@'', CHR 0x09, CHR 0x0D}"

definition neutralize_csv_cell :: "string \<Rightarrow> string" where
  "neutralize_csv_cell s =
     (case s of [] \<Rightarrow> s | c # _ \<Rightarrow> if risky_lead c then CHR 0x27 # s else s)"

definition restore_csv_cell :: "string \<Rightarrow> string" where
  "restore_csv_cell s =
     (case s of q # c # cs \<Rightarrow> if q \<noteq> CHR 0x27 then s else if risky_lead c then c # cs else s | _ \<Rightarrow> s)"

definition csv_formula :: "string \<Rightarrow> bool" where
  "csv_formula s \<longleftrightarrow> s \<noteq> [] \<and> risky_lead (hd s)"

lemma neutralize_no_formula: "\<not> csv_formula (neutralize_csv_cell s)"
  by (cases s) (auto simp: csv_formula_def neutralize_csv_cell_def risky_lead_def)

lemma restore_neutralize:
  assumes "\<not> (2 \<le> length s \<and> s ! 0 = CHR 0x27 \<and> risky_lead (s ! 1))"
  shows "restore_csv_cell (neutralize_csv_cell s) = s"
  using assms
  by (auto simp: restore_csv_cell_def neutralize_csv_cell_def risky_lead_def split: list.splits)

section \<open>Money and paging\<close>

definition minor_per_major :: int where "minor_per_major = 100"

definition format_minor :: "int \<Rightarrow> string \<Rightarrow> string" where
  "format_minor amount currency =
     (let sign = (if amount < 0 then ''-'' else []);
          amount = (if amount < 0 then neg64 amount else amount)
      in sign @ show_int (quo amount minor_per_major) @ ''.'' @
         show_int0 2 (rem amount minor_per_major) @ '' '' @ currency)"

record page_query =
  Limit :: int
  Offset :: int
  Sort :: string

definition page_normalize :: "page_query \<Rightarrow> page_query" where
  "page_normalize p =
     (let p = (if Limit p \<le> 0 then p\<lparr>Limit := 25\<rparr> else p);
          p = (if Limit p > 100 then p\<lparr>Limit := 100\<rparr> else p)
      in if Offset p < 0 then p\<lparr>Offset := 0\<rparr> else p)"

lemma page_normalize_bounds:
  "1 \<le> Limit (page_normalize p)" "Limit (page_normalize p) \<le> 100" "0 \<le> Offset (page_normalize p)"
  by (auto simp: page_normalize_def Let_def)

lemma page_normalize_idem: "page_normalize (page_normalize p) = page_normalize p"
  using page_normalize_bounds [of p] by (simp add: page_normalize_def [of "page_normalize p"] Let_def)

definition sort_column :: "page_query \<Rightarrow> string \<Rightarrow> string" where
  "sort_column p fallback =
     (case Sort p of [] \<Rightarrow> fallback
      | c # cs \<Rightarrow> let s = (if c = CHR ''-'' \<or> c = CHR ''+'' then cs else c # cs)
                  in if s = [] then fallback else s)"

definition sort_desc :: "page_query \<Rightarrow> bool" where
  "sort_desc p \<longleftrightarrow> Sort p \<noteq> [] \<and> hd (Sort p) = CHR ''-''"

end
