(* ===== verification/Rounding.thy ===== *)
theory Rounding
  imports Go_Prelude
begin

text \<open>
  Every money computation of the program rounds to the nearest minor unit with ties away from zero,
  but each package has its own routine (\<^verbatim>\<open>fx.divRound\<close>, \<^verbatim>\<open>finance.ApplyBPS\<close>, \<^verbatim>\<open>finance.RatioBPS\<close>,
  \<^verbatim>\<open>hotel.roundDiv\<close>). This theory holds the reference definition, the facts that follow from it, and
  the contract \<open>half_away\<close> that each routine is shown to satisfy on the inputs it is used for.
\<close>

definition round_half_away :: "int \<Rightarrow> int \<Rightarrow> int" where
  "round_half_away n d =
     (if 0 \<le> n then (2 * n + d) div (2 * d) else - ((2 * (- n) + d) div (2 * d)))"

lemma round_pos_bounds:
  assumes "0 < d" "0 \<le> n"
  shows "2 * (round_half_away n d * d) \<le> 2 * n + d" "2 * n + d < 2 * (round_half_away n d * d) + 2 * d"
    "0 \<le> round_half_away n d"
proof -
  define q where "q = (2 * n + d) div (2 * d)"
  have "2 * d * q \<le> 2 * n + d" "2 * n + d < 2 * d * q + 2 * d"
    using div_bounds [of "2 * d" "2 * n + d"] assms unfolding q_def by auto
  moreover have "round_half_away n d = q" using assms by (simp add: round_half_away_def q_def)
  ultimately show "2 * (round_half_away n d * d) \<le> 2 * n + d"
    "2 * n + d < 2 * (round_half_away n d * d) + 2 * d" by (simp_all add: algebra_simps)
  show "0 \<le> round_half_away n d" using assms by (simp add: round_half_away_def pos_imp_zdiv_nonneg_iff)
qed

lemma round_neg: "0 < d \<Longrightarrow> round_half_away (- n) d = - round_half_away n d"
  by (cases "n = 0") (auto simp: round_half_away_def)

lemma round_nearest:
  assumes "0 < d"
  shows "\<bar>2 * (round_half_away n d * d - n)\<bar> \<le> d"
proof -
  have pos: "\<bar>2 * (round_half_away n d * d - n)\<bar> \<le> d" if "0 \<le> n" for n
  proof -
    define x where "x = round_half_away n d * d"
    have "2 * x \<le> 2 * n + d" "2 * n + d < 2 * x + 2 * d"
      using round_pos_bounds [OF assms that] by (simp_all add: x_def)
    then show ?thesis unfolding x_def [symmetric] by (simp add: abs_le_iff)
  qed
  show ?thesis
  proof (cases "0 \<le> n")
    case False
    then have "\<bar>2 * (round_half_away (- n) d * d - - n)\<bar> \<le> d" by (intro pos) simp
    then show ?thesis by (simp add: round_neg [OF assms] abs_le_iff)
  qed (rule pos)
qed

text \<open>The result is determined by the bounds, for non-negative numerators.\<close>

lemma round_unique:
  assumes "0 < d" "0 \<le> n" "2 * (q * d) \<le> 2 * n + d" "2 * n + d < 2 * (q * d) + 2 * d"
  shows "round_half_away n d = q"
proof -
  have "(2 * n + d) div (2 * d) = q"
    by (rule int_div_pos_eq [of _ _ _ "2 * n + d - 2 * d * q"]) (use assms in \<open>auto simp: algebra_simps\<close>)
  with assms show ?thesis by (simp add: round_half_away_def)
qed

lemma round_exact: "0 < d \<Longrightarrow> round_half_away (q * d) d = q"
proof -
  assume d: "0 < d"
  show ?thesis
  proof (cases "0 \<le> q")
    case True
    with d show ?thesis by (intro round_unique) (auto simp: algebra_simps)
  next
    case False
    with d have "0 \<le> (- q) * d" by (intro mult_nonneg_nonneg) auto
    with d have "round_half_away ((- q) * d) d = - q" by (intro round_unique) (auto simp: algebra_simps)
    then show ?thesis using round_neg [OF d, of "q * d"] by simp
  qed
qed

lemma round_mono:
  assumes d: "0 < d" and le: "m \<le> n"
  shows "round_half_away m d \<le> round_half_away n d"
proof -
  have pos: "round_half_away a d \<le> round_half_away b d" if "0 \<le> a" "a \<le> b" for a b
    using that d by (simp add: round_half_away_def zdiv_mono1)
  show ?thesis
  proof (cases "0 \<le> m")
    case True
    then show ?thesis using pos le by blast
  next
    case m: False
    show ?thesis
    proof (cases "0 \<le> n")
      case True
      have "round_half_away m d \<le> 0"
        using round_pos_bounds(3) [OF d, of "- m"] m by (simp add: round_neg [OF d])
      with round_pos_bounds(3) [OF d True] show ?thesis by linarith
    next
      case False
      with m le have "round_half_away (- n) d \<le> round_half_away (- m) d" by (intro pos) auto
      then show ?thesis by (simp add: round_neg [OF d])
    qed
  qed
qed

lemma round_le_numerator:
  assumes "0 < d" "0 \<le> n"
  shows "round_half_away n d \<le> n"
proof (rule ccontr)
  define r where "r = round_half_away n d"
  assume "\<not> ?thesis"
  then have "(n + 1) * d \<le> r * d" using assms(1) by (simp add: r_def)
  then have "n * d + d \<le> r * d" by (simp add: algebra_simps)
  moreover have "2 * (r * d) \<le> 2 * n + d" using round_pos_bounds(1) [OF assms] by (simp add: r_def)
  moreover have "n * 1 \<le> n * d" using assms by (intro mult_left_mono) auto
  ultimately show False using assms(1) by linarith
qed

text \<open>\<open>(a + b/2) / b\<close> in integers, the shape the packages use, is this rounding for any parity of \<open>b\<close>.\<close>

lemma half_up_div:
  assumes "0 \<le> a" "0 < b"
  shows "(a + b div 2) div b = round_half_away a b"
proof -
  define q where "q = (a + b div 2) div b"
  have q: "b * q \<le> a + b div 2" "a + b div 2 < b * q + b"
    using div_bounds [of b "a + b div 2"] assms unfolding q_def by auto
  have h: "2 * (b div 2) \<le> b" "b \<le> 2 * (b div 2) + 1" by presburger+
  have "2 * (q * b) \<le> 2 * a + b" using q h by (simp add: mult.commute) 
  moreover have "2 * a + b < 2 * (q * b) + 2 * b"
  proof -
    have "a + b div 2 + 1 \<le> b * q + b" using q(2) by simp
    then show ?thesis using h by (simp add: mult.commute)
  qed
  ultimately show ?thesis using round_unique [OF assms(2,1)] by (simp add: q_def)
qed

section \<open>The contract of a rounding routine\<close>

locale half_away =
  fixes rnd :: "int \<Rightarrow> int \<Rightarrow> int" and ok :: "int \<Rightarrow> int \<Rightarrow> bool"
  assumes ok_pos: "ok n d \<Longrightarrow> 0 < d"
    and rnd_ref: "ok n d \<Longrightarrow> rnd n d = round_half_away n d"
begin

lemma nearest: "ok n d \<Longrightarrow> \<bar>2 * (rnd n d * d - n)\<bar> \<le> d"
  using round_nearest ok_pos rnd_ref by simp

lemma exact: "ok (q * d) d \<Longrightarrow> rnd (q * d) d = q"
  using round_exact ok_pos rnd_ref by simp

lemma odd_symmetric: "ok n d \<Longrightarrow> ok (- n) d \<Longrightarrow> rnd (- n) d = - rnd n d"
  using round_neg ok_pos rnd_ref by simp

lemma mono: "ok m d \<Longrightarrow> ok n d \<Longrightarrow> m \<le> n \<Longrightarrow> rnd m d \<le> rnd n d"
  using round_mono ok_pos rnd_ref by metis

lemma nonneg: "ok n d \<Longrightarrow> 0 \<le> n \<Longrightarrow> 0 \<le> rnd n d"
  using round_pos_bounds(3) ok_pos rnd_ref by simp

end

end
