(* ===== verification/Fx.thy ===== *)
theory Fx
  imports Shared Rounding
begin

text \<open>
  \<^verbatim>\<open>internal/domain/fx/rate.go\<close>: fixed-point currency rates. A rate is scaled by \<open>10^8\<close>; amounts
  are integer minor units. Parsing is exact, conversion and inversion round half away from zero over
  unbounded integers (\<open>big.Int\<close>) and report a result that does not fit into 64 bits.
\<close>

section \<open>Model\<close>

definition rate_scale :: int where "rate_scale = 100000000"
definition rate_decimals :: nat where "rate_decimals = 8"

record rate =
  r_base :: string
  r_quote :: string
  r_scaled :: int
  r_effective :: go_time
  r_source :: string

record conversion =
  c_amount :: int
  c_rate :: rate

definition err_rate_not_found :: error where "err_rate_not_found = Plain ''fx: no effective rate''"
definition err_overflow :: error where "err_overflow = Plain ''fx: amount overflow''"

definition div_round :: "int \<Rightarrow> int \<Rightarrow> int result" where
  "div_round n d =
     (let q = quo n d; r = rem n d;
          q = (if \<bar>r\<bar> * 2 \<ge> \<bar>d\<bar> then (if (n < 0) \<noteq> (d < 0) then q - 1 else q + 1) else q)
      in if \<not> fits64 q then Inl err_overflow else Inr q)"

definition parse_rate :: "string \<Rightarrow> int result" where
  "parse_rate s =
     (let s = trim_space s; (int_part, frac, has_dot) = cut (CHR ''.'') s
      in if int_part = [] \<or> \<not> digits_only int_part \<or> (has_dot \<and> (frac = [] \<or> \<not> digits_only frac))
         then Inl (new_validation ''rate must be a positive decimal like 3.75'')
         else if length frac > rate_decimals
         then Inl (new_validation (''rate supports at most '' @ show_nat rate_decimals @ '' decimal places''))
         else case parse_int64 int_part of
           None \<Rightarrow> Inl (new_validation ''rate is too large'')
         | Some whole \<Rightarrow>
             (if whole > quo (int64_max - rate_scale) rate_scale
              then Inl (new_validation ''rate is too large'')
              else let frac_scaled =
                     (if frac \<noteq> [] then
                        (case parse_int64 (frac @ replicate (rate_decimals - length frac) (CHR ''0'')) of
                           None \<Rightarrow> 0 | Some v \<Rightarrow> v)
                      else 0);
                     scaled = add64 (mul64 whole rate_scale) frac_scaled
                   in if scaled \<le> 0 then Inl (new_validation ''rate must be greater than zero'')
                      else Inr scaled))"

definition format_rate :: "int \<Rightarrow> string" where
  "format_rate scaled =
     show_int (quo scaled rate_scale) @ ''.'' @ show_int0 8 (rem scaled rate_scale)"

definition apply_rate :: "int \<Rightarrow> int \<Rightarrow> int result" where
  "apply_rate amount scaled =
     (if scaled \<le> 0 then Inl (new_validation ''rate must be greater than zero'')
      else div_round (amount * scaled) rate_scale)"

definition invert_rate :: "int \<Rightarrow> int result" where
  "invert_rate scaled =
     (if scaled \<le> 0 then Inl (new_validation ''rate must be greater than zero'')
      else case div_round (rate_scale * rate_scale) scaled of
             Inl e \<Rightarrow> Inl e
           | Inr v \<Rightarrow> if v = 0 then Inl (new_validation ''rate is too large to invert'') else Inr v)"

definition date_of :: "go_time \<Rightarrow> go_time" where
  "date_of t = (let (y, m, d) = time_date t in date_utc y m d)"

definition identity_rate :: "string \<Rightarrow> go_time \<Rightarrow> rate" where
  "identity_rate currency on =
     \<lparr>r_base = currency, r_quote = currency, r_scaled = rate_scale, r_effective = date_of on,
      r_source = ''identity''\<rparr>"

text \<open>The tail of \<open>Pick\<close>: an inverse rate read the other way round.\<close>

definition flip_rate :: "rate \<Rightarrow> rate result" where
  "flip_rate i =
     (case invert_rate (r_scaled i) of
        Inl e \<Rightarrow> Inl e
      | Inr s \<Rightarrow> Inr \<lparr>r_base = r_quote i, r_quote = r_base i, r_scaled = s,
                     r_effective = r_effective i, r_source = r_source i @ '' (inverse)''\<rparr>)"

definition pick_rate :: "rate option \<Rightarrow> rate option \<Rightarrow> rate result" where
  "pick_rate direct opposite =
     (case (direct, opposite) of
        (None, None) \<Rightarrow> Inl err_rate_not_found
      | (Some d, None) \<Rightarrow> Inr d
      | (Some d, Some i) \<Rightarrow>
          if \<not> after (r_effective i) (r_effective d) then Inr d else flip_rate i
      | (None, Some i) \<Rightarrow> flip_rate i)"

definition normalize_currency :: "string \<Rightarrow> string result" where
  "normalize_currency s =
     (let s = to_upper (trim_space s)
      in if length s \<noteq> 3 then Inl (new_validation ''currency must be ISO-4217 (3 letters)'')
         else if list_all is_upper s then Inr s
         else Inl (new_validation ''currency must be ISO-4217 (3 letters)''))"

definition fx_parse_date :: "string \<Rightarrow> go_time result" where
  "fx_parse_date s = (case parse_date (trim_space s) of
      None \<Rightarrow> Inl (new_validation ''date must be YYYY-MM-DD'') | Some d \<Rightarrow> Inr d)"

section \<open>Rounding\<close>

lemma rate_scale_pos [simp]: "0 < rate_scale" by (simp add: rate_scale_def)

text \<open>The adjusted truncating quotient is the reference rounding.\<close>

lemma div_round_ref:
  assumes d: "0 < d"
  shows "div_round n d = (if fits64 (round_half_away n d) then Inr (round_half_away n d) else Inl err_overflow)"
proof -
  have pos: "(if \<bar>rem n d\<bar> * 2 \<ge> \<bar>d\<bar> then quo n d + 1 else quo n d) = round_half_away n d"
    if n: "0 \<le> n" for n
  proof -
    define q where "q = n div d"
    have b: "d * q \<le> n" "n < d * q + d" using div_bounds [OF d, of n] by (simp_all add: q_def)
    have r: "rem n d = n - q * d" using d n by (simp add: rem_def quo_nonneg q_def)
    have "round_half_away n d = (if d \<le> 2 * (n - q * d) then q + 1 else q)"
      using b by (intro round_unique [OF d n]) (auto simp: algebra_simps)
    then show ?thesis using d n b by (simp add: r quo_nonneg q_def [symmetric] algebra_simps)
  qed
  have "(if \<bar>rem n d\<bar> * 2 \<ge> \<bar>d\<bar> then (if (n < 0) \<noteq> (d < 0) then quo n d - 1 else quo n d + 1) else quo n d)
      = round_half_away n d"
  proof (cases "0 \<le> n")
    case True
    with d pos [OF True] show ?thesis by (simp split: if_splits)
  next
    case False
    then have n: "0 \<le> - n" by simp
    have q: "quo n d = - quo (- n) d" using False d by (simp add: quo_neg quo_nonneg)
    then have "rem n d = - rem (- n) d" by (simp add: rem_def)
    with q False d pos [OF n] show ?thesis by (simp add: round_neg [OF d] split: if_splits)
  qed
  then show ?thesis by (simp add: div_round_def Let_def)
qed

interpretation div_round: half_away "\<lambda>n d. projr (div_round n d)"
  "\<lambda>n d. 0 < d \<and> fits64 (round_half_away n d)"
  by unfold_locales (auto simp: div_round_ref)

lemma div_round_Inr:
  assumes "div_round n d = Inr q" "0 < d"
  shows "q = round_half_away n d" "fits64 q"
  using assms by (auto simp: div_round_ref split: if_splits)

lemma div_round_close:
  assumes "div_round n d = Inr q" "0 < d"
  shows "\<bar>2 * (q * d - n)\<bar> \<le> d"
  using div_round.nearest [of d n] div_round_Inr [OF assms] assms by simp

section \<open>Parsing and formatting\<close>

lemma dot_no_digit: "digits_only s \<Longrightarrow> CHR ''.'' \<notin> set s"
  by (auto simp: digits_only_def list_all_iff is_digit_def)

lemma max_whole: "quo (int64_max - rate_scale) rate_scale = 92233720367"
  by (simp add: int64_max_def rate_scale_def quo_def)

lemma frac_text:
  assumes "digits_only fr" "length fr \<le> rate_decimals" "fr \<noteq> []"
  defines "v \<equiv> dec_val (fr @ replicate (rate_decimals - length fr) (CHR ''0''))"
  shows "parse_int64 (fr @ replicate (rate_decimals - length fr) (CHR ''0'')) = Some v"
    "v * 10 ^ length fr = dec_val fr * rate_scale" "0 \<le> v" "v < rate_scale"
proof -
  let ?t = "fr @ replicate (rate_decimals - length fr) (CHR ''0'')"
  have d: "digits_only ?t"
    using assms(1) by simp
  have "length ?t = 8" using assms(2) by (simp add: rate_decimals_def)
  with dec_val_less [OF d] dec_val_nonneg [OF d]
  show b: "v < rate_scale" "0 \<le> v" by (simp_all add: v_def rate_scale_def)
  with d assms(3) show "parse_int64 ?t = Some v"
    by (simp add: parse_int64_def v_def rate_scale_def int64_max_def)
  have "v = dec_val fr * 10 ^ (rate_decimals - length fr)"
    by (simp add: v_def dec_val_append dec_val_zeros)
  then have "v * 10 ^ length fr = dec_val fr * 10 ^ (rate_decimals - length fr + length fr)"
    by (simp add: power_add)
  with assms(2) show "v * 10 ^ length fr = dec_val fr * rate_scale"
    by (simp add: rate_decimals_def rate_scale_def)
qed

text \<open>
  What an accepted text looks like and the value it yields, before the final sign check: whole part
  and fraction scaled without any wrap-around.
\<close>

lemma scaled_no_wrap:
  assumes "0 \<le> whole" "whole \<le> 92233720367" "0 \<le> v" "v < rate_scale"
  shows "add64 (mul64 whole rate_scale) v = whole * rate_scale + v" "fits64 (whole * rate_scale + v)"
proof -
  have "fits64 (whole * rate_scale)" "fits64 (whole * rate_scale + v)"
    using assms by (auto simp: fits64_def rate_scale_def)
  then show "add64 (mul64 whole rate_scale) v = whole * rate_scale + v" "fits64 (whole * rate_scale + v)"
    by (simp_all add: mul64_id add64_id)
qed

text \<open>
  \<open>ParseRate\<close> never loses precision: whatever it accepts is, after trimming, an unsigned decimal
  with at most eight fractional digits, and the scaled result is exactly its value times \<open>10^8\<close>,
  positive and within 64 bits.
\<close>

theorem parse_rate_exact:
  assumes "parse_rate s = Inr v"
  shows "\<exists>ip fr. trim_space s = ip @ (if fr = [] then [] else CHR ''.'' # fr)
           \<and> ip \<noteq> [] \<and> digits_only ip \<and> digits_only fr \<and> length fr \<le> 8
           \<and> v * 10 ^ length fr = dec_val (ip @ fr) * 10 ^ 8 \<and> 0 < v \<and> fits64 v"
proof -
  obtain ip fr dot where c: "cut (CHR ''.'') (trim_space s) = (ip, fr, dot)" by (metis prod_cases3)
  note [simp] = parse_rate_def c Let_def
  have ip: "ip \<noteq> []" "digits_only ip" and fr: "dot \<Longrightarrow> fr \<noteq> [] \<and> digits_only fr" "length fr \<le> rate_decimals"
    using assms by (auto split: if_splits option.splits)
  obtain whole where w: "parse_int64 ip = Some whole" "whole \<le> 92233720367"
    using assms by (auto simp: max_whole split: if_splits option.splits)
  then have wv: "whole = dec_val ip" "0 \<le> whole"
    using dec_val_nonneg [OF ip(2)] by (auto simp: parse_int64_def split: if_splits)
  define f where "f = (if fr \<noteq> [] then dec_val (fr @ replicate (rate_decimals - length fr) (CHR ''0'')) else 0)"
  have dfr: "digits_only fr" and shape: "trim_space s = ip @ (if fr = [] then [] else CHR ''.'' # fr)"
    using fr(1) cut_concat [OF c] by (cases dot; simp add: digits_only_def)+
  have f: "0 \<le> f" "f < rate_scale" "f * 10 ^ length fr = dec_val fr * rate_scale"
    using frac_text [OF dfr fr(2)] by (auto simp: f_def dec_val_def)
  have "v = whole * rate_scale + f" "0 < v" "fits64 v"
    using assms ip fr dfr w scaled_no_wrap [OF wv(2) w(2) f(1,2)] frac_text(1) [OF dfr fr(2)]
    by (auto simp: f_def max_whole split: if_splits)
  then show ?thesis
    using ip dfr fr(2) shape f(3) wv
    by (intro exI [of _ ip] exI [of _ fr])
       (auto simp: rate_decimals_def dec_val_append rate_scale_def algebra_simps)
qed

theorem parse_rate_exact_witness:
  "\<exists>ip fr. trim_space '' 3.75'' = ip @ (if fr = [] then [] else CHR ''.'' # fr)
           \<and> ip \<noteq> [] \<and> digits_only ip \<and> digits_only fr \<and> length fr \<le> 8
           \<and> 375000000 * 10 ^ length fr = dec_val (ip @ fr) * 10 ^ 8 \<and> (0::int) < 375000000
           \<and> fits64 375000000"
proof (rule parse_rate_exact)
  show "parse_rate '' 3.75'' = Inr 375000000" by code_simp
qed

text \<open>
  \<open>FormatRate\<close> followed by \<open>ParseRate\<close> is the identity on every positive scaled rate that
  \<open>ParseRate\<close> can produce (a whole part of at most 92233720367).
\<close>

theorem parse_format_rate:
  assumes "0 < v" "v < 92233720368 * rate_scale"
  shows "parse_rate (format_rate v) = Inr v"
proof -
  define w f where "w = v div rate_scale" and "f = v mod rate_scale"
  define ip fr where "ip = show_int w" and "fr = show_int0 8 f"
  have w: "0 \<le> w" "w < 92233720368"
    using assms by (simp_all add: w_def pos_imp_zdiv_nonneg_iff) (simp add: rate_scale_def)
  have f: "0 \<le> f" "f < 10 ^ 8" by (simp_all add: f_def rate_scale_def)
  have v: "v = w * rate_scale + f" by (simp add: w_def f_def)
  have ip: "digits_only ip" "dec_val ip = w" "ip \<noteq> []" using w by (simp_all add: ip_def show_int_def)
  have fr: "length fr = 8" "dec_val fr = f" "digits_only fr"
    using show_int0_nonneg [OF f] by (simp_all add: fr_def)
  then have "fr \<noteq> []" by auto
  have fmt: "format_rate v = ip @ CHR ''.'' # fr"
    using assms by (simp add: format_rate_def ip_def fr_def w_def f_def quo_nonneg rem_nonneg)
  have trim: "trim_space (ip @ CHR ''.'' # fr) = ip @ CHR ''.'' # fr"
    using digits_visible [OF ip(1,3)] digits_visible [OF fr(3) \<open>fr \<noteq> []\<close>] ip(3) \<open>fr \<noteq> []\<close>
    by (intro trim_space_visible) simp
  have c: "cut (CHR ''.'') (ip @ CHR ''.'' # fr) = (ip, fr, True)"
    by (rule cut_found) (rule dot_no_digit [OF ip(1)])
  have pw: "parse_int64 ip = Some w" using ip w by (simp add: parse_int64_def int64_max_def)
  have pf: "parse_int64 fr = Some f"
    using fr f \<open>fr \<noteq> []\<close> by (simp add: parse_int64_def int64_max_def)
  have nw: "add64 (mul64 w rate_scale) f = v"
    using w f v scaled_no_wrap(1) [of w f] by (simp add: rate_scale_def)
  show ?thesis
    using assms(1) ip fr w \<open>fr \<noteq> []\<close>
    by (simp add: fmt parse_rate_def Let_def trim c pw pf nw max_whole rate_decimals_def)
qed

theorem parse_format_rate_witness:
  "(0::int) < 26666667 \<and> 26666667 < 92233720368 * rate_scale
     \<and> parse_rate (format_rate 26666667) = Inr 26666667"
  using parse_format_rate [of 26666667] by (simp add: rate_scale_def)

section \<open>Converting, inverting and choosing a rate\<close>

lemma err_overflow_ne [simp]: "Inl err_overflow \<noteq> Inr x" "new_validation m \<noteq> err_overflow" "err_overflow \<noteq> new_validation m"
  by (simp_all add: err_overflow_def new_validation_def mk_app_def)



text \<open>
  Converting a currency into itself uses the identity rate, and applying it changes no amount.
\<close>

theorem apply_identity: "fits64 a \<Longrightarrow> apply_rate a (r_scaled (identity_rate c t)) = Inr a"
  by (simp add: apply_rate_def identity_rate_def div_round_ref round_exact not_le)

theorem apply_identity_witness:
  "fits64 (- 5) \<and> apply_rate (- 5) (r_scaled (identity_rate ''USD'' (midnight 1))) = Inr (- 5)"
  using apply_identity [of "- 5"] by (simp add: fits64_def)

lemma invert_rate_Inr:
  assumes "invert_rate s = Inr v"
  shows "0 < s" "0 < v" "\<bar>2 * (v * s - rate_scale * rate_scale)\<bar> \<le> s" "fits64 v"
proof -
  show s: "0 < s" using assms by (simp add: invert_rate_def split: if_splits)
  have d: "div_round (rate_scale * rate_scale) s = Inr v" and nz: "v \<noteq> 0"
    using assms by (auto simp: invert_rate_def split: if_splits sum.splits)
  show "\<bar>2 * (v * s - rate_scale * rate_scale)\<bar> \<le> s" by (rule div_round_close [OF d s])
  have "0 \<le> v" using div_round_Inr(1) [OF d s] round_pos_bounds(3) [OF s, of "rate_scale * rate_scale"]
    by simp
  with nz show "0 < v" by simp
  show "fits64 v" by (rule div_round_Inr(2) [OF d s])
qed

text \<open>
  The rates stored for a pair are positive, carry the pair in the order they quote it and a date;
  \<open>quotes b q\<close> is that shape.
\<close>

definition quotes :: "string \<Rightarrow> string \<Rightarrow> rate \<Rightarrow> bool" where
  "quotes b q r \<longleftrightarrow> r_base r = b \<and> r_quote r = q \<and> 0 < r_scaled r"

lemma pick_rate_spec:
  assumes res: "pick_rate d i = Inr r"
    and d: "\<forall>x \<in> set_option d. quotes b q x" and i: "\<forall>x \<in> set_option i. quotes q b x"
  shows "quotes b q r
    \<and> (\<forall>x \<in> set_option d \<union> set_option i. \<not> after (r_effective x) (r_effective r))
    \<and> (d = Some r \<or> (\<exists>x. i = Some x \<and> r_effective r = r_effective x
           \<and> \<bar>2 * (r_scaled r * r_scaled x - rate_scale * rate_scale)\<bar> \<le> r_scaled x))
    \<and> (\<forall>x y. d = Some x \<longrightarrow> i = Some y \<longrightarrow> time_eq (r_effective x) (r_effective y) \<longrightarrow> r = x)"
proof -
  have fl: "quotes b q r \<and> r_effective r = r_effective x
      \<and> \<bar>2 * (r_scaled r * r_scaled x - rate_scale * rate_scale)\<bar> \<le> r_scaled x"
    if "flip_rate x = Inr r" "quotes q b x" for x
    using that invert_rate_Inr [of "r_scaled x"] by (auto simp: flip_rate_def quotes_def split: sum.splits)
  show ?thesis
  proof (cases d)
    case None
    then obtain x where x: "i = Some x" "flip_rate x = Inr r"
      using res by (auto simp: pick_rate_def split: option.splits)
    with fl [OF x(2)] i None show ?thesis by (simp add: after_def)
  next
    case (Some x)
    show ?thesis
    proof (cases "r = x \<and> (\<forall>y. i = Some y \<longrightarrow> \<not> after (r_effective y) (r_effective x))")
      case True
      with d Some show ?thesis by (auto simp: after_def)
    next
      case False
      then obtain y where y: "i = Some y" "flip_rate y = Inr r" "after (r_effective y) (r_effective x)"
        using res Some by (auto simp: pick_rate_def split: option.splits if_splits)
      with fl [OF y(2)] i Some show ?thesis by (auto simp: after_def time_eq_def)
    qed
  qed
qed

text \<open>
  \<open>Pick\<close> returns a positive rate that quotes the requested pair in the requested direction and is
  at least as recent as both candidates; it is one of the two candidates, the opposite one inverted
  to within half a unit of the eighth decimal, and on equal dates the direct one wins.
\<close>

theorem pick_rate_newest:
  assumes res: "pick_rate d i = Inr r"
    and d: "\<forall>x \<in> set_option d. quotes b q x" and i: "\<forall>x \<in> set_option i. quotes q b x"
  shows "quotes b q r
    \<and> (\<forall>x \<in> set_option d \<union> set_option i. \<not> after (r_effective x) (r_effective r))
    \<and> (d = Some r \<or> (\<exists>x. i = Some x \<and> r_effective r = r_effective x
           \<and> \<bar>2 * (r_scaled r * r_scaled x - rate_scale * rate_scale)\<bar> \<le> r_scaled x))
    \<and> (\<forall>x y. d = Some x \<longrightarrow> i = Some y \<longrightarrow> time_eq (r_effective x) (r_effective y) \<longrightarrow> r = x)"
  by (rule pick_rate_spec [OF assms])

theorem pick_rate_newest_witness:
  "\<exists>d i r. pick_rate (Some d) (Some i) = Inr r \<and> after (r_effective i) (r_effective d)
     \<and> quotes ''USD'' ''SAR'' d \<and> quotes ''SAR'' ''USD'' i
     \<and> quotes ''USD'' ''SAR'' r \<and> \<not> after (r_effective i) (r_effective r)"
proof -
  define d i r :: rate where
    "d = \<lparr>r_base = ''USD'', r_quote = ''SAR'', r_scaled = 375000000, r_effective = midnight 738000, r_source = ''m''\<rparr>"
    and "i = \<lparr>r_base = ''SAR'', r_quote = ''USD'', r_scaled = 26666667, r_effective = midnight 738001, r_source = ''m''\<rparr>"
    and "r = \<lparr>r_base = ''USD'', r_quote = ''SAR'', r_scaled = 374999995, r_effective = midnight 738001, r_source = ''m (inverse)''\<rparr>"
  have p: "pick_rate (Some d) (Some i) = Inr r" unfolding d_def i_def r_def by code_simp
  have q: "quotes ''USD'' ''SAR'' d" "quotes ''SAR'' ''USD'' i" "after (r_effective i) (r_effective d)"
    by (simp_all add: d_def i_def quotes_def)
  note t = pick_rate_newest [OF p, of "''USD''" "''SAR''"]
  have "quotes ''USD'' ''SAR'' r" "\<not> after (r_effective i) (r_effective r)" using t q by auto
  with p q show ?thesis by blast
qed

lemma normalize_currency_Inr:
  assumes "normalize_currency s = Inr c"
  shows "length c = 3" "list_all is_upper c" "normalize_currency c = Inr c"
proof -
  show l: "length c = 3" "list_all is_upper c"
    using assms by (auto simp: normalize_currency_def Let_def split: if_splits)
  have v: "is_upper x \<Longrightarrow> visible x" for x by (simp add: is_upper_def visible_def)
  have "c \<noteq> []" using l(1) by auto
  then have "visible (hd c) \<and> visible (last c)" using l(2) v by (simp add: list_all_iff)
  then have "trim_space c = c" by (simp add: trim_space_visible)
  with l show "normalize_currency c = Inr c" by (simp add: normalize_currency_def to_upper_upper)
qed

end
