(* ===== verification/Access.thy ===== *)
theory Access
  imports Shared
begin

text \<open>
  \<^verbatim>\<open>internal/domain/access\<close>: the visibility envelope of a caller (\<open>scope\<close>), the branch a query or
  a write is pinned to, and the decision whether one record is visible. The package is meant to be
  fail-closed: the zero scope grants nothing.

  A \<open>uuid.UUID\<close> is a natural number with 0 for \<open>uuid.Nil\<close>; an optional pointer is an \<open>option\<close>.
\<close>

type_synonym uuid = nat

abbreviation uuid_nil :: uuid where "uuid_nil \<equiv> 0"

datatype level = LevelNone | LevelOwn | LevelTeam | LevelBranch | LevelCompany | LevelGlobal

instantiation level :: linorder
begin
fun level_rank :: "level \<Rightarrow> nat" where
  "level_rank LevelNone = 0" | "level_rank LevelOwn = 1" | "level_rank LevelTeam = 2"
| "level_rank LevelBranch = 3" | "level_rank LevelCompany = 4" | "level_rank LevelGlobal = 5"
definition less_eq_level :: "level \<Rightarrow> level \<Rightarrow> bool" where
  "less_eq_level a b \<longleftrightarrow> level_rank a \<le> level_rank b"
definition less_level :: "level \<Rightarrow> level \<Rightarrow> bool" where
  "less_level a b \<longleftrightarrow> level_rank a < level_rank b"
instance
proof
  fix a b :: level
  show "a \<le> b \<Longrightarrow> b \<le> a \<Longrightarrow> a = b" by (cases a; cases b) (simp_all add: less_eq_level_def)
qed (auto simp: less_eq_level_def less_level_def)
end

lemmas level_order = less_eq_level_def less_level_def

record scope =
  Level :: level
  UserID :: uuid
  BranchID :: uuid
  TeamID :: uuid
  CompanyID :: uuid
  Branches :: "uuid list"

record scoped_record =
  RecBranchID :: uuid
  RecOwnerID :: "uuid option"
  RecOwnerTeamID :: "uuid option"

definition zero_scope :: scope where
  "zero_scope = \<lparr>Level = LevelNone, UserID = 0, BranchID = 0, TeamID = 0, CompanyID = 0, Branches = []\<rparr>"

definition err_no_scope :: error where "err_no_scope = Plain ''access scope missing''"
definition err_branch_forbidden :: error where "err_branch_forbidden = Plain ''branch outside caller scope''"
definition err_owner_forbidden :: error where "err_owner_forbidden = new_forbidden ''owner outside caller scope''"
definition err_branch_required :: error where "err_branch_required = new_validation ''branch_id is required''"

definition system_scope :: scope where "system_scope = zero_scope\<lparr>Level := LevelGlobal\<rparr>"

definition for_branch :: "uuid \<Rightarrow> scope" where
  "for_branch b = zero_scope\<lparr>Level := LevelBranch, BranchID := b\<rparr>"

definition allowed :: "scope \<Rightarrow> bool" where "allowed s \<longleftrightarrow> Level s > LevelNone"

definition is_elevated :: "scope \<Rightarrow> bool" where "is_elevated s \<longleftrightarrow> Level s \<ge> LevelTeam"

definition branch_filter :: "scope \<Rightarrow> uuid option" where
  "branch_filter s = (if Level s = LevelGlobal \<or> Level s = LevelCompany \<or> Level s = LevelNone then None
                      else Some (BranchID s))"

definition company_branches :: "scope \<Rightarrow> uuid list option" where
  "company_branches s = (if Level s \<noteq> LevelCompany then None else Some (Branches s))"

definition in_company :: "scope \<Rightarrow> uuid \<Rightarrow> bool" where
  "in_company s b \<longleftrightarrow> list_ex (\<lambda>x. x = b) (Branches s)"

definition owner_filter :: "scope \<Rightarrow> uuid option" where
  "owner_filter s = (if Level s = LevelOwn then Some (UserID s) else None)"

definition team_filter :: "scope \<Rightarrow> uuid option" where
  "team_filter s = (if Level s = LevelTeam then Some (TeamID s) else None)"

definition resolve_branch :: "scope \<Rightarrow> uuid option \<Rightarrow> uuid option result" where
  "resolve_branch s requested =
     (case Level s of
        LevelNone \<Rightarrow> Inl err_no_scope
      | LevelGlobal \<Rightarrow> Inr requested
      | LevelCompany \<Rightarrow>
          (let b = (case requested of Some r \<Rightarrow> if r \<noteq> uuid_nil then r else BranchID s
                    | None \<Rightarrow> BranchID s)
           in if \<not> in_company s b then Inl err_branch_forbidden else Inr (Some b))
      | _ \<Rightarrow>
          (case requested of
             Some r \<Rightarrow> if r \<noteq> uuid_nil \<and> r \<noteq> BranchID s then Inl err_branch_forbidden
                       else Inr (Some (BranchID s))
           | None \<Rightarrow> Inr (Some (BranchID s))))"

definition can_access :: "scope \<Rightarrow> scoped_record \<Rightarrow> bool" where
  "can_access s r =
     (case Level s of
        LevelGlobal \<Rightarrow> True
      | LevelCompany \<Rightarrow> in_company s (RecBranchID r)
      | LevelBranch \<Rightarrow> RecBranchID r = BranchID s
      | LevelTeam \<Rightarrow>
          (if RecBranchID r \<noteq> BranchID s then False
           else case RecOwnerID r of
                  None \<Rightarrow> True
                | Some ow \<Rightarrow> if ow = UserID s then True
                           else (case RecOwnerTeamID r of None \<Rightarrow> False | Some t \<Rightarrow> t = TeamID s))
      | LevelOwn \<Rightarrow> RecBranchID r = BranchID s \<and> RecOwnerID r = Some (UserID s)
      | LevelNone \<Rightarrow> False)"

definition can_access_company :: "scope \<Rightarrow> uuid \<Rightarrow> bool" where
  "can_access_company s c \<longleftrightarrow>
     (if Level s = LevelGlobal then True
      else Level s > LevelNone \<and> c \<noteq> uuid_nil \<and> CompanyID s = c)"

definition can_access_branch :: "scope \<Rightarrow> uuid \<Rightarrow> bool" where
  "can_access_branch s b =
     (case Level s of
        LevelGlobal \<Rightarrow> True
      | LevelCompany \<Rightarrow> in_company s b
      | _ \<Rightarrow> Level s > LevelNone \<and> b = BranchID s)"

text \<open>\<open>Require\<close>: the scope on the context (the zero scope when absent) or \<open>ErrNoScope\<close>.\<close>

definition require :: "scope option \<Rightarrow> scope result" where
  "require ctx = (let s = (case ctx of None \<Rightarrow> zero_scope | Some s \<Rightarrow> s)
                  in if \<not> allowed s then Inl err_no_scope else Inr s)"

definition write_branch :: "scope \<Rightarrow> uuid \<Rightarrow> uuid result" where
  "write_branch s requested =
     (let req = (if requested \<noteq> uuid_nil then Some requested else None)
      in case resolve_branch s req of
           Inl e \<Rightarrow> Inl e
         | Inr b \<Rightarrow>
             (if (case b of Some x \<Rightarrow> x \<noteq> uuid_nil | None \<Rightarrow> False) then Inr (the b)
              else if BranchID s \<noteq> uuid_nil then Inr (BranchID s)
              else Inl err_branch_required))"

definition resolve_owner :: "scope \<Rightarrow> uuid \<Rightarrow> uuid result" where
  "resolve_owner s requested =
     (if \<not> allowed s then Inl err_no_scope
      else let r = (if requested = uuid_nil then UserID s else requested)
           in if Level s = LevelOwn \<and> r \<noteq> UserID s then Inl err_owner_forbidden else Inr r)"

definition can_reassign :: "scope \<Rightarrow> bool" where "can_reassign s \<longleftrightarrow> is_elevated s"

lemmas scope_defs = can_access_def can_access_branch_def resolve_branch_def allowed_def level_order

section \<open>Writing into one's own scope\<close>

lemma resolve_branch_in_scope:
  assumes "resolve_branch s req = Inr b"
  shows "allowed s" "b = None \<Longrightarrow> Level s = LevelGlobal" "b = Some x \<Longrightarrow> can_access_branch s x"
  using assms
  by (cases "Level s"; auto simp: scope_defs Let_def split: option.splits if_splits)+

text \<open>
  The branch \<open>WriteBranch\<close> chooses is never the nil branch and always one the caller's scope
  covers; below company level it is the caller's own branch whatever was requested, and a request for
  another branch is refused with \<open>ErrBranchForbidden\<close>.
\<close>

theorem write_branch_in_scope:
  "case write_branch s req of
     Inr b \<Rightarrow> b \<noteq> uuid_nil \<and> can_access_branch s b \<and> (Level s \<le> LevelBranch \<longrightarrow> b = BranchID s)
            \<and> (req \<noteq> uuid_nil \<longrightarrow> b = req)
   | Inl e \<Rightarrow> (e = err_no_scope \<longleftrightarrow> \<not> allowed s)
            \<and> (e = err_branch_required \<longrightarrow> req = uuid_nil \<and> BranchID s = uuid_nil)
            \<and> (e = err_branch_forbidden \<longrightarrow> \<not> can_access_branch s (if req = uuid_nil then BranchID s else req))"
  by (cases "Level s")
     (auto simp: write_branch_def scope_defs Let_def in_company_def err_no_scope_def err_branch_required_def
           err_branch_forbidden_def error_defs split: option.splits)

theorem write_branch_in_scope_witness:
  "write_branch (zero_scope\<lparr>Level := LevelCompany, BranchID := 7, Branches := [7, 9]\<rparr>) 9 = Inr 9
   \<and> can_access_branch (zero_scope\<lparr>Level := LevelCompany, BranchID := 7, Branches := [7, 9]\<rparr>) 9"
proof -
  have w: "write_branch (zero_scope\<lparr>Level := LevelCompany, BranchID := 7, Branches := [7, 9]\<rparr>) 9 = Inr 9"
    by code_simp
  show ?thesis
    using write_branch_in_scope [of "zero_scope\<lparr>Level := LevelCompany, BranchID := 7, Branches := [7, 9]\<rparr>" 9]
    unfolding w sum.case by blast
qed

text \<open>
  A caller sees what it creates: a record written to the branch \<open>WriteBranch\<close> grants and owned by
  whom \<open>ResolveOwner\<close> grants is visible to its creator, when the creator owns it or the scope covers
  all owners of a branch; an own-level caller cannot create a record it would lose sight of.
\<close>

theorem created_record_visible:
  assumes "write_branch s rb = Inr b" "resolve_owner s ro = Inr ow"
    and "ow = UserID s \<or> Level s = LevelOwn \<or> LevelBranch \<le> Level s"
  shows "can_access s \<lparr>RecBranchID = b, RecOwnerID = Some ow, RecOwnerTeamID = team\<rparr>"
  using assms
  by (cases "Level s")
     (auto simp: write_branch_def resolve_owner_def scope_defs Let_def in_company_def split: if_splits option.splits)

theorem created_record_visible_witness:
  "\<exists>s. Level s = LevelOwn \<and> write_branch s 7 = Inr 7 \<and> resolve_owner s 0 = Inr 5
     \<and> can_access s \<lparr>RecBranchID = 7, RecOwnerID = Some 5, RecOwnerTeamID = None\<rparr>"
proof -
  define s where "s = zero_scope\<lparr>Level := LevelOwn, UserID := 5, BranchID := 7\<rparr>"
  have h: "Level s = LevelOwn" "write_branch s 7 = Inr 7" "resolve_owner s 0 = Inr 5"
    unfolding s_def by code_simp+
  with created_record_visible [OF h(2,3)] show ?thesis by blast
qed

end
