(* ===== verification/Status_Machine.thy ===== *)
theory Status_Machine
  imports Main
begin

text \<open>
  The contracts that the status machines of the program share (bookings, ledger entries, promises,
  change requests): a set of final statuses that no step leaves, and an invariant that holds initially
  and is kept by every step. The consequences for whole runs are proved once here.
\<close>

locale status_machine =
  fixes step :: "'s \<Rightarrow> 's \<Rightarrow> bool" and status :: "'s \<Rightarrow> 'st" and final :: "'st \<Rightarrow> bool"
  assumes final_kept: "step s t \<Longrightarrow> final (status s) \<Longrightarrow> status t = status s"
begin

lemma final_absorbing: "step\<^sup>*\<^sup>* s t \<Longrightarrow> final (status s) \<Longrightarrow> status t = status s"
  by (induction rule: rtranclp_induct) (auto dest: final_kept)

lemma leaves_only_open:
  assumes "step\<^sup>*\<^sup>* s t" "status t \<noteq> status s"
  shows "\<not> final (status s)"
  using assms final_absorbing by blast

end

locale invariant_machine =
  fixes init :: "'s \<Rightarrow> bool" and step :: "'s \<Rightarrow> 's \<Rightarrow> bool" and good :: "'s \<Rightarrow> bool"
  assumes init_good: "init s \<Longrightarrow> good s"
    and step_good: "good s \<Longrightarrow> step s t \<Longrightarrow> good t"
begin

lemma run_good: "step\<^sup>*\<^sup>* s t \<Longrightarrow> good s \<Longrightarrow> good t"
  by (induction rule: rtranclp_induct) (auto intro: step_good)

lemma reachable_good: "init s \<Longrightarrow> step\<^sup>*\<^sup>* s t \<Longrightarrow> good t"
  using init_good run_good by blast

end

end
