(* ===== verification/Payment.thy ===== *)
theory Payment
  imports Fx Access Status_Machine
begin

text \<open>
  \<^verbatim>\<open>internal/domain/payment\<close>: the ledger entry and the whitelist of its status changes (\<^verbatim>\<open>ledger.go\<close>),
  the rules of recording and approving (\<^verbatim>\<open>rules.go\<close>), payment promises (\<^verbatim>\<open>promise.go\<close>), schedules and the
  money breakdown of a booking (\<^verbatim>\<open>model.go\<close>), and the trigger \<^verbatim>\<open>payments_ledger_guard\<close> of
  \<^verbatim>\<open>migrations/00027_epic21_finance.sql\<close> that enforces the same whitelist in the database.

  String types of the source are datatypes with one extra constructor for every other string.
\<close>

section \<open>Ledger entries\<close>

datatype event_type = EventCharge | EventReverse | EventAdjust | EventRefund | OtherEvent string

datatype pay_status =
  StatusUnverified | StatusVerified | StatusPendingApproval | StatusApproved | StatusRejected
| OtherPayStatus string

fun event_type_str :: "event_type \<Rightarrow> string" where
  "event_type_str EventCharge = ''charge''"
| "event_type_str EventReverse = ''reverse''"
| "event_type_str EventAdjust = ''adjust''"
| "event_type_str EventRefund = ''refund''"
| "event_type_str (OtherEvent s) = s"

fun pay_status_str :: "pay_status \<Rightarrow> string" where
  "pay_status_str StatusUnverified = ''unverified''"
| "pay_status_str StatusVerified = ''verified''"
| "pay_status_str StatusPendingApproval = ''pending_approval''"
| "pay_status_str StatusApproved = ''approved''"
| "pay_status_str StatusRejected = ''rejected''"
| "pay_status_str (OtherPayStatus s) = s"

record reporting_snapshot =
  rs_currency :: string
  rs_amount :: int
  rs_rate :: int
  rs_effective :: go_time

record payment =
  p_id :: uuid
  p_booking :: uuid
  p_amount :: int
  p_currency :: string
  p_method :: string
  p_reference :: string
  p_recorded_by :: uuid
  p_key :: string
  p_event :: event_type
  p_reverses :: "uuid option"
  p_status :: pay_status
  p_approved_by :: "uuid option"
  p_approved_at :: "go_time option"
  p_note :: string
  p_received :: go_time
  p_reporting :: "reporting_snapshot option"
  p_created :: go_time

definition new_reporting_snapshot :: "string \<Rightarrow> conversion \<Rightarrow> reporting_snapshot" where
  "new_reporting_snapshot currency c =
     \<lparr>rs_currency = currency, rs_amount = c_amount c, rs_rate = r_scaled (c_rate c),
      rs_effective = r_effective (c_rate c)\<rparr>"

definition counts_toward_collected :: "payment \<Rightarrow> bool" where
  "counts_toward_collected p \<longleftrightarrow> p_status p = StatusVerified \<or> p_status p = StatusApproved"

section \<open>Status changes\<close>

definition status_transitions :: "(event_type \<times> pay_status \<times> pay_status) list" where
  "status_transitions =
     [(EventCharge, StatusUnverified, StatusVerified),
      (EventRefund, StatusPendingApproval, StatusApproved),
      (EventRefund, StatusPendingApproval, StatusRejected)]"

definition pay_can_transition :: "event_type \<Rightarrow> pay_status \<Rightarrow> pay_status \<Rightarrow> bool" where
  "pay_can_transition e from to \<longleftrightarrow> list_ex (\<lambda>(te, tf, tt). te = e \<and> tf = from \<and> tt = to) status_transitions"

definition transition_to :: "payment \<Rightarrow> pay_status \<Rightarrow> payment result" where
  "transition_to p to =
     (if \<not> pay_can_transition (p_event p) (p_status p) to
      then Inl (new_invalid_state (''payment '' @ event_type_str (p_event p) @ '' cannot move from '' @
             pay_status_str (p_status p) @ '' to '' @ pay_status_str to))
      else Inr (p\<lparr>p_status := to\<rparr>))"

definition requires_approver :: "pay_status \<Rightarrow> bool" where
  "requires_approver to \<longleftrightarrow> to = StatusApproved \<or> to = StatusRejected"

text \<open>
  The trigger on \<open>UPDATE\<close>: the first check is on the columns \<open>ImmutableColumns\<close> lists, which are all
  columns but the status, the approver, its time and the note.
\<close>

definition immutable_columns :: "payment \<Rightarrow> payment" where
  "immutable_columns p = p\<lparr>p_status := StatusUnverified, p_approved_by := None, p_approved_at := None, p_note := []\<rparr>"

definition ledger_guard :: "payment \<Rightarrow> payment \<Rightarrow> error option" where
  "ledger_guard old new =
     (if immutable_columns new \<noteq> immutable_columns old then Some (Plain ''payments ledger entry is immutable'')
      else if p_status new \<noteq> p_status old \<and>
              (p_event old, p_status old, p_status new) \<notin>
                {(EventCharge, StatusUnverified, StatusVerified),
                 (EventRefund, StatusPendingApproval, StatusApproved),
                 (EventRefund, StatusPendingApproval, StatusRejected)}
      then Some (Plain ''payment status transition not allowed'')
      else if p_status new \<in> {StatusApproved, StatusRejected} \<and> p_status new \<noteq> p_status old
              \<and> (p_approved_by new = None \<or> p_approved_at new = None)
      then Some (Plain ''payment approval requires approved_by and approved_at'')
      else if p_approved_by old \<noteq> None \<and> p_approved_by new \<noteq> p_approved_by old
           \<or> p_approved_at old \<noteq> None \<and> p_approved_at new \<noteq> p_approved_at old
           \<or> p_note old \<noteq> [] \<and> p_note new \<noteq> p_note old
      then Some (Plain ''payment approved_by/approved_at/note can only be set once'')
      else None)"

section \<open>Rules\<close>

definition initial_charge_status :: "bool \<Rightarrow> bool \<Rightarrow> pay_status result" where
  "initial_charge_status auto_verify may_approve =
     (if \<not> auto_verify then Inr StatusUnverified
      else if \<not> may_approve
      then Inl (mk_app ''forbidden_auto_verify'' ''auto_verify requires payments.approve'' ErrForbidden)
      else Inr StatusVerified)"

definition check_refund_approver :: "payment \<Rightarrow> uuid \<Rightarrow> error option" where
  "check_refund_approver refund approver =
     (if p_recorded_by refund = approver
      then Some (mk_app ''sod_violation'' ''refund requester cannot approve the same refund'' ErrForbidden)
      else None)"

definition resolve_received_at :: "go_time option \<Rightarrow> go_time \<Rightarrow> go_time result" where
  "resolve_received_at received today0 =
     (let today = date_of today0 in
      case received of
        None \<Rightarrow> Inr today
      | Some r \<Rightarrow>
          if is_zero r then Inr today
          else let d = date_of r
               in if after d today then Inl (new_validation ''received_at cannot be in the future'') else Inr d)"

section \<open>Schedules and the money breakdown\<close>

datatype schedule_status = ScheduleOpen | SchedulePaid | ScheduleCancelled | ScheduleOverdue

record schedule =
  sc_id :: uuid
  sc_booking :: uuid
  sc_due :: go_time
  sc_amount :: int
  sc_currency :: string
  sc_label :: string
  sc_status :: schedule_status
  sc_reminded :: "go_time option"
  sc_created :: go_time
  sc_updated :: go_time

record components =
  co_items :: int
  co_tax :: int
  co_fees :: int
  co_has_lines :: bool

definition components_subtotal :: "components \<Rightarrow> int \<Rightarrow> int \<Rightarrow> int" where
  "components_subtotal c tot discount =
     (if \<not> co_has_lines c then sub64 (sub64 (add64 tot discount) (co_tax c)) (co_fees c) else co_items c)"

section \<open>Promises\<close>

datatype promise_status = PromiseOpen | PromiseKept | PromiseBroken | PromiseCancelled | OtherPromise string

fun promise_status_str :: "promise_status \<Rightarrow> string" where
  "promise_status_str PromiseOpen = ''open''"
| "promise_status_str PromiseKept = ''kept''"
| "promise_status_str PromiseBroken = ''broken''"
| "promise_status_str PromiseCancelled = ''cancelled''"
| "promise_status_str (OtherPromise s) = s"

record promise =
  pr_id :: uuid
  pr_booking :: uuid
  pr_branch :: uuid
  pr_amount :: int
  pr_currency :: string
  pr_promised_on :: go_time
  pr_note :: string
  pr_status :: promise_status
  pr_task :: "uuid option"
  pr_created_by :: uuid
  pr_created :: go_time
  pr_resolved :: "go_time option"

definition validate_new :: "promise \<Rightarrow> go_time \<Rightarrow> error option" where
  "validate_new p today =
     (if pr_amount p \<le> 0 then Some (new_validation ''amount must be > 0'')
      else if is_zero (pr_promised_on p) then Some (new_validation ''promised_on is required'')
      else if before (date_of (pr_promised_on p)) (date_of today)
      then Some (new_validation ''promised_on cannot be in the past'')
      else None)"

definition promise_outcome :: "promise \<Rightarrow> int \<Rightarrow> go_time \<Rightarrow> promise_status" where
  "promise_outcome p collected_since today =
     (if pr_status p \<noteq> PromiseOpen then pr_status p
      else if collected_since \<ge> pr_amount p then PromiseKept
      else if after (date_of today) (date_of (pr_promised_on p)) then PromiseBroken
      else PromiseOpen)"

definition promise_resolve :: "promise \<Rightarrow> promise_status \<Rightarrow> go_time \<Rightarrow> promise result" where
  "promise_resolve p to at =
     (if pr_status p \<noteq> PromiseOpen
      then Inl (new_invalid_state (''promise is already '' @ promise_status_str (pr_status p)))
      else if to = PromiseOpen then Inl (new_invalid_state ''promise is already open'')
      else Inr (p\<lparr>pr_status := to, pr_resolved := Some (utc at)\<rparr>))"

record promise_summary =
  ps_open_count :: int
  ps_open_amount :: int
  ps_next :: "go_time option"

definition summarize_one :: "promise \<Rightarrow> promise_summary \<Rightarrow> promise_summary" where
  "summarize_one p s =
     (if pr_status p \<noteq> PromiseOpen then s
      else \<lparr>ps_open_count = add64 (ps_open_count s) 1, ps_open_amount = add64 (ps_open_amount s) (pr_amount p),
            ps_next = (case ps_next s of
                None \<Rightarrow> Some (pr_promised_on p)
              | Some d \<Rightarrow> if before (pr_promised_on p) d then Some (pr_promised_on p) else Some d)\<rparr>)"

definition summarize_promises :: "promise list \<Rightarrow> promise_summary" where
  "summarize_promises ps = fold summarize_one ps \<lparr>ps_open_count = 0, ps_open_amount = 0, ps_next = None\<rparr>"

section \<open>Laws of the ledger\<close>

lemma pay_can_transition_iff:
  "pay_can_transition e from to \<longleftrightarrow>
     (e, from, to) \<in> {(EventCharge, StatusUnverified, StatusVerified),
                      (EventRefund, StatusPendingApproval, StatusApproved),
                      (EventRefund, StatusPendingApproval, StatusRejected)}"
  by (auto simp: pay_can_transition_def status_transitions_def)

lemma pay_can_transition_final: "pay_can_transition e a b \<Longrightarrow> \<not> pay_can_transition e b c"
  by (auto simp: pay_can_transition_iff)

lemma transition_to_Inr:
  "transition_to p to = Inr q \<longleftrightarrow> pay_can_transition (p_event p) (p_status p) to \<and> q = p\<lparr>p_status := to\<rparr>"
  by (auto simp: transition_to_def)

text \<open>An entry and a later version of it: same columns, and at most one whitelisted status change.\<close>

definition entry_evolves :: "payment \<Rightarrow> payment \<Rightarrow> bool" where
  "entry_evolves p q \<longleftrightarrow>
     q = p \<or> pay_can_transition (p_event p) (p_status p) (p_status q)
       \<and> immutable_columns q = immutable_columns p \<and> p_note q = p_note p
       \<and> (requires_approver (p_status q) \<longrightarrow> p_approved_by q \<noteq> None \<and> p_approved_at q \<noteq> None)"

lemma immutable_columns_sel:
  "immutable_columns q = immutable_columns p \<Longrightarrow>
     p_id q = p_id p \<and> p_booking q = p_booking p \<and> p_amount q = p_amount p \<and> p_event q = p_event p
     \<and> p_key q = p_key p \<and> p_recorded_by q = p_recorded_by p \<and> p_currency q = p_currency p"
  by (cases p, cases q) (simp add: immutable_columns_def)

lemma entry_evolves_sel:
  assumes "entry_evolves p q"
  shows "p_id q = p_id p" "p_booking q = p_booking p" "p_amount q = p_amount p" "p_event q = p_event p"
    "p_key q = p_key p" "p_recorded_by q = p_recorded_by p" "p_currency q = p_currency p"
  using assms immutable_columns_sel [of q p] by (auto simp: entry_evolves_def)

lemma entry_evolves_refl [simp, intro]: "entry_evolves p p"
  by (simp add: entry_evolves_def)

lemma entry_evolves_trans: "entry_evolves p q \<Longrightarrow> entry_evolves q r \<Longrightarrow> entry_evolves p r"
proof -
  assume pq: "entry_evolves p q" and qr: "entry_evolves q r"
  show "entry_evolves p r"
  proof (cases "q = p \<or> r = q")
    case False
    then have "pay_can_transition (p_event p) (p_status p) (p_status q)"
      "pay_can_transition (p_event q) (p_status q) (p_status r)"
      using pq qr unfolding entry_evolves_def by blast+
    then show ?thesis
      using entry_evolves_sel(4) [OF pq] pay_can_transition_final [of "p_event p" "p_status p" "p_status q" "p_status r"]
      by simp
  qed (use pq qr in auto)
qed

lemma ledger_guard_evolves:
  assumes "ledger_guard p q = None" "p_status q \<noteq> p_status p" "p_note q = p_note p"
  shows "entry_evolves p q"
  using assms unfolding ledger_guard_def entry_evolves_def requires_approver_def pay_can_transition_iff
  by (auto split: if_splits)

text \<open>
  The Go whitelist and the database trigger agree: on an update that keeps the immutable columns
  and the note of an entry not yet approved, the trigger accepts a change of status exactly when
  \<open>CanTransition\<close> allows it and the approver is recorded where \<open>RequiresApprover\<close> asks for one.
\<close>

theorem ledger_guard_whitelist:
  assumes "immutable_columns q = immutable_columns p" "p_note q = p_note p"
    "p_approved_by p = None" "p_approved_at p = None" "p_status q \<noteq> p_status p"
  shows "ledger_guard p q = None \<longleftrightarrow>
    pay_can_transition (p_event p) (p_status p) (p_status q)
    \<and> (requires_approver (p_status q) \<longrightarrow> p_approved_by q \<noteq> None \<and> p_approved_at q \<noteq> None)"
  using assms by (auto simp: ledger_guard_def pay_can_transition_iff requires_approver_def)

definition ex_refund :: payment where
  "ex_refund = \<lparr>p_id = 31, p_booking = 11, p_amount = - 5000, p_currency = ''SAR'', p_method = [], p_reference = [],
     p_recorded_by = 5, p_key = ''k-31'', p_event = EventRefund, p_reverses = None, p_status = StatusPendingApproval,
     p_approved_by = None, p_approved_at = None, p_note = [], p_received = midnight 738300, p_reporting = None,
     p_created = midnight 738300\<rparr>"

theorem ledger_guard_whitelist_witness:
  "ledger_guard ex_refund (ex_refund\<lparr>p_status := StatusApproved\<rparr>) \<noteq> None
   \<and> ledger_guard ex_refund (ex_refund\<lparr>p_status := StatusApproved, p_approved_by := Some 6, p_approved_at := Some (midnight 738301)\<rparr>) = None"
  using ledger_guard_whitelist [of "ex_refund\<lparr>p_status := StatusApproved\<rparr>" ex_refund]
    ledger_guard_whitelist [of "ex_refund\<lparr>p_status := StatusApproved, p_approved_by := Some 6, p_approved_at := Some (midnight 738301)\<rparr>" ex_refund]
  by (simp add: ex_refund_def immutable_columns_def pay_can_transition_iff requires_approver_def)

section \<open>Laws of promises\<close>

lemma promise_resolve_final: "promise_resolve p to at = Inr q \<Longrightarrow> promise_resolve q to' at' \<noteq> Inr r"
  by (auto simp: promise_resolve_def split: if_splits)

lemma promise_outcome_monotone:
  assumes "promise_outcome p c today = PromiseKept" "c \<le> c'"
  shows "promise_outcome p c' today' = PromiseKept"
  using assms by (auto simp: promise_outcome_def split: if_splits)

text \<open>
  Summing open promises: as long as the exact sums fit 64 bits, the summary counts the open promises,
  adds their amounts and names the earliest promised date.
\<close>

definition open_promises :: "promise list \<Rightarrow> promise list" where
  "open_promises ps = filter (\<lambda>p. pr_status p = PromiseOpen) ps"

definition earliest :: "go_time option \<Rightarrow> promise list \<Rightarrow> bool" where
  "earliest d ps \<longleftrightarrow> (case d of None \<Rightarrow> ps = []
     | Some t \<Rightarrow> t \<in> set (map pr_promised_on ps) \<and> (\<forall>p \<in> set ps. \<not> before (pr_promised_on p) t))"

lemma summarize_step:
  assumes s: "earliest (ps_next s) qs" "ps_open_count s = int (length qs)" "ps_open_amount s = sum_list (map pr_amount qs)"
    and p: "pr_status p = PromiseOpen" "fits64 (int (length qs) + 1)" "fits64 (sum_list (map pr_amount qs) + pr_amount p)"
  shows "earliest (ps_next (summarize_one p s)) (qs @ [p])"
    "ps_open_count (summarize_one p s) = int (length (qs @ [p]))"
    "ps_open_amount (summarize_one p s) = sum_list (map pr_amount (qs @ [p]))"
  using assms by (auto simp: summarize_one_def earliest_def before_def go_int split: option.splits)

lemma summarize_fold:
  assumes "\<forall>p \<in> set ps. 0 \<le> pr_amount p" "\<forall>p \<in> set qs. 0 \<le> pr_amount p"
    and "earliest (ps_next s) qs" "ps_open_count s = int (length qs)" "ps_open_amount s = sum_list (map pr_amount qs)"
    and "fits64 (int (length (qs @ open_promises ps)))" "fits64 (sum_list (map pr_amount (qs @ open_promises ps)))"
  shows "earliest (ps_next (fold summarize_one ps s)) (qs @ open_promises ps)
    \<and> ps_open_count (fold summarize_one ps s) = int (length (qs @ open_promises ps))
    \<and> ps_open_amount (fold summarize_one ps s) = sum_list (map pr_amount (qs @ open_promises ps))"
  using assms
proof (induction ps arbitrary: qs s)
  case (Cons p ps)
  show ?case
  proof (cases "pr_status p = PromiseOpen")
    case True
    have nn: "0 \<le> sum_list (map pr_amount (open_promises ps))" "0 \<le> sum_list (map pr_amount qs)"
      using Cons.prems(1,2) by (auto simp: open_promises_def intro!: sum_list_nonneg)
    have f: "fits64 (int (length qs) + 1)" "fits64 (sum_list (map pr_amount qs) + pr_amount p)"
      using Cons.prems(1,6,7) nn True by (auto simp: open_promises_def fits64_def)
    note st = summarize_step [OF Cons.prems(3-5) True f]
    show ?thesis using Cons.IH [of "qs @ [p]", OF _ _ st] Cons.prems True
      by (simp add: open_promises_def)
  next
    case False
    then show ?thesis using Cons.IH [of qs s] Cons.prems by (simp add: open_promises_def summarize_one_def)
  qed
qed (simp add: open_promises_def)

text \<open>
  The promise summary of a booking is exact: with amounts the database accepts and sums that fit
  64 bits, it counts the open promises, adds their amounts, and names the earliest promised date (none
  exactly when no promise is open).
\<close>

theorem summarize_promises_exact:
  assumes "\<forall>p \<in> set ps. 0 \<le> pr_amount p"
    and "fits64 (int (length (open_promises ps)))" "fits64 (sum_list (map pr_amount (open_promises ps)))"
  shows "ps_open_count (summarize_promises ps) = int (length (open_promises ps))
    \<and> ps_open_amount (summarize_promises ps) = sum_list (map pr_amount (open_promises ps))
    \<and> earliest (ps_next (summarize_promises ps)) (open_promises ps)"
  using summarize_fold [of ps "[]"] assms by (simp add: summarize_promises_def earliest_def)

definition ex_promise :: "uuid \<Rightarrow> int \<Rightarrow> int \<Rightarrow> promise_status \<Rightarrow> promise" where
  "ex_promise i a d st = \<lparr>pr_id = i, pr_booking = 11, pr_branch = 7, pr_amount = a, pr_currency = ''SAR'',
     pr_promised_on = midnight d, pr_note = [], pr_status = st, pr_task = None, pr_created_by = 5,
     pr_created = midnight 738300, pr_resolved = None\<rparr>"

theorem summarize_promises_exact_witness:
  "earliest (ps_next (summarize_promises [ex_promise 21 300 738310 PromiseOpen, ex_promise 22 900 738301 PromiseKept,
      ex_promise 23 200 738305 PromiseOpen])) [ex_promise 21 300 738310 PromiseOpen, ex_promise 23 200 738305 PromiseOpen]
   \<and> ps_open_amount (summarize_promises [ex_promise 21 300 738310 PromiseOpen, ex_promise 22 900 738301 PromiseKept,
      ex_promise 23 200 738305 PromiseOpen]) = 500"
  using summarize_promises_exact [of "[ex_promise 21 300 738310 PromiseOpen, ex_promise 22 900 738301 PromiseKept,
      ex_promise 23 200 738305 PromiseOpen]"]
  by (simp add: ex_promise_def open_promises_def fits64_def)

end
