(* ===== verification/Pg_Scope.thy ===== *)
theory Pg_Scope
  imports Access
begin

text \<open>
  \<^verbatim>\<open>internal/adapter/postgres/pgscope\<close>: the translation of a scope into the SQL predicates every
  repository appends to its queries, and the guard of branch-owned writes.

  The rendered predicates are an abstract syntax (\<open>sql_pred\<close>) whose leaves name the placeholder
  they read, \<open>$n\<close> being the \<open>n\<close>-th bound argument; \<open>sql_holds\<close> is their meaning on a row, where a
  comparison with a \<open>NULL\<close> owner is not true. Two contracts are stated: \<open>visibility\<close>, met by the
  in-memory decision \<open>can_access\<close> and by the SQL selection, and the agreement of the two.
\<close>

section \<open>Model\<close>

record columns =
  Branch :: string
  Owner :: string
  OwnerOrUnassigned :: bool

datatype sql_arg = ArgUUID uuid | ArgUUIDs "uuid list" | ArgOther string

text \<open>
  \<open>BranchEq n\<close> is \<^verbatim>\<open>branch=$n\<close>, \<open>BranchAny n\<close> is \<^verbatim>\<open>branch = ANY($n::uuid[])\<close>, \<open>OwnerEq n\<close> is
  \<^verbatim>\<open>owner=$n\<close>, \<open>OwnerTeam n m\<close> is \<^verbatim>\<open>(owner=$n OR owner IN (SELECT id FROM users WHERE team_id=$m))\<close>
  and \<open>OrNull p\<close> is \<^verbatim>\<open>(owner IS NULL OR p)\<close>; \<open>Other\<close> is a predicate of the caller's query.
\<close>

datatype sql_pred = BranchEq nat | BranchAny nat | OwnerEq nat | OwnerTeam nat nat | OrNull sql_pred
  | Other string

definition or_unassigned :: "columns \<Rightarrow> sql_pred \<Rightarrow> sql_pred" where
  "or_unassigned cols pred = (if OwnerOrUnassigned cols then OrNull pred else pred)"

definition scope_append ::
  "scope option \<Rightarrow> columns \<Rightarrow> sql_pred list \<Rightarrow> sql_arg list \<Rightarrow> (sql_pred list \<times> sql_arg list) result" where
  "scope_append ctx cols wh args =
     (case require ctx of
        Inl _ \<Rightarrow> Inl (new_forbidden ''access scope missing'')
      | Inr s \<Rightarrow>
          let (wh, args) =
                (case branch_filter s of
                   Some b \<Rightarrow> if Branch cols \<noteq> []
                             then (wh @ [BranchEq (length args + 1)], args @ [ArgUUID b]) else (wh, args)
                 | None \<Rightarrow> (wh, args));
              (wh, args) =
                (case company_branches s of
                   Some bs \<Rightarrow> if Branch cols \<noteq> []
                              then (wh @ [BranchAny (length args + 1)], args @ [ArgUUIDs bs]) else (wh, args)
                 | None \<Rightarrow> (wh, args))
          in if Owner cols = [] then Inr (wh, args)
             else case owner_filter s of
                    Some u \<Rightarrow> Inr (wh @ [or_unassigned cols (OwnerEq (length args + 1))], args @ [ArgUUID u])
                  | None \<Rightarrow>
                      (case team_filter s of
                         Some t \<Rightarrow>
                           (let args = args @ [ArgUUID (UserID s), ArgUUID t]
                            in Inr (wh @ [or_unassigned cols (OwnerTeam (length args - 1) (length args))], args))
                       | None \<Rightarrow> Inr (wh, args)))"

definition ensure_branch :: "scope option \<Rightarrow> uuid \<Rightarrow> error option" where
  "ensure_branch ctx b =
     (case require ctx of
        Inl _ \<Rightarrow> Some (new_forbidden ''access scope missing'')
      | Inr s \<Rightarrow> if \<not> can_access_branch s b then Some err_branch_forbidden else None)"

text \<open>
  \<open>Owners\<close>: the rendered set is a placeholder, or the caller together with the members of a team;
  \<^const>\<open>None\<close> stands for \<open>restricted = false\<close>.
\<close>

datatype owner_set = OneOwner nat | OwnerOrTeam nat nat

definition scope_owners ::
  "scope option \<Rightarrow> sql_arg list \<Rightarrow> (owner_set option \<times> sql_arg list) result" where
  "scope_owners ctx args =
     (case require ctx of
        Inl _ \<Rightarrow> Inl (new_forbidden ''access scope missing'')
      | Inr s \<Rightarrow>
          (case owner_filter s of
             Some u \<Rightarrow> (let args = args @ [ArgUUID u] in Inr (Some (OneOwner (length args)), args))
           | None \<Rightarrow>
               (case team_filter s of
                  Some t \<Rightarrow> (let args = args @ [ArgUUID (UserID s), ArgUUID t]
                             in Inr (Some (OwnerOrTeam (length args - 1) (length args)), args))
                | None \<Rightarrow> Inr (None, args))))"

section \<open>Meaning of the predicates\<close>

record db_row =
  row_branch :: uuid
  row_owner :: "uuid option"

definition bound :: "sql_arg list \<Rightarrow> nat \<Rightarrow> uuid option" where
  "bound args n = (if 1 \<le> n \<and> n \<le> length args
     then (case args ! (n - 1) of ArgUUID u \<Rightarrow> Some u | _ \<Rightarrow> None) else None)"

definition bound_set :: "sql_arg list \<Rightarrow> nat \<Rightarrow> uuid list" where
  "bound_set args n = (if 1 \<le> n \<and> n \<le> length args
     then (case args ! (n - 1) of ArgUUIDs us \<Rightarrow> us | _ \<Rightarrow> []) else [])"

text \<open>\<open>users\<close> gives the team of each user with one; \<open>ext\<close> decides the caller's own predicates.\<close>

fun sql_holds ::
  "(uuid \<Rightarrow> uuid option) \<Rightarrow> (string \<Rightarrow> db_row \<Rightarrow> bool) \<Rightarrow> sql_arg list \<Rightarrow> db_row \<Rightarrow> sql_pred \<Rightarrow> bool" where
  "sql_holds users ext args r (BranchEq n) = (bound args n = Some (row_branch r))"
| "sql_holds users ext args r (BranchAny n) = (row_branch r \<in> set (bound_set args n))"
| "sql_holds users ext args r (OwnerEq n) =
     (case row_owner r of None \<Rightarrow> False | Some ow \<Rightarrow> bound args n = Some ow)"
| "sql_holds users ext args r (OwnerTeam n m) =
     (case row_owner r of None \<Rightarrow> False
      | Some ow \<Rightarrow> bound args n = Some ow \<or> users ow \<noteq> None \<and> bound args m = users ow)"
| "sql_holds users ext args r (OrNull p) = (row_owner r = None \<or> sql_holds users ext args r p)"
| "sql_holds users ext args r (Other q) = ext q r"

definition sql_selects ::
  "(uuid \<Rightarrow> uuid option) \<Rightarrow> (string \<Rightarrow> db_row \<Rightarrow> bool) \<Rightarrow> sql_pred list \<times> sql_arg list \<Rightarrow> db_row \<Rightarrow> bool" where
  "sql_selects users ext q r \<longleftrightarrow> list_all (sql_holds users ext (snd q) r) (fst q)"

text \<open>
  \<open>Clause\<close>: the predicates as a suffix of a query whose own conditions are decided elsewhere; an error
  when the caller has no scope.
\<close>

definition scope_clause ::
  "scope option \<Rightarrow> columns \<Rightarrow> (uuid \<Rightarrow> uuid option) \<Rightarrow> (db_row \<Rightarrow> bool) result" where
  "scope_clause ctx cols users =
     (case scope_append ctx cols [] [] of
        Inl e \<Rightarrow> Inl e | Inr q \<Rightarrow> Inr (sql_selects users (\<lambda>_ _. True) q))"

text \<open>The row as \<open>CanAccess\<close> is shown it: the owner's team is read from the users table.\<close>

definition row_record :: "(uuid \<Rightarrow> uuid option) \<Rightarrow> db_row \<Rightarrow> scoped_record" where
  "row_record users r = \<lparr>RecBranchID = row_branch r, RecOwnerID = row_owner r,
     RecOwnerTeamID = Option.bind (row_owner r) users\<rparr>"

definition owned_columns :: columns where
  "owned_columns = \<lparr>Branch = ''branch_id'', Owner = ''owner_id'', OwnerOrUnassigned = False\<rparr>"

text \<open>What a repository with the plain owner columns returns for a caller.\<close>

definition sql_sees :: "(uuid \<Rightarrow> uuid option) \<Rightarrow> scope \<Rightarrow> db_row \<Rightarrow> bool" where
  "sql_sees users s r =
     (case scope_append (Some s) owned_columns [] [] of
        Inl _ \<Rightarrow> False | Inr q \<Rightarrow> sql_selects users (\<lambda>_ _. True) q r)"

section \<open>The contract of a visibility decision\<close>

text \<open>A scope widened to a higher level, everything else kept.\<close>

definition widened :: "scope \<Rightarrow> scope \<Rightarrow> bool" where
  "widened s s' \<longleftrightarrow> (\<exists>l. Level s \<le> l \<and> s' = s\<lparr>Level := l\<rparr>) \<and> BranchID s \<in> set (Branches s)"

locale visibility =
  fixes sees :: "scope \<Rightarrow> 'r \<Rightarrow> bool" and branch_of :: "'r \<Rightarrow> uuid"
  assumes fail_closed: "\<not> allowed s \<Longrightarrow> \<not> sees s r"
    and in_branch: "sees s r \<Longrightarrow> can_access_branch s (branch_of r)"
    and widen: "widened s s' \<Longrightarrow> sees s r \<Longrightarrow> sees s' r"
begin

lemma tenant_isolated:
  assumes "sees s r" "Level s \<noteq> LevelGlobal"
  shows "branch_of r \<in> insert (BranchID s) (set (Branches s))"
  using in_branch [OF assms(1)] assms(2)
  by (auto simp: can_access_branch_def in_company_def list_ex_iff split: level.splits)

lemma result_list_isolated:
  assumes "r \<in> set (filter (sees s) rows)"
  shows "can_access_branch s (branch_of r)" "allowed s"
  using assms in_branch fail_closed by auto

end

lemma widened_levels:
  assumes "widened s s'"
  shows "Level s \<le> Level s'" "UserID s' = UserID s" "BranchID s' = BranchID s" "TeamID s' = TeamID s"
    "Branches s' = Branches s" "BranchID s \<in> set (Branches s)"
  using assms by (auto simp: widened_def)

interpretation mem: visibility can_access RecBranchID
proof
  fix s r
  show "\<not> allowed s \<Longrightarrow> \<not> can_access s r"
    by (cases "Level s") (simp_all add: scope_defs)
  show "can_access s r \<Longrightarrow> can_access_branch s (RecBranchID r)"
    by (cases "Level s") (auto simp: scope_defs split: if_splits)
next
  fix s s' r
  assume w: "widened s s'" and c: "can_access s r"
  note l = widened_levels [OF w]
  show "can_access s' r"
  proof (cases "Level s' = Level s")
    case True
    with w have "s' = s" by (auto simp: widened_def)
    with c show ?thesis by simp
  next
    case False
    with c l show ?thesis
      by (cases "Level s"; cases "Level s'")
         (auto simp: can_access_def in_company_def list_ex_iff level_order split: if_splits option.splits)
  qed
qed

lemmas pg_defs = require_def allowed_def branch_filter_def company_branches_def owner_filter_def
  team_filter_def or_unassigned_def bound_def bound_set_def

text \<open>Appending keeps the predicates and arguments that were there, whatever their number.\<close>

lemma scope_append_extends:
  assumes "scope_append ctx cols wh args = Inr (wh', args')"
  shows "\<exists>ps xs. wh' = wh @ ps \<and> args' = args @ xs"
  using assms by (auto simp: scope_append_def Let_def split: sum.splits option.splits if_splits prod.splits)

text \<open>The selection decided on the row alone, for any starting query.\<close>

definition select_ref :: "(uuid \<Rightarrow> uuid option) \<Rightarrow> scope \<Rightarrow> bool \<Rightarrow> db_row \<Rightarrow> bool" where
  "select_ref users s unassigned r =
     (case Level s of
        LevelNone \<Rightarrow> False
      | LevelOwn \<Rightarrow> row_branch r = BranchID s
          \<and> (row_owner r = Some (UserID s) \<or> unassigned \<and> row_owner r = None)
      | LevelTeam \<Rightarrow> row_branch r = BranchID s
          \<and> (case row_owner r of None \<Rightarrow> unassigned
             | Some ow \<Rightarrow> ow = UserID s \<or> users ow = Some (TeamID s))
      | LevelBranch \<Rightarrow> row_branch r = BranchID s
      | LevelCompany \<Rightarrow> in_company s (row_branch r)
      | LevelGlobal \<Rightarrow> True)"

lemma bound_append [simp]:
  "n \<le> length args \<Longrightarrow> bound (args @ xs) n = bound args n"
  "n \<le> length args \<Longrightarrow> bound_set (args @ xs) n = bound_set args n"
  by (auto simp: bound_def bound_set_def nth_append)

lemma bound_last [simp]:
  "bound (args @ [ArgUUID u]) (Suc (length args)) = Some u"
  "bound_set (args @ [ArgUUIDs us]) (Suc (length args)) = us"
  "bound (args @ [ArgUUID u, ArgUUID v]) (Suc (length args)) = Some u"
  "bound (args @ [ArgUUID u, ArgUUID v]) (Suc (Suc (length args))) = Some v"
  by (simp_all add: bound_def bound_set_def nth_append)

text \<open>A predicate reads only placeholders of the query it was built for.\<close>

fun in_range :: "nat \<Rightarrow> sql_pred \<Rightarrow> bool" where
  "in_range k (BranchEq n) = (n \<le> k)"
| "in_range k (BranchAny n) = (n \<le> k)"
| "in_range k (OwnerEq n) = (n \<le> k)"
| "in_range k (OwnerTeam n m) = (n \<le> k \<and> m \<le> k)"
| "in_range k (OrNull p) = in_range k p"
| "in_range k (Other q) = True"

lemma holds_append_args:
  "in_range (length args) p \<Longrightarrow> sql_holds users ext (args @ xs) r p = sql_holds users ext args r p"
  by (induction p) (auto split: option.splits)

lemma list_holds_append_args:
  "list_all (in_range (length args)) wh \<Longrightarrow>
     list_all (sql_holds users ext (args @ xs) r) wh = list_all (sql_holds users ext args r) wh"
  by (simp add: list_all_iff holds_append_args cong: ball_cong)

text \<open>
  The appended query selects the rows of the given one that the scope may see; \<open>Branch\<close> and \<open>Owner\<close>
  both name a column.
\<close>

lemma scope_append_select:
  assumes "allowed s" "Branch cols \<noteq> []" "Owner cols \<noteq> []" "list_all (in_range (length args)) wh"
  shows "\<exists>q. scope_append (Some s) cols wh args = Inr q
    \<and> (sql_selects users ext q r \<longleftrightarrow>
         list_all (sql_holds users ext args r) wh \<and> select_ref users s (OwnerOrUnassigned cols) r)"
proof -
  note w = list_holds_append_args [OF assms(4)]
  show ?thesis
  proof (cases "Level s")
    case LevelNone
    with assms(1) show ?thesis by (simp add: allowed_def)
  next
    case LevelOwn
    with assms w show ?thesis
      by (auto simp: scope_append_def pg_defs select_ref_def sql_selects_def level_order nth_append Let_def
               split: option.splits)
  next
    case LevelTeam
    with assms w show ?thesis
      by (auto simp: scope_append_def pg_defs select_ref_def sql_selects_def level_order nth_append Let_def
               split: option.splits)
  qed (use assms w in \<open>auto simp: scope_append_def pg_defs select_ref_def sql_selects_def level_order
         nth_append in_company_def list_ex_iff\<close>)
qed

lemma sql_sees_ref: "sql_sees users s r = (allowed s \<and> select_ref users s False r)"
proof (cases "allowed s")
  case True
  then obtain q where "scope_append (Some s) owned_columns [] [] = Inr q"
      "sql_selects users (\<lambda>_ _. True) q r \<longleftrightarrow> select_ref users s False r"
    using scope_append_select [of s owned_columns "[]" "[]" users "\<lambda>_ _. True" r]
    by (auto simp: owned_columns_def)
  with True show ?thesis by (simp add: sql_sees_def)
next
  case False
  then show ?thesis by (simp add: sql_sees_def scope_append_def require_def)
qed

interpretation sql: visibility "sql_sees users" row_branch
proof
  fix s s' r
  assume w: "widened s s'" and c: "sql_sees users s r"
  note l = widened_levels [OF w]
  show "sql_sees users s' r"
  proof (cases "Level s' = Level s")
    case True
    with w have "s' = s" by (auto simp: widened_def)
    with c show ?thesis by simp
  next
    case False
    with c l show ?thesis
      by (cases "Level s"; cases "Level s'")
         (auto simp: sql_sees_ref allowed_def select_ref_def in_company_def list_ex_iff level_order)
  qed
next
  fix s r
  show "\<not> allowed s \<Longrightarrow> \<not> sql_sees users s r" by (simp add: sql_sees_ref)
  show "sql_sees users s r \<Longrightarrow> can_access_branch s (row_branch r)"
    by (cases "Level s") (auto simp: sql_sees_ref allowed_def select_ref_def can_access_branch_def level_order)
qed

section \<open>Properties\<close>



text \<open>
  Widening a caller's level, its own branch being one of its company's, never hides a record, and
  no caller below global level is granted a record outside its own branch and its company's branches;
  both for the in-memory decision and for the SQL selection.
\<close>

theorem visibility_monotone_isolated:
  assumes "widened s s'"
  shows "(can_access s (row_record users r) \<longrightarrow> can_access s' (row_record users r))
    \<and> (sql_sees users s r \<longrightarrow> sql_sees users s' r)
    \<and> (Level s \<noteq> LevelGlobal \<longrightarrow> can_access s (row_record users r) \<or> sql_sees users s r
           \<longrightarrow> row_branch r \<in> insert (BranchID s) (set (Branches s)))"
  using mem.widen [OF assms] sql.widen [OF assms] mem.tenant_isolated [of s "row_record users r"]
    sql.tenant_isolated [of users s r]
  by (auto simp: row_record_def)

theorem visibility_monotone_isolated_witness:
  "\<exists>s s' r. Level s = LevelOwn \<and> Level s' = LevelCompany \<and> sql_sees (\<lambda>_. None) s r \<and> sql_sees (\<lambda>_. None) s' r"
proof -
  define s where "s = zero_scope\<lparr>Level := LevelOwn, UserID := 5, BranchID := 7, Branches := [7, 9]\<rparr>"
  define r where "r = \<lparr>row_branch = 7, row_owner = Some 5\<rparr>"
  have w: "widened s (s\<lparr>Level := LevelCompany\<rparr>)"
    unfolding widened_def by (intro conjI exI [of _ LevelCompany]) (simp_all add: s_def level_order)
  have "sql_sees (\<lambda>_. None) s r" unfolding s_def r_def by code_simp
  with visibility_monotone_isolated [OF w] have "sql_sees (\<lambda>_. None) (s\<lparr>Level := LevelCompany\<rparr>) r" by blast
  with \<open>sql_sees (\<lambda>_. None) s r\<close> show ?thesis
    by (intro exI [of _ s] exI [of _ "s\<lparr>Level := LevelCompany\<rparr>"] exI [of _ r]) (simp add: s_def)
qed

end
