(* ===== verification/Unit_Of_Work.thy ===== *)
theory Unit_Of_Work
  imports Pg_Scope
begin

text \<open>
  Application services run their work inside \<^verbatim>\<open>tx.Runner.WithinTransaction\<close>: the closure reads and
  writes the store, and an error anywhere rolls the store back. A unit of work over a store \<open>'db\<close> is a
  function from the store to an error or a result with the new store; \<open>within_transaction\<close> keeps the
  old store on an error. \<open>and_then\<close> is the sequencing with early return on an error that every
  \<^verbatim>\<open>if err != nil { return err }\<close> of the source is.
\<close>

type_synonym ('db, 'a) uow = "'db \<Rightarrow> ('a \<times> 'db) result"

definition ret :: "'a \<Rightarrow> ('db, 'a) uow" where "ret x = (\<lambda>db. Inr (x, db))"
definition fail :: "error \<Rightarrow> ('db, 'a) uow" where "fail e = (\<lambda>db. Inl e)"

definition and_then :: "('db, 'a) uow \<Rightarrow> ('a \<Rightarrow> ('db, 'b) uow) \<Rightarrow> ('db, 'b) uow" where
  "and_then m f = (\<lambda>db. case m db of Inl e \<Rightarrow> Inl e | Inr (x, db') \<Rightarrow> f x db')"

definition reading :: "('db \<Rightarrow> 'a) \<Rightarrow> ('db, 'a) uow" where "reading f = (\<lambda>db. Inr (f db, db))"
definition writing :: "('db \<Rightarrow> 'db) \<Rightarrow> ('db, unit) uow" where "writing f = (\<lambda>db. Inr ((), f db))"

definition ensure :: "bool \<Rightarrow> error \<Rightarrow> ('db, unit) uow" where
  "ensure p e = (if p then ret () else fail e)"

definition lift_result :: "'a result \<Rightarrow> ('db, 'a) uow" where
  "lift_result r = (case r of Inl e \<Rightarrow> fail e | Inr x \<Rightarrow> ret x)"

definition within_transaction :: "('db, 'a) uow \<Rightarrow> 'db \<Rightarrow> 'a result \<times> 'db" where
  "within_transaction m db = (case m db of Inl e \<Rightarrow> (Inl e, db) | Inr (x, db') \<Rightarrow> (Inr x, db'))"

lemma uow_simps [simp]:
  "ret x db = Inr (x, db)" "fail e db = Inl e" "reading f db = Inr (f db, db)" "writing f' db = Inr ((), f' db)"
  by (simp_all add: ret_def fail_def reading_def writing_def)

lemma ensure_simps [simp]: "ensure p e db = (if p then Inr ((), db) else Inl e)"
  by (simp add: ensure_def)

lemma lift_result_simps [simp]: "lift_result (Inl e) db = Inl e" "lift_result (Inr x) db = Inr (x, db)"
  by (simp_all add: lift_result_def)

lemma and_then_Inr [simp]: "m db = Inr (x, db') \<Longrightarrow> and_then m f db = f x db'"
  by (simp add: and_then_def)

lemma and_then_Inl [simp]: "m db = Inl e \<Longrightarrow> and_then m f db = Inl e"
  by (simp add: and_then_def)

lemma and_then_InrE:
  assumes "and_then m f db = Inr (y, db'')"
  obtains x db' where "m db = Inr (x, db')" "f x db' = Inr (y, db'')"
  using assms by (auto simp: and_then_def split: sum.splits)

lemma lift_result_InrE:
  assumes "lift_result r db = Inr (x, db')"
  obtains "r = Inr x" "db' = db"
  using assms by (cases r) auto

text \<open>Facts to read off from a successful run, in forward steps.\<close>

lemma ensure_Inr: "ensure p e db = Inr (u, db') \<Longrightarrow> p \<and> db' = db"
  by (auto split: if_splits)

lemma ret_Inr: "ret x db = Inr (y, db') \<Longrightarrow> y = x \<and> db' = db"
  by auto

lemma if_Inl_Inr: "(if b then Inl e else r) = Inr x \<longleftrightarrow> \<not> b \<and> r = Inr x"
  by simp

lemma case_Inl_Inr: "(case s of Inl e \<Rightarrow> Inl e | Inr a \<Rightarrow> f a) = Inr y \<longleftrightarrow> (\<exists>a. s = Inr a \<and> f a = Inr y)"
  by (cases s) auto

lemma reading_Inr: "reading f db = Inr (x, db') \<Longrightarrow> x = f db \<and> db' = db"
  by auto

lemma writing_Inr: "writing f db = Inr (u, db') \<Longrightarrow> db' = f db"
  by auto

lemmas run_Inr = ensure_Inr ret_Inr reading_Inr writing_Inr

text \<open>An error leaves the store as it was, so an invariant only has to be shown for successful work.\<close>

lemma transaction_error: "within_transaction m db = (Inl e, db') \<Longrightarrow> db' = db"
  by (auto simp: within_transaction_def split: sum.splits)

lemma transaction_keeps:
  assumes "within_transaction m db = (r, db')" "P db" "\<And>x d. m db = Inr (x, d) \<Longrightarrow> P d"
  shows "P db'"
  using assms by (auto simp: within_transaction_def split: sum.splits)

end
