(* ===== verification/Fx_Service.thy ===== *)
theory Fx_Service
  imports Fx Unit_Of_Work Status_Machine
begin

text \<open>
  \<^verbatim>\<open>internal/app/fx/service.go\<close> and \<^verbatim>\<open>converter.go\<close> over the table of
  \<^verbatim>\<open>adapter/postgres/fx/repository.go\<close>: creating, changing, deleting and synchronising rates in audited
  transactions, and converting amounts at the latest rate effective on a date.

  The converter only relies on the lookup \<open>Latest\<close>: its contract is the locale \<open>rate_reader\<close>, which the
  table's own lookup is shown to satisfy. Parameters: fresh identifiers, the clock, the audit recorder
  (optional, may fail) and what a rate provider returned.
\<close>

section \<open>Table\<close>

record stored_rate =
  sr_id :: uuid
  sr_rate :: rate
  sr_created_by :: "uuid option"
  sr_created_at :: go_time

record fx_db =
  fx_rates :: "stored_rate list"
  fx_audit :: "(string \<times> uuid) list"

definition err_rate_exists :: error where "err_rate_exists = Plain ''fx: rate exists for pair and date''"

definition same_slot :: "rate \<Rightarrow> rate \<Rightarrow> bool" where
  "same_slot a b \<longleftrightarrow> r_base a = r_base b \<and> r_quote a = r_quote b \<and> time_eq (r_effective a) (r_effective b)"

text \<open>\<open>INSERT ... ON CONFLICT (base, quote, effective_date) DO NOTHING\<close>.\<close>

definition insert_if_absent :: "stored_rate \<Rightarrow> (fx_db, bool) uow" where
  "insert_if_absent r =
     and_then (reading fx_rates) (\<lambda>rs.
       if list_ex (\<lambda>x. same_slot (sr_rate x) (sr_rate r)) rs then ret False
       else and_then (writing (\<lambda>db. db\<lparr>fx_rates := rs @ [r]\<rparr>)) (\<lambda>_. ret True))"

definition insert_rate :: "stored_rate \<Rightarrow> (fx_db, unit) uow" where
  "insert_rate r = and_then (insert_if_absent r) (\<lambda>ok. if \<not> ok then fail err_rate_exists else ret ())"

definition update_rate :: "uuid \<Rightarrow> int \<Rightarrow> string \<Rightarrow> (fx_db, unit) uow" where
  "update_rate i scaled source =
     and_then (reading fx_rates) (\<lambda>rs.
       if list_ex (\<lambda>x. sr_id x = i) rs
       then writing (\<lambda>db. db\<lparr>fx_rates := map (\<lambda>x. if sr_id x = i
              then x\<lparr>sr_rate := (sr_rate x)\<lparr>r_scaled := scaled, r_source := source\<rparr>\<rparr> else x) rs\<rparr>)
       else fail (new_not_found ''fx rate''))"

definition delete_rate :: "uuid \<Rightarrow> (fx_db, unit) uow" where
  "delete_rate i =
     and_then (reading fx_rates) (\<lambda>rs.
       if list_ex (\<lambda>x. sr_id x = i) rs
       then writing (\<lambda>db. db\<lparr>fx_rates := filter (\<lambda>x. sr_id x \<noteq> i) rs\<rparr>)
       else fail (new_not_found ''fx rate''))"

definition get_rate :: "uuid \<Rightarrow> (fx_db, stored_rate) uow" where
  "get_rate i = and_then (reading fx_rates) (\<lambda>rs.
     case find (\<lambda>x. sr_id x = i) rs of None \<Rightarrow> fail (new_not_found ''fx rate'') | Some r \<Rightarrow> ret r)"

text \<open>\<open>Latest\<close>: \<open>ORDER BY effective_date DESC LIMIT 1\<close> among the rates of the pair effective by the date.\<close>

fun newest :: "rate list \<Rightarrow> rate option" where
  "newest [] = None"
| "newest (r # rs) =
     (case newest rs of None \<Rightarrow> Some r | Some x \<Rightarrow> if after (r_effective x) (r_effective r) then Some x else Some r)"

definition latest :: "rate list \<Rightarrow> string \<Rightarrow> string \<Rightarrow> go_time \<Rightarrow> rate option" where
  "latest rs base quote on =
     newest (filter (\<lambda>r. r_base r = base \<and> r_quote r = quote \<and> \<not> after (r_effective r) on) rs)"

section \<open>Converter\<close>

definition convert ::
  "(string \<Rightarrow> string \<Rightarrow> go_time \<Rightarrow> rate option) \<Rightarrow> int \<Rightarrow> string \<Rightarrow> string \<Rightarrow> go_time \<Rightarrow> conversion result" where
  "convert lookup amount from to on =
     (case normalize_currency from of
        Inl e \<Rightarrow> Inl e
      | Inr f \<Rightarrow>
          (case normalize_currency to of
             Inl e \<Rightarrow> Inl e
           | Inr t \<Rightarrow>
               let day = date_of on in
               if f = t then Inr \<lparr>c_amount = amount, c_rate = identity_rate f day\<rparr>
               else case pick_rate (lookup f t day) (lookup t f day) of
                      Inl e \<Rightarrow> Inl e
                    | Inr r \<Rightarrow>
                        (case apply_rate amount (r_scaled r) of
                           Inl e \<Rightarrow> Inl e
                         | Inr c \<Rightarrow> Inr \<lparr>c_amount = c, c_rate = r\<rparr>)))"

section \<open>Service\<close>

record fx_env =
  fe_scope :: "scope option"
  fe_audit :: "(string \<times> uuid \<Rightarrow> error option) option"
  fe_now :: go_time
  fe_loc :: location
  fe_fresh :: uuid

definition fx_record :: "fx_env \<Rightarrow> string \<Rightarrow> uuid \<Rightarrow> (fx_db, unit) uow" where
  "fx_record env action i =
     (case fe_audit env of
        None \<Rightarrow> ret ()
      | Some f \<Rightarrow> (case f (action, i) of Some e \<Rightarrow> fail e
                  | None \<Rightarrow> writing (\<lambda>db. db\<lparr>fx_audit := fx_audit db @ [(action, i)]\<rparr>)))"

definition source_or :: "string \<Rightarrow> string \<Rightarrow> string" where
  "source_or s fallback = (let s = trim_space s in if s \<noteq> [] then s else fallback)"

definition map_insert_err :: "error \<Rightarrow> error" where
  "map_insert_err e =
     (if e = err_rate_exists
      then mk_app ''fx_rate_exists'' ''a rate for this pair and effective date already exists'' ErrConflict
      else e)"

definition fx_today :: "fx_env \<Rightarrow> go_time" where
  "fx_today env = date_of (in_loc (fe_now env) (fe_loc env))"

record create_input =
  ci_base :: string
  ci_quote :: string
  ci_rate :: string
  ci_date :: string
  ci_source :: string
  ci_actor :: uuid

text \<open>The checks of \<open>Create\<close> up to the row it will insert.\<close>

definition new_rate :: "fx_env \<Rightarrow> create_input \<Rightarrow> stored_rate result" where
  "new_rate env inp =
     (case require (fe_scope env) of Inl e \<Rightarrow> Inl e | Inr _ \<Rightarrow>
      case normalize_currency (ci_base inp) of Inl e \<Rightarrow> Inl e | Inr base \<Rightarrow>
      case normalize_currency (ci_quote inp) of Inl e \<Rightarrow> Inl e | Inr quote \<Rightarrow>
      if base = quote then Inl (new_validation ''base and quote must differ'')
      else case parse_rate (ci_rate inp) of Inl e \<Rightarrow> Inl e | Inr scaled \<Rightarrow>
      case fx_parse_date (ci_date inp) of Inl e \<Rightarrow> Inl e | Inr day \<Rightarrow>
        Inr \<lparr>sr_id = fe_fresh env,
             sr_rate = \<lparr>r_base = base, r_quote = quote, r_scaled = scaled, r_effective = day,
                        r_source = source_or (ci_source inp) ''manual''\<rparr>,
             sr_created_by = (if ci_actor inp \<noteq> uuid_nil then Some (ci_actor inp) else None),
             sr_created_at = utc (fe_now env)\<rparr>)"

definition fx_create :: "fx_env \<Rightarrow> create_input \<Rightarrow> (fx_db, stored_rate) uow" where
  "fx_create env inp =
     and_then (lift_result (new_rate env inp)) (\<lambda>r.
     and_then (\<lambda>db. case insert_rate r db of Inl e \<Rightarrow> Inl (map_insert_err e) | Inr x \<Rightarrow> Inr x) (\<lambda>_.
     and_then (fx_record env ''fx.rate_created'' (sr_id r)) (\<lambda>_. ret r)))"

definition fx_update :: "fx_env \<Rightarrow> uuid \<Rightarrow> string \<Rightarrow> string option \<Rightarrow> (fx_db, stored_rate) uow" where
  "fx_update env i rate_text source =
     and_then (lift_result (require (fe_scope env))) (\<lambda>_.
     and_then (lift_result (parse_rate rate_text)) (\<lambda>scaled.
     and_then (get_rate i) (\<lambda>r.
       let src = (case source of Some s \<Rightarrow> source_or s ''manual'' | None \<Rightarrow> r_source (sr_rate r));
           r' = r\<lparr>sr_rate := (sr_rate r)\<lparr>r_scaled := scaled, r_source := src\<rparr>\<rparr>
       in and_then (update_rate (sr_id r) scaled src) (\<lambda>_.
          and_then (fx_record env ''fx.rate_updated'' (sr_id r)) (\<lambda>_. ret r')))))"

definition fx_delete :: "fx_env \<Rightarrow> uuid \<Rightarrow> (fx_db, unit) uow" where
  "fx_delete env i =
     and_then (lift_result (require (fe_scope env))) (\<lambda>_.
     and_then (get_rate i) (\<lambda>_.
     and_then (delete_rate i) (\<lambda>_. fx_record env ''fx.rate_deleted'' i)))"

definition fx_convert :: "fx_env \<Rightarrow> int \<Rightarrow> string \<Rightarrow> string \<Rightarrow> go_time option \<Rightarrow> (fx_db, conversion) uow" where
  "fx_convert env amount from to on =
     and_then (lift_result (require (fe_scope env))) (\<lambda>_.
     and_then (reading (\<lambda>db. map sr_rate (fx_rates db))) (\<lambda>rs.
       let day = (case on of Some d \<Rightarrow> date_of d | None \<Rightarrow> fx_today env)
       in case convert (latest rs) amount from to day of
            Inl e \<Rightarrow> if e = err_rate_not_found
                     then fail (mk_app ''fx_rate_not_found'' ''no effective rate for this pair and date'' ErrNotFound)
                     else if e = err_overflow then fail (new_validation ''amount is too large to convert'')
                     else fail e
          | Inr c \<Rightarrow> ret c))"

text \<open>
  \<open>syncProvider\<close> on the rates a provider fetched: invalid ones are skipped, the others inserted unless
  their slot is taken. \<open>ids\<close> are the identifiers drawn in the loop.
\<close>

fun sync_rates :: "fx_env \<Rightarrow> string \<Rightarrow> go_time \<Rightarrow> (rate \<times> uuid) list \<Rightarrow> (fx_db, int) uow" where
  "sync_rates env name day [] = ret 0"
| "sync_rates env name day ((r, i) # rs) =
     (case (normalize_currency (r_base r), normalize_currency (r_quote r)) of
        (Inr base, Inr quote) \<Rightarrow>
          if base = quote \<or> r_scaled r \<le> 0 then sync_rates env name day rs
          else
            let eff = (if is_zero (r_effective r) then day else date_of (r_effective r));
                stored = \<lparr>sr_id = i, sr_rate = \<lparr>r_base = base, r_quote = quote, r_scaled = r_scaled r,
                            r_effective = eff, r_source = source_or (r_source r) name\<rparr>,
                          sr_created_by = None, sr_created_at = utc (fe_now env)\<rparr>
            in and_then (insert_if_absent stored) (\<lambda>ok.
                 if \<not> ok then sync_rates env name day rs
                 else and_then (fx_record env ''fx.rate_created'' i) (\<lambda>_.
                      and_then (sync_rates env name day rs) (\<lambda>n. ret (n + 1))))
      | _ \<Rightarrow> sync_rates env name day rs)"

section \<open>The lookup contract\<close>

locale rate_reader =
  fixes lookup :: "string \<Rightarrow> string \<Rightarrow> go_time \<Rightarrow> rate option" and stored :: "rate set"
  assumes found: "lookup b q on = Some r \<Longrightarrow>
      r \<in> stored \<and> r_base r = b \<and> r_quote r = q \<and> \<not> after (r_effective r) on"
    and newest: "x \<in> stored \<Longrightarrow> \<not> after (r_effective x) on \<Longrightarrow>
      \<exists>r. lookup (r_base x) (r_quote x) on = Some r \<and> \<not> after (r_effective x) (r_effective r)"
begin

lemma convert_spec:
  assumes c: "convert lookup amount from to on = Inr c" and pos: "\<forall>x \<in> stored. 0 < r_scaled x"
  shows "normalize_currency from = Inr (r_base (c_rate c))" "normalize_currency to = Inr (r_quote (c_rate c))"
    "\<bar>2 * (c_amount c * rate_scale - amount * r_scaled (c_rate c))\<bar> \<le> rate_scale"
    "\<not> after (r_effective (c_rate c)) (date_of on) \<or> r_base (c_rate c) = r_quote (c_rate c)"
    "x \<in> stored \<Longrightarrow> \<not> after (r_effective x) (date_of on) \<Longrightarrow> r_base (c_rate c) \<noteq> r_quote (c_rate c) \<Longrightarrow>
       {r_base x, r_quote x} = {r_base (c_rate c), r_quote (c_rate c)} \<Longrightarrow>
       \<not> after (r_effective x) (r_effective (c_rate c))"
proof -
  obtain f t where n: "normalize_currency from = Inr f" "normalize_currency to = Inr t"
    using c by (auto simp: convert_def split: sum.splits)
  let ?day = "date_of on"
  have "(f = t \<and> c = \<lparr>c_amount = amount, c_rate = identity_rate f ?day\<rparr>)
     \<or> (f \<noteq> t \<and> (\<exists>r v. pick_rate (lookup f t ?day) (lookup t f ?day) = Inr r
          \<and> apply_rate amount (r_scaled r) = Inr v \<and> c = \<lparr>c_amount = v, c_rate = r\<rparr>))"
    using c n by (auto simp: convert_def Let_def split: if_splits sum.splits)
  then consider "f = t" "c = \<lparr>c_amount = amount, c_rate = identity_rate f ?day\<rparr>"
    | r v where "f \<noteq> t" "pick_rate (lookup f t ?day) (lookup t f ?day) = Inr r"
      "apply_rate amount (r_scaled r) = Inr v" "c = \<lparr>c_amount = v, c_rate = r\<rparr>" by blast
  then have all: "r_base (c_rate c) = f \<and> r_quote (c_rate c) = t
     \<and> \<bar>2 * (c_amount c * rate_scale - amount * r_scaled (c_rate c))\<bar> \<le> rate_scale
     \<and> (f \<noteq> t \<longrightarrow> \<not> after (r_effective (c_rate c)) ?day
         \<and> (\<forall>y \<in> set_option (lookup f t ?day) \<union> set_option (lookup t f ?day). \<not> after (r_effective y) (r_effective (c_rate c))))"
  proof cases
    case 1
    then show ?thesis by (simp add: identity_rate_def less_imp_le)
  next
    case (2 r v)
    have d: "\<forall>y \<in> set_option (lookup f t ?day). quotes f t y" "\<forall>y \<in> set_option (lookup t f ?day). quotes t f y"
      using found pos by (auto simp: quotes_def elem_set)
    note p = pick_rate_spec [OF 2(2) d]
    have eff: "\<not> after (r_effective r) ?day" using p found by (auto simp: elem_set)
    have "0 < r_scaled r" using p by (simp add: quotes_def)
    with 2(3) have "\<bar>2 * (v * rate_scale - amount * r_scaled r)\<bar> \<le> rate_scale"
      by (auto simp: apply_rate_def dest: div_round_close)
    with 2 p eff show ?thesis by (simp add: quotes_def)
  qed
  then show "normalize_currency from = Inr (r_base (c_rate c))" "normalize_currency to = Inr (r_quote (c_rate c))"
    "\<bar>2 * (c_amount c * rate_scale - amount * r_scaled (c_rate c))\<bar> \<le> rate_scale"
    "\<not> after (r_effective (c_rate c)) ?day \<or> r_base (c_rate c) = r_quote (c_rate c)"
    using n by auto
  show "\<not> after (r_effective x) (r_effective (c_rate c))"
    if x: "x \<in> stored" "\<not> after (r_effective x) ?day" "r_base (c_rate c) \<noteq> r_quote (c_rate c)"
      "{r_base x, r_quote x} = {r_base (c_rate c), r_quote (c_rate c)}"
  proof -
    obtain r where r: "lookup (r_base x) (r_quote x) ?day = Some r" "\<not> after (r_effective x) (r_effective r)"
      using newest [OF x(1,2)] by blast
    have "r \<in> set_option (lookup f t ?day) \<union> set_option (lookup t f ?day)"
      using x(4) r(1) all by (auto simp: doubleton_eq_iff)
    with all x(3) r(2) show ?thesis by (auto simp: after_def)
  qed
qed

end

lemma newest_None: "newest rs = None \<longleftrightarrow> rs = []"
  by (cases rs) (auto split: option.splits)

lemma newest_max:
  assumes "newest rs = Some r"
  shows "r \<in> set rs \<and> (\<forall>x \<in> set rs. \<not> after (r_effective x) (r_effective r))"
  using assms
proof (induction rs arbitrary: r)
  case (Cons a rs)
  show ?case
  proof (cases "newest rs")
    case None
    then show ?thesis using Cons.prems by (simp add: newest_None after_def)
  next
    case (Some x)
    with Cons.IH [OF Some] Cons.prems show ?thesis by (auto simp: after_def split: if_splits)
  qed
qed simp

interpretation table: rate_reader "latest rs" "set rs" for rs
proof
  fix b q on r
  assume "latest rs b q on = Some r"
  then show "r \<in> set rs \<and> r_base r = b \<and> r_quote r = q \<and> \<not> after (r_effective r) on"
    using newest_max by (fastforce simp: latest_def)
next
  fix x on
  assume x: "x \<in> set rs" "\<not> after (r_effective x) on"
  let ?l = "filter (\<lambda>r. r_base r = r_base x \<and> r_quote r = r_quote x \<and> \<not> after (r_effective r) on) rs"
  have "x \<in> set ?l" using x by simp
  then obtain r where "newest ?l = Some r" by (cases "newest ?l") (auto simp: newest_None filter_empty_conv)
  with newest_max [OF this] \<open>x \<in> set ?l\<close>
  show "\<exists>r. latest rs (r_base x) (r_quote x) on = Some r \<and> \<not> after (r_effective x) (r_effective r)"
    by (auto simp: latest_def)
qed

section \<open>Properties\<close>

text \<open>
  The table invariant: identifiers aside, every row is a positive rate between two different normalised
  currencies on a calendar day, and no two rows share pair and date.
\<close>

definition row_ok :: "rate \<Rightarrow> bool" where
  "row_ok r \<longleftrightarrow> normalize_currency (r_base r) = Inr (r_base r) \<and> normalize_currency (r_quote r) = Inr (r_quote r)
     \<and> r_base r \<noteq> r_quote r \<and> 0 < r_scaled r \<and> truncate_day (r_effective r) = r_effective r"

definition rates_ok :: "fx_db \<Rightarrow> bool" where
  "rates_ok db \<longleftrightarrow> (\<forall>r \<in> set (fx_rates db). row_ok (sr_rate r))
     \<and> sorted_wrt (\<lambda>a b. \<not> same_slot (sr_rate a) (sr_rate b)) (fx_rates db)"

lemma insert_if_absent_ok:
  assumes "insert_if_absent r db = Inr (ok, db')" "rates_ok db" "row_ok (sr_rate r)"
  shows "rates_ok db'"
  using assms
  by (auto simp: insert_if_absent_def rates_ok_def sorted_wrt_append list_ex_iff elim!: and_then_InrE split: if_splits)

lemma fx_record_ok: "fx_record env a i db = Inr (u, db') \<Longrightarrow> rates_ok db \<Longrightarrow> rates_ok db'"
  by (auto simp: fx_record_def rates_ok_def split: option.splits)

lemma parse_rate_pos: "parse_rate s = Inr v \<Longrightarrow> 0 < v"
  by (auto simp: parse_rate_def Let_def split: if_splits option.splits prod.splits)

lemma date_utc_truncate [simp]: "truncate_day (date_utc y m d) = date_utc y m d"
  by (simp add: date_utc_def)

lemma date_of_truncate [simp]: "truncate_day (date_of t) = date_of t"
  by (simp add: date_of_def split: prod.splits)

lemma fx_parse_date_truncate: "fx_parse_date s = Inr d \<Longrightarrow> truncate_day d = d"
  by (auto simp: fx_parse_date_def parse_date_def Let_def split: option.splits if_splits)

lemma new_rate_ok: "new_rate env inp = Inr r \<Longrightarrow> row_ok (sr_rate r)"
  by (auto simp: new_rate_def row_ok_def parse_rate_pos fx_parse_date_truncate normalize_currency_Inr(3)
      split: sum.splits if_splits)

lemma fx_create_ok: "fx_create env inp db = Inr (r, db') \<Longrightarrow> rates_ok db \<Longrightarrow> rates_ok db'"
  by (auto simp: fx_create_def insert_rate_def elim!: and_then_InrE lift_result_InrE split: sum.splits if_splits;
      blast intro: fx_record_ok insert_if_absent_ok new_rate_ok)

lemma sorted_wrt_slot_map:
  assumes "sorted_wrt (\<lambda>a b. \<not> same_slot (sr_rate a) (sr_rate b)) rs"
    and "\<And>x. r_base (sr_rate (f x)) = r_base (sr_rate x) \<and> r_quote (sr_rate (f x)) = r_quote (sr_rate x)
           \<and> r_effective (sr_rate (f x)) = r_effective (sr_rate x)"
  shows "sorted_wrt (\<lambda>a b. \<not> same_slot (sr_rate a) (sr_rate b)) (map f rs)"
  using assms by (simp add: sorted_wrt_map same_slot_def)

lemma update_rate_ok:
  assumes "update_rate i s src db = Inr (u, db')" "rates_ok db" "0 < s"
  shows "rates_ok db'"
  using assms
  by (auto simp: update_rate_def rates_ok_def row_ok_def elim!: and_then_InrE split: if_splits intro!: sorted_wrt_slot_map)

lemma fx_update_ok: "fx_update env i txt src db = Inr (r, db') \<Longrightarrow> rates_ok db \<Longrightarrow> rates_ok db'"
  by (auto simp: fx_update_def get_rate_def Let_def elim!: and_then_InrE lift_result_InrE split: option.splits;
      blast intro: fx_record_ok update_rate_ok parse_rate_pos)

lemma fx_delete_ok: "fx_delete env i db = Inr (u, db') \<Longrightarrow> rates_ok db \<Longrightarrow> rates_ok db'"
proof -
  have "delete_rate i d = Inr (u, d') \<Longrightarrow> rates_ok d \<Longrightarrow> rates_ok d'" for d u d'
    by (auto simp: delete_rate_def rates_ok_def sorted_wrt_filter elim!: and_then_InrE split: if_splits)
  then show "fx_delete env i db = Inr (u, db') \<Longrightarrow> rates_ok db \<Longrightarrow> rates_ok db'"
    by (auto simp: fx_delete_def get_rate_def elim!: and_then_InrE lift_result_InrE split: option.splits intro: fx_record_ok)
qed

lemma sync_rates_ok:
  assumes "sync_rates env name day rs db = Inr (n, db')" "rates_ok db" "truncate_day day = day"
  shows "rates_ok db'"
  using assms(1,2)
proof (induction rs arbitrary: n db)
  case (Cons p rs)
  obtain r i where p: "p = (r, i)" by (cases p)
  show ?case
  proof (cases "\<exists>b q. normalize_currency (r_base r) = Inr b \<and> normalize_currency (r_quote r) = Inr q
      \<and> b \<noteq> q \<and> 0 < r_scaled r")
    case False
    then have "sync_rates env name day (p # rs) = sync_rates env name day rs"
      by (auto simp: p split: sum.splits)
    with Cons show ?thesis by simp
  next
    case True
    then obtain b q where bq: "normalize_currency (r_base r) = Inr b" "normalize_currency (r_quote r) = Inr q"
      "b \<noteq> q" "0 < r_scaled r" by blast
    let ?st = "\<lparr>sr_id = i, sr_rate = \<lparr>r_base = b, r_quote = q, r_scaled = r_scaled r,
        r_effective = (if is_zero (r_effective r) then day else date_of (r_effective r)),
        r_source = source_or (r_source r) name\<rparr>, sr_created_by = None, sr_created_at = utc (fe_now env)\<rparr>"
    have row: "row_ok (sr_rate ?st)"
      using bq assms(3) by (simp add: row_ok_def normalize_currency_Inr(3))
    obtain ok d1 where i: "insert_if_absent ?st db = Inr (ok, d1)"
      and cont: "(if \<not> ok then sync_rates env name day rs
         else and_then (fx_record env ''fx.rate_created'' i) (\<lambda>_.
              and_then (sync_rates env name day rs) (\<lambda>n. ret (n + 1)))) d1 = Inr (n, db')"
      using Cons.prems(1) bq by (auto simp: p Let_def elim!: and_then_InrE)
    have "rates_ok d1" by (rule insert_if_absent_ok [OF i Cons.prems(2) row])
    with cont show ?thesis
      by (cases ok) (auto elim!: and_then_InrE intro: Cons.IH dest: fx_record_ok)
  qed
qed simp

inductive fx_step :: "fx_db \<Rightarrow> fx_db \<Rightarrow> bool" where
  "within_transaction (fx_create env inp) db = (r, db') \<Longrightarrow> fx_step db db'"
| "within_transaction (fx_update env i txt src) db = (r, db') \<Longrightarrow> fx_step db db'"
| "within_transaction (fx_delete env i) db = (u, db') \<Longrightarrow> fx_step db db'"
| "within_transaction (sync_rates env name (fx_today env) rs) db = (n, db') \<Longrightarrow> fx_step db db'"

lemma fx_step_ok: "fx_step db db' \<Longrightarrow> rates_ok db \<Longrightarrow> rates_ok db'"
proof (induction rule: fx_step.induct)
  case (1 env inp db r db')
  show ?case by (rule transaction_keeps [where P = rates_ok, OF 1]) (rule fx_create_ok [OF _ 1(2)])
next
  case (2 env i tx src db r db')
  show ?case by (rule transaction_keeps [where P = rates_ok, OF 2]) (rule fx_update_ok [OF _ 2(2)])
next
  case (3 env i db u db')
  show ?case by (rule transaction_keeps [where P = rates_ok, OF 3]) (rule fx_delete_ok [OF _ 3(2)])
next
  case (4 env name rs db n db')
  show ?case
  proof (rule transaction_keeps [where P = rates_ok, OF 4])
    fix k d
    assume "sync_rates env name (fx_today env) rs db = Inr (k, d)"
    then show "rates_ok d" by (rule sync_rates_ok [OF _ 4(2)]) (simp add: fx_today_def)
  qed
qed

definition empty_fx :: fx_db where "empty_fx = \<lparr>fx_rates = [], fx_audit = []\<rparr>"

interpretation fx_table: invariant_machine "\<lambda>db. db = empty_fx" fx_step rates_ok
proof
  show "rates_ok s" if "s = empty_fx" for s using that by (simp add: rates_ok_def empty_fx_def)
  show "rates_ok t" if "rates_ok s" "fx_step s t" for s t by (rule fx_step_ok [OF that(2,1)])
qed



end
