(* ===== verification/Booking.thy ===== *)
theory Booking
  imports Access Status_Machine
begin

text \<open>
  \<^verbatim>\<open>internal/domain/booking/lifecycle.go\<close>: the booking record, its status machine (edges per kind of
  actor, guards, overrides, the option hold window), the derived statuses of the confirmed family and
  the seat effect of a transition.

  A status or actor is a Go string; the constants are constructors and any other string is
  \<open>OtherStatus\<close> or \<open>OtherActor\<close>. \<open>Transition\<close> mutates its receiver: the model returns the new booking
  with the result, and on an error nothing, the receiver being unchanged then.
\<close>

named_theorems status_simps \<open>evaluation rules of the status predicates\<close>

section \<open>Statuses, actors and guards\<close>

datatype status =
  StatusDraft | StatusQuoted | StatusOptionHold | StatusConfirmed | StatusPartiallyPaid
| StatusReady | StatusTravelled | StatusCompleted | StatusCancelled | OtherStatus string

fun status_str :: "status \<Rightarrow> string" where
  "status_str StatusDraft = ''draft''"
| "status_str StatusQuoted = ''quoted''"
| "status_str StatusOptionHold = ''option_hold''"
| "status_str StatusConfirmed = ''confirmed''"
| "status_str StatusPartiallyPaid = ''partially_paid''"
| "status_str StatusReady = ''ready''"
| "status_str StatusTravelled = ''travelled''"
| "status_str StatusCompleted = ''completed''"
| "status_str StatusCancelled = ''cancelled''"
| "status_str (OtherStatus s) = s"

definition all_statuses :: "status list" where
  "all_statuses = [StatusDraft, StatusQuoted, StatusOptionHold, StatusConfirmed, StatusPartiallyPaid,
     StatusReady, StatusTravelled, StatusCompleted, StatusCancelled]"

definition status_valid :: "status \<Rightarrow> bool" where
  [status_simps]: "status_valid s \<longleftrightarrow> list_ex (\<lambda>x. x = s) all_statuses"

definition consumes_seat :: "status \<Rightarrow> bool" where
  [status_simps]: "consumes_seat s =
     (case s of StatusOptionHold \<Rightarrow> True | StatusConfirmed \<Rightarrow> True | StatusPartiallyPaid \<Rightarrow> True
      | StatusReady \<Rightarrow> True | StatusTravelled \<Rightarrow> True | StatusCompleted \<Rightarrow> True | _ \<Rightarrow> False)"

definition is_confirmed_family :: "status \<Rightarrow> bool" where
  [status_simps]: "is_confirmed_family s \<longleftrightarrow> s = StatusConfirmed \<or> s = StatusPartiallyPaid \<or> s = StatusReady"

definition is_sold :: "status \<Rightarrow> bool" where
  [status_simps]: "is_sold s \<longleftrightarrow> is_confirmed_family s \<or> s = StatusTravelled \<or> s = StatusCompleted"

definition terminal_status :: "status \<Rightarrow> bool" where
  [status_simps]: "terminal_status s \<longleftrightarrow> s = StatusCancelled \<or> s = StatusCompleted"

definition editable :: "status \<Rightarrow> bool" where
  [status_simps]: "editable s \<longleftrightarrow> s = StatusDraft \<or> s = StatusQuoted"

datatype actor_kind = ActorUser | ActorSystem | ActorOverride | OtherActor string

datatype guard =
  GuardCustomerRequired | GuardDepartureRequired | GuardSalesClosed | GuardNoCapacity
| GuardHoldExpiryRequired | GuardHoldExpiryPast | GuardHoldExpiryTooFar | GuardReasonRequired
| GuardOverrideReasonTooShort | GuardReadinessIncomplete | GuardBalanceOutstanding
| GuardHoldNotExpired | GuardDepartureNotReached | GuardNotDerived

fun guard_str :: "guard \<Rightarrow> string" where
  "guard_str GuardCustomerRequired = ''customer_required''"
| "guard_str GuardDepartureRequired = ''departure_required''"
| "guard_str GuardSalesClosed = ''sales_closed''"
| "guard_str GuardNoCapacity = ''no_capacity''"
| "guard_str GuardHoldExpiryRequired = ''hold_expiry_required''"
| "guard_str GuardHoldExpiryPast = ''hold_expiry_in_past''"
| "guard_str GuardHoldExpiryTooFar = ''hold_expiry_too_far''"
| "guard_str GuardReasonRequired = ''reason_required''"
| "guard_str GuardOverrideReasonTooShort = ''override_reason_too_short''"
| "guard_str GuardReadinessIncomplete = ''readiness_incomplete''"
| "guard_str GuardBalanceOutstanding = ''balance_outstanding''"
| "guard_str GuardHoldNotExpired = ''hold_not_expired''"
| "guard_str GuardDepartureNotReached = ''departure_not_reached''"
| "guard_str GuardNotDerived = ''status_not_derived''"

definition bypassable :: "guard \<Rightarrow> bool" where
  "bypassable g \<longleftrightarrow> g = GuardReadinessIncomplete \<or> g = GuardBalanceOutstanding"

definition max_hold_duration :: int where "max_hold_duration = 14 * 24 * hour_ns"
definition min_override_reason_len :: nat where "min_override_reason_len = 10"

section \<open>Edges\<close>

definition user_edges :: "status \<Rightarrow> status list" where
  "user_edges s =
     (case s of
        StatusDraft \<Rightarrow> [StatusQuoted, StatusOptionHold, StatusConfirmed, StatusCancelled]
      | StatusQuoted \<Rightarrow> [StatusDraft, StatusOptionHold, StatusConfirmed, StatusCancelled]
      | StatusOptionHold \<Rightarrow> [StatusQuoted, StatusConfirmed, StatusCancelled]
      | StatusConfirmed \<Rightarrow> [StatusCancelled]
      | StatusPartiallyPaid \<Rightarrow> [StatusCancelled]
      | StatusReady \<Rightarrow> [StatusCancelled]
      | StatusTravelled \<Rightarrow> [StatusCompleted]
      | _ \<Rightarrow> [])"

definition override_only_edges :: "status \<Rightarrow> status list" where
  "override_only_edges s =
     (case s of StatusConfirmed \<Rightarrow> [StatusReady] | StatusPartiallyPaid \<Rightarrow> [StatusReady] | _ \<Rightarrow> [])"

definition system_edges :: "status \<Rightarrow> status list" where
  "system_edges s =
     (case s of
        StatusOptionHold \<Rightarrow> [StatusDraft]
      | StatusConfirmed \<Rightarrow> [StatusPartiallyPaid, StatusReady, StatusTravelled]
      | StatusPartiallyPaid \<Rightarrow> [StatusConfirmed, StatusReady, StatusTravelled]
      | StatusReady \<Rightarrow> [StatusConfirmed, StatusPartiallyPaid, StatusTravelled]
      | _ \<Rightarrow> [])"

definition can_transition :: "status \<Rightarrow> status \<Rightarrow> actor_kind \<Rightarrow> bool" where
  "can_transition from to actor =
     (case actor of
        ActorUser \<Rightarrow> to \<in> set (user_edges from)
      | ActorOverride \<Rightarrow> to \<in> set (user_edges from) \<or> to \<in> set (override_only_edges from)
      | ActorSystem \<Rightarrow> to \<in> set (system_edges from)
      | OtherActor _ \<Rightarrow> False)"

record allowed_transition =
  at_status :: status
  at_requires_reason :: bool
  at_requires_override :: bool

definition allowed_transitions :: "status \<Rightarrow> bool \<Rightarrow> allowed_transition list" where
  "allowed_transitions s can_override =
     map (\<lambda>to. \<lparr>at_status = to, at_requires_reason = (to = StatusCancelled), at_requires_override = False\<rparr>)
       (user_edges s)
     @ (if can_override
        then map (\<lambda>to. \<lparr>at_status = to, at_requires_reason = True, at_requires_override = True\<rparr>)
               (override_only_edges s)
        else [])"

section \<open>The booking\<close>

text \<open>
  The columns of a booking. The read-only context \<open>Info\<close> that list queries join in (names, counts) is
  not part of the record: no operation that changes a booking reads it.
\<close>

record booking =
  b_id :: uuid
  b_branch :: uuid
  b_customer :: uuid
  b_departure :: uuid
  b_lead :: "uuid option"
  b_status :: status
  b_pax :: int
  b_total :: int
  b_discount :: int
  b_tax :: int
  b_fee :: int
  b_cost :: int
  b_collected :: int
  b_balance :: int
  b_currency :: string
  b_notes :: string
  b_owner :: uuid
  b_hold :: "go_time option"
  b_status_changed :: go_time
  b_status_reason :: string
  b_ready_forced :: bool
  b_created :: go_time
  b_updated :: go_time
  b_ref_no :: int
  b_pnr :: string
  b_service :: string
  b_supplier :: string
  b_channel :: string
  b_summary :: string
  b_company :: string
  b_reissues :: int

text \<open>Go's zero value of the struct.\<close>

definition zero_booking :: booking where
  "zero_booking = \<lparr>b_id = 0, b_branch = 0, b_customer = 0, b_departure = 0, b_lead = None,
     b_status = OtherStatus [], b_pax = 0, b_total = 0, b_discount = 0, b_tax = 0, b_fee = 0, b_cost = 0,
     b_collected = 0, b_balance = 0, b_currency = [], b_notes = [], b_owner = 0, b_hold = None,
     b_status_changed = zero_time, b_status_reason = [], b_ready_forced = False, b_created = zero_time,
     b_updated = zero_time, b_ref_no = 0, b_pnr = [], b_service = [], b_supplier = [], b_channel = [],
     b_summary = [], b_company = [], b_reissues = 0\<rparr>"

definition derive_status :: "int \<Rightarrow> int \<Rightarrow> bool \<Rightarrow> status" where
  "derive_status collected balance readiness_ok =
     (if readiness_ok \<and> balance \<le> 0 then StatusReady
      else if collected > 0 then StatusPartiallyPaid
      else StatusConfirmed)"

definition derived_status :: "booking \<Rightarrow> bool \<Rightarrow> status" where
  "derived_status b readiness_ok =
     (if b_ready_forced b then StatusReady else derive_status (b_collected b) (b_balance b) readiness_ok)"

datatype seat_change = SeatNone | SeatAcquire | SeatRelease

definition seat_change_for :: "status \<Rightarrow> status \<Rightarrow> seat_change" where
  "seat_change_for from to =
     (if \<not> consumes_seat from \<and> consumes_seat to then SeatAcquire
      else if consumes_seat from \<and> \<not> consumes_seat to then SeatRelease
      else SeatNone)"

record transition_facts =
  f_departure_found :: bool
  f_sales_open :: bool
  f_has_capacity :: bool
  f_departure_reached :: bool
  f_readiness_ok :: bool

record transition_input =
  in_to :: status
  in_actor :: actor_kind
  in_reason :: string
  in_hold :: "go_time option"
  in_now :: go_time
  in_facts :: transition_facts

record transition_result =
  res_from :: status
  res_to :: status
  res_actor :: actor_kind
  res_seat :: seat_change
  res_bypassed :: "guard list"
  res_prev_hold :: "go_time option"

definition valid_override_reason :: "string \<Rightarrow> bool" where
  "valid_override_reason reason \<longleftrightarrow> rune_count (trim_space reason) \<ge> min_override_reason_len"

text \<open>\<open>add_if p g\<close> is the closure \<open>add\<close> of the source under a condition.\<close>

abbreviation add_if :: "bool \<Rightarrow> guard \<Rightarrow> guard list" where
  "add_if p g \<equiv> (if p then [g] else [])"

definition hold_guards :: "transition_input \<Rightarrow> guard list" where
  "hold_guards inp =
     (if in_to inp = StatusOptionHold then
        (case in_hold inp of
           None \<Rightarrow> [GuardHoldExpiryRequired]
         | Some h \<Rightarrow>
             if \<not> after h (in_now inp) then [GuardHoldExpiryPast]
             else if time_sub h (in_now inp) > max_hold_duration then [GuardHoldExpiryTooFar]
             else [])
      else [])"

definition entry_guards :: "booking \<Rightarrow> transition_input \<Rightarrow> guard list" where
  "entry_guards b inp =
     (let to = in_to inp; f = in_facts inp in
      if to = StatusOptionHold \<or> is_confirmed_family to \<and> \<not> is_confirmed_family (b_status b) then
        add_if (b_customer b = uuid_nil) GuardCustomerRequired
        @ (if \<not> f_departure_found f then [GuardDepartureRequired]
           else if seat_change_for (b_status b) to = SeatAcquire then
             (if \<not> f_sales_open f then [GuardSalesClosed]
              else if \<not> f_has_capacity f then [GuardNoCapacity]
              else [])
           else [])
      else [])"

definition actor_guards :: "booking \<Rightarrow> transition_input \<Rightarrow> guard list" where
  "actor_guards b inp =
     (let to = in_to inp; f = in_facts inp in
      if in_actor inp = ActorSystem then
        (if is_confirmed_family to then add_if (to \<noteq> derived_status b (f_readiness_ok f)) GuardNotDerived
         else if to = StatusTravelled then add_if (\<not> f_departure_reached f) GuardDepartureNotReached
         else if b_status b = StatusOptionHold \<and> to = StatusDraft then
           (case b_hold b of
              None \<Rightarrow> []
            | Some h \<Rightarrow> add_if (before (in_now inp) h) GuardHoldNotExpired)
         else [])
      else if to = StatusReady then
        add_if (\<not> f_readiness_ok f) GuardReadinessIncomplete
        @ add_if (b_balance b > 0) GuardBalanceOutstanding
      else [])"

definition booking_guards :: "booking \<Rightarrow> transition_input \<Rightarrow> guard list" where
  "booking_guards b inp =
     add_if (in_actor inp = ActorOverride \<and> \<not> valid_override_reason (in_reason inp)) GuardOverrideReasonTooShort
     @ add_if (in_to inp = StatusCancelled \<and> trim_space (in_reason inp) = []) GuardReasonRequired
     @ hold_guards inp @ entry_guards b inp @ actor_guards b inp"

definition invalid_transition :: "status \<Rightarrow> status \<Rightarrow> actor_kind \<Rightarrow> error" where
  "invalid_transition from to actor =
     mk_app ''invalid_transition''
       (''cannot transition booking from '' @ status_str from @ '' to '' @ status_str to
        @ (if actor = ActorUser \<and> to \<in> set (override_only_edges from) then '' without override'' else []))
       ErrConflict"

definition guard_failed :: "guard list \<Rightarrow> error" where
  "guard_failed gs =
     with_details (mk_app ''guard_failed'' (''transition guards failed: '' @ join '', '' (map guard_str gs))
       ErrInvalidState) [(''guards'', map guard_str gs)]"

text \<open>\<open>FailedGuards\<close>: the guard names an error carries, none when it is another error.\<close>

definition failed_guards :: "error \<Rightarrow> string list" where
  "failed_guards e =
     (case e of
        App a \<Rightarrow> if code a \<noteq> ''guard_failed'' then []
                 else (case map_of (details a) ''guards'' of None \<Rightarrow> [] | Some ns \<Rightarrow> ns)
      | Plain _ \<Rightarrow> [])"

text \<open>The status fields a transition writes, as the function of its input that the record update is.\<close>

definition moved :: "booking \<Rightarrow> transition_input \<Rightarrow> booking" where
  "moved b inp =
     b\<lparr>b_status := in_to inp, b_status_changed := utc (in_now inp),
       b_status_reason := trim_space (in_reason inp),
       b_hold := (if in_to inp = StatusOptionHold then map_option utc (in_hold inp) else None),
       b_ready_forced :=
         (if in_actor inp = ActorOverride \<and> in_to inp = StatusReady then True
          else if \<not> is_confirmed_family (in_to inp) then False else b_ready_forced b),
       b_updated := utc (in_now inp)\<rparr>"

definition transition :: "booking \<Rightarrow> transition_input \<Rightarrow> (transition_result \<times> booking) result" where
  "transition b inp =
     (let from = b_status b; to = in_to inp in
      if \<not> status_valid to then Inl (new_validation (''invalid status: '' @ status_str to))
      else if from = to \<or> \<not> can_transition from to (in_actor inp)
      then Inl (invalid_transition from to (in_actor inp))
      else
        let gs = booking_guards b inp;
            lifted = (\<lambda>g. in_actor inp = ActorOverride \<and> bypassable g);
            bypassed = filter lifted gs;
            hard = filter (\<lambda>g. \<not> lifted g) gs
        in if hard \<noteq> [] then Inl (guard_failed hard)
           else Inr (\<lparr>res_from = from, res_to = to, res_actor = in_actor inp,
                      res_seat = seat_change_for from to, res_bypassed = bypassed,
                      res_prev_hold = b_hold b\<rparr>,
                     moved b inp))"

record readiness_facts =
  rf_participants_missing :: bool
  rf_checklist_incomplete :: int
  rf_missing_docs :: "string list"
  rf_override_active :: bool

definition readiness_ok :: "readiness_facts \<Rightarrow> bool" where
  "readiness_ok f =
     (if rf_participants_missing f then False
      else rf_override_active f \<or> rf_checklist_incomplete f = 0 \<and> rf_missing_docs f = [])"

definition departure_reached :: "go_time \<Rightarrow> go_time \<Rightarrow> bool" where
  "departure_reached depart_date today = (\<not> before (truncate_day today) (truncate_day depart_date))"

section \<open>What a transition does\<close>

lemma status_valid_cases: "status_valid s \<longleftrightarrow> (\<forall>x. s \<noteq> OtherStatus x)"
  by (cases s) (auto simp: status_valid_def all_statuses_def)

lemma no_edge_from_final [simp]:
  "terminal_status s \<Longrightarrow> \<not> can_transition s t a"
  by (cases a) (auto simp: terminal_status_def can_transition_def user_edges_def override_only_edges_def
      system_edges_def)

lemma moved_simps [simp]:
  "b_status (moved b i) = in_to i" "b_id (moved b i) = b_id b" "b_branch (moved b i) = b_branch b"
  "b_customer (moved b i) = b_customer b" "b_departure (moved b i) = b_departure b" "b_pax (moved b i) = b_pax b"
  "b_total (moved b i) = b_total b" "b_collected (moved b i) = b_collected b" "b_balance (moved b i) = b_balance b"
  "b_owner (moved b i) = b_owner b" "b_discount (moved b i) = b_discount b" "b_tax (moved b i) = b_tax b"
  "b_fee (moved b i) = b_fee b" "b_cost (moved b i) = b_cost b" "b_currency (moved b i) = b_currency b"
  by (simp_all add: moved_def)

lemma transition_Inr_iff:
  "transition b inp = Inr (res, b') \<longleftrightarrow>
     status_valid (in_to inp) \<and> b_status b \<noteq> in_to inp
     \<and> can_transition (b_status b) (in_to inp) (in_actor inp)
     \<and> (\<forall>g \<in> set (booking_guards b inp). in_actor inp = ActorOverride \<and> bypassable g)
     \<and> b' = moved b inp
     \<and> res = \<lparr>res_from = b_status b, res_to = in_to inp, res_actor = in_actor inp,
              res_seat = seat_change_for (b_status b) (in_to inp), res_bypassed = booking_guards b inp,
              res_prev_hold = b_hold b\<rparr>"
  (is "?l \<longleftrightarrow> ?r")
proof -
  let ?P = "\<lambda>g. in_actor inp = ActorOverride \<and> bypassable g"
  have f: "filter (\<lambda>g. \<not> ?P g) gs = [] \<longleftrightarrow> (\<forall>g \<in> set gs. ?P g)" for gs by (simp add: filter_empty_conv)
  have g: "(\<forall>g \<in> set gs. ?P g) \<Longrightarrow> filter ?P gs = gs" for gs by simp
  show ?thesis
  proof
    assume l: ?l
    then have c: "status_valid (in_to inp)" "b_status b \<noteq> in_to inp"
        "can_transition (b_status b) (in_to inp) (in_actor inp)"
        "filter (\<lambda>g. \<not> ?P g) (booking_guards b inp) = []"
      by (simp_all add: transition_def Let_def split: if_splits)
    have h: "\<forall>g \<in> set (booking_guards b inp). ?P g" by (rule iffD1 [OF f c(4)])
    from g [OF h] l c h show ?r by (simp add: transition_def Let_def)
  next
    assume r: ?r
    then have "filter (\<lambda>g. \<not> ?P g) (booking_guards b inp) = []" "filter ?P (booking_guards b inp) = booking_guards b inp"
      using f g by blast+
    with r show ?l by (simp add: transition_def Let_def)
  qed
qed

lemma transition_lifted:
  assumes "transition b inp = Inr (res, b')" "g \<in> set (booking_guards b inp)"
  shows "in_actor inp = ActorOverride" "bypassable g"
  using assms(2) iffD1 [OF transition_Inr_iff assms(1)] by blast+

lemma guard_groups:
  "set (hold_guards inp) \<subseteq> set (booking_guards b inp)" "set (entry_guards b inp) \<subseteq> set (booking_guards b inp)"
  "set (actor_guards b inp) \<subseteq> set (booking_guards b inp)"
  unfolding booking_guards_def set_append by blast+

lemma transition_hold_set:
  assumes "transition b inp = Inr (res, b')" "in_to inp = StatusOptionHold"
  shows "\<exists>h. in_hold inp = Some h \<and> after h (in_now inp) \<and> nanos h \<le> nanos (in_now inp) + max_hold_duration"
proof -
  have "\<forall>g \<in> set (hold_guards inp). bypassable g"
    using transition_lifted [OF assms(1)] guard_groups [where b = b and inp = inp] by blast
  then have "hold_guards inp = []"
    by (auto simp: hold_guards_def bypassable_def split: option.splits if_splits)
  with assms(2) show ?thesis
    by (auto simp: hold_guards_def time_sub_def max_hold_duration_def int64_max_def int64_min_def hour_ns_def
        after_def split: option.splits if_splits)
qed

text \<open>No guard survives a transition by a user or the system, and an override lifts only two.\<close>

lemma transition_guards_user:
  assumes "transition b inp = Inr (res, b')" "in_actor inp \<noteq> ActorOverride"
  shows "booking_guards b inp = []"
  using transition_lifted(1) [OF assms(1)] assms(2) by (meson list.set_sel(1))

lemma transition_departure_guard:
  assumes "transition b inp = Inr (res, b')" "seat_change_for (b_status b) (in_to inp) = SeatAcquire"
  shows "f_departure_found (in_facts inp) \<and> f_sales_open (in_facts inp) \<and> f_has_capacity (in_facts inp)
    \<and> b_customer b \<noteq> uuid_nil"
proof -
  have e: "in_to inp = StatusOptionHold \<or> is_confirmed_family (in_to inp) \<and> \<not> is_confirmed_family (b_status b)"
    using assms
    by (cases "b_status b"; cases "in_actor inp")
       (auto simp: transition_Inr_iff can_transition_def user_edges_def override_only_edges_def system_edges_def
         seat_change_for_def status_simps)
  have n: "\<forall>g \<in> set (entry_guards b inp). bypassable g"
    using transition_lifted [OF assms(1)] guard_groups [where b = b and inp = inp] by blast
  from n e assms(2) show ?thesis
    by (auto simp: entry_guards_def Let_def bypassable_def split: if_splits)
qed

text \<open>
  The derived status is always reachable: from a confirmed-family status the system transition to it
  passes every guard, and afterwards the status is the derived one.
\<close>

lemma derived_in_family: "is_confirmed_family (derived_status b ok)"
  by (simp add: derived_status_def derive_status_def is_confirmed_family_def)

lemma system_settles:
  assumes fam: "is_confirmed_family (b_status b)" and ne: "derived_status b ok \<noteq> b_status b"
    and inp: "in_to inp = derived_status b ok" "in_actor inp = ActorSystem" "f_readiness_ok (in_facts inp) = ok"
  shows "\<exists>res. transition b inp = Inr (res, moved b inp)" "derived_status (moved b inp) ok = b_status (moved b inp)"
proof -
  let ?t = "derived_status b ok"
  have t: "is_confirmed_family ?t" by (rule derived_in_family)
  have edge: "can_transition (b_status b) ?t ActorSystem"
    using fam t ne by (auto simp: can_transition_def system_edges_def is_confirmed_family_def)
  have "status_valid ?t" using t by (auto simp: is_confirmed_family_def status_valid_cases)
  moreover have "booking_guards b inp = []"
  proof -
    have fi: "is_confirmed_family (in_to inp)" using inp(1) t by simp
    then have ne: "in_to inp \<noteq> StatusOptionHold" "in_to inp \<noteq> StatusCancelled" by (auto simp: is_confirmed_family_def)
    have "hold_guards inp = []" using ne(1) by (simp add: hold_guards_def)
    moreover have "entry_guards b inp = []" using ne(1) fam by (simp add: entry_guards_def Let_def)
    moreover have "actor_guards b inp = []" using inp fi by (simp add: actor_guards_def Let_def)
    ultimately show ?thesis using ne(2) inp(2) by (simp add: booking_guards_def)
  qed
  ultimately show "\<exists>res. transition b inp = Inr (res, moved b inp)"
    using edge ne inp by (simp add: transition_Inr_iff)
  show "derived_status (moved b inp) ok = b_status (moved b inp)"
    using inp t by (simp add: derived_status_def) (simp add: moved_def derived_status_def)
qed

end
