(* ===== verification/Booking_Workspace.thy ===== *)
theory Booking_Workspace
  imports Booking
begin

text \<open>
  \<^verbatim>\<open>internal/domain/booking/model.go\<close>, \<^verbatim>\<open>workspace.go\<close> and \<^verbatim>\<open>collab.go\<close>: the money of a booking
  (line items, totals, balance), its commercial profile, the booking number, the derived ticket and
  payment statuses, option extension, the cancellation quote, notes and change requests. The last
  sections collect every operation that mutates a booking into one step relation and prove the
  booking invariant for all runs.
\<close>

section \<open>Line items and totals\<close>

definition valid_line_category :: "string \<Rightarrow> bool" where
  "valid_line_category c \<longleftrightarrow>
     c \<in> {''package'', ''hotel'', ''room'', ''transport'', ''flight'', ''extras''}"

definition valid_line_kind :: "string \<Rightarrow> bool" where
  "valid_line_kind k \<longleftrightarrow> k = ''item'' \<or> k = ''tax'' \<or> k = ''fee''"

record line_item =
  li_id :: uuid
  li_booking :: uuid
  li_kind :: string
  li_category :: string
  li_label :: string
  li_quantity :: int
  li_unit_price :: int
  li_unit_cost :: int
  li_sort :: int
  li_created :: go_time
  li_updated :: go_time

definition line_total :: "line_item \<Rightarrow> int" where "line_total l = mul64 (li_quantity l) (li_unit_price l)"
definition line_cost :: "line_item \<Rightarrow> int" where "line_cost l = mul64 (li_quantity l) (li_unit_cost l)"

record totals =
  t_subtotal :: int
  t_discount :: int
  t_tax :: int
  t_fees :: int
  t_total :: int
  t_cost :: int

text \<open>The loop of \<open>ComputeTotals\<close>.\<close>

fun sum_lines :: "totals \<Rightarrow> line_item list \<Rightarrow> totals result" where
  "sum_lines t [] = Inr t"
| "sum_lines t (l # ls) =
     (if li_kind l = ''item''
      then sum_lines (t\<lparr>t_subtotal := add64 (t_subtotal t) (line_total l), t_cost := add64 (t_cost t) (line_cost l)\<rparr>) ls
      else if li_kind l = ''tax''
      then sum_lines (t\<lparr>t_tax := add64 (t_tax t) (line_total l), t_cost := add64 (t_cost t) (line_cost l)\<rparr>) ls
      else if li_kind l = ''fee''
      then sum_lines (t\<lparr>t_fees := add64 (t_fees t) (line_total l), t_cost := add64 (t_cost t) (line_cost l)\<rparr>) ls
      else Inl (new_validation (''invalid line kind: '' @ li_kind l)))"

definition compute_totals :: "line_item list \<Rightarrow> int \<Rightarrow> totals result" where
  "compute_totals lines discount =
     (if discount < 0 then Inl (new_validation ''discount_amt must be >= 0'')
      else case sum_lines \<lparr>t_subtotal = 0, t_discount = discount, t_tax = 0, t_fees = 0, t_total = 0, t_cost = 0\<rparr> lines of
             Inl e \<Rightarrow> Inl e
           | Inr t \<Rightarrow>
               (if discount > t_subtotal t
                then Inl (new_validation ''discount_amt cannot exceed the item subtotal'')
                else Inr (t\<lparr>t_total := add64 (add64 (sub64 (t_subtotal t) (t_discount t)) (t_tax t)) (t_fees t)\<rparr>)))"

definition recompute_balance :: "booking \<Rightarrow> booking" where
  "recompute_balance b =
     (let bal = sub64 (b_total b) (b_collected b) in b\<lparr>b_balance := (if bal < 0 then 0 else bal)\<rparr>)"

definition apply_totals :: "booking \<Rightarrow> totals \<Rightarrow> go_time \<Rightarrow> booking" where
  "apply_totals b t now =
     (recompute_balance (b\<lparr>b_discount := t_discount t, b_tax := t_tax t, b_fee := t_fees t,
        b_total := t_total t, b_cost := t_cost t\<rparr>))\<lparr>b_updated := now\<rparr>"

definition recalculate_from_lines :: "booking \<Rightarrow> line_item list \<Rightarrow> go_time \<Rightarrow> booking result" where
  "recalculate_from_lines b lines now =
     (case compute_totals lines (b_discount b) of Inl e \<Rightarrow> Inl e | Inr t \<Rightarrow> Inr (apply_totals b t now))"

definition booking_subtotal :: "booking \<Rightarrow> int" where
  "booking_subtotal b = sub64 (sub64 (add64 (b_total b) (b_discount b)) (b_tax b)) (b_fee b)"

definition booking_margin :: "booking \<Rightarrow> int" where
  "booking_margin b = sub64 (sub64 (sub64 (b_total b) (b_tax b)) (b_fee b)) (b_cost b)"

record update_fields =
  uf_pax :: int
  uf_total :: int
  uf_currency :: string
  uf_discount :: "int option"
  uf_notes :: "string option"

definition apply_update ::
  "booking \<Rightarrow> update_fields \<Rightarrow> line_item list \<Rightarrow> go_time \<Rightarrow> booking result" where
  "apply_update b inp lines now =
     (if \<not> editable (b_status b) then Inl (new_invalid_state ''only draft or quoted bookings can be updated'')
      else if uf_pax inp \<le> 0 then Inl (new_validation ''pax_count must be > 0'')
      else if uf_total inp < 0 then Inl (new_validation ''total_amount must be >= 0'')
      else if (case uf_discount inp of Some d \<Rightarrow> d < 0 | None \<Rightarrow> False)
      then Inl (new_validation ''discount_amt must be >= 0'')
      else
        let discount = (case uf_discount inp of Some d \<Rightarrow> d | None \<Rightarrow> b_discount b);
            money = (if lines \<noteq> []
                     then (case compute_totals lines discount of
                             Inl e \<Rightarrow> Inl e | Inr t \<Rightarrow> Inr (apply_totals b t now))
                     else Inr (b\<lparr>b_total := uf_total inp, b_discount := discount\<rparr>))
        in case money of
             Inl e \<Rightarrow> Inl e
           | Inr b \<Rightarrow>
               let b = b\<lparr>b_pax := uf_pax inp\<rparr>;
                   b = (if uf_currency inp \<noteq> [] then b\<lparr>b_currency := uf_currency inp\<rparr> else b);
                   b = (case uf_notes inp of Some n \<Rightarrow> b\<lparr>b_notes := n\<rparr> | None \<Rightarrow> b)
               in Inr ((recompute_balance b)\<lparr>b_updated := now\<rparr>))"

section \<open>Profile, booking number and derived statuses\<close>

definition service_types :: "string list" where
  "service_types = [''flight'', ''bus'', ''hotel'', ''package'', ''transfer'', ''visa'', ''tour'']"

definition supplier_sources :: "string list" where
  "supplier_sources = [''duffel'', ''paximum'', ''amadeus'', ''sabre'', ''saadia'', ''nusuk'', ''direct_contract'', ''other'']"

definition channels :: "string list" where
  "channels = [''b2c_web'', ''b2b_agency'', ''whatsapp_bot'', ''agent'']"

definition one_of :: "string \<Rightarrow> string list \<Rightarrow> bool" where "one_of v xs = list_ex (\<lambda>s. s = v) xs"

record profile =
  p_pnr :: string
  p_service :: string
  p_supplier :: string
  p_channel :: string
  p_summary :: string
  p_company :: string

definition default_profile :: profile where
  "default_profile = \<lparr>p_pnr = [], p_service = ''package'', p_supplier = [], p_channel = ''agent'',
     p_summary = [], p_company = []\<rparr>"

text \<open>The regular expression \<^verbatim>\<open>^[A-Z0-9][A-Z0-9-]*$\<close>.\<close>

definition pnr_pattern :: "string \<Rightarrow> bool" where
  "pnr_pattern s =
     (case s of [] \<Rightarrow> False
      | c # cs \<Rightarrow> (is_upper c \<or> is_digit c) \<and> list_all (\<lambda>x. is_upper x \<or> is_digit x \<or> x = CHR ''-'') cs)"

definition profile_fields :: "profile \<Rightarrow> (string \<times> string list) list" where
  "profile_fields p =
     (if p_pnr p \<noteq> [] \<and> (length (p_pnr p) > 32 \<or> \<not> pnr_pattern (p_pnr p))
      then [(''pnr'', [''letters, digits and dashes only (max 32)''])] else [])
     @ (if \<not> one_of (p_service p) service_types then [(''service_type'', [''unknown service type''])] else [])
     @ (if p_supplier p \<noteq> [] \<and> \<not> one_of (p_supplier p) supplier_sources
        then [(''supplier_source'', [''unknown supplier source''])] else [])
     @ (if \<not> one_of (p_channel p) channels then [(''channel'', [''unknown channel''])] else [])
     @ (if rune_count (p_summary p) > 160 then [(''summary'', [''too long''])] else [])
     @ (if rune_count (p_company p) > 160 then [(''company_name'', [''too long''])] else [])"

definition profile_normalize :: "profile \<Rightarrow> profile result" where
  "profile_normalize p =
     (let svc = trim_space (p_service p); chan = trim_space (p_channel p);
          out = \<lparr>p_pnr = to_upper (trim_space (p_pnr p)),
                 p_service = (if svc = [] then ''package'' else svc),
                 p_supplier = trim_space (p_supplier p),
                 p_channel = (if chan = [] then ''agent'' else chan),
                 p_summary = join '' '' (fields_of (p_summary p)),
                 p_company = join '' '' (fields_of (p_company p))\<rparr>;
          fields = profile_fields out
      in if fields \<noteq> [] then Inl (with_details (new_validation ''invalid booking profile'') fields)
         else Inr out)"

definition booking_profile :: "booking \<Rightarrow> profile" where
  "booking_profile b = \<lparr>p_pnr = b_pnr b, p_service = b_service b, p_supplier = b_supplier b,
     p_channel = b_channel b, p_summary = b_summary b, p_company = b_company b\<rparr>"

definition apply_profile :: "booking \<Rightarrow> profile \<Rightarrow> go_time \<Rightarrow> (bool \<times> booking) result" where
  "apply_profile b p now =
     (case profile_normalize p of
        Inl e \<Rightarrow> Inl e
      | Inr n \<Rightarrow>
          if n = booking_profile b then Inr (False, b)
          else Inr (True, b\<lparr>b_pnr := p_pnr n, b_service := p_service n, b_supplier := p_supplier n,
                            b_channel := p_channel n, b_summary := p_summary n, b_company := p_company n,
                            b_updated := now\<rparr>))"

definition ref_code :: "int \<Rightarrow> string" where
  "ref_code n = (if n \<le> 0 then [] else ''BK-'' @ show_int0 6 n)"

text \<open>
  The regular expression \<^verbatim>\<open>^(?i)BK-?0*([0-9]{1,12})$\<close>: the prefix in any case (the Kelvin sign folds
  to \<open>k\<close>), an optional dash, then digits of which at most twelve follow the leading zeros. The captured
  group is empty of leading zeros unless it is a single zero.
\<close>

definition bk_prefix :: "string \<Rightarrow> string option" where
  "bk_prefix s =
     (case s of
        b # rest \<Rightarrow>
          if b = CHR ''B'' \<or> b = CHR ''b'' then
            (case rest of
               k # r \<Rightarrow> if k = CHR ''K'' \<or> k = CHR ''k'' then Some r
                        else if has_prefix rest [CHR 0xE2, CHR 0x84, CHR 0xAA] then Some (drop 3 rest) else None
             | [] \<Rightarrow> None)
          else None
      | [] \<Rightarrow> None)"

definition ref_digits :: "string \<Rightarrow> string option" where
  "ref_digits s =
     (case bk_prefix s of
        None \<Rightarrow> None
      | Some r \<Rightarrow>
          let ds = (if has_prefix r ''-'' then tl r else r);
              z = dropWhile (\<lambda>c. c = CHR ''0'') ds;
              m = (if z = [] then ''0'' else z)
          in if ds \<noteq> [] \<and> digits_only ds \<and> length m \<le> 12 then Some m else None)"

definition parse_ref_code :: "string \<Rightarrow> int \<times> bool" where
  "parse_ref_code s =
     (case ref_digits (trim_space s) of
        None \<Rightarrow> (0, False)
      | Some m \<Rightarrow> (case parse_int64 m of None \<Rightarrow> (0, False) | Some n \<Rightarrow> (n, n > 0)))"

definition ticket_status :: "status \<Rightarrow> int \<Rightarrow> int \<Rightarrow> string" where
  "ticket_status s reissues refunded =
     (if s = StatusCancelled \<and> refunded > 0 then ''refunded''
      else if s = StatusCancelled then ''cancelled''
      else if s = StatusOptionHold then ''option''
      else if is_sold s \<and> reissues > 0 then ''reissued''
      else if is_sold s then ''issued''
      else ''pending'')"

definition payment_status :: "int \<Rightarrow> int \<Rightarrow> int \<Rightarrow> bool \<Rightarrow> string" where
  "payment_status tot collected balance overdue =
     (if tot \<le> 0 \<and> collected \<le> 0 then ''none''
      else if balance \<le> 0 then ''paid''
      else if overdue then ''overdue''
      else if collected > 0 then ''deposit''
      else ''awaiting'')"

section \<open>Option extension and cancellation\<close>

definition extend_hold :: "booking \<Rightarrow> go_time \<Rightarrow> go_time \<Rightarrow> (go_time \<times> booking) result" where
  "extend_hold b until now =
     (case b_hold b of
        None \<Rightarrow> Inl (new_invalid_state ''only bookings on option can be extended'')
      | Some prev \<Rightarrow>
          if b_status b \<noteq> StatusOptionHold then Inl (new_invalid_state ''only bookings on option can be extended'')
          else let until = utc until in
            if \<not> after until now then Inl (new_validation ''hold_expires_at must be in the future'')
            else if \<not> after until prev
            then Inl (new_validation ''hold_expires_at must be later than the current deadline'')
            else if time_sub until now > max_hold_duration
            then Inl (new_validation ''hold_expires_at is beyond the maximum option window'')
            else Inr (prev, b\<lparr>b_hold := Some until, b_updated := now\<rparr>))"

record cancellation_tier =
  ct_min_days :: int
  ct_penalty_pct :: int

definition default_cancellation_policy :: "cancellation_tier list" where
  "default_cancellation_policy =
     [\<lparr>ct_min_days = 45, ct_penalty_pct = 10\<rparr>, \<lparr>ct_min_days = 30, ct_penalty_pct = 25\<rparr>,
      \<lparr>ct_min_days = 15, ct_penalty_pct = 50\<rparr>, \<lparr>ct_min_days = 7, ct_penalty_pct = 75\<rparr>,
      \<lparr>ct_min_days = 0, ct_penalty_pct = 100\<rparr>]"

record cancellation_quote =
  cq_days :: int
  cq_penalty_pct :: int
  cq_penalty :: int
  cq_refundable :: int
  cq_collected :: int
  cq_total :: int
  cq_currency :: string
  cq_policy :: "cancellation_tier list"

definition penalty_pct :: "status \<Rightarrow> int \<Rightarrow> cancellation_tier list \<Rightarrow> int" where
  "penalty_pct s days policy =
     (if is_sold s
      then (case find (\<lambda>t. days \<ge> ct_min_days t) policy of Some t \<Rightarrow> ct_penalty_pct t | None \<Rightarrow> 100)
      else 0)"

definition quote_cancellation :: "booking \<Rightarrow> int \<Rightarrow> cancellation_tier list \<Rightarrow> cancellation_quote" where
  "quote_cancellation b days policy =
     (let pct = penalty_pct (b_status b) days policy;
          penalty = quo64 (mul64 (b_total b) pct) 100;
          r = sub64 (b_collected b) penalty
      in \<lparr>cq_days = days, cq_penalty_pct = pct, cq_penalty = penalty,
          cq_refundable = (if r < 0 then 0 else r), cq_collected = b_collected b, cq_total = b_total b,
          cq_currency = b_currency b, cq_policy = policy\<rparr>)"

definition days_until :: "go_time \<Rightarrow> go_time \<Rightarrow> int" where
  "days_until day today = days_of_duration (time_sub (truncate_day day) (truncate_day today))"

section \<open>Notes and change requests\<close>

record booking_note =
  n_id :: uuid
  n_booking :: uuid
  n_author :: uuid
  n_body :: string
  n_pinned :: bool
  n_created :: go_time

definition new_note :: "uuid \<Rightarrow> uuid \<Rightarrow> uuid \<Rightarrow> string \<Rightarrow> bool \<Rightarrow> go_time \<Rightarrow> booking_note result" where
  "new_note fresh booking_id author body pinned now =
     (let body = trim_space body in
      if body = [] then Inl (new_validation ''note body is required'')
      else if rune_count body > 4000 then Inl (new_validation ''note body is too long'')
      else Inr \<lparr>n_id = fresh, n_booking = booking_id, n_author = author, n_body = body, n_pinned = pinned, n_created = now\<rparr>)"

definition note_can_delete :: "booking_note \<Rightarrow> uuid \<Rightarrow> bool" where "note_can_delete n actor \<longleftrightarrow> n_author n = actor"

record change_request =
  cr_id :: uuid
  cr_booking :: uuid
  cr_kind :: string
  cr_details :: string
  cr_status :: string
  cr_requested_by :: uuid
  cr_resolved_by :: "uuid option"
  cr_note :: string
  cr_created :: go_time
  cr_resolved :: "go_time option"

definition change_kinds :: "string list" where
  "change_kinds = [''date_change'', ''name_change'', ''route_change'', ''other'']"

definition new_change_request ::
  "uuid \<Rightarrow> booking \<Rightarrow> string \<Rightarrow> string \<Rightarrow> uuid \<Rightarrow> go_time \<Rightarrow> change_request result" where
  "new_change_request fresh b kind details_text actor now =
     (if terminal_status (b_status b)
      then Inl (new_invalid_state (''cannot request changes on a '' @ status_str (b_status b) @ '' booking''))
      else let kind = trim_space kind; dt = trim_space details_text in
        if \<not> one_of kind change_kinds then Inl (new_validation ''unknown change kind'')
        else if dt = [] then Inl (new_validation ''details are required'')
        else if rune_count dt > 2000 then Inl (new_validation ''details are too long'')
        else Inr \<lparr>cr_id = fresh, cr_booking = b_id b, cr_kind = kind, cr_details = dt, cr_status = ''requested'',
                  cr_requested_by = actor, cr_resolved_by = None, cr_note = [], cr_created = now, cr_resolved = None\<rparr>)"

definition change_resolve :: "change_request \<Rightarrow> string \<Rightarrow> string \<Rightarrow> uuid \<Rightarrow> go_time \<Rightarrow> change_request result" where
  "change_resolve c st note_text actor now =
     (if cr_status c \<noteq> ''requested'' then Inl (new_invalid_state (''change request is already '' @ cr_status c))
      else let n = trim_space note_text in
        if st = ''rejected'' \<and> n = [] then Inl (new_validation ''a note is required to reject a change'')
        else if st \<noteq> ''completed'' \<and> st \<noteq> ''rejected'' then Inl (new_validation ''status must be completed or rejected'')
        else if rune_count n > 2000 then Inl (new_validation ''note is too long'')
        else Inr (c\<lparr>cr_status := st, cr_note := n, cr_resolved_by := Some actor, cr_resolved := Some now\<rparr>))"

section \<open>Totals\<close>

text \<open>The exact sums the loop accumulates, and when no accumulator leaves the 64-bit range.\<close>

definition kind_sum :: "string \<Rightarrow> line_item list \<Rightarrow> int" where
  "kind_sum k ls = sum_list (map (\<lambda>l. if li_kind l = k then li_quantity l * li_unit_price l else 0) ls)"

definition cost_sum :: "line_item list \<Rightarrow> int" where
  "cost_sum ls = sum_list (map (\<lambda>l. li_quantity l * li_unit_cost l) ls)"

definition line_ok :: "line_item \<Rightarrow> bool" where
  "line_ok l \<longleftrightarrow> valid_line_kind (li_kind l) \<and> 1 \<le> li_quantity l \<and> 0 \<le> li_unit_price l \<and> 0 \<le> li_unit_cost l"

definition all_sum :: "line_item list \<Rightarrow> int" where
  "all_sum ls = kind_sum ''item'' ls + kind_sum ''tax'' ls + kind_sum ''fee'' ls"

lemma kind_sum_Cons [simp]:
  "kind_sum k (l # ls) = (if li_kind l = k then li_quantity l * li_unit_price l else 0) + kind_sum k ls"
  "cost_sum (l # ls) = li_quantity l * li_unit_cost l + cost_sum ls"
  by (simp_all add: kind_sum_def cost_sum_def)

lemma kind_sum_Nil [simp]: "kind_sum k [] = 0" "cost_sum [] = 0"
  by (simp_all add: kind_sum_def cost_sum_def)

lemma line_products: "line_ok l \<Longrightarrow> 0 \<le> li_quantity l * li_unit_price l \<and> 0 \<le> li_quantity l * li_unit_cost l"
  by (simp add: line_ok_def)

lemma sums_nonneg:
  assumes "list_all line_ok ls"
  shows "0 \<le> kind_sum k ls" "0 \<le> cost_sum ls"
  using assms by (induction ls) (auto dest: line_products)

lemma sum_lines_exact:
  assumes "list_all line_ok ls" "0 \<le> t_subtotal t" "0 \<le> t_tax t" "0 \<le> t_fees t" "0 \<le> t_cost t"
    and "t_subtotal t + kind_sum ''item'' ls \<le> int64_max" "t_tax t + kind_sum ''tax'' ls \<le> int64_max"
    and "t_fees t + kind_sum ''fee'' ls \<le> int64_max" "t_cost t + cost_sum ls \<le> int64_max"
  shows "sum_lines t ls = Inr (t\<lparr>t_subtotal := t_subtotal t + kind_sum ''item'' ls,
    t_tax := t_tax t + kind_sum ''tax'' ls, t_fees := t_fees t + kind_sum ''fee'' ls, t_cost := t_cost t + cost_sum ls\<rparr>)"
  using assms
proof (induction ls arbitrary: t)
  case (Cons l ls)
  define p c where "p = li_quantity l * li_unit_price l" and "c = li_quantity l * li_unit_cost l"
  have l: "line_ok l" "list_all line_ok ls" using Cons.prems by simp_all
  note nn = sums_nonneg [OF l(2)]
  have p: "0 \<le> p" "0 \<le> c" using line_products [OF l(1)] by (simp_all add: p_def c_def)
  have k: "li_kind l = ''item'' \<or> li_kind l = ''tax'' \<or> li_kind l = ''fee''"
    using l(1) by (auto simp: line_ok_def valid_line_kind_def)
  have lt: "line_total l = i64 p" "line_cost l = i64 c"
    by (simp_all add: line_total_def line_cost_def p_def c_def mul64_def)
  have fits: "\<lbrakk>0 \<le> x; 0 \<le> y; 0 \<le> z; x + (y + z) \<le> int64_max\<rbrakk> \<Longrightarrow> add64 x (i64 y) = x + y \<and> x + y + z \<le> int64_max"
    for x y z by (simp add: add64_def i64_id fits64_def int64_max_def)
  have cs: "add64 (t_cost t) (i64 c) = t_cost t + c" "t_cost t + c + cost_sum ls \<le> int64_max"
    using fits [of "t_cost t" c "cost_sum ls"] Cons.prems p nn by (simp_all add: c_def)
  show ?case
    using k Cons.prems(2-) Cons.IH [OF l(2)] p cs fits [of "t_subtotal t" p "kind_sum ''item'' ls"]
      fits [of "t_tax t" p "kind_sum ''tax'' ls"] fits [of "t_fees t" p "kind_sum ''fee'' ls"] nn
    by (elim disjE) (simp_all add: lt p_def [symmetric] c_def [symmetric] add.assoc)
qed simp

text \<open>
  \<open>ComputeTotals\<close> on lines as the service validates them (known kind, quantity at least one, no
  negative price) whose sums fit into 64 bits: the item, tax, fee and cost amounts are the exact sums
  of their lines, the total is subtotal minus discount plus tax plus fees, and a discount above
  the item subtotal or below zero is refused.
\<close>

theorem compute_totals_exact:
  assumes "list_all line_ok ls" "all_sum ls \<le> int64_max" "cost_sum ls \<le> int64_max"
  shows "compute_totals ls d =
    (if d < 0 then Inl (new_validation ''discount_amt must be >= 0'')
     else if d > kind_sum ''item'' ls then Inl (new_validation ''discount_amt cannot exceed the item subtotal'')
     else Inr \<lparr>t_subtotal = kind_sum ''item'' ls, t_discount = d, t_tax = kind_sum ''tax'' ls,
               t_fees = kind_sum ''fee'' ls,
               t_total = kind_sum ''item'' ls - d + kind_sum ''tax'' ls + kind_sum ''fee'' ls, t_cost = cost_sum ls\<rparr>)"
proof -
  note nn = sums_nonneg [OF assms(1)]
  have le: "kind_sum ''item'' ls \<le> int64_max" "kind_sum ''tax'' ls \<le> int64_max" "kind_sum ''fee'' ls \<le> int64_max"
    using assms(2) nn(1) [of "''item''"] nn(1) [of "''tax''"] nn(1) [of "''fee''"] by (auto simp: all_sum_def)
  define a x f where "a = kind_sum ''item'' ls" and "x = kind_sum ''tax'' ls" and "f = kind_sum ''fee'' ls"
  have b: "0 \<le> a" "0 \<le> x" "0 \<le> f" "a + x + f \<le> int64_max"
    using nn assms(2) by (simp_all add: a_def x_def f_def all_sum_def)
  have "add64 (add64 (sub64 a d) x) f = a - d + x + f" if d: "0 \<le> d" "d \<le> a"
  proof -
    have "fits64 (a - d)" "fits64 (a - d + x)" "fits64 (a - d + x + f)"
      using b d by (simp_all add: fits64_def int64_max_def)
    then show ?thesis by (simp add: go_int)
  qed
  then show ?thesis using sum_lines_exact [OF assms(1)] assms(3) le nn
    by (auto simp: compute_totals_def a_def x_def f_def)
qed

theorem compute_totals_exact_witness:
  "\<exists>l t. compute_totals [l, l\<lparr>li_kind := ''tax'', li_quantity := 1\<rparr>] 50
     = Inr \<lparr>t_subtotal = 200, t_discount = 50, t_tax = 100, t_fees = 0, t_total = 250, t_cost = 210\<rparr>
     \<and> line_ok l \<and> line_ok t"
proof -
  define l where "l = \<lparr>li_id = 1, li_booking = 2, li_kind = ''item'', li_category = ''hotel'', li_label = ''x'',
    li_quantity = 2, li_unit_price = 100, li_unit_cost = 70, li_sort = 0, li_created = zero_time, li_updated = zero_time\<rparr>"
  let ?ls = "[l, l\<lparr>li_kind := ''tax'', li_quantity := 1\<rparr>]"
  have h: "list_all line_ok ?ls" "all_sum ?ls \<le> int64_max" "cost_sum ?ls \<le> int64_max"
    by (simp_all add: l_def line_ok_def valid_line_kind_def all_sum_def int64_max_def)
  have "compute_totals ?ls 50
     = Inr \<lparr>t_subtotal = 200, t_discount = 50, t_tax = 100, t_fees = 0, t_total = 250, t_cost = 210\<rparr>"
    using compute_totals_exact [OF h, of 50] by (simp add: l_def)
  with h show ?thesis by auto
qed

section \<open>Booking numbers\<close>

lemma show_int0_pos:
  assumes "0 < n"
  shows "digits_only (show_int0 w n)" "dec_val (show_int0 w n) = n" "show_int0 w n \<noteq> []"
  using assms by (simp_all add: show_int0_def pad0_def dec_val_append dec_val_zeros)

lemma dropWhile_zeros_dec: "dec_val (dropWhile (\<lambda>c. c = CHR ''0'') s) = dec_val s"
proof (induction s)
  case (Cons c s)
  have "dec_val (CHR ''0'' # s) = dec_val s" using dec_val_append [of "''0''" s] by (simp add: dec_val_def digit_val_def)
  with Cons show ?case by simp
qed simp

lemma dec_val_lower:
  assumes "digits_only s" "s \<noteq> []" "hd s \<noteq> CHR ''0''"
  shows "10 ^ (length s - 1) \<le> dec_val s"
proof (cases s)
  case (Cons c cs)
  have "is_digit c" "c \<noteq> CHR ''0''" "digits_only cs" using assms Cons by (simp_all add: digits_only_def)
  moreover have "c = CHR ''0''" if "byte c = 48"
    using that of_char_eq_iff [of c "CHR ''0''", where 'a = nat] by simp
  ultimately have "1 \<le> digit_val c" by (auto simp: is_digit_def digit_val_def le_less)
  moreover have "dec_val s = digit_val c * 10 ^ length cs + dec_val cs"
    using dec_val_append [of "[c]" cs] Cons by (simp add: dec_val_def)
  moreover have "1 * 10 ^ length cs \<le> digit_val c * 10 ^ length cs"
    using \<open>1 \<le> digit_val c\<close> by (intro mult_right_mono) simp_all
  ultimately have "10 ^ length cs \<le> dec_val s" using dec_val_nonneg [OF \<open>digits_only cs\<close>] by linarith
  then show ?thesis using Cons by simp
qed (use assms in simp)

text \<open>
  \<open>ParseRefCode\<close> recovers the sequence number of every booking number that \<open>RefCode\<close> prints, up to
  the twelve digits the parser accepts.
\<close>

theorem parse_ref_code_roundtrip:
  assumes "0 < n" "n < 10 ^ 12"
  shows "parse_ref_code (ref_code n) = (n, True)"
proof -
  define ds z where "ds = show_int0 6 n" and "z = dropWhile (\<lambda>c. c = CHR ''0'') ds"
  note ds = show_int0_pos [OF assms(1), of 6, folded ds_def]
  have zv: "dec_val z = n" using ds(2) by (simp add: z_def dropWhile_zeros_dec)
  then have zn: "z \<noteq> []" using assms(1) by (auto simp: dec_val_def)
  have "hd z \<noteq> CHR ''0''" using hd_dropWhile [of "\<lambda>c. c = CHR ''0''" ds] zn by (simp add: z_def)
  moreover have zd: "digits_only z"
    using ds(1) set_dropWhileD [of _ "\<lambda>c. c = CHR ''0''" ds] by (auto simp: digits_only_def list_all_iff z_def)
  ultimately have "10 ^ (length z - 1) \<le> n" using dec_val_lower [OF _ zn] zv by blast
  with assms(2) have "(10::int) ^ (length z - 1) < 10 ^ 12" by linarith
  from power_less_imp_less_exp [OF _ this] have len: "length z \<le> 12" by simp
  have "ds \<noteq> []" by (rule ds(3))
  then have "visible (last ds)" using digits_visible [OF ds(1)] by simp
  then have "trim_space (ref_code n) = ''BK-'' @ ds"
    using assms(1) \<open>ds \<noteq> []\<close> by (simp add: ref_code_def ds_def trim_space_visible visible_def)
  moreover have "ref_digits (''BK-'' @ ds) = Some z"
    using zn zd len ds \<open>ds \<noteq> []\<close> dropWhile_eq_Nil_conv [of "\<lambda>c. c = CHR ''0''" ds]
    by (auto simp: ref_digits_def bk_prefix_def has_prefix_def z_def [symmetric])
  moreover have "parse_int64 z = Some n"
    using zn zd zv assms(2) by (simp add: parse_int64_def int64_max_def)
  ultimately show ?thesis using assms(1) by (simp add: parse_ref_code_def)
qed

theorem parse_ref_code_roundtrip_witness:
  "ref_code 123 = ''BK-000123'' \<and> parse_ref_code ''BK-000123'' = (123, True)"
proof -
  have "ref_code 123 = ''BK-000123''" by code_simp
  with parse_ref_code_roundtrip [of 123] show ?thesis by simp
qed

section \<open>Option extension and the cancellation quote\<close>

lemma extend_hold_Inr:
  assumes "extend_hold b until now = Inr (prev, b')"
  shows "b_status b = StatusOptionHold" "b_hold b = Some prev" "b' = b\<lparr>b_hold := Some (utc until), b_updated := now\<rparr>"
    "after until prev" "after until now" "nanos until \<le> nanos now + max_hold_duration"
  using assms
  by (auto simp: extend_hold_def Let_def after_def utc_def time_sub_def int64_max_def int64_min_def
      max_hold_duration_def hour_ns_def split: option.splits if_splits)

definition policy_ok :: "cancellation_tier list \<Rightarrow> bool" where
  "policy_ok p \<longleftrightarrow> list_all (\<lambda>t. 0 \<le> ct_penalty_pct t \<and> ct_penalty_pct t \<le> 100) p
     \<and> sorted_wrt (\<lambda>s t. ct_min_days t \<le> ct_min_days s \<and> ct_penalty_pct s \<le> ct_penalty_pct t) p"

lemma find_tier_mono:
  assumes "policy_ok p" "d \<le> d'"
  shows "(case find (\<lambda>t. d' \<ge> ct_min_days t) p of Some t \<Rightarrow> ct_penalty_pct t | None \<Rightarrow> 100)
      \<le> (case find (\<lambda>t. d \<ge> ct_min_days t) p of Some t \<Rightarrow> ct_penalty_pct t | None \<Rightarrow> 100)"
  using assms(1)
proof (induction p)
  case (Cons t p)
  then have p: "policy_ok p" "0 \<le> ct_penalty_pct t" "ct_penalty_pct t \<le> 100"
    "\<forall>x \<in> set p. ct_penalty_pct t \<le> ct_penalty_pct x" by (auto simp: policy_ok_def)
  show ?case
  proof (cases "d' \<ge> ct_min_days t")
    case True
    have "ct_penalty_pct t \<le> (case find (\<lambda>t. d \<ge> ct_min_days t) p of Some t \<Rightarrow> ct_penalty_pct t | None \<Rightarrow> 100)"
      using p by (auto simp: find_Some_iff split: option.splits)
    with True show ?thesis by simp
  next
    case False
    with assms(2) Cons.IH [OF p(1)] show ?thesis by simp
  qed
qed simp

lemma penalty_pct_bounds:
  assumes "policy_ok p"
  shows "0 \<le> penalty_pct s d p" "penalty_pct s d p \<le> 100"
proof -
  have "0 \<le> ct_penalty_pct t \<and> ct_penalty_pct t \<le> 100" if "t \<in> set p" for t
    using assms that by (simp add: policy_ok_def list_all_iff)
  then show "0 \<le> penalty_pct s d p" "penalty_pct s d p \<le> 100"
    by (auto simp: penalty_pct_def find_Some_iff split: option.splits)
qed

lemma penalty_exact:
  assumes "0 \<le> b_total b" "b_total b * 100 \<le> int64_max" "policy_ok p"
  shows "cq_penalty (quote_cancellation b d p) = b_total b * penalty_pct (b_status b) d p div 100"
    "0 \<le> cq_penalty (quote_cancellation b d p)" "cq_penalty (quote_cancellation b d p) \<le> b_total b"
proof -
  define k where "k = penalty_pct (b_status b) d p"
  have k: "0 \<le> k" "k \<le> 100" using penalty_pct_bounds [OF assms(3)] by (simp_all add: k_def)
  have m: "0 \<le> b_total b * k" "b_total b * k \<le> b_total b * 100"
    using assms(1) k by (simp_all add: mult_left_mono)
  then have "fits64 (b_total b * k)" using assms(2) by (simp add: fits64_def int64_max_def)
  then have e: "cq_penalty (quote_cancellation b d p) = b_total b * k div 100"
    using m by (simp add: quote_cancellation_def Let_def k_def mul64_id quo64_nonneg)
  then show "cq_penalty (quote_cancellation b d p) = b_total b * penalty_pct (b_status b) d p div 100"
    by (simp add: k_def)
  show "0 \<le> cq_penalty (quote_cancellation b d p)" using m by (simp add: e pos_imp_zdiv_nonneg_iff)
  have "b_total b * k div 100 \<le> b_total b * 100 div 100" by (rule zdiv_mono1 [OF m(2)]) simp
  then show "cq_penalty (quote_cancellation b d p) \<le> b_total b" by (simp add: e)
qed

text \<open>
  A cancellation quote conserves the money collected: penalty and refund never exceed what they are
  taken from. For a booking whose amounts do not overflow and a policy with percentages between 0 and
  100, the penalty is between zero and the total, the refundable amount is the collected amount less
  the penalty but at least zero, an unsold booking refunds everything it collected, and cancelling
  later never refunds more under a policy ordered from the most to the least lenient.
\<close>

theorem quote_cancellation_fair:
  assumes "0 \<le> b_total b" "b_total b * 100 \<le> int64_max" "fits64 (b_collected b)" "0 \<le> b_collected b" "policy_ok p"
  shows "let q = quote_cancellation b d p in
     0 \<le> cq_penalty q \<and> cq_penalty q \<le> b_total b
     \<and> cq_refundable q = max 0 (b_collected b - cq_penalty q)
     \<and> (\<not> is_sold (b_status b) \<longrightarrow> cq_refundable q = b_collected b)
     \<and> (\<forall>d' \<ge> d. cq_refundable q \<le> cq_refundable (quote_cancellation b d' p))"
proof -
  note pe = penalty_exact [OF assms(1,2,5)]
  have ref: "cq_refundable (quote_cancellation b x p) = max 0 (b_collected b - cq_penalty (quote_cancellation b x p))" for x
  proof -
    have "fits64 (b_collected b - cq_penalty (quote_cancellation b x p))"
      using pe(2,3) [of x] assms(1-4) by (simp add: fits64_def int64_max_def)
    then show ?thesis by (simp add: quote_cancellation_def Let_def sub64_id max_def)
  qed
  have "cq_penalty (quote_cancellation b d' p) \<le> cq_penalty (quote_cancellation b d p)" if "d \<le> d'" for d'
    using find_tier_mono [OF assms(5) that] assms(1)
    by (auto simp: pe(1) penalty_pct_def intro!: zdiv_mono1 mult_left_mono)
  then have "\<forall>d' \<ge> d. cq_refundable (quote_cancellation b d p) \<le> cq_refundable (quote_cancellation b d' p)"
    unfolding ref by (intro allI impI max.mono diff_left_mono) simp_all
  moreover have "\<not> is_sold (b_status b) \<Longrightarrow> cq_penalty (quote_cancellation b d p) = 0"
    by (simp add: pe(1) penalty_pct_def)
  ultimately show ?thesis using pe(2,3) [of d] ref [of d] assms(4) by (simp add: Let_def)
qed

theorem quote_cancellation_fair_witness:
  "\<exists>b. b_status b = StatusConfirmed \<and> (let q = quote_cancellation b 20 default_cancellation_policy in
     cq_penalty q = 50000 \<and> cq_refundable q = max 0 (b_collected b - cq_penalty q)) \<and> b_total b = 100000"
proof -
  define b where "b = zero_booking\<lparr>b_status := StatusConfirmed, b_total := 100000, b_collected := 70000\<rparr>"
  have h: "0 \<le> b_total b" "b_total b * 100 \<le> int64_max" "fits64 (b_collected b)" "0 \<le> b_collected b"
      "policy_ok default_cancellation_policy"
    by (simp_all add: b_def int64_max_def fits64_def policy_ok_def default_cancellation_policy_def)
  have "cq_penalty (quote_cancellation b 20 default_cancellation_policy) = 50000"
    by (simp add: b_def quote_cancellation_def penalty_pct_def default_cancellation_policy_def is_sold_def
      is_confirmed_family_def mul64_def quo64_def i64_def quo_def Let_def)
  moreover have "b_status b = StatusConfirmed" "b_total b = 100000" by (simp_all add: b_def)
  ultimately show ?thesis using quote_cancellation_fair [OF h, of 20] by (auto simp: Let_def)
qed

section \<open>Every way a booking changes\<close>

text \<open>
  One step is a successful call of an operation that mutates a booking: a transition, an option
  extension, an edit, a recalculation from lines, a profile change, or the payment service writing the
  collected amount before it recomputes the balance.
\<close>

inductive booking_step :: "booking \<Rightarrow> booking \<Rightarrow> bool" where
  by_transition: "transition b inp = Inr (res, b') \<Longrightarrow> booking_step b b'"
| by_extend: "extend_hold b until now = Inr (prev, b') \<Longrightarrow> booking_step b b'"
| by_update: "apply_update b uf lines now = Inr b' \<Longrightarrow> booking_step b b'"
| by_lines: "editable (b_status b) \<Longrightarrow> recalculate_from_lines b lines now = Inr b' \<Longrightarrow> booking_step b b'"
| by_profile: "apply_profile b p now = Inr (changed, b') \<Longrightarrow> booking_step b b'"
| by_payment: "booking_step b (recompute_balance (b\<lparr>b_collected := c, b_updated := now\<rparr>))"

inductive_cases booking_stepE: "booking_step b b'"

text \<open>
  The booking invariant: the status is one of the nine, an expiry is set exactly while the booking is
  on option, a forced \<open>ready\<close> exists only inside the confirmed family, and the balance is what
  \<open>RecomputeBalance\<close> makes of total and collected.
\<close>

definition booking_ok :: "booking \<Rightarrow> bool" where
  "booking_ok b \<longleftrightarrow> status_valid (b_status b)
     \<and> (b_hold b \<noteq> None \<longleftrightarrow> b_status b = StatusOptionHold)
     \<and> (b_ready_forced b \<longrightarrow> is_confirmed_family (b_status b))
     \<and> b_balance b = max 0 (sub64 (b_total b) (b_collected b))"

text \<open>A new draft, as \<open>CreateDraft\<close> builds it.\<close>

definition draft_booking :: "booking \<Rightarrow> bool" where
  "draft_booking b \<longleftrightarrow> b_status b = StatusDraft \<and> b_hold b = None \<and> \<not> b_ready_forced b \<and> b = recompute_balance b"

lemma recompute_balance_simps [simp]:
  "b_balance (recompute_balance b) = max 0 (sub64 (b_total b) (b_collected b))"
  "b_status (recompute_balance b) = b_status b" "b_hold (recompute_balance b) = b_hold b"
  "b_ready_forced (recompute_balance b) = b_ready_forced b" "b_total (recompute_balance b) = b_total b"
  "b_collected (recompute_balance b) = b_collected b" "b_id (recompute_balance b) = b_id b"
  "b_departure (recompute_balance b) = b_departure b" "b_pax (recompute_balance b) = b_pax b"
  by (simp_all add: recompute_balance_def Let_def max_def)

lemma apply_totals_simps [simp]:
  "b_balance (apply_totals b t now) = max 0 (sub64 (t_total t) (b_collected b))"
  "b_status (apply_totals b t now) = b_status b" "b_hold (apply_totals b t now) = b_hold b"
  "b_ready_forced (apply_totals b t now) = b_ready_forced b" "b_total (apply_totals b t now) = t_total t"
  "b_collected (apply_totals b t now) = b_collected b"
  by (simp_all add: apply_totals_def)

lemma apply_update_Inr:
  assumes "apply_update b uf lines now = Inr b'"
  shows "editable (b_status b)" "0 < uf_pax uf" "b_pax b' = uf_pax uf" "b_status b' = b_status b"
    "b_hold b' = b_hold b" "b_ready_forced b' = b_ready_forced b" "b_collected b' = b_collected b"
    "b_balance b' = max 0 (sub64 (b_total b') (b_collected b'))"
  using assms
  by (auto simp: apply_update_def Let_def split: if_splits option.splits sum.splits)

lemma apply_profile_Inr:
  assumes "apply_profile b p now = Inr (changed, b')"
  shows "b_status b' = b_status b" "b_hold b' = b_hold b" "b_ready_forced b' = b_ready_forced b"
    "b_collected b' = b_collected b" "b_total b' = b_total b" "b_balance b' = b_balance b"
    "\<not> changed \<Longrightarrow> b' = b"
  using assms by (auto simp: apply_profile_def split: if_splits sum.splits)

lemma transition_keeps_ok:
  assumes "booking_ok b" "transition b inp = Inr (res, b')"
  shows "booking_ok b'"
proof -
  have t: "status_valid (in_to inp)" "b' = moved b inp" using assms(2) by (simp_all add: transition_Inr_iff)
  have "in_to inp = StatusOptionHold \<Longrightarrow> in_hold inp \<noteq> None" using transition_hold_set [OF assms(2)] by blast
  with t assms(1) show ?thesis by (auto simp: booking_ok_def moved_def status_simps)
qed

lemma booking_step_ok: "booking_ok b \<Longrightarrow> booking_step b b' \<Longrightarrow> booking_ok b'"
proof (erule booking_stepE)
  fix inp res assume "booking_ok b" "transition b inp = Inr (res, b')"
  then show ?thesis by (rule transition_keeps_ok)
next
  fix until now prev assume "booking_ok b" "extend_hold b until now = Inr (prev, b')"
  with extend_hold_Inr [of b until now prev b'] show ?thesis by (auto simp: booking_ok_def)
next
  fix uf lines now assume "booking_ok b" "apply_update b uf lines now = Inr b'"
  with apply_update_Inr [of b uf lines now b'] show ?thesis by (simp add: booking_ok_def)
next
  fix lines now assume "booking_ok b" "recalculate_from_lines b lines now = Inr b'"
  then show ?thesis by (auto simp: booking_ok_def recalculate_from_lines_def split: sum.splits)
next
  fix p now changed assume "booking_ok b" "apply_profile b p now = Inr (changed, b')"
  with apply_profile_Inr [of b p now changed b'] show ?thesis by (simp add: booking_ok_def)
next
  fix c now assume "booking_ok b" "b' = recompute_balance (b\<lparr>b_collected := c, b_updated := now\<rparr>)"
  then show ?thesis by (simp add: booking_ok_def)
qed

lemma status_change_is_transition:
  assumes "booking_step b b'" "b_status b' \<noteq> b_status b"
  obtains inp res where "transition b inp = Inr (res, b')"
  using assms(1)
proof (cases rule: booking_step.cases)
  case (by_transition inp res)
  then show ?thesis by (rule that)
next
  case (by_extend until now prev)
  with assms(2) show ?thesis by (auto dest: extend_hold_Inr(3))
next
  case (by_update uf lines now)
  with assms(2) show ?thesis by (simp add: apply_update_Inr)
next
  case (by_lines lines now)
  with assms(2) show ?thesis by (auto simp: recalculate_from_lines_def split: sum.splits)
next
  case (by_profile p now changed)
  with assms(2) show ?thesis by (simp add: apply_profile_Inr)
next
  case (by_payment c now)
  with assms(2) show ?thesis by simp
qed

interpretation booking_inv: invariant_machine draft_booking booking_step booking_ok
proof
  show "draft_booking s \<Longrightarrow> booking_ok s" for s
    using recompute_balance_simps(1) [of s] by (auto simp: draft_booking_def booking_ok_def status_valid_cases)
  show "booking_ok s \<Longrightarrow> booking_step s t \<Longrightarrow> booking_ok t" for s t by (rule booking_step_ok)
qed

interpretation booking_final: status_machine booking_step b_status terminal_status
proof
  show "booking_step s t \<Longrightarrow> terminal_status (b_status s) \<Longrightarrow> b_status t = b_status s" for s t
    by (rule ccontr, erule status_change_is_transition) (auto simp: transition_Inr_iff)
qed

text \<open>
  C17. Whatever sequence of operations is applied to a new draft, the booking keeps its invariant: its
  status is one of the nine, the option deadline is set exactly while it is on option, a forced
  \<open>ready\<close> only exists inside the confirmed family, and the balance is the total less the collected
  amount, never below zero.
\<close>

theorem booking_reachable_ok:
  assumes "draft_booking b" "booking_step\<^sup>*\<^sup>* b b'"
  shows "status_valid (b_status b') \<and> (b_hold b' \<noteq> None \<longleftrightarrow> b_status b' = StatusOptionHold)
     \<and> (b_ready_forced b' \<longrightarrow> is_confirmed_family (b_status b'))
     \<and> b_balance b' = max 0 (sub64 (b_total b') (b_collected b'))"
  using booking_inv.reachable_good [OF assms] by (simp add: booking_ok_def)

text \<open>A run used for evaluation: a draft is put on option and then cancelled.\<close>

definition ex_draft :: booking where
  "ex_draft = zero_booking\<lparr>b_status := StatusDraft, b_customer := 4, b_total := 500, b_balance := 500\<rparr>"

definition ex_input :: "status \<Rightarrow> transition_input" where
  "ex_input to = \<lparr>in_to = to, in_actor = ActorUser, in_reason = ''changed plans'', in_hold = Some (midnight 740003),
     in_now = midnight 740000, in_facts = \<lparr>f_departure_found = True, f_sales_open = True, f_has_capacity = True,
       f_departure_reached = False, f_readiness_ok = False\<rparr>\<rparr>"

lemma ex_draft_ok: "draft_booking ex_draft"
  by (simp add: draft_booking_def ex_draft_def zero_booking_def recompute_balance_def sub64_def i64_def)

lemma ex_step:
  "booking_step ex_draft (moved ex_draft (ex_input StatusOptionHold))"
  "booking_step (moved ex_draft (ex_input StatusOptionHold))
     (moved (moved ex_draft (ex_input StatusOptionHold)) (ex_input StatusCancelled))"
proof -
  have "map_sum id snd (transition ex_draft (ex_input StatusOptionHold)) = Inr (moved ex_draft (ex_input StatusOptionHold))"
    "map_sum id snd (transition (moved ex_draft (ex_input StatusOptionHold)) (ex_input StatusCancelled))
       = Inr (moved (moved ex_draft (ex_input StatusOptionHold)) (ex_input StatusCancelled))"
    by code_simp+
  then show "booking_step ex_draft (moved ex_draft (ex_input StatusOptionHold))"
    "booking_step (moved ex_draft (ex_input StatusOptionHold))
       (moved (moved ex_draft (ex_input StatusOptionHold)) (ex_input StatusCancelled))"
    by (auto intro!: by_transition simp: map_sum_def split: sum.splits)
qed

theorem booking_reachable_ok_witness:
  "\<exists>b'. booking_step\<^sup>*\<^sup>* ex_draft b' \<and> b_status b' = StatusOptionHold \<and> b_hold b' \<noteq> None"
proof -
  let ?b = "moved ex_draft (ex_input StatusOptionHold)"
  have r: "booking_step\<^sup>*\<^sup>* ex_draft ?b" using ex_step(1) by blast
  have "b_status ?b = StatusOptionHold" by (simp add: ex_input_def)
  with booking_reachable_ok [OF ex_draft_ok r] r show ?thesis by blast
qed

text \<open>
  A cancelled or completed booking stays so under every sequence of operations.
\<close>

theorem booking_terminal_absorbing:
  assumes "terminal_status (b_status b)" "booking_step\<^sup>*\<^sup>* b b'"
  shows "b_status b' = b_status b"
  using booking_final.final_absorbing [OF assms(2,1)] .

theorem booking_terminal_absorbing_witness:
  "\<exists>b b'. terminal_status (b_status b) \<and> booking_step b b' \<and> b' \<noteq> b \<and> b_status b' = b_status b"
proof -
  let ?b = "moved (moved ex_draft (ex_input StatusOptionHold)) (ex_input StatusCancelled)"
  let ?c = "recompute_balance (?b\<lparr>b_collected := 100, b_updated := midnight 740001\<rparr>)"
  have t: "terminal_status (b_status ?b)" by (simp add: ex_input_def terminal_status_def)
  have s: "booking_step ?b ?c" by (rule by_payment)
  have "b_collected ?c \<noteq> b_collected ?b" by (simp add: ex_draft_def zero_booking_def)
  then have "?c \<noteq> ?b" by metis
  with t s booking_terminal_absorbing [OF t, of ?c] show ?thesis by blast
qed

end
