(* ===== verification/Booking_Service.thy ===== *)
theory Booking_Service
  imports Booking_Workspace Unit_Of_Work
begin

text \<open>
  \<^verbatim>\<open>internal/app/booking\<close> (\<^verbatim>\<open>transition.go\<close>, \<^verbatim>\<open>lifecycle.go\<close> and the transactional operations of
  \<^verbatim>\<open>service.go\<close> and \<^verbatim>\<open>workspace.go\<close> that write a booking) over the tables it reads and writes
  (\<^verbatim>\<open>adapter/postgres/booking/repository.go\<close>): bookings, departures, participants, checklist and
  readiness overrides. The store is a record of these tables; a transaction is a unit of work over it.

  Read from outside and therefore parameters (\<open>booking_env\<close>): the caller's scope, the team of a user and
  the branch of a package, the document policy service (\<open>DocReadiness\<close>, optional), the audit recorder
  (optional, may fail), the clock and the business time zone. Failures of the database itself are not
  modelled; a failing audit recorder is.
\<close>

section \<open>Tables\<close>

record departure =
  dp_id :: uuid
  dp_package :: uuid
  dp_code :: string
  dp_depart :: go_time
  dp_return :: go_time
  dp_capacity_total :: int
  dp_capacity_sold :: int
  dp_base_price :: int
  dp_currency :: string
  dp_active :: bool
  dp_sales_closed :: bool
  dp_soft_threshold :: int
  dp_allow_oversell :: bool
  dp_created :: go_time
  dp_updated :: go_time

record participant =
  pa_id :: uuid
  pa_booking :: uuid
  pa_name :: string
  pa_passport :: string
  pa_nationality :: string
  pa_birth :: "go_time option"
  pa_gender :: string
  pa_national_id :: string
  pa_national_id_last4 :: string
  pa_health_ok :: bool
  pa_created :: go_time

record checklist_item =
  ck_id :: uuid
  ck_booking :: uuid
  ck_code :: string
  ck_label :: string
  ck_required :: bool
  ck_completed :: bool
  ck_completed_at :: "go_time option"
  ck_sort :: int
  ck_created :: go_time

record readiness_override =
  ov_id :: uuid
  ov_booking :: uuid
  ov_reason :: string
  ov_actor :: "uuid option"
  ov_created :: go_time

text \<open>What an audit entry of this service records: the action, the entity and the lifecycle details.\<close>

record audit_entry =
  au_action :: string
  au_entity :: string
  au_id :: uuid
  au_branch :: uuid
  au_from :: "status option"
  au_to :: "status option"
  au_sold :: "(int \<times> int) option"
  au_bypassed :: "guard list"

record booking_db =
  db_bookings :: "booking list"
  db_departures :: "departure list"
  db_participants :: "participant list"
  db_checklist :: "checklist_item list"
  db_overrides :: "readiness_override list"
  db_lines :: "line_item list"
  db_audit :: "audit_entry list"

record booking_env =
  e_scope :: "scope option"
  e_users :: "uuid \<Rightarrow> uuid option"
  e_package_branch :: "uuid \<Rightarrow> uuid option"
  e_docs :: "(uuid \<Rightarrow> string list result) option"
  e_audit :: "(audit_entry \<Rightarrow> error option) option"
  e_now :: go_time
  e_loc :: location

datatype event = BookingStatusChanged booking status status actor_kind | BookingConfirmed booking
  | BookingCancelled booking

section \<open>Repository\<close>

definition scope_bookings :: columns where
  "scope_bookings = \<lparr>Branch = ''branch_id'', Owner = ''owner_id'', OwnerOrUnassigned = False\<rparr>"

definition booking_row :: "booking \<Rightarrow> db_row" where
  "booking_row b = \<lparr>row_branch = b_branch b, row_owner = Some (b_owner b)\<rparr>"

definition visible_booking :: "booking_env \<Rightarrow> (booking \<Rightarrow> bool) result" where
  "visible_booking env =
     (case scope_clause (e_scope env) scope_bookings (e_users env) of
        Inl e \<Rightarrow> Inl e | Inr p \<Rightarrow> Inr (\<lambda>b. p (booking_row b)))"

text \<open>
  \<open>FindForUpdate\<close>; \<open>get_booking\<close> is \<open>FindByID\<close> as the service calls it, every error becoming
  \<open>not found\<close>.
\<close>

definition find_for_update :: "booking_env \<Rightarrow> uuid \<Rightarrow> (booking_db, booking) uow" where
  "find_for_update env bid =
     and_then (lift_result (visible_booking env)) (\<lambda>vis.
     and_then (reading db_bookings) (\<lambda>bs.
       case find (\<lambda>b. b_id b = bid \<and> vis b) bs of
         None \<Rightarrow> fail (new_not_found ''booking'')
       | Some b \<Rightarrow> ret b))"

definition get_booking :: "booking_env \<Rightarrow> uuid \<Rightarrow> (booking_db, booking) uow" where
  "get_booking env bid =
     (\<lambda>db. case find_for_update env bid db of Inl _ \<Rightarrow> Inl (new_not_found ''booking'') | Inr r \<Rightarrow> Inr r)"

text \<open>The columns \<open>SaveStatus\<close> and \<open>Update\<close> write.\<close>

definition save_status_row :: "booking \<Rightarrow> booking \<Rightarrow> booking" where
  "save_status_row b r =
     r\<lparr>b_status := b_status b, b_hold := b_hold b, b_status_changed := b_status_changed b,
       b_status_reason := b_status_reason b, b_ready_forced := b_ready_forced b, b_updated := b_updated b\<rparr>"

definition update_row :: "booking \<Rightarrow> booking \<Rightarrow> booking" where
  "update_row b r =
     r\<lparr>b_pax := b_pax b, b_total := b_total b, b_discount := b_discount b, b_tax := b_tax b,
       b_fee := b_fee b, b_cost := b_cost b, b_collected := b_collected b, b_balance := b_balance b,
       b_currency := b_currency b, b_notes := b_notes b, b_owner := b_owner b, b_updated := b_updated b\<rparr>"

text \<open>
  \<open>scopedExec\<close>: an \<open>UPDATE ... WHERE\<close> that fails when it affects no row. The column \<open>pax_count\<close> is a
  32-bit integer with the check that it is positive, so the database refuses any other value.
\<close>

definition scoped_exec :: "booking_env \<Rightarrow> (booking \<Rightarrow> bool) \<Rightarrow> (booking \<Rightarrow> booking) \<Rightarrow> (booking_db, unit) uow" where
  "scoped_exec env wh upd =
     and_then (lift_result (visible_booking env)) (\<lambda>vis.
     and_then (reading db_bookings) (\<lambda>bs.
       if list_ex (\<lambda>b. wh b \<and> vis b) bs
       then writing (\<lambda>db. db\<lparr>db_bookings := map (\<lambda>r. if wh r \<and> vis r then upd r else r) bs\<rparr>)
       else fail (new_not_found ''booking'')))"

definition save_status :: "booking_env \<Rightarrow> booking \<Rightarrow> (booking_db, unit) uow" where
  "save_status env b = scoped_exec env (\<lambda>r. b_id r = b_id b) (save_status_row b)"

definition pax_column :: "int \<Rightarrow> bool" where "pax_column p \<longleftrightarrow> 0 < p \<and> p \<le> 2147483647"

definition update_booking :: "booking_env \<Rightarrow> booking \<Rightarrow> (booking_db, unit) uow" where
  "update_booking env b =
     and_then (ensure (pax_column (b_pax b)) (Plain ''pax_count out of range'')) (\<lambda>_.
       scoped_exec env (\<lambda>r. b_id r = b_id b) (update_row b))"

definition save_hold :: "booking_env \<Rightarrow> booking \<Rightarrow> (booking_db, unit) uow" where
  "save_hold env b =
     scoped_exec env (\<lambda>r. b_id r = b_id b \<and> b_status r = StatusOptionHold)
       (\<lambda>r. r\<lparr>b_hold := b_hold b, b_updated := b_updated b\<rparr>)"

text \<open>The statuses the SQL of \<open>CountConfirmedPaxByDeparture\<close> lists; the count is not scoped.\<close>

definition seat_statuses :: "status list" where
  "seat_statuses = [StatusOptionHold, StatusConfirmed, StatusPartiallyPaid, StatusReady, StatusTravelled, StatusCompleted]"

definition count_confirmed_pax :: "booking list \<Rightarrow> uuid \<Rightarrow> int" where
  "count_confirmed_pax bs dep =
     sum_list (map b_pax (filter (\<lambda>b. b_departure b = dep \<and> b_status b \<in> set seat_statuses) bs))"

definition package_visible :: "booking_env \<Rightarrow> (departure \<Rightarrow> bool) result" where
  "package_visible env =
     (case scope_clause (e_scope env) \<lparr>Branch = ''pk.branch_id'', Owner = [], OwnerOrUnassigned = False\<rparr> (e_users env) of
        Inl e \<Rightarrow> Inl e
      | Inr p \<Rightarrow> Inr (\<lambda>d. case e_package_branch env (dp_package d) of
                            None \<Rightarrow> False | Some br \<Rightarrow> p \<lparr>row_branch = br, row_owner = None\<rparr>))"

text \<open>\<open>LockDeparture\<close> is not scoped; the model keeps its result, whether the departure exists.\<close>

definition lock_departure :: "uuid \<Rightarrow> (booking_db, bool) uow" where
  "lock_departure dep = reading (\<lambda>db. list_ex (\<lambda>d. dp_id d = dep) (db_departures db))"

definition find_departure :: "booking_env \<Rightarrow> uuid \<Rightarrow> (booking_db, departure option) uow" where
  "find_departure env dep =
     (case package_visible env of
        Inl _ \<Rightarrow> ret None
      | Inr vis \<Rightarrow> reading (\<lambda>db. find (\<lambda>d. dp_id d = dep \<and> vis d) (db_departures db)))"

definition update_capacity_sold :: "booking_env \<Rightarrow> uuid \<Rightarrow> int \<Rightarrow> (booking_db, unit) uow" where
  "update_capacity_sold env dep sold =
     and_then (lift_result (package_visible env)) (\<lambda>vis.
       writing (\<lambda>db. db\<lparr>db_departures := map (\<lambda>d. if dp_id d = dep \<and> vis d then d\<lparr>dp_capacity_sold := sold\<rparr> else d)
                          (db_departures db)\<rparr>))"

section \<open>Readiness\<close>

text \<open>\<open>fresh i\<close> is the identifier drawn for the \<open>i\<close>-th item.\<close>

definition default_checklist :: "(nat \<Rightarrow> uuid) \<Rightarrow> go_time \<Rightarrow> uuid \<Rightarrow> checklist_item list" where
  "default_checklist fresh now bid =
     map (\<lambda>(i, c, l, r). \<lparr>ck_id = fresh i, ck_booking = bid, ck_code = c, ck_label = l, ck_required = r,
                       ck_completed = False, ck_completed_at = None, ck_sort = int i, ck_created = now\<rparr>)
       (enumerate 0 [(''passport'', ''Passport copy'', True), (''visa'', ''Visa / entry permit'', True),
        (''photo'', ''Passport photo'', False), (''payment'', ''Deposit / payment plan'', True),
        (''flight'', ''Flight confirmation'', False), (''vaccine'', ''Health / vaccine form'', False)])"

definition readiness_facts_of :: "booking_env \<Rightarrow> booking \<Rightarrow> (booking_db, readiness_facts) uow" where
  "readiness_facts_of env b =
     and_then (reading (\<lambda>db. length (filter (\<lambda>p. pa_booking p = b_id b) (db_participants db)))) (\<lambda>parts.
     and_then (reading (\<lambda>db. filter (\<lambda>c. ck_booking c = b_id b) (db_checklist db))) (\<lambda>stored.
       let checklist = (if stored = [] then default_checklist (\<lambda>_. 0) (e_now env) (b_id b) else stored);
           incomplete = int (length (filter (\<lambda>c. ck_required c \<and> \<not> ck_completed c) checklist))
       in and_then (lift_result (case e_docs env of None \<Rightarrow> Inr [] | Some f \<Rightarrow> f (b_id b))) (\<lambda>missing.
          and_then (reading (\<lambda>db. list_ex (\<lambda>ov. ov_booking ov = b_id b) (db_overrides db))) (\<lambda>override.
            ret \<lparr>rf_participants_missing = (int parts < b_pax b), rf_checklist_incomplete = incomplete,
                 rf_missing_docs = missing, rf_override_active = override\<rparr>))))"

section \<open>Audit\<close>

definition record_audit :: "booking_env \<Rightarrow> audit_entry \<Rightarrow> (booking_db, unit) uow" where
  "record_audit env a =
     (case e_audit env of
        None \<Rightarrow> ret ()
      | Some f \<Rightarrow> (case f a of Some e \<Rightarrow> fail e | None \<Rightarrow> writing (\<lambda>db. db\<lparr>db_audit := db_audit db @ [a]\<rparr>)))"

text \<open>The entry of a transition.\<close>

definition transition_entry :: "booking \<Rightarrow> transition_result \<Rightarrow> (int \<times> int) option \<Rightarrow> audit_entry" where
  "transition_entry b res sold =
     \<lparr>au_action = (if res_actor res = ActorOverride then ''booking.status_overridden'' else ''booking.status_changed''),
      au_entity = ''booking'', au_id = b_id b, au_branch = b_branch b, au_from = Some (res_from res),
      au_to = Some (res_to res), au_sold = sold,
      au_bypassed = (if res_actor res = ActorOverride then res_bypassed res else [])\<rparr>"

definition record_transition ::
  "booking_env \<Rightarrow> booking \<Rightarrow> transition_result \<Rightarrow> int \<Rightarrow> int \<Rightarrow> (booking_db, unit) uow" where
  "record_transition env b res sold_before sold_after =
     record_audit env (transition_entry b res
       (if sold_before \<ge> 0 \<or> sold_after \<ge> 0 then Some (sold_before, sold_after) else None))"

section \<open>Applying a transition\<close>

definition no_facts :: transition_facts where
  "no_facts = \<lparr>f_departure_found = False, f_sales_open = False, f_has_capacity = False,
     f_departure_reached = False, f_readiness_ok = False\<rparr>"

definition departure_facts :: "departure \<Rightarrow> int \<Rightarrow> int \<Rightarrow> go_time \<Rightarrow> transition_facts" where
  "departure_facts dep sold pax today =
     \<lparr>f_departure_found = True, f_sales_open = (dp_active dep \<and> \<not> dp_sales_closed dep),
      f_has_capacity = (dp_allow_oversell dep \<or> add64 sold pax \<le> dp_capacity_total dep),
      f_departure_reached = departure_reached (dp_depart dep) today, f_readiness_ok = False\<rparr>"

text \<open>The facts the guards need, gathered before the transition: seat count, departure, readiness.\<close>

definition seat_facts :: "booking \<Rightarrow> status \<Rightarrow> (booking_db, bool \<times> int) uow" where
  "seat_facts b to =
     (if seat_change_for (b_status b) to \<noteq> SeatNone then
        and_then (lock_departure (b_departure b)) (\<lambda>found.
        and_then (reading (\<lambda>db. count_confirmed_pax (db_bookings db) (b_departure b))) (\<lambda>sold.
          ret (\<not> found, sold)))
      else ret (False, - 1))"

definition gather_departure :: "booking_env \<Rightarrow> booking \<Rightarrow> transition_input \<Rightarrow> bool \<Rightarrow> int \<Rightarrow> (booking_db, transition_facts) uow" where
  "gather_departure env b inp missing sold =
     (if (in_to inp = StatusTravelled \<or> consumes_seat (in_to inp) \<and> \<not> is_confirmed_family (b_status b)) \<and> \<not> missing
      then and_then (find_departure env (b_departure b)) (\<lambda>dep.
             case dep of None \<Rightarrow> ret (in_facts inp)
             | Some d \<Rightarrow> ret (departure_facts d (max sold 0) (b_pax b) (in_loc (in_now inp) (e_loc env))))
      else ret (in_facts inp))"

definition gather_readiness ::
  "booking_env \<Rightarrow> booking \<Rightarrow> transition_input \<Rightarrow> readiness_facts option \<Rightarrow> transition_facts \<Rightarrow> (booking_db, transition_facts) uow" where
  "gather_readiness env b inp readiness facts =
     (if in_to inp = StatusReady \<or> in_actor inp = ActorSystem \<and> is_confirmed_family (in_to inp)
      then and_then (case readiness of Some f \<Rightarrow> ret f | None \<Rightarrow> readiness_facts_of env b) (\<lambda>f.
             ret (facts\<lparr>f_readiness_ok := readiness_ok f\<rparr>))
      else ret facts)"

definition transition_events :: "booking \<Rightarrow> transition_result \<Rightarrow> event list" where
  "transition_events b res =
     BookingStatusChanged b (res_from res) (res_to res) (res_actor res)
     # (if is_confirmed_family (res_to res) \<and> \<not> is_confirmed_family (res_from res) then [BookingConfirmed b]
        else if res_to res = StatusCancelled then [BookingCancelled b]
        else [])"

text \<open>The capacity counter of the departure, rewritten when the transition takes or frees seats.\<close>

definition sync_capacity :: "booking_env \<Rightarrow> booking \<Rightarrow> seat_change \<Rightarrow> (booking_db, int) uow" where
  "sync_capacity env b seat =
     (if seat \<noteq> SeatNone then
        and_then (reading (\<lambda>db. count_confirmed_pax (db_bookings db) (b_departure b))) (\<lambda>sold.
        and_then (update_capacity_sold env (b_departure b) sold) (\<lambda>_. ret sold))
      else ret (- 1))"

definition svc_apply ::
  "booking_env \<Rightarrow> booking \<Rightarrow> transition_input \<Rightarrow> readiness_facts option \<Rightarrow> (booking_db, booking \<times> event list) uow" where
  "svc_apply env b inp readiness =
     (if \<not> status_valid (in_to inp) then fail (new_validation (''invalid status: '' @ status_str (in_to inp)))
      else
        and_then (seat_facts b (in_to inp)) (\<lambda>(missing, sold_before).
        and_then (gather_departure env b inp missing sold_before) (\<lambda>facts.
        and_then (gather_readiness env b inp readiness facts) (\<lambda>facts.
        and_then (lift_result (transition b (inp\<lparr>in_facts := facts\<rparr>))) (\<lambda>(res, b').
        and_then (save_status env b') (\<lambda>_.
        and_then (sync_capacity env b' (seat_change_for (b_status b) (in_to inp))) (\<lambda>sold_after.
        and_then (record_transition env b' res sold_before sold_after) (\<lambda>_.
          ret (b', transition_events b' res)))))))))"

definition rederive :: "booking_env \<Rightarrow> booking \<Rightarrow> readiness_facts option \<Rightarrow> (booking_db, booking \<times> event list) uow" where
  "rederive env b facts =
     (if \<not> is_confirmed_family (b_status b) then ret (b, [])
      else and_then (case facts of Some f \<Rightarrow> ret f | None \<Rightarrow> readiness_facts_of env b) (\<lambda>f.
        let target = derived_status b (readiness_ok f)
        in if target = b_status b then ret (b, [])
           else svc_apply env b \<lparr>in_to = target, in_actor = ActorSystem, in_reason = ''derived'', in_hold = None,
                                 in_now = e_now env, in_facts = no_facts\<rparr> (Some f)))"

record transition_request =
  tr_status :: status
  tr_reason :: string
  tr_hold :: "go_time option"
  tr_override :: bool

definition request_input :: "booking_env \<Rightarrow> transition_request \<Rightarrow> transition_input" where
  "request_input env rq =
     \<lparr>in_to = tr_status rq, in_actor = (if tr_override rq then ActorOverride else ActorUser),
      in_reason = tr_reason rq, in_hold = tr_hold rq, in_now = e_now env, in_facts = no_facts\<rparr>"

definition svc_transition ::
  "booking_env \<Rightarrow> uuid \<Rightarrow> transition_request \<Rightarrow> (booking_db, booking \<times> event list) uow" where
  "svc_transition env bid rq =
     and_then (find_for_update env bid) (\<lambda>b.
     and_then (svc_apply env b (request_input env rq) None) (\<lambda>(b, evs).
     and_then (rederive env b None) (\<lambda>(b, evs').
       ret (b, evs @ evs'))))"

definition svc_confirm :: "booking_env \<Rightarrow> uuid \<Rightarrow> (booking_db, booking \<times> event list) uow" where
  "svc_confirm env bid =
     svc_transition env bid \<lparr>tr_status = StatusConfirmed, tr_reason = [], tr_hold = None, tr_override = False\<rparr>"

definition svc_recompute :: "booking_env \<Rightarrow> uuid \<Rightarrow> (booking_db, booking \<times> event list) uow" where
  "svc_recompute env bid = and_then (find_for_update env bid) (\<lambda>b. rederive env b None)"

section \<open>Sweeps and edits\<close>

definition system_env :: "booking_env \<Rightarrow> booking_env" where
  "system_env env = env\<lparr>e_scope := Some system_scope\<rparr>"

text \<open>\<open>expireHold\<close>; the follow-up task of the owner is an optional collaborator given as a parameter.\<close>

definition expire_hold ::
  "booking_env \<Rightarrow> (booking \<Rightarrow> go_time \<Rightarrow> error option) \<Rightarrow> uuid \<Rightarrow> (booking_db, bool \<times> event list) uow" where
  "expire_hold env0 task bid =
     (let env = system_env env0 in
      and_then (find_for_update env bid) (\<lambda>b.
        case b_hold b of
          None \<Rightarrow> ret (False, [])
        | Some h \<Rightarrow>
            if b_status b \<noteq> StatusOptionHold \<or> before (e_now env) h then ret (False, [])
            else and_then (svc_apply env b \<lparr>in_to = StatusDraft, in_actor = ActorSystem, in_reason = ''hold_expired'',
                             in_hold = None, in_now = e_now env, in_facts = no_facts\<rparr> None) (\<lambda>(b', evs).
                 case task b' h of Some e \<Rightarrow> fail e | None \<Rightarrow> ret (True, evs))))"

definition mark_travelled :: "booking_env \<Rightarrow> uuid \<Rightarrow> (booking_db, bool \<times> event list) uow" where
  "mark_travelled env0 bid =
     (let env = system_env env0 in
      and_then (find_for_update env bid) (\<lambda>b.
        if \<not> is_confirmed_family (b_status b) then ret (False, [])
        else and_then (readiness_facts_of env b) (\<lambda>facts db.
          case svc_apply env b \<lparr>in_to = StatusTravelled, in_actor = ActorSystem, in_reason = ''departed'',
                 in_hold = None, in_now = e_now env, in_facts = no_facts\<rparr> (Some facts) db of
            Inl e \<Rightarrow> if failed_guards e = [''departure_not_reached''] then Inr ((False, []), db) else Inl e
          | Inr ((b', evs), db') \<Rightarrow> Inr ((True, evs), db'))))"

text \<open>\<open>Service.Update\<close>: a patch of a draft or quoted booking.\<close>

definition svc_update ::
  "booking_env \<Rightarrow> uuid \<Rightarrow> update_fields \<Rightarrow> bool \<Rightarrow> (booking_db, booking) uow" where
  "svc_update env bid inp can_discount =
     and_then (get_booking env bid) (\<lambda>b.
     and_then (ensure (case uf_discount inp of Some d \<Rightarrow> d = b_discount b \<or> can_discount | None \<Rightarrow> True)
                 (new_forbidden ''bookings.discount permission required to change discount'')) (\<lambda>_.
     and_then (reading (\<lambda>db. filter (\<lambda>l. li_booking l = bid) (db_lines db))) (\<lambda>lines.
     and_then (lift_result (apply_update b inp lines (e_now env))) (\<lambda>b'.
     and_then (update_booking env b') (\<lambda>_.
     and_then (record_audit env \<lparr>au_action = ''booking.updated'', au_entity = ''booking'', au_id = b_id b',
                 au_branch = b_branch b', au_from = None, au_to = None, au_sold = None, au_bypassed = []\<rparr>) (\<lambda>_.
     and_then (if b_discount b' \<noteq> b_discount b
               then record_audit env \<lparr>au_action = ''booking.discount_changed'', au_entity = ''booking'', au_id = b_id b',
                      au_branch = b_branch b', au_from = None, au_to = None, au_sold = None, au_bypassed = []\<rparr>
               else ret ()) (\<lambda>_.
       ret b')))))))"

definition svc_extend_hold :: "booking_env \<Rightarrow> uuid \<Rightarrow> go_time \<Rightarrow> (booking_db, unit) uow" where
  "svc_extend_hold env bid until =
     and_then (find_for_update env bid) (\<lambda>b.
     and_then (lift_result (extend_hold b until (e_now env))) (\<lambda>(prev, b').
     and_then (save_hold env b') (\<lambda>_.
       record_audit env \<lparr>au_action = ''booking.hold_extended'', au_entity = ''booking'', au_id = b_id b',
         au_branch = b_branch b', au_from = None, au_to = None, au_sold = None, au_bypassed = []\<rparr>)))"

section \<open>A small store\<close>

text \<open>One departure with three seats and two draft bookings of two people each; used for evaluation.\<close>

definition ex_booking :: "uuid \<Rightarrow> booking" where
  "ex_booking i = zero_booking\<lparr>b_id := i, b_branch := 7, b_customer := 4, b_departure := 9, b_owner := 5,
     b_status := StatusDraft, b_pax := 2, b_total := 1000, b_collected := 400, b_balance := 600\<rparr>"

definition ex_db :: booking_db where
  "ex_db = \<lparr>db_bookings = [ex_booking 11, ex_booking 12],
     db_departures = [\<lparr>dp_id = 9, dp_package = 3, dp_code = ''D'', dp_depart = midnight 740000, dp_return = midnight 740010,
       dp_capacity_total = 3, dp_capacity_sold = 0, dp_base_price = 0, dp_currency = ''USD'', dp_active = True,
       dp_sales_closed = False, dp_soft_threshold = 80, dp_allow_oversell = False,
       dp_created = zero_time, dp_updated = zero_time\<rparr>],
     db_participants = [], db_checklist = [], db_overrides = [], db_lines = [], db_audit = []\<rparr>"

definition ex_env :: booking_env where
  "ex_env = \<lparr>e_scope = Some (zero_scope\<lparr>Level := LevelBranch, UserID := 5, BranchID := 7\<rparr>), e_users = (\<lambda>_. None),
     e_package_branch = (\<lambda>_. Some 7), e_docs = None, e_audit = Some (\<lambda>_. None), e_now = midnight 739000, e_loc = utc_loc\<rparr>"

definition ex_request :: transition_request where
  "ex_request = \<lparr>tr_status = StatusConfirmed, tr_reason = [], tr_hold = None, tr_override = False\<rparr>"

section \<open>Seats\<close>

lemma seat_statuses_iff [simp]: "s \<in> set seat_statuses \<longleftrightarrow> consumes_seat s"
  by (cases s) (simp_all add: seat_statuses_def consumes_seat_def)

definition seats :: "uuid \<Rightarrow> booking \<Rightarrow> int" where
  "seats dep b = (if b_departure b = dep \<and> consumes_seat (b_status b) then b_pax b else 0)"

lemma count_alt: "count_confirmed_pax bs dep = sum_list (map (seats dep) bs)"
  by (induction bs) (simp_all add: count_confirmed_pax_def seats_def)

lemma count_replace:
  assumes "distinct (map b_id bs)" "b \<in> set bs"
  shows "count_confirmed_pax (map (\<lambda>r. if r = b then b' else r) bs) dep
     = count_confirmed_pax bs dep - seats dep b + seats dep b'"
  using assms
proof (induction bs)
  case (Cons x bs)
  show ?case
  proof (cases "x = b")
    case True
    then have "b \<notin> set bs" using Cons.prems by auto
    then have "map (\<lambda>r. if r = b then b' else r) bs = bs" by (intro map_idI) auto
    with True show ?thesis by (simp add: count_alt)
  next
    case False
    with Cons have "count_confirmed_pax (map (\<lambda>r. if r = b then b' else r) bs) dep
       = count_confirmed_pax bs dep - seats dep b + seats dep b'" by simp
    with False show ?thesis by (simp add: count_alt)
  qed
qed simp

text \<open>
  The capacity invariant: keys are unique, the integer columns are in range, and no departure that does
  not allow overselling has more seats taken than its capacity.
\<close>

definition capacity_ok :: "booking_db \<Rightarrow> bool" where
  "capacity_ok db \<longleftrightarrow> distinct (map b_id (db_bookings db)) \<and> (\<forall>b \<in> set (db_bookings db). pax_column (b_pax b))
     \<and> (\<forall>d \<in> set (db_departures db). dp_capacity_total d \<le> 2147483647)
     \<and> distinct (map dp_id (db_departures db))
     \<and> (\<forall>d \<in> set (db_departures db). \<not> dp_allow_oversell d \<longrightarrow>
          count_confirmed_pax (db_bookings db) (dp_id d) \<le> dp_capacity_total d)"

lemma id_unique:
  assumes "distinct (map b_id bs)" "b \<in> set bs" "r \<in> set bs" "b_id r = b_id b"
  shows "r = b"
  using assms by (metis distinct_map inj_on_eq_iff)

text \<open>A scoped write that hits the row \<open>b\<close> by its key replaces exactly that row.\<close>

lemma scoped_exec_Inr:
  assumes "scoped_exec env (\<lambda>r. b_id r = b_id b \<and> p r) upd db = Inr (u, db')"
    and "distinct (map b_id (db_bookings db))" "b \<in> set (db_bookings db)"
  shows "db' = db\<lparr>db_bookings := map (\<lambda>r. if r = b then upd b else r) (db_bookings db)\<rparr>" "p b"
proof -
  obtain vis where v: "visible_booking env = Inr vis"
    "list_ex (\<lambda>r. (b_id r = b_id b \<and> p r) \<and> vis r) (db_bookings db)"
    "db' = db\<lparr>db_bookings := map (\<lambda>r. if (b_id r = b_id b \<and> p r) \<and> vis r then upd r else r) (db_bookings db)\<rparr>"
    using assms(1) unfolding scoped_exec_def
    by (auto elim!: and_then_InrE lift_result_InrE split: if_splits)
  then obtain r where "r \<in> set (db_bookings db)" "b_id r = b_id b" "p r" "vis r" by (auto simp: list_ex_iff)
  then have pb: "p b" "vis b" using id_unique [OF assms(2,3)] by blast+
  then show "p b" by simp
  have "map (\<lambda>r. if (b_id r = b_id b \<and> p r) \<and> vis r then upd r else r) (db_bookings db)
      = map (\<lambda>r. if r = b then upd b else r) (db_bookings db)"
    using pb id_unique [OF assms(2,3)] by (intro map_cong) auto
  with v(3) show "db' = db\<lparr>db_bookings := map (\<lambda>r. if r = b then upd b else r) (db_bookings db)\<rparr>" by simp
qed

lemma save_status_moved [simp]: "save_status_row (moved b inp) b = moved b inp"
  by (simp add: save_status_row_def moved_def)

lemma save_status_Inr:
  assumes "save_status env (moved b inp) db = Inr (u, db')"
    and "distinct (map b_id (db_bookings db))" "b \<in> set (db_bookings db)"
  shows "db' = db\<lparr>db_bookings := map (\<lambda>r. if r = b then moved b inp else r) (db_bookings db)\<rparr>"
proof -
  have "scoped_exec env (\<lambda>r. b_id r = b_id b \<and> True) (save_status_row (moved b inp)) db = Inr (u, db')"
    using assms(1) by (simp add: save_status_def)
  from scoped_exec_Inr(1) [OF this assms(2,3)] show ?thesis by simp
qed

text \<open>The tables other than bookings are only touched in the capacity counter and the audit log.\<close>

definition same_capacity :: "booking_db \<Rightarrow> booking_db \<Rightarrow> bool" where
  "same_capacity db db' \<longleftrightarrow> db_bookings db' = db_bookings db
     \<and> map (\<lambda>d. d\<lparr>dp_capacity_sold := 0\<rparr>) (db_departures db') = map (\<lambda>d. d\<lparr>dp_capacity_sold := 0\<rparr>) (db_departures db)"

lemma same_capacity_refl [simp]: "same_capacity db db" by (simp add: same_capacity_def)

lemma same_capacity_trans: "same_capacity a b \<Longrightarrow> same_capacity b c \<Longrightarrow> same_capacity a c"
  by (simp add: same_capacity_def)

lemma capacity_ok_same:
  assumes same: "same_capacity db db'" and ok: "capacity_ok db"
  shows "capacity_ok db'"
proof -
  let ?k = "\<lambda>d. d\<lparr>dp_capacity_sold := 0\<rparr>"
  have bs: "db_bookings db' = db_bookings db" and deps: "map ?k (db_departures db') = map ?k (db_departures db)"
    using same by (simp_all add: same_capacity_def)
  have "\<exists>x \<in> set (db_departures db). dp_id x = dp_id d \<and> dp_capacity_total x = dp_capacity_total d
      \<and> dp_allow_oversell x = dp_allow_oversell d" if "d \<in> set (db_departures db')" for d
  proof -
    have "?k d \<in> set (map ?k (db_departures db))" using that deps [symmetric] by simp
    then obtain x where x: "x \<in> set (db_departures db)" "?k x = ?k d" by auto
    have "dp_id (?k x) = dp_id (?k d)" "dp_capacity_total (?k x) = dp_capacity_total (?k d)"
      "dp_allow_oversell (?k x) = dp_allow_oversell (?k d)" using x(2) by simp_all
    with x(1) show ?thesis by auto
  qed
  moreover have "map dp_id (db_departures db') = map dp_id (db_departures db)"
    using arg_cong [OF deps, of "map dp_id"] by (simp add: comp_def)
  ultimately show ?thesis using ok by (fastforce simp: capacity_ok_def bs)
qed

lemma update_capacity_same:
  "update_capacity_sold env dep n db = Inr (u, db') \<Longrightarrow> same_capacity db db'"
  by (auto simp: update_capacity_sold_def same_capacity_def elim!: and_then_InrE lift_result_InrE)

lemma record_audit_same: "record_audit env a db = Inr (u, db') \<Longrightarrow> same_capacity db db'"
  by (auto simp: record_audit_def same_capacity_def split: option.splits)

lemma sync_capacity_same: "sync_capacity env b seat db = Inr (n, db') \<Longrightarrow> same_capacity db db'"
  by (auto simp: sync_capacity_def elim!: and_then_InrE dest: update_capacity_same split: if_splits)

lemma readiness_reads: "readiness_facts_of env b db = Inr (f, db') \<Longrightarrow> db' = db"
  by (auto simp: readiness_facts_of_def Let_def elim!: and_then_InrE lift_result_InrE)

lemma find_departure_reads:
  "find_departure env dep db = Inr (r, db') \<Longrightarrow>
     db' = db \<and> (\<forall>d. r = Some d \<longrightarrow> d \<in> set (db_departures db) \<and> dp_id d = dep)"
  by (auto simp: find_departure_def find_Some_iff split: sum.splits)

lemma find_departure_same: "find_departure env dep db = Inr (r, db') \<Longrightarrow> db' = db"
  using find_departure_reads by blast

lemma seat_facts_Inr:
  assumes "seat_facts b to db = Inr ((missing, sold), db')"
  shows "db' = db" "seat_change_for (b_status b) to \<noteq> SeatNone \<Longrightarrow> sold = count_confirmed_pax (db_bookings db) (b_departure b)"
  using assms by (auto simp: seat_facts_def lock_departure_def elim!: and_then_InrE split: if_splits)

lemma gather_departure_Inr:
  assumes "gather_departure env b inp missing sold db = Inr (f, db')" "in_facts inp = no_facts"
  shows "db' = db" "f_departure_found f \<Longrightarrow> \<exists>d \<in> set (db_departures db). dp_id d = b_departure b
      \<and> f_has_capacity f = (dp_allow_oversell d \<or> add64 (max sold 0) (b_pax b) \<le> dp_capacity_total d)"
proof -
  have nf: "\<not> f_departure_found (in_facts inp)" using assms(2) by (simp add: no_facts_def)
  consider "f = in_facts inp" "db' = db"
    | d where "find_departure env (b_departure b) db = Inr (Some d, db')"
      "f = departure_facts d (max sold 0) (b_pax b) (in_loc (in_now inp) (e_loc env))"
    using assms(1) find_departure_same [of env "b_departure b" db None]
    by (auto simp: gather_departure_def elim!: and_then_InrE split: if_splits option.splits)
  then have "db' = db \<and> (f_departure_found f \<longrightarrow> (\<exists>d \<in> set (db_departures db). dp_id d = b_departure b
      \<and> f_has_capacity f = (dp_allow_oversell d \<or> add64 (max sold 0) (b_pax b) \<le> dp_capacity_total d)))"
  proof cases
    case 1
    with nf show ?thesis by simp
  next
    case (2 d)
    with find_departure_reads [OF 2(1)] show ?thesis by (auto simp: departure_facts_def)
  qed
  then show "db' = db" "f_departure_found f \<Longrightarrow> \<exists>d \<in> set (db_departures db). dp_id d = b_departure b
      \<and> f_has_capacity f = (dp_allow_oversell d \<or> add64 (max sold 0) (b_pax b) \<le> dp_capacity_total d)" by blast+
qed

lemma gather_readiness_Inr:
  assumes "gather_readiness env b inp rd f db = Inr (f', db')"
  shows "db' = db" "f_departure_found f' = f_departure_found f" "f_has_capacity f' = f_has_capacity f"
  using assms
  by (auto simp: gather_readiness_def elim!: and_then_InrE split: if_splits option.splits dest!: readiness_reads)

text \<open>What a successful \<open>apply\<close> did: one domain transition on facts that bound the seats, one row written.\<close>

lemma svc_apply_Inr:
  assumes "svc_apply env b inp rd db = Inr ((b', evs), db')" "in_facts inp = no_facts"
  obtains f res db1 where "transition b (inp\<lparr>in_facts := f\<rparr>) = Inr (res, b')"
    "b' = moved b (inp\<lparr>in_facts := f\<rparr>)" "save_status env b' db = Inr ((), db1)" "same_capacity db1 db'"
    "evs = transition_events b' res"
    "seat_change_for (b_status b) (in_to inp) = SeatAcquire \<longrightarrow>
       (\<exists>d \<in> set (db_departures db). dp_id d = b_departure b \<and> (dp_allow_oversell d
          \<or> add64 (max (count_confirmed_pax (db_bookings db) (b_departure b)) 0) (b_pax b) \<le> dp_capacity_total d))"
proof -
  from assms(1) obtain missing sold d1 f1 d2 f d3 res d4 u d5 n d6 where
    s: "seat_facts b (in_to inp) db = Inr ((missing, sold), d1)" and
    g: "gather_departure env b inp missing sold d1 = Inr (f1, d2)" and
    r: "gather_readiness env b inp rd f1 d2 = Inr (f, d3)" and
    t: "lift_result (transition b (inp\<lparr>in_facts := f\<rparr>)) d3 = Inr ((res, b'), d4)" and
    sv: "save_status env b' d4 = Inr ((), d5)" and
    sy: "sync_capacity env b' (seat_change_for (b_status b) (in_to inp)) d5 = Inr (n, d6)" and
    rc: "record_transition env b' res sold n d6 = Inr ((), db')" and e: "evs = transition_events b' res"
    by (auto simp: svc_apply_def split: if_splits elim!: and_then_InrE)
  have d: "d1 = db" "d2 = db" "d3 = db" "d4 = db"
    using seat_facts_Inr(1) [OF s] gather_departure_Inr(1) [OF g assms(2)] gather_readiness_Inr(1) [OF r] t
    by (auto elim: lift_result_InrE)
  have tr: "transition b (inp\<lparr>in_facts := f\<rparr>) = Inr (res, b')" using t by (auto elim: lift_result_InrE)
  have mv: "b' = moved b (inp\<lparr>in_facts := f\<rparr>)" using tr by (simp add: transition_Inr_iff)
  have same: "same_capacity d5 db'"
    using sync_capacity_same [OF sy] record_audit_same rc same_capacity_trans unfolding record_transition_def by blast
  have cap: "\<exists>d \<in> set (db_departures db). dp_id d = b_departure b \<and> (dp_allow_oversell d
          \<or> add64 (max (count_confirmed_pax (db_bookings db) (b_departure b)) 0) (b_pax b) \<le> dp_capacity_total d)"
    if a: "seat_change_for (b_status b) (in_to inp) = SeatAcquire"
  proof -
    have "f_departure_found f" "f_has_capacity f" using transition_departure_guard [OF tr] a by simp_all
    moreover have "sold = count_confirmed_pax (db_bookings db) (b_departure b)"
      using seat_facts_Inr(2) [OF s] a by simp
    ultimately show ?thesis
      using gather_departure_Inr(2) [OF g assms(2)] gather_readiness_Inr(2,3) [OF r] d by auto
  qed
  show thesis using that [OF tr mv _ same e] cap sv d by blast
qed

lemma capacity_ok_apply:
  assumes ok: "capacity_ok db" and b: "b \<in> set (db_bookings db)" and nf: "in_facts inp = no_facts"
    and ap: "svc_apply env b inp rd db = Inr ((b', evs), db')"
  shows "capacity_ok db'" "b' \<in> set (db_bookings db')"
proof -
  obtain f res db1 where
    tr: "transition b (inp\<lparr>in_facts := f\<rparr>) = Inr (res, b')" and mv: "b' = moved b (inp\<lparr>in_facts := f\<rparr>)" and
    sv: "save_status env b' db = Inr ((), db1)" and same: "same_capacity db1 db'" and
    "evs = transition_events b' res" and
    cap: "seat_change_for (b_status b) (in_to inp) = SeatAcquire \<longrightarrow>
       (\<exists>d \<in> set (db_departures db). dp_id d = b_departure b \<and> (dp_allow_oversell d
          \<or> add64 (max (count_confirmed_pax (db_bookings db) (b_departure b)) 0) (b_pax b) \<le> dp_capacity_total d))"
    by (rule svc_apply_Inr [OF ap nf])
  let ?bs = "db_bookings db"
  have dist: "distinct (map b_id ?bs)" and pax: "\<forall>x \<in> set ?bs. pax_column (b_pax x)"
    and dd: "distinct (map dp_id (db_departures db))" using ok by (simp_all add: capacity_ok_def)
  have db1: "db1 = db\<lparr>db_bookings := map (\<lambda>r. if r = b then b' else r) ?bs\<rparr>"
    using save_status_Inr [OF sv [unfolded mv] dist b] mv by simp
  have same_b: "b_id b' = b_id b" "b_pax b' = b_pax b" "b_departure b' = b_departure b" using mv by simp_all
  have count: "count_confirmed_pax (db_bookings db1) dep = count_confirmed_pax ?bs dep - seats dep b + seats dep b'" for dep
    using count_replace [OF dist b] by (simp add: db1)
  have bound: "count_confirmed_pax (db_bookings db1) (dp_id d) \<le> dp_capacity_total d"
    if d: "d \<in> set (db_departures db)" "\<not> dp_allow_oversell d" for d
  proof (cases "seats (dp_id d) b' \<le> seats (dp_id d) b")
    case True
    then show ?thesis using count [of "dp_id d"] ok d by (force simp: capacity_ok_def)
  next
    case False
    then have dep: "dp_id d = b_departure b" and a: "seat_change_for (b_status b) (in_to inp) = SeatAcquire"
      using pax b mv by (auto simp: seats_def seat_change_for_def pax_column_def split: if_splits)
    from cap a obtain x where x: "x \<in> set (db_departures db)" "dp_id x = b_departure b"
      "dp_allow_oversell x \<or> add64 (max (count_confirmed_pax ?bs (b_departure b)) 0) (b_pax b) \<le> dp_capacity_total x"
      by blast
    have "x = d" using x(1,2) d(1) dep dd by (metis distinct_map inj_on_eq_iff)
    define c where "c = count_confirmed_pax ?bs (b_departure b)"
    have c: "c \<le> dp_capacity_total d" "dp_capacity_total d \<le> 2147483647"
      using ok d dep by (auto simp: capacity_ok_def c_def)
    have p: "0 < b_pax b" "b_pax b \<le> 2147483647" using pax b by (auto simp: pax_column_def)
    have "fits64 (max c 0 + b_pax b)" using c p by (auto simp: fits64_def max_def)
    then have "max c 0 + b_pax b \<le> dp_capacity_total d"
      using x(3) d(2) \<open>x = d\<close> by (simp add: add64_id c_def)
    moreover have "seats (dp_id d) b = 0" "seats (dp_id d) b' = b_pax b"
      using a dep mv by (auto simp: seats_def seat_change_for_def split: if_splits)
    ultimately show ?thesis using count [of "dp_id d"] dep by (simp add: c_def)
  qed
  have ids: "map b_id (map (\<lambda>r. if r = b then b' else r) ?bs) = map b_id ?bs" using same_b by simp
  have "capacity_ok db1" using ok bound same_b pax b ids by (auto simp: capacity_ok_def db1 simp del: map_map)
  then show "capacity_ok db'" by (rule capacity_ok_same [OF same])
  have "b' \<in> set (db_bookings db1)" using b by (auto simp: db1)
  then show "b' \<in> set (db_bookings db')" using same by (simp add: same_capacity_def)
qed

lemma find_for_update_Inr:
  assumes "find_for_update env bid db = Inr (b, db')"
  shows "db' = db" "b \<in> set (db_bookings db)" "b_id b = bid"
  using assms by (auto simp: find_for_update_def find_Some_iff elim!: and_then_InrE lift_result_InrE split: option.splits)

lemma get_booking_Inr:
  assumes "get_booking env bid db = Inr (b, db')"
  shows "db' = db" "b \<in> set (db_bookings db)" "b_id b = bid"
  using assms find_for_update_Inr by (auto simp: get_booking_def split: sum.splits)

lemma find_thenE:
  assumes "and_then (find_for_update env bid) f db = Inr (y, d)"
  obtains b where "find_for_update env bid db = Inr (b, db)" "b \<in> set (db_bookings db)" "f b db = Inr (y, d)"
  using assms by (elim and_then_InrE) (metis find_for_update_Inr(1,2))

lemma get_thenE:
  assumes "and_then (get_booking env bid) f db = Inr (y, d)"
  obtains b where "b \<in> set (db_bookings db)" "f b db = Inr (y, d)"
  using assms by (elim and_then_InrE) (metis get_booking_Inr(1,2))

lemma readiness_thenE:
  assumes "and_then (readiness_facts_of env b) f db = Inr (y, d)"
  obtains x where "f x db = Inr (y, d)"
  using assms by (elim and_then_InrE) (metis readiness_reads)

lemma capacity_ok_rederive:
  assumes "capacity_ok db" "b \<in> set (db_bookings db)" "rederive env b fs db = Inr ((b', evs), db')"
  shows "capacity_ok db'" "b' \<in> set (db_bookings db')"
proof -
  have "db' = db \<and> b' = b \<or> (\<exists>inp f. in_facts inp = no_facts \<and> svc_apply env b inp (Some f) db = Inr ((b', evs), db'))"
    using assms(3)
    by (fastforce simp: rederive_def Let_def split: if_splits option.splits elim!: and_then_InrE dest!: readiness_reads)
  then show "capacity_ok db'" "b' \<in> set (db_bookings db')" using capacity_ok_apply [OF assms(1,2)] assms by blast+
qed

lemma capacity_ok_transition:
  assumes "capacity_ok db" "svc_transition env bid rq db = Inr (r, db')"
  shows "capacity_ok db'"
  using assms(2) unfolding svc_transition_def
proof (elim find_thenE and_then_InrE)
  fix b x y db1 db2
  assume b: "b \<in> set (db_bookings db)"
    and a: "svc_apply env b (request_input env rq) None db = Inr (x, db1)"
    and d: "(case x of (b, evs) \<Rightarrow> and_then (rederive env b None) (\<lambda>(b, evs'). ret (b, evs @ evs'))) db1 = Inr (r, db')"
  obtain b1 evs1 where x: "x = (b1, evs1)" by (cases x)
  have nf: "in_facts (request_input env rq) = no_facts" by (simp add: request_input_def)
  have "\<exists>b2 evs2. rederive env b1 None db1 = Inr ((b2, evs2), db')"
    using d by (auto simp: x elim!: and_then_InrE)
  then show ?thesis using capacity_ok_rederive(1) capacity_ok_apply [OF assms(1) b nf a [unfolded x]] by blast
qed

lemma capacity_ok_recompute:
  assumes "capacity_ok db" "svc_recompute env bid db = Inr ((b', evs), db')"
  shows "capacity_ok db'"
  using assms(2) unfolding svc_recompute_def
  by (rule find_thenE) (rule capacity_ok_rederive(1) [OF assms(1)])

lemma capacity_ok_expire:
  assumes "capacity_ok db" "expire_hold env task bid db = Inr (r, db')"
  shows "capacity_ok db'"
  using assms(2) unfolding expire_hold_def Let_def
proof (rule find_thenE)
  fix b
  let ?inp = "\<lparr>in_to = StatusDraft, in_actor = ActorSystem, in_reason = ''hold_expired'', in_hold = None,
    in_now = e_now (system_env env), in_facts = no_facts\<rparr>"
  assume b: "b \<in> set (db_bookings db)"
    and h: "(case b_hold b of None \<Rightarrow> ret (False, [])
        | Some h \<Rightarrow> if b_status b \<noteq> StatusOptionHold \<or> before (e_now (system_env env)) h then ret (False, [])
            else and_then (svc_apply (system_env env) b ?inp None)
              (\<lambda>(b', evs). case task b' h of None \<Rightarrow> ret (True, evs) | Some e \<Rightarrow> fail e)) db = Inr (r, db')"
  then have "db' = db \<or> (\<exists>b' evs. svc_apply (system_env env) b ?inp None db = Inr ((b', evs), db'))"
    by (auto elim!: and_then_InrE split: option.splits if_splits)
  then show ?thesis using capacity_ok_apply(1) [OF assms(1) b, of ?inp] assms(1) by auto
qed

lemma capacity_ok_travelled:
  assumes "capacity_ok db" "mark_travelled env bid db = Inr (r, db')"
  shows "capacity_ok db'"
  using assms(2) unfolding mark_travelled_def Let_def
proof (rule find_thenE)
  fix b
  let ?inp = "\<lparr>in_to = StatusTravelled, in_actor = ActorSystem, in_reason = ''departed'', in_hold = None,
    in_now = e_now (system_env env), in_facts = no_facts\<rparr>"
  let ?cont = "\<lambda>facts db. case svc_apply (system_env env) b ?inp (Some facts) db of
      Inl e \<Rightarrow> if failed_guards e = [''departure_not_reached''] then Inr ((False, []), db) else Inl e
    | Inr ((b', evs), db') \<Rightarrow> Inr ((True, evs), db')"
  assume b: "b \<in> set (db_bookings db)"
    and h: "(if \<not> is_confirmed_family (b_status b) then ret (False, [])
       else and_then (readiness_facts_of (system_env env) b) ?cont) db = Inr (r, db')"
  then have "db' = db \<or> (\<exists>fs b' evs. svc_apply (system_env env) b ?inp (Some fs) db = Inr ((b', evs), db'))"
    by (auto elim!: readiness_thenE split: if_splits sum.splits)
  then show ?thesis using capacity_ok_apply(1) [OF assms(1) b, of ?inp] assms(1) by auto
qed

text \<open>A row rewritten without touching key, status or departure, its seats only when it takes none.\<close>

lemma capacity_ok_rewrite:
  assumes ok: "capacity_ok db" and b: "b \<in> set (db_bookings db)"
    and k: "b_id b' = b_id b" "b_departure b' = b_departure b" "b_status b' = b_status b" "pax_column (b_pax b')"
    and s: "consumes_seat (b_status b) \<Longrightarrow> b_pax b' = b_pax b"
  shows "capacity_ok (db\<lparr>db_bookings := map (\<lambda>r. if r = b then b' else r) (db_bookings db)\<rparr>)"
proof -
  have "distinct (map b_id (db_bookings db))" using ok by (simp add: capacity_ok_def)
  from count_replace [OF this b] have "count_confirmed_pax (map (\<lambda>r. if r = b then b' else r) (db_bookings db)) dep
      = count_confirmed_pax (db_bookings db) dep" for dep
    using k s by (simp add: seats_def)
  moreover have "map b_id (map (\<lambda>r. if r = b then b' else r) (db_bookings db)) = map b_id (db_bookings db)"
    using k by simp
  ultimately show ?thesis using ok k(4) by (auto simp: capacity_ok_def simp del: map_map)
qed

lemma capacity_ok_update:
  assumes ok: "capacity_ok db" and u: "svc_update env bid inp cd db = Inr (b', db')"
  shows "capacity_ok db'"
proof -
  from u obtain b lines db1 db2 where
    b: "b \<in> set (db_bookings db)" and a: "apply_update b inp lines (e_now env) = Inr b'" and
    w: "update_booking env b' db = Inr ((), db1)" and r1: "same_capacity db1 db2" and r2: "same_capacity db2 db'"
    unfolding svc_update_def
    by (elim get_thenE) (auto elim!: and_then_InrE lift_result_InrE split: if_splits dest!: record_audit_same)
  note au = apply_update_Inr [OF a]
  have "b_id b' = b_id b" "b_departure b' = b_departure b" using a
    by (auto simp: apply_update_def apply_totals_def Let_def split: if_splits option.splits sum.splits)
  moreover have px: "pax_column (b_pax b')"
    and w': "scoped_exec env (\<lambda>r. b_id r = b_id b \<and> True) (update_row b') db = Inr ((), db1)"
    using w \<open>b_id b' = b_id b\<close> by (auto simp: update_booking_def elim!: and_then_InrE split: if_splits)
  ultimately have "capacity_ok db1"
    using scoped_exec_Inr(1) [OF w' _ b] ok au(1)
      capacity_ok_rewrite [OF ok b, of "update_row b' b"]
    by (auto simp: capacity_ok_def [of db] update_row_def editable_def consumes_seat_def)
  then show ?thesis by (meson capacity_ok_same r1 r2)
qed

lemma capacity_ok_extend:
  assumes ok: "capacity_ok db" and u: "svc_extend_hold env bid until db = Inr (r, db')"
  shows "capacity_ok db'"
proof -
  from u obtain b prev b' db1 where
    b: "b \<in> set (db_bookings db)" and e: "extend_hold b until (e_now env) = Inr (prev, b')" and
    w: "save_hold env b' db = Inr ((), db1)" and s: "same_capacity db1 db'"
    unfolding svc_extend_hold_def
    by (elim find_thenE) (auto elim!: and_then_InrE lift_result_InrE dest!: record_audit_same)
  have "b_id b' = b_id b" using extend_hold_Inr(3) [OF e] by simp
  with w have "scoped_exec env (\<lambda>r. b_id r = b_id b \<and> b_status r = StatusOptionHold)
      (\<lambda>r. r\<lparr>b_hold := b_hold b', b_updated := b_updated b'\<rparr>) db = Inr ((), db1)" by (simp add: save_hold_def)
  from scoped_exec_Inr(1) [OF this _ b] have "capacity_ok db1"
    using ok b capacity_ok_rewrite [OF ok b, of "b\<lparr>b_hold := b_hold b', b_updated := b_updated b'\<rparr>"]
    by (auto simp: capacity_ok_def [of db])
  then show ?thesis by (rule capacity_ok_same [OF s])
qed

section \<open>Runs of the service\<close>

text \<open>One step is one transaction of the service, by any caller at any time, committed or rolled back.\<close>

inductive service_step :: "booking_db \<Rightarrow> booking_db \<Rightarrow> bool" where
  "within_transaction (svc_transition env bid rq) db = (r, db') \<Longrightarrow> service_step db db'"
| "within_transaction (svc_recompute env bid) db = (r, db') \<Longrightarrow> service_step db db'"
| "within_transaction (expire_hold env task bid) db = (r', db') \<Longrightarrow> service_step db db'"
| "within_transaction (mark_travelled env bid) db = (r', db') \<Longrightarrow> service_step db db'"
| "within_transaction (svc_update env bid inp cd) db = (r'', db') \<Longrightarrow> service_step db db'"
| "within_transaction (svc_extend_hold env bid until) db = (ru, db') \<Longrightarrow> service_step db db'"

lemma service_step_capacity: "service_step db db' \<Longrightarrow> capacity_ok db \<Longrightarrow> capacity_ok db'"
proof (induction rule: service_step.induct)
  case (1 env bid rq db r db')
  show ?case by (rule transaction_keeps [where P = capacity_ok, OF 1]) (auto intro: capacity_ok_transition [OF 1(2)])
next
  case (2 env bid db r db')
  show ?case by (rule transaction_keeps [where P = capacity_ok, OF 2]) (auto intro: capacity_ok_recompute [OF 2(2)])
next
  case (3 env task bid db r' db')
  show ?case by (rule transaction_keeps [where P = capacity_ok, OF 3]) (auto intro: capacity_ok_expire [OF 3(2)])
next
  case (4 env bid db r' db')
  show ?case by (rule transaction_keeps [where P = capacity_ok, OF 4]) (auto intro: capacity_ok_travelled [OF 4(2)])
next
  case (5 env bid inp cd db r'' db')
  show ?case by (rule transaction_keeps [where P = capacity_ok, OF 5]) (auto intro: capacity_ok_update [OF 5(2)])
next
  case (6 env bid until db ru db')
  show ?case by (rule transaction_keeps [where P = capacity_ok, OF 6]) (auto intro: capacity_ok_extend [OF 6(2)])
qed

interpretation seats_inv: invariant_machine capacity_ok service_step capacity_ok
  by unfold_locales (auto intro: service_step_capacity)

definition ex_second :: "booking_db \<Rightarrow> (uuid \<times> bool \<times> int) list \<times> error option" where
  "ex_second db = (map (\<lambda>d. (dp_id d, dp_allow_oversell d, dp_capacity_total d)) (db_departures db),
     case fst (within_transaction (svc_transition ex_env 12 ex_request) db) of Inl e \<Rightarrow> Some e | Inr _ \<Rightarrow> None)"

lemma ex_two_runs:
  "map_prod (map_sum id (\<lambda>_. ())) ex_second (within_transaction (svc_transition ex_env 11 ex_request) ex_db)
     = (Inr (), [(9, False, 3)], Some (guard_failed [GuardNoCapacity]))"
  by code_simp

text \<open>
  C1. No overselling. Whatever callers do, in whatever order (transitions, overrides, recomputations,
  hold expiry and travel sweeps, edits of drafts, option extensions, each one a transaction that
  commits or rolls back), a departure that does not allow overselling never has more seats taken by
  option holds, confirmed, travelled and completed bookings than its capacity.
\<close>

theorem no_oversell:
  assumes "capacity_ok db" "service_step\<^sup>*\<^sup>* db db'" "d \<in> set (db_departures db')" "\<not> dp_allow_oversell d"
  shows "count_confirmed_pax (db_bookings db') (dp_id d) \<le> dp_capacity_total d"
  using seats_inv.run_good [OF assms(2,1)] assms(3,4) by (simp add: capacity_ok_def)

theorem no_oversell_witness:
  "fst (within_transaction (svc_transition ex_env 12 ex_request) (snd (within_transaction (svc_transition ex_env 11 ex_request) ex_db)))
     = Inl (guard_failed [GuardNoCapacity])
   \<and> count_confirmed_pax (db_bookings (snd (within_transaction (svc_transition ex_env 11 ex_request) ex_db))) 9 \<le> 3"
proof -
  define db' where "db' = snd (within_transaction (svc_transition ex_env 11 ex_request) ex_db)"
  have ok: "capacity_ok ex_db"
    by (simp add: capacity_ok_def ex_db_def ex_booking_def pax_column_def count_confirmed_pax_def seat_statuses_def)
  have st: "service_step\<^sup>*\<^sup>* ex_db db'"
    unfolding db'_def by (intro r_into_rtranclp service_step.intros(1)) (rule prod.collapse [symmetric])
  have "map (\<lambda>d. (dp_id d, dp_allow_oversell d, dp_capacity_total d)) (db_departures db') = [(9, False, 3)]"
    using arg_cong [OF ex_two_runs, of snd] by (simp add: ex_second_def db'_def)
  then obtain d where d: "d \<in> set (db_departures db')" "\<not> dp_allow_oversell d" "dp_id d = 9" "dp_capacity_total d = 3"
    by (cases "db_departures db'") auto
  have "count_confirmed_pax (db_bookings db') 9 \<le> 3" using no_oversell [OF ok st d(1,2)] d by simp
  moreover have "fst (within_transaction (svc_transition ex_env 12 ex_request) db') = Inl (guard_failed [GuardNoCapacity])"
    using arg_cong [OF ex_two_runs, of snd] by (auto simp: ex_second_def db'_def split: sum.splits)
  ultimately show ?thesis unfolding db'_def by simp
qed

section \<open>Settling on the derived status\<close>

lemma visible_same:
  assumes "visible_booking env = Inr vis" "b_branch b' = b_branch b" "b_owner b' = b_owner b"
  shows "vis b' = vis b"
  using assms by (auto simp: visible_booking_def booking_row_def split: sum.splits)

lemma find_for_update_vis:
  assumes "distinct (map b_id (db_bookings db))"
  shows "find_for_update env bid db = Inr (b, db) \<longleftrightarrow>
     (\<exists>vis. visible_booking env = Inr vis \<and> b \<in> set (db_bookings db) \<and> b_id b = bid \<and> vis b)"
proof -
  have u: "x = y" if "x \<in> set (db_bookings db)" "y \<in> set (db_bookings db)" "b_id x = b_id y" for x y
    using id_unique [OF assms] that by blast
  have "find P (db_bookings db) = Some b \<longleftrightarrow> b \<in> set (db_bookings db) \<and> P b"
    if "\<And>x y. x \<in> set (db_bookings db) \<Longrightarrow> y \<in> set (db_bookings db) \<Longrightarrow> P x \<Longrightarrow> P y \<Longrightarrow> x = y" for P
  proof -
    have "\<exists>x. find P (db_bookings db) = Some x" if "b \<in> set (db_bookings db)" "P b"
      using that find_None_iff [of P "db_bookings db"] by (cases "find P (db_bookings db)") auto
    moreover have "x \<in> set (db_bookings db) \<and> P x" if "find P (db_bookings db) = Some x" for x
      using that by (auto simp: find_Some_iff)
    ultimately show ?thesis using that by blast
  qed
  note f = this
  show ?thesis
  proof (cases "visible_booking env")
    case (Inr vis)
    have "find (\<lambda>b. b_id b = bid \<and> vis b) (db_bookings db) = Some b
        \<longleftrightarrow> b \<in> set (db_bookings db) \<and> b_id b = bid \<and> vis b"
      by (rule f) (use u in blast)
    with Inr show ?thesis by (auto simp: find_for_update_def split: option.splits)
  qed (simp add: find_for_update_def)
qed

text \<open>The tables the readiness facts are read from.\<close>

definition same_readiness :: "booking_db \<Rightarrow> booking_db \<Rightarrow> bool" where
  "same_readiness db db' \<longleftrightarrow> db_participants db' = db_participants db \<and> db_checklist db' = db_checklist db
     \<and> db_overrides db' = db_overrides db"

lemma readiness_same:
  assumes "same_readiness db db'" "b_id b' = b_id b" "b_pax b' = b_pax b" "readiness_facts_of env b db = Inr (f, db)"
  shows "readiness_facts_of env b' db' = Inr (f, db')"
proof -
  define dr where "dr = (case e_docs env of None \<Rightarrow> Inr [] | Some f \<Rightarrow> f (b_id b))"
  show ?thesis
    using assms(4,1) unfolding readiness_facts_of_def same_readiness_def Let_def assms(2,3) dr_def [symmetric]
    by (cases dr) (auto simp: and_then_def)
qed

lemma svc_apply_readiness_tables:
  assumes "svc_apply env b inp rd db = Inr ((b', evs), db')" "in_facts inp = no_facts"
  shows "same_readiness db db'"
proof -
  have sv: "save_status env b' d = Inr ((), d') \<Longrightarrow> same_readiness d d'" for b' d d'
    by (auto simp: save_status_def scoped_exec_def same_readiness_def elim!: and_then_InrE lift_result_InrE split: if_splits)
  have sy: "sync_capacity env b' seat d = Inr (n, d') \<Longrightarrow> same_readiness d d'" for b' seat d n d'
    by (auto simp: sync_capacity_def update_capacity_sold_def same_readiness_def elim!: and_then_InrE lift_result_InrE
        split: if_splits)
  have rc: "record_transition env b' res x y d = Inr ((), d') \<Longrightarrow> same_readiness d d'" for b' res x y d d'
    by (auto simp: record_transition_def record_audit_def same_readiness_def split: option.splits)
  have tr: "same_readiness a b \<Longrightarrow> same_readiness b c \<Longrightarrow> same_readiness a c" for a b c
    by (simp add: same_readiness_def)
  obtain ms d1 f1 d2 f d3 rb d4 d5 n d6 where
    "seat_facts b (in_to inp) db = Inr (ms, d1)" "gather_departure env b inp (fst ms) (snd ms) d1 = Inr (f1, d2)"
    "gather_readiness env b inp rd f1 d2 = Inr (f, d3)" "d4 = d3" "save_status env (snd rb) d4 = Inr ((), d5)"
    "sync_capacity env (snd rb) (seat_change_for (b_status b) (in_to inp)) d5 = Inr (n, d6)"
    "record_transition env (snd rb) (fst rb) (snd ms) n d6 = Inr ((), db')"
    using assms(1) by (auto simp: svc_apply_def split: if_splits elim!: and_then_InrE lift_result_InrE)
  moreover have "d3 = db" using calculation(1-3) seat_facts_Inr(1) gather_departure_Inr(1) [OF _ assms(2)]
      gather_readiness_Inr(1) by (metis prod.collapse)
  ultimately show ?thesis using sv sy rc tr by metis
qed

lemma derived_moved:
  assumes "in_actor i = ActorSystem" "is_confirmed_family (in_to i)"
  shows "derived_status (moved b i) ok = derived_status b ok"
  using assms by (simp add: derived_status_def) (simp add: moved_def)

lemma svc_apply_rows:
  assumes "svc_apply env b inp rd db = Inr ((b', evs), db')" "in_facts inp = no_facts"
    and "distinct (map b_id (db_bookings db))" "b \<in> set (db_bookings db)"
  shows "distinct (map b_id (db_bookings db'))" "b' \<in> set (db_bookings db')"
    "\<exists>f. b' = moved b (inp\<lparr>in_facts := f\<rparr>)"
proof -
  obtain f res db1 where
    mv: "b' = moved b (inp\<lparr>in_facts := f\<rparr>)" and sv: "save_status env b' db = Inr ((), db1)" and
    same: "same_capacity db1 db'"
    by (rule svc_apply_Inr [OF assms(1,2)]) blast
  have db1: "db1 = db\<lparr>db_bookings := map (\<lambda>r. if r = b then b' else r) (db_bookings db)\<rparr>"
    using save_status_Inr [OF sv [unfolded mv] assms(3,4)] mv by simp
  have bs: "db_bookings db' = map (\<lambda>r. if r = b then b' else r) (db_bookings db)"
    using same by (simp add: same_capacity_def db1)
  have "map b_id (map (\<lambda>r. if r = b then b' else r) (db_bookings db)) = map b_id (db_bookings db)"
    using mv by simp
  then show "distinct (map b_id (db_bookings db'))" unfolding bs using assms(3) by (simp only:)
  show "b' \<in> set (db_bookings db')" using assms(4) by (auto simp: bs)
  show "\<exists>f. b' = moved b (inp\<lparr>in_facts := f\<rparr>)" using mv by blast
qed

text \<open>
  \<open>Recompute\<close> settles: running it again on the store it left behind succeeds, changes nothing and
  publishes no event.
\<close>

theorem recompute_idempotent:
  assumes dist: "distinct (map b_id (db_bookings db))"
    and run: "svc_recompute env bid db = Inr ((b', evs), db')"
  shows "svc_recompute env bid db' = Inr ((b', []), db')"
proof -
  obtain b where fb: "find_for_update env bid db = Inr (b, db)" and b: "b \<in> set (db_bookings db)"
    and rd: "rederive env b None db = Inr ((b', evs), db')"
    by (rule find_thenE [OF run [unfolded svc_recompute_def]])
  show ?thesis
  proof (cases "evs = [] \<and> db' = db")
    case True
    with run show ?thesis by simp
  next
    case False
    let ?inp = "\<lambda>f. \<lparr>in_to = derived_status b (readiness_ok f), in_actor = ActorSystem, in_reason = ''derived'',
        in_hold = None, in_now = e_now env, in_facts = no_facts\<rparr>"
    from rd False obtain f where fam: "is_confirmed_family (b_status b)"
      and f: "readiness_facts_of env b db = Inr (f, db)" "svc_apply env b (?inp f) (Some f) db = Inr ((b', evs), db')"
      using readiness_reads by (fastforce simp: rederive_def Let_def split: if_splits elim!: and_then_InrE)
    note rows = svc_apply_rows [OF f(2) _ dist b, simplified]
    then obtain g where b': "b' = moved b ((?inp f)\<lparr>in_facts := g\<rparr>)" by auto
    have keep: "b_branch b' = b_branch b" "b_owner b' = b_owner b" "b_id b' = b_id b" "b_pax b' = b_pax b"
      using b' by simp_all
    have "find_for_update env bid db' = Inr (b', db')"
    proof -
      obtain vis where v: "visible_booking env = Inr vis" "b_id b = bid" "vis b"
        using fb unfolding find_for_update_vis [OF dist] by blast
      then have "vis b'" using visible_same [OF v(1) keep(1,2)] by simp
      with v rows(2) keep(3) show ?thesis unfolding find_for_update_vis [OF rows(1)] by auto
    qed
    moreover have "readiness_facts_of env b' db' = Inr (f, db')"
      by (rule readiness_same [OF svc_apply_readiness_tables [OF f(2)] keep(3,4) f(1)]) simp
    moreover have "derived_status b' (readiness_ok f) = b_status b'"
      using derived_in_family by (simp add: b' derived_moved)
    ultimately show ?thesis by (simp add: svc_recompute_def rederive_def)
  qed
qed

theorem recompute_idempotent_witness:
  "\<exists>db b' evs db'. svc_recompute ex_env 11 db = Inr ((b', evs), db') \<and> evs \<noteq> []
     \<and> svc_recompute ex_env 11 db' = Inr ((b', []), db')"
proof -
  define db where "db = ex_db\<lparr>db_bookings := [(ex_booking 11)\<lparr>b_status := StatusConfirmed\<rparr>]\<rparr>"
  define r where "r = projr (svc_recompute ex_env 11 db)"
  obtain b' evs db' where r: "r = ((b', evs), db')" by (metis prod.collapse)
  have "svc_recompute ex_env 11 db = Inr (projr (svc_recompute ex_env 11 db))" "snd (fst (projr (svc_recompute ex_env 11 db))) \<noteq> []"
    unfolding db_def by code_simp+
  then have run: "svc_recompute ex_env 11 db = Inr ((b', evs), db')" and ev: "evs \<noteq> []" by (simp_all add: r_def [symmetric] r)
  have "distinct (map b_id (db_bookings db))" by (simp add: db_def)
  from recompute_idempotent [OF this run] run ev show ?thesis by blast
qed

lemma record_audit_appends:
  "record_audit env a db = Inr (u, db') \<Longrightarrow> e_audit env = Some g \<Longrightarrow>
     g a = None \<and> db_audit db' = db_audit db @ [a]"
  by (auto simp: record_audit_def split: option.splits)

lemma svc_apply_audits:
  assumes "svc_apply env b inp rd db = Inr ((b', evs), db')" "in_facts inp = no_facts" "e_audit env = Some g"
  shows "\<exists>f res sold. transition b (inp\<lparr>in_facts := f\<rparr>) = Inr (res, b')
      \<and> db_audit db' = db_audit db @ [transition_entry b' res sold] \<and> g (transition_entry b' res sold) = None"
proof -
  obtain ms d1 f1 d2 f d3 res d5 n d6 where
    w: "seat_facts b (in_to inp) db = Inr (ms, d1)" "gather_departure env b inp (fst ms) (snd ms) d1 = Inr (f1, d2)"
    "gather_readiness env b inp rd f1 d2 = Inr (f, d3)" and tr: "transition b (inp\<lparr>in_facts := f\<rparr>) = Inr (res, b')"
    and sv: "save_status env b' d3 = Inr ((), d5)"
    and sy: "sync_capacity env b' (seat_change_for (b_status b) (in_to inp)) d5 = Inr (n, d6)"
    and rc: "record_transition env b' res (snd ms) n d6 = Inr ((), db')"
    using assms(1) by (auto simp: svc_apply_def split: if_splits elim!: and_then_InrE lift_result_InrE)
  have d3: "d3 = db" using w seat_facts_Inr(1) gather_departure_Inr(1) [OF _ assms(2)]
      gather_readiness_Inr(1) by (metis prod.collapse)
  have "db_audit d5 = db_audit d3" using sv
    by (auto simp: save_status_def scoped_exec_def elim!: and_then_InrE lift_result_InrE split: if_splits)
  moreover have "db_audit d6 = db_audit d5" using sy
    by (auto simp: sync_capacity_def update_capacity_sold_def elim!: and_then_InrE lift_result_InrE split: if_splits)
  ultimately show ?thesis
    using tr d3 record_audit_appends [OF rc [unfolded record_transition_def] assms(3)]
    by (intro exI [of _ f] exI [of _ res] exI conjI) (assumption | simp)+
qed

lemma rederive_audit:
  assumes "rederive env b fs db = Inr ((b', evs), db')" "e_audit env = Some g"
  shows "\<exists>es. db_audit db' = db_audit db @ es"
proof -
  have "db' = db \<or> (\<exists>inp f. in_facts inp = no_facts \<and> svc_apply env b inp (Some f) db = Inr ((b', evs), db'))"
    using assms(1)
    by (fastforce simp: rederive_def Let_def split: if_splits option.splits elim!: and_then_InrE dest!: readiness_reads)
  then show ?thesis using svc_apply_audits [OF _ _ assms(2)] by fastforce
qed

text \<open>
  C18. Status changes are audited, fail closed. When an audit recorder is configured, a manual transition
  that commits has appended, before anything else it logs, an entry for this booking with the status it
  left and the requested one, marked as an override with the guards it lifted when it was one; when the
  recorder refuses every entry, no transition commits and the store is unchanged.
\<close>

theorem transition_audited:
  assumes "e_audit env = Some g"
  shows "case within_transaction (svc_transition env bid rq) db of
      (Inl e, db') \<Rightarrow> db' = db
    | (Inr (b', evs), db') \<Rightarrow> \<exists>b a es. b \<in> set (db_bookings db) \<and> b_id b = bid
        \<and> db_audit db' = db_audit db @ a # es \<and> g a = None \<and> au_id a = bid
        \<and> au_from a = Some (b_status b) \<and> au_to a = Some (tr_status rq)
        \<and> (if tr_override rq then au_action a = ''booking.status_overridden'' \<and> list_all bypassable (au_bypassed a)
           else au_action a = ''booking.status_changed'' \<and> au_bypassed a = [])"
proof (cases "svc_transition env bid rq db")
  case (Inr r)
  obtain b' evs db' where r: "r = ((b', evs), db')" by (metis prod.collapse)
  obtain b b1 evs1 db1 evs2 where
    b: "b \<in> set (db_bookings db)" "b_id b = bid" and
    a: "svc_apply env b (request_input env rq) None db = Inr ((b1, evs1), db1)" and
    d: "rederive env b1 None db1 = Inr ((b', evs2), db')"
    using Inr unfolding r svc_transition_def
    by (elim find_thenE) (auto elim!: and_then_InrE dest: find_for_update_Inr)
  obtain f res sold where t: "transition b ((request_input env rq)\<lparr>in_facts := f\<rparr>) = Inr (res, b1)"
    "db_audit db1 = db_audit db @ [transition_entry b1 res sold]" "g (transition_entry b1 res sold) = None"
    using svc_apply_audits [OF a _ assms] by (auto simp: request_input_def)
  obtain es where "db_audit db' = db_audit db1 @ es" using rederive_audit [OF d assms] by blast
  then have log: "db_audit db' = db_audit db @ transition_entry b1 res sold # es" using t(2) by simp
  have "list_all bypassable (res_bypassed res)"
    using t(1) transition_lifted(2) [OF t(1)] by (auto simp: transition_Inr_iff list_all_iff)
  then have "let e = transition_entry b1 res sold in au_id e = bid \<and> au_from e = Some (b_status b)
      \<and> au_to e = Some (tr_status rq)
      \<and> (if tr_override rq then au_action e = ''booking.status_overridden'' \<and> list_all bypassable (au_bypassed e)
         else au_action e = ''booking.status_changed'' \<and> au_bypassed e = [])"
    using t(1) b(2) by (auto simp: transition_entry_def transition_Inr_iff request_input_def Let_def)
  then show ?thesis using Inr r b log t(3) by (auto simp: within_transaction_def Let_def intro!: exI)
qed (simp add: within_transaction_def)

theorem transition_audited_witness:
  "\<exists>b' evs db' a es. within_transaction (svc_transition ex_env 11 ex_request) ex_db = (Inr (b', evs), db')
     \<and> db_audit db' = a # es \<and> au_action a = ''booking.status_changed'' \<and> au_from a = Some StatusDraft"
proof -
  have h: "e_audit ex_env = Some (\<lambda>_. None)" by (simp add: ex_env_def)
  let ?r = "within_transaction (svc_transition ex_env 11 ex_request) ex_db"
  have r: "\<exists>x. fst ?r = Inr x" 
    using arg_cong [OF ex_two_runs, of fst] by (cases "fst ?r") auto
  then obtain b' evs db' where e: "?r = (Inr (b', evs), db')" by (metis prod.collapse)
  have "\<forall>b \<in> set (db_bookings ex_db). b_status b = StatusDraft" by (simp add: ex_db_def ex_booking_def)
  moreover have "\<not> tr_override ex_request" "db_audit ex_db = []" by (simp_all add: ex_request_def ex_db_def)
  ultimately show ?thesis using transition_audited [OF h, where bid = 11 and rq = ex_request and db = ex_db] e by auto
qed

end
