(* ===== verification/Payment_Service.thy ===== *)
theory Payment_Service
  imports Payment Fx_Service Booking_Service
begin

text \<open>
  \<^verbatim>\<open>internal/app/payment\<close> (\<^verbatim>\<open>service.go\<close>, \<^verbatim>\<open>promise.go\<close>, \<^verbatim>\<open>audit.go\<close>) over the tables of
  \<^verbatim>\<open>adapter/postgres/payment\<close>. The store holds the tables of the booking service, which the payment service
  updates through the booking repository, and its own: payments, schedules, promises, finance settings,
  the reporting snapshots of bookings, the audit log and the outbox.

  An operation is a unit of work. The look-ups by idempotency key that precede a transaction are part of
  it; operations that fail roll back. Parameters (\<open>pay_env\<close>): the environment of the booking service
  (scope, clock, time zone), the rates the converter reads (\<open>None\<close> without a converter), the drawn
  identifier, the audit recorder (optional, may fail), whether an outbox is configured, and the task port
  of promises. Database failures other than refused constraints are not modelled.
\<close>

section \<open>Store\<close>

datatype pay_audit =
  PaymentEntry string uuid "payment option" payment uuid
    "((int \<times> int \<times> int \<times> string) \<times> (int \<times> int \<times> int \<times> string)) option" "payment option"
| ScheduleEntry string uuid "schedule option" schedule uuid
| SettingsEntry uuid uuid "string option" string
| PromiseEntry string uuid "promise option" promise

record reversed_payload =
  rp_payment :: uuid
  rp_reversal :: uuid
  rp_booking :: uuid
  rp_branch :: uuid
  rp_amount :: int
  rp_currency :: string

record payment_db =
  pd_core :: booking_db
  pd_payments :: "payment list"
  pd_schedules :: "schedule list"
  pd_promises :: "promise list"
  pd_settings :: "(uuid \<times> string) list"
  pd_snapshots :: "(uuid \<times> reporting_snapshot) list"
  pd_audit :: "pay_audit list"
  pd_outbox :: "reversed_payload list"

record pay_env =
  pe_booking :: booking_env
  pe_rates :: "rate list option"
  pe_fresh :: uuid
  pe_audit :: "(pay_audit \<Rightarrow> error option) option"
  pe_outbox :: bool

definition pay_today :: "pay_env \<Rightarrow> go_time" where
  "pay_today env = date_of (in_loc (e_now (pe_booking env)) (e_loc (pe_booking env)))"

definition pay_now :: "pay_env \<Rightarrow> go_time" where
  "pay_now env = utc (e_now (pe_booking env))"

text \<open>Work of the booking repository, run on the shared tables.\<close>

definition on_bookings :: "(booking_db, 'a) uow \<Rightarrow> (payment_db, 'a) uow" where
  "on_bookings m = (\<lambda>db. case m (pd_core db) of Inl e \<Rightarrow> Inl e | Inr (x, c) \<Rightarrow> Inr (x, db\<lparr>pd_core := c\<rparr>))"

definition or_not_found :: "string \<Rightarrow> (payment_db, 'a) uow \<Rightarrow> (payment_db, 'a) uow" where
  "or_not_found entity m = (\<lambda>db. case m db of Inl _ \<Rightarrow> Inl (new_not_found entity) | Inr r \<Rightarrow> Inr r)"

section \<open>Repository\<close>

definition err_no_rows :: error where "err_no_rows = Plain ''no rows in result set''"

definition find_by_id :: "pay_env \<Rightarrow> uuid \<Rightarrow> (payment_db, booking) uow" where
  "find_by_id env bid =
     and_then (lift_result (visible_booking (pe_booking env))) (\<lambda>vis.
     and_then (reading (\<lambda>db. db_bookings (pd_core db))) (\<lambda>bs.
       case find (\<lambda>b. b_id b = bid \<and> vis b) bs of None \<Rightarrow> fail err_no_rows | Some b \<Rightarrow> ret b))"

text \<open>The predicate \<open>EXISTS (SELECT 1 FROM bookings b WHERE b.id = ...)\<close> with the caller's scope.\<close>

definition booking_visible :: "pay_env \<Rightarrow> (payment_db, uuid \<Rightarrow> bool) uow" where
  "booking_visible env =
     and_then (lift_result (visible_booking (pe_booking env))) (\<lambda>vis.
       reading (\<lambda>db bid. list_ex (\<lambda>b. b_id b = bid \<and> vis b) (db_bookings (pd_core db))))"

definition require_booking :: "pay_env \<Rightarrow> uuid \<Rightarrow> (payment_db, unit) uow" where
  "require_booking env bid =
     and_then (booking_visible env) (\<lambda>vis. if vis bid then ret () else fail (new_not_found ''booking''))"

text \<open>The constraints of the table: keys are unique, amounts are not zero, event and status are known.\<close>

definition payment_columns :: "payment \<Rightarrow> bool" where
  "payment_columns p \<longleftrightarrow> p_amount p \<noteq> 0
     \<and> p_event p \<in> {EventCharge, EventReverse, EventAdjust, EventRefund}
     \<and> p_status p \<in> {StatusUnverified, StatusVerified, StatusPendingApproval, StatusApproved, StatusRejected}"

definition insert_payment :: "pay_env \<Rightarrow> payment \<Rightarrow> (payment_db, payment) uow" where
  "insert_payment env p =
     and_then (require_booking env (p_booking p)) (\<lambda>_.
     let p = (if p_event p = OtherEvent [] then p\<lparr>p_event := EventCharge\<rparr> else p);
         p = (if p_status p = OtherPayStatus [] then p\<lparr>p_status := StatusUnverified\<rparr> else p);
         p = (if is_zero (p_received p) then p\<lparr>p_received := p_created p\<rparr> else p)
     in and_then (reading pd_payments) (\<lambda>ps.
          if list_ex (\<lambda>q. p_id q = p_id p \<or> p_key q = p_key p) ps then fail (Plain ''duplicate key value'')
          else if \<not> payment_columns p then fail (Plain ''check constraint violated'')
          else and_then (writing (\<lambda>db. db\<lparr>pd_payments := ps @ [p\<lparr>p_received := date_of (p_received p)\<rparr>]\<rparr>)) (\<lambda>_. ret p)))"

definition with_status :: "payment \<Rightarrow> pay_status \<Rightarrow> uuid option \<Rightarrow> go_time option \<Rightarrow> payment" where
  "with_status p st u t = p\<lparr>p_status := st, p_approved_by := u, p_approved_at := t\<rparr>"

definition update_status :: "pay_env \<Rightarrow> uuid \<Rightarrow> pay_status \<Rightarrow> uuid option \<Rightarrow> go_time option \<Rightarrow> (payment_db, unit) uow" where
  "update_status env pid st by_user at =
     and_then (booking_visible env) (\<lambda>vis.
     and_then (reading pd_payments) (\<lambda>ps.
       let hit = (\<lambda>p. p_id p = pid \<and> vis (p_booking p));
           upd = (\<lambda>p. with_status p st by_user at)
       in case List.map_filter (\<lambda>p. if hit p then ledger_guard p (upd p) else None) ps of
            e # _ \<Rightarrow> fail e
          | [] \<Rightarrow> if list_ex hit ps
                  then writing (\<lambda>db. db\<lparr>pd_payments := map (\<lambda>p. if hit p then upd p else p) ps\<rparr>)
                  else fail (new_not_found ''payment'')))"

definition get_payment :: "pay_env \<Rightarrow> uuid \<Rightarrow> (payment_db, payment option) uow" where
  "get_payment env pid =
     and_then (booking_visible env) (\<lambda>vis.
       reading (\<lambda>db. find (\<lambda>p. p_id p = pid \<and> vis (p_booking p)) (pd_payments db)))"

definition find_by_key :: "pay_env \<Rightarrow> string \<Rightarrow> (payment_db, payment) uow" where
  "find_by_key env key =
     and_then (booking_visible env) (\<lambda>vis.
     and_then (reading (\<lambda>db. find (\<lambda>p. p_key p = key \<and> vis (p_booking p)) (pd_payments db))) (\<lambda>r.
       case r of None \<Rightarrow> fail err_no_rows | Some p \<Rightarrow> ret p))"

definition ledger_sum :: "payment list \<Rightarrow> uuid \<Rightarrow> int" where
  "ledger_sum ps bid = sum_list (map p_amount (filter (\<lambda>p. p_booking p = bid \<and> counts_toward_collected p) ps))"

text \<open>The sum is exact in the database; scanning it into an \<open>int64\<close> fails when it does not fit.\<close>

definition scan_int64 :: "int \<Rightarrow> (payment_db, int) uow" where
  "scan_int64 n = (if fits64 n then ret n else fail (Plain ''cannot scan numeric into int64''))"

definition sum_collected :: "pay_env \<Rightarrow> uuid \<Rightarrow> (payment_db, int) uow" where
  "sum_collected env bid =
     and_then (booking_visible env) (\<lambda>vis.
     and_then (reading (\<lambda>db. if vis bid then ledger_sum (pd_payments db) bid else 0)) scan_int64)"

definition sum_by_status :: "pay_env \<Rightarrow> uuid \<Rightarrow> pay_status \<Rightarrow> (payment_db, int) uow" where
  "sum_by_status env bid st =
     and_then (booking_visible env) (\<lambda>vis.
     and_then (reading (\<lambda>db. if vis bid
         then sum_list (map (\<lambda>p. \<bar>p_amount p\<bar>) (filter (\<lambda>p. p_booking p = bid \<and> p_status p = st) (pd_payments db)))
         else 0)) scan_int64)"

definition get_finance_settings :: "uuid \<Rightarrow> (payment_db, string) uow" where
  "get_finance_settings branch =
     reading (\<lambda>db. case map_of (pd_settings db) branch of None \<Rightarrow> ''SAR'' | Some c \<Rightarrow> c)"

definition upsert_finance_settings :: "uuid \<Rightarrow> string \<Rightarrow> (payment_db, unit) uow" where
  "upsert_finance_settings branch cur =
     writing (\<lambda>db. db\<lparr>pd_settings := (branch, cur) # filter (\<lambda>(b, _). b \<noteq> branch) (pd_settings db)\<rparr>)"

section \<open>Audit\<close>

definition pay_log :: "pay_env \<Rightarrow> pay_audit \<Rightarrow> (payment_db, unit) uow" where
  "pay_log env a =
     (case pe_audit env of
        None \<Rightarrow> ret ()
      | Some f \<Rightarrow> (case f a of Some e \<Rightarrow> fail e | None \<Rightarrow> writing (\<lambda>db. db\<lparr>pd_audit := pd_audit db @ [a]\<rparr>)))"

definition booking_money :: "booking \<Rightarrow> int \<times> int \<times> int \<times> string" where
  "booking_money b = (b_total b, b_collected b, b_balance b, b_currency b)"

definition record_payment ::
  "pay_env \<Rightarrow> uuid \<Rightarrow> string \<Rightarrow> payment \<Rightarrow> booking \<Rightarrow> payment option \<Rightarrow>
     (int \<times> int \<times> int \<times> string) option \<Rightarrow> payment option \<Rightarrow> (payment_db, unit) uow" where
  "record_payment env actor action p b before_p money_before reversed =
     pay_log env (PaymentEntry action actor before_p p (b_branch b)
       (case money_before of None \<Rightarrow> None | Some m \<Rightarrow> Some (m, booking_money b)) reversed)"

section \<open>Ledger operations\<close>

definition reporting_snapshot_of ::
  "pay_env \<Rightarrow> uuid \<Rightarrow> int \<Rightarrow> string \<Rightarrow> go_time \<Rightarrow> (payment_db, reporting_snapshot option) uow" where
  "reporting_snapshot_of env branch amount currency on =
     (case pe_rates env of
        None \<Rightarrow> ret None
      | Some rs \<Rightarrow>
          and_then (get_finance_settings branch) (\<lambda>rep.
            case convert (latest rs) amount currency rep on of
              Inl e \<Rightarrow> if e = err_rate_not_found \<or> e = err_overflow \<or> is_err e ErrValidation then ret None else fail e
            | Inr c \<Rightarrow> ret (Some (new_reporting_snapshot (r_quote (c_rate c)) c))))"

definition recompute_booking :: "pay_env \<Rightarrow> booking \<Rightarrow> (payment_db, booking) uow" where
  "recompute_booking env b =
     and_then (sum_collected env (b_id b)) (\<lambda>s.
     let b' = (recompute_balance (b\<lparr>b_collected := s\<rparr>))\<lparr>b_updated := pay_now env\<rparr>
     in and_then (on_bookings (update_booking (pe_booking env) b')) (\<lambda>_. ret b'))"

text \<open>\<open>if existing, err := FindByIdempotencyKey(...); err == nil \<and> existing \<noteq> nil\<close>.\<close>

definition unless_recorded :: "pay_env \<Rightarrow> string \<Rightarrow> (payment \<Rightarrow> (payment_db, 'a) uow) \<Rightarrow> (payment_db, 'a) uow \<Rightarrow> (payment_db, 'a) uow" where
  "unless_recorded env key found rest =
     (\<lambda>db. case find_by_key env key db of Inr (p, db') \<Rightarrow> found p db' | Inl _ \<Rightarrow> rest db)"

record record_input =
  ri_booking :: uuid
  ri_amount :: int
  ri_currency :: string
  ri_method :: string
  ri_reference :: string
  ri_note :: string
  ri_recorded_by :: uuid
  ri_key :: string
  ri_auto_verify :: bool
  ri_may_approve :: bool
  ri_received :: "go_time option"

definition new_entry ::
  "pay_env \<Rightarrow> uuid \<Rightarrow> int \<Rightarrow> string \<Rightarrow> uuid \<Rightarrow> string \<Rightarrow> event_type \<Rightarrow> pay_status \<Rightarrow> string \<Rightarrow> go_time
     \<Rightarrow> reporting_snapshot option \<Rightarrow> payment" where
  "new_entry env bid amount currency actor key ev st note_text received snap =
     \<lparr>p_id = pe_fresh env, p_booking = bid, p_amount = amount, p_currency = currency, p_method = [], p_reference = [],
      p_recorded_by = actor, p_key = key, p_event = ev, p_reverses = None, p_status = st, p_approved_by = None,
      p_approved_at = None, p_note = note_text, p_received = received, p_reporting = snap, p_created = pay_now env\<rparr>"

definition charge_entry ::
  "pay_env \<Rightarrow> record_input \<Rightarrow> string \<Rightarrow> pay_status \<Rightarrow> go_time \<Rightarrow> reporting_snapshot option \<Rightarrow> payment" where
  "charge_entry env inp currency st received snap =
     (new_entry env (ri_booking inp) (ri_amount inp) currency (ri_recorded_by inp) (ri_key inp) EventCharge st
        (ri_note inp) received snap)\<lparr>p_method := ri_method inp, p_reference := ri_reference inp\<rparr>"

text \<open>\<open>Record\<close>; the list is what is published on the bus after the commit.\<close>

definition record_tx ::
  "pay_env \<Rightarrow> record_input \<Rightarrow> string \<Rightarrow> pay_status \<Rightarrow> go_time \<Rightarrow> (payment_db, payment) uow" where
  "record_tx env inp cur_in st received =
     unless_recorded env (ri_key inp) ret (
     and_then (or_not_found ''booking'' (find_by_id env (ri_booking inp))) (\<lambda>b.
     if b_status b = StatusCancelled then fail (new_invalid_state ''cannot record payment on cancelled booking'')
     else
       let currency = (if cur_in = [] then b_currency b else cur_in) in
       and_then (reporting_snapshot_of env (b_branch b) (ri_amount inp) currency received) (\<lambda>snap.
       and_then (insert_payment env (charge_entry env inp currency st received snap)) (\<lambda>p.
       and_then (recompute_booking env b) (\<lambda>b'.
       and_then (record_payment env (ri_recorded_by inp) ''payment.recorded'' p b' None (Some (booking_money b)) None) (\<lambda>_.
         ret p))))))"

definition pay_record :: "pay_env \<Rightarrow> record_input \<Rightarrow> (payment_db, payment \<times> payment list) uow" where
  "pay_record env inp =
     and_then (ensure (ri_amount inp > 0) (new_validation ''amount must be > 0'')) (\<lambda>_.
     and_then (ensure (ri_key inp \<noteq> []) (new_validation ''idempotency_key is required'')) (\<lambda>_.
     and_then (ensure (ri_booking inp \<noteq> uuid_nil) (new_validation ''booking_id is required'')) (\<lambda>_.
     and_then (lift_result (initial_charge_status (ri_auto_verify inp) (ri_may_approve inp))) (\<lambda>st.
     and_then (lift_result (resolve_received_at (ri_received inp) (pay_today env))) (\<lambda>received.
     and_then (lift_result (if ri_currency inp = [] then Inr [] else normalize_currency (ri_currency inp))) (\<lambda>cur.
       unless_recorded env (ri_key inp) (\<lambda>p. ret (p, []))
         (and_then (record_tx env inp cur st received) (\<lambda>p. ret (p, [p])))))))))"

definition verify_entry :: "pay_env \<Rightarrow> uuid \<Rightarrow> payment \<Rightarrow> (payment_db, payment) uow" where
  "verify_entry env actor p =
     and_then (lift_result (transition_to p StatusVerified)) (\<lambda>p'.
     and_then (update_status env (p_id p) (p_status p') None None) (\<lambda>_.
     and_then (find_by_id env (p_booking p')) (\<lambda>b.
     and_then (recompute_booking env b) (\<lambda>b'.
     and_then (record_payment env actor ''payment.verified'' p' b' (Some p) (Some (booking_money b)) None) (\<lambda>_.
       ret p')))))"

definition pay_verify :: "pay_env \<Rightarrow> uuid \<Rightarrow> uuid \<Rightarrow> (payment_db, payment) uow" where
  "pay_verify env pid actor =
     and_then (or_not_found ''payment'' (get_payment env pid)) (\<lambda>r.
       case r of None \<Rightarrow> fail (new_not_found ''payment'') | Some p \<Rightarrow> verify_entry env actor p)"

definition negated :: "reporting_snapshot option \<Rightarrow> reporting_snapshot option" where
  "negated s = map_option (\<lambda>s. s\<lparr>rs_amount := neg64 (rs_amount s)\<rparr>) s"

record reverse_input =
  vi_payment :: uuid
  vi_actor :: uuid
  vi_note :: string
  vi_key :: string

definition reversal_of :: "pay_env \<Rightarrow> reverse_input \<Rightarrow> payment \<Rightarrow> payment" where
  "reversal_of env inp orig =
     (new_entry env (p_booking orig) (neg64 (p_amount orig)) (p_currency orig) (vi_actor inp) (vi_key inp)
        EventReverse StatusVerified (vi_note inp) (pay_today env) (negated (p_reporting orig)))
       \<lparr>p_method := p_method orig, p_reference := p_reference orig, p_reverses := Some (p_id orig)\<rparr>"

definition add_outbox :: "pay_env \<Rightarrow> reversed_payload \<Rightarrow> (payment_db, unit) uow" where
  "add_outbox env e = (if pe_outbox env then writing (\<lambda>db. db\<lparr>pd_outbox := pd_outbox db @ [e]\<rparr>) else ret ())"

definition reverse_entry :: "pay_env \<Rightarrow> reverse_input \<Rightarrow> payment \<Rightarrow> (payment_db, payment) uow" where
  "reverse_entry env inp orig =
     (if p_event orig \<noteq> EventCharge \<and> p_event orig \<noteq> EventAdjust
      then fail (new_invalid_state ''only charge/adjust entries can be reversed'')
      else if p_amount orig \<le> 0 then fail (new_invalid_state ''cannot reverse a non-positive entry'')
      else
        and_then (insert_payment env (reversal_of env inp orig)) (\<lambda>p.
        and_then (find_by_id env (p_booking orig)) (\<lambda>b.
        and_then (recompute_booking env b) (\<lambda>b'.
        and_then (record_payment env (vi_actor inp) ''payment.reversed'' p b' None (Some (booking_money b)) (Some orig)) (\<lambda>_.
        and_then (add_outbox env \<lparr>rp_payment = p_id orig, rp_reversal = p_id p, rp_booking = b_id b',
                    rp_branch = b_branch b', rp_amount = p_amount orig, rp_currency = p_currency orig\<rparr>) (\<lambda>_.
          ret p))))))"

definition reverse_tx :: "pay_env \<Rightarrow> reverse_input \<Rightarrow> (payment_db, payment) uow" where
  "reverse_tx env inp =
     unless_recorded env (vi_key inp) ret (
     and_then (or_not_found ''payment'' (get_payment env (vi_payment inp))) (\<lambda>r.
       case r of None \<Rightarrow> fail (new_not_found ''payment'') | Some orig \<Rightarrow> reverse_entry env inp orig))"

definition pay_reverse :: "pay_env \<Rightarrow> reverse_input \<Rightarrow> (payment_db, payment) uow" where
  "pay_reverse env inp =
     and_then (ensure (vi_key inp \<noteq> []) (new_validation ''idempotency_key is required'')) (\<lambda>_.
       unless_recorded env (vi_key inp) ret (reverse_tx env inp))"

record adjust_input =
  ai_booking :: uuid
  ai_amount :: int
  ai_currency :: string
  ai_note :: string
  ai_actor :: uuid
  ai_key :: string

definition adjust_tx :: "pay_env \<Rightarrow> adjust_input \<Rightarrow> (payment_db, payment) uow" where
  "adjust_tx env inp =
     unless_recorded env (ai_key inp) ret (
     and_then (or_not_found ''booking'' (find_by_id env (ai_booking inp))) (\<lambda>b.
     let cur = (if ai_currency inp = [] then b_currency b else ai_currency inp); today = pay_today env in
     and_then (reporting_snapshot_of env (b_branch b) (ai_amount inp) cur today) (\<lambda>snap.
     and_then (insert_payment env (new_entry env (ai_booking inp) (ai_amount inp) cur (ai_actor inp) (ai_key inp)
                 EventAdjust StatusVerified (ai_note inp) today snap)) (\<lambda>p.
     and_then (recompute_booking env b) (\<lambda>b'.
     and_then (record_payment env (ai_actor inp) ''payment.adjusted'' p b' None (Some (booking_money b)) None) (\<lambda>_.
       ret p))))))"

definition pay_adjust :: "pay_env \<Rightarrow> adjust_input \<Rightarrow> (payment_db, payment) uow" where
  "pay_adjust env inp =
     and_then (ensure (ai_amount inp \<noteq> 0) (new_validation ''amount must be nonzero'')) (\<lambda>_.
     and_then (ensure (ai_key inp \<noteq> []) (new_validation ''idempotency_key is required'')) (\<lambda>_.
       unless_recorded env (ai_key inp) ret (adjust_tx env inp)))"

text \<open>\<open>RequestRefund\<close> takes the same input as \<open>Adjust\<close>, its amount positive; the entry stores it negative.\<close>

definition refund_tx :: "pay_env \<Rightarrow> adjust_input \<Rightarrow> (payment_db, payment) uow" where
  "refund_tx env inp =
     unless_recorded env (ai_key inp) ret (
     and_then (or_not_found ''booking'' (find_by_id env (ai_booking inp))) (\<lambda>b.
     let cur = (if ai_currency inp = [] then b_currency b else ai_currency inp); today = pay_today env in
     and_then (reporting_snapshot_of env (b_branch b) (neg64 (ai_amount inp)) cur today) (\<lambda>snap.
     and_then (insert_payment env (new_entry env (ai_booking inp) (neg64 (ai_amount inp)) cur (ai_actor inp) (ai_key inp)
                 EventRefund StatusPendingApproval (ai_note inp) today snap)) (\<lambda>p.
     and_then (record_payment env (ai_actor inp) ''payment.refund_requested'' p b None None None) (\<lambda>_.
       ret p)))))"

definition pay_request_refund :: "pay_env \<Rightarrow> adjust_input \<Rightarrow> (payment_db, payment) uow" where
  "pay_request_refund env inp =
     and_then (ensure (ai_amount inp > 0) (new_validation ''refund amount must be > 0'')) (\<lambda>_.
     and_then (ensure (ai_key inp \<noteq> []) (new_validation ''idempotency_key is required'')) (\<lambda>_.
       unless_recorded env (ai_key inp) ret (refund_tx env inp)))"

definition decide_refund :: "pay_env \<Rightarrow> uuid \<Rightarrow> bool \<Rightarrow> payment \<Rightarrow> (payment_db, payment) uow" where
  "decide_refund env actor approve p =
     (if p_event p \<noteq> EventRefund \<or> p_status p \<noteq> StatusPendingApproval
      then fail (new_invalid_state ''not a pending refund'')
      else case (if approve then check_refund_approver p actor else None) of
        Some e \<Rightarrow> fail e
      | None \<Rightarrow>
          let st = (if approve then StatusApproved else StatusRejected);
              action = (if approve then ''payment.refund_approved'' else ''payment.refund_rejected'')
          in
          and_then (lift_result (transition_to p st)) (\<lambda>p1.
          and_then (update_status env (p_id p) st (Some actor) (Some (pay_now env))) (\<lambda>_.
          let p' = p1\<lparr>p_approved_by := Some actor, p_approved_at := Some (pay_now env)\<rparr> in
          and_then (find_by_id env (p_booking p')) (\<lambda>b.
          and_then (if approve then recompute_booking env b else ret b) (\<lambda>b'.
          and_then (record_payment env actor action p' b' (Some p) (if approve then Some (booking_money b) else None) None) (\<lambda>_.
            ret p'))))))"

definition pay_approve_refund :: "pay_env \<Rightarrow> uuid \<Rightarrow> uuid \<Rightarrow> bool \<Rightarrow> (payment_db, payment) uow" where
  "pay_approve_refund env pid actor approve =
     and_then (or_not_found ''payment'' (get_payment env pid)) (\<lambda>r.
       case r of None \<Rightarrow> fail (new_not_found ''payment'') | Some p \<Rightarrow> decide_refund env actor approve p)"

section \<open>What the repository calls do\<close>

lemma on_bookings_InrE:
  assumes "on_bookings m db = Inr (x, db')"
  obtains c where "m (pd_core db) = Inr (x, c)" "db' = db\<lparr>pd_core := c\<rparr>"
  using assms by (auto simp: on_bookings_def split: sum.splits)

lemma or_not_found_InrE:
  assumes "or_not_found s m db = Inr (x, db')"
  obtains "m db = Inr (x, db')"
  using assms by (auto simp: or_not_found_def split: sum.splits)

lemma booking_visible_Inr:
  assumes "booking_visible env db = Inr (f, db')"
  obtains vis where "visible_booking (pe_booking env) = Inr vis" "db' = db"
    "f = (\<lambda>bid. list_ex (\<lambda>b. b_id b = bid \<and> vis b) (db_bookings (pd_core db)))"
  using assms by (auto simp: booking_visible_def elim!: and_then_InrE lift_result_InrE)

lemma visible_thenE:
  assumes "and_then (booking_visible env) g db = Inr (y, d)"
  obtains f where "booking_visible env db = Inr (f, db)" "g f db = Inr (y, d)"
  using assms by (elim and_then_InrE) (metis booking_visible_Inr)

lemma find_by_id_Inr:
  assumes "find_by_id env bid db = Inr (b, db')"
  shows "db' = db" "b \<in> set (db_bookings (pd_core db))" "b_id b = bid"
    "\<exists>vis. visible_booking (pe_booking env) = Inr vis \<and> vis b"
  using assms
  by (auto simp: find_by_id_def find_Some_iff elim!: and_then_InrE lift_result_InrE split: option.splits)

lemma find_by_id_thenE:
  assumes "and_then (find_by_id env bid) g db = Inr (y, d)"
  obtains b where "find_by_id env bid db = Inr (b, db)" "g b db = Inr (y, d)"
  using assms by (elim and_then_InrE) (metis find_by_id_Inr(1))

lemma find_booking_thenE:
  assumes "and_then (or_not_found s (find_by_id env bid)) g db = Inr (y, d)"
  obtains b where "find_by_id env bid db = Inr (b, db)" "g b db = Inr (y, d)"
  using assms by (elim and_then_InrE or_not_found_InrE) (metis find_by_id_Inr(1))

lemma get_payment_Inr:
  assumes "get_payment env pid db = Inr (Some p, db')"
  shows "db' = db" "p \<in> set (pd_payments db)" "p_id p = pid"
  using assms by (auto simp: get_payment_def find_Some_iff elim!: visible_thenE)

lemma get_payment_thenE:
  assumes "and_then (or_not_found s (get_payment env pid)) (\<lambda>r. case r of None \<Rightarrow> fail e | Some p \<Rightarrow> g p) db = Inr (y, d)"
  obtains p where "p \<in> set (pd_payments db)" "p_id p = pid" "g p db = Inr (y, d)"
  using assms
proof (elim and_then_InrE or_not_found_InrE)
  fix r db' assume "get_payment env pid db = Inr (r, db')"
    and "(case r of None \<Rightarrow> fail e | Some p \<Rightarrow> g p) db' = Inr (y, d)"
  then show thesis using that get_payment_Inr [of env pid db _ db'] by (cases r) auto
qed

lemma find_by_key_Inr:
  assumes "find_by_key env key db = Inr (p, db')"
  shows "db' = db" "p \<in> set (pd_payments db)" "p_key p = key"
  using assms by (auto simp: find_by_key_def find_Some_iff elim!: visible_thenE split: option.splits)

lemma unless_recorded_InrE:
  assumes "unless_recorded env key found rest db = Inr (y, d)"
  obtains p where "find_by_key env key db = Inr (p, db)" "found p db = Inr (y, d)"
    | e where "find_by_key env key db = Inl e" "rest db = Inr (y, d)"
  using assms find_by_key_Inr(1) by (fastforce simp: unless_recorded_def split: sum.splits)

lemma scan_int64_Inr: "scan_int64 n db = Inr (x, db') \<longleftrightarrow> fits64 n \<and> x = n \<and> db' = db"
  by (auto simp: scan_int64_def)

lemma snapshot_reads: "reporting_snapshot_of env br a c on db = Inr (s, db') \<Longrightarrow> db' = db"
  by (auto simp: reporting_snapshot_of_def get_finance_settings_def elim!: and_then_InrE split: option.splits sum.splits if_splits)

lemma snapshot_thenE:
  assumes "and_then (reporting_snapshot_of env br a c on) g db = Inr (y, d)"
  obtains s where "g s db = Inr (y, d)"
  using assms by (elim and_then_InrE) (metis snapshot_reads)

text \<open>The log, the outbox: nothing of the ledger or the bookings.\<close>

definition same_ledger :: "payment_db \<Rightarrow> payment_db \<Rightarrow> bool" where
  "same_ledger db db' \<longleftrightarrow> pd_core db' = pd_core db \<and> pd_payments db' = pd_payments db"

lemma same_ledger_refl [simp]: "same_ledger db db" by (simp add: same_ledger_def)

lemma same_ledger_trans: "same_ledger a b \<Longrightarrow> same_ledger b c \<Longrightarrow> same_ledger a c"
  by (simp add: same_ledger_def)

lemma pay_log_same: "pay_log env a db = Inr (u, db') \<Longrightarrow> same_ledger db db'"
  by (auto simp: pay_log_def same_ledger_def split: option.splits)

lemma record_payment_same: "record_payment env x act p b bf m rv db = Inr (u, db') \<Longrightarrow> same_ledger db db'"
  by (auto simp: record_payment_def dest: pay_log_same)

lemma add_outbox_same: "add_outbox env e db = Inr (u, db') \<Longrightarrow> same_ledger db db'"
  by (auto simp: add_outbox_def same_ledger_def split: if_splits)

section \<open>Reconciliation\<close>

text \<open>
  \<open>reconciled\<close>: keys of bookings are unique and every booking's collected amount is the sum of its counted
  ledger entries; \<open>reconciled_except\<close> allows one booking to be stale.
\<close>

definition reconciled_except :: "uuid \<Rightarrow> payment_db \<Rightarrow> bool" where
  "reconciled_except bid db \<longleftrightarrow> distinct (map b_id (db_bookings (pd_core db)))
     \<and> (\<forall>b \<in> set (db_bookings (pd_core db)). b_id b \<noteq> bid \<longrightarrow> b_collected b = ledger_sum (pd_payments db) (b_id b))"

definition reconciled :: "payment_db \<Rightarrow> bool" where
  "reconciled db \<longleftrightarrow> distinct (map b_id (db_bookings (pd_core db)))
     \<and> (\<forall>b \<in> set (db_bookings (pd_core db)). b_collected b = ledger_sum (pd_payments db) (b_id b))"

lemma reconciled_same: "same_ledger db db' \<Longrightarrow> reconciled db \<Longrightarrow> reconciled db'"
  by (simp add: same_ledger_def reconciled_def)

lemma recompute_booking_rows:
  assumes run: "recompute_booking env b db = Inr (b', db')" and f: "find_by_id env bid db = Inr (b, db)"
    and dist: "distinct (map b_id (db_bookings (pd_core db)))"
  obtains c where "b_id c = b_id b" "b_collected c = ledger_sum (pd_payments db) bid" "b_owner c = b_owner b"
    "db' = db\<lparr>pd_core := (pd_core db)\<lparr>db_bookings :=
       map (\<lambda>r. if r = b then update_row c b else r) (db_bookings (pd_core db))\<rparr>\<rparr>"
proof -
  let ?bs = "db_bookings (pd_core db)"
  have b: "b \<in> set ?bs" "b_id b = bid" using find_by_id_Inr [OF f] by auto
  obtain vis where vis: "visible_booking (pe_booking env) = Inr vis" "vis b" using find_by_id_Inr(4) [OF f] by blast
  have "booking_visible env db = Inr (\<lambda>i. list_ex (\<lambda>x. b_id x = i \<and> vis x) ?bs, db)"
    using vis by (simp add: booking_visible_def)
  moreover have "list_ex (\<lambda>x. b_id x = bid \<and> vis x) ?bs" using b vis by (auto simp: list_ex_iff)
  ultimately have sum: "sum_collected env (b_id b) db = scan_int64 (ledger_sum (pd_payments db) bid) db"
    using b(2) by (simp add: sum_collected_def)
  define s where "s = ledger_sum (pd_payments db) bid"
  define c where "c = (recompute_balance (b\<lparr>b_collected := s\<rparr>))\<lparr>b_updated := pay_now env\<rparr>"
  have c: "b_id c = b_id b" "b_collected c = s" "b_owner c = b_owner b"
    by (simp_all add: c_def recompute_balance_def Let_def)
  obtain core where w: "update_booking (pe_booking env) c (pd_core db) = Inr ((), core)" and d: "db' = db\<lparr>pd_core := core\<rparr>"
  proof -
    have "sum_collected env (b_id b) db = (if fits64 s then Inr (s, db) else Inl (Plain ''cannot scan numeric into int64''))"
      using sum by (simp add: scan_int64_def s_def)
    with run that show thesis
      by (auto simp: recompute_booking_def Let_def c_def split: if_splits elim!: and_then_InrE on_bookings_InrE)
  qed
  have "scoped_exec (pe_booking env) (\<lambda>r. b_id r = b_id b \<and> True) (update_row c) (pd_core db) = Inr ((), core)"
    using w by (auto simp: update_booking_def c(1) elim!: and_then_InrE split: if_splits)
  from scoped_exec_Inr(1) [OF this dist b(1)] show thesis using that [OF c(1) _ c(3)] c(2) d by (simp add: s_def)
qed

lemma recompute_booking_Inr:
  assumes run: "recompute_booking env b db = Inr (b', db')" and f: "find_by_id env bid db = Inr (b, db)"
    and rec: "reconciled_except bid db"
  shows "reconciled db'" "pd_payments db' = pd_payments db"
proof -
  let ?bs = "db_bookings (pd_core db)"
  have b: "b \<in> set ?bs" "b_id b = bid" and dist: "distinct (map b_id ?bs)"
    using find_by_id_Inr [OF f] rec by (auto simp: reconciled_except_def)
  obtain c where c: "b_id c = b_id b" "b_collected c = ledger_sum (pd_payments db) bid" "b_owner c = b_owner b" and
    d: "db' = db\<lparr>pd_core := (pd_core db)\<lparr>db_bookings := map (\<lambda>r. if r = b then update_row c b else r) ?bs\<rparr>\<rparr>"
    by (rule recompute_booking_rows [OF run f dist])
  define bs where "bs = map (\<lambda>r. if r = b then update_row c b else r) ?bs"
  have "map b_id bs = map b_id ?bs" by (simp add: bs_def update_row_def)
  moreover have "b_collected x = ledger_sum (pd_payments db) (b_id x)" if mem: "x \<in> set bs" for x
  proof -
    obtain r where r: "r \<in> set ?bs" "x = (if r = b then update_row c b else r)" using mem unfolding bs_def set_map by blast
    show ?thesis
    proof (cases "r = b")
      case True
      with r b c show ?thesis by (simp add: update_row_def)
    next
      case False
      with id_unique [OF dist b(1) r(1)] b(2) have "b_id r \<noteq> bid" by auto
      with rec r False show ?thesis by (simp add: reconciled_except_def)
    qed
  qed
  ultimately show "reconciled db'" using dist by (simp add: reconciled_def d bs_def [symmetric])
  show "pd_payments db' = pd_payments db" by (simp add: d)
qed

lemma recompute_booking_visible:
  assumes run: "recompute_booking env b db = Inr (b', db')" and f: "find_by_id env bid db = Inr (b, db)"
    and dist: "distinct (map b_id (db_bookings (pd_core db)))" and v: "booking_visible env db = Inr (vis, db)"
  shows "booking_visible env db' = Inr (vis, db')"
proof -
  let ?bs = "db_bookings (pd_core db)"
  obtain c where c: "b_id c = b_id b" "b_collected c = ledger_sum (pd_payments db) bid" "b_owner c = b_owner b" and
    d: "db' = db\<lparr>pd_core := (pd_core db)\<lparr>db_bookings := map (\<lambda>r. if r = b then update_row c b else r) ?bs\<rparr>\<rparr>"
    by (rule recompute_booking_rows [OF run f dist])
  obtain vb where vb: "visible_booking (pe_booking env) = Inr vb" "vis = (\<lambda>i. list_ex (\<lambda>b. b_id b = i \<and> vb b) ?bs)"
    using v by (auto elim: booking_visible_Inr)
  have "vb (update_row c b) = vb b" by (rule visible_same [OF vb(1)]) (simp_all add: update_row_def c(3))
  moreover have "b_id (update_row c b) = b_id b" by (simp add: update_row_def)
  ultimately have "list_ex (\<lambda>x. b_id x = i \<and> vb x) (map (\<lambda>r. if r = b then update_row c b else r) bs)
      = list_ex (\<lambda>x. b_id x = i \<and> vb x) bs" for i bs
    by (induction bs) auto
  then show ?thesis by (simp add: booking_visible_def d vb)
qed

section \<open>The ledger invariant\<close>

definition entry_ok :: "payment \<Rightarrow> bool" where
  "entry_ok p \<longleftrightarrow> fits64 (p_amount p) \<and>
     (case p_event p of
        EventCharge \<Rightarrow> 0 < p_amount p \<and> p_status p \<in> {StatusUnverified, StatusVerified} \<and> p_approved_by p = None
      | EventReverse \<Rightarrow> p_amount p < 0 \<and> p_status p = StatusVerified \<and> p_reverses p \<noteq> None
      | EventAdjust \<Rightarrow> p_amount p \<noteq> 0 \<and> p_status p = StatusVerified
      | EventRefund \<Rightarrow> p_amount p < 0 \<and>
          (p_status p = StatusPendingApproval \<or> p_status p = StatusRejected \<and> p_approved_by p \<noteq> None
           \<or> p_status p = StatusApproved \<and> (\<exists>a. p_approved_by p = Some a \<and> a \<noteq> p_recorded_by p))
      | OtherEvent _ \<Rightarrow> False)"

definition ledger_ok :: "payment_db \<Rightarrow> bool" where
  "ledger_ok db \<longleftrightarrow> reconciled db \<and> distinct (map p_id (pd_payments db)) \<and> distinct (map p_key (pd_payments db))
     \<and> (\<forall>p \<in> set (pd_payments db). entry_ok p)"

definition ledger_extends :: "payment_db \<Rightarrow> payment_db \<Rightarrow> bool" where
  "ledger_extends db db' \<longleftrightarrow>
     list_all2 entry_evolves (pd_payments db) (take (length (pd_payments db)) (pd_payments db'))"

lemma ledger_extends_trans:
  assumes "ledger_extends a b" "ledger_extends b c"
  shows "ledger_extends a c"
  using assms unfolding ledger_extends_def by (rule list_all2_take_trans [rotated]) (rule entry_evolves_trans)

lemma ledger_extends_same [simp]: "pd_payments db' = pd_payments db \<Longrightarrow> ledger_extends db db'"
  by (simp add: ledger_extends_def list_all2_refl)

text \<open>Appending an entry of a booking, and changing the status of one, leave only that booking stale.\<close>

lemma ledger_sum_append [simp]:
  "ledger_sum (ps @ [p]) bid = ledger_sum ps bid + (if p_booking p = bid \<and> counts_toward_collected p then p_amount p else 0)"
  by (simp add: ledger_sum_def)

lemma ledger_sum_replace:
  assumes "p_booking q = p_booking p" "p_booking p \<noteq> bid"
  shows "ledger_sum (map (\<lambda>r. if r = p then q else r) ps) bid = ledger_sum ps bid"
  using assms by (induction ps) (auto simp: ledger_sum_def)

lemma insert_payment_Inr:
  assumes run: "insert_payment env p db = Inr (p', db')"
    and p: "p_event p \<noteq> OtherEvent []" "p_status p \<noteq> OtherPayStatus []"
  obtains q where "db' = db\<lparr>pd_payments := pd_payments db @ [q]\<rparr>"
    "\<exists>t. q = p\<lparr>p_received := t\<rparr>" "\<exists>t. p' = p\<lparr>p_received := t\<rparr>"
    "p_id p \<notin> set (map p_id (pd_payments db))" "p_key p \<notin> set (map p_key (pd_payments db))" "p_amount p \<noteq> 0"
    "q = p'\<lparr>p_received := date_of (p_received p')\<rparr>"
    "\<exists>f. booking_visible env db = Inr (f, db) \<and> f (p_booking p)"
proof -
  let ?p = "if is_zero (p_received p) then p\<lparr>p_received := p_created p\<rparr> else p"
  obtain f where f: "booking_visible env db = Inr (f, db)" "f (p_booking p)"
    using run by (auto simp: insert_payment_def require_booking_def elim!: and_then_InrE visible_thenE split: if_splits)
  have r: "(if list_ex (\<lambda>q. p_id q = p_id ?p \<or> p_key q = p_key ?p) (pd_payments db) then fail (Plain ''duplicate key value'')
          else if \<not> payment_columns ?p then fail (Plain ''check constraint violated'')
          else and_then (writing (\<lambda>db'. db'\<lparr>pd_payments := pd_payments db @ [?p\<lparr>p_received := date_of (p_received ?p)\<rparr>]\<rparr>)) (\<lambda>_. ret ?p)) db
          = Inr (p', db')"
    using run p f by (auto simp: insert_payment_def require_booking_def Let_def and_then_def split: if_splits)
  define pp where "pp = ?p"
  have k: "p_id pp = p_id p" "p_key pp = p_key p" "p_amount pp = p_amount p" and k4: "\<exists>t. pp = p\<lparr>p_received := t\<rparr>"
    by (auto simp: pp_def intro!: exI [where x = "if is_zero (p_received p) then p_created p else p_received p"])
  define q where "q = pp\<lparr>p_received := date_of (p_received pp)\<rparr>"
  have c: "\<not> list_ex (\<lambda>q. p_id q = p_id p \<or> p_key q = p_key p) (pd_payments db)" "payment_columns pp"
    "db' = db\<lparr>pd_payments := pd_payments db @ [q]\<rparr>" "p' = pp"
    using r unfolding pp_def [symmetric] q_def [symmetric] k
    by (auto split: if_splits elim!: and_then_InrE simp del: not_None_eq)
  have "p_amount p \<noteq> 0" using c(2) k(3) by (simp add: payment_columns_def)
  moreover have "p_id p \<notin> set (map p_id (pd_payments db))" "p_key p \<notin> set (map p_key (pd_payments db))"
    using c(1) by (auto simp: list_ex_iff)
  moreover have "\<exists>t. q = p\<lparr>p_received := t\<rparr>" using k4 by (auto simp: q_def)
  ultimately show thesis using that [of q] c(3,4) f k4 q_def by blast
qed

lemma ledger_append:
  assumes ok: "ledger_ok db" and q: "q = p\<lparr>p_received := t\<rparr>" "entry_ok p"
    and new: "p_id p \<notin> set (map p_id (pd_payments db))" "p_key p \<notin> set (map p_key (pd_payments db))"
    and d: "pd_payments d = pd_payments db @ [q]" "reconciled d"
  shows "ledger_ok d \<and> ledger_extends db d"
proof -
  have "entry_ok q" "p_id q = p_id p" "p_key q = p_key p"
    using q by (auto simp: entry_ok_def split: event_type.splits)
  then show ?thesis using ok new d by (auto simp: ledger_ok_def ledger_extends_def list_all2_refl)
qed

lemma append_stale:
  assumes "reconciled db"
  shows "reconciled_except (p_booking q) (db\<lparr>pd_payments := pd_payments db @ [q]\<rparr>)"
    "\<not> counts_toward_collected q \<Longrightarrow> reconciled (db\<lparr>pd_payments := pd_payments db @ [q]\<rparr>)"
  using assms by (auto simp: reconciled_def reconciled_except_def)

text \<open>
  An entry inserted and then the booking recomputed, as \<open>Record\<close>, \<open>Reverse\<close> and \<open>Adjust\<close> do.
\<close>

lemma insert_recompute:
  assumes ok: "ledger_ok db" and e: "entry_ok p"
    and i: "insert_payment env p db = Inr (p', db1)" and f: "find_by_id env (p_booking p) db1 = Inr (b, db1)"
    and r: "recompute_booking env b db1 = Inr (b', db2)" and s: "same_ledger db2 db'"
  shows "ledger_ok db' \<and> ledger_extends db db'"
proof -
  have p: "p_event p \<noteq> OtherEvent []" "p_status p \<noteq> OtherPayStatus []"
    using e by (auto simp: entry_ok_def split: event_type.splits)
  obtain q t where q: "db1 = db\<lparr>pd_payments := pd_payments db @ [q]\<rparr>" "q = p\<lparr>p_received := t\<rparr>"
    "p_id p \<notin> set (map p_id (pd_payments db))" "p_key p \<notin> set (map p_key (pd_payments db))"
    by (rule insert_payment_Inr [OF i p]) blast
  have "reconciled_except (p_booking p) db1"
    using append_stale(1) [of db q] ok q(1,2) by (simp add: ledger_ok_def)
  note rc = recompute_booking_Inr [OF r f this]
  show ?thesis
    by (rule ledger_append [OF ok q(2) e q(3,4)]) (use rc q(1) s reconciled_same [OF s] in \<open>auto simp: same_ledger_def\<close>)
qed

lemma new_entry_sel [simp]:
  "p_booking (new_entry env bid a c x k ev st n r s) = bid" "p_event (new_entry env bid a c x k ev st n r s) = ev"
  "p_status (new_entry env bid a c x k ev st n r s) = st" "p_amount (new_entry env bid a c x k ev st n r s) = a"
  "p_recorded_by (new_entry env bid a c x k ev st n r s) = x" "p_key (new_entry env bid a c x k ev st n r s) = k"
  "p_approved_by (new_entry env bid a c x k ev st n r s) = None"
  by (simp_all add: new_entry_def)

lemma insert_payment_core:
  assumes "insert_payment env p db = Inr (p', db1)"
  shows "pd_core db1 = pd_core db"
  using assms by (auto simp: insert_payment_def require_booking_def Let_def elim!: and_then_InrE visible_thenE split: if_splits)

lemma find_by_id_core:
  assumes "find_by_id env bid db = Inr (b, db)" "pd_core db1 = pd_core db"
  shows "find_by_id env bid db1 = Inr (b, db1)"
  using assms by (auto simp: find_by_id_def and_then_def lift_result_def split: sum.splits option.splits)

lemma charge_entry_sel [simp]:
  "p_booking (charge_entry env inp c st r s) = ri_booking inp" "p_event (charge_entry env inp c st r s) = EventCharge"
  "p_status (charge_entry env inp c st r s) = st" "p_amount (charge_entry env inp c st r s) = ri_amount inp"
  "p_key (charge_entry env inp c st r s) = ri_key inp" "p_approved_by (charge_entry env inp c st r s) = None"
  by (simp_all add: charge_entry_def)

lemma record_tx_InrE:
  assumes "record_tx env inp cur st rcv db = Inr (p, db')"
  obtains (replay) "find_by_key env (ri_key inp) db = Inr (p, db)" "db' = db"
  | (fresh) b c snap d1 b' d2 where "find_by_id env (ri_booking inp) db = Inr (b, db)"
      "insert_payment env (charge_entry env inp c st rcv snap) db = Inr (p, d1)"
      "find_by_id env (ri_booking inp) d1 = Inr (b, d1)"
      "recompute_booking env b d1 = Inr (b', d2)" "same_ledger d2 db'"
  using assms unfolding record_tx_def
proof (cases rule: unless_recorded_InrE)
  case (1 q)
  have "q = p" "db' = db" using 1(2) by simp_all
  then show thesis using replay 1(1) by blast
next
  case 2
  from 2(2) show thesis
  proof (elim find_booking_thenE)
    fix b
    assume f: "find_by_id env (ri_booking inp) db = Inr (b, db)"
      and g: "(if b_status b = StatusCancelled then fail (new_invalid_state ''cannot record payment on cancelled booking'')
        else let currency = if cur = [] then b_currency b else cur
             in and_then (reporting_snapshot_of env (b_branch b) (ri_amount inp) currency rcv)
                 (\<lambda>snap. and_then (insert_payment env (charge_entry env inp currency st rcv snap))
                   (\<lambda>p. and_then (recompute_booking env b)
                     (\<lambda>b'. and_then (record_payment env (ri_recorded_by inp) ''payment.recorded'' p b' None
                                  (Some (booking_money b)) None) (\<lambda>_. ret p))))) db = Inr (p, db')"
    define c where "c = (if cur = [] then b_currency b else cur)"
    from g obtain snap d1 b' d2 where i: "insert_payment env (charge_entry env inp c st rcv snap) db = Inr (p, d1)"
      and r: "recompute_booking env b d1 = Inr (b', d2)" and s: "same_ledger d2 db'"
      unfolding Let_def c_def [symmetric]
      by (simp split: if_splits, elim snapshot_thenE and_then_InrE) (auto dest!: record_payment_same)
    show thesis by (rule fresh [OF f i find_by_id_core [OF f insert_payment_core [OF i]] r s])
  qed
qed

lemma record_tx_ok:
  assumes ok: "ledger_ok db" and run: "record_tx env inp cur st rcv db = Inr (p, db')"
    and h: "0 < ri_amount inp" "fits64 (ri_amount inp)" "st \<in> {StatusUnverified, StatusVerified}"
  shows "ledger_ok db' \<and> ledger_extends db db'"
  using run
proof (cases rule: record_tx_InrE)
  case replay
  with ok show ?thesis by simp
next
  case (fresh b c snap d1 b' d2)
  have "entry_ok (charge_entry env inp c st rcv snap)" using h by (simp add: entry_ok_def)
  from insert_recompute [OF ok this fresh(2) _ fresh(4,5)] fresh(3) show ?thesis by simp
qed

lemma pay_record_ok:
  assumes "ledger_ok db" "pay_record env inp db = Inr (x, db')" "fits64 (ri_amount inp)"
  shows "ledger_ok db' \<and> ledger_extends db db'"
proof -
  obtain st rcv cur where st: "initial_charge_status (ri_auto_verify inp) (ri_may_approve inp) = Inr st"
    and pos: "0 < ri_amount inp"
    and u: "unless_recorded env (ri_key inp) (\<lambda>p. ret (p, []))
         (and_then (record_tx env inp cur st rcv) (\<lambda>p. ret (p, [p]))) db = Inr (x, db')"
    using assms(2) by (auto simp: pay_record_def elim!: and_then_InrE lift_result_InrE split: if_splits)
  have "st \<in> {StatusUnverified, StatusVerified}" using st by (auto simp: initial_charge_status_def split: if_splits)
  note tx = record_tx_ok [OF assms(1) _ pos assms(3) this]
  from u show ?thesis
  proof (cases rule: unless_recorded_InrE)
    case 2
    then show ?thesis by (elim and_then_InrE) (use tx in auto)
  qed (use assms(1) in simp)
qed

lemma reverse_tx_ok:
  assumes ok: "ledger_ok db" and run: "reverse_tx env inp db = Inr (p, db')"
  shows "ledger_ok db' \<and> ledger_extends db db'"
  using run unfolding reverse_tx_def
proof (cases rule: unless_recorded_InrE)
  case (1 q)
  with ok show ?thesis by simp
next
  case 2
  from 2(2) obtain o1 where o1: "o1 \<in> set (pd_payments db)" and run1: "reverse_entry env inp o1 db = Inr (p, db')"
    by (rule get_payment_thenE)
  from run1 obtain d1 b b' d2 where pos: "0 < p_amount o1"
    and i: "insert_payment env (reversal_of env inp o1) db = Inr (p, d1)"
    and f: "find_by_id env (p_booking o1) d1 = Inr (b, d1)" and r: "recompute_booking env b d1 = Inr (b', d2)"
    and s: "same_ledger d2 db'"
    unfolding reverse_entry_def
    by (simp split: if_splits, elim and_then_InrE find_by_id_thenE)
      (auto dest!: record_payment_same add_outbox_same dest: find_by_id_Inr(1) intro: same_ledger_trans)
  have "fits64 (p_amount o1)" using ok o1 by (auto simp: ledger_ok_def entry_ok_def)
  then have "neg64 (p_amount o1) = - p_amount o1" "fits64 (- p_amount o1)"
    using pos by (auto simp: fits64_def intro: neg64_id)
  then have "entry_ok (reversal_of env inp o1)" using pos by (simp add: entry_ok_def reversal_of_def)
  moreover have "p_booking (reversal_of env inp o1) = p_booking o1" by (simp add: reversal_of_def)
  ultimately show ?thesis using insert_recompute [OF ok _ i _ r s] f by simp
qed

lemma pay_reverse_ok:
  assumes "ledger_ok db" "pay_reverse env inp db = Inr (p, db')"
  shows "ledger_ok db' \<and> ledger_extends db db'"
proof -
  have "unless_recorded env (vi_key inp) ret (reverse_tx env inp) db = Inr (p, db')"
    using assms(2) by (auto simp: pay_reverse_def elim!: and_then_InrE split: if_splits)
  then show ?thesis by (cases rule: unless_recorded_InrE) (use assms(1) reverse_tx_ok in auto)
qed

lemma adjust_tx_ok:
  assumes ok: "ledger_ok db" and run: "adjust_tx env inp db = Inr (p, db')"
    and h: "ai_amount inp \<noteq> 0" "fits64 (ai_amount inp)"
  shows "ledger_ok db' \<and> ledger_extends db db'"
  using run unfolding adjust_tx_def
proof (cases rule: unless_recorded_InrE)
  case (1 q)
  with ok show ?thesis by simp
next
  case 2
  from 2(2) obtain b cur snap d1 b' d2 where f: "find_by_id env (ai_booking inp) db = Inr (b, db)"
    and i: "insert_payment env (new_entry env (ai_booking inp) (ai_amount inp) cur (ai_actor inp) (ai_key inp)
                 EventAdjust StatusVerified (ai_note inp) (pay_today env) snap) db = Inr (p, d1)"
    and r: "recompute_booking env b d1 = Inr (b', d2)" and s: "same_ledger d2 db'"
    unfolding Let_def
    by (elim find_booking_thenE snapshot_thenE and_then_InrE) (auto dest!: record_payment_same)
  have "entry_ok (new_entry env (ai_booking inp) (ai_amount inp) cur (ai_actor inp) (ai_key inp)
                 EventAdjust StatusVerified (ai_note inp) (pay_today env) snap)"
    using h by (simp add: entry_ok_def)
  from insert_recompute [OF ok this i _ r s] find_by_id_core [OF f insert_payment_core [OF i]] show ?thesis by simp
qed

lemma pay_adjust_ok:
  assumes "ledger_ok db" "pay_adjust env inp db = Inr (p, db')" "fits64 (ai_amount inp)"
  shows "ledger_ok db' \<and> ledger_extends db db'"
proof -
  have "unless_recorded env (ai_key inp) ret (adjust_tx env inp) db = Inr (p, db')" "ai_amount inp \<noteq> 0"
    using assms(2) by (auto simp: pay_adjust_def elim!: and_then_InrE split: if_splits)
  then show ?thesis by (cases rule: unless_recorded_InrE) (use assms adjust_tx_ok in auto)
qed

lemma refund_tx_ok:
  assumes ok: "ledger_ok db" and run: "refund_tx env inp db = Inr (p, db')"
    and h: "0 < ai_amount inp" "fits64 (ai_amount inp)"
  shows "ledger_ok db' \<and> ledger_extends db db'"
  using run unfolding refund_tx_def
proof (cases rule: unless_recorded_InrE)
  case (1 q)
  with ok show ?thesis by simp
next
  case 2
  from 2(2) obtain cur snap d1 where
    i: "insert_payment env (new_entry env (ai_booking inp) (neg64 (ai_amount inp)) cur (ai_actor inp) (ai_key inp)
                 EventRefund StatusPendingApproval (ai_note inp) (pay_today env) snap) db = Inr (p, d1)"
    and s: "same_ledger d1 db'"
    unfolding Let_def
    by (elim find_booking_thenE snapshot_thenE and_then_InrE) (auto dest!: record_payment_same)
  define e where "e = new_entry env (ai_booking inp) (neg64 (ai_amount inp)) cur (ai_actor inp) (ai_key inp)
                 EventRefund StatusPendingApproval (ai_note inp) (pay_today env) snap"
  have "neg64 (ai_amount inp) = - ai_amount inp" "fits64 (- ai_amount inp)"
    using h by (auto simp: fits64_def intro: neg64_id)
  then have e: "entry_ok e" "\<not> counts_toward_collected e" "p_event e \<noteq> OtherEvent []" "p_status e \<noteq> OtherPayStatus []"
    using h by (simp_all add: entry_ok_def e_def counts_toward_collected_def)
  obtain q t where q: "d1 = db\<lparr>pd_payments := pd_payments db @ [q]\<rparr>" "q = e\<lparr>p_received := t\<rparr>"
    "p_id e \<notin> set (map p_id (pd_payments db))" "p_key e \<notin> set (map p_key (pd_payments db))"
    by (rule insert_payment_Inr [OF i [folded e_def] e(3,4)]) blast
  have "reconciled d1"
    using append_stale(2) [of db q] ok e(2) by (simp add: q ledger_ok_def counts_toward_collected_def)
  then show ?thesis
    using ledger_append [OF ok q(2) e(1) q(3,4)] s reconciled_same [OF s] q(1) by (auto simp: same_ledger_def)
qed

lemma pay_request_refund_ok:
  assumes "ledger_ok db" "pay_request_refund env inp db = Inr (p, db')" "fits64 (ai_amount inp)"
  shows "ledger_ok db' \<and> ledger_extends db db'"
proof -
  have "unless_recorded env (ai_key inp) ret (refund_tx env inp) db = Inr (p, db')" "0 < ai_amount inp"
    using assms(2) by (auto simp: pay_request_refund_def elim!: and_then_InrE split: if_splits)
  then show ?thesis by (cases rule: unless_recorded_InrE) (use assms refund_tx_ok in auto)
qed

text \<open>A status change: the trigger lets exactly one entry through, and it evolves.\<close>

lemma pid_unique:
  assumes "distinct (map p_id ps)" "p \<in> set ps" "r \<in> set ps" "p_id r = p_id p"
  shows "r = p"
  using assms by (metis distinct_map inj_on_eq_iff)

lemma with_status_sel [simp]:
  "p_status (with_status p st u t) = st" "p_booking (with_status p st u t) = p_booking p"
  "p_note (with_status p st u t) = p_note p" "p_approved_by (with_status p st u t) = u"
  "p_event (with_status p st u t) = p_event p" "p_amount (with_status p st u t) = p_amount p"
  "p_recorded_by (with_status p st u t) = p_recorded_by p" "p_id (with_status p st u t) = p_id p"
  "p_key (with_status p st u t) = p_key p" "p_reverses (with_status p st u t) = p_reverses p"
  by (simp_all add: with_status_def)

lemma update_status_Inr:
  assumes run: "update_status env (p_id p) st u t db = Inr (x, db')"
    and d: "distinct (map p_id (pd_payments db))" and p: "p \<in> set (pd_payments db)"
  shows "db' = db\<lparr>pd_payments := map (\<lambda>r. if r = p then with_status p st u t else r) (pd_payments db)\<rparr>"
    "ledger_guard p (with_status p st u t) = None"
proof -
  obtain vis where r: "(case List.map_filter (\<lambda>r. if p_id r = p_id p \<and> vis (p_booking r) then ledger_guard r (with_status r st u t) else None)
          (pd_payments db) of
            e # _ \<Rightarrow> fail e
          | [] \<Rightarrow> if list_ex (\<lambda>r. p_id r = p_id p \<and> vis (p_booking r)) (pd_payments db)
                  then writing (\<lambda>d. d\<lparr>pd_payments := map (\<lambda>r. if p_id r = p_id p \<and> vis (p_booking r) then with_status r st u t else r) (pd_payments db)\<rparr>)
                  else fail (new_not_found ''payment'')) db = Inr (x, db')"
    using run unfolding update_status_def Let_def
  proof (rule visible_thenE)
    fix f
    assume "booking_visible env db = Inr (f, db)"
    then show thesis using that [of f] run by (simp add: update_status_def Let_def)
  qed
  have u1: "r = p" if "r \<in> set (pd_payments db)" "p_id r = p_id p" for r using pid_unique [OF d p] that by blast
  have nil: "List.map_filter (\<lambda>r. if p_id r = p_id p \<and> vis (p_booking r) then ledger_guard r (with_status r st u t) else None)
      (pd_payments db) = []" and ex: "list_ex (\<lambda>r. p_id r = p_id p \<and> vis (p_booking r)) (pd_payments db)"
    and w: "db' = db\<lparr>pd_payments := map (\<lambda>r. if p_id r = p_id p \<and> vis (p_booking r) then with_status r st u t else r) (pd_payments db)\<rparr>"
    using r by (auto split: list.splits if_splits)
  have v: "vis (p_booking p)" using ex u1 by (auto simp: list_ex_iff)
  show "ledger_guard p (with_status p st u t) = None"
    using nil p v by (auto simp: List.map_filter_def filter_empty_conv)
  show "db' = db\<lparr>pd_payments := map (\<lambda>r. if r = p then with_status p st u t else r) (pd_payments db)\<rparr>"
    unfolding w using u1 v by (auto intro!: arg_cong [where f = "\<lambda>l. db\<lparr>pd_payments := l\<rparr>"] map_cong)
qed

lemma ledger_replace:
  assumes ok: "ledger_ok db" and p: "p \<in> set (pd_payments db)" and q: "entry_evolves p q" "entry_ok q"
    and d: "pd_payments d = map (\<lambda>r. if r = p then q else r) (pd_payments db)" "reconciled d"
  shows "ledger_ok d \<and> ledger_extends db d"
proof -
  let ?ps = "map (\<lambda>r. if r = p then q else r) (pd_payments db)"
  have "map p_id ?ps = map p_id (pd_payments db)" "map p_key ?ps = map p_key (pd_payments db)"
    using entry_evolves_sel [OF q(1)] by simp_all
  moreover have "list_all2 entry_evolves (pd_payments db) ?ps"
    using q(1) by (auto simp: list_all2_conv_all_nth)
  moreover have "\<forall>r \<in> set ?ps. entry_ok r" using ok q(2) by (auto simp: ledger_ok_def)
  ultimately show ?thesis
    using ok d(2) unfolding ledger_ok_def ledger_extends_def d(1) by (simp del: map_map)
qed

lemma replace_stale:
  assumes "reconciled db" "p_booking q = p_booking p"
  shows "reconciled_except (p_booking p) (db\<lparr>pd_payments := map (\<lambda>r. if r = p then q else r) (pd_payments db)\<rparr>)"
  using assms ledger_sum_replace [OF assms(2)] by (auto simp: reconciled_def reconciled_except_def)

lemma verify_entry_ok:
  assumes ok: "ledger_ok db" and p: "p \<in> set (pd_payments db)" and run: "verify_entry env actor p db = Inr (r, db')"
  shows "ledger_ok db' \<and> ledger_extends db db'"
proof -
  let ?q = "with_status p StatusVerified None None"
  obtain d1 b b' d2 where tr: "pay_can_transition (p_event p) (p_status p) StatusVerified"
    and w: "update_status env (p_id p) StatusVerified None None db = Inr ((), d1)"
    and f: "find_by_id env (p_booking p) d1 = Inr (b, d1)"
    and rc: "recompute_booking env b d1 = Inr (b', d2)" and s: "same_ledger d2 db'"
    using run unfolding verify_entry_def
    by (elim find_by_id_thenE and_then_InrE lift_result_InrE) (auto simp: transition_to_Inr dest!: record_payment_same)
  have dist: "distinct (map p_id (pd_payments db))" "entry_ok p" using ok p by (auto simp: ledger_ok_def)
  note u = update_status_Inr [OF w dist(1) p]
  have ev: "entry_evolves p ?q"
    by (rule ledger_guard_evolves [OF u(2)]) (use tr in \<open>auto simp: pay_can_transition_iff\<close>)
  have q: "entry_ok ?q" using dist(2) tr by (auto simp: entry_ok_def pay_can_transition_iff)
  have "reconciled_except (p_booking p) d1" using replace_stale [of db ?q p] ok u(1) by (simp add: ledger_ok_def)
  note rc' = recompute_booking_Inr [OF rc f this]
  show ?thesis
    by (rule ledger_replace [OF ok p ev q]) (use rc' u(1) s reconciled_same [OF s] in \<open>auto simp: same_ledger_def\<close>)
qed

lemma decide_refund_ok:
  assumes ok: "ledger_ok db" and p: "p \<in> set (pd_payments db)"
    and run: "decide_refund env actor approve p db = Inr (r, db')"
  shows "ledger_ok db' \<and> ledger_extends db db'"
proof -
  define st where "st = (if approve then StatusApproved else StatusRejected)"
  let ?q = "with_status p st (Some actor) (Some (pay_now env))"
  have pre: "p_event p = EventRefund" "p_status p = StatusPendingApproval" "approve \<Longrightarrow> p_recorded_by p \<noteq> actor"
    using run by (auto simp: decide_refund_def check_refund_approver_def split: if_splits)
  obtain d1 b b' d2 where w: "update_status env (p_id p) st (Some actor) (Some (pay_now env)) db = Inr ((), d1)"
    and f: "find_by_id env (p_booking p) d1 = Inr (b, d1)"
    and rc: "(if approve then recompute_booking env b else ret b) d1 = Inr (b', d2)" and s: "same_ledger d2 db'"
  proof -
    have g: "(if approve then check_refund_approver p actor else None) = None"
      using pre(3) by (auto simp: check_refund_approver_def)
    show thesis
      using run unfolding decide_refund_def Let_def st_def [symmetric] g pre(1,2)
      by (simp only: not_True_eq_False simp_thms if_False option.case)
         (elim find_by_id_thenE and_then_InrE lift_result_InrE, rule that,
          auto simp: transition_to_Inr dest!: record_payment_same dest: find_by_id_Inr(1))
  qed
  have dist: "distinct (map p_id (pd_payments db))" "entry_ok p" using ok p by (auto simp: ledger_ok_def)
  note u = update_status_Inr [OF w dist(1) p]
  have ev: "entry_evolves p ?q"
    by (rule ledger_guard_evolves [OF u(2)]) (use pre in \<open>auto simp: st_def\<close>)
  have q: "entry_ok ?q" using dist(2) pre by (auto simp: entry_ok_def st_def)
  have d2: "pd_payments d2 = map (\<lambda>r. if r = p then ?q else r) (pd_payments db) \<and> reconciled d2"
  proof (cases approve)
    case True
    have "reconciled_except (p_booking p) d1" using replace_stale [of db ?q p] ok u(1) by (simp add: ledger_ok_def)
    from recompute_booking_Inr [OF _ f this, of b' d2] rc True u(1) show ?thesis by simp
  next
    case False
    have "counts_toward_collected ?q = counts_toward_collected p"
      using False pre by (simp add: counts_toward_collected_def st_def)
    then have "ledger_sum (map (\<lambda>r. if r = p then ?q else r) ps) bid = ledger_sum ps bid" for ps bid
      by (induction ps) (auto simp: ledger_sum_def)
    with ok rc False u(1) show ?thesis by (auto simp: ledger_ok_def reconciled_def)
  qed
  show ?thesis
    by (rule ledger_replace [OF ok p ev q]) (use d2 s reconciled_same [OF s] in \<open>auto simp: same_ledger_def\<close>)
qed

lemma pay_status_change_ok:
  assumes "ledger_ok db"
  shows "pay_verify env pid actor db = Inr (p, db') \<Longrightarrow> ledger_ok db' \<and> ledger_extends db db'"
    "pay_approve_refund env pid actor ap db = Inr (p, db') \<Longrightarrow> ledger_ok db' \<and> ledger_extends db db'"
  unfolding pay_verify_def pay_approve_refund_def
  by (erule get_payment_thenE, erule (1) verify_entry_ok [OF assms])
     (erule get_payment_thenE, erule (1) decide_refund_ok [OF assms])

section \<open>The booking service does not disturb the money\<close>

definition money_column :: "booking_db \<Rightarrow> (uuid \<times> int) list" where
  "money_column c = map (\<lambda>b. (b_id b, b_collected b)) (db_bookings c)"

lemma scoped_exec_money:
  assumes "scoped_exec env wh upd c = Inr (u, c')" "\<And>r. b_id (upd r) = b_id r \<and> b_collected (upd r) = b_collected r"
  shows "money_column c' = money_column c"
  using assms by (auto simp: scoped_exec_def money_column_def elim!: and_then_InrE lift_result_InrE split: if_splits)

lemma money_same: "same_capacity c c' \<Longrightarrow> money_column c' = money_column c"
  by (simp add: same_capacity_def money_column_def)

lemma svc_apply_money:
  assumes "svc_apply env b inp rd c = Inr (r, c')" "in_facts inp = no_facts"
  shows "money_column c' = money_column c"
proof -
  obtain b' evs where "r = (b', evs)" by (cases r)
  with assms obtain c1 where "save_status env b' c = Inr ((), c1)" "same_capacity c1 c'"
    using svc_apply_Inr by metis
  then show ?thesis using scoped_exec_money money_same unfolding save_status_def save_status_row_def by fastforce
qed

lemma rederive_money:
  assumes "rederive env b fs c = Inr (r, c')"
  shows "money_column c' = money_column c"
proof -
  have "c' = c \<or> (\<exists>inp f. in_facts inp = no_facts \<and> svc_apply env b inp (Some f) c = Inr (r, c'))"
    using assms
    by (fastforce simp: rederive_def Let_def split: if_splits option.splits elim!: and_then_InrE dest!: readiness_reads)
  then show ?thesis using svc_apply_money by blast
qed

lemma svc_transition_money:
  assumes "svc_transition env bid rq c = Inr (r, c')"
  shows "money_column c' = money_column c"
  using assms unfolding svc_transition_def
proof (elim find_thenE and_then_InrE)
  fix b x c1
  assume a: "svc_apply env b (request_input env rq) None c = Inr (x, c1)"
    and d: "(case x of (b, evs) \<Rightarrow> and_then (rederive env b None) (\<lambda>(b, evs'). ret (b, evs @ evs'))) c1 = Inr (r, c')"
  have "money_column c1 = money_column c" by (rule svc_apply_money [OF a]) (simp add: request_input_def)
  moreover have "money_column c' = money_column c1"
    using d by (auto elim!: and_then_InrE dest!: rederive_money split: prod.splits)
  ultimately show ?thesis by simp
qed

lemma expire_hold_money:
  assumes "expire_hold env task bid c = Inr (r, c')"
  shows "money_column c' = money_column c"
  using assms unfolding expire_hold_def Let_def
  by (elim find_thenE) (auto elim!: and_then_InrE split: option.splits if_splits dest!: svc_apply_money)

lemma mark_travelled_money:
  assumes "mark_travelled env bid c = Inr (r, c')"
  shows "money_column c' = money_column c"
  using assms unfolding mark_travelled_def Let_def
  by (elim find_thenE) (auto elim!: readiness_thenE split: if_splits sum.splits dest!: svc_apply_money)

lemma svc_update_money:
  assumes u: "svc_update env bid inp cd c = Inr (r, c')" and dist: "distinct (map b_id (db_bookings c))"
  shows "money_column c' = money_column c"
proof -
  from u obtain b b' lines c1 c2 where
    b: "b \<in> set (db_bookings c)" and a: "apply_update b inp lines (e_now env) = Inr b'" and
    w: "update_booking env b' c = Inr ((), c1)" and s: "same_capacity c1 c2" "same_capacity c2 c'"
    unfolding svc_update_def
    by (elim get_thenE) (auto elim!: and_then_InrE lift_result_InrE split: if_splits dest!: record_audit_same)
  have k: "b_id b' = b_id b" "b_collected b' = b_collected b" using a
    by (auto simp: apply_update_def apply_totals_def Let_def split: if_splits option.splits sum.splits)
  have "scoped_exec env (\<lambda>r. b_id r = b_id b \<and> True) (update_row b') c = Inr ((), c1)"
    using w k by (auto simp: update_booking_def elim!: and_then_InrE split: if_splits)
  from scoped_exec_Inr(1) [OF this dist b] have "money_column c1 = money_column c"
    using k by (auto simp: money_column_def update_row_def)
  with s show ?thesis by (simp add: money_same)
qed

lemma svc_extend_hold_money:
  assumes "svc_extend_hold env bid until c = Inr (r, c')"
  shows "money_column c' = money_column c"
proof -
  obtain b' c1 where w: "save_hold env b' c = Inr ((), c1)" and s: "same_capacity c1 c'"
    using assms unfolding svc_extend_hold_def
    by (elim find_thenE) (auto elim!: and_then_InrE lift_result_InrE dest!: record_audit_same)
  have "money_column c1 = money_column c" by (rule scoped_exec_money [OF w [unfolded save_hold_def]]) simp
  with money_same [OF s] show ?thesis by simp
qed

lemma service_step_money:
  assumes "service_step c c'" "distinct (map b_id (db_bookings c))"
  shows "money_column c' = money_column c"
  using assms
proof cases
  case (1 env bid rq r)
  show ?thesis by (rule transaction_keeps [where P = "\<lambda>x. money_column x = money_column c", OF 1]) (auto dest: svc_transition_money)
next
  case (2 env bid r)
  show ?thesis
    by (rule transaction_keeps [where P = "\<lambda>x. money_column x = money_column c", OF 2])
       (auto simp: svc_recompute_def elim!: find_thenE dest: rederive_money)
next
  case (3 env task bid r)
  show ?thesis by (rule transaction_keeps [where P = "\<lambda>x. money_column x = money_column c", OF 3]) (auto dest: expire_hold_money)
next
  case (4 env bid r)
  show ?thesis by (rule transaction_keeps [where P = "\<lambda>x. money_column x = money_column c", OF 4]) (auto dest: mark_travelled_money)
next
  case (5 env bid inp cd r)
  show ?thesis
    by (rule transaction_keeps [where P = "\<lambda>x. money_column x = money_column c", OF 5]) (auto dest: svc_update_money [OF _ assms(2)])
next
  case (6 env bid until r)
  show ?thesis by (rule transaction_keeps [where P = "\<lambda>x. money_column x = money_column c", OF 6]) (auto dest: svc_extend_hold_money)
qed

section \<open>Runs of the two services\<close>

text \<open>
  One step is one transaction of the payment service or of the booking service, by any caller at any
  time, committed or rolled back. Amounts in requests are \<open>int64\<close> values.
\<close>

inductive money_step :: "payment_db \<Rightarrow> payment_db \<Rightarrow> bool" where
  recorded: "within_transaction (pay_record env ri) db = (r, db') \<Longrightarrow> fits64 (ri_amount ri) \<Longrightarrow> money_step db db'"
| verified: "within_transaction (pay_verify env pid actor) db = (p, db') \<Longrightarrow> money_step db db'"
| reversed: "within_transaction (pay_reverse env vi) db = (p, db') \<Longrightarrow> money_step db db'"
| adjusted: "within_transaction (pay_adjust env ai) db = (p, db') \<Longrightarrow> fits64 (ai_amount ai) \<Longrightarrow> money_step db db'"
| refund_requested:
    "within_transaction (pay_request_refund env ai) db = (p, db') \<Longrightarrow> fits64 (ai_amount ai) \<Longrightarrow> money_step db db'"
| refund_decided: "within_transaction (pay_approve_refund env pid actor ap) db = (p, db') \<Longrightarrow> money_step db db'"
| booking_service: "service_step (pd_core db) c \<Longrightarrow> money_step db (db\<lparr>pd_core := c\<rparr>)"

lemma ledger_transaction:
  assumes "within_transaction m db = (r, db')" "ledger_ok db"
    and "\<And>x d. m db = Inr (x, d) \<Longrightarrow> ledger_ok d \<and> ledger_extends db d"
  shows "ledger_ok db' \<and> ledger_extends db db'"
  by (rule transaction_keeps [where P = "\<lambda>d. ledger_ok d \<and> ledger_extends db d", OF assms(1)]) (use assms in auto)

lemma booking_service_ok:
  assumes ok: "ledger_ok db" and st: "service_step (pd_core db) c"
  shows "ledger_ok (db\<lparr>pd_core := c\<rparr>)"
proof -
  have m: "money_column c = money_column (pd_core db)"
    using service_step_money [OF st] ok by (simp add: ledger_ok_def reconciled_def)
  have "map b_id (db_bookings c) = map b_id (db_bookings (pd_core db))"
    using arg_cong [OF m, of "map fst"] by (simp add: money_column_def comp_def)
  moreover have "b_collected b = ledger_sum (pd_payments db) (b_id b)" if "b \<in> set (db_bookings c)" for b
  proof -
    have "(b_id b, b_collected b) \<in> set (money_column (pd_core db))"
      unfolding m [symmetric] by (auto simp: money_column_def intro: that)
    then show ?thesis using ok by (auto simp: money_column_def ledger_ok_def reconciled_def)
  qed
  ultimately show ?thesis using ok by (simp add: ledger_ok_def reconciled_def)
qed

lemma money_step_ok: "money_step db db' \<Longrightarrow> ledger_ok db \<Longrightarrow> ledger_ok db' \<and> ledger_extends db db'"
proof (induction rule: money_step.induct)
  case (recorded env ri db r db')
  show ?case by (rule ledger_transaction [OF recorded(1,3)]) (rule pay_record_ok [OF recorded(3) _ recorded(2)])
next
  case (verified env pid actor db p db')
  show ?case by (rule ledger_transaction [OF verified]) (rule pay_status_change_ok(1) [OF verified(2)])
next
  case (reversed env vi db p db')
  show ?case by (rule ledger_transaction [OF reversed]) (rule pay_reverse_ok [OF reversed(2)])
next
  case (adjusted env ai db p db')
  show ?case by (rule ledger_transaction [OF adjusted(1,3)]) (rule pay_adjust_ok [OF adjusted(3) _ adjusted(2)])
next
  case (refund_requested env ai db p db')
  show ?case
    by (rule ledger_transaction [OF refund_requested(1,3)])
       (rule pay_request_refund_ok [OF refund_requested(3) _ refund_requested(2)])
next
  case (refund_decided env pid actor ap db p db')
  show ?case by (rule ledger_transaction [OF refund_decided]) (rule pay_status_change_ok(2) [OF refund_decided(2)])
next
  case (booking_service db c)
  then show ?case by (simp add: booking_service_ok)
qed

definition empty_ledger :: "payment_db \<Rightarrow> bool" where
  "empty_ledger db \<longleftrightarrow> pd_payments db = [] \<and> distinct (map b_id (db_bookings (pd_core db)))
     \<and> (\<forall>b \<in> set (db_bookings (pd_core db)). b_collected b = 0)"

interpretation ledger: invariant_machine empty_ledger money_step ledger_ok
proof
  show "ledger_ok s" if "empty_ledger s" for s
    using that by (simp add: empty_ledger_def ledger_ok_def reconciled_def ledger_sum_def)
  show "ledger_ok t" if "ledger_ok s" "money_step s t" for s t using money_step_ok [OF that(2,1)] by blast
qed

lemma ledger_run_extends:
  assumes "money_step\<^sup>*\<^sup>* db db'" "ledger_ok db"
  shows "ledger_extends db db'"
  using assms
proof (induction rule: rtranclp_induct)
  case (step y z)
  have "ledger_ok y" using ledger.run_good step.hyps(1) step.prems by blast
  then show ?case using step money_step_ok [OF step.hyps(2)] ledger_extends_trans by blast
qed simp

definition ex_pay_env :: "uuid \<Rightarrow> pay_env" where
  "ex_pay_env i = \<lparr>pe_booking = ex_env, pe_rates = Some [], pe_fresh = i, pe_audit = Some (\<lambda>_. None), pe_outbox = True\<rparr>"

definition ex_pay_db :: payment_db where
  "ex_pay_db = \<lparr>pd_core = ex_db\<lparr>db_bookings := [(ex_booking 11)\<lparr>b_collected := 0, b_balance := 1000, b_currency := ''SAR''\<rparr>]\<rparr>,
     pd_payments = [], pd_schedules = [], pd_promises = [], pd_settings = [], pd_snapshots = [], pd_audit = [], pd_outbox = []\<rparr>"

definition ex_charge :: "string \<Rightarrow> record_input" where
  "ex_charge key = \<lparr>ri_booking = 11, ri_amount = 700, ri_currency = ''sar'', ri_method = ''cash'', ri_reference = [],
     ri_note = [], ri_recorded_by = 5, ri_key = key, ri_auto_verify = True, ri_may_approve = True, ri_received = None\<rparr>"

definition ex_refund_input :: adjust_input where
  "ex_refund_input = \<lparr>ai_booking = 11, ai_amount = 200, ai_currency = [], ai_note = [], ai_actor = 5, ai_key = ''r''\<rparr>"

definition ex_after_charge :: payment_db where
  "ex_after_charge = snd (within_transaction (pay_record (ex_pay_env 31) (ex_charge ''k'')) ex_pay_db)"

definition ex_after_request :: payment_db where
  "ex_after_request = snd (within_transaction (pay_request_refund (ex_pay_env 32) ex_refund_input) ex_after_charge)"

definition ex_after_approval :: payment_db where
  "ex_after_approval = snd (within_transaction (pay_approve_refund (ex_pay_env 33) 32 6 True) ex_after_request)"

lemma ex_run: "empty_ledger ex_pay_db" "money_step\<^sup>*\<^sup>* ex_pay_db ex_after_charge" "money_step ex_after_charge ex_after_request"
  "money_step ex_after_request ex_after_approval"
proof -
  show "empty_ledger ex_pay_db" by (simp add: empty_ledger_def ex_pay_db_def)
  show "money_step\<^sup>*\<^sup>* ex_pay_db ex_after_charge"
    unfolding ex_after_charge_def
    by (intro r_into_rtranclp money_step.recorded, rule prod.collapse [symmetric]) (simp add: ex_charge_def fits64_def)
  show "money_step ex_after_charge ex_after_request"
    unfolding ex_after_request_def
    by (rule money_step.refund_requested, rule prod.collapse [symmetric]) (simp add: ex_refund_input_def fits64_def)
  show "money_step ex_after_request ex_after_approval"
    unfolding ex_after_approval_def by (rule money_step.refund_decided) (rule prod.collapse [symmetric])
qed

text \<open>
  C2. Bookings reconcile with the ledger. From a store with no payments, after any run of the payment
  and booking services, the collected amount of every booking is exactly the sum of its verified and
  approved ledger entries.
\<close>

theorem ledger_reconciles:
  assumes "empty_ledger db" "money_step\<^sup>*\<^sup>* db db'" "b \<in> set (db_bookings (pd_core db'))"
  shows "b_collected b = ledger_sum (pd_payments db') (b_id b)"
  using ledger.reachable_good [OF assms(1,2)] assms(3) by (simp add: ledger_ok_def reconciled_def)

theorem ledger_reconciles_witness:
  "\<exists>b \<in> set (db_bookings (pd_core ex_after_approval)). b_collected b = 500 \<and> ledger_sum (pd_payments ex_after_approval) (b_id b) = 500"
proof -
  have run: "money_step\<^sup>*\<^sup>* ex_pay_db ex_after_approval" using ex_run by (meson rtranclp.rtrancl_into_rtrancl)
  have "map (\<lambda>b. (b_id b, b_collected b)) (db_bookings (pd_core ex_after_approval)) = [(11, 500)]" by code_simp
  then obtain b where b: "b \<in> set (db_bookings (pd_core ex_after_approval))" "b_collected b = 500" by auto
  from ledger_reconciles [OF ex_run(1) run b(1)] b show ?thesis by auto
qed

text \<open>
  C3. The ledger is append-only. Along any run, every entry stays at its place with all its immutable
  columns and its note, and its status changes at most once, by a whitelisted transition that records
  the approver where one is required; new entries only come after it.
\<close>

theorem ledger_append_only:
  assumes "empty_ledger db0" "money_step\<^sup>*\<^sup>* db0 db" "money_step\<^sup>*\<^sup>* db db'" "i < length (pd_payments db)"
  shows "i < length (pd_payments db') \<and> entry_evolves (pd_payments db ! i) (pd_payments db' ! i)"
proof -
  have e: "ledger_extends db db'"
    by (rule ledger_run_extends [OF assms(3) ledger.reachable_good [OF assms(1,2)]])
  have n: "length (pd_payments db) \<le> length (pd_payments db')"
    using e unfolding ledger_extends_def by (auto dest!: list_all2_lengthD)
  have "entry_evolves (pd_payments db ! i) (take (length (pd_payments db)) (pd_payments db') ! i)"
    using e assms(4) unfolding ledger_extends_def by (rule list_all2_nthD)
  then show ?thesis using n assms(4) by simp
qed

theorem ledger_append_only_witness:
  "1 < length (pd_payments ex_after_approval)
   \<and> entry_evolves (pd_payments ex_after_request ! 1) (pd_payments ex_after_approval ! 1)
   \<and> p_status (pd_payments ex_after_request ! 1) \<noteq> p_status (pd_payments ex_after_approval ! 1)"
proof -
  have "map p_status (pd_payments ex_after_request) = [StatusVerified, StatusPendingApproval]" by code_simp
  then have l: "1 < length (pd_payments ex_after_request)" and s: "p_status (pd_payments ex_after_request ! 1) = StatusPendingApproval"
    by (cases "pd_payments ex_after_request"; auto)+
  have "map p_status (pd_payments ex_after_approval) = [StatusVerified, StatusApproved]" by code_simp
  then have "p_status (pd_payments ex_after_approval ! 1) = StatusApproved" by auto
  with s show ?thesis
    using ledger_append_only [OF ex_run(1) rtranclp.rtrancl_into_rtrancl [OF ex_run(2,3)] r_into_rtranclp [of money_step, OF ex_run(4)] l]
    by simp
qed

text \<open>
  C4. Segregation of duties. In every reachable ledger the sign and the status of an entry fit its
  kind, and an approved refund carries an approver who is not the person who requested it.
\<close>

theorem refund_segregation:
  assumes "empty_ledger db" "money_step\<^sup>*\<^sup>* db db'" "p \<in> set (pd_payments db')"
  shows "(p_event p = EventCharge \<longrightarrow> 0 < p_amount p \<and> p_status p \<in> {StatusUnverified, StatusVerified})
    \<and> (p_event p = EventReverse \<longrightarrow> p_amount p < 0 \<and> p_reverses p \<noteq> None)
    \<and> (p_event p = EventRefund \<longrightarrow> p_amount p < 0 \<and>
         (p_status p = StatusApproved \<longrightarrow> (\<exists>a. p_approved_by p = Some a \<and> a \<noteq> p_recorded_by p)))"
proof -
  have "entry_ok p" using ledger.reachable_good [OF assms(1,2)] assms(3) by (simp add: ledger_ok_def)
  then show ?thesis by (auto simp: entry_ok_def)
qed

theorem refund_segregation_witness:
  "\<exists>p \<in> set (pd_payments ex_after_approval). p_status p = StatusApproved \<and> p_amount p = - 200
     \<and> (\<exists>a. p_approved_by p = Some a \<and> a \<noteq> p_recorded_by p)"
proof -
  have run: "money_step\<^sup>*\<^sup>* ex_pay_db ex_after_approval" using ex_run by (meson rtranclp.rtrancl_into_rtrancl)
  have "map (\<lambda>p. (p_event p, p_status p, p_amount p)) (pd_payments ex_after_approval)
      = [(EventCharge, StatusVerified, 700), (EventRefund, StatusApproved, - 200)]" by code_simp
  then obtain p where p: "p \<in> set (pd_payments ex_after_approval)" "p_event p = EventRefund" "p_status p = StatusApproved"
    "p_amount p = - 200" by fastforce
  from refund_segregation [OF ex_run(1) run p(1)] p show ?thesis by blast
qed

section \<open>Idempotence\<close>

lemma find_by_key_present:
  assumes "booking_visible env db = Inr (vis, db)" "vis (p_booking q)" "q \<in> set (pd_payments db)"
    "distinct (map p_key (pd_payments db))"
  shows "find_by_key env (p_key q) db = Inr (q, db)"
proof -
  have "find (\<lambda>p. p_key p = p_key q \<and> vis (p_booking p)) (pd_payments db) = Some q"
    using find_unique [OF assms(4,3), of "\<lambda>p. vis (p_booking p)"] assms(2) by simp
  with assms(1) show ?thesis by (simp add: find_by_key_def)
qed

lemma same_ledger_visible:
  "same_ledger d d' \<Longrightarrow> booking_visible env d = Inr (vis, d) \<Longrightarrow> booking_visible env d' = Inr (vis, d')"
  by (auto simp: same_ledger_def booking_visible_def elim!: and_then_InrE lift_result_InrE)

text \<open>What \<open>record_tx\<close> leaves behind: the entry it returned, visible to the caller under its key.\<close>

lemma record_tx_found:
  assumes ok: "ledger_ok db" and run: "record_tx env inp cur st rcv db = Inr (p, db')"
    and h: "0 < ri_amount inp" "fits64 (ri_amount inp)" "st \<in> {StatusUnverified, StatusVerified}"
  shows "\<exists>t. find_by_key env (ri_key inp) db' = Inr (p\<lparr>p_received := t\<rparr>, db')"
  using run
proof (cases rule: record_tx_InrE)
  case replay
  then show ?thesis by (auto intro!: exI [of _ "p_received p"])
next
  case (fresh b c snap d1 b' d2)
  define e where "e = charge_entry env inp c st rcv snap"
  have e: "p_key e = ri_key inp" "p_booking e = ri_booking inp"
    and ne: "p_event e \<noteq> OtherEvent []" "p_status e \<noteq> OtherPayStatus []" using h by (auto simp: e_def)
  note i = fresh(2) [folded e_def] and f1 = fresh(3) and r = fresh(4) and s = fresh(5)
  obtain q t t' vis where q: "d1 = db\<lparr>pd_payments := pd_payments db @ [q]\<rparr>" "q = e\<lparr>p_received := t\<rparr>" "p = e\<lparr>p_received := t'\<rparr>"
    and v: "booking_visible env db = Inr (vis, db)" "vis (p_booking e)"
    by (rule insert_payment_Inr [OF i ne]) blast
  have v1: "booking_visible env d1 = Inr (vis, d1)"
    using v(1) by (auto simp: q(1) booking_visible_def elim!: and_then_InrE lift_result_InrE)
  have dist: "distinct (map b_id (db_bookings (pd_core d1)))" using ok by (simp add: q(1) ledger_ok_def reconciled_def)
  have v': "booking_visible env db' = Inr (vis, db')"
    by (rule same_ledger_visible [OF s recompute_booking_visible [OF r f1 dist v1]])
  have rx: "reconciled_except (ri_booking inp) d1"
    using append_stale(1) [of db q] ok e(2) q by (simp add: ledger_ok_def)
  have q': "q \<in> set (pd_payments db')"
    using recompute_booking_Inr(2) [OF r f1 rx] s q(1) by (simp add: same_ledger_def)
  have k: "distinct (map p_key (pd_payments db'))" using record_tx_ok [OF ok run h] by (simp add: ledger_ok_def)
  have "find_by_key env (p_key q) db' = Inr (q, db')"
    by (rule find_by_key_present [OF v' _ q' k]) (use v(2) q(2) in simp)
  then show ?thesis using q(2,3) e(1) by (auto intro!: exI [of _ t])
qed

lemma pay_record_InrE:
  assumes "pay_record env inp db = Inr ((p, evs), db')"
  obtains (recorded) st rcv cur where "st \<in> {StatusUnverified, StatusVerified}" "0 < ri_amount inp" "ri_key inp \<noteq> []" "ri_booking inp \<noteq> 0"
    "initial_charge_status (ri_auto_verify inp) (ri_may_approve inp) = Inr st"
    "resolve_received_at (ri_received inp) (pay_today env) = Inr rcv"
    "(if ri_currency inp = [] then Inr [] else normalize_currency (ri_currency inp)) = Inr cur"
    "find_by_key env (ri_key inp) db = Inr (p, db) \<and> db' = db
     \<or> (\<exists>e. find_by_key env (ri_key inp) db = Inl e) \<and> record_tx env inp cur st rcv db = Inr (p, db')"
proof -
  obtain st rcv cur where st: "initial_charge_status (ri_auto_verify inp) (ri_may_approve inp) = Inr st"
    and pos: "0 < ri_amount inp" "ri_key inp \<noteq> []" "ri_booking inp \<noteq> 0"
    and rc: "resolve_received_at (ri_received inp) (pay_today env) = Inr rcv"
    and cu: "(if ri_currency inp = [] then Inr [] else normalize_currency (ri_currency inp)) = Inr cur"
    and u: "unless_recorded env (ri_key inp) (\<lambda>p. ret (p, []))
         (and_then (record_tx env inp cur st rcv) (\<lambda>p. ret (p, [p]))) db = Inr ((p, evs), db')"
    using assms by (auto simp: pay_record_def elim!: and_then_InrE lift_result_InrE split: if_splits)
  have "st \<in> {StatusUnverified, StatusVerified}" using st by (auto simp: initial_charge_status_def split: if_splits)
  moreover have "find_by_key env (ri_key inp) db = Inr (p, db) \<and> db' = db
     \<or> (\<exists>e. find_by_key env (ri_key inp) db = Inl e) \<and> record_tx env inp cur st rcv db = Inr (p, db')"
    using u by (cases rule: unless_recorded_InrE) (auto elim!: and_then_InrE)
  ultimately show thesis using recorded st pos rc cu by blast
qed

lemma pay_record_found:
  assumes "ledger_ok db" "fits64 (ri_amount inp)" "pay_record env inp db = Inr ((p, evs), db')"
  shows "\<exists>t. find_by_key env (ri_key inp) db' = Inr (p\<lparr>p_received := t\<rparr>, db')"
  using assms(3)
proof (cases rule: pay_record_InrE)
  case (recorded st rcv cur)
  then show ?thesis using record_tx_found [OF assms(1) _ recorded(2) assms(2) recorded(1)]
    by (auto intro: exI [of _ "p_received p"])
qed

text \<open>Under a key no entry has, the ledger grows by exactly the charge that was asked for.\<close>

lemma pay_record_appends:
  assumes "ledger_ok db" "pay_record env inp db = Inr ((p, evs), db')" "ri_key inp \<notin> set (map p_key (pd_payments db))"
  shows "\<exists>q. pd_payments db' = pd_payments db @ [q] \<and> p_id q = p_id p \<and> p_key q = ri_key inp \<and> p_booking q = ri_booking inp
    \<and> p_amount q = ri_amount inp \<and> p_event q = EventCharge"
  using assms(2)
proof (cases rule: pay_record_InrE)
  case (recorded st rcv cur)
  have none: "find_by_key env (ri_key inp) db \<noteq> Inr (p, d)" for p d
  proof
    assume "find_by_key env (ri_key inp) db = Inr (p, d)"
    then have "p \<in> set (pd_payments db)" "p_key p = ri_key inp" by (rule find_by_key_Inr)+
    then show False using assms(3) by (metis imageI list.set_map)
  qed
  then have "record_tx env inp cur st rcv db = Inr (p, db')" using recorded(8) by blast
  then show ?thesis
  proof (cases rule: record_tx_InrE)
    case replay
    then show ?thesis using none by blast
  next
    case (fresh b c snap d1 b' d2)
    define e where "e = charge_entry env inp c st rcv snap"
    have e: "p_event e \<noteq> OtherEvent []" "p_status e \<noteq> OtherPayStatus []" using recorded(1) by (auto simp: e_def)
    obtain q t t' where q: "d1 = db\<lparr>pd_payments := pd_payments db @ [q]\<rparr>" "q = e\<lparr>p_received := t\<rparr>" "p = e\<lparr>p_received := t'\<rparr>"
      by (rule insert_payment_Inr [OF fresh(2) [folded e_def] e]) blast
    have "reconciled_except (ri_booking inp) d1"
      using append_stale(1) [of db q] assms(1) q by (simp add: ledger_ok_def e_def)
    then have "pd_payments d2 = pd_payments d1" using recompute_booking_Inr(2) [OF fresh(4,3)] by blast
    then show ?thesis using fresh(5) q by (intro exI [of _ q]) (simp add: same_ledger_def e_def)
  qed
qed

text \<open>
  C5. Recording is idempotent: a retry with the same request, whatever identifier it draws, returns the
  entry the first call stored under its idempotency key, publishes nothing and leaves the store as it is.
\<close>

theorem pay_record_idempotent:
  assumes "empty_ledger db0" "money_step\<^sup>*\<^sup>* db0 db" "fits64 (ri_amount inp)"
    and run: "pay_record env inp db = Inr ((p, evs), db')"
  shows "\<exists>t. pay_record (env\<lparr>pe_fresh := i\<rparr>) inp db' = Inr ((p\<lparr>p_received := t\<rparr>, []), db')"
  using run
proof (cases rule: pay_record_InrE)
  case (recorded st rcv cur)
  obtain t where k: "find_by_key env (ri_key inp) db' = Inr (p\<lparr>p_received := t\<rparr>, db')"
    using pay_record_found [OF ledger.reachable_good [OF assms(1,2)] assms(3) run] by blast
  have "find_by_key (env\<lparr>pe_fresh := i\<rparr>) = find_by_key env" "pay_today (env\<lparr>pe_fresh := i\<rparr>) = pay_today env"
    by (simp_all add: find_by_key_def booking_visible_def pay_today_def fun_eq_iff)
  then show ?thesis
    using recorded(2-7) k by (auto simp: pay_record_def unless_recorded_def intro!: exI [of _ t])
qed

theorem pay_record_idempotent_witness:
  "\<exists>p evs db'. pay_record (ex_pay_env 31) (ex_charge ''k'') ex_pay_db = Inr ((p, evs), db')
     \<and> (\<exists>t. pay_record (ex_pay_env 40) (ex_charge ''k'') db' = Inr ((p\<lparr>p_received := t\<rparr>, []), db'))"
proof -
  have "map_sum id (\<lambda>_. ()) (pay_record (ex_pay_env 31) (ex_charge ''k'') ex_pay_db) = Inr ()" by code_simp
  then obtain p evs db' where r: "pay_record (ex_pay_env 31) (ex_charge ''k'') ex_pay_db = Inr ((p, evs), db')"
    by (cases "pay_record (ex_pay_env 31) (ex_charge ''k'') ex_pay_db") auto
  have e: "(ex_pay_env 31)\<lparr>pe_fresh := 40\<rparr> = ex_pay_env 40" by (simp add: ex_pay_env_def)
  from pay_record_idempotent [OF ex_run(1) rtranclp.rtrancl_refl _ r, of 40] r show ?thesis
    by (auto simp: e ex_charge_def fits64_def)
qed

section \<open>Reversing twice\<close>

text \<open>
  \<open>Reverse\<close> only deduplicates by idempotency key: the same entry can be reversed again under another
  key, and the booking's collected amount goes below zero.
\<close>

definition ex_reverse :: "uuid \<Rightarrow> string \<Rightarrow> payment_db \<Rightarrow> payment_db" where
  "ex_reverse i key db = snd (within_transaction
     (pay_reverse (ex_pay_env i) \<lparr>vi_payment = 31, vi_actor = 5, vi_note = [], vi_key = key\<rparr>) db)"

lemma reverse_twice_overdraws:
  "\<exists>db. money_step\<^sup>*\<^sup>* ex_pay_db db \<and> map b_collected (db_bookings (pd_core db)) = [- 700]
     \<and> map p_amount (pd_payments db) = [700, - 700, - 700]"
proof (intro exI conjI)
  have st: "money_step d (ex_reverse i key d)" for i key d
    unfolding ex_reverse_def by (rule money_step.reversed) (rule prod.collapse [symmetric])
  show "money_step\<^sup>*\<^sup>* ex_pay_db (ex_reverse 33 ''b'' (ex_reverse 32 ''a'' ex_after_charge))"
    using ex_run(2) st by (meson rtranclp.rtrancl_into_rtrancl)
  show "map b_collected (db_bookings (pd_core (ex_reverse 33 ''b'' (ex_reverse 32 ''a'' ex_after_charge)))) = [- 700]"
    by code_simp
  show "map p_amount (pd_payments (ex_reverse 33 ''b'' (ex_reverse 32 ''a'' ex_after_charge))) = [700, - 700, - 700]"
    by code_simp
qed

end
