(* ===== verification/Payment_Plans.thy ===== *)
theory Payment_Plans
  imports Payment_Service
begin

text \<open>
  The rest of \<^verbatim>\<open>internal/app/payment\<close>: payment schedules and the batch job that marks them overdue, payment
  promises and the job that resolves them (\<^verbatim>\<open>promise.go\<close>), the money breakdown of a booking and the
  reporting currency of a branch.

  The task port of promises is an optional collaborator: its three calls are parameters that return an
  error or a result. The clock of a batch job is read once per round, so the job takes the sequence of
  readings.
\<close>

section \<open>Schedules\<close>

definition upsert_schedule_row :: "pay_env \<Rightarrow> schedule \<Rightarrow> (payment_db, unit) uow" where
  "upsert_schedule_row env s =
     and_then (require_booking env (sc_booking s)) (\<lambda>_.
     and_then (reading pd_schedules) (\<lambda>ss.
       if list_ex (\<lambda>x. sc_id x = sc_id s) ss
       then writing (\<lambda>db. db\<lparr>pd_schedules := map (\<lambda>x. if sc_id x = sc_id s \<and> sc_booking x = sc_booking s
              then x\<lparr>sc_due := sc_due s, sc_amount := sc_amount s, sc_currency := sc_currency s, sc_label := sc_label s,
                     sc_status := sc_status s, sc_updated := sc_updated s\<rparr> else x) ss\<rparr>)
       else writing (\<lambda>db. db\<lparr>pd_schedules := ss @ [s]\<rparr>)))"

definition get_schedule :: "pay_env \<Rightarrow> uuid \<Rightarrow> (payment_db, schedule option) uow" where
  "get_schedule env i =
     and_then (booking_visible env) (\<lambda>vis. reading (\<lambda>db. find (\<lambda>s. sc_id s = i \<and> vis (sc_booking s)) (pd_schedules db)))"

definition update_schedule_status :: "pay_env \<Rightarrow> uuid \<Rightarrow> schedule_status \<Rightarrow> (payment_db, unit) uow" where
  "update_schedule_status env i st =
     and_then (booking_visible env) (\<lambda>vis.
     and_then (reading pd_schedules) (\<lambda>ss.
       if list_ex (\<lambda>s. sc_id s = i \<and> vis (sc_booking s)) ss
       then writing (\<lambda>db. db\<lparr>pd_schedules := map (\<lambda>s. if sc_id s = i \<and> vis (sc_booking s)
              then s\<lparr>sc_status := st, sc_updated := pay_now env\<rparr> else s) ss\<rparr>)
       else fail (new_not_found ''schedule'')))"

record schedule_input =
  si_booking :: uuid
  si_due :: go_time
  si_amount :: int
  si_currency :: string
  si_label :: string
  si_actor :: uuid

definition pay_upsert_schedule :: "pay_env \<Rightarrow> schedule_input \<Rightarrow> (payment_db, schedule) uow" where
  "pay_upsert_schedule env inp =
     and_then (ensure (si_amount inp > 0) (new_validation ''amount must be > 0'')) (\<lambda>_.
     and_then (ensure (\<not> is_zero (si_due inp)) (new_validation ''due_at is required'')) (\<lambda>_.
     and_then (or_not_found ''booking'' (find_by_id env (si_booking inp))) (\<lambda>b.
     let now = pay_now env;
         sc = \<lparr>sc_id = pe_fresh env, sc_booking = si_booking inp, sc_due = utc (si_due inp), sc_amount = si_amount inp,
               sc_currency = (if si_currency inp = [] then b_currency b else si_currency inp),
               sc_label = trim_space (si_label inp), sc_status = ScheduleOpen, sc_reminded = None,
               sc_created = now, sc_updated = now\<rparr>
     in and_then (upsert_schedule_row env sc) (\<lambda>_.
        and_then (pay_log env (ScheduleEntry ''payment.schedule_created'' (si_actor inp) None sc (b_branch b))) (\<lambda>_.
          ret sc)))))"

definition pay_cancel_schedule :: "pay_env \<Rightarrow> uuid \<Rightarrow> uuid \<Rightarrow> (payment_db, schedule) uow" where
  "pay_cancel_schedule env i actor =
     and_then (or_not_found ''schedule'' (get_schedule env i)) (\<lambda>r.
     case r of None \<Rightarrow> fail (new_not_found ''schedule'')
     | Some sc \<Rightarrow>
         and_then (or_not_found ''booking'' (find_by_id env (sc_booking sc))) (\<lambda>b.
         and_then (update_schedule_status env i ScheduleCancelled) (\<lambda>_.
         let sc' = sc\<lparr>sc_status := ScheduleCancelled\<rparr> in
         and_then (pay_log env (ScheduleEntry ''payment.schedule_cancelled'' actor (Some sc) sc' (b_branch b))) (\<lambda>_.
           ret sc'))))"

text \<open>
  \<open>MarkSchedulesOverdue\<close>: the sub-select picks the first \<open>limit\<close> open schedules past their date by date and
  key, and the update hits those whose booking the caller sees.
\<close>

definition past_due :: "go_time \<Rightarrow> schedule \<Rightarrow> bool" where
  "past_due now s \<longleftrightarrow> sc_status s = ScheduleOpen \<and> before (sc_due s) now"

definition overdue_batch :: "go_time \<Rightarrow> nat \<Rightarrow> schedule list \<Rightarrow> uuid list" where
  "overdue_batch now limit ss =
     map sc_id (take limit (sort_key (\<lambda>s. nanos (sc_due s)) (sort_key sc_id (filter (past_due now) ss))))"

definition overdue :: "go_time \<Rightarrow> schedule \<Rightarrow> schedule" where
  "overdue now s = s\<lparr>sc_status := ScheduleOverdue, sc_updated := now\<rparr>"

definition mark_schedules_overdue :: "pay_env \<Rightarrow> go_time \<Rightarrow> nat \<Rightarrow> (payment_db, schedule list) uow" where
  "mark_schedules_overdue env now limit =
     and_then (booking_visible env) (\<lambda>vis.
     and_then (reading pd_schedules) (\<lambda>ss.
       let ids = overdue_batch now limit ss;
           hit = (\<lambda>s. sc_status s = ScheduleOpen \<and> sc_id s \<in> set ids \<and> vis (sc_booking s))
       in and_then (writing (\<lambda>db. db\<lparr>pd_schedules := map (\<lambda>s. if hit s then overdue now s else s) ss\<rparr>)) (\<lambda>_.
            ret (map (overdue now) (filter hit ss)))))"

definition branch_of_booking :: "payment_db \<Rightarrow> uuid \<Rightarrow> uuid" where
  "branch_of_booking db bid =
     (case find (\<lambda>b. b_id b = bid) (db_bookings (pd_core db)) of None \<Rightarrow> uuid_nil | Some b \<Rightarrow> b_branch b)"

fun log_overdue :: "pay_env \<Rightarrow> schedule list \<Rightarrow> (payment_db, unit) uow" where
  "log_overdue env [] = ret ()"
| "log_overdue env (s # ss) =
     (\<lambda>db. and_then (pay_log env (ScheduleEntry ''payment.schedule_overdue'' uuid_nil
              (Some (s\<lparr>sc_status := ScheduleOpen\<rparr>)) s (branch_of_booking db (sc_booking s)))) (\<lambda>_.
            log_overdue env ss) db)"

definition mark_round :: "pay_env \<Rightarrow> go_time \<Rightarrow> nat \<Rightarrow> (payment_db, schedule list) uow" where
  "mark_round env now batch =
     and_then (mark_schedules_overdue env now batch) (\<lambda>marked.
     and_then (log_overdue env marked) (\<lambda>_. ret marked))"

lemma pay_log_schedules: "pay_log env a db = Inr (u, db') \<Longrightarrow> pd_schedules db' = pd_schedules db \<and> pd_core db' = pd_core db"
  by (auto simp: pay_log_def split: option.splits)

lemma log_overdue_schedules:
  "log_overdue env ss db = Inr (u, db') \<Longrightarrow> pd_schedules db' = pd_schedules db \<and> pd_core db' = pd_core db"
  by (induction ss arbitrary: db) (auto elim!: and_then_InrE dest!: pay_log_schedules)

lemma mark_round_Inr:
  assumes "mark_round env now batch db = Inr (marked, db')"
  obtains vis hit where "booking_visible env db = Inr (vis, db)"
    "hit = (\<lambda>s. sc_status s = ScheduleOpen \<and> sc_id s \<in> set (overdue_batch now batch (pd_schedules db)) \<and> vis (sc_booking s))"
    "pd_schedules db' = map (\<lambda>s. if hit s then overdue now s else s) (pd_schedules db)"
    "marked = map (overdue now) (filter hit (pd_schedules db))" "pd_core db' = pd_core db"
proof -
  from assms obtain d where "mark_schedules_overdue env now batch db = Inr (marked, d)" "log_overdue env marked d = Inr ((), db')"
    by (auto simp: mark_round_def elim!: and_then_InrE)
  then show thesis
    using that log_overdue_schedules [of env marked d "()" db']
    by (auto simp: mark_schedules_overdue_def Let_def elim!: visible_thenE)
qed

text \<open>One full round leaves fewer open schedules, so the loop ends.\<close>

lemma mark_round_shrinks:
  assumes "mark_round env now batch db = Inr (marked, db')"
  shows "length (filter (\<lambda>s. sc_status s = ScheduleOpen) (pd_schedules db'))
    = length (filter (\<lambda>s. sc_status s = ScheduleOpen) (pd_schedules db)) - length marked
    \<and> length marked \<le> length (filter (\<lambda>s. sc_status s = ScheduleOpen) (pd_schedules db))"
  using assms
proof (rule mark_round_Inr)
  fix vis hit
  assume hit: "hit = (\<lambda>s. sc_status s = ScheduleOpen \<and> sc_id s \<in> set (overdue_batch now batch (pd_schedules db)) \<and> vis (sc_booking s))"
    and m: "marked = map (overdue now) (filter hit (pd_schedules db))"
    and d: "pd_schedules db' = map (\<lambda>s. if hit s then overdue now s else s) (pd_schedules db)"
  have "length (filter (\<lambda>s. sc_status s = ScheduleOpen) (map (\<lambda>s. if hit s then overdue now s else s) ss))
      + length (filter hit ss) = length (filter (\<lambda>s. sc_status s = ScheduleOpen) ss)" for ss
    by (induction ss) (auto simp: overdue_def hit)
  from this [of "pd_schedules db"] show ?thesis unfolding d m by (simp only: length_map) linarith
qed

definition open_schedules :: "payment_db \<Rightarrow> nat" where
  "open_schedules db = length (filter (\<lambda>s. sc_status s = ScheduleOpen) (pd_schedules db))"

text \<open>\<open>MarkOverdueSchedules\<close>: the loop with batches of \<open>Suc n\<close> schedules; \<open>nows i\<close> is the clock in round \<open>i\<close>.\<close>

function mark_overdue_loop ::
  "pay_env \<Rightarrow> (nat \<Rightarrow> go_time) \<Rightarrow> nat \<Rightarrow> nat \<Rightarrow> int \<Rightarrow> payment_db \<Rightarrow> (int \<times> error option) \<times> payment_db" where
  "mark_overdue_loop env nows n i acc db =
     (case mark_round env (nows i) (Suc n) db of
        Inl e \<Rightarrow> ((acc, Some e), db)
      | Inr (marked, db') \<Rightarrow>
          if length marked < Suc n then ((add64 acc (int (length marked)), None), db')
          else mark_overdue_loop env nows n (Suc i) (add64 acc (int (length marked))) db')"
  by pat_completeness auto
termination
proof (relation "measure (\<lambda>(env, nows, n, i, acc, db). open_schedules db)", simp)
  fix env nows n db r marked db' and i :: nat and acc :: int
  assume "mark_round env (nows i) (Suc n) db = Inr r" "(marked, db') = r" "\<not> length marked < Suc n"
  then show "((env, nows, n, Suc i, add64 acc (int (length marked)), db'), (env, nows, n, i, acc, db))
      \<in> measure (\<lambda>(env, nows, n, i, acc, db). open_schedules db)"
    using mark_round_shrinks [of env "nows i" "Suc n" db marked db'] by (auto simp: open_schedules_def)
qed

declare mark_overdue_loop.simps [simp del]

definition mark_overdue_schedules :: "pay_env \<Rightarrow> (nat \<Rightarrow> go_time) \<Rightarrow> int \<Rightarrow> payment_db \<Rightarrow> (int \<times> error option) \<times> payment_db" where
  "mark_overdue_schedules env nows batch =
     mark_overdue_loop env nows (nat (if batch \<le> 0 then 200 else batch) - 1) 0 0"

text \<open>
  The reference: one sweep over the table. A round hits exactly the picked schedules, all of them past
  due, and a short round hits them all.
\<close>

definition sweep :: "go_time \<Rightarrow> schedule list \<Rightarrow> schedule list" where
  "sweep t = map (\<lambda>s. if past_due t s then overdue t s else s)"

lemma batch_members:
  fixes t :: go_time and k :: nat
  assumes "distinct (map sc_id ss)"
  defines "picked \<equiv> take k (sort_key (\<lambda>s. nanos (sc_due s)) (sort_key sc_id (filter (past_due t) ss)))"
  shows "s \<in> set ss \<Longrightarrow> sc_id s \<in> set (overdue_batch t k ss) \<longleftrightarrow> s \<in> set picked"
    "set picked \<subseteq> set (filter (past_due t) ss)" "length picked = min k (length (filter (past_due t) ss))" "distinct picked"
proof -
  have sub: "set picked \<subseteq> set (filter (past_due t) ss)" unfolding picked_def using set_take_subset by fastforce
  then show "set picked \<subseteq> set (filter (past_due t) ss)" .
  show "length picked = min k (length (filter (past_due t) ss))" by (simp add: picked_def min.commute)
  show "distinct picked" unfolding picked_def using assms(1) by (intro distinct_take) (simp add: distinct_map)
  show "sc_id s \<in> set (overdue_batch t k ss) \<longleftrightarrow> s \<in> set picked" if "s \<in> set ss"
  proof -
    have "overdue_batch t k ss = map sc_id picked" by (simp add: overdue_batch_def picked_def)
    moreover have "inj_on sc_id (set ss)" using assms(1) by (simp add: distinct_map)
    moreover have "set picked \<subseteq> set ss" using sub by auto
    ultimately show ?thesis using that by (auto simp: inj_on_def)
  qed
qed

definition sees_all :: "pay_env \<Rightarrow> payment_db \<Rightarrow> bool" where
  "sees_all env db \<longleftrightarrow> (case booking_visible env db of Inl _ \<Rightarrow> False | Inr (vis, _) \<Rightarrow> list_all (\<lambda>s. vis (sc_booking s)) (pd_schedules db))"

lemma log_overdue_total:
  assumes "pe_audit env = None \<or> pe_audit env = Some (\<lambda>_. None)"
  shows "\<exists>db'. log_overdue env ss db = Inr ((), db')"
  using assms by (induction ss arbitrary: db) (auto simp: pay_log_def split: option.splits)

lemma mark_round_full:
  assumes seen: "sees_all env db" and au: "pe_audit env = None \<or> pe_audit env = Some (\<lambda>_. None)"
    and dist: "distinct (map sc_id (pd_schedules db))"
  obtains hit marked db' where "mark_round env t k db = Inr (marked, db')"
    "pd_schedules db' = map (\<lambda>s. if hit s then overdue t s else s) (pd_schedules db)"
    "\<And>s. s \<in> set (pd_schedules db) \<Longrightarrow> hit s \<Longrightarrow> past_due t s"
    "length marked = length (filter hit (pd_schedules db))"
    "length marked = min k (length (filter (past_due t) (pd_schedules db)))"
    "length marked < k \<Longrightarrow> (\<forall>s \<in> set (pd_schedules db). past_due t s \<longrightarrow> hit s)" "sees_all env db'"
proof -
  let ?ss = "pd_schedules db"
  let ?p = "take k (sort_key (\<lambda>s. nanos (sc_due s)) (sort_key sc_id (filter (past_due t) ?ss)))"
  obtain vis where v: "booking_visible env db = Inr (vis, db)" "\<And>s. s \<in> set ?ss \<Longrightarrow> vis (sc_booking s)"
    using seen by (auto simp: sees_all_def list_all_iff elim: booking_visible_Inr split: sum.splits)
  have "\<exists>m d. mark_round env t k db = Inr (m, d)"
  proof -
    obtain m d where "mark_schedules_overdue env t k db = Inr (m, d)"
      using v(1) by (simp add: mark_schedules_overdue_def Let_def)
    then show ?thesis using log_overdue_total [OF au, of m d] by (auto simp: mark_round_def)
  qed
  then obtain marked db' where r: "mark_round env t k db = Inr (marked, db')" by blast
  then obtain vis' hit where h: "booking_visible env db = Inr (vis', db)"
    "hit = (\<lambda>s. sc_status s = ScheduleOpen \<and> sc_id s \<in> set (overdue_batch t k ?ss) \<and> vis' (sc_booking s))"
    "pd_schedules db' = map (\<lambda>s. if hit s then overdue t s else s) ?ss"
    "marked = map (overdue t) (filter hit ?ss)" "pd_core db' = pd_core db"
    by (rule mark_round_Inr) blast
  note bm = batch_members [OF dist, where k = k and t = t]
  have hit: "hit s \<longleftrightarrow> s \<in> set ?p" if "s \<in> set ?ss" for s
    using that v h(1,2) bm(1) [OF that] bm(2) by (auto simp: past_due_def)
  have "set (filter hit ?ss) = set ?p" using hit bm(2) by auto
  moreover have "distinct (filter hit ?ss)" using dist by (simp add: distinct_map)
  ultimately have len: "length (filter hit ?ss) = length ?p" using bm(4) by (metis distinct_card)
  have m: "length marked = length (filter hit ?ss)" using h(4) by simp
  have short: "\<forall>s \<in> set ?ss. past_due t s \<longrightarrow> hit s" if "length marked < k"
  proof -
    have "length (filter (past_due t) ?ss) < k" using that m len bm(3) by simp
    then have "set ?p = set (filter (past_due t) ?ss)" by simp
    then show ?thesis using hit by auto
  qed
  have "vis' = vis" using h(1) v(1) by simp
  moreover have "booking_visible env db' = Inr (vis', db')"
    using h(1,5) by (auto simp: booking_visible_def elim!: and_then_InrE lift_result_InrE)
  ultimately have "sees_all env db'" using v(2) by (auto simp: sees_all_def list_all_iff h(3) overdue_def)
  moreover have "past_due t s" if "s \<in> set ?ss" "hit s" for s using hit [OF that(1)] that(2) bm(2) by auto
  moreover have "length marked = min k (length (filter (past_due t) ?ss))" using m len bm(3) by simp
  ultimately show thesis by (intro that [OF r h(3) _ m _ short])
qed

lemma sweep_absorbs:
  assumes "\<And>s. s \<in> set ss \<Longrightarrow> hit s \<Longrightarrow> past_due t s"
  shows "sweep t (map (\<lambda>s. if hit s then overdue t s else s) ss) = sweep t ss"
    "length (filter (past_due t) (map (\<lambda>s. if hit s then overdue t s else s) ss)) + length (filter hit ss)
       = length (filter (past_due t) ss)"
  using assms
proof (induction ss)
  case (Cons s ss)
  have o: "\<not> past_due t (overdue t s)" by (simp add: past_due_def overdue_def)
  { case 1
    with Cons.IH(1) o show ?case by (simp add: sweep_def) }
  { case 2
    with Cons.IH(2) o show ?case by simp }
qed (simp_all add: sweep_def)

lemma mark_overdue_loop_sweep:
  assumes "sees_all env db" "pe_audit env = None \<or> pe_audit env = Some (\<lambda>_. None)"
    "distinct (map sc_id (pd_schedules db))" "0 \<le> acc"
    "fits64 (acc + int (length (filter (past_due t) (pd_schedules db))))"
  shows "\<exists>db'. mark_overdue_loop env (\<lambda>_. t) n i acc db
      = ((acc + int (length (filter (past_due t) (pd_schedules db))), None), db') \<and> pd_schedules db' = sweep t (pd_schedules db)"
  using assms
proof (induction "open_schedules db" arbitrary: db i acc rule: less_induct)
  case less
  obtain hit marked db1 where r: "mark_round env t (Suc n) db = Inr (marked, db1)"
    and s1: "pd_schedules db1 = map (\<lambda>s. if hit s then overdue t s else s) (pd_schedules db)"
    and hp: "\<And>s. s \<in> set (pd_schedules db) \<Longrightarrow> hit s \<Longrightarrow> past_due t s"
    and m: "length marked = length (filter hit (pd_schedules db))"
    and all: "length marked < Suc n \<Longrightarrow> (\<forall>s \<in> set (pd_schedules db). past_due t s \<longrightarrow> hit s)" and seen: "sees_all env db1"
    by (rule mark_round_full [OF less.prems(1-3), of t "Suc n"]) blast
  note ab = sweep_absorbs [of "pd_schedules db" hit t, OF hp]
  let ?c = "\<lambda>d. int (length (filter (past_due t) (pd_schedules d)))"
  have c: "?c db1 + int (length marked) = ?c db" using ab(2) m s1 by (metis of_nat_add)
  have fa: "add64 acc (int (length marked)) = acc + int (length marked)"
    by (rule add64_id) (use less.prems(4,5) c in \<open>auto simp: fits64_def\<close>)
  show ?case
  proof (cases "length marked < Suc n")
    case True
    have "pd_schedules db1 = sweep t (pd_schedules db)" using s1 all [OF True] hp by (auto simp: sweep_def)
    moreover have "filter (past_due t) (pd_schedules db1) = []"
      using calculation by (auto simp: sweep_def filter_empty_conv past_due_def overdue_def)
    ultimately show ?thesis using r True fa c by (subst mark_overdue_loop.simps) auto
  next
    case False
    have less': "open_schedules db1 < open_schedules db"
      using mark_round_shrinks [OF r] False unfolding open_schedules_def by linarith
    have d: "distinct (map sc_id (pd_schedules db1))"
    proof -
      have "map sc_id (pd_schedules db1) = map sc_id (pd_schedules db)" by (simp add: s1 overdue_def)
      with less.prems(3) show ?thesis by simp
    qed
    have "fits64 (acc + int (length marked) + ?c db1)" using less.prems(5) c by (simp add: algebra_simps)
    from less.hyps [OF less' seen less.prems(2) d _ this, of "Suc i"] less.prems(4)
    obtain db2 where "mark_overdue_loop env (\<lambda>_. t) n (Suc i) (acc + int (length marked)) db1
        = ((acc + int (length marked) + ?c db1, None), db2)" "pd_schedules db2 = sweep t (pd_schedules db1)" by auto
    then show ?thesis using r False fa c ab(1) s1 by (subst mark_overdue_loop.simps) (auto simp: algebra_simps)
  qed
qed

text \<open>
  C32. The overdue job always ends and equals one sweep. Whatever the batch size, when the caller sees all
  schedules and the audit recorder accepts, the batches together mark exactly the open schedules past
  their date, touch no other schedule, and the returned count is their number; a second run at the same
  time marks none.
\<close>

theorem mark_overdue_is_sweep:
  assumes "sees_all env db" "pe_audit env = None \<or> pe_audit env = Some (\<lambda>_. None)"
    "distinct (map sc_id (pd_schedules db))" "fits64 (int (length (pd_schedules db)))"
  shows "\<exists>db'. mark_overdue_schedules env (\<lambda>_. t) batch db
      = ((int (length (filter (past_due t) (pd_schedules db))), None), db')
    \<and> pd_schedules db' = sweep t (pd_schedules db) \<and> filter (past_due t) (pd_schedules db') = []"
proof -
  have "fits64 (0 + int (length (filter (past_due t) (pd_schedules db))))"
    using assms(4) length_filter_le [of "past_due t" "pd_schedules db"] unfolding fits64_def by linarith
  from mark_overdue_loop_sweep [OF assms(1-3) _ this] obtain db' where
    "mark_overdue_schedules env (\<lambda>_. t) batch db = ((int (length (filter (past_due t) (pd_schedules db))), None), db')"
    "pd_schedules db' = sweep t (pd_schedules db)"
    unfolding mark_overdue_schedules_def by fastforce
  moreover have "filter (past_due t) (sweep t ss) = []" for ss
    by (auto simp: sweep_def filter_empty_conv past_due_def overdue_def)
  ultimately show ?thesis by auto
qed

definition ex_schedule :: "uuid \<Rightarrow> int \<Rightarrow> schedule_status \<Rightarrow> schedule" where
  "ex_schedule i day st = \<lparr>sc_id = i, sc_booking = 11, sc_due = midnight day, sc_amount = 100, sc_currency = ''SAR'',
     sc_label = [], sc_status = st, sc_reminded = None, sc_created = midnight 738000, sc_updated = midnight 738000\<rparr>"

definition ex_plan_db :: payment_db where
  "ex_plan_db = ex_pay_db\<lparr>pd_schedules := [ex_schedule 21 738100 ScheduleOpen, ex_schedule 22 738200 ScheduleCancelled,
     ex_schedule 23 738050 ScheduleOpen, ex_schedule 24 740000 ScheduleOpen]\<rparr>"

theorem mark_overdue_is_sweep_witness:
  "\<exists>db'. mark_overdue_schedules (ex_pay_env 31) (\<lambda>_. midnight 739000) 1 ex_plan_db = ((2, None), db')
     \<and> map sc_status (pd_schedules db') = [ScheduleOverdue, ScheduleCancelled, ScheduleOverdue, ScheduleOpen]"
proof -
  have v: "sees_all (ex_pay_env 31) ex_plan_db" by code_simp
  have a: "pe_audit (ex_pay_env 31) = None \<or> pe_audit (ex_pay_env 31) = Some (\<lambda>_. None)" by (simp add: ex_pay_env_def)
  have d: "distinct (map sc_id (pd_schedules ex_plan_db))" "fits64 (int (length (pd_schedules ex_plan_db)))"
    by (simp_all add: ex_plan_db_def ex_schedule_def fits64_def)
  have c: "length (filter (past_due (midnight 739000)) (pd_schedules ex_plan_db)) = 2"
    "map sc_status (sweep (midnight 739000) (pd_schedules ex_plan_db)) = [ScheduleOverdue, ScheduleCancelled, ScheduleOverdue, ScheduleOpen]"
    by (code_simp, code_simp)
  from mark_overdue_is_sweep [OF v a d, of "midnight 739000" 1] c show ?thesis by auto
qed

section \<open>Promises\<close>

record promise_tasks =
  tp_follow_up :: "promise \<Rightarrow> uuid \<Rightarrow> uuid result"
  tp_broken :: "promise \<Rightarrow> uuid \<Rightarrow> error option"
  tp_close :: "uuid \<Rightarrow> bool \<Rightarrow> string \<Rightarrow> error option"

definition insert_promise :: "pay_env \<Rightarrow> promise \<Rightarrow> (payment_db, unit) uow" where
  "insert_promise env p =
     and_then (require_booking env (pr_booking p)) (\<lambda>_.
     and_then (reading pd_promises) (\<lambda>ps.
       if list_ex (\<lambda>q. pr_id q = pr_id p) ps then fail (Plain ''duplicate key value'')
       else writing (\<lambda>db. db\<lparr>pd_promises := ps @ [p]\<rparr>)))"

definition get_promise :: "pay_env \<Rightarrow> uuid \<Rightarrow> (payment_db, promise) uow" where
  "get_promise env i =
     and_then (booking_visible env) (\<lambda>vis.
     and_then (reading (\<lambda>db. find (\<lambda>p. pr_id p = i \<and> vis (pr_booking p)) (pd_promises db))) (\<lambda>r.
       case r of None \<Rightarrow> fail (new_not_found ''payment promise'') | Some p \<Rightarrow> ret p))"

definition resolve_promise_row :: "pay_env \<Rightarrow> promise \<Rightarrow> (payment_db, bool) uow" where
  "resolve_promise_row env p =
     and_then (booking_visible env) (\<lambda>vis.
     and_then (reading pd_promises) (\<lambda>ps.
       let hit = (\<lambda>q. pr_id q = pr_id p \<and> pr_status q = PromiseOpen \<and> vis (pr_booking q)) in
       and_then (writing (\<lambda>db. db\<lparr>pd_promises := map (\<lambda>q. if hit q
             then q\<lparr>pr_status := pr_status p, pr_resolved := pr_resolved p\<rparr> else q) ps\<rparr>)) (\<lambda>_.
         ret (length (filter hit ps) = 1))))"

definition sum_collected_since :: "pay_env \<Rightarrow> uuid \<Rightarrow> string \<Rightarrow> go_time \<Rightarrow> (payment_db, int) uow" where
  "sum_collected_since env bid cur since =
     and_then (booking_visible env) (\<lambda>vis.
     and_then (reading (\<lambda>db. if vis bid
         then sum_list (map p_amount (filter (\<lambda>p. p_booking p = bid \<and> p_currency p = cur \<and> \<not> before (p_created p) since
                \<and> counts_toward_collected p) (pd_payments db))) else 0)) scan_int64)"

definition effective :: "pay_env \<Rightarrow> promise \<Rightarrow> (payment_db, promise_status) uow" where
  "effective env p =
     (if pr_status p \<noteq> PromiseOpen then ret (pr_status p)
      else and_then (sum_collected_since env (pr_booking p) (pr_currency p) (pr_created p)) (\<lambda>c.
             ret (promise_outcome p c (pay_today env))))"

definition record_promise :: "pay_env \<Rightarrow> uuid \<Rightarrow> string \<Rightarrow> promise \<Rightarrow> promise option \<Rightarrow> (payment_db, unit) uow" where
  "record_promise env actor action p before_p = pay_log env (PromiseEntry action actor before_p p)"

record promise_input =
  mi_booking :: uuid
  mi_amount :: int
  mi_currency :: string
  mi_promised_on :: go_time
  mi_note :: string
  mi_actor :: uuid

definition promise_create :: "pay_env \<Rightarrow> promise_tasks option \<Rightarrow> promise_input \<Rightarrow> (payment_db, promise) uow" where
  "promise_create env tasks inp =
     and_then (or_not_found ''booking'' (find_by_id env (mi_booking inp))) (\<lambda>b.
     if b_status b = StatusCancelled then fail (new_invalid_state ''cannot add a payment promise to a cancelled booking'')
     else
     let booking_cur = to_upper (trim_space (b_currency b)) in
     and_then (lift_result (if trim_space (mi_currency inp) \<noteq> [] then normalize_currency (mi_currency inp) else Inr booking_cur)) (\<lambda>cur.
     if cur \<noteq> booking_cur
     then fail (new_validation (''currency must match the booking currency ('' @ booking_cur @ '')''))
     else
     let p = \<lparr>pr_id = pe_fresh env, pr_booking = b_id b, pr_branch = b_branch b, pr_amount = mi_amount inp, pr_currency = cur,
              pr_promised_on = date_of (mi_promised_on inp), pr_note = trim_space (mi_note inp), pr_status = PromiseOpen,
              pr_task = None, pr_created_by = mi_actor inp, pr_created = pay_now env, pr_resolved = None\<rparr>
     in case validate_new p (pay_today env) of
          Some e \<Rightarrow> fail e
        | None \<Rightarrow>
            and_then (case tasks of None \<Rightarrow> ret p
                      | Some t \<Rightarrow> and_then (lift_result (tp_follow_up t p (b_owner b))) (\<lambda>i. ret (p\<lparr>pr_task := Some i\<rparr>))) (\<lambda>p.
            and_then (insert_promise env p) (\<lambda>_.
            and_then (record_promise env (mi_actor inp) ''payment.promise_created'' p None) (\<lambda>_.
              ret p)))))"

definition close_task :: "promise_tasks option \<Rightarrow> promise \<Rightarrow> bool \<Rightarrow> string \<Rightarrow> (payment_db, unit) uow" where
  "close_task tasks p finished outcome =
     (case (pr_task p, tasks) of
        (Some i, Some t) \<Rightarrow> (case tp_close t i finished outcome of Some e \<Rightarrow> fail e | None \<Rightarrow> ret ())
      | _ \<Rightarrow> ret ())"

definition promise_cancel :: "pay_env \<Rightarrow> promise_tasks option \<Rightarrow> uuid \<Rightarrow> uuid \<Rightarrow> (payment_db, promise) uow" where
  "promise_cancel env tasks i actor =
     and_then (get_promise env i) (\<lambda>p.
     and_then (effective env p) (\<lambda>eff.
     if eff \<noteq> PromiseOpen then fail (new_invalid_state (''promise is already '' @ promise_status_str eff))
     else
     and_then (lift_result (promise_resolve p PromiseCancelled (e_now (pe_booking env)))) (\<lambda>p'.
     and_then (resolve_promise_row env p') (\<lambda>ok.
     if \<not> ok then fail (new_invalid_state ''promise is no longer open'')
     else
     and_then (close_task tasks p' False ''promise_cancelled'') (\<lambda>_.
     and_then (record_promise env actor ''payment.promise_cancelled'' p' (Some p)) (\<lambda>_.
       ret p'))))))"

text \<open>\<open>resolve\<close>; the result is whether the row changed and the owner to notify.\<close>

definition promise_resolve_tx ::
  "pay_env \<Rightarrow> promise_tasks option \<Rightarrow> promise \<Rightarrow> promise_status \<Rightarrow> (payment_db, bool \<times> uuid) uow" where
  "promise_resolve_tx env tasks p to =
     and_then (lift_result (promise_resolve p to (e_now (pe_booking env)))) (\<lambda>p'.
     and_then (resolve_promise_row env p') (\<lambda>ok.
     if \<not> ok then ret (False, uuid_nil)
     else
     and_then (if to = PromiseKept then close_task tasks p' True ''promise_kept'' else ret ()) (\<lambda>_.
     and_then (if to = PromiseBroken
               then (\<lambda>db. case find_by_id env (pr_booking p') db of Inl _ \<Rightarrow> Inr (uuid_nil, db) | Inr (b, db') \<Rightarrow> Inr (b_owner b, db'))
               else ret uuid_nil) (\<lambda>owner.
     and_then (case tasks of
                 Some t \<Rightarrow> if to = PromiseBroken \<and> owner \<noteq> uuid_nil
                           then (case tp_broken t p' owner of Some e \<Rightarrow> fail e | None \<Rightarrow> ret ()) else ret ()
               | None \<Rightarrow> ret ()) (\<lambda>_.
     and_then (record_promise env uuid_nil (''payment.promise_'' @ promise_status_str to) p' (Some p)) (\<lambda>_.
       ret (True, owner)))))))"

text \<open>
  \<open>ResolveDue\<close>: pages of 200 open promises by key, each promise resolved in its own transaction; a failed
  one is skipped and its error kept. The counters are \<open>(kept, broken)\<close>.
\<close>

definition promise_batch :: nat where "promise_batch = 200"

definition list_open_promises :: "pay_env \<Rightarrow> uuid \<Rightarrow> nat \<Rightarrow> (payment_db, promise list) uow" where
  "list_open_promises env after_id limit =
     and_then (booking_visible env) (\<lambda>vis.
       reading (\<lambda>db. take limit (sort_key pr_id
         (filter (\<lambda>p. pr_status p = PromiseOpen \<and> after_id < pr_id p \<and> vis (pr_booking p)) (pd_promises db)))))"

definition resolve_one ::
  "pay_env \<Rightarrow> promise_tasks option \<Rightarrow> promise \<Rightarrow> payment_db \<Rightarrow> (promise_status option \<times> error option) \<times> payment_db" where
  "resolve_one env tasks p db =
     (case effective env p db of
        Inl e \<Rightarrow> ((None, Some e), db)
      | Inr (outcome, _) \<Rightarrow>
          if outcome = PromiseOpen then ((None, None), db)
          else case within_transaction (promise_resolve_tx env tasks p outcome) db of
                 (Inl e, db') \<Rightarrow> ((None, Some e), db')
               | (Inr (changed, _), db') \<Rightarrow> ((if changed then Some outcome else None, None), db'))"

fun resolve_page ::
  "pay_env \<Rightarrow> promise_tasks option \<Rightarrow> promise list \<Rightarrow> int \<times> int \<Rightarrow> error list \<Rightarrow> payment_db
     \<Rightarrow> (int \<times> int) \<times> error list \<times> payment_db" where
  "resolve_page env tasks [] counts errs db = (counts, errs, db)"
| "resolve_page env tasks (p # ps) (kept, broken) errs db =
     (let ((out, e), db') = resolve_one env tasks p db in
      resolve_page env tasks ps
        (case out of None \<Rightarrow> (kept, broken) | Some st \<Rightarrow> if st = PromiseKept then (add64 kept 1, broken) else (kept, add64 broken 1))
        (case e of None \<Rightarrow> errs | Some x \<Rightarrow> errs @ [x]) db')"

lemma resolve_row_ids: "resolve_promise_row env p db = Inr (ok, db') \<Longrightarrow> map pr_id (pd_promises db') = map pr_id (pd_promises db)"
  by (auto simp: resolve_promise_row_def Let_def elim!: visible_thenE)

lemma pay_log_promises: "pay_log env a db = Inr (u, db') \<Longrightarrow> pd_promises db' = pd_promises db"
  by (auto simp: pay_log_def split: option.splits)

lemma close_task_reads: "close_task ts p f o' db = Inr (u, db') \<Longrightarrow> db' = db"
  by (auto simp: close_task_def split: option.splits)

text \<open>The only write of a resolution to the promises is the guarded update of its row.\<close>

lemma promise_resolve_tx_Inr:
  assumes "promise_resolve_tx env ts p to db = Inr (r, db')"
  obtains p' ok d where "promise_resolve p to (e_now (pe_booking env)) = Inr p'" "resolve_promise_row env p' db = Inr (ok, d)"
    "pd_promises db' = pd_promises d"
proof -
  from assms obtain p' ok d where p': "promise_resolve p to (e_now (pe_booking env)) = Inr p'"
    and w: "resolve_promise_row env p' db = Inr (ok, d)"
    and k: "(if \<not> ok then ret (False, uuid_nil)
     else
     and_then (if to = PromiseKept then close_task ts p' True ''promise_kept'' else ret ()) (\<lambda>_.
     and_then (if to = PromiseBroken
               then (\<lambda>db. case find_by_id env (pr_booking p') db of Inl _ \<Rightarrow> Inr (uuid_nil, db) | Inr (b, db') \<Rightarrow> Inr (b_owner b, db'))
               else ret uuid_nil) (\<lambda>owner.
     and_then (case ts of
                 Some t \<Rightarrow> if to = PromiseBroken \<and> owner \<noteq> uuid_nil
                           then (case tp_broken t p' owner of Some e \<Rightarrow> fail e | None \<Rightarrow> ret ()) else ret ()
               | None \<Rightarrow> ret ()) (\<lambda>_.
     and_then (record_promise env uuid_nil (''payment.promise_'' @ promise_status_str to) p' (Some p)) (\<lambda>_.
       ret (True, owner)))))) d = Inr (r, db')"
    unfolding promise_resolve_tx_def by (elim and_then_InrE lift_result_InrE) auto
  have f: "(case find_by_id env (pr_booking p') x of Inl _ \<Rightarrow> Inr (uuid_nil, x) | Inr (b, y) \<Rightarrow> Inr (b_owner b, y)) = Inr (o1, z)
      \<Longrightarrow> z = x" for x o1 z
    by (auto split: sum.splits dest: find_by_id_Inr(1))
  have "pd_promises db' = pd_promises d"
    using k by (auto simp: record_promise_def split: if_splits option.splits elim!: and_then_InrE
        dest!: close_task_reads f pay_log_promises)
  with p' w show thesis by (rule that)
qed

lemma resolve_one_ids: "resolve_one env ts p db = (r, db') \<Longrightarrow> map pr_id (pd_promises db') = map pr_id (pd_promises db)"
  by (auto simp: resolve_one_def within_transaction_def split: sum.splits if_splits prod.splits
      elim!: promise_resolve_tx_Inr dest!: resolve_row_ids)

lemma resolve_page_ids: "map pr_id (pd_promises (snd (snd (resolve_page env ts ps c errs db)))) = map pr_id (pd_promises db)"
proof (induction ps arbitrary: c errs db)
  case (Cons p ps)
  obtain kept broken where c: "c = (kept, broken)" by (cases c)
  obtain out e d where r: "resolve_one env ts p db = ((out, e), d)" by (metis prod.collapse)
  show ?case using Cons.IH resolve_one_ids [OF r] by (simp add: c r)
qed simp

definition promises_after :: "uuid \<Rightarrow> payment_db \<Rightarrow> nat" where
  "promises_after i db = length (filter (\<lambda>j. i < j) (map pr_id (pd_promises db)))"

lemma list_open_Inr:
  assumes "list_open_promises env i k db = Inr (ps, db')"
  shows "db' = db" "set ps \<subseteq> set (pd_promises db)" "\<forall>p \<in> set ps. i < pr_id p"
  using assms by (auto simp: list_open_promises_def elim!: visible_thenE dest!: in_set_takeD)

lemma page_advances:
  assumes "list_open_promises env i k db = Inr (ps, db')" "ps \<noteq> []"
    "map pr_id (pd_promises d) = map pr_id (pd_promises db)"
  shows "promises_after (pr_id (last ps)) d < promises_after i db"
proof -
  let ?ids = "map pr_id (pd_promises db)"
  have l: "i < pr_id (last ps)" "pr_id (last ps) \<in> set ?ids"
    using list_open_Inr [OF assms(1)] last_in_set [OF assms(2)] by auto
  have "length (filter ((<) (pr_id (last ps))) xs) \<le> length (filter ((<) i) xs)" for xs
    using l(1) by (induction xs) auto
  then have "length (filter ((<) (pr_id (last ps))) xs) < length (filter ((<) i) xs)" if "pr_id (last ps) \<in> set xs" for xs
    using that l(1) by (induction xs) (auto simp: less_Suc_eq_le)
  from this [OF l(2)] show ?thesis unfolding promises_after_def assms(3) .
qed

function resolve_due_loop ::
  "pay_env \<Rightarrow> promise_tasks option \<Rightarrow> uuid \<Rightarrow> int \<times> int \<Rightarrow> error list \<Rightarrow> payment_db \<Rightarrow> ((int \<times> int) \<times> error list) \<times> payment_db" where
  "resolve_due_loop env ts i counts errs db =
     (case list_open_promises env i promise_batch db of
        Inl e \<Rightarrow> ((counts, [e]), db)
      | Inr (ps, _) \<Rightarrow>
          let r = resolve_page env ts ps counts errs db in
          if length ps < promise_batch then ((fst r, fst (snd r)), snd (snd r))
          else resolve_due_loop env ts (pr_id (last ps)) (fst r) (fst (snd r)) (snd (snd r)))"
  by pat_completeness auto
termination
proof (relation "measure (\<lambda>(env, ts, i, counts, errs, db). promises_after i db)", simp)
  fix env ts counts errs db r ps u and i :: uuid and x
  assume h: "list_open_promises env i promise_batch db = Inr r" "(ps, u) = r" "x = resolve_page env ts ps counts errs db"
    "\<not> length ps < promise_batch"
  then have "ps \<noteq> []" by (auto simp: promise_batch_def)
  moreover obtain c1 e1 d1 where x: "x = (c1, e1, d1)" by (cases x)
  moreover have "map pr_id (pd_promises d1) = map pr_id (pd_promises db)"
    using resolve_page_ids [of env ts ps counts errs db] h(3) [symmetric] x by simp
  ultimately have "promises_after (pr_id (last ps)) d1 < promises_after i db"
    using h(1,2) page_advances [of env i promise_batch db ps u d1] by simp
  then show "((env, ts, pr_id (last ps), fst x, fst (snd x), snd (snd x)), (env, ts, i, counts, errs, db))
      \<in> measure (\<lambda>(env, ts, i, counts, errs, db). promises_after i db)"
    by (simp add: x)
qed

declare resolve_due_loop.simps [simp del]

definition resolve_due :: "pay_env \<Rightarrow> promise_tasks option \<Rightarrow> payment_db \<Rightarrow> ((int \<times> int) \<times> error list) \<times> payment_db" where
  "resolve_due env ts = resolve_due_loop env ts uuid_nil (0, 0) []"

text \<open>One step of the promise table: a creation, a cancellation or one resolution of the job.\<close>

inductive promise_step :: "payment_db \<Rightarrow> payment_db \<Rightarrow> bool" where
  "within_transaction (promise_create env ts inp) db = (r, db') \<Longrightarrow> promise_step db db'"
| "within_transaction (promise_cancel env ts i actor) db = (r, db') \<Longrightarrow> promise_step db db'"
| "resolve_one env ts p db = (st, db') \<Longrightarrow> promise_step db db'"

definition promise_evolves :: "promise \<Rightarrow> promise \<Rightarrow> bool" where
  "promise_evolves p q \<longleftrightarrow> q = p \<or> pr_status p = PromiseOpen \<and> pr_status q \<noteq> PromiseOpen
     \<and> (\<exists>t. q = p\<lparr>pr_status := pr_status q, pr_resolved := Some t\<rparr>)"

definition promises_extend :: "payment_db \<Rightarrow> payment_db \<Rightarrow> bool" where
  "promises_extend db db' \<longleftrightarrow> list_all2 promise_evolves (pd_promises db) (take (length (pd_promises db)) (pd_promises db'))"

lemma promise_evolves_refl [simp]: "promise_evolves p p" by (simp add: promise_evolves_def)

lemma promise_evolves_trans: "promise_evolves p q \<Longrightarrow> promise_evolves q r \<Longrightarrow> promise_evolves p r"
  by (auto simp: promise_evolves_def)

lemma promises_extend_refl [simp]: "pd_promises db' = pd_promises db \<Longrightarrow> promises_extend db db'"
  by (simp add: promises_extend_def list_all2_refl)

lemma promises_extend_trans:
  assumes "promises_extend a b" "promises_extend b c"
  shows "promises_extend a c"
  using assms unfolding promises_extend_def by (rule list_all2_take_trans [rotated]) (rule promise_evolves_trans)

lemma resolve_row_evolves:
  assumes "promise_resolve p to t = Inr p'" "resolve_promise_row env p' db = Inr (ok, db')"
  shows "promises_extend db db'"
proof -
  have p': "pr_status p' \<noteq> PromiseOpen" "pr_resolved p' = Some (utc t)"
    using assms(1) by (auto simp: promise_resolve_def split: if_splits)
  obtain f where "booking_visible env db = Inr (f, db)"
    using assms(2) by (auto simp: resolve_promise_row_def elim!: visible_thenE)
  with assms(2) have "pd_promises db' = map (\<lambda>q. if pr_id q = pr_id p' \<and> pr_status q = PromiseOpen \<and> f (pr_booking q)
      then q\<lparr>pr_status := pr_status p', pr_resolved := pr_resolved p'\<rparr> else q) (pd_promises db)"
    by (auto simp: resolve_promise_row_def Let_def)
  then show ?thesis
    using p' by (auto simp: promises_extend_def list_all2_conv_all_nth promise_evolves_def)
qed

lemma promise_create_evolves:
  assumes "promise_create env ts inp db = Inr (r, db')"
  shows "promises_extend db db'"
proof -
  have i: "promises_extend d d'" if "insert_promise env p d = Inr (u, d')" for p d u d'
    using that by (auto simp: insert_promise_def require_booking_def promises_extend_def list_all2_refl
        elim!: and_then_InrE visible_thenE split: if_splits)
  show ?thesis
    using assms unfolding promise_create_def Let_def
    by (elim find_booking_thenE)
       (auto simp: record_promise_def split: if_splits option.splits elim!: and_then_InrE lift_result_InrE
        dest!: i pay_log_promises simp: promises_extend_def)
qed

lemma effective_reads: "effective env p db = Inr (st, db') \<Longrightarrow> db' = db"
  by (auto simp: effective_def sum_collected_since_def scan_int64_def elim!: and_then_InrE booking_visible_Inr split: if_splits)

lemma promise_cancel_evolves:
  assumes "promise_cancel env ts i actor db = Inr (r, db')"
  shows "promises_extend db db'"
proof -
  have g: "get_promise env i d = Inr (p, d') \<Longrightarrow> d' = d" for d p d'
    by (auto simp: get_promise_def elim!: visible_thenE split: option.splits)
  from assms obtain p p' t ok d where "promise_resolve p PromiseCancelled t = Inr p'" "resolve_promise_row env p' db = Inr (ok, d)"
    "pd_promises db' = pd_promises d"
    unfolding promise_cancel_def
    by (auto simp: record_promise_def split: if_splits elim!: and_then_InrE lift_result_InrE
        dest!: g effective_reads close_task_reads pay_log_promises)
  then show ?thesis using resolve_row_evolves [of p PromiseCancelled t p' env db ok d] by (simp add: promises_extend_def)
qed

lemma resolve_one_evolves:
  assumes "resolve_one env ts p db = (r, db')"
  shows "promises_extend db db'"
proof -
  have x: "promises_extend db d" if "promise_resolve_tx env ts p st db = Inr (x, d)" for st x d
    using that
  proof (rule promise_resolve_tx_Inr)
    fix p' ok d1
    assume "promise_resolve p st (e_now (pe_booking env)) = Inr p'" "resolve_promise_row env p' db = Inr (ok, d1)"
      and e: "pd_promises d = pd_promises d1"
    from resolve_row_evolves [OF this(1,2)] e show ?thesis by (simp add: promises_extend_def)
  qed
  show ?thesis
    using assms x by (auto simp: resolve_one_def within_transaction_def split: sum.splits if_splits prod.splits)
qed

lemma promise_step_evolves: "promise_step db db' \<Longrightarrow> promises_extend db db'"
proof (induction rule: promise_step.induct)
  case (1 env ts inp db r db')
  show ?case by (rule transaction_keeps [OF 1]) (auto intro: promise_create_evolves)
next
  case (2 env ts i actor db r db')
  show ?case by (rule transaction_keeps [OF 2]) (auto intro: promise_cancel_evolves)
next
  case (3 env ts p db st db')
  then show ?case by (rule resolve_one_evolves)
qed

lemma promise_run_evolves: "promise_step\<^sup>*\<^sup>* db db' \<Longrightarrow> promises_extend db db'"
  by (induction rule: rtranclp_induct) (auto intro: promises_extend_trans promise_step_evolves)

text \<open>
  C33. A promise is resolved once. Along any run of creations, cancellations and resolutions a promise
  keeps its terms, an open one is resolved at most once, with the time of the resolution, and a resolved
  one never changes again.
\<close>

theorem promise_resolved_once:
  assumes "promise_step\<^sup>*\<^sup>* db db'" "i < length (pd_promises db)"
  shows "i < length (pd_promises db') \<and> promise_evolves (pd_promises db ! i) (pd_promises db' ! i)
    \<and> (pr_status (pd_promises db ! i) \<noteq> PromiseOpen \<longrightarrow> pd_promises db' ! i = pd_promises db ! i)"
proof -
  have e: "list_all2 promise_evolves (pd_promises db) (take (length (pd_promises db)) (pd_promises db'))"
    using promise_run_evolves [OF assms(1)] by (simp add: promises_extend_def)
  have n: "length (pd_promises db) \<le> length (pd_promises db')" using list_all2_lengthD [OF e] by simp
  have "promise_evolves (pd_promises db ! i) (pd_promises db' ! i)" using list_all2_nthD [OF e assms(2)] assms(2) by simp
  then show ?thesis using n assms(2) by (auto simp: promise_evolves_def)
qed

theorem promise_resolved_once_witness:
  "\<exists>db'. promise_step\<^sup>*\<^sup>* (ex_pay_db\<lparr>pd_promises := [ex_promise 21 300 738310 PromiseOpen]\<rparr>) db'
     \<and> map pr_status (pd_promises db') = [PromiseBroken]
     \<and> promise_evolves (ex_promise 21 300 738310 PromiseOpen) (pd_promises db' ! 0)"
proof -
  let ?d = "ex_pay_db\<lparr>pd_promises := [ex_promise 21 300 738310 PromiseOpen]\<rparr>"
  define d where "d = snd (resolve_one (ex_pay_env 31) None (ex_promise 21 300 738310 PromiseOpen) ?d)"
  have st: "promise_step\<^sup>*\<^sup>* ?d d" unfolding d_def by (intro r_into_rtranclp promise_step.intros(3)) (rule prod.collapse [symmetric])
  have "map pr_status (pd_promises d) = [PromiseBroken]" unfolding d_def by code_simp
  with promise_resolved_once [OF st, of 0] st show ?thesis by auto
qed

section \<open>The money breakdown of a booking\<close>

text \<open>\<open>Components\<close>: sums over the booking's lines by kind, exact in the database and scanned into \<open>int64\<close>.\<close>

definition booking_components :: "pay_env \<Rightarrow> uuid \<Rightarrow> (payment_db, components) uow" where
  "booking_components env bid =
     and_then (booking_visible env) (\<lambda>vis.
     and_then (reading (\<lambda>db. if vis bid then filter (\<lambda>l. li_booking l = bid) (db_lines (pd_core db)) else [])) (\<lambda>ls.
     and_then (ensure (list_all (\<lambda>l. fits64 (li_quantity l * li_unit_price l)) ls) (Plain ''bigint out of range'')) (\<lambda>_.
     and_then (scan_int64 (kind_sum ''item'' ls)) (\<lambda>i.
     and_then (scan_int64 (kind_sum ''tax'' ls)) (\<lambda>t.
     and_then (scan_int64 (kind_sum ''fee'' ls)) (\<lambda>f.
       ret \<lparr>co_items = i, co_tax = t, co_fees = f, co_has_lines = (ls \<noteq> [])\<rparr>))))))"

definition booking_snapshot :: "pay_env \<Rightarrow> uuid \<Rightarrow> (payment_db, reporting_snapshot option) uow" where
  "booking_snapshot env bid =
     and_then (booking_visible env) (\<lambda>vis.
       if vis bid then reading (\<lambda>db. map_of (pd_snapshots db) bid) else fail (new_not_found ''booking''))"

definition set_booking_snapshot :: "pay_env \<Rightarrow> uuid \<Rightarrow> reporting_snapshot \<Rightarrow> (payment_db, unit) uow" where
  "set_booking_snapshot env bid s =
     and_then (booking_visible env) (\<lambda>vis.
       if vis bid then writing (\<lambda>db. db\<lparr>pd_snapshots := (bid, s) # filter (\<lambda>(i, _). i \<noteq> bid) (pd_snapshots db)\<rparr>)
       else fail (new_not_found ''booking''))"

record reporting_summary =
  rm_currency :: string
  rm_total :: int
  rm_collected :: int
  rm_balance :: int
  rm_rate :: int
  rm_effective :: go_time

record financial_summary =
  fs_booking :: uuid
  fs_currency :: string
  fs_subtotal :: int
  fs_discount :: int
  fs_tax :: int
  fs_fees :: int
  fs_total :: int
  fs_cost :: int
  fs_margin :: int
  fs_collected :: int
  fs_pending :: int
  fs_balance :: int
  fs_reporting :: "reporting_summary option"
  fs_promises :: promise_summary

definition reporting_summary_of :: "pay_env \<Rightarrow> booking \<Rightarrow> int \<Rightarrow> (payment_db, reporting_summary option) uow" where
  "reporting_summary_of env b collected =
     and_then (booking_snapshot env (b_id b)) (\<lambda>stored.
     and_then (case stored of Some s \<Rightarrow> ret (Some s)
               | None \<Rightarrow> reporting_snapshot_of env (b_branch b) (b_total b) (b_currency b) (pay_today env)) (\<lambda>snap.
     case snap of None \<Rightarrow> ret None
     | Some s \<Rightarrow>
         (case (apply_rate (b_total b) (rs_rate s), apply_rate collected (rs_rate s)) of
            (Inr t, Inr c) \<Rightarrow> ret (Some \<lparr>rm_currency = rs_currency s, rm_total = t, rm_collected = c, rm_balance = sub64 t c,
                                       rm_rate = rs_rate s, rm_effective = rs_effective s\<rparr>)
          | _ \<Rightarrow> ret None)))"

fun effective_all :: "pay_env \<Rightarrow> promise list \<Rightarrow> (payment_db, promise list) uow" where
  "effective_all env [] = ret []"
| "effective_all env (p # ps) =
     and_then (effective env p) (\<lambda>st. and_then (effective_all env ps) (\<lambda>qs. ret (p\<lparr>pr_status := st\<rparr> # qs)))"

definition promise_list :: "pay_env \<Rightarrow> uuid \<Rightarrow> (payment_db, promise list) uow" where
  "promise_list env bid =
     and_then (or_not_found ''booking'' (find_by_id env bid)) (\<lambda>_.
     and_then (booking_visible env) (\<lambda>vis.
     and_then (reading (\<lambda>db. sort_key (\<lambda>p. nanos (pr_promised_on p)) (sort_key (\<lambda>p. nanos (pr_created p))
         (filter (\<lambda>p. pr_booking p = bid \<and> vis bid) (pd_promises db))))) (effective_all env)))"

definition promise_summary_of :: "pay_env \<Rightarrow> uuid \<Rightarrow> (payment_db, promise_summary) uow" where
  "promise_summary_of env bid = and_then (promise_list env bid) (\<lambda>ps. ret (summarize_promises ps))"

definition financial_summary_of :: "pay_env \<Rightarrow> uuid \<Rightarrow> (payment_db, financial_summary) uow" where
  "financial_summary_of env bid =
     and_then (or_not_found ''booking'' (find_by_id env bid)) (\<lambda>b.
     and_then (sum_collected env bid) (\<lambda>collected.
     and_then (sum_by_status env bid StatusUnverified) (\<lambda>pending.
     and_then (booking_components env bid) (\<lambda>comp.
     and_then (reporting_summary_of env b collected) (\<lambda>rep.
     and_then (promise_summary_of env bid) (\<lambda>ps.
       ret \<lparr>fs_booking = bid, fs_currency = b_currency b, fs_subtotal = components_subtotal comp (b_total b) (b_discount b),
            fs_discount = b_discount b, fs_tax = co_tax comp, fs_fees = co_fees comp, fs_total = b_total b,
            fs_cost = b_cost b, fs_margin = booking_margin b, fs_collected = collected, fs_pending = pending,
            fs_balance = sub64 (b_total b) collected, fs_reporting = rep, fs_promises = ps\<rparr>))))))"

definition snapshot_booking_fx :: "pay_env \<Rightarrow> booking \<Rightarrow> (payment_db, unit) uow" where
  "snapshot_booking_fx env b =
     and_then (reporting_snapshot_of env (b_branch b) (b_total b) (b_currency b) (pay_today env)) (\<lambda>snap.
       case snap of None \<Rightarrow> ret () | Some s \<Rightarrow> set_booking_snapshot env (b_id b) s)"

definition set_reporting_currency :: "pay_env \<Rightarrow> uuid \<Rightarrow> string \<Rightarrow> uuid \<Rightarrow> (payment_db, unit) uow" where
  "set_reporting_currency env branch cur actor =
     and_then (lift_result (normalize_currency cur)) (\<lambda>c.
     and_then (lift_result (require (e_scope (pe_booking env)))) (\<lambda>sc.
     and_then (lift_result (write_branch sc branch)) (\<lambda>br.
     and_then (get_finance_settings br) (\<lambda>prev.
     and_then (upsert_finance_settings br c) (\<lambda>_.
       pay_log env (SettingsEntry br actor (if prev \<noteq> [] then Some prev else None) c))))))"

lemma finance_settings_upsert:
  "upsert_finance_settings br c db = Inr (u, db') \<Longrightarrow> get_finance_settings br db' = Inr (c, db')"
  "upsert_finance_settings br c db = Inr (u, db') \<Longrightarrow> br' \<noteq> br \<Longrightarrow>
     map_of (pd_settings db') br' = map_of (pd_settings db) br'"
proof -
  have "br' \<noteq> br \<Longrightarrow> map_of (filter (\<lambda>(b, _). b \<noteq> br) xs) br' = map_of xs br'" for xs :: "(uuid \<times> string) list"
    by (induction xs) auto
  then show "upsert_finance_settings br c db = Inr (u, db') \<Longrightarrow> br' \<noteq> br \<Longrightarrow>
     map_of (pd_settings db') br' = map_of (pd_settings db) br'"
    by (auto simp: upsert_finance_settings_def)
qed (auto simp: upsert_finance_settings_def get_finance_settings_def)

text \<open>
  The money breakdown of a reachable booking agrees with the ledger: what it shows as collected is
  the sum of the counted entries and the booking's own collected amount, its total is the booking's, the
  balance is their difference, and computing it changes nothing.
\<close>

theorem financial_summary_agrees:
  assumes "empty_ledger db0" "money_step\<^sup>*\<^sup>* db0 db" "financial_summary_of env bid db = Inr (s, db')"
  shows "db' = db \<and> fs_collected s = ledger_sum (pd_payments db) bid
    \<and> (\<exists>b \<in> set (db_bookings (pd_core db)). b_id b = bid \<and> fs_collected s = b_collected b \<and> fs_total s = b_total b)
    \<and> fs_balance s = sub64 (fs_total s) (fs_collected s)"
proof -
  have ok: "ledger_ok db" by (rule ledger.reachable_good [OF assms(1,2)])
  have sr: "sum_collected env i d = Inr (x, d') \<Longrightarrow> d' = d" "sum_by_status env i st d = Inr (x, d') \<Longrightarrow> d' = d" for i st d x d'
    by (auto simp: sum_collected_def sum_by_status_def scan_int64_Inr elim!: visible_thenE)
  have cr: "booking_components env i d = Inr (x, d') \<Longrightarrow> d' = d" for i d x d'
    by (auto simp: booking_components_def scan_int64_Inr elim!: and_then_InrE split: if_splits elim: booking_visible_Inr)
  have br: "booking_snapshot env i d = Inr (x, d') \<Longrightarrow> d' = d" for i d x d'
    by (auto simp: booking_snapshot_def elim!: visible_thenE split: if_splits)
  have rr: "reporting_summary_of env b c d = Inr (x, d') \<Longrightarrow> d' = d" for b c d x d'
    unfolding reporting_summary_of_def
    by (elim and_then_InrE) (auto split: option.splits sum.splits dest!: br snapshot_reads)
  have er: "effective_all env ps d = Inr (x, d') \<Longrightarrow> d' = d" for ps d x d'
    by (induction ps arbitrary: d x) (auto elim!: and_then_InrE dest: effective_reads)
  have pr: "promise_summary_of env i d = Inr (x, d') \<Longrightarrow> d' = d" for i d x d'
    unfolding promise_summary_of_def promise_list_def
    by (auto elim!: and_then_InrE or_not_found_InrE dest!: er find_by_id_Inr(1) elim: booking_visible_Inr)
  from assms(3) obtain b d1 d2 d3 d4 d5 coll pend comp rep ps where
    b: "find_by_id env bid db = Inr (b, db)" and c: "sum_collected env bid db = Inr (coll, d1)"
    and p: "sum_by_status env bid StatusUnverified d1 = Inr (pend, d2)" and k: "booking_components env bid d2 = Inr (comp, d3)"
    and r: "reporting_summary_of env b coll d3 = Inr (rep, d4)" and q: "promise_summary_of env bid d4 = Inr (ps, d5)"
    and s: "fs_collected s = coll" "fs_total s = b_total b" "fs_balance s = sub64 (b_total b) coll" "db' = d5"
    unfolding financial_summary_of_def by (elim find_booking_thenE and_then_InrE) auto
  have db': "db' = db" using sr(1) [OF c] sr(2) [OF p] cr [OF k] rr [OF r] pr [OF q] s(4) by simp
  obtain vis where vis: "visible_booking (pe_booking env) = Inr vis" "vis b" using find_by_id_Inr(4) [OF b] by blast
  have mem: "b \<in> set (db_bookings (pd_core db))" "b_id b = bid" using find_by_id_Inr [OF b] by auto
  then have "list_ex (\<lambda>x. b_id x = bid \<and> vis x) (db_bookings (pd_core db))" using vis by (auto simp: list_ex_iff)
  then have coll: "coll = ledger_sum (pd_payments db) bid"
    using c vis by (auto simp: sum_collected_def booking_visible_def scan_int64_Inr)
  moreover have "b_collected b = ledger_sum (pd_payments db) bid" using ok mem by (auto simp: ledger_ok_def reconciled_def)
  ultimately show ?thesis using db' s mem by auto
qed

theorem financial_summary_agrees_witness:
  "\<exists>s. financial_summary_of (ex_pay_env 40) 11 ex_after_approval = Inr (s, ex_after_approval)
     \<and> fs_collected s = ledger_sum (pd_payments ex_after_approval) 11 \<and> fs_balance s = 500"
proof -
  have run: "money_step\<^sup>*\<^sup>* ex_pay_db ex_after_approval" using ex_run by (meson rtranclp.rtrancl_into_rtrancl)
  have "map_sum id (\<lambda>(s, _). fs_balance s) (financial_summary_of (ex_pay_env 40) 11 ex_after_approval) = Inr 500" by code_simp
  then obtain s d where s: "financial_summary_of (ex_pay_env 40) 11 ex_after_approval = Inr (s, d)" "fs_balance s = 500"
    by (cases "financial_summary_of (ex_pay_env 40) 11 ex_after_approval") auto
  from financial_summary_agrees [OF ex_run(1) run s(1)] s show ?thesis by auto
qed

end
