(* ===== verification/Auth_Security.thy ===== *)
theory Auth_Security
  imports Shared Access
begin

text \<open>
  \<^verbatim>\<open>internal/domain/authsec\<close> and \<^verbatim>\<open>internal/domain/totp\<close>: the lockout policy, the verdict on a presented refresh
  token, session lifetimes, the check of an access token against its session, and the verification of a
  time-based one-time password with replay protection.

  Tokens appear by their hash, as the code stores and compares them. The one-time password of a key at a
  counter (HMAC-SHA1) is a parameter; everything around it is modelled.
\<close>

section \<open>Lockout\<close>

record lockout_policy =
  lp_max_attempts :: int
  lp_window :: int
  lp_base :: int
  lp_max :: int

definition should_lock :: "lockout_policy \<Rightarrow> int \<Rightarrow> bool" where
  "should_lock p failures \<longleftrightarrow> lp_max_attempts p > 0 \<and> failures \<ge> lp_max_attempts p"

text \<open>The doubling loop, with its early exit at the cap.\<close>

fun double_up :: "int \<Rightarrow> nat \<Rightarrow> int \<Rightarrow> int" where
  "double_up cap 0 d = d"
| "double_up cap (Suc n) d = (if cap > 0 \<and> d \<ge> cap then d else double_up cap n (mul64 d 2))"

definition lock_duration :: "lockout_policy \<Rightarrow> int \<Rightarrow> int" where
  "lock_duration p prior =
     (if lp_base p \<le> 0 then 0
      else let d = double_up (lp_max p) (nat prior) (lp_base p)
           in if lp_max p > 0 \<and> d > lp_max p then lp_max p else d)"

definition retry_after_of :: "go_time option \<Rightarrow> go_time \<Rightarrow> int" where
  "retry_after_of locked_until now =
     (case locked_until of None \<Rightarrow> 0 | Some u \<Rightarrow> if \<not> after u now then 0 else time_sub u now)"

definition retry_after_seconds :: "int \<Rightarrow> int" where
  "retry_after_seconds d =
     (if d \<le> 0 then 0
      else let s = quo d second_ns in if rem d second_ns \<noteq> 0 then add64 s 1 else s)"

section \<open>Sessions and refresh tokens\<close>

record session =
  s_id :: uuid
  s_user :: uuid
  s_created :: go_time
  s_absolute :: go_time
  s_idle :: go_time
  s_last_seen :: go_time
  s_last_ip :: string
  s_agent :: string
  s_method :: string
  s_revoked :: "go_time option"
  s_reason :: string

record refresh_token =
  t_id :: uuid
  t_user :: uuid
  t_family :: uuid
  t_hash :: string
  t_expires :: go_time
  t_revoked :: "go_time option"
  t_reason :: string
  t_replaced :: "uuid option"
  t_ip :: string
  t_agent :: string
  t_created :: go_time

definition session_active :: "session \<Rightarrow> go_time \<Rightarrow> bool" where
  "session_active s now \<longleftrightarrow> s_revoked s = None \<and> before now (s_absolute s) \<and> before now (s_idle s)"

record session_policy =
  sp_idle :: int
  sp_absolute :: int

definition successor_expiry :: "go_time \<Rightarrow> int \<Rightarrow> go_time \<Rightarrow> go_time" where
  "successor_expiry now idle absolute = (let next = time_add now idle in if before next absolute then next else absolute)"

definition session_start :: "session_policy \<Rightarrow> go_time \<Rightarrow> go_time \<times> go_time" where
  "session_start p now =
     (let absolute = time_add now (sp_absolute p) in (successor_expiry now (sp_idle p) absolute, absolute))"

datatype refresh_verdict = RefreshRotate | RefreshReused | RefreshExpired | RefreshRevoked | RefreshGrace

definition evaluate_refresh :: "refresh_token \<Rightarrow> session \<Rightarrow> go_time \<Rightarrow> int \<Rightarrow> refresh_verdict" where
  "evaluate_refresh t s now grace =
     (case t_revoked t of
        Some at \<Rightarrow>
          if t_reason t = ''rotated'' \<and> grace > 0 \<and> time_sub now at < grace \<and> session_active s now then RefreshGrace
          else RefreshReused
      | None \<Rightarrow>
          if s_revoked s \<noteq> None then RefreshRevoked
          else if \<not> after (t_expires t) now \<or> \<not> before now (s_absolute s) \<or> \<not> before now (s_idle s) then RefreshExpired
          else RefreshRotate)"

definition is_refresh_token :: "string \<Rightarrow> bool" where
  "is_refresh_token s \<longleftrightarrow> has_prefix s ''wrt_'' \<and> length s = length ''wrt_'' + 43"

record session_state =
  ss_session :: uuid
  ss_user :: uuid
  ss_revoked :: "go_time option"
  ss_absolute :: go_time
  ss_idle :: go_time
  ss_active :: bool
  ss_version :: int

definition err_session_revoked :: error where "err_session_revoked = Plain ''session revoked''"
definition err_token_stale :: error where "err_token_stale = Plain ''token stale''"

definition check_session :: "session_state option \<Rightarrow> uuid \<Rightarrow> int \<Rightarrow> go_time \<Rightarrow> error option" where
  "check_session st user version now =
     (case st of
        None \<Rightarrow> Some err_session_revoked
      | Some s \<Rightarrow>
          if ss_user s \<noteq> user \<or> ss_revoked s \<noteq> None \<or> \<not> ss_active s \<or> \<not> before now (ss_absolute s) \<or> \<not> before now (ss_idle s)
          then Some err_session_revoked
          else if ss_version s \<noteq> version then Some err_token_stale
          else None)"

section \<open>One-time passwords\<close>

definition totp_digits :: int where "totp_digits = 6"

text \<open>\<open>Unix()\<close> counts whole seconds since 1970, rounding down; the division of the step truncates.\<close>

definition unix_seconds :: "go_time \<Rightarrow> int" where
  "unix_seconds t = nanos t div second_ns - 62135596800"

definition totp_step :: "go_time \<Rightarrow> int" where
  "totp_step t = quo (unix_seconds t) 30"

definition normalize_code :: "string \<Rightarrow> string" where
  "normalize_code c = filter (\<lambda>x. x \<noteq> CHR '' '' \<and> x \<noteq> CHR ''-'') (trim_space c)"

definition looks_like_code :: "string \<Rightarrow> bool" where
  "looks_like_code c = (let c = normalize_code c in int (length c) = totp_digits \<and> digits_only c)"

definition err_invalid_code :: error where "err_invalid_code = Plain ''totp: invalid code''"
definition err_replay :: error where "err_replay = Plain ''totp: code already used''"

text \<open>
  \<open>Verify\<close> for a decoded secret: \<open>code_at\<close> is the code of the secret at a counter. The loop over the skew
  keeps the last match.
\<close>

definition totp_verify :: "(int \<Rightarrow> string) \<Rightarrow> string \<Rightarrow> go_time \<Rightarrow> int \<Rightarrow> int result" where
  "totp_verify code_at candidate now last_step =
     (let candidate = normalize_code candidate in
      if int (length candidate) \<noteq> totp_digits then Inl err_invalid_code
      else
        let current = totp_step now;
            matched = foldl (\<lambda>m d. let s = add64 current d in if code_at s = candidate then s else m) (- 1) [- 1, 0, 1]
        in if matched < 0 then Inl err_invalid_code
           else if matched \<le> last_step then Inl err_replay
           else Inr matched)"

section \<open>Laws\<close>

lemma double_up_pow:
  assumes "0 < d" "0 < cap" "cap \<le> 4611686018427387904"
  shows "min cap (double_up cap n d) = min cap (d * 2 ^ n)"
  using assms(1)
proof (induction n arbitrary: d)
  case (Suc n)
  show ?case
  proof (cases "d \<ge> cap")
    case True
    have "(1::int) \<le> 2 ^ Suc n" by (rule one_le_power) simp
    then have "d * 1 \<le> d * 2 ^ Suc n" using Suc.prems by (intro mult_left_mono) auto
    then have "cap \<le> d * 2 ^ Suc n" using True by linarith
    then show ?thesis using True assms(2) by (simp add: min_absorb1 del: power_Suc)
  next
    case False
    then have "mul64 d 2 = d * 2" using assms(3) Suc.prems by (intro mul64_id) (simp add: fits64_def)
    with False Suc show ?thesis by (simp add: mult.assoc)
  qed
qed simp

text \<open>
  The lock time doubles with every consecutive lockout and is capped: with a positive base and a cap
  within half the range of a duration (146 years), it is exactly the smaller of the cap and the base times
  two to the number of earlier lockouts, so it never decreases, never exceeds the cap and never overflows.
\<close>

theorem lock_duration_exact:
  assumes "0 < lp_base p" "0 < lp_max p" "lp_max p \<le> 4611686018427387904" "0 \<le> prior"
  shows "lock_duration p prior = min (lp_max p) (lp_base p * 2 ^ nat prior)
    \<and> lock_duration p prior \<le> lock_duration p (prior + 1)"
proof -
  have e: "lock_duration p k = min (lp_max p) (lp_base p * 2 ^ nat k)" for k
    using double_up_pow [OF assms(1,2,3), of "nat k"] assms(1,2) by (auto simp: lock_duration_def Let_def min_def split: if_splits)
  have "lp_base p * 2 ^ nat prior \<le> lp_base p * 2 ^ nat (prior + 1)"
    using assms(1) by (intro mult_left_mono power_increasing) auto
  then show ?thesis unfolding e by (auto simp: min_def)
qed

theorem lock_duration_exact_witness:
  "lock_duration \<lparr>lp_max_attempts = 5, lp_window = 900, lp_base = 60, lp_max = 3600\<rparr> 4 = 960
   \<and> lock_duration \<lparr>lp_max_attempts = 5, lp_window = 900, lp_base = 60, lp_max = 3600\<rparr> 40 = 3600"
  using lock_duration_exact [of "\<lparr>lp_max_attempts = 5, lp_window = 900, lp_base = 60, lp_max = 3600\<rparr>" 4]
    lock_duration_exact [of "\<lparr>lp_max_attempts = 5, lp_window = 900, lp_base = 60, lp_max = 3600\<rparr>" 40]
  by simp

text \<open>Waiting the advertised seconds is never too short, and less than a second too long.\<close>

lemma retry_after_seconds_bounds:
  assumes "0 < d" "fits64 d"
  shows "d \<le> retry_after_seconds d * second_ns" "retry_after_seconds d * second_ns < d + second_ns"
proof -
  have r: "retry_after_seconds d = (if d mod second_ns \<noteq> 0 then d div second_ns + 1 else d div second_ns)"
  proof -
    have "0 \<le> d div second_ns" "d div second_ns \<le> d" using assms(1) by (auto simp: second_ns_def intro: div_le_self_int)
    moreover have "d div second_ns \<noteq> d" using assms(1) by (simp add: second_ns_def)
    ultimately have "fits64 (d div second_ns + 1)" using assms by (auto simp: fits64_def)
    then show ?thesis using assms(1)
      by (auto simp: retry_after_seconds_def Let_def quo_nonneg rem_nonneg second_ns_def add64_id)
  qed
  obtain a m where q: "d div second_ns = a" "d mod second_ns = m" "d = second_ns * a + m" "0 \<le> m" "m < second_ns"
    using div_bounds [of second_ns d] by (metis mult_div_mod_eq pos_mod_bound pos_mod_sign second_ns_def zero_less_numeral)
  show "d \<le> retry_after_seconds d * second_ns"
    unfolding r q(1,2) using q(3-5) by (auto simp: algebra_simps)
  show "retry_after_seconds d * second_ns < d + second_ns"
    unfolding r q(1,2) using q(3-5) by (auto simp: algebra_simps)
qed

lemma successor_le_absolute: "\<not> after (successor_expiry now idle absolute) absolute"
  by (auto simp: successor_expiry_def Let_def after_def before_def)

lemma successor_le_idle: "\<not> after (successor_expiry now idle absolute) (time_add now idle)"
  by (auto simp: successor_expiry_def Let_def after_def before_def)

text \<open>
  A one-time password is accepted at most once. \<open>Verify\<close> only accepts a code of a step within one of
  the current step that is later than the last accepted step; so, once the accepted step is stored, neither
  that code nor any code of an earlier step is accepted again for the secret.
\<close>

theorem totp_no_replay:
  assumes "totp_verify code_at cand now last_step = Inr step" "0 \<le> totp_step now" "totp_step now < int64_max"
  shows "last_step < step \<and> \<bar>step - totp_step now\<bar> \<le> 1 \<and> code_at step = normalize_code cand
    \<and> (\<forall>cand' now'. totp_verify code_at cand' now' step \<noteq> Inr step)"
proof -
  define c where "c = normalize_code cand"
  define n where "n = totp_step now"
  have f: "add64 n (- 1) = n - 1" "add64 n 1 = n + 1" "add64 n 0 = n"
    using assms(2,3) by (auto simp: n_def int64_max_def add64_def i64_id fits64_def)
  have "step = n + 1 \<and> code_at (n + 1) = c \<or> step = n \<and> code_at n = c \<or> step = n - 1 \<and> code_at (n - 1) = c"
    using assms(1,2) unfolding totp_verify_def Let_def c_def [symmetric] n_def [symmetric]
    by (auto simp: f split: if_splits)
  moreover have "last_step < step"
    using assms(1) unfolding totp_verify_def Let_def by (auto split: if_splits)
  moreover have "totp_verify code_at cand' now' step \<noteq> Inr step" for cand' now'
    unfolding totp_verify_def Let_def by (auto split: if_splits)
  ultimately show ?thesis by (auto simp: n_def c_def)
qed

theorem totp_no_replay_witness:
  "\<exists>step. totp_verify (\<lambda>s. if s = 54705600 then ''123456'' else ''000000'') ''123 456'' (midnight 738157) 0 = Inr step
     \<and> 0 < step \<and> totp_verify (\<lambda>s. if s = 54705600 then ''123456'' else ''000000'') ''123456'' (midnight 738157) step \<noteq> Inr step"
proof -
  let ?f = "\<lambda>s. if s = 54705600 then ''123456'' else ''000000''"
  have "totp_step (midnight 738157) = 54705600" by code_simp
  moreover have "totp_verify ?f ''123 456'' (midnight 738157) 0 = Inr 54705600" by code_simp
  ultimately show ?thesis using totp_no_replay [of ?f "''123 456''" "midnight 738157" 0 54705600] by (auto simp: int64_max_def)
qed

end
