(* ===== verification/Rate_Limit.thy ===== *)
theory Rate_Limit
  imports Shared Status_Machine
begin

text \<open>
  \<^verbatim>\<open>internal/platform/ratelimit/window.go\<close>: the in-process sliding window \<open>Memory\<close> and the fallback
  \<open>Resilient\<close>. A window counts events per key over a trailing duration.

  \<open>Memory\<close> keeps the events of a key oldest first and cuts expired ones off the front whenever the key is
  used. What it promises is stated over the full history of hits: the locale \<open>sliding_window\<close> is the
  contract, with the history as the abstract state, and \<open>Memory\<close> is shown to satisfy it.
\<close>

section \<open>Memory\<close>

type_synonym events_map = "string \<Rightarrow> go_time list"

definition prune :: "events_map \<Rightarrow> string \<Rightarrow> go_time \<Rightarrow> int \<Rightarrow> go_time list" where
  "prune m key now window = dropWhile (\<lambda>e. \<not> after e (time_add now (neg64 window))) (m key)"

definition memory_hit :: "events_map \<Rightarrow> string \<Rightarrow> go_time \<Rightarrow> int \<Rightarrow> nat \<times> events_map" where
  "memory_hit m key now window =
     (let kept = prune m key now window @ [now] in (length kept, m(key := kept)))"

text \<open>A missing key and an empty list are the same: the source deletes a key it leaves empty.\<close>

definition memory_count :: "events_map \<Rightarrow> string \<Rightarrow> go_time \<Rightarrow> int \<Rightarrow> nat \<times> events_map" where
  "memory_count m key now window =
     (let kept = prune m key now window in (length kept, m(key := kept)))"

definition memory_reset :: "events_map \<Rightarrow> string \<Rightarrow> events_map" where
  "memory_reset m key = m(key := [])"

definition new_memory :: events_map where "new_memory = (\<lambda>_. [])"

section \<open>Resilient\<close>

text \<open>A call of the primary store either answers or fails; \<open>None\<close> is an unset primary.\<close>

definition resilient_count ::
  "(error + nat) option \<Rightarrow> events_map \<Rightarrow> string \<Rightarrow> go_time \<Rightarrow> int \<Rightarrow> nat \<times> events_map" where
  "resilient_count primary m key now window =
     (case primary of Some (Inr n) \<Rightarrow> (n, m) | _ \<Rightarrow> memory_count m key now window)"

definition resilient_hit ::
  "(error + nat) option \<Rightarrow> events_map \<Rightarrow> string \<Rightarrow> go_time \<Rightarrow> int \<Rightarrow> nat \<times> events_map" where
  "resilient_hit primary m key now window =
     (case primary of Some (Inr n) \<Rightarrow> (n, m) | _ \<Rightarrow> memory_hit m key now window)"

section \<open>The contract\<close>

datatype op = Hit string go_time | Count string go_time | Reset string

fun op_time :: "op \<Rightarrow> go_time option" where
  "op_time (Hit _ t) = Some t"
| "op_time (Count _ t) = Some t"
| "op_time (Reset _) = None"

text \<open>
  The reference: the hits of a key since its last reset, and those of them inside the window.
\<close>

fun history :: "string \<Rightarrow> op list \<Rightarrow> go_time list" where
  "history key [] = []"
| "history key (Hit k t # ops) = (if k = key then history key ops @ [t] else history key ops)"
| "history key (Count k t # ops) = history key ops"
| "history key (Reset k # ops) = (if k = key then [] else history key ops)"

definition in_window :: "go_time \<Rightarrow> int \<Rightarrow> go_time list \<Rightarrow> go_time list" where
  "in_window now window es = filter (\<lambda>e. after e (time_add now (neg64 window))) es"

text \<open>Operations newest first, with a clock that never goes back.\<close>

fun clocked :: "op list \<Rightarrow> bool" where
  "clocked [] = True"
| "clocked (op # ops) =
     ((case op_time op of None \<Rightarrow> True
       | Some t \<Rightarrow> (\<forall>op' \<in> set ops. case op_time op' of None \<Rightarrow> True | Some t' \<Rightarrow> \<not> after t' t)) \<and> clocked ops)"

locale sliding_window =
  fixes run :: "int \<Rightarrow> op list \<Rightarrow> 'm"
    and hit :: "'m \<Rightarrow> string \<Rightarrow> go_time \<Rightarrow> int \<Rightarrow> nat \<times> 'm"
    and count :: "'m \<Rightarrow> string \<Rightarrow> go_time \<Rightarrow> int \<Rightarrow> nat \<times> 'm"
  assumes hit_counts: "clocked (Hit key now # ops) \<Longrightarrow>
      fst (hit (run window ops) key now window) = Suc (length (in_window now window (history key ops)))"
    and count_counts: "clocked (Count key now # ops) \<Longrightarrow>
      fst (count (run window ops) key now window) = length (in_window now window (history key ops))"
begin

text \<open>Keys are independent, and a key starts afresh after a reset.\<close>

lemma count_after_reset: "clocked (Count key now # Reset key # ops) \<Longrightarrow> fst (count (run window (Reset key # ops)) key now window) = 0"
  using count_counts [of key now "Reset key # ops" window] by (simp add: in_window_def)

lemma count_other_key:
  assumes "k \<noteq> key" "clocked (Count key now # Hit k t # ops)"
  shows "fst (count (run window (Hit k t # ops)) key now window) = fst (count (run window ops) key now window)"
  using count_counts [OF assms(2), of window] count_counts [of key now ops window] assms by simp

text \<open>Counting never exceeds what a hit at the same time would report.\<close>

lemma count_below_hit:
  assumes "clocked (Count key now # ops)"
  shows "fst (count (run window ops) key now window) < fst (hit (run window ops) key now window)"
  using count_counts [OF assms, of window] hit_counts [of key now ops window] assms by simp

end

section \<open>Memory satisfies the contract\<close>

fun memory_run :: "int \<Rightarrow> op list \<Rightarrow> events_map" where
  "memory_run window [] = new_memory"
| "memory_run window (Hit k t # ops) = snd (memory_hit (memory_run window ops) k t window)"
| "memory_run window (Count k t # ops) = snd (memory_count (memory_run window ops) k t window)"
| "memory_run window (Reset k # ops) = memory_reset (memory_run window ops) k"

lemma history_times: "e \<in> set (history key ops) \<Longrightarrow> Hit key e \<in> set ops"
  by (induction ops rule: history.induct) (auto split: if_splits)

lemma history_sorted: "clocked ops \<Longrightarrow> sorted (map nanos (history key ops))"
proof (induction ops)
  case (Cons op ops)
  have "nanos e \<le> nanos t" if "op = Hit key t" "e \<in> set (history key ops)" for e t
    using history_times [OF that(2)] that(1) Cons.prems by (force simp: after_def)
  with Cons show ?case by (cases op) (auto simp: sorted_append)
qed simp

text \<open>What \<open>Memory\<close> has cut off was outside the window at some earlier reading of the clock.\<close>

definition cut_off :: "int \<Rightarrow> op list \<Rightarrow> go_time list \<Rightarrow> bool" where
  "cut_off window ops d \<longleftrightarrow> (\<forall>e \<in> set d. \<exists>op \<in> set ops. \<exists>t. op_time op = Some t \<and> \<not> after e (time_add t (neg64 window)))"

lemma cut_off_mono: "cut_off w ops d \<Longrightarrow> cut_off w (op # ops) d"
  by (force simp: cut_off_def)

lemma prune_split:
  obtains d where "m key = d @ prune m key now w" "\<forall>e \<in> set d. \<not> after e (time_add now (neg64 w))"
  using that [of "takeWhile (\<lambda>e. \<not> after e (time_add now (neg64 w))) (m key)"]
  by (auto simp: prune_def dest: set_takeWhileD)

lemma memory_suffix: "\<exists>d. history key ops = d @ memory_run w ops key \<and> cut_off w ops d"
proof (induction ops)
  case Nil
  show ?case by (simp add: new_memory_def cut_off_def)
next
  case (Cons op ops)
  then obtain d where d: "history key ops = d @ memory_run w ops key" "cut_off w ops d" by blast
  show ?case
  proof (cases op)
    case (Hit k t)
    obtain c where c: "memory_run w ops key = c @ prune (memory_run w ops) key t w" "\<forall>e \<in> set c. \<not> after e (time_add t (neg64 w))"
      by (rule prune_split)
    have "cut_off w (op # ops) (d @ c)" using d(2) c(2) Hit by (force simp: cut_off_def)
    then show ?thesis using d c(1) Hit cut_off_mono
      by (cases "k = key") (auto simp: memory_hit_def Let_def)
  next
    case (Count k t)
    obtain c where c: "memory_run w ops key = c @ prune (memory_run w ops) key t w" "\<forall>e \<in> set c. \<not> after e (time_add t (neg64 w))"
      by (rule prune_split)
    have "cut_off w (op # ops) (d @ c)" using d(2) c(2) Count by (force simp: cut_off_def)
    then show ?thesis using d c(1) Count cut_off_mono
      by (cases "k = key") (auto simp: memory_count_def Let_def)
  next
    case (Reset k)
    then show ?thesis using d cut_off_mono by (cases "k = key") (auto simp: memory_reset_def cut_off_def)
  qed
qed

lemma dropWhile_sorted:
  assumes "sorted (map nanos es)"
  shows "dropWhile (\<lambda>e. \<not> after e c) es = filter (\<lambda>e. after e c) es"
  using assms by (induction es) (auto simp: after_def intro!: filter_True [symmetric])

lemma prune_window:
  assumes "clocked ops" "\<And>op t. op \<in> set ops \<Longrightarrow> op_time op = Some t \<Longrightarrow> \<not> after t now"
  shows "prune (memory_run w ops) key now w = in_window now w (history key ops)"
proof -
  obtain d where d: "history key ops = d @ memory_run w ops key" "cut_off w ops d" using memory_suffix by blast
  have "sorted (map nanos (memory_run w ops key))"
    using history_sorted [OF assms(1), of key] d(1) by (simp add: sorted_append)
  then have p: "prune (memory_run w ops) key now w = filter (\<lambda>e. after e (time_add now (neg64 w))) (memory_run w ops key)"
    unfolding prune_def by (rule dropWhile_sorted)
  have "filter (\<lambda>e. after e (time_add now (neg64 w))) d = []"
    using d(2) assms(2) by (fastforce simp: cut_off_def filter_empty_conv after_def time_add_def)
  then show ?thesis by (simp add: p d(1) in_window_def)
qed

interpretation memory: sliding_window memory_run memory_hit memory_count
proof
  fix key now ops window
  show "clocked (Hit key now # ops) \<Longrightarrow>
      fst (memory_hit (memory_run window ops) key now window) = Suc (length (in_window now window (history key ops)))"
    using prune_window [of ops now window key] by (force simp: memory_hit_def Let_def)
  show "clocked (Count key now # ops) \<Longrightarrow>
      fst (memory_count (memory_run window ops) key now window) = length (in_window now window (history key ops))"
    using prune_window [of ops now window key] by (force simp: memory_count_def Let_def)
qed

text \<open>
  C34. The in-process limiter refines the full history. However many events it has dropped, \<open>Count\<close>
  returns the number of hits of the key since its last reset that lie inside the window, and \<open>Hit\<close> that
  number plus one, as long as the clock does not go back and the window is the same throughout.
\<close>

theorem memory_refines_history:
  assumes "clocked (Count key now # ops)"
  shows "fst (memory_count (memory_run window ops) key now window) = length (in_window now window (history key ops))
    \<and> fst (memory_hit (memory_run window ops) key now window) = Suc (length (in_window now window (history key ops)))"
proof -
  have "clocked (Hit key now # ops)" using assms by simp
  then show ?thesis using memory.count_counts [OF assms] memory.hit_counts by blast
qed

theorem memory_refines_history_witness:
  "fst (memory_count (memory_run (3 * day_ns) [Hit ''k'' (midnight 15), Hit ''j'' (midnight 14), Hit ''k'' (midnight 13),
      Hit ''k'' (midnight 10)]) ''k'' (midnight 16) (3 * day_ns)) = 1"
proof -
  let ?ops = "[Hit ''k'' (midnight 15), Hit ''j'' (midnight 14), Hit ''k'' (midnight 13), Hit ''k'' (midnight 10)]"
  have c: "clocked (Count ''k'' (midnight 16) # ?ops)" by (simp add: after_def midnight_def day_ns_def)
  have "length (in_window (midnight 16) (3 * day_ns) (history ''k'' ?ops)) = 1"
    by (simp add: in_window_def after_def time_add_def midnight_def day_ns_def neg64_def i64_def)
  with memory_refines_history [OF c, of "3 * day_ns"] show ?thesis by simp
qed

end
