(* ===== verification/Auth_Sessions.thy ===== *)
theory Auth_Sessions
  imports Auth_Security Rate_Limit Unit_Of_Work Status_Machine
begin

text \<open>
  Sessions and refresh tokens: \<^verbatim>\<open>internal/app/auth/session.go\<close> over the tables of
  \<^verbatim>\<open>adapter/postgres/identity/session.go\<close> and \<^verbatim>\<open>security.go\<close>.

  A refresh that fails may still end the session, outside any transaction, so operations return a result
  together with the store they leave. Parameters (\<open>auth_env\<close>): the clock, the policy, the drawn session,
  token and hash, the outcome of signing the access token, the request's address and agent. Audit records of this
  part are best effort in the source (their errors are ignored) and carry no state read back, except the
  one of \<open>Logout\<close>, whose outcome is a parameter.
\<close>

section \<open>Store\<close>

record user_row =
  uw_id :: uuid
  uw_email :: string
  uw_password :: string
  uw_admin :: bool
  uw_branch :: uuid
  uw_active :: bool
  uw_version :: int
  uw_mfa_pending :: string
  uw_mfa_enabled :: bool
  uw_mfa_secret :: string
  uw_mfa_step :: int
  uw_failed :: int
  uw_last_failed :: "go_time option"
  uw_lockouts :: int
  uw_locked :: "go_time option"

record auth_db =
  ad_users :: "user_row list"
  ad_sessions :: "session list"
  ad_tokens :: "refresh_token list"

record auth_env =
  ae_now :: go_time
  ae_policy :: session_policy
  ae_grace :: int
  ae_session :: uuid
  ae_token :: uuid
  ae_hash :: string
  ae_sign :: "error option"
  ae_ip :: string
  ae_agent :: string

definition find_user :: "auth_db \<Rightarrow> uuid \<Rightarrow> user_row option" where
  "find_user db i = find (\<lambda>u. uw_id u = i) (ad_users db)"

definition create_session :: "session \<Rightarrow> (auth_db, unit) uow" where
  "create_session s =
     and_then (reading ad_sessions) (\<lambda>ss.
       if list_ex (\<lambda>x. s_id x = s_id s) ss then fail (Plain ''duplicate key value'')
       else writing (\<lambda>db. db\<lparr>ad_sessions := ss @ [s\<lparr>s_revoked := None, s_reason := []\<rparr>]\<rparr>))"

definition find_session :: "auth_db \<Rightarrow> uuid \<Rightarrow> session option" where
  "find_session db i = find (\<lambda>s. s_id s = i) (ad_sessions db)"

definition touch_session :: "uuid \<Rightarrow> go_time \<Rightarrow> go_time \<Rightarrow> string \<Rightarrow> (auth_db, bool) uow" where
  "touch_session i idle seen ip =
     and_then (reading ad_sessions) (\<lambda>ss.
       let hit = (\<lambda>s. s_id s = i \<and> s_revoked s = None) in
       and_then (writing (\<lambda>db. db\<lparr>ad_sessions := map (\<lambda>s. if hit s
             then s\<lparr>s_idle := idle, s_last_seen := seen, s_last_ip := ip\<rparr> else s) ss\<rparr>)) (\<lambda>_.
         ret (length (filter hit ss) = 1)))"

definition revoke_row :: "string \<Rightarrow> go_time \<Rightarrow> session \<Rightarrow> session" where
  "revoke_row reason now s = s\<lparr>s_revoked := Some now, s_reason := reason\<rparr>"

definition revoke_token :: "string \<Rightarrow> go_time \<Rightarrow> refresh_token \<Rightarrow> refresh_token" where
  "revoke_token reason now t = t\<lparr>t_revoked := Some now, t_reason := reason\<rparr>"

definition revoke_sessions_where :: "(session \<Rightarrow> bool) \<Rightarrow> (refresh_token \<Rightarrow> bool) \<Rightarrow> string \<Rightarrow> go_time \<Rightarrow> auth_db \<Rightarrow> auth_db" where
  "revoke_sessions_where ps pt reason now db =
     db\<lparr>ad_sessions := map (\<lambda>s. if ps s \<and> s_revoked s = None then revoke_row reason now s else s) (ad_sessions db),
        ad_tokens := map (\<lambda>t. if pt t \<and> t_revoked t = None then revoke_token reason now t else t) (ad_tokens db)\<rparr>"

definition revoke_session :: "uuid \<Rightarrow> string \<Rightarrow> go_time \<Rightarrow> auth_db \<Rightarrow> bool \<times> auth_db" where
  "revoke_session i reason now db =
     (length (filter (\<lambda>s. s_id s = i \<and> s_revoked s = None) (ad_sessions db)) = 1,
      revoke_sessions_where (\<lambda>s. s_id s = i) (\<lambda>t. t_family t = i) reason now db)"

definition revoke_user_sessions :: "uuid \<Rightarrow> uuid \<Rightarrow> string \<Rightarrow> go_time \<Rightarrow> auth_db \<Rightarrow> uuid list \<times> auth_db" where
  "revoke_user_sessions user keep reason now db =
     (let hit = (\<lambda>s. s_user s = user \<and> s_id s \<noteq> keep \<and> after (s_absolute s) now \<and> after (s_idle s) now);
          ids = map s_id (filter (\<lambda>s. hit s \<and> s_revoked s = None) (ad_sessions db))
      in (ids, revoke_sessions_where hit (\<lambda>t. t_family t \<in> set ids) reason now db))"

definition create_refresh_token :: "refresh_token \<Rightarrow> (auth_db, unit) uow" where
  "create_refresh_token t =
     and_then (reading ad_tokens) (\<lambda>ts.
       if list_ex (\<lambda>x. t_id x = t_id t \<or> t_hash x = t_hash t) ts then fail (Plain ''duplicate key value'')
       else writing (\<lambda>db. db\<lparr>ad_tokens := ts @ [t\<lparr>t_revoked := None, t_reason := [], t_replaced := None\<rparr>]\<rparr>))"

definition find_refresh_token :: "auth_db \<Rightarrow> string \<Rightarrow> refresh_token option" where
  "find_refresh_token db h = find (\<lambda>t. t_hash t = h) (ad_tokens db)"

definition mark_refresh_rotated :: "uuid \<Rightarrow> uuid \<Rightarrow> go_time \<Rightarrow> (auth_db, bool) uow" where
  "mark_refresh_rotated i by_token now =
     and_then (reading ad_tokens) (\<lambda>ts.
       let hit = (\<lambda>t. t_id t = i \<and> t_revoked t = None) in
       and_then (writing (\<lambda>db. db\<lparr>ad_tokens := map (\<lambda>t. if hit t
             then (revoke_token ''rotated'' now t)\<lparr>t_replaced := Some by_token\<rparr> else t) ts\<rparr>)) (\<lambda>_.
         ret (length (filter hit ts) = 1)))"

definition session_state_of :: "auth_db \<Rightarrow> uuid \<Rightarrow> session_state option" where
  "session_state_of db i =
     (case find_session db i of None \<Rightarrow> None
      | Some s \<Rightarrow> (case find_user db (s_user s) of None \<Rightarrow> None
                  | Some u \<Rightarrow> Some \<lparr>ss_session = s_id s, ss_user = s_user s, ss_revoked = s_revoked s,
                      ss_absolute = s_absolute s, ss_idle = s_idle s, ss_active = uw_active u, ss_version = uw_version u\<rparr>))"

section \<open>Service\<close>

definition err_invalid_refresh :: error where
  "err_invalid_refresh = mk_app ''unauthorized'' ''invalid refresh token'' ErrUnauthorized"

definition err_refresh_raced :: error where "err_refresh_raced = Plain ''refresh token already rotated''"

definition truncate_ua :: "string \<Rightarrow> string" where "truncate_ua ua = take 512 ua"

record token_pair =
  tk_hash :: string
  tk_expires :: go_time

definition new_token :: "auth_env \<Rightarrow> user_row \<Rightarrow> uuid \<Rightarrow> go_time \<Rightarrow> refresh_token" where
  "new_token env u sid expires =
     \<lparr>t_id = ae_token env, t_user = uw_id u, t_family = sid, t_hash = ae_hash env, t_expires = expires,
      t_revoked = None, t_reason = [], t_replaced = None, t_ip = ae_ip env, t_agent = truncate_ua (ae_agent env),
      t_created = ae_now env\<rparr>"

definition issue_tokens :: "auth_env \<Rightarrow> user_row \<Rightarrow> uuid \<Rightarrow> go_time \<Rightarrow> (auth_db, token_pair) uow" where
  "issue_tokens env u sid expires =
     and_then (create_refresh_token (new_token env u sid expires)) (\<lambda>_.
       case ae_sign env of Some e \<Rightarrow> fail e | None \<Rightarrow> ret \<lparr>tk_hash = ae_hash env, tk_expires = expires\<rparr>)"

definition new_session :: "auth_env \<Rightarrow> user_row \<Rightarrow> string \<Rightarrow> session" where
  "new_session env u how =
     (let (idle, absolute) = session_start (ae_policy env) (ae_now env) in
      \<lparr>s_id = ae_session env, s_user = uw_id u, s_created = ae_now env, s_absolute = absolute, s_idle = idle,
       s_last_seen = ae_now env, s_last_ip = ae_ip env, s_agent = truncate_ua (ae_agent env), s_method = how,
       s_revoked = None, s_reason = []\<rparr>)"

definition open_session :: "auth_env \<Rightarrow> user_row \<Rightarrow> string \<Rightarrow> (auth_db, token_pair) uow" where
  "open_session env u how =
     (let s = new_session env u how in
      and_then (create_session s) (\<lambda>_. issue_tokens env u (s_id s) (s_idle s)))"

definition rotate_tx :: "auth_env \<Rightarrow> user_row \<Rightarrow> refresh_token \<Rightarrow> session \<Rightarrow> refresh_verdict \<Rightarrow> (auth_db, token_pair) uow" where
  "rotate_tx env u rec sess verdict =
     (let expires = successor_expiry (ae_now env) (sp_idle (ae_policy env)) (s_absolute sess) in
      and_then (issue_tokens env u (s_id sess) expires) (\<lambda>p.
      and_then (if verdict = RefreshRotate
                then and_then (mark_refresh_rotated (t_id rec) (ae_token env) (ae_now env)) (\<lambda>ok.
                       if \<not> ok then fail err_refresh_raced else ret ())
                else ret ()) (\<lambda>_.
      and_then (touch_session (s_id sess) expires (ae_now env) (ae_ip env)) (\<lambda>ok.
        if \<not> ok then fail err_invalid_refresh else ret p))))"

definition refresh_once :: "auth_env \<Rightarrow> string \<Rightarrow> auth_db \<Rightarrow> token_pair result \<times> auth_db" where
  "refresh_once env h db =
     (case find_refresh_token db h of
        None \<Rightarrow> (Inl err_invalid_refresh, db)
      | Some rec \<Rightarrow>
          (case find_session db (t_family rec) of
             None \<Rightarrow> (Inl err_invalid_refresh, db)
           | Some sess \<Rightarrow>
               if s_user sess \<noteq> t_user rec then (Inl err_invalid_refresh, db)
               else let verdict = evaluate_refresh rec sess (ae_now env) (ae_grace env) in
               if verdict = RefreshReused
               then (Inl err_invalid_refresh, snd (revoke_session (s_id sess) ''reuse_detected'' (ae_now env) db))
               else if verdict = RefreshExpired
               then (Inl err_invalid_refresh, snd (revoke_session (s_id sess) ''expired'' (ae_now env) db))
               else if verdict = RefreshRevoked then (Inl err_invalid_refresh, db)
               else
                 (case find_user db (t_user rec) of
                    None \<Rightarrow> (Inl err_invalid_refresh, snd (revoke_session (s_id sess) ''user_deactivated'' (ae_now env) db))
                  | Some u \<Rightarrow>
                      if \<not> uw_active u
                      then (Inl err_invalid_refresh, snd (revoke_session (s_id sess) ''user_deactivated'' (ae_now env) db))
                      else within_transaction (rotate_tx env u rec sess verdict) db)))"

text \<open>\<open>Refresh\<close>; \<open>hash_token\<close> is the storage form of a token.\<close>

definition refresh :: "(string \<Rightarrow> string) \<Rightarrow> auth_env \<Rightarrow> string \<Rightarrow> auth_db \<Rightarrow> token_pair result \<times> auth_db" where
  "refresh hash_token env token db =
     (let raw = trim_space token in
      if \<not> is_refresh_token raw then (Inl err_invalid_refresh, db)
      else
        let (r, db1) = refresh_once env (hash_token raw) db;
            (r, db2) = (if r = Inl err_refresh_raced then refresh_once env (hash_token raw) db1 else (r, db1))
        in if r = Inl err_refresh_raced then (Inl err_invalid_refresh, db2) else (r, db2))"

definition logout_targets :: "(string \<Rightarrow> string) \<Rightarrow> auth_db \<Rightarrow> uuid \<Rightarrow> uuid \<Rightarrow> string \<Rightarrow> uuid \<times> uuid list" where
  "logout_targets hash_token db user sid token =
     (let tok = trim_space token in
      if is_refresh_token tok
      then (case find_refresh_token db (hash_token tok) of
              None \<Rightarrow> (user, [sid])
            | Some rec \<Rightarrow> if (user = uuid_nil \<or> t_user rec = user) \<and> t_family rec \<noteq> sid
                          then (t_user rec, [sid, t_family rec]) else (user, [sid]))
      else (user, [sid]))"

definition logout ::
  "(string \<Rightarrow> string) \<Rightarrow> error option \<Rightarrow> go_time \<Rightarrow> uuid \<Rightarrow> uuid \<Rightarrow> string \<Rightarrow> auth_db \<Rightarrow> error option \<times> auth_db" where
  "logout hash_token audit_result now user sid token db =
     (let (user', targets) = logout_targets hash_token db user sid token in
      if user' = uuid_nil then (None, db)
      else (audit_result, fold (\<lambda>i d. if i = uuid_nil then d else snd (revoke_session i ''logout'' now d)) targets db))"

definition revoke_own_session :: "go_time \<Rightarrow> uuid \<Rightarrow> uuid \<Rightarrow> uuid \<Rightarrow> auth_db \<Rightarrow> error option \<times> auth_db" where
  "revoke_own_session now user current i db =
     (case find_session db i of
        None \<Rightarrow> (Some (new_not_found ''session''), db)
      | Some s \<Rightarrow>
          if s_user s \<noteq> user \<or> \<not> session_active s now then (Some (new_not_found ''session''), db)
          else let (ok, db') = revoke_session (s_id s) (if s_id s = current then ''logout'' else ''user_revoked'') now db
               in (if ok then None else Some (new_not_found ''session''), db'))"

definition revoke_other_sessions :: "go_time \<Rightarrow> uuid \<Rightarrow> uuid \<Rightarrow> auth_db \<Rightarrow> nat \<times> auth_db" where
  "revoke_other_sessions now user current db =
     (let (ids, db') = revoke_user_sessions user current ''user_revoked'' now db in (length ids, db'))"

definition admin_revoke_sessions :: "scope \<Rightarrow> go_time \<Rightarrow> uuid \<Rightarrow> auth_db \<Rightarrow> nat result \<times> auth_db" where
  "admin_revoke_sessions sc now user db =
     (case find_user db user of
        None \<Rightarrow> (Inl (new_not_found ''user''), db)
      | Some u \<Rightarrow>
          if \<not> can_access_branch sc (uw_branch u) then (Inl (new_not_found ''user''), db)
          else let (ids, db') = revoke_user_sessions (uw_id u) uuid_nil ''admin'' now db in (Inr (length ids), db'))"

section \<open>The session invariant\<close>

definition session_bound :: "session_policy \<Rightarrow> session \<Rightarrow> bool" where
  "session_bound p s \<longleftrightarrow> nanos (s_absolute s) = nanos (s_created s) + sp_absolute p
     \<and> nanos (s_idle s) \<le> nanos (s_absolute s) \<and> nanos (s_idle s) \<le> nanos (s_last_seen s) + sp_idle p"

definition auth_ok :: "session_policy \<Rightarrow> auth_db \<Rightarrow> bool" where
  "auth_ok p db \<longleftrightarrow> distinct (map s_id (ad_sessions db)) \<and> distinct (map t_id (ad_tokens db))
     \<and> distinct (map t_hash (ad_tokens db))
     \<and> (\<forall>s \<in> set (ad_sessions db). session_bound p s
          \<and> (\<forall>t \<in> set (ad_tokens db). t_family t = s_id s \<longrightarrow> s_revoked s \<noteq> None \<longrightarrow> t_revoked t \<noteq> None))"

definition session_evolves :: "session \<Rightarrow> session \<Rightarrow> bool" where
  "session_evolves s s' \<longleftrightarrow> s_id s' = s_id s \<and> s_user s' = s_user s \<and> s_created s' = s_created s
     \<and> s_absolute s' = s_absolute s \<and> (s_revoked s \<noteq> None \<longrightarrow> s' = s)"

definition sessions_evolve :: "auth_db \<Rightarrow> auth_db \<Rightarrow> bool" where
  "sessions_evolve db db' \<longleftrightarrow> list_all2 session_evolves (ad_sessions db) (take (length (ad_sessions db)) (ad_sessions db'))"

definition safe_step :: "session_policy \<Rightarrow> auth_db \<Rightarrow> auth_db \<Rightarrow> bool" where
  "safe_step p db db' \<longleftrightarrow> auth_ok p db' \<and> sessions_evolve db db'"

lemma session_evolves_refl [simp]: "session_evolves s s" by (simp add: session_evolves_def)

lemma session_evolves_trans: "session_evolves a b \<Longrightarrow> session_evolves b c \<Longrightarrow> session_evolves a c"
  by (auto simp: session_evolves_def)

lemma sessions_evolve_refl: "sessions_evolve db db" by (simp add: sessions_evolve_def list_all2_refl)

lemma sessions_evolve_trans:
  assumes "sessions_evolve a b" "sessions_evolve b c"
  shows "sessions_evolve a c"
  using assms unfolding sessions_evolve_def by (rule list_all2_take_trans [rotated]) (rule session_evolves_trans)

lemma safe_ok: "safe_step p a b \<Longrightarrow> auth_ok p b" by (simp add: safe_step_def)

lemma safe_refl: "auth_ok p db \<Longrightarrow> safe_step p db db" by (simp add: safe_step_def sessions_evolve_refl)

lemma safe_trans: "safe_step p a b \<Longrightarrow> safe_step p b c \<Longrightarrow> safe_step p a c"
  by (auto simp: safe_step_def intro: sessions_evolve_trans)

lemma auth_okI:
  assumes "distinct (map s_id (ad_sessions db))" "distinct (map t_id (ad_tokens db))" "distinct (map t_hash (ad_tokens db))"
    "\<And>s. s \<in> set (ad_sessions db) \<Longrightarrow> session_bound p s"
    "\<And>s t. s \<in> set (ad_sessions db) \<Longrightarrow> t \<in> set (ad_tokens db) \<Longrightarrow> t_family t = s_id s \<Longrightarrow> s_revoked s \<noteq> None \<Longrightarrow> t_revoked t \<noteq> None"
  shows "auth_ok p db"
  using assms by (simp add: auth_ok_def)

lemma revoke_simps [simp]:
  "s_id (revoke_row r now s) = s_id s" "s_revoked (revoke_row r now s) = Some now"
  "t_id (revoke_token r now t) = t_id t" "t_hash (revoke_token r now t) = t_hash t"
  "t_family (revoke_token r now t) = t_family t" "t_revoked (revoke_token r now t) = Some now"
  by (simp_all add: revoke_row_def revoke_token_def)

lemma revoke_row_bound [simp]:
  "session_bound p (revoke_row r now s) = session_bound p s"
  "s_revoked s = None \<Longrightarrow> session_evolves s (revoke_row r now s)"
  by (simp_all add: session_bound_def session_evolves_def revoke_row_def)

text \<open>An update row by row keeps the invariant when every row keeps its keys and no token outlives its session.\<close>

lemma mapped_safe:
  assumes ok: "auth_ok p db"
    and f: "\<And>s. s_id (f s) = s_id s" "\<And>s. s \<in> set (ad_sessions db) \<Longrightarrow> session_bound p (f s)" "\<And>s. session_evolves s (f s)"
    and g: "\<And>t. t_id (g t) = t_id t \<and> t_hash (g t) = t_hash t \<and> t_family (g t) = t_family t"
    and dead: "\<And>s t. s \<in> set (ad_sessions db) \<Longrightarrow> t \<in> set (ad_tokens db) \<Longrightarrow> t_family t = s_id s
      \<Longrightarrow> s_revoked (f s) \<noteq> None \<Longrightarrow> t_revoked (g t) \<noteq> None"
  shows "safe_step p db (db\<lparr>ad_sessions := map f (ad_sessions db), ad_tokens := map g (ad_tokens db)\<rparr>)"
proof -
  have ids: "s_id \<circ> f = s_id" "t_id \<circ> g = t_id" "t_hash \<circ> g = t_hash"
    using f(1) g by auto
  have "auth_ok p (db\<lparr>ad_sessions := map f (ad_sessions db), ad_tokens := map g (ad_tokens db)\<rparr>)"
  proof (rule auth_okI)
    fix s t
    assume "s \<in> set (ad_sessions (db\<lparr>ad_sessions := map f (ad_sessions db), ad_tokens := map g (ad_tokens db)\<rparr>))"
      "t \<in> set (ad_tokens (db\<lparr>ad_sessions := map f (ad_sessions db), ad_tokens := map g (ad_tokens db)\<rparr>))"
      "t_family t = s_id s" "s_revoked s \<noteq> None"
    then obtain s0 t0 where "s = f s0" "t = g t0" "s0 \<in> set (ad_sessions db)" "t0 \<in> set (ad_tokens db)" "t_family t0 = s_id s0" "s_revoked (f s0) \<noteq> None"
      using f(1) g by auto
    then show "t_revoked t \<noteq> None" using dead by simp
  qed (use ok f(2) in \<open>auto simp: auth_ok_def ids\<close>)
  moreover have "sessions_evolve db (db\<lparr>ad_sessions := map f (ad_sessions db), ad_tokens := map g (ad_tokens db)\<rparr>)"
    using f(3) by (simp add: sessions_evolve_def list_all2_conv_all_nth)
  ultimately show ?thesis by (simp add: safe_step_def)
qed

lemmas mapped_sessions_safe = mapped_safe [where g = "\<lambda>t. t", simplified]
lemmas mapped_tokens_safe = mapped_safe [where f = "\<lambda>s. s", simplified]

lemma token_dead:
  "auth_ok p db \<Longrightarrow> s \<in> set (ad_sessions db) \<Longrightarrow> t \<in> set (ad_tokens db) \<Longrightarrow> t_family t = s_id s \<Longrightarrow> s_revoked s \<noteq> None \<Longrightarrow> t_revoked t \<noteq> None"
  by (simp add: auth_ok_def)

lemma bound_of: "auth_ok p db \<Longrightarrow> s \<in> set (ad_sessions db) \<Longrightarrow> session_bound p s"
  by (simp add: auth_ok_def)

text \<open>Revoking sessions together with all tokens of the sessions it hits keeps the invariant.\<close>

lemma revoke_where_safe:
  assumes ok: "auth_ok p db"
    and all: "\<And>s t. s \<in> set (ad_sessions db) \<Longrightarrow> ps s \<Longrightarrow> s_revoked s = None \<Longrightarrow> t_family t = s_id s \<Longrightarrow> pt t"
  shows "safe_step p db (revoke_sessions_where ps pt r now db)"
  unfolding revoke_sessions_where_def
proof (rule mapped_safe [OF ok])
  fix s t
  assume m: "s \<in> set (ad_sessions db)" "t \<in> set (ad_tokens db)" "t_family t = s_id s"
    and rv: "s_revoked (if ps s \<and> s_revoked s = None then revoke_row r now s else s) \<noteq> None"
  then show "t_revoked (if pt t \<and> t_revoked t = None then revoke_token r now t else t) \<noteq> None"
    using all [OF m(1), of t] token_dead [OF ok m] by (auto split: if_splits)
qed (use bound_of [OF ok] in auto)

lemma revoke_session_safe: "auth_ok p db \<Longrightarrow> safe_step p db (snd (revoke_session i r now db))"
  unfolding revoke_session_def snd_conv by (rule revoke_where_safe) auto

lemma revoke_user_sessions_safe: "auth_ok p db \<Longrightarrow> safe_step p db (snd (revoke_user_sessions u k r now db))"
  unfolding revoke_user_sessions_def Let_def snd_conv by (rule revoke_where_safe) auto

lemma add_token_safe:
  assumes ok: "auth_ok p db" and fresh: "t_id t \<notin> t_id ` set (ad_tokens db)" "t_hash t \<notin> t_hash ` set (ad_tokens db)"
    and live: "\<And>s. s \<in> set (ad_sessions db) \<Longrightarrow> s_id s = t_family t \<Longrightarrow> s_revoked s = None"
  shows "safe_step p db (db\<lparr>ad_tokens := ad_tokens db @ [t]\<rparr>)"
proof -
  have "auth_ok p (db\<lparr>ad_tokens := ad_tokens db @ [t]\<rparr>)"
    by (rule auth_okI) (use ok fresh live in \<open>auto simp: auth_ok_def\<close>)
  then show ?thesis by (simp add: safe_step_def sessions_evolve_def list_all2_refl)
qed

lemma issue_tokensE:
  assumes "issue_tokens env u sid expires db = Inr (pr, db')"
  obtains t where "db' = db\<lparr>ad_tokens := ad_tokens db @ [t]\<rparr>" "t_id t \<notin> t_id ` set (ad_tokens db)"
    "t_hash t \<notin> t_hash ` set (ad_tokens db)" "t_family t = sid" "t_user t = uw_id u" "t_revoked t = None" "t_hash t = ae_hash env"
    "pr = \<lparr>tk_hash = ae_hash env, tk_expires = expires\<rparr>"
proof -
  define t where "t = new_token env u sid expires"
  have t: "t\<lparr>t_revoked := None, t_reason := [], t_replaced := None\<rparr> = t" "t_family t = sid" "t_user t = uw_id u" "t_revoked t = None" "t_hash t = ae_hash env"
    by (simp_all add: t_def new_token_def)
  have "db' = db\<lparr>ad_tokens := ad_tokens db @ [t]\<rparr> \<and> t_id t \<notin> t_id ` set (ad_tokens db) \<and> t_hash t \<notin> t_hash ` set (ad_tokens db)
      \<and> pr = \<lparr>tk_hash = ae_hash env, tk_expires = expires\<rparr>"
    using assms t(1) unfolding issue_tokens_def t_def [symmetric]
    by (auto elim!: and_then_InrE simp: create_refresh_token_def list_ex_iff split: if_splits option.splits)
  then show thesis using t that by blast
qed

lemma mark_refresh_rotated_safe:
  assumes ok: "auth_ok p db" and m: "mark_refresh_rotated i b now db = Inr (r, db')"
  shows "safe_step p db db'" "ad_sessions db' = ad_sessions db"
proof -
  let ?g = "\<lambda>t. if t_id t = i \<and> t_revoked t = None then (revoke_token ''rotated'' now t)\<lparr>t_replaced := Some b\<rparr> else t"
  have db': "db' = db\<lparr>ad_tokens := map ?g (ad_tokens db)\<rparr>"
    using m by (auto simp: mark_refresh_rotated_def Let_def elim!: and_then_InrE)
  show "safe_step p db db'" unfolding db'
    by (rule mapped_tokens_safe [OF ok]) (auto simp: bound_of [OF ok] dest: token_dead [OF ok])
  show "ad_sessions db' = ad_sessions db" by (simp add: db')
qed

lemma touch_session_live:
  assumes "touch_session i idle seen ip db = Inr (True, db')"
  shows "\<exists>s \<in> set (ad_sessions db). s_id s = i \<and> s_revoked s = None"
proof -
  have "length (filter (\<lambda>s. s_id s = i \<and> s_revoked s = None) (ad_sessions db)) = 1"
    using assms by (auto simp: touch_session_def Let_def elim!: and_then_InrE)
  then have "filter (\<lambda>s. s_id s = i \<and> s_revoked s = None) (ad_sessions db) \<noteq> []" by auto
  then show ?thesis by (auto simp: filter_empty_conv)
qed

lemma touch_session_safe:
  assumes ok: "auth_ok p db" and t: "touch_session i idle seen ip db = Inr (r, db')"
    and fits: "\<And>s. s \<in> set (ad_sessions db) \<Longrightarrow> s_id s = i \<Longrightarrow> nanos idle \<le> nanos (s_absolute s)" "nanos idle \<le> nanos seen + sp_idle p"
  shows "safe_step p db db'"
proof -
  let ?f = "\<lambda>s. if s_id s = i \<and> s_revoked s = None then s\<lparr>s_idle := idle, s_last_seen := seen, s_last_ip := ip\<rparr> else s"
  have db': "db' = db\<lparr>ad_sessions := map ?f (ad_sessions db)\<rparr>"
    using t by (auto simp: touch_session_def Let_def elim!: and_then_InrE)
  show "safe_step p db db'" unfolding db'
    using fits by (intro mapped_sessions_safe [OF ok]) (auto simp: session_evolves_def session_bound_def dest: bound_of [OF ok] token_dead [OF ok] split: if_splits)
qed

lemma successor_bounds:
  "nanos (successor_expiry now idle absolute) \<le> nanos absolute" "nanos (successor_expiry now idle absolute) \<le> nanos now + idle"
  "nanos (successor_expiry now idle (time_add now life)) \<le> nanos now + life"
  by (auto simp: successor_expiry_def Let_def before_def time_add_def)

lemma open_session_safe:
  assumes ok: "auth_ok p db" and p: "ae_policy env = p" and o: "open_session env u how db = Inr (pr, db')"
  shows "safe_step p db db'"
proof -
  define s where "s = new_session env u how"
  define d where "d = db\<lparr>ad_sessions := ad_sessions db @ [s]\<rparr>"
  have s: "s_revoked s = None" "session_bound p s" "s\<lparr>s_revoked := None, s_reason := []\<rparr> = s" using p
    by (auto simp: s_def new_session_def session_start_def Let_def session_bound_def successor_bounds) (simp add: time_add_def)
  from o have c: "s_id s \<notin> s_id ` set (ad_sessions db)" and i: "issue_tokens env u (s_id s) (s_idle s) d = Inr (pr, db')"
    using s(3) unfolding open_session_def Let_def s_def [symmetric]
    by (auto simp: create_session_def d_def list_ex_iff image_iff elim!: and_then_InrE split: if_splits)
  have "auth_ok p d" unfolding d_def
    by (rule auth_okI) (use ok s c in \<open>auto simp: auth_ok_def\<close>)
  moreover have "sessions_evolve db d" by (simp add: d_def sessions_evolve_def list_all2_refl)
  moreover have "safe_step p d db'"
  proof -
    from i obtain t where t: "db' = d\<lparr>ad_tokens := ad_tokens d @ [t]\<rparr>" "t_id t \<notin> t_id ` set (ad_tokens d)"
      "t_hash t \<notin> t_hash ` set (ad_tokens d)" "t_family t = s_id s" by (rule issue_tokensE)
    have "s' = s" if "s' \<in> set (ad_sessions d)" "s_id s' = s_id s" for s' using that c by (auto simp: d_def image_iff)
    then show ?thesis unfolding t(1) using \<open>auth_ok p d\<close> t(2,3,4) s(1) by (intro add_token_safe) auto
  qed
  ultimately show ?thesis using safe_trans [of p db d db'] by (simp add: safe_step_def)
qed

lemma find_session_mem: "find_session db i = Some s \<Longrightarrow> s \<in> set (ad_sessions db) \<and> s_id s = i"
  by (auto simp: find_session_def find_Some_iff)

lemma find_token_mem: "find_refresh_token db h = Some t \<Longrightarrow> t \<in> set (ad_tokens db) \<and> t_hash t = h"
  by (auto simp: find_refresh_token_def find_Some_iff)

lemma session_unique:
  "auth_ok p db \<Longrightarrow> s \<in> set (ad_sessions db) \<Longrightarrow> s' \<in> set (ad_sessions db) \<Longrightarrow> s_id s = s_id s' \<Longrightarrow> s = s'"
  by (auto simp: auth_ok_def distinct_map inj_on_def)

lemma rotate_tx_safe:
  assumes ok: "auth_ok p db" and p: "ae_policy env = p" and sess: "sess \<in> set (ad_sessions db)"
    and r: "rotate_tx env u rec sess v db = Inr (pr, db')"
  shows "safe_step p db db' \<and> s_revoked sess = None"
proof -
  define ex where "ex = successor_expiry (ae_now env) (sp_idle (ae_policy env)) (s_absolute sess)"
  from r [unfolded rotate_tx_def Let_def ex_def [symmetric]] obtain d1 d2 pr1 where
    1: "issue_tokens env u (s_id sess) ex db = Inr (pr1, d1)" and
    2: "(if v = RefreshRotate then and_then (mark_refresh_rotated (t_id rec) (ae_token env) (ae_now env))
           (\<lambda>ok. if \<not> ok then fail err_refresh_raced else ret ()) else ret ()) d1 = Inr ((), d2)" and
    3: "touch_session (s_id sess) ex (ae_now env) (ae_ip env) d2 = Inr (True, db')"
    by (auto elim!: and_then_InrE split: if_splits)
  from 1 obtain t where t: "d1 = db\<lparr>ad_tokens := ad_tokens db @ [t]\<rparr>" "t_id t \<notin> t_id ` set (ad_tokens db)"
    "t_hash t \<notin> t_hash ` set (ad_tokens db)" "t_family t = s_id sess" by (rule issue_tokensE)
  have same: "ad_sessions d2 = ad_sessions db"
    using 2 t(1) by (auto simp: mark_refresh_rotated_def Let_def elim!: and_then_InrE split: if_splits)
  obtain s where s: "s \<in> set (ad_sessions d2)" "s_id s = s_id sess" "s_revoked s = None"
    using touch_session_live [OF 3] by auto
  then have live: "s_revoked sess = None" using session_unique [OF ok _ sess] same by auto
  have d1: "safe_step p db d1" unfolding t(1)
    using t(2-4) session_unique [OF ok _ sess] live by (intro add_token_safe [OF ok]) auto
  then have ok1: "auth_ok p d1" by (simp add: safe_step_def)
  have d2: "safe_step p d1 d2"
    using 2 mark_refresh_rotated_safe(1) [OF ok1] safe_refl [OF ok1] by (auto elim!: and_then_InrE split: if_splits)
  then have ok2: "auth_ok p d2" by (simp add: safe_step_def)
  have "safe_step p d2 db'"
  proof (rule touch_session_safe [OF ok2 3])
    fix x assume "x \<in> set (ad_sessions d2)" "s_id x = s_id sess"
    then have "x = sess" using session_unique [OF ok _ sess] same by auto
    then show "nanos ex \<le> nanos (s_absolute x)" by (simp add: ex_def successor_bounds)
  qed (simp add: ex_def p successor_bounds)
  then show ?thesis using d1 d2 live by (blast intro: safe_trans)
qed

lemma refresh_once_safe:
  assumes ok: "auth_ok p db" and p: "ae_policy env = p"
  shows "safe_step p db (snd (refresh_once env h db))"
proof -
  have tx: "safe_step p db (snd (within_transaction (rotate_tx env u rec sess v) db))"
    if "find_session db i = Some sess" for u rec sess v i
    using rotate_tx_safe [OF ok p] find_session_mem [OF that] safe_refl [OF ok]
    by (auto simp: within_transaction_def split: sum.splits)
  show ?thesis
    by (auto simp: refresh_once_def Let_def safe_refl [OF ok] revoke_session_safe [OF ok] tx split: option.splits)
qed

lemma refresh_safe:
  assumes ok: "auth_ok p db" and p: "ae_policy env = p"
  shows "safe_step p db (snd (refresh ht env token db))"
proof -
  let ?h = "ht (trim_space token)"
  obtain r d where r: "refresh_once env ?h db = (r, d)" by fastforce
  obtain r' d' where r': "refresh_once env ?h d = (r', d')" by fastforce
  have 1: "safe_step p db d" using refresh_once_safe [OF ok p, of ?h] r by simp
  then have "safe_step p d d'" using refresh_once_safe [OF _ p, of d ?h] r' by (simp add: safe_step_def)
  then have 2: "safe_step p db d'" using 1 safe_trans by blast
  show ?thesis by (simp add: refresh_def Let_def r r' 1 2 safe_refl [OF ok])
qed

lemma logout_safe:
  assumes ok: "auth_ok p db"
  shows "safe_step p db (snd (logout ht ar now user sid token db))"
proof -
  have f: "safe_step p db d \<Longrightarrow> safe_step p db (fold (\<lambda>i d. if i = uuid_nil then d else snd (revoke_session i r now d)) is d)" for "is" d r
  proof (induction "is" arbitrary: d)
    case (Cons i "is")
    have "safe_step p d (snd (revoke_session i r now d))" using safe_ok [OF Cons.prems] by (rule revoke_session_safe)
    then have "safe_step p db (snd (revoke_session i r now d))" using Cons.prems safe_trans by blast
    then show ?case using Cons by auto
  qed simp
  show ?thesis using f [OF safe_refl [OF ok]] safe_refl [OF ok] by (auto simp: logout_def split: prod.splits)
qed

lemma user_revocations_safe:
  assumes "auth_ok p db"
  shows "safe_step p db (snd (revoke_own_session now user cur i db))"
    "safe_step p db (snd (revoke_other_sessions now user cur db))"
    "safe_step p db (snd (admin_revoke_sessions sc now user db))"
  using safe_refl [OF assms] revoke_session_safe [OF assms] revoke_user_sessions_safe [OF assms]
  by (auto simp: revoke_own_session_def revoke_other_sessions_def admin_revoke_sessions_def split: option.splits prod.splits)
    (metis snd_conv)+

section \<open>Runs\<close>

text \<open>
  The ways the tables change: a completed sign-in opens a session, a refresh, a logout, a revocation by the
  user or by an administrator; user rows are changed by other parts in any way.
\<close>

inductive auth_step :: "session_policy \<Rightarrow> auth_db \<Rightarrow> auth_db \<Rightarrow> bool" for p where
  signed_in: "ae_policy env = p \<Longrightarrow> auth_step p db (snd (within_transaction (open_session env u how) db))"
| refreshed: "ae_policy env = p \<Longrightarrow> auth_step p db (snd (refresh ht env token db))"
| logged_out: "auth_step p db (snd (logout ht ar now user sid token db))"
| own_revoked: "auth_step p db (snd (revoke_own_session now user cur i db))"
| others_revoked: "auth_step p db (snd (revoke_other_sessions now user cur db))"
| admin_revoked: "auth_step p db (snd (admin_revoke_sessions sc now user db))"
| users_changed: "auth_step p db (db\<lparr>ad_users := us\<rparr>)"

inductive_cases auth_stepE: "auth_step p db db'"

lemma auth_step_safe: "auth_step p db db' \<Longrightarrow> auth_ok p db \<Longrightarrow> safe_step p db db'"
proof (induction rule: auth_step.induct)
  case (signed_in env db u how)
  then show ?case using open_session_safe safe_refl by (auto simp: within_transaction_def split: sum.splits)
next
  case (users_changed db us)
  then show ?case by (simp add: safe_step_def auth_ok_def sessions_evolve_def list_all2_refl)
qed (auto intro: refresh_safe logout_safe user_revocations_safe)

lemma auth_ok_empty: "ad_sessions db = [] \<Longrightarrow> ad_tokens db = [] \<Longrightarrow> auth_ok p db"
  by (simp add: auth_ok_def)

interpretation auth: invariant_machine "\<lambda>db. ad_sessions db = [] \<and> ad_tokens db = []" "auth_step p" "auth_ok p" for p
  by unfold_locales (auto intro: auth_ok_empty dest: auth_step_safe safe_ok)

lemma auth_run_safe: "(auth_step p)\<^sup>*\<^sup>* db db' \<Longrightarrow> auth_ok p db \<Longrightarrow> safe_step p db db'"
  by (induction rule: rtranclp_induct) (blast intro: safe_refl safe_trans auth_step_safe safe_ok)+

lemma evolved_session:
  assumes "sessions_evolve db db'" "s \<in> set (ad_sessions db)"
  obtains s' where "s' \<in> set (ad_sessions db')" "session_evolves s s'"
  using assms unfolding sessions_evolve_def
  by (metis in_set_conv_nth in_set_takeD list_all2_conv_all_nth)

lemma find_session_iff:
  "auth_ok p db \<Longrightarrow> find_session db i = Some s \<longleftrightarrow> s \<in> set (ad_sessions db) \<and> s_id s = i"
  using find_unique [of s_id "ad_sessions db" s "\<lambda>_. True"] find_session_mem [of db i s]
  by (auto simp: find_session_def auth_ok_def)

text \<open>No refresh succeeds with a token of a revoked session.\<close>

lemma refresh_once_dead:
  assumes ok: "auth_ok p db" and s: "s \<in> set (ad_sessions db)" "s_revoked s \<noteq> None"
    and t: "find_refresh_token db h = Some t" "t_family t = s_id s"
  shows "fst (refresh_once env h db) = Inl err_invalid_refresh"
proof -
  have f: "find_session db (t_family t) = Some s" using find_session_iff [OF ok] s t(2) by simp
  obtain a where a: "t_revoked t = Some a" using token_dead [OF ok s(1) _ t(2) s(2)] find_token_mem [OF t(1)] by auto
  have "evaluate_refresh t s (ae_now env) (ae_grace env) = RefreshReused"
    using a s(2) by (auto simp: evaluate_refresh_def session_active_def)
  then show ?thesis by (simp add: refresh_once_def t(1) f Let_def)
qed

text \<open>A run for the witnesses: a sign-in, a refresh, and the old token presented again after the grace.\<close>

definition sample_policy :: session_policy where "sample_policy = \<lparr>sp_idle = 100, sp_absolute = 1000\<rparr>"

definition sample_env :: "int \<Rightarrow> uuid \<Rightarrow> string \<Rightarrow> auth_env" where
  "sample_env n tok h = \<lparr>ae_now = \<lparr>nanos = n, zone = 0\<rparr>, ae_policy = sample_policy, ae_grace = 10, ae_session = 7,
     ae_token = tok, ae_hash = h, ae_sign = None, ae_ip = [], ae_agent = []\<rparr>"

definition sample_user :: user_row where
  "sample_user = \<lparr>uw_id = 3, uw_email = ''a@b'', uw_password = [], uw_admin = False, uw_branch = 4, uw_active = True,
     uw_version = 0, uw_mfa_pending = [], uw_mfa_enabled = False, uw_mfa_secret = [], uw_mfa_step = 0, uw_failed = 0,
     uw_last_failed = None, uw_lockouts = 0, uw_locked = None\<rparr>"

definition sample_token :: string where "sample_token = ''wrt_'' @ replicate 43 CHR ''x''"

definition sample_start :: auth_db where "sample_start = \<lparr>ad_users = [sample_user], ad_sessions = [], ad_tokens = []\<rparr>"

definition sample_open :: auth_db where
  "sample_open = snd (within_transaction (open_session (sample_env 50 11 sample_token) sample_user ''password'') sample_start)"

definition sample_rotated :: auth_db where
  "sample_rotated = snd (refresh (\<lambda>t. t) (sample_env 60 12 ''two'') sample_token sample_open)"

definition sample_burnt :: auth_db where
  "sample_burnt = snd (refresh (\<lambda>t. t) (sample_env 90 13 ''three'') sample_token sample_rotated)"

lemma sample_run:
  "(auth_step sample_policy)\<^sup>*\<^sup>* sample_start sample_open" "(auth_step sample_policy)\<^sup>*\<^sup>* sample_start sample_rotated"
  "(auth_step sample_policy)\<^sup>*\<^sup>* sample_rotated sample_burnt"
proof -
  have e: "ae_policy (sample_env n t h) = sample_policy" for n t h by (simp add: sample_env_def)
  have 1: "auth_step sample_policy sample_start sample_open" unfolding sample_open_def by (rule signed_in) (rule e)
  have 2: "auth_step sample_policy sample_open sample_rotated" unfolding sample_rotated_def by (rule refreshed) (rule e)
  have 3: "auth_step sample_policy sample_rotated sample_burnt" unfolding sample_burnt_def by (rule refreshed) (rule e)
  show "(auth_step sample_policy)\<^sup>*\<^sup>* sample_start sample_open" using 1 by (rule r_into_rtranclp)
  show "(auth_step sample_policy)\<^sup>*\<^sup>* sample_start sample_rotated" using 1 2 by simp
  show "(auth_step sample_policy)\<^sup>*\<^sup>* sample_rotated sample_burnt" using 3 by (rule r_into_rtranclp)
qed

lemma sample_facts:
  "map s_revoked (ad_sessions sample_rotated) = [None]"
  "map (\<lambda>t. (t_id t, t_revoked t = None)) (ad_tokens sample_rotated) = [(11, False), (12, True)]"
  "map (\<lambda>s. (s_id s, s_revoked s = None)) (ad_sessions sample_burnt) = [(7, False)]"
  "map (\<lambda>t. t_revoked t = None) (ad_tokens sample_burnt) = [False, False]"
  by code_simp+

lemma sample_ok: "auth_ok sample_policy sample_start" "auth_ok sample_policy sample_rotated"
proof -
  show 1: "auth_ok sample_policy sample_start" by (rule auth_ok_empty) (simp_all add: sample_start_def)
  show "auth_ok sample_policy sample_rotated" by (rule auth.run_good [OF sample_run(2) 1])
qed

text \<open>
  C36. A revoked session is dead for good. From any store that satisfies the invariant, along any run of
  sign-ins, refreshes, logouts, revocations and user changes: the session stays as it was revoked, every
  refresh token of its family stays revoked, presenting any of them is refused, and every access token of
  the session is refused.
\<close>

theorem revoked_session_dead:
  assumes "auth_ok p db" "s \<in> set (ad_sessions db)" "s_revoked s \<noteq> None" "(auth_step p)\<^sup>*\<^sup>* db db'"
  shows "find_session db' (s_id s) = Some s
    \<and> (\<forall>t \<in> set (ad_tokens db'). t_family t = s_id s \<longrightarrow> t_revoked t \<noteq> None)
    \<and> (\<forall>h t env. find_refresh_token db' h = Some t \<and> t_family t = s_id s \<longrightarrow> fst (refresh_once env h db') = Inl err_invalid_refresh)
    \<and> check_session (session_state_of db' (s_id s)) user version now = Some err_session_revoked"
proof -
  have safe: "safe_step p db db'" using auth_run_safe assms(1,4) by blast
  then have ok: "auth_ok p db'" by (rule safe_ok)
  obtain s' where "s' \<in> set (ad_sessions db')" "session_evolves s s'"
    using evolved_session [of db db' s] safe assms(2) unfolding safe_step_def by blast
  then have m: "s \<in> set (ad_sessions db')" using assms(3) by (auto simp: session_evolves_def)
  then have f: "find_session db' (s_id s) = Some s" using find_session_iff [OF ok] by simp
  moreover have "check_session (session_state_of db' (s_id s)) user version now = Some err_session_revoked"
    using assms(3) by (auto simp: check_session_def session_state_of_def f split: option.splits)
  ultimately show ?thesis using token_dead [OF ok m _ _ assms(3)] refresh_once_dead [OF ok m assms(3)] by blast
qed

theorem revoked_session_dead_witness:
  "\<exists>s. find_session sample_burnt 7 = Some s \<and> s_revoked s \<noteq> None
     \<and> check_session (session_state_of sample_burnt 7) 3 0 (ae_now (sample_env 95 0 [])) = Some err_session_revoked"
proof -
  have ok: "auth_ok sample_policy sample_burnt" using auth.run_good sample_run(3) sample_ok(2) by blast
  obtain s where s: "s \<in> set (ad_sessions sample_burnt)" "s_id s = 7" "s_revoked s \<noteq> None"
    using sample_facts(3) by (auto simp: map_eq_Cons_conv)
  then show ?thesis using revoked_session_dead [OF ok s(1,3) rtranclp.rtrancl_refl, of 3 0 "ae_now (sample_env 95 0 [])"] by auto
qed

text \<open>
  C37. Reuse of a refresh token burns its session. Presenting a token that was revoked and is not inside the
  rotation grace is refused, and leaves the session and all refresh tokens of its family revoked.
\<close>

theorem refresh_reuse_burns:
  assumes "auth_ok p db" "find_refresh_token db h = Some t" "t_revoked t \<noteq> None" "find_session db (t_family t) = Some s"
    "s_user s = t_user t" "evaluate_refresh t s (ae_now env) (ae_grace env) \<noteq> RefreshGrace"
    "refresh_once env h db = (r, db')"
  shows "r = Inl err_invalid_refresh
    \<and> (\<forall>x \<in> set (ad_sessions db'). s_id x = t_family t \<longrightarrow> s_revoked x \<noteq> None)
    \<and> (\<forall>x \<in> set (ad_tokens db'). t_family x = t_family t \<longrightarrow> t_revoked x \<noteq> None)"
proof -
  have v: "evaluate_refresh t s (ae_now env) (ae_grace env) = RefreshReused"
    using assms(3,6) by (auto simp: evaluate_refresh_def split: if_splits)
  have i: "s_id s = t_family t" using find_session_mem [OF assms(4)] by simp
  have "r = Inl err_invalid_refresh" and db': "db' = snd (revoke_session (t_family t) ''reuse_detected'' (ae_now env) db)"
    using assms(2,4,5,7) v i by (auto simp: refresh_once_def Let_def)
  then show ?thesis by (auto simp: revoke_session_def revoke_sessions_where_def)
qed

theorem refresh_reuse_burns_witness:
  "fst (refresh_once (sample_env 90 13 ''three'') sample_token sample_rotated) = Inl err_invalid_refresh
   \<and> map (\<lambda>x. t_revoked x = None) (ad_tokens (snd (refresh_once (sample_env 90 13 ''three'') sample_token sample_rotated))) = [False, False]"
proof -
  let ?e = "sample_env 90 13 ''three''"
  obtain t where t: "find_refresh_token sample_rotated sample_token = Some t" "t_revoked t \<noteq> None" "t_family t = 7" "t_user t = 3"
    "t_reason t = ''rotated''" "t_revoked t = Some (ae_now (sample_env 60 0 []))"
  proof -
    have "map_option (\<lambda>t. (t_revoked t, t_family t, t_user t, t_reason t)) (find_refresh_token sample_rotated sample_token)
        = Some (Some (ae_now (sample_env 60 0 [])), 7, 3, ''rotated'')" by code_simp
    then show thesis using that by (cases "find_refresh_token sample_rotated sample_token") auto
  qed
  obtain s where s: "find_session sample_rotated 7 = Some s" "s_user s = 3"
  proof -
    have "map_option s_user (find_session sample_rotated 7) = Some 3" by code_simp
    then show thesis using that by (cases "find_session sample_rotated 7") auto
  qed
  have v: "evaluate_refresh t s (ae_now ?e) (ae_grace ?e) \<noteq> RefreshGrace"
    using t(5,6) by (simp add: evaluate_refresh_def sample_env_def time_sub_def int64_max_def int64_min_def)
  obtain r d where r: "refresh_once ?e sample_token sample_rotated = (r, d)" by fastforce
  have "r = Inl err_invalid_refresh"
    using refresh_reuse_burns [OF sample_ok(2) t(1,2) _ _ v r] s t(3,4) by simp
  moreover have "map (\<lambda>x. t_revoked x = None) (ad_tokens (snd (refresh_once ?e sample_token sample_rotated))) = [False, False]" by code_simp
  ultimately show ?thesis using r by simp
qed

text \<open>
  Sessions end. In every store reached from empty session tables, a session that still counts as active
  was created less than the absolute lifetime ago, and last seen less than the idle time ago.
\<close>

theorem session_lifetime:
  assumes "ad_sessions db0 = []" "ad_tokens db0 = []" "(auth_step p)\<^sup>*\<^sup>* db0 db"
    "s \<in> set (ad_sessions db)" "session_active s now"
  shows "nanos now < nanos (s_created s) + sp_absolute p \<and> nanos now < nanos (s_last_seen s) + sp_idle p"
proof -
  have "auth_ok p db" using auth.reachable_good [of db0 p db] assms(1-3) by simp
  then have "session_bound p s" using assms(4) by (rule bound_of)
  then show ?thesis using assms(5) by (auto simp: session_bound_def session_active_def before_def)
qed

theorem session_lifetime_witness:
  "\<exists>s. find_session sample_rotated 7 = Some s \<and> session_active s (ae_now (sample_env 140 0 []))
     \<and> nanos (ae_now (sample_env 140 0 [])) < nanos (s_last_seen s) + sp_idle sample_policy"
proof -
  have "map_option (\<lambda>s. session_active s (ae_now (sample_env 140 0 []))) (find_session sample_rotated 7) = Some True" by code_simp
  then obtain s where s: "find_session sample_rotated 7 = Some s" "session_active s (ae_now (sample_env 140 0 []))" by auto
  then show ?thesis
    using session_lifetime [of sample_start sample_policy sample_rotated s] sample_run(2) find_session_mem [OF s(1)]
    by (auto simp: sample_start_def)
qed

end
