(* ===== verification/Auth_Login.thy ===== *)
theory Auth_Login
  imports Auth_Sessions
begin

text \<open>
  Signing in: \<^verbatim>\<open>internal/app/auth/service.go\<close> (password, second factor, unlock), \<^verbatim>\<open>lockout.go\<close> (throttling and
  account lockout) and \<^verbatim>\<open>mfa.go\<close> (enrollment, recovery codes), over the tables of
  \<^verbatim>\<open>adapter/postgres/identity/security.go\<close>. The limiter is the in-process window of \<open>Rate_Limit\<close>, the one
  the service falls back to.

  Parameters (\<open>login_deps\<close>): the password comparison (bcrypt), the token hash, the cipher, the one-time
  passwords of a secret (\<open>None\<close> when the secret does not decode), the roles that need a second factor, and the
  company directory. The clock is read once per call.
\<close>

section \<open>State\<close>

record challenge =
  ch_hash :: string
  ch_user :: uuid
  ch_purpose :: string
  ch_attempts :: int
  ch_expires :: go_time
  ch_ip :: string

record recovery_code =
  rc_user :: uuid
  rc_hash :: string
  rc_used :: "go_time option"

record login_state =
  ls_db :: auth_db
  ls_limiter :: events_map
  ls_challenges :: "challenge list"
  ls_recovery :: "recovery_code list"

record login_deps =
  ld_match :: "string \<Rightarrow> string \<Rightarrow> bool"
  ld_hash :: "string \<Rightarrow> string"
  ld_encrypt :: "string \<Rightarrow> string \<Rightarrow> string result"
  ld_decrypt :: "string \<Rightarrow> string \<Rightarrow> string result"
  ld_otp :: "string \<Rightarrow> (int \<Rightarrow> string) option"
  ld_mfa_required :: "user_row \<Rightarrow> bool"
  ld_companies :: "(uuid \<Rightarrow> string result) option"
  ld_lockout :: lockout_policy
  ld_ip_max :: int

text \<open>What a call draws: the session environment, a challenge token, a fresh secret, fresh recovery codes.\<close>

record login_env =
  le_auth :: auth_env
  le_challenge :: string
  le_secret :: string
  le_codes :: "string list"

record login_input =
  li_email :: string
  li_password :: string
  li_company :: string
  li_platform :: bool

datatype login_result =
  LoggedIn token_pair user_row "string list"
| MfaRequired string user_row
| MfaEnrollmentRequired string user_row

abbreviation le_now :: "login_env \<Rightarrow> go_time" where "le_now env \<equiv> ae_now (le_auth env)"
abbreviation le_ip :: "login_env \<Rightarrow> string" where "le_ip env \<equiv> ae_ip (le_auth env)"

section \<open>Tables\<close>

definition update_user :: "uuid \<Rightarrow> (user_row \<Rightarrow> user_row) \<Rightarrow> login_state \<Rightarrow> login_state" where
  "update_user i f st =
     st\<lparr>ls_db := (ls_db st)\<lparr>ad_users := map (\<lambda>u. if uw_id u = i then f u else u) (ad_users (ls_db st))\<rparr>\<rparr>"

definition find_user_by_email :: "auth_db \<Rightarrow> string \<Rightarrow> user_row option" where
  "find_user_by_email db e = find (\<lambda>u. uw_email u = e) (ad_users db)"

definition failure_count :: "user_row \<Rightarrow> go_time \<Rightarrow> int" where
  "failure_count u window_start =
     (case uw_last_failed u of None \<Rightarrow> 1 | Some l \<Rightarrow> if before l window_start then 1 else uw_failed u + 1)"

definition register_login_failure :: "uuid \<Rightarrow> go_time \<Rightarrow> go_time \<Rightarrow> login_state \<Rightarrow> (int \<times> int) result \<times> login_state" where
  "register_login_failure i window_start now st =
     (case find_user (ls_db st) i of
        None \<Rightarrow> (Inl (Plain ''no rows in result set''), st)
      | Some u \<Rightarrow> (Inr (failure_count u window_start, uw_lockouts u),
                   update_user i (\<lambda>u. u\<lparr>uw_failed := failure_count u window_start, uw_last_failed := Some now\<rparr>) st))"

definition lock_user :: "uuid \<Rightarrow> go_time \<Rightarrow> login_state \<Rightarrow> login_state" where
  "lock_user i until = update_user i (\<lambda>u. u\<lparr>uw_locked := Some until, uw_lockouts := uw_lockouts u + 1, uw_failed := 0\<rparr>)"

definition unlock_user :: "uuid \<Rightarrow> login_state \<Rightarrow> login_state" where
  "unlock_user i = update_user i (\<lambda>u. u\<lparr>uw_failed := 0, uw_lockouts := 0, uw_locked := None, uw_last_failed := None\<rparr>)"

definition clear_login_failures :: "uuid \<Rightarrow> login_state \<Rightarrow> login_state" where
  "clear_login_failures i = update_user i (\<lambda>u.
     if uw_failed u \<noteq> 0 \<or> uw_lockouts u \<noteq> 0 \<or> uw_locked u \<noteq> None
     then u\<lparr>uw_failed := 0, uw_lockouts := 0, uw_locked := None, uw_last_failed := None\<rparr> else u)"

definition set_pending_mfa_secret :: "uuid \<Rightarrow> string \<Rightarrow> login_state \<Rightarrow> login_state" where
  "set_pending_mfa_secret i e = update_user i (\<lambda>u. u\<lparr>uw_mfa_pending := e\<rparr>)"

definition activate_mfa :: "uuid \<Rightarrow> string \<Rightarrow> int \<Rightarrow> login_state \<Rightarrow> login_state" where
  "activate_mfa i e step = update_user i (\<lambda>u. u\<lparr>uw_mfa_enabled := True, uw_mfa_secret := e, uw_mfa_pending := [], uw_mfa_step := step\<rparr>)"

definition deactivate_mfa :: "uuid \<Rightarrow> login_state \<Rightarrow> login_state" where
  "deactivate_mfa i st =
     (let st = update_user i (\<lambda>u. u\<lparr>uw_mfa_enabled := False, uw_mfa_secret := [], uw_mfa_pending := [], uw_mfa_step := 0\<rparr>) st
      in st\<lparr>ls_recovery := filter (\<lambda>c. rc_user c \<noteq> i) (ls_recovery st)\<rparr>)"

definition advance_mfa_step :: "uuid \<Rightarrow> int \<Rightarrow> login_state \<Rightarrow> bool \<times> login_state" where
  "advance_mfa_step i step st =
     (length (filter (\<lambda>u. uw_id u = i \<and> uw_mfa_step u < step) (ad_users (ls_db st))) = 1,
      update_user i (\<lambda>u. if uw_mfa_step u < step then u\<lparr>uw_mfa_step := step\<rparr> else u) st)"

definition replace_recovery_codes :: "uuid \<Rightarrow> string list \<Rightarrow> login_state \<Rightarrow> error option \<times> login_state" where
  "replace_recovery_codes i hashes st =
     (let st = st\<lparr>ls_recovery := filter (\<lambda>c. rc_user c \<noteq> i) (ls_recovery st)\<rparr> in
      if \<not> distinct hashes then (Some (Plain ''duplicate key value''), st)
      else (None, st\<lparr>ls_recovery := ls_recovery st @ map (\<lambda>h. \<lparr>rc_user = i, rc_hash = h, rc_used = None\<rparr>) hashes\<rparr>))"

definition consume_recovery_code :: "uuid \<Rightarrow> string \<Rightarrow> go_time \<Rightarrow> login_state \<Rightarrow> bool \<times> login_state" where
  "consume_recovery_code i h now st =
     (let hit = (\<lambda>c. rc_user c = i \<and> rc_hash c = h \<and> rc_used c = None) in
      (length (filter hit (ls_recovery st)) = 1,
       st\<lparr>ls_recovery := map (\<lambda>c. if hit c then c\<lparr>rc_used := Some now\<rparr> else c) (ls_recovery st)\<rparr>))"

definition create_challenge :: "challenge \<Rightarrow> go_time \<Rightarrow> login_state \<Rightarrow> error option \<times> login_state" where
  "create_challenge c now st =
     (let kept = filter (\<lambda>x. \<not> (ch_user x = ch_user c \<and> before (ch_expires x) now)) (ls_challenges st);
          st = st\<lparr>ls_challenges := kept\<rparr>
      in if list_ex (\<lambda>x. ch_hash x = ch_hash c) kept then (Some (Plain ''duplicate key value''), st)
         else (None, st\<lparr>ls_challenges := kept @ [c\<lparr>ch_attempts := 0\<rparr>]\<rparr>))"

definition find_challenge :: "string \<Rightarrow> string \<Rightarrow> go_time \<Rightarrow> login_state \<Rightarrow> challenge option" where
  "find_challenge h purpose now st =
     find (\<lambda>c. ch_hash c = h \<and> ch_purpose c = purpose \<and> after (ch_expires c) now) (ls_challenges st)"

definition attempt_challenge :: "string \<Rightarrow> string \<Rightarrow> int \<Rightarrow> go_time \<Rightarrow> login_state \<Rightarrow> challenge option \<times> login_state" where
  "attempt_challenge h purpose limit now st =
     (let hit = (\<lambda>c. ch_hash c = h \<and> ch_purpose c = purpose \<and> after (ch_expires c) now \<and> ch_attempts c < limit) in
      (map_option (\<lambda>c. c\<lparr>ch_attempts := ch_attempts c + 1\<rparr>) (find hit (ls_challenges st)),
       st\<lparr>ls_challenges := map (\<lambda>c. if hit c then c\<lparr>ch_attempts := ch_attempts c + 1\<rparr> else c) (ls_challenges st)\<rparr>))"

definition delete_challenge :: "string \<Rightarrow> login_state \<Rightarrow> login_state" where
  "delete_challenge h st = st\<lparr>ls_challenges := filter (\<lambda>c. ch_hash c \<noteq> h) (ls_challenges st)\<rparr>"

section \<open>Lockout\<close>

definition err_invalid_credentials :: error where
  "err_invalid_credentials = mk_app ''unauthorized'' ''invalid credentials'' ErrUnauthorized"

definition err_invalid_challenge :: error where
  "err_invalid_challenge = mk_app ''unauthorized'' ''invalid or expired mfa challenge'' ErrUnauthorized"

definition err_invalid_mfa_code :: error where
  "err_invalid_mfa_code = mk_app ''unauthorized'' ''invalid mfa code'' ErrUnauthorized"

definition err_bad_second_factor :: error where "err_bad_second_factor = Plain ''bad second factor''"

definition locked_error :: "int \<Rightarrow> error" where
  "locked_error wait = App \<lparr>code = ''account_locked'', message = ''account temporarily locked'', err = ErrLocked,
     retry_after = wait, details = []\<rparr>"

definition rate_limited_error :: "int \<Rightarrow> error" where
  "rate_limited_error wait = App \<lparr>code = ''rate_limited'', message = ''too many login attempts'', err = ErrRateLimited,
     retry_after = wait, details = []\<rparr>"

definition normalize_email :: "string \<Rightarrow> string" where "normalize_email e = trim_space (to_lower e)"

definition ip_key :: "string \<Rightarrow> string" where "ip_key ip = ''login:ip:'' @ ip"

definition email_key :: "login_deps \<Rightarrow> string \<Rightarrow> string" where "email_key d e = ''login:email:'' @ ld_hash d e"

definition limiter_hit :: "login_deps \<Rightarrow> go_time \<Rightarrow> string \<Rightarrow> login_state \<Rightarrow> int \<times> login_state" where
  "limiter_hit d now key st =
     (let (n, m) = memory_hit (ls_limiter st) key now (lp_window (ld_lockout d)) in (int n, st\<lparr>ls_limiter := m\<rparr>))"

definition limiter_count :: "login_deps \<Rightarrow> go_time \<Rightarrow> string \<Rightarrow> login_state \<Rightarrow> int \<times> login_state" where
  "limiter_count d now key st =
     (let (n, m) = memory_count (ls_limiter st) key now (lp_window (ld_lockout d)) in (int n, st\<lparr>ls_limiter := m\<rparr>))"

definition limiter_reset :: "string \<Rightarrow> login_state \<Rightarrow> login_state" where
  "limiter_reset key st = st\<lparr>ls_limiter := memory_reset (ls_limiter st) key\<rparr>"

definition check_ip_throttle :: "login_deps \<Rightarrow> login_env \<Rightarrow> login_state \<Rightarrow> error option \<times> login_state" where
  "check_ip_throttle d env st =
     (if ld_ip_max d \<le> 0 \<or> le_ip env = [] then (None, st)
      else let (n, st) = limiter_count d (le_now env) (ip_key (le_ip env)) st
           in (if n \<ge> ld_ip_max d then Some (rate_limited_error (lp_window (ld_lockout d))) else None, st))"

definition hit_ip :: "login_deps \<Rightarrow> login_env \<Rightarrow> login_state \<Rightarrow> login_state" where
  "hit_ip d env st = (if le_ip env \<noteq> [] then snd (limiter_hit d (le_now env) (ip_key (le_ip env)) st) else st)"

definition unknown_user_failure :: "login_deps \<Rightarrow> login_env \<Rightarrow> string \<Rightarrow> login_state \<Rightarrow> error \<times> login_state" where
  "unknown_user_failure d env email st =
     (let (n, st) = limiter_count d (le_now env) (email_key d email) st in
      if should_lock (ld_lockout d) n then (locked_error (lp_base (ld_lockout d)), st)
      else
        let st = hit_ip d env st;
            (n, st) = limiter_hit d (le_now env) (email_key d email) st
        in (if should_lock (ld_lockout d) n then locked_error (lp_base (ld_lockout d)) else err_invalid_credentials, st))"

definition register_failure :: "login_deps \<Rightarrow> login_env \<Rightarrow> user_row \<Rightarrow> string \<Rightarrow> error \<Rightarrow> login_state \<Rightarrow> error \<times> login_state" where
  "register_failure d env u email e st =
     (let now = le_now env;
          st = hit_ip d env st;
          (window_n, st) = limiter_hit d now (email_key d (normalize_email email)) st
      in case register_login_failure (uw_id u) (time_add now (neg64 (lp_window (ld_lockout d)))) now st of
           (Inl x, st) \<Rightarrow> (x, st)
         | (Inr (db_n, lockouts), st) \<Rightarrow>
             if \<not> should_lock (ld_lockout d) (max db_n window_n) then (e, st)
             else let wait = lock_duration (ld_lockout d) lockouts
                  in (locked_error wait,
                      limiter_reset (email_key d (normalize_email email)) (lock_user (uw_id u) (time_add now wait) st)))"

definition clear_failures :: "login_deps \<Rightarrow> uuid \<Rightarrow> string \<Rightarrow> login_state \<Rightarrow> login_state" where
  "clear_failures d i email st = limiter_reset (email_key d (normalize_email email)) (clear_login_failures i st)"

definition unlock :: "login_deps \<Rightarrow> uuid \<Rightarrow> login_state \<Rightarrow> error option \<times> login_state" where
  "unlock d i st =
     (case find_user (ls_db st) i of
        None \<Rightarrow> (Some (new_not_found ''user''), st)
      | Some u \<Rightarrow> (None, limiter_reset (email_key d (normalize_email (uw_email u))) (unlock_user (uw_id u) st)))"

section \<open>Sign-in\<close>

definition session_auth_method :: "string \<Rightarrow> string" where
  "session_auth_method m =
     (if m = ''totp'' then ''totp'' else if m = ''recovery_code'' then ''recovery''
      else if m = ''mfa_setup'' then ''mfa_setup'' else ''password'')"

definition complete_login :: "login_deps \<Rightarrow> login_env \<Rightarrow> user_row \<Rightarrow> string \<Rightarrow> string \<Rightarrow> login_state \<Rightarrow> token_pair result \<times> login_state" where
  "complete_login d env u email how st =
     (let st = clear_failures d (uw_id u) email st;
          (r, db) = within_transaction (open_session (le_auth env) u (session_auth_method how)) (ls_db st)
      in (r, st\<lparr>ls_db := db\<rparr>))"

definition belongs_to :: "login_deps \<Rightarrow> user_row \<Rightarrow> login_input \<Rightarrow> bool" where
  "belongs_to d u i =
     (if li_platform i \<or> uw_admin u then li_platform i \<and> uw_admin u
      else
        let slug = to_lower (trim_space (li_company i)) in
        if slug = [] then True
        else case ld_companies d of
               None \<Rightarrow> True
             | Some dir \<Rightarrow> if uw_branch u = uuid_nil then False else dir (uw_branch u) = Inr slug)"

definition public_user :: "user_row \<Rightarrow> user_row" where
  "public_user u = u\<lparr>uw_password := [], uw_mfa_enabled := uw_mfa_enabled u \<and> uw_mfa_secret u \<noteq> []\<rparr>"

definition login_challenge_ttl :: int where "login_challenge_ttl = 300 * second_ns"
definition enrollment_token_ttl :: int where "enrollment_token_ttl = 900 * second_ns"
definition max_challenge_attempts :: int where "max_challenge_attempts = 5"

definition new_challenge :: "login_deps \<Rightarrow> login_env \<Rightarrow> uuid \<Rightarrow> string \<Rightarrow> int \<Rightarrow> login_state \<Rightarrow> string result \<times> login_state" where
  "new_challenge d env i purpose ttl st =
     (let (e, st) = create_challenge \<lparr>ch_hash = ld_hash d (le_challenge env), ch_user = i, ch_purpose = purpose,
            ch_attempts = 0, ch_expires = time_add (le_now env) ttl, ch_ip = le_ip env\<rparr> (le_now env) st
      in (case e of Some x \<Rightarrow> Inl x | None \<Rightarrow> Inr (le_challenge env), st))"

text \<open>The part of \<open>Login\<close> after the password and the page are accepted.\<close>

definition login_accepted :: "login_deps \<Rightarrow> login_env \<Rightarrow> user_row \<Rightarrow> string \<Rightarrow> login_state \<Rightarrow> login_result result \<times> login_state" where
  "login_accepted d env u email st =
     (if uw_mfa_enabled u \<and> uw_mfa_secret u \<noteq> []
      then let (r, st) = new_challenge d env (uw_id u) ''login'' login_challenge_ttl st
           in (map_sum id (\<lambda>t. MfaRequired t (public_user u)) r, st)
      else if uw_mfa_enabled u \<or> ld_mfa_required d u
      then let (r, st) = new_challenge d env (uw_id u) ''enroll'' enrollment_token_ttl st
           in (map_sum id (\<lambda>t. MfaEnrollmentRequired t (public_user u)) r, st)
      else let (r, st) = complete_login d env u email ''password'' st
           in (map_sum id (\<lambda>p. LoggedIn p (public_user u) []) r, st))"

definition login :: "login_deps \<Rightarrow> login_env \<Rightarrow> login_input \<Rightarrow> login_state \<Rightarrow> login_result result \<times> login_state" where
  "login d env i st =
     (let email = normalize_email (li_email i) in
      if email = [] \<or> li_password i = [] then (Inl (new_validation ''email and password are required''), st)
      else case check_ip_throttle d env st of
        (Some e, st) \<Rightarrow> (Inl e, st)
      | (None, st) \<Rightarrow>
          (case find_user_by_email (ls_db st) email of
             None \<Rightarrow> (let (e, st) = unknown_user_failure d env email st in (Inl e, st))
           | Some u \<Rightarrow>
               let wait = retry_after_of (uw_locked u) (le_now env) in
               if wait > 0 then (Inl (locked_error wait), st)
               else if \<not> ld_match d (uw_password u) (li_password i)
               then let (e, st) = register_failure d env u email err_invalid_credentials st in (Inl e, st)
               else if \<not> uw_active u then (Inl (new_forbidden ''user is inactive''), st)
               else if \<not> belongs_to d u i then (Inl err_invalid_credentials, st)
               else login_accepted d env u email st))"

section \<open>Second factor\<close>

text \<open>The associated data of a cipher text names its user; a user's text is its number.\<close>

definition secret_aad :: "uuid \<Rightarrow> string" where "secret_aad i = ''users.mfa_secret:'' @ show_nat i"
definition pending_aad :: "uuid \<Rightarrow> string" where "pending_aad i = ''users.mfa_pending_secret:'' @ show_nat i"

definition hash_recovery_code :: "login_deps \<Rightarrow> string \<Rightarrow> string" where
  "hash_recovery_code d c =
     ld_hash d (''recovery:'' @ filter (\<lambda>x. x \<noteq> CHR ''-'' \<and> x \<noteq> CHR '' '') (to_lower (trim_space c)))"

definition verify_totp :: "login_deps \<Rightarrow> string \<Rightarrow> string \<Rightarrow> go_time \<Rightarrow> int \<Rightarrow> int option" where
  "verify_totp d secret c now last_step =
     (case ld_otp d secret of None \<Rightarrow> None
      | Some code_at \<Rightarrow> (case totp_verify code_at c now last_step of Inl _ \<Rightarrow> None | Inr s \<Rightarrow> Some s))"

definition check_second_factor ::
  "login_deps \<Rightarrow> go_time \<Rightarrow> user_row \<Rightarrow> string \<Rightarrow> bool \<Rightarrow> login_state \<Rightarrow> string result \<times> login_state" where
  "check_second_factor d now u c allow_recovery st =
     (let c = trim_space c in
      if c = [] then (Inl err_bad_second_factor, st)
      else if looks_like_code c
      then (case ld_decrypt d (uw_mfa_secret u) (secret_aad (uw_id u)) of
              Inl e \<Rightarrow> (Inl e, st)
            | Inr secret \<Rightarrow>
                (case verify_totp d secret c now (uw_mfa_step u) of
                   None \<Rightarrow> (Inl err_bad_second_factor, st)
                 | Some step \<Rightarrow>
                     let (ok, st) = advance_mfa_step (uw_id u) step st
                     in (if ok then Inr ''totp'' else Inl err_bad_second_factor, st)))
      else if \<not> allow_recovery then (Inl err_bad_second_factor, st)
      else let (ok, st) = consume_recovery_code (uw_id u) (hash_recovery_code d c) now st
           in (if ok then Inr ''recovery_code'' else Inl err_bad_second_factor, st))"

definition verify_mfa_factor ::
  "login_deps \<Rightarrow> login_env \<Rightarrow> string \<Rightarrow> challenge \<Rightarrow> user_row \<Rightarrow> string \<Rightarrow> login_state \<Rightarrow> login_result result \<times> login_state" where
  "verify_mfa_factor d env h ch u c st =
     (case check_second_factor d (le_now env) u c True st of
        (Inl e, st) \<Rightarrow>
          if e \<noteq> err_bad_second_factor then (Inl e, st)
          else
            let st = (if ch_attempts ch \<ge> max_challenge_attempts then delete_challenge h st else st);
                (e, st) = register_failure d env u (uw_email u) err_invalid_mfa_code st
            in (Inl e, st)
      | (Inr how, st) \<Rightarrow>
          let (r, st) = complete_login d env u (uw_email u) how (delete_challenge h st)
          in (map_sum id (\<lambda>p. LoggedIn p (public_user u) []) r, st))"

definition verify_mfa :: "login_deps \<Rightarrow> login_env \<Rightarrow> string \<Rightarrow> string \<Rightarrow> login_state \<Rightarrow> login_result result \<times> login_state" where
  "verify_mfa d env challenge c st =
     (if trim_space challenge = [] \<or> trim_space c = [] then (Inl (new_validation ''challenge and code are required''), st)
      else case check_ip_throttle d env st of
        (Some e, st) \<Rightarrow> (Inl e, st)
      | (None, st) \<Rightarrow>
          let h = ld_hash d challenge in
          (case attempt_challenge h ''login'' max_challenge_attempts (le_now env) st of
             (None, st) \<Rightarrow> (Inl err_invalid_challenge, st)
           | (Some ch, st) \<Rightarrow>
               (case find_user (ls_db st) (ch_user ch) of
                  None \<Rightarrow> (Inl err_invalid_challenge, delete_challenge h st)
                | Some u \<Rightarrow>
                    if \<not> uw_active u \<or> \<not> uw_mfa_enabled u \<or> uw_mfa_secret u = []
                    then (Inl err_invalid_challenge, delete_challenge h st)
                    else let wait = retry_after_of (uw_locked u) (le_now env) in
                    if wait > 0 then (Inl (locked_error wait), delete_challenge h st)
                    else verify_mfa_factor d env h ch u c st)))"

section \<open>Enrollment\<close>

definition err_invalid_enrollment :: error where
  "err_invalid_enrollment = mk_app ''unauthorized'' ''invalid or expired enrollment token'' ErrUnauthorized"

definition has_mfa :: "user_row \<Rightarrow> bool" where "has_mfa u \<longleftrightarrow> uw_mfa_enabled u \<and> uw_mfa_secret u \<noteq> []"

definition start_enrollment :: "login_deps \<Rightarrow> login_env \<Rightarrow> user_row \<Rightarrow> login_state \<Rightarrow> string result \<times> login_state" where
  "start_enrollment d env u st =
     (case ld_encrypt d (le_secret env) (pending_aad (uw_id u)) of
        Inl e \<Rightarrow> (Inl e, st)
      | Inr enc \<Rightarrow> (Inr (le_secret env), set_pending_mfa_secret (uw_id u) enc st))"

definition confirm_pending :: "login_deps \<Rightarrow> login_env \<Rightarrow> user_row \<Rightarrow> string \<Rightarrow> login_state \<Rightarrow> string list result \<times> login_state" where
  "confirm_pending d env u c st =
     (if uw_mfa_pending u = [] then (Inl (new_invalid_state ''mfa enrollment not started''), st)
      else case ld_decrypt d (uw_mfa_pending u) (pending_aad (uw_id u)) of
        Inl e \<Rightarrow> (Inl e, st)
      | Inr secret \<Rightarrow>
          (case verify_totp d secret c (le_now env) 0 of
             None \<Rightarrow> (Inl err_bad_second_factor, st)
           | Some step \<Rightarrow>
               (case ld_encrypt d secret (secret_aad (uw_id u)) of
                  Inl e \<Rightarrow> (Inl e, st)
                | Inr enc \<Rightarrow>
                    (case replace_recovery_codes (uw_id u) (map (hash_recovery_code d) (le_codes env)) (activate_mfa (uw_id u) enc step st) of
                       (Some e, _) \<Rightarrow> (Inl e, st)
                     | (None, st') \<Rightarrow> (Inr (le_codes env), st')))))"

definition enroll :: "login_deps \<Rightarrow> login_env \<Rightarrow> uuid \<Rightarrow> login_state \<Rightarrow> string result \<times> login_state" where
  "enroll d env i st =
     (case find_user (ls_db st) i of
        None \<Rightarrow> (Inl (new_not_found ''user''), st)
      | Some u \<Rightarrow> if has_mfa u then (Inl (new_conflict ''mfa is already enabled''), st) else start_enrollment d env u st)"

definition confirm_enrollment :: "login_deps \<Rightarrow> login_env \<Rightarrow> uuid \<Rightarrow> string \<Rightarrow> login_state \<Rightarrow> string list result \<times> login_state" where
  "confirm_enrollment d env i c st =
     (case find_user (ls_db st) i of
        None \<Rightarrow> (Inl (new_not_found ''user''), st)
      | Some u \<Rightarrow>
          if has_mfa u then (Inl (new_conflict ''mfa is already enabled''), st)
          else let (r, st) = confirm_pending d env u c st
               in (if r = Inl err_bad_second_factor then Inl (new_validation ''invalid mfa code'') else r, st))"

definition disable_mfa :: "login_deps \<Rightarrow> login_env \<Rightarrow> uuid \<Rightarrow> string \<Rightarrow> string \<Rightarrow> login_state \<Rightarrow> error option \<times> login_state" where
  "disable_mfa d env i password c st =
     (case find_user (ls_db st) i of
        None \<Rightarrow> (Some (new_not_found ''user''), st)
      | Some u \<Rightarrow>
          let bad = new_validation ''invalid password or mfa code'' in
          if \<not> has_mfa u then (Some (new_invalid_state ''mfa is not enabled''), st)
          else if ld_mfa_required d u then (Some (new_forbidden ''mfa is mandatory for this role''), st)
          else if \<not> ld_match d (uw_password u) password
          then let (e, st) = register_failure d env u (uw_email u) bad st in (Some e, st)
          else case check_second_factor d (le_now env) u c True st of
                 (Inl e, st) \<Rightarrow>
                   if e = err_bad_second_factor
                   then let (e, st) = register_failure d env u (uw_email u) bad st in (Some e, st)
                   else (Some e, st)
               | (Inr _, st) \<Rightarrow> (None, deactivate_mfa (uw_id u) st))"

definition regenerate_recovery_codes :: "login_deps \<Rightarrow> login_env \<Rightarrow> uuid \<Rightarrow> string \<Rightarrow> login_state \<Rightarrow> string list result \<times> login_state" where
  "regenerate_recovery_codes d env i c st =
     (case find_user (ls_db st) i of
        None \<Rightarrow> (Inl (new_not_found ''user''), st)
      | Some u \<Rightarrow>
          if \<not> has_mfa u then (Inl (new_invalid_state ''mfa is not enabled''), st)
          else case check_second_factor d (le_now env) u c False st of
                 (Inl e, st) \<Rightarrow>
                   if e = err_bad_second_factor
                   then let (e, st) = register_failure d env u (uw_email u) (new_validation ''invalid mfa code'') st in (Inl e, st)
                   else (Inl e, st)
               | (Inr _, st) \<Rightarrow>
                   (case replace_recovery_codes (uw_id u) (map (hash_recovery_code d) (le_codes env)) st of
                      (Some e, st) \<Rightarrow> (Inl e, st)
                    | (None, st) \<Rightarrow> (Inr (le_codes env), st)))"

definition setup_start :: "login_deps \<Rightarrow> login_env \<Rightarrow> string \<Rightarrow> login_state \<Rightarrow> string result \<times> login_state" where
  "setup_start d env token st =
     (case find_challenge (ld_hash d token) ''enroll'' (le_now env) st of
        None \<Rightarrow> (Inl err_invalid_enrollment, st)
      | Some ch \<Rightarrow>
          (case find_user (ls_db st) (ch_user ch) of
             None \<Rightarrow> (Inl err_invalid_enrollment, st)
           | Some u \<Rightarrow>
               if \<not> uw_active u then (Inl err_invalid_enrollment, st)
               else if has_mfa u then (Inl (new_conflict ''mfa is already enabled''), st)
               else start_enrollment d env u st))"

definition setup_confirm_user ::
  "login_deps \<Rightarrow> login_env \<Rightarrow> string \<Rightarrow> challenge \<Rightarrow> user_row \<Rightarrow> string \<Rightarrow> login_state \<Rightarrow> login_result result \<times> login_state" where
  "setup_confirm_user d env h ch u c st =
     (case confirm_pending d env u c st of
        (Inl e, st) \<Rightarrow>
          if e \<noteq> err_bad_second_factor then (Inl e, st)
          else
            let st = (if ch_attempts ch \<ge> max_challenge_attempts then delete_challenge h st else st);
                (e, st) = register_failure d env u (uw_email u) err_invalid_mfa_code st
            in (Inl e, st)
      | (Inr codes, st) \<Rightarrow>
          let (r, st) = complete_login d env u (uw_email u) ''mfa_setup'' (delete_challenge h st)
          in (map_sum id (\<lambda>p. LoggedIn p (u\<lparr>uw_mfa_enabled := True, uw_password := []\<rparr>) codes) r, st))"

definition setup_confirm :: "login_deps \<Rightarrow> login_env \<Rightarrow> string \<Rightarrow> string \<Rightarrow> login_state \<Rightarrow> login_result result \<times> login_state" where
  "setup_confirm d env token c st =
     (case check_ip_throttle d env st of
        (Some e, st) \<Rightarrow> (Inl e, st)
      | (None, st) \<Rightarrow>
          let h = ld_hash d token in
          (case attempt_challenge h ''enroll'' max_challenge_attempts (le_now env) st of
             (None, st) \<Rightarrow> (Inl err_invalid_enrollment, st)
           | (Some ch, st) \<Rightarrow>
               (case find_user (ls_db st) (ch_user ch) of
                  None \<Rightarrow> (Inl err_invalid_enrollment, delete_challenge h st)
                | Some u \<Rightarrow>
                    if \<not> uw_active u then (Inl err_invalid_enrollment, delete_challenge h st)
                    else let wait = retry_after_of (uw_locked u) (le_now env) in
                    if wait > 0 then (Inl (locked_error wait), delete_challenge h st)
                    else setup_confirm_user d env h ch u c st)))"

section \<open>Laws\<close>

text \<open>The limiter, the challenges and the recovery codes live apart from the users and the sessions.\<close>

definition session_tables :: "login_state \<Rightarrow> session list \<times> refresh_token list" where
  "session_tables st = (ad_sessions (ls_db st), ad_tokens (ls_db st))"

lemma limiter_db [simp]:
  "ls_db (snd (limiter_hit d now k st)) = ls_db st" "ls_db (snd (limiter_count d now k st)) = ls_db st"
  "ls_db (limiter_reset k st) = ls_db st" "ls_db (hit_ip d env st) = ls_db st"
  "ls_db (snd (check_ip_throttle d env st)) = ls_db st" "ls_db (snd (unknown_user_failure d env e st)) = ls_db st"
  by (auto simp: limiter_hit_def limiter_count_def limiter_reset_def hit_ip_def check_ip_throttle_def unknown_user_failure_def
      split: prod.splits)

lemma challenge_db [simp]:
  "ls_db (snd (create_challenge c now st)) = ls_db st" "ls_db (snd (attempt_challenge h p n now st)) = ls_db st"
  "ls_db (delete_challenge h st) = ls_db st" "ls_db (snd (consume_recovery_code i h now st)) = ls_db st"
  "ls_db (snd (new_challenge d env i p t st)) = ls_db st"
  by (auto simp: create_challenge_def attempt_challenge_def delete_challenge_def consume_recovery_code_def new_challenge_def Let_def
      split: prod.splits)

lemma user_updates_tables [simp]:
  "session_tables (update_user i f st) = session_tables st"
  "session_tables (snd (register_login_failure i w now st)) = session_tables st"
  "session_tables (lock_user i t st) = session_tables st"
  "session_tables (clear_login_failures i st) = session_tables st"
  "session_tables (snd (advance_mfa_step i n st)) = session_tables st"
  by (auto simp: session_tables_def update_user_def register_login_failure_def lock_user_def clear_login_failures_def
      advance_mfa_step_def split: option.splits)

lemma same_db_tables: "ls_db st' = ls_db st \<Longrightarrow> session_tables st' = session_tables st"
  by (simp add: session_tables_def)

lemma register_failure_tables [simp]: "session_tables (snd (register_failure d env u e x st)) = session_tables st"
proof -
  define st1 where "st1 = snd (limiter_hit d (le_now env) (email_key d (normalize_email e)) (hit_ip d env st))"
  have "session_tables st1 = session_tables st" by (rule same_db_tables) (simp add: st1_def)
  moreover have "session_tables (limiter_reset k s) = session_tables s" for k s by (rule same_db_tables) simp
  moreover have "session_tables s = session_tables st1" if "register_login_failure i w now st1 = (r, s)" for i w now r s
    using user_updates_tables(2) [of i w now st1] that by simp
  ultimately show ?thesis
    by (auto simp: register_failure_def Let_def st1_def split: prod.splits sum.splits)
qed

lemma second_factor_tables [simp]: "session_tables (snd (check_second_factor d now u c a st)) = session_tables st"
proof -
  have "session_tables (snd (consume_recovery_code i h now st)) = session_tables st" for i h by (rule same_db_tables) simp
  then show ?thesis
    by (simp add: check_second_factor_def Let_def case_prod_beta split: sum.split option.split)
qed

lemma login_sessions:
  assumes "login d env i st = (r, st')" "session_tables st' \<noteq> session_tables st \<or> r = Inr (LoggedIn p v cs)"
  obtains u where "find_user_by_email (ls_db st) (normalize_email (li_email i)) = Some u"
    "retry_after_of (uw_locked u) (le_now env) \<le> 0" "ld_match d (uw_password u) (li_password i)" "uw_active u" "belongs_to d u i"
    "\<not> uw_mfa_enabled u" "\<not> ld_mfa_required d u"
proof -
  define s1 where "s1 = snd (check_ip_throttle d env st)"
  have db: "ls_db s1 = ls_db st" by (simp add: s1_def)
  have t1: "session_tables s1 = session_tables st" by (rule same_db_tables) (rule db)
  have tu: "session_tables (snd (unknown_user_failure d env e s1)) = session_tables st" for e
    using t1 same_db_tables [of "snd (unknown_user_failure d env e s1)" s1] by simp
  have tc: "session_tables (snd (new_challenge d env j pu ttl s1)) = session_tables st" for j pu ttl
    using t1 same_db_tables [of "snd (new_challenge d env j pu ttl s1)" s1] by simp
  have acc: "\<not> uw_mfa_enabled u \<and> \<not> ld_mfa_required d u"
    if "login_accepted d env u e s1 = (r, st')" for u e
  proof (rule ccontr)
    assume "\<not> ?thesis"
    then have "session_tables st' = session_tables st \<and> r \<noteq> Inr (LoggedIn p v cs)"
      using that tc by (auto simp: login_accepted_def Let_def case_prod_beta map_sum_def split: if_splits sum.splits)
    then show False using assms(2) by simp
  qed
  have fail: "session_tables st' = session_tables st \<and> r \<noteq> Inr (LoggedIn p v cs) \<Longrightarrow> thesis" using assms(2) by simp
  obtain blocked where c: "check_ip_throttle d env st = (blocked, s1)" by (cases "check_ip_throttle d env st") (simp add: s1_def)
  show thesis
  proof (cases "find_user_by_email (ls_db st) (normalize_email (li_email i))")
    case None
    then show thesis
      using assms(1) t1 tu by (intro fail) (auto simp: login_def Let_def c db case_prod_beta split: if_splits option.splits)
  next
    case (Some u)
    define w where "w = retry_after_of (uw_locked u) (le_now env)"
    consider (ok) "w \<le> 0" "ld_match d (uw_password u) (li_password i)" "uw_active u" "belongs_to d u i"
        "login_accepted d env u (normalize_email (li_email i)) s1 = (r, st')"
      | (bad) "session_tables st' = session_tables st \<and> r \<noteq> Inr (LoggedIn p v cs)"
      using assms(1) t1 Some unfolding login_def Let_def c db w_def [symmetric]
      by (auto simp: case_prod_beta db w_def split: if_splits option.splits)
    then show thesis
    proof cases
      case ok
      then show thesis using that [OF Some] acc [OF ok(5)] by (simp add: w_def)
    next
      case bad
      then show thesis by (rule fail)
    qed
  qed
qed

lemma find_SomeD: "find P xs = Some x \<Longrightarrow> x \<in> set xs \<and> P x"
  by (auto simp: find_Some_iff)

lemma verify_mfa_sessions:
  assumes v: "verify_mfa d env token c st = (r, st')" and ch: "session_tables st' \<noteq> session_tables st \<or> r = Inr (LoggedIn p v cs)"
  obtains x u how st0 st1 where "x \<in> set (ls_challenges st)" "ch_hash x = ld_hash d token" "ch_purpose x = ''login''"
    "after (ch_expires x) (le_now env)" "ch_attempts x < max_challenge_attempts" "find_user (ls_db st) (ch_user x) = Some u"
    "uw_active u" "has_mfa u" "retry_after_of (uw_locked u) (le_now env) \<le> 0"
    "check_second_factor d (le_now env) u c True st0 = (Inr how, st1)" "ls_db st0 = ls_db st" "ls_recovery st0 = ls_recovery st"
proof -
  define s1 where "s1 = snd (check_ip_throttle d env st)"
  obtain blocked where c1: "check_ip_throttle d env st = (blocked, s1)" by (cases "check_ip_throttle d env st") (simp add: s1_def)
  define h where "h = ld_hash d token"
  obtain att s2 where c2: "attempt_challenge h ''login'' max_challenge_attempts (le_now env) s1 = (att, s2)" by fastforce
  have s1: "ls_db s1 = ls_db st" "ls_challenges s1 = ls_challenges st" "ls_recovery s1 = ls_recovery st"
    by (auto simp: s1_def check_ip_throttle_def limiter_count_def case_prod_beta)
  have s2: "ls_db s2 = ls_db st" "ls_recovery s2 = ls_recovery st" using c2 s1 by (auto simp: attempt_challenge_def)
  have tab: "session_tables s1 = session_tables st" "session_tables s2 = session_tables st" "session_tables (delete_challenge h s2) = session_tables st"
    by (auto simp: session_tables_def s1 s2)
  have fail: "session_tables st' = session_tables st \<and> r \<noteq> Inr (LoggedIn p v cs) \<Longrightarrow> thesis" using ch by simp
  show thesis
  proof (cases att)
    case None
    then show thesis using v tab c1 c2 unfolding verify_mfa_def h_def [symmetric]
      by (intro fail) (auto simp: Let_def split: if_splits option.splits)
  next
    case (Some x1)
    then obtain x where x: "x \<in> set (ls_challenges st)" "ch_hash x = h" "ch_purpose x = ''login''" "after (ch_expires x) (le_now env)"
        "ch_attempts x < max_challenge_attempts" "ch_user x1 = ch_user x"
      using c2 s1(2) by (auto simp: attempt_challenge_def dest!: find_SomeD)
    show thesis
    proof (cases "find_user (ls_db st) (ch_user x)")
      case None
      then show thesis using v tab c1 c2 Some x(6) unfolding verify_mfa_def h_def [symmetric]
        by (intro fail) (auto simp: Let_def s2 split: if_splits option.splits)
    next
      case u: (Some u)
      define w where "w = retry_after_of (uw_locked u) (le_now env)"
      consider (ok) "uw_active u" "has_mfa u" "w \<le> 0" "verify_mfa_factor d env h x1 u c s2 = (r, st')"
        | (bad) "session_tables st' = session_tables st \<and> r \<noteq> Inr (LoggedIn p v cs)"
        using v tab c1 c2 Some x(6) u unfolding verify_mfa_def h_def [symmetric]
        by (auto simp: Let_def s2 has_mfa_def w_def split: if_splits option.splits)
      then show thesis
      proof cases
        case ok
        obtain res s3 where f: "check_second_factor d (le_now env) u c True s2 = (res, s3)" by fastforce
        show thesis
        proof (cases res)
          case (Inl e)
          have t3: "session_tables s3 = session_tables st" "session_tables (delete_challenge h s3) = session_tables st"
            using second_factor_tables [of d "le_now env" u c True s2] f tab(2) by (auto simp: session_tables_def)
          show thesis using ok(4) f Inl t3 by (intro fail) (auto simp: verify_mfa_factor_def Let_def case_prod_beta split: if_splits)
        next
          case (Inr how)
          then show thesis using that [OF x(1) _ x(3,4,5) u ok(1,2) _ _ s2] x(2) ok(3) f by (simp add: h_def w_def)
        qed
      next
        case bad
        then show thesis by (rule fail)
      qed
    qed
  qed
qed


lemma find_map_keeps: "(\<And>x. P (f x) = P x) \<Longrightarrow> find P (map f xs) = map_option f (find P xs)"
  by (induction xs) auto

lemma update_user_find_email:
  assumes "\<And>u. uw_email (f u) = uw_email u"
  shows "find_user_by_email (ls_db (update_user i f st)) e = map_option (\<lambda>u. if uw_id u = i then f u else u) (find_user_by_email (ls_db st) e)"
  using assms by (simp add: find_user_by_email_def update_user_def find_map_keeps)

lemma find_user_unique:
  assumes "distinct (map uw_id (ad_users db))" "u \<in> set (ad_users db)"
  shows "find_user db (uw_id u) = Some u"
  using find_unique [of uw_id "ad_users db" u "\<lambda>_. True"] assms by (simp add: find_user_def)

lemma locked_login:
  assumes "find_user_by_email (ls_db st) (normalize_email (li_email i)) = Some u" "uw_locked u = Some until" "after until (le_now env)"
    "normalize_email (li_email i) \<noteq> []" "li_password i \<noteq> []" "fst (check_ip_throttle d env st) = None"
  shows "login d env i st = (Inl (locked_error (time_sub until (le_now env))), snd (check_ip_throttle d env st))"
proof -
  obtain s where c: "check_ip_throttle d env st = (None, s)" using assms(6) by (cases "check_ip_throttle d env st") auto
  have "ls_db s = ls_db st" using limiter_db(5) [of d env st] c by simp
  moreover have "0 < time_sub until (le_now env)"
    using assms(3) by (auto simp: time_sub_def after_def before_def int64_min_def int64_max_def max_def min_def)
  ultimately show ?thesis using assms by (simp add: login_def c Let_def retry_after_of_def)
qed

text \<open>
  C39. Guessing a password locks the account. When a wrong password brings the failures of a user inside the window
  to the threshold, the caller gets the locked error with the lock time of the policy; and from then on until that
  time is over, every sign-in under the address is refused with the remaining time, whatever the password, and
  nothing but the request counter of the calling address changes.
\<close>

theorem guessing_locks_account:
  assumes ids: "distinct (map uw_id (ad_users (ls_db st)))" and pass: "fst (check_ip_throttle d env st) = None"
    and u: "find_user_by_email (ls_db st) (normalize_email (li_email i)) = Some u" and free: "retry_after_of (uw_locked u) (le_now env) \<le> 0"
    and inp: "normalize_email (li_email i) \<noteq> []" "li_password i \<noteq> []" and wrong: "\<not> ld_match d (uw_password u) (li_password i)"
    and full: "should_lock (ld_lockout d) (failure_count u (time_add (le_now env) (neg64 (lp_window (ld_lockout d)))))"
    and run: "login d env i st = (r, st')"
  shows "r = Inl (locked_error (lock_duration (ld_lockout d) (uw_lockouts u)))
    \<and> (\<forall>env' i'. normalize_email (li_email i') = normalize_email (li_email i) \<and> li_password i' \<noteq> []
         \<and> fst (check_ip_throttle d env' st') = None
         \<and> after (time_add (le_now env) (lock_duration (ld_lockout d) (uw_lockouts u))) (le_now env')
       \<longrightarrow> login d env' i' st' = (Inl (locked_error (time_sub (time_add (le_now env) (lock_duration (ld_lockout d) (uw_lockouts u))) (le_now env'))),
              snd (check_ip_throttle d env' st')))"
proof -
  let ?e = "normalize_email (li_email i)"
  define until where "until = time_add (le_now env) (lock_duration (ld_lockout d) (uw_lockouts u))"
  define ws where "ws = time_add (le_now env) (neg64 (lp_window (ld_lockout d)))"
  obtain s1 where c: "check_ip_throttle d env st = (None, s1)" using pass by (cases "check_ip_throttle d env st") auto
  have db1: "ls_db s1 = ls_db st" using limiter_db(5) [of d env st] c by simp
  obtain wn s2 where h: "limiter_hit d (le_now env) (email_key d (normalize_email ?e)) (hit_ip d env s1) = (wn, s2)" by fastforce
  have db2: "ls_db s2 = ls_db st"
    using limiter_db(1) [of d "le_now env" "email_key d (normalize_email ?e)" "hit_ip d env s1"] h db1 by simp
  have mem: "u \<in> set (ad_users (ls_db st))" using u by (auto simp: find_user_by_email_def dest: find_SomeD)
  define s3 where "s3 = update_user (uw_id u) (\<lambda>u. u\<lparr>uw_failed := failure_count u ws, uw_last_failed := Some (le_now env)\<rparr>) s2"
  have reg: "register_login_failure (uw_id u) ws (le_now env) s2 = (Inr (failure_count u ws, uw_lockouts u), s3)"
    using find_user_unique [OF ids mem] by (simp add: register_login_failure_def db2 s3_def)
  have lock: "should_lock (ld_lockout d) (max (failure_count u ws) wn)" using full by (auto simp: should_lock_def ws_def)
  have res: "r = Inl (locked_error (lock_duration (ld_lockout d) (uw_lockouts u)))"
    and st': "st' = limiter_reset (email_key d (normalize_email ?e)) (lock_user (uw_id u) until s3)"
    using run u inp wrong free lock unfolding until_def
    by (auto simp: login_def Let_def c db1 register_failure_def h reg [unfolded ws_def] ws_def)
  have e3: "find_user_by_email (ls_db s3) ?e = map_option (\<lambda>v. if uw_id v = uw_id u then v\<lparr>uw_failed := failure_count v ws, uw_last_failed := Some (le_now env)\<rparr> else v)
      (find_user_by_email (ls_db s2) ?e)" unfolding s3_def by (rule update_user_find_email) simp
  have "find_user_by_email (ls_db (lock_user (uw_id u) until s3)) ?e
      = map_option (\<lambda>v. if uw_id v = uw_id u then v\<lparr>uw_locked := Some until, uw_lockouts := uw_lockouts v + 1, uw_failed := 0\<rparr> else v)
          (find_user_by_email (ls_db s3) ?e)" unfolding lock_user_def by (rule update_user_find_email) simp
  then obtain u' where u': "find_user_by_email (ls_db st') ?e = Some u'" "uw_locked u' = Some until"
    unfolding st' e3 using u db2 by simp
  have "login d env' i' st' = (Inl (locked_error (time_sub until (le_now env'))), snd (check_ip_throttle d env' st'))"
    if "normalize_email (li_email i') = ?e" "li_password i' \<noteq> []" "fst (check_ip_throttle d env' st') = None" "after until (le_now env')" for env' i'
    using that u' inp(1) by (intro locked_login) auto
  then show ?thesis using res by (simp add: until_def)
qed

text \<open>
  C40. A second factor is good for one use. When a one-time password is accepted, the step stored for the user moves
  strictly forward to the step that was verified; when a recovery code is accepted, the same code is refused at
  every later check for that user until new codes are issued.
\<close>

theorem second_factor_single_use:
  assumes run: "check_second_factor d now u c True st = (Inr how, st')"
    and u: "distinct (map uw_id (ad_users (ls_db st)))" "u \<in> set (ad_users (ls_db st))"
  shows "(how = ''totp'' \<and> (\<exists>secret step. ld_decrypt d (uw_mfa_secret u) (secret_aad (uw_id u)) = Inr secret
        \<and> verify_totp d secret (trim_space c) now (uw_mfa_step u) = Some step \<and> uw_mfa_step u < step
        \<and> find_user (ls_db st') (uw_id u) = Some (u\<lparr>uw_mfa_step := step\<rparr>)))
    \<or> (how = ''recovery_code'' \<and> (\<forall>u' now'. uw_id u' = uw_id u \<longrightarrow> fst (check_second_factor d now' u' c True st') = Inl err_bad_second_factor))"
proof (cases "looks_like_code (trim_space c)")
  case True
  from run True obtain secret step where s: "ld_decrypt d (uw_mfa_secret u) (secret_aad (uw_id u)) = Inr secret"
      "verify_totp d secret (trim_space c) now (uw_mfa_step u) = Some step" "how = ''totp''" "advance_mfa_step (uw_id u) step st = (True, st')"
    by (auto simp: check_second_factor_def Let_def case_prod_beta split: if_splits sum.splits option.splits) (metis prod.collapse)
  have lt: "uw_mfa_step u < step"
    using s(2) by (auto simp: verify_totp_def totp_verify_def Let_def split: option.splits sum.splits if_splits)
  have "find_user (ls_db st') (uw_id u) = map_option (\<lambda>v. if uw_id v = uw_id u then (if uw_mfa_step v < step then v\<lparr>uw_mfa_step := step\<rparr> else v) else v)
      (find_user (ls_db st) (uw_id u))"
    using s(4) by (auto simp: advance_mfa_step_def update_user_def find_user_def find_map_keeps)
  then show ?thesis using s lt find_user_unique [OF u] by auto
next
  case False
  let ?h = "hash_recovery_code d (trim_space c)"
  from run False have s: "trim_space c \<noteq> []" "how = ''recovery_code''" "consume_recovery_code (uw_id u) ?h now st = (True, st')"
    by (auto simp: check_second_factor_def Let_def case_prod_beta split: if_splits) (metis prod.collapse)
  have spent: "\<not> (rc_user x = uw_id u \<and> rc_hash x = ?h \<and> rc_used x = None)" if "x \<in> set (ls_recovery st')" for x
    using that s(3) by (auto simp: consume_recovery_code_def Let_def split: if_splits)
  have "fst (consume_recovery_code (uw_id u) ?h now' st') = False" for now'
    using spent by (auto simp: consume_recovery_code_def Let_def filter_empty_conv length_Suc_conv filter_eq_Cons_iff)
  then have "fst (check_second_factor d now' u' c True st') = Inl err_bad_second_factor" if "uw_id u' = uw_id u" for u' now'
    using False s(1) that by (simp add: check_second_factor_def Let_def case_prod_beta)
  then show ?thesis using s(2) by blast
qed

section \<open>Samples\<close>

definition sample_deps :: login_deps where
  "sample_deps = \<lparr>ld_match = (=), ld_hash = (\<lambda>t. t), ld_encrypt = (\<lambda>s _. Inr s), ld_decrypt = (\<lambda>s _. Inr s),
     ld_otp = (\<lambda>_. None), ld_mfa_required = (\<lambda>_. False), ld_companies = None,
     ld_lockout = \<lparr>lp_max_attempts = 3, lp_window = 1000, lp_base = 60, lp_max = 600\<rparr>, ld_ip_max = 0\<rparr>"

definition sample_login_env :: "int \<Rightarrow> login_env" where
  "sample_login_env n = \<lparr>le_auth = sample_env n 11 sample_token, le_challenge = ''c'', le_secret = ''s'', le_codes = []\<rparr>"

definition sample_input :: "string \<Rightarrow> login_input" where
  "sample_input pw = \<lparr>li_email = '' A@b'', li_password = pw, li_company = [], li_platform = False\<rparr>"

definition sample_state :: "int \<Rightarrow> login_state" where
  "sample_state failed = \<lparr>ls_db = \<lparr>ad_users = [sample_user\<lparr>uw_password := ''pw'', uw_failed := failed,
       uw_last_failed := Some \<lparr>nanos = 40, zone = 0\<rparr>\<rparr>], ad_sessions = [], ad_tokens = []\<rparr>,
     ls_limiter = new_memory, ls_challenges = [], ls_recovery = [\<lparr>rc_user = 3, rc_hash = ''recovery:abcd'', rc_used = None\<rparr>]\<rparr>"

lemma sample_login: "\<exists>p v cs. fst (login sample_deps (sample_login_env 50) (sample_input ''pw'') (sample_state 0)) = Inr (LoggedIn p v cs)"
proof -
  have "(case fst (login sample_deps (sample_login_env 50) (sample_input ''pw'') (sample_state 0)) of Inr (LoggedIn p v cs) \<Rightarrow> True | _ \<Rightarrow> False)"
    by code_simp
  then show ?thesis by (auto split: sum.splits login_result.splits)
qed


theorem guessing_locks_account_witness:
  "fst (login sample_deps (sample_login_env 50) (sample_input ''xx'') (sample_state 2)) = Inl (locked_error 60)
   \<and> fst (login sample_deps (sample_login_env 90) (sample_input ''pw'')
        (snd (login sample_deps (sample_login_env 50) (sample_input ''xx'') (sample_state 2)))) = Inl (locked_error 20)"
proof -
  let ?u = "sample_user\<lparr>uw_password := ''pw'', uw_failed := 2, uw_last_failed := Some \<lparr>nanos = 40, zone = 0\<rparr>\<rparr>"
  obtain r st' where run: "login sample_deps (sample_login_env 50) (sample_input ''xx'') (sample_state 2) = (r, st')" by fastforce
  have e: "normalize_email (li_email (sample_input x)) = ''a@b''" for x by code_simp
  have p: "li_password (sample_input ''xx'') \<noteq> []" "li_password (sample_input ''pw'') \<noteq> []" by code_simp+
  have t: "fst (check_ip_throttle sample_deps (sample_login_env n) s) = None" for n s
    by (simp add: check_ip_throttle_def sample_deps_def)
  have 1: "find_user_by_email (ls_db (sample_state 2)) (normalize_email (li_email (sample_input ''xx''))) = Some ?u" by code_simp
  have d: "lock_duration (ld_lockout sample_deps) (uw_lockouts ?u) = 60" by code_simp
  have full: "should_lock (ld_lockout sample_deps) (failure_count ?u (time_add (le_now (sample_login_env 50)) (neg64 (lp_window (ld_lockout sample_deps)))))"
    by code_simp
  have w: "distinct (map uw_id (ad_users (ls_db (sample_state 2))))" "retry_after_of (uw_locked ?u) (le_now (sample_login_env 50)) \<le> 0"
    "\<not> ld_match sample_deps (uw_password ?u) (li_password (sample_input ''xx''))" "normalize_email (li_email (sample_input ''xx'')) \<noteq> []"
    "after (time_add (le_now (sample_login_env 50)) 60) (le_now (sample_login_env 90))"
    "time_sub (time_add (le_now (sample_login_env 50)) 60) (le_now (sample_login_env 90)) = 20" by code_simp+
  note g = guessing_locks_account [OF w(1) t 1 w(2) w(4) p(1) w(3) full run, unfolded d e]
  have "login sample_deps (sample_login_env 90) (sample_input ''pw'') st' = (Inl (locked_error 20), snd (check_ip_throttle sample_deps (sample_login_env 90) st'))"
    using conjunct2 [OF g, rule_format, of "sample_input ''pw''" "sample_login_env 90"] w(5,6) p(2) t e by simp
  then show ?thesis using g run by simp
qed

theorem second_factor_single_use_witness:
  "\<exists>st'. check_second_factor sample_deps \<lparr>nanos = 50, zone = 0\<rparr> (hd (ad_users (ls_db (sample_state 0)))) ''AB-cd'' True (sample_state 0) = (Inr ''recovery_code'', st')
     \<and> fst (check_second_factor sample_deps \<lparr>nanos = 60, zone = 0\<rparr> (hd (ad_users (ls_db (sample_state 0)))) ''AB-cd'' True st') = Inl err_bad_second_factor"
proof -
  let ?u = "hd (ad_users (ls_db (sample_state 0)))"
  have "fst (check_second_factor sample_deps \<lparr>nanos = 50, zone = 0\<rparr> ?u ''AB-cd'' True (sample_state 0)) = Inr ''recovery_code''" by code_simp
  then obtain st' where r: "check_second_factor sample_deps \<lparr>nanos = 50, zone = 0\<rparr> ?u ''AB-cd'' True (sample_state 0) = (Inr ''recovery_code'', st')"
    by (metis prod.collapse)
  have "distinct (map uw_id (ad_users (ls_db (sample_state 0))))" "?u \<in> set (ad_users (ls_db (sample_state 0)))"
    by (simp_all add: sample_state_def)
  then show ?thesis using second_factor_single_use [OF r] r by auto
qed

end
