(* ===== verification/Totp_Code.thy ===== *)
theory Totp_Code
  imports Auth_Security "HOL-Library.Word"
begin

unbundle bit_operations_syntax

text \<open>
  The code of a counter, \<^verbatim>\<open>internal/domain/totp/totp.go\<close>: the dynamic truncation of an HMAC-SHA1 sum to a
  decimal code, in 32-bit arithmetic. The sum itself (20 bytes) is an argument.
\<close>

fun pow10_32 :: "nat \<Rightarrow> 32 word" where
  "pow10_32 0 = 1"
| "pow10_32 (Suc n) = pow10_32 n * 10"

definition truncated :: "8 word list \<Rightarrow> 32 word" where
  "truncated mac =
     (let off = unat (last mac AND 0x0f) in
      push_bit 24 (ucast (mac ! off) AND 0x7f) OR push_bit 16 (ucast (mac ! (off + 1)))
        OR push_bit 8 (ucast (mac ! (off + 2))) OR ucast (mac ! (off + 3)))"

definition totp_code :: "nat \<Rightarrow> 8 word list \<Rightarrow> string" where
  "totp_code digits mac = pad0 digits (show_nat (unat (truncated mac mod pow10_32 digits)))"

definition totp_code_at :: "(int \<Rightarrow> 8 word list) \<Rightarrow> int \<Rightarrow> string" where
  "totp_code_at hmac counter = totp_code 6 (hmac counter)"

lemma offset_in_range: "unat ((x :: 8 word) AND 0x0f) + 3 < 20"
proof -
  have "x AND 0x0f \<le> 0x0f" by (rule word_and_le1)
  then have "unat (x AND 0x0f) \<le> unat (0x0f :: 8 word)" by (simp only: word_le_nat_alt)
  then show ?thesis by simp
qed

lemma pow10_6: "pow10_32 6 = 1000000" by (simp add: eval_nat_numeral)

lemma all_digits_plain: "digits_only c \<Longrightarrow> filter (\<lambda>x. x \<noteq> CHR '' '' \<and> x \<noteq> CHR ''-'') c = c"
  by (auto simp: filter_id_conv digits_only_def list_all_iff is_digit_def)


text \<open>The sum of RFC 4226, section 5.4.\<close>

definition rfc_sum :: "8 word list" where
  "rfc_sum = [0x1f, 0x86, 0x98, 0x69, 0x0e, 0x02, 0xca, 0x16, 0x61, 0x85, 0x50, 0xef, 0x7f, 0x19, 0xda, 0x8e, 0x94, 0x5b, 0x55, 0x5a]"


end
