(* ===== verification/Outbox.thy ===== *)
theory Outbox
  imports Access Status_Machine
begin

text \<open>
  Durable events: \<^verbatim>\<open>internal/domain/outbox\<close>, the dispatcher of \<^verbatim>\<open>internal/app/outbox\<close>, the table of
  \<^verbatim>\<open>adapter/postgres/outbox\<close> and the bus of \<^verbatim>\<open>internal/platform/events\<close>.

  Handlers are parameters: a handler reads the event and changes the world, and ends with success, an error or
  a panic. The JSON codec is a parameter. A row update may be refused by the store when the error text is not
  acceptable text (\<open>accepts\<close>); the dispatcher logs that and goes on.
\<close>

section \<open>Records\<close>

datatype outbox_status = ObPending | ObProcessing | ObDispatched | ObDead

record outbox_record =
  ob_id :: uuid
  ob_name :: string
  ob_payload :: string
  ob_branch :: "uuid option"
  ob_status :: outbox_status
  ob_attempts :: int
  ob_next :: go_time
  ob_locked :: "go_time option"
  ob_error :: string
  ob_created :: go_time
  ob_dispatched :: "go_time option"

definition max_attempts :: int where "max_attempts = 8"
definition base_backoff :: int where "base_backoff = 5 * second_ns"
definition max_backoff :: int where "max_backoff = 1800 * second_ns"

fun backoff_loop :: "nat \<Rightarrow> int \<Rightarrow> int" where
  "backoff_loop 0 d = d"
| "backoff_loop (Suc n) d = (let d = mul64 d 2 in if d \<ge> max_backoff then max_backoff else backoff_loop n d)"

definition backoff :: "int \<Rightarrow> int" where
  "backoff attempt = (let attempt = (if attempt < 1 then 1 else attempt) in backoff_loop (nat (attempt - 1)) base_backoff)"

definition after_failure :: "int \<Rightarrow> go_time \<Rightarrow> go_time \<times> bool" where
  "after_failure attempts now =
     (if attempts \<ge> max_attempts then (now, True) else (time_add now (backoff attempts), False))"

definition truncate_error :: "string \<Rightarrow> string" where
  "truncate_error msg = (if length msg \<le> 2000 then msg else take 2000 msg)"

section \<open>Table\<close>

definition insert_event :: "uuid \<Rightarrow> go_time \<Rightarrow> string \<Rightarrow> string \<Rightarrow> uuid option \<Rightarrow> outbox_record list \<Rightarrow> outbox_record list" where
  "insert_event i now name payload branch t =
     t @ [\<lparr>ob_id = i, ob_name = name, ob_payload = payload, ob_branch = branch, ob_status = ObPending, ob_attempts = 0,
           ob_next = now, ob_locked = None, ob_error = [], ob_created = now, ob_dispatched = None\<rparr>]"

definition due :: "go_time \<Rightarrow> outbox_record \<Rightarrow> bool" where
  "due now r \<longleftrightarrow> (ob_status r = ObPending \<and> \<not> after (ob_next r) now)
     \<or> (ob_status r = ObProcessing \<and> (case ob_locked r of None \<Rightarrow> False | Some l \<Rightarrow> before l now))"

text \<open>\<open>Claim\<close> takes the due records that wait longest; records that wait equally long in table order.\<close>

definition claim_ids :: "go_time \<Rightarrow> nat \<Rightarrow> outbox_record list \<Rightarrow> uuid list" where
  "claim_ids now limit t = map ob_id (take limit (sort_key (\<lambda>r. nanos (ob_next r)) (filter (due now) t)))"

definition claim_row :: "go_time \<Rightarrow> outbox_record \<Rightarrow> outbox_record" where
  "claim_row until r = r\<lparr>ob_status := ObProcessing, ob_locked := Some until, ob_attempts := ob_attempts r + 1\<rparr>"

definition claim :: "go_time \<Rightarrow> int \<Rightarrow> nat \<Rightarrow> outbox_record list \<Rightarrow> outbox_record list \<times> outbox_record list" where
  "claim now lease limit t =
     (let ids = claim_ids now limit t;
          t' = map (\<lambda>r. if ob_id r \<in> set ids then claim_row (time_add now lease) r else r) t
      in (filter (\<lambda>r. ob_id r \<in> set ids) t', t'))"

definition update_row :: "uuid \<Rightarrow> (outbox_record \<Rightarrow> outbox_record) \<Rightarrow> outbox_record list \<Rightarrow> outbox_record list" where
  "update_row i f t = map (\<lambda>r. if ob_id r = i then f r else r) t"

definition mark_dispatched :: "uuid \<Rightarrow> go_time \<Rightarrow> outbox_record list \<Rightarrow> outbox_record list" where
  "mark_dispatched i now =
     update_row i (\<lambda>r. r\<lparr>ob_status := ObDispatched, ob_dispatched := Some now, ob_locked := None, ob_error := []\<rparr>)"

definition mark_failed :: "(string \<Rightarrow> bool) \<Rightarrow> uuid \<Rightarrow> go_time \<Rightarrow> bool \<Rightarrow> string \<Rightarrow> outbox_record list \<Rightarrow> outbox_record list" where
  "mark_failed accepts i next dead msg t =
     (if accepts (truncate_error msg)
      then update_row i (\<lambda>r. r\<lparr>ob_status := (if dead then ObDead else ObPending), ob_next := next, ob_locked := None,
             ob_error := truncate_error msg\<rparr>) t
      else t)"

definition err_outbox_not_found :: error where "err_outbox_not_found = Plain ''outbox record not found''"

definition requeue_row :: "go_time \<Rightarrow> uuid \<Rightarrow> outbox_record list \<Rightarrow> error option \<times> outbox_record list" where
  "requeue_row now i t =
     (if \<exists>r \<in> set t. ob_id r = i \<and> ob_status r = ObDead
      then (None, map (\<lambda>r. if ob_id r = i \<and> ob_status r = ObDead
                           then r\<lparr>ob_status := ObPending, ob_attempts := 0, ob_next := now, ob_error := []\<rparr> else r) t)
      else (Some err_outbox_not_found, t))"

definition purge_dispatched :: "go_time \<Rightarrow> outbox_record list \<Rightarrow> nat \<times> outbox_record list" where
  "purge_dispatched cutoff t =
     (let gone = (\<lambda>r. ob_status r = ObDispatched \<and> (case ob_dispatched r of None \<Rightarrow> False | Some d \<Rightarrow> before d cutoff))
      in (length (filter gone t), filter (\<lambda>r. \<not> gone r) t))"

record outbox_stats =
  st_pending :: nat
  st_processing :: nat
  st_dead :: nat
  st_oldest :: "int option"

definition outbox_stats_of :: "outbox_record list \<Rightarrow> outbox_stats" where
  "outbox_stats_of t =
     (let pend = filter (\<lambda>r. ob_status r = ObPending) t in
      \<lparr>st_pending = length pend, st_processing = length (filter (\<lambda>r. ob_status r = ObProcessing) t),
       st_dead = length (filter (\<lambda>r. ob_status r = ObDead) t),
       st_oldest = (if pend = [] then None else Some (Min (set (map (\<lambda>r. nanos (ob_next r)) pend))))\<rparr>)"

definition admin_requeue :: "go_time \<Rightarrow> uuid \<Rightarrow> outbox_record list \<Rightarrow> error option \<times> outbox_record list" where
  "admin_requeue now i t =
     (let (e, t') = requeue_row now i t
      in (if e = Some err_outbox_not_found then Some (new_not_found ''dead outbox event'') else e, t'))"

section \<open>Bus\<close>

datatype call_outcome = Done | Failed string | Panicked string

definition safe_call :: "call_outcome \<Rightarrow> string option" where
  "safe_call o' = (case o' of Done \<Rightarrow> None | Failed m \<Rightarrow> Some m | Panicked m \<Rightarrow> Some (''handler panic: '' @ m))"

type_synonym ('p, 'w) handler = "'p \<Rightarrow> 'w \<Rightarrow> call_outcome \<times> 'w"

fun run_handlers :: "('p, 'w) handler list \<Rightarrow> 'p \<Rightarrow> 'w \<Rightarrow> string list \<times> 'w" where
  "run_handlers [] p w = ([], w)"
| "run_handlers (h # hs) p w =
     (let (o', w) = h p w; (errs, w) = run_handlers hs p w
      in ((case safe_call o' of None \<Rightarrow> errs | Some m \<Rightarrow> m # errs), w))"

text \<open>\<open>Deliver\<close>: \<open>None\<close> is success, \<open>Some\<close> the joined error texts.\<close>

definition bus_deliver :: "(string \<Rightarrow> ('p, 'w) handler list) \<Rightarrow> string \<Rightarrow> 'p \<Rightarrow> 'w \<Rightarrow> string option \<times> 'w" where
  "bus_deliver subs name p w =
     (let (errs, w) = run_handlers (subs name) p w in (if errs = [] then None else Some (join [CHR 0x0A] errs), w))"

definition durable_names :: "string list" where
  "durable_names = [''conversation.message_received'', ''conversation.responded'', ''lead.stage_changed'', ''payment.reversed'',
     ''document.status_changed'', ''task.overdue'', ''task.note_added'', ''target.status_changed'', ''integration.failed'', ''import.completed'']"

definition is_durable :: "string \<Rightarrow> bool" where "is_durable name \<longleftrightarrow> name \<in> set durable_names"

definition decode_event :: "(string \<Rightarrow> string \<Rightarrow> string + 'p) \<Rightarrow> string \<Rightarrow> string \<Rightarrow> string + 'p" where
  "decode_event unmarshal name raw =
     (if \<not> is_durable name then Inl (''unknown durable event '' @ [CHR 0x22] @ name @ [CHR 0x22])
      else case unmarshal name raw of Inl e \<Rightarrow> Inl (''decode '' @ name @ '': '' @ e) | Inr p \<Rightarrow> Inr p)"

section \<open>Dispatcher\<close>

record ('p, 'w) dispatcher =
  di_unmarshal :: "string \<Rightarrow> string \<Rightarrow> string + 'p"
  di_subs :: "string \<Rightarrow> ('p, 'w) handler list"
  di_accepts :: "string \<Rightarrow> bool"
  di_batch :: nat
  di_lease :: int
  di_retention :: int

definition send_event :: "('p, 'w) dispatcher \<Rightarrow> outbox_record \<Rightarrow> 'w \<Rightarrow> string option \<times> 'w" where
  "send_event d r w =
     (case decode_event (di_unmarshal d) (ob_name r) (ob_payload r) of
        Inl e \<Rightarrow> (Some e, w)
      | Inr p \<Rightarrow> bus_deliver (di_subs d) (ob_name r) p w)"

definition record_outcome :: "('p, 'w) dispatcher \<Rightarrow> go_time \<Rightarrow> outbox_record \<Rightarrow> string option \<Rightarrow> outbox_record list \<Rightarrow> outbox_record list" where
  "record_outcome d now r outcome t =
     (case outcome of
        Some msg \<Rightarrow> (let (next, dead) = after_failure (ob_attempts r) now in mark_failed (di_accepts d) (ob_id r) next dead msg t)
      | None \<Rightarrow> mark_dispatched (ob_id r) now t)"

definition deliver_record :: "('p, 'w) dispatcher \<Rightarrow> go_time \<Rightarrow> outbox_record \<Rightarrow> outbox_record list \<times> 'w \<Rightarrow> outbox_record list \<times> 'w" where
  "deliver_record d now r s = (let (e, w) = send_event d r (snd s) in (record_outcome d now r e (fst s), w))"

text \<open>One batch; \<open>at\<close> is the clock when the delivery of a record ends.\<close>

definition dispatch_once ::
  "('p, 'w) dispatcher \<Rightarrow> go_time \<Rightarrow> (uuid \<Rightarrow> go_time) \<Rightarrow> outbox_record list \<times> 'w \<Rightarrow> nat \<times> (outbox_record list \<times> 'w)" where
  "dispatch_once d now at s =
     (let (recs, t) = claim now (di_lease d) (di_batch d) (fst s)
      in (length recs, fold (\<lambda>r. deliver_record d (at (ob_id r)) r) recs (t, snd s)))"

definition outbox_purge :: "('p, 'w) dispatcher \<Rightarrow> go_time \<Rightarrow> outbox_record list \<Rightarrow> nat \<times> outbox_record list" where
  "outbox_purge d now t = purge_dispatched (time_add now (neg64 (di_retention d))) t"

text \<open>\<open>Run\<close>: the batches of a run, each with its clock.\<close>

fun run_dispatcher :: "('p, 'w) dispatcher \<Rightarrow> (go_time \<times> (uuid \<Rightarrow> go_time)) list \<Rightarrow> outbox_record list \<times> 'w \<Rightarrow> outbox_record list \<times> 'w" where
  "run_dispatcher d [] s = s"
| "run_dispatcher d ((now, at) # rounds) s = run_dispatcher d rounds (snd (dispatch_once d now at s))"

section \<open>Laws\<close>

lemma backoff_loop_bounds: "0 < d \<Longrightarrow> d \<le> max_backoff \<Longrightarrow> d \<le> backoff_loop n d \<and> backoff_loop n d \<le> max_backoff"
proof (induction n arbitrary: d)
  case (Suc n)
  then have m: "mul64 d 2 = d * 2" by (intro mul64_id) (simp add: fits64_def max_backoff_def second_ns_def)
  show ?case
  proof (cases "d * 2 \<ge> max_backoff")
    case False
    then have "d * 2 \<le> backoff_loop n (d * 2) \<and> backoff_loop n (d * 2) \<le> max_backoff" using Suc by simp
    then show ?thesis using False Suc.prems by (simp add: m Let_def)
  qed (use Suc.prems in \<open>simp add: m Let_def\<close>)
qed simp

lemma backoff_bounds: "base_backoff \<le> backoff n \<and> backoff n \<le> max_backoff"
  unfolding backoff_def Let_def by (rule backoff_loop_bounds) (simp_all add: base_backoff_def max_backoff_def second_ns_def)

text \<open>Every handler of an event runs, and a delivery succeeds exactly when all of them do.\<close>

lemma bus_deliver_all:
  "fst (bus_deliver subs name p w) = None \<longleftrightarrow>
     (\<forall>i < length (subs name). fst ((subs name ! i) p (snd (run_handlers (take i (subs name)) p w))) = Done)"
proof -
  have "fst (run_handlers hs p w) = [] \<longleftrightarrow> (\<forall>i < length hs. fst ((hs ! i) p (snd (run_handlers (take i hs) p w))) = Done)" for hs w
  proof (induction hs arbitrary: w)
    case (Cons h hs)
    obtain o' w1 where h: "h p w = (o', w1)" by fastforce
    have "fst (run_handlers (h # hs) p w) = [] \<longleftrightarrow> o' = Done \<and> fst (run_handlers hs p w1) = []"
      by (auto simp: h safe_call_def case_prod_beta split: call_outcome.splits)
    also have "\<dots> \<longleftrightarrow> (\<forall>i < length (h # hs). fst (((h # hs) ! i) p (snd (run_handlers (take i (h # hs)) p w))) = Done)"
      by (simp add: Cons.IH All_less_Suc2 h case_prod_beta)
    finally show ?case .
  qed simp
  from this [of "subs name" w] show ?thesis by (simp add: bus_deliver_def case_prod_beta)
qed

definition row_outcome :: "('p, 'w) dispatcher \<Rightarrow> go_time \<Rightarrow> int \<Rightarrow> string option \<Rightarrow> outbox_record \<Rightarrow> outbox_record" where
  "row_outcome d now attempts outcome r =
     (case outcome of
        None \<Rightarrow> r\<lparr>ob_status := ObDispatched, ob_dispatched := Some now, ob_locked := None, ob_error := []\<rparr>
      | Some msg \<Rightarrow>
          if di_accepts d (truncate_error msg)
          then r\<lparr>ob_status := (if attempts \<ge> max_attempts then ObDead else ObPending),
                 ob_next := (if attempts \<ge> max_attempts then now else time_add now (backoff attempts)),
                 ob_locked := None, ob_error := truncate_error msg\<rparr>
          else r)"

lemma record_outcome_row: "record_outcome d now r oc t = update_row (ob_id r) (row_outcome d now (ob_attempts r) oc) t"
proof (cases oc)
  case (Some msg)
  have "update_row i (\<lambda>x. x) t = t" for i by (simp add: update_row_def)
  then show ?thesis using Some
    by (simp add: record_outcome_def row_outcome_def [abs_def] mark_failed_def after_failure_def)
qed (simp add: record_outcome_def row_outcome_def [abs_def] mark_dispatched_def)

lemma row_outcome_id [simp]: "ob_id (row_outcome d now a oc r) = ob_id r"
  by (simp add: row_outcome_def split: option.split)

lemma claim_row_simps [simp]:
  "ob_id (claim_row u r) = ob_id r" "ob_attempts (claim_row u r) = ob_attempts r + 1" "ob_status (claim_row u r) = ObProcessing"
  by (simp_all add: claim_row_def)

lemma fold_deliver:
  assumes "distinct (map ob_id recs)"
  shows "\<exists>oc. fst (fold (\<lambda>r. deliver_record d (at (ob_id r)) r) recs s)
    = map (\<lambda>x. case find (\<lambda>r. ob_id r = ob_id x) recs of None \<Rightarrow> x
          | Some r \<Rightarrow> row_outcome d (at (ob_id x)) (ob_attempts r) (oc (ob_id x)) x) (fst s)"
  using assms
proof (induction recs arbitrary: s)
  case (Cons r recs)
  obtain e w where e: "send_event d r (snd s) = (e, w)" by fastforce
  define s1 where "s1 = (record_outcome d (at (ob_id r)) r e (fst s), w)"
  have s1: "deliver_record d (at (ob_id r)) r s = s1" by (simp add: deliver_record_def e s1_def)
  from Cons obtain oc where oc: "fst (fold (\<lambda>r. deliver_record d (at (ob_id r)) r) recs s1)
      = map (\<lambda>x. case find (\<lambda>r. ob_id r = ob_id x) recs of None \<Rightarrow> x
          | Some r \<Rightarrow> row_outcome d (at (ob_id x)) (ob_attempts r) (oc (ob_id x)) x) (fst s1)" by fastforce
  have none: "find (\<lambda>q. ob_id q = ob_id r) recs = None" using Cons.prems by (auto simp: find_None_iff intro: rev_image_eqI)
  show ?case
    by (rule exI [of _ "oc(ob_id r := e)"])
      (simp add: s1 oc, auto simp: s1_def record_outcome_row update_row_def none split: option.split)
qed simp

text \<open>What one batch does to the table, row by row.\<close>

lemma dispatch_once_rows:
  assumes "distinct (map ob_id t)"
  shows "\<exists>oc. fst (snd (dispatch_once d now at (t, w)))
    = map (\<lambda>r. if ob_id r \<in> set (claim_ids now (di_batch d) t)
               then row_outcome d (at (ob_id r)) (ob_attempts r + 1) (oc (ob_id r)) (claim_row (time_add now (di_lease d)) r) else r) t"
proof -
  let ?ids = "set (claim_ids now (di_batch d) t)"
  let ?u = "time_add now (di_lease d)"
  define t' where "t' = map (\<lambda>r. if ob_id r \<in> ?ids then claim_row ?u r else r) t"
  define recs where "recs = filter (\<lambda>r. ob_id r \<in> ?ids) t'"
  have ids: "map ob_id t' = map ob_id t" by (simp add: t'_def)
  then have d': "distinct (map ob_id t')" using assms by simp
  then have dr: "distinct (map ob_id recs)" by (simp add: recs_def distinct_map_filter)
  obtain oc where oc: "fst (fold (\<lambda>r. deliver_record d (at (ob_id r)) r) recs (t', w))
      = map (\<lambda>x. case find (\<lambda>r. ob_id r = ob_id x) recs of None \<Rightarrow> x
          | Some r \<Rightarrow> row_outcome d (at (ob_id x)) (ob_attempts r) (oc (ob_id x)) x) t'"
    using fold_deliver [OF dr, of d at "(t', w)"] by auto
  have f: "find (\<lambda>r. ob_id r = ob_id x) recs = (if ob_id x \<in> ?ids then Some x else None)" if "x \<in> set t'" for x
    using that find_unique [OF dr, of x "\<lambda>_. True"] by (auto simp: recs_def find_None_iff)
  have "fst (snd (dispatch_once d now at (t, w))) = map (\<lambda>x. if ob_id x \<in> ?ids then row_outcome d (at (ob_id x)) (ob_attempts x) (oc (ob_id x)) x else x) t'"
    using oc f by (simp add: dispatch_once_def claim_def Let_def t'_def [symmetric] recs_def [symmetric] case_prod_beta cong: map_cong)
  then show ?thesis by (auto simp: t'_def intro!: exI [of _ oc] map_cong)
qed

section \<open>Every event is settled\<close>

definition settled :: "outbox_record \<Rightarrow> bool" where
  "settled r \<longleftrightarrow> ob_status r = ObDispatched \<or> ob_status r = ObDead"

definition weight :: "outbox_record \<Rightarrow> nat" where
  "weight r = (if settled r then 0 else nat (max 1 (max_attempts - ob_attempts r)))"

definition total :: "outbox_record list \<Rightarrow> nat" where "total t = sum_list (map weight t)"

text \<open>A batch starts no earlier than the longest wait after the deliveries of the batch before it.\<close>

fun spaced :: "(go_time \<times> (uuid \<Rightarrow> go_time)) list \<Rightarrow> bool" where
  "spaced ((now, at) # (now', at') # rounds) =
     (nanos now \<le> nanos now' \<and> (\<forall>i. nanos (at i) + max_backoff \<le> nanos now') \<and> spaced ((now', at') # rounds))"
| "spaced _ = True"

lemma settled_weight: "settled r \<longleftrightarrow> weight r = 0" by (auto simp: weight_def)

lemma total_zero: "total t = 0 \<longleftrightarrow> (\<forall>r \<in> set t. settled r)"
  by (auto simp: total_def settled_weight)

lemma due_later: "due now r \<Longrightarrow> nanos now \<le> nanos now' \<Longrightarrow> due now' r"
  by (auto simp: due_def after_def before_def split: option.splits)

lemma due_unsettled: "due now r \<Longrightarrow> \<not> settled r" by (auto simp: due_def settled_def)

lemma claimed_due:
  assumes "distinct (map ob_id t)" "r \<in> set t" "ob_id r \<in> set (claim_ids now n t)"
  shows "due now r"
proof -
  obtain q where q: "q \<in> set t" "due now q" "ob_id q = ob_id r"
    using assms(3) by (auto simp: claim_ids_def dest!: in_set_takeD)
  then have "q = r" using assms(1,2) by (auto simp: distinct_map inj_on_def)
  then show ?thesis using q by simp
qed

lemma claims_something:
  assumes "r \<in> set t" "due now r" "0 < n"
  obtains q where "q \<in> set t" "ob_id q \<in> set (claim_ids now n t)"
proof -
  let ?xs = "sort_key (\<lambda>r. nanos (ob_next r)) (filter (due now) t)"
  have "set ?xs \<noteq> {}" using assms(1,2) by auto
  then obtain x xs where x: "?xs = x # xs" by (cases ?xs) auto
  then have "x \<in> set ?xs" by simp
  then have "x \<in> set t" by simp
  moreover have "ob_id x \<in> set (claim_ids now n t)" using x assms(3) by (cases n) (simp_all add: claim_ids_def)
  ultimately show thesis by (rule that)
qed

lemma outcome_weight:
  assumes "due now r" "\<And>m. di_accepts d m"
  shows "weight (row_outcome d n (ob_attempts r + 1) oc (claim_row u r)) < weight r"
  using due_unsettled [OF assms(1)] assms(2)
  by (auto simp: row_outcome_def weight_def settled_def claim_row_def max_attempts_def split: option.splits)

lemma outcome_due:
  assumes "\<And>m. di_accepts d m" "nanos n + max_backoff \<le> nanos later"
    "\<not> settled (row_outcome d n a oc r)"
  shows "due later (row_outcome d n a oc r)"
  using assms backoff_bounds [of a]
  by (auto simp: row_outcome_def settled_def due_def after_def before_def time_add_def split: option.splits if_splits)

lemma sum_list_less:
  assumes "\<And>x. x \<in> set xs \<Longrightarrow> f x \<le> g x" "y \<in> set xs" "f y < g y"
  shows "sum_list (map f xs) < sum_list (map (g :: 'a \<Rightarrow> nat) xs)"
  using assms
proof (induction xs)
  case (Cons x xs)
  have le: "sum_list (map f xs) \<le> sum_list (map g xs)" using Cons.prems(1) by (intro sum_list_mono) simp
  show ?case
  proof (cases "y = x")
    case True
    then show ?thesis using le Cons.prems(3) by simp
  next
    case False
    then have "sum_list (map f xs) < sum_list (map g xs)" using Cons by auto
    then show ?thesis using Cons.prems(1) [of x] by simp
  qed
qed simp

lemma round_progress:
  assumes t: "distinct (map ob_id t)" and ok: "\<And>m. di_accepts d m" and b: "0 < di_batch d"
    and due: "\<And>r. r \<in> set t \<Longrightarrow> \<not> settled r \<Longrightarrow> due now r"
    and run: "dispatch_once d now at (t, w) = (n, (t', w'))"
  shows "map ob_id t' = map ob_id t" "0 < total t \<Longrightarrow> total t' < total t" "total t = 0 \<Longrightarrow> total t' = 0"
    "\<And>later r. r \<in> set t' \<Longrightarrow> \<not> settled r \<Longrightarrow> nanos now \<le> nanos later \<Longrightarrow> (\<And>i. nanos (at i) + max_backoff \<le> nanos later) \<Longrightarrow> due later r"
proof -
  let ?ids = "set (claim_ids now (di_batch d) t)"
  let ?c = "claim_row (time_add now (di_lease d))"
  obtain oc where t': "t' = map (\<lambda>r. if ob_id r \<in> ?ids then row_outcome d (at (ob_id r)) (ob_attempts r + 1) (oc (ob_id r)) (?c r) else r) t"
    using dispatch_once_rows [OF t, of d now at w] run by auto
  show "map ob_id t' = map ob_id t" by (simp add: t')
  let ?f = "\<lambda>r. if ob_id r \<in> ?ids then row_outcome d (at (ob_id r)) (ob_attempts r + 1) (oc (ob_id r)) (?c r) else r"
  have less: "weight (?f r) < weight r" if "r \<in> set t" "ob_id r \<in> ?ids" for r
    using outcome_weight [OF claimed_due [OF t that] ok] that by simp
  have le: "weight (?f r) \<le> weight r" if "r \<in> set t" for r using less [OF that] by (cases "ob_id r \<in> ?ids") auto
  have tot: "total t' = sum_list (map (\<lambda>r. weight (?f r)) t)" by (simp add: t' total_def comp_def)
  show "total t' < total t" if pos: "0 < total t"
  proof -
    obtain r where "r \<in> set t" "\<not> settled r" using pos total_zero [of t] by auto
    then obtain q where q: "q \<in> set t" "ob_id q \<in> ?ids" using claims_something [OF _ due b] by metis
    show ?thesis unfolding tot unfolding total_def using le q(1) less [OF q] by (rule sum_list_less)
  qed
  show "total t' = 0" if "total t = 0"
  proof -
    have "total t' \<le> total t" unfolding tot unfolding total_def using le by (rule sum_list_mono)
    then show ?thesis using that by simp
  qed
  fix later :: go_time and r
  assume r: "r \<in> set t'" "\<not> settled r" and l: "nanos now \<le> nanos later" "\<And>i. nanos (at i) + max_backoff \<le> nanos later"
  then obtain r0 where r0: "r0 \<in> set t" "r = ?f r0" unfolding t' by auto
  show "due later r"
  proof (cases "ob_id r0 \<in> ?ids")
    case True
    then show ?thesis using r0(2) r(2) l(2) by (auto intro!: outcome_due ok)
  next
    case False
    then show ?thesis using r0 r(2) due [of r0] l(1) by (auto intro: due_later)
  qed
qed

lemma rounds_settle:
  assumes ok: "\<And>m. di_accepts d m" and b: "0 < di_batch d"
  shows "distinct (map ob_id t) \<Longrightarrow> spaced rounds \<Longrightarrow> total t \<le> length rounds \<Longrightarrow>
    (rounds \<noteq> [] \<Longrightarrow> \<forall>r \<in> set t. \<not> settled r \<longrightarrow> due (fst (hd rounds)) r) \<Longrightarrow>
    map ob_id (fst (run_dispatcher d rounds (t, w))) = map ob_id t \<and> total (fst (run_dispatcher d rounds (t, w))) = 0"
proof (induction rounds arbitrary: t w)
  case (Cons x rounds)
  obtain now at where x: "x = (now, at)" by fastforce
  obtain n t' w' where r: "dispatch_once d now at (t, w) = (n, (t', w'))" by (metis prod.collapse)
  have due: "due now q" if "q \<in> set t" "\<not> settled q" for q using Cons.prems(4) that x by simp
  note p = round_progress [OF Cons.prems(1) ok b due r]
  have "spaced rounds" using Cons.prems(2) x by (cases rounds) auto
  moreover have "total t' \<le> length rounds" using p(2,3) Cons.prems(3) by (cases "total t = 0") auto
  moreover have "\<forall>q \<in> set t'. \<not> settled q \<longrightarrow> due (fst (hd rounds)) q" if ne: "rounds \<noteq> []"
  proof -
    obtain now' at' rs where rs: "rounds = (now', at') # rs" using ne by (cases rounds) auto
    then have "nanos now \<le> nanos now'" "\<And>i. nanos (at i) + max_backoff \<le> nanos now'" using Cons.prems(2) x by auto
    then show ?thesis using p(4) rs by simp
  qed
  ultimately have "map ob_id (fst (run_dispatcher d rounds (t', w'))) = map ob_id t' \<and> total (fst (run_dispatcher d rounds (t', w'))) = 0"
    using Cons.prems(1) p(1) by (intro Cons.IH) auto
  then show ?case using p(1) by (simp add: x r)
qed simp

text \<open>
  C21. Every event is settled. Whatever the handlers do, when all waiting records are due at the first batch, batches
  are at least the longest wait apart and the store takes the updates, then after as many batches as there are
  attempts left (at most eight per record) no record is waiting: each of them is delivered or dead-lettered, and
  none has disappeared.
\<close>

theorem outbox_drains:
  assumes "\<And>m. di_accepts d m" "0 < di_batch d" "distinct (map ob_id t)" "spaced rounds" "rounds \<noteq> []"
    "\<forall>r \<in> set t. \<not> settled r \<longrightarrow> due (fst (hd rounds)) r \<and> 0 \<le> ob_attempts r"
    "8 * length (filter (\<lambda>r. \<not> settled r) t) \<le> length rounds"
  shows "(\<forall>r \<in> set (fst (run_dispatcher d rounds (t, w))). ob_status r = ObDispatched \<or> ob_status r = ObDead)
    \<and> map ob_id (fst (run_dispatcher d rounds (t, w))) = map ob_id t"
proof -
  have "total t \<le> 8 * length (filter (\<lambda>r. \<not> settled r) t)" using assms(6)
    by (induction t) (auto simp: total_def weight_def max_attempts_def)
  then have "total t \<le> length rounds" using assms(7) by simp
  then have "map ob_id (fst (run_dispatcher d rounds (t, w))) = map ob_id t \<and> total (fst (run_dispatcher d rounds (t, w))) = 0"
    using assms by (intro rounds_settle) auto
  then show ?thesis by (simp add: total_zero settled_def)
qed

text \<open>A record that fails once, is retried after its wait and then succeeds.\<close>

definition sample_dispatcher :: "(unit, nat) dispatcher" where
  "sample_dispatcher = \<lparr>di_unmarshal = (\<lambda>_ _. Inr ()), di_subs = (\<lambda>_. [\<lambda>_ n. (if n = 0 then Panicked ''boom'' else Done, n + 1)]),
     di_accepts = (\<lambda>_. True), di_batch = 50, di_lease = 120 * second_ns, di_retention = 0\<rparr>"

definition sample_rounds :: "(go_time \<times> (uuid \<Rightarrow> go_time)) list" where
  "sample_rounds = map (\<lambda>k. (\<lparr>nanos = k * 1800000000000, zone = 0\<rparr>, \<lambda>_. \<lparr>nanos = k * 1800000000000, zone = 0\<rparr>)) [1, 2, 3, 4, 5, 6, 7, 8]"

definition sample_table :: "outbox_record list" where
  "sample_table = insert_event 5 \<lparr>nanos = 7, zone = 0\<rparr> ''task.overdue'' [] None []"

theorem outbox_drains_witness:
  "map ob_id (fst (run_dispatcher sample_dispatcher sample_rounds (sample_table, 0))) = [5]
   \<and> map (\<lambda>r. (ob_status r, ob_attempts r)) (fst (run_dispatcher sample_dispatcher sample_rounds (sample_table, 0))) = [(ObDispatched, 2)]"
proof -
  have "map (\<lambda>r. (ob_status r, ob_attempts r)) (fst (run_dispatcher sample_dispatcher sample_rounds (sample_table, 0))) = [(ObDispatched, 2)]"
    by code_simp
  moreover have "map ob_id sample_table = [5]" "0 < di_batch sample_dispatcher" "di_accepts sample_dispatcher m"
      "spaced sample_rounds" "sample_rounds \<noteq> []" "length sample_rounds = 8" "length (filter (\<lambda>r. \<not> settled r) sample_table) = 1"
      "\<forall>r \<in> set sample_table. \<not> settled r \<longrightarrow> due (fst (hd sample_rounds)) r \<and> 0 \<le> ob_attempts r" for m
    by (simp_all add: sample_table_def sample_dispatcher_def sample_rounds_def insert_event_def max_backoff_def second_ns_def
        settled_def due_def after_def before_def)
  ultimately show ?thesis using outbox_drains [of sample_dispatcher sample_table sample_rounds 0] by simp
qed

section \<open>Workers in parallel\<close>

text \<open>
  Several workers share the table. A worker holds the records it claimed and reports the outcome of each later, or
  crashes; its lease may be over by then and another worker may hold the same record. \<open>os_added\<close> and \<open>os_done\<close>
  record which events were ever inserted and which of them some worker delivered.
\<close>

record outbox_system =
  os_table :: "outbox_record list"
  os_flight :: "outbox_record list"
  os_added :: "uuid set"
  os_done :: "uuid set"

inductive outbox_step :: "('p, 'w) dispatcher \<Rightarrow> outbox_system \<Rightarrow> outbox_system \<Rightarrow> bool" for d where
  added: "i \<notin> os_added s \<Longrightarrow> outbox_step d s (s\<lparr>os_table := insert_event i now name payload branch (os_table s), os_added := insert i (os_added s)\<rparr>)"
| claimed: "claim now (di_lease d) (di_batch d) (os_table s) = (recs, t) \<Longrightarrow>
    outbox_step d s (s\<lparr>os_table := t, os_flight := recs @ os_flight s\<rparr>)"
| delivered: "r \<in> set (os_flight s) \<Longrightarrow>
    outbox_step d s (s\<lparr>os_table := record_outcome d now r None (os_table s), os_flight := remove1 r (os_flight s), os_done := insert (ob_id r) (os_done s)\<rparr>)"
| failed: "r \<in> set (os_flight s) \<Longrightarrow>
    outbox_step d s (s\<lparr>os_table := record_outcome d now r (Some msg) (os_table s), os_flight := remove1 r (os_flight s)\<rparr>)"
| crashed: "outbox_step d s (s\<lparr>os_flight := remove1 r (os_flight s)\<rparr>)"
| requeued: "outbox_step d s (s\<lparr>os_table := snd (admin_requeue now i (os_table s))\<rparr>)"
| purged: "outbox_step d s (s\<lparr>os_table := snd (outbox_purge d now (os_table s))\<rparr>)"

definition no_loss :: "outbox_system \<Rightarrow> bool" where
  "no_loss s \<longleftrightarrow> (\<forall>i \<in> os_added s. i \<in> os_done s \<or> (\<exists>r \<in> set (os_table s). ob_id r = i \<and> ob_status r \<noteq> ObDispatched))
     \<and> (\<forall>r \<in> set (os_table s). ob_status r = ObDispatched \<longrightarrow> ob_id r \<in> os_done s)"

lemma no_loss_rows:
  assumes s: "no_loss s" and d: "os_done s \<subseteq> os_done s'" "os_added s' = os_added s" and t: "os_table s' = map f (os_table s)"
    and f: "\<And>r. ob_id (f r) = ob_id r" "\<And>r. r \<in> set (os_table s) \<Longrightarrow> ob_status (f r) = ObDispatched \<Longrightarrow> ob_status r = ObDispatched \<or> ob_id r \<in> os_done s'"
  shows "no_loss s'"
  unfolding no_loss_def d(2)
proof (intro conjI ballI impI)
  fix i assume "i \<in> os_added s"
  then consider "i \<in> os_done s" | r where "r \<in> set (os_table s)" "ob_id r = i" "ob_status r \<noteq> ObDispatched"
    using s by (auto simp: no_loss_def)
  then show "i \<in> os_done s' \<or> (\<exists>r \<in> set (os_table s'). ob_id r = i \<and> ob_status r \<noteq> ObDispatched)"
  proof cases
    case 2
    show ?thesis
    proof (cases "ob_status (f r) = ObDispatched")
      case True
      then show ?thesis using f(2) [OF 2(1)] 2 by auto
    next
      case False
      then show ?thesis using 2 f(1) unfolding t by auto
    qed
  qed (use d(1) in auto)
next
  fix r assume "r \<in> set (os_table s')" "ob_status r = ObDispatched"
  then show "ob_id r \<in> os_done s'" using s f d(1) unfolding t no_loss_def by fastforce
qed

lemma record_outcome_status:
  "ob_status (row_outcome d now a oc r) = ObDispatched \<Longrightarrow> oc = None \<or> ob_status r = ObDispatched"
  by (auto simp: row_outcome_def split: option.splits if_splits)

lemma outbox_step_no_loss: "outbox_step d s s' \<Longrightarrow> no_loss s \<Longrightarrow> no_loss s'"
proof (induction rule: outbox_step.induct)
  case (added i s now name payload branch)
  then show ?case by (auto simp: no_loss_def insert_event_def)
next
  case (claimed now s recs t)
  then have t: "t = map (\<lambda>r. if ob_id r \<in> set (claim_ids now (di_batch d) (os_table s)) then claim_row (time_add now (di_lease d)) r else r) (os_table s)"
    by (auto simp: claim_def Let_def)
  show ?case by (rule no_loss_rows [OF claimed(2), where f = "\<lambda>r. if ob_id r \<in> set (claim_ids now (di_batch d) (os_table s)) then claim_row (time_add now (di_lease d)) r else r"])
      (auto simp: t split: if_splits)
next
  case (delivered r s now)
  show ?case
    by (rule no_loss_rows [OF delivered(2), where f = "\<lambda>x. if ob_id x = ob_id r then row_outcome d now (ob_attempts r) None x else x"])
      (auto simp: record_outcome_row update_row_def split: if_splits)
next
  case (failed r s now msg)
  show ?case
    by (rule no_loss_rows [OF failed(2), where f = "\<lambda>x. if ob_id x = ob_id r then row_outcome d now (ob_attempts r) (Some msg) x else x"])
      (auto simp: record_outcome_row update_row_def dest: record_outcome_status split: if_splits)
next
  case (crashed s r)
  then show ?case by (simp add: no_loss_def)
next
  case (requeued s now i)
  let ?f = "\<lambda>r. if ob_id r = i \<and> ob_status r = ObDead then r\<lparr>ob_status := ObPending, ob_attempts := 0, ob_next := now, ob_error := []\<rparr> else r"
  have "snd (admin_requeue now i (os_table s)) = map ?f (os_table s) \<or> snd (admin_requeue now i (os_table s)) = map (\<lambda>r. r) (os_table s)"
    by (auto simp: admin_requeue_def requeue_row_def)
  then obtain f where f: "snd (admin_requeue now i (os_table s)) = map f (os_table s)" "f = ?f \<or> f = (\<lambda>r. r)" by blast
  then have "ob_id (f r) = ob_id r" "ob_status (f r) = ObDispatched \<Longrightarrow> ob_status r = ObDispatched" for r by (auto split: if_splits)
  then show ?case by (intro no_loss_rows [OF requeued, where f = f]) (auto simp: f(1))
next
  case (purged s now)
  then show ?case by (auto simp: no_loss_def outbox_purge_def purge_dispatched_def Let_def)
qed

interpretation outbox: invariant_machine
  "\<lambda>s. os_table s = [] \<and> os_added s = {} \<and> os_done s = {}" "outbox_step d" no_loss for d
  by unfold_locales (simp add: no_loss_def, rule outbox_step_no_loss)

text \<open>
  C20. No event is lost. However inserts, claims, outcomes, crashes, expired leases, requeues and purges of any
  number of workers interleave: an event that was recorded has been delivered, or is still in the table and not
  marked as dispatched; and a record marked as dispatched was delivered.
\<close>

theorem outbox_no_loss:
  assumes "os_table s0 = []" "os_added s0 = {}" "os_done s0 = {}" "(outbox_step d)\<^sup>*\<^sup>* s0 s" "i \<in> os_added s"
  shows "(i \<in> os_done s \<or> (\<exists>r \<in> set (os_table s). ob_id r = i \<and> ob_status r \<noteq> ObDispatched))
    \<and> (\<forall>r \<in> set (os_table s). ob_status r = ObDispatched \<longrightarrow> ob_id r \<in> os_done s)"
proof -
  have "no_loss s" using outbox.reachable_good [of s0 d s] assms(1-4) by simp
  then show ?thesis using assms(5) by (simp add: no_loss_def)
qed

theorem outbox_no_loss_witness:
  "\<exists>s. (outbox_step sample_dispatcher)\<^sup>*\<^sup>* \<lparr>os_table = [], os_flight = [], os_added = {}, os_done = {}\<rparr> s \<and> 5 \<in> os_added s \<and> 5 \<in> os_done s
     \<and> map ob_status (os_table s) = [ObDispatched]"
proof -
  let ?d = sample_dispatcher
  let ?s0 = "\<lparr>os_table = [], os_flight = [], os_added = {}, os_done = {}\<rparr>"
  let ?now = "\<lparr>nanos = 7, zone = 0\<rparr>"
  define s1 where "s1 = ?s0\<lparr>os_table := sample_table, os_added := {5}\<rparr>"
  have 1: "outbox_step ?d ?s0 s1" using outbox_step.added [of 5 ?s0 ?d ?now "''task.overdue''" "[]" None] by (simp add: s1_def sample_table_def)
  obtain recs t where c: "claim ?now (di_lease ?d) (di_batch ?d) sample_table = (recs, t)" by fastforce
  define s2 where "s2 = s1\<lparr>os_table := t, os_flight := recs @ os_flight s1\<rparr>"
  have 2: "outbox_step ?d s1 s2" unfolding s2_def by (rule claimed [where now = ?now]) (simp add: s1_def c)
  have "map ob_id (fst (claim ?now (di_lease ?d) (di_batch ?d) sample_table)) = [5]" "map ob_id (snd (claim ?now (di_lease ?d) (di_batch ?d) sample_table)) = [5]"
    by code_simp+
  then obtain r q where r: "recs = [r]" "ob_id r = 5" "t = [q]" "ob_id q = 5" using c by auto
  define s3 where "s3 = s2\<lparr>os_table := record_outcome ?d ?now r None (os_table s2), os_flight := remove1 r (os_flight s2), os_done := insert (ob_id r) (os_done s2)\<rparr>"
  have 3: "outbox_step ?d s2 s3" unfolding s3_def by (rule delivered) (simp add: s2_def r)
  have run: "(outbox_step ?d)\<^sup>*\<^sup>* ?s0 s3" using 1 2 3 by (meson rtranclp.rtrancl_into_rtrancl rtranclp.rtrancl_refl)
  have mem: "5 \<in> os_added s3" by (simp add: s3_def s2_def s1_def)
  have st: "map ob_status (os_table s3) = [ObDispatched]" using r by (simp add: s3_def s2_def record_outcome_def mark_dispatched_def update_row_def)
  obtain x where x: "os_table s3 = [x]" "ob_status x = ObDispatched" using st by (auto simp: map_eq_Cons_conv)
  have "5 \<in> os_done s3 \<or> (\<exists>r \<in> set (os_table s3). ob_id r = 5 \<and> ob_status r \<noteq> ObDispatched)"
    by (rule conjunct1 [OF outbox_no_loss [OF _ _ _ run mem]]) simp_all
  then have "5 \<in> os_done s3" unfolding x(1) using x(2) by auto
  then show ?thesis using run mem st by (intro exI [of _ s3] conjI)
qed

text \<open>
  The attempt limit only applies when a worker lives to report a failure: an event whose delivery kills its worker is
  claimed again whenever the lease is over, any number of times, and never dead-lettered.
\<close>

lemma claim_single:
  assumes "due now r" "0 < n"
  shows "claim now lease n [r] = ([claim_row (time_add now lease) r], [claim_row (time_add now lease) r])"
  using assms by (cases n) (simp_all add: claim_def claim_ids_def)

lemma crashing_event_never_dead:
  assumes "0 < di_batch d" "os_table s0 = []" "i \<notin> os_added s0"
  shows "\<exists>s r l. (outbox_step d)\<^sup>*\<^sup>* s0 s \<and> os_table s = [r] \<and> ob_status r = ObProcessing \<and> ob_locked r = Some l \<and> ob_attempts r = int n + 1"
proof (induction n)
  case 0
  let ?now = "\<lparr>nanos = 0, zone = 0\<rparr>"
  define t where "t = insert_event i ?now [] [] None []"
  define s1 where "s1 = s0\<lparr>os_table := t, os_added := insert i (os_added s0)\<rparr>"
  obtain r where r: "t = [r]" "due ?now r" "ob_attempts r = 0" by (simp add: t_def insert_event_def due_def after_def before_def)
  have 1: "outbox_step d s0 s1" unfolding s1_def t_def using outbox_step.added [OF assms(3), of d ?now "[]" "[]" None] assms(2) by simp
  let ?r = "claim_row (time_add ?now (di_lease d)) r"
  have 2: "outbox_step d s1 (s1\<lparr>os_table := [?r], os_flight := [?r] @ os_flight s1\<rparr>)"
    by (rule claimed [where now = ?now]) (simp add: s1_def r(1) claim_single [OF r(2) assms(1)])
  show ?case
    by (rule exI [of _ "s1\<lparr>os_table := [?r], os_flight := [?r] @ os_flight s1\<rparr>"])
      (use 1 2 r(3) in \<open>auto simp: claim_row_def intro: converse_rtranclp_into_rtranclp\<close>)
next
  case (Suc n)
  then obtain s r l where s: "(outbox_step d)\<^sup>*\<^sup>* s0 s" "os_table s = [r]" "ob_status r = ObProcessing" "ob_locked r = Some l" "ob_attempts r = int n + 1" by blast
  define now where "now = time_add l 1"
  let ?r = "claim_row (time_add now (di_lease d)) r"
  have "due now r" using s(3,4) by (simp add: due_def now_def before_def time_add_def)
  then have "outbox_step d s (s\<lparr>os_table := [?r], os_flight := [?r] @ os_flight s\<rparr>)"
    by (intro claimed [where now = now]) (simp add: s(2) claim_single [OF _ assms(1)])
  then have "(outbox_step d)\<^sup>*\<^sup>* s0 (s\<lparr>os_table := [?r], os_flight := [?r] @ os_flight s\<rparr>)" using s(1) by simp
  then show ?case using s(5) by (intro exI [of _ "s\<lparr>os_table := [?r], os_flight := [?r] @ os_flight s\<rparr>"]) (auto simp: claim_row_def)
qed

end
