(* ===== verification/Field_Errors.thy ===== *)
theory Field_Errors
  imports Shared
begin

text \<open>
  What the validating methods of several packages share: the map of field problems that becomes the details of a
  validation error (an association list, in the order in which fields are first reported), the pattern of currency
  codes, and the cut of a string after a number of runes.
\<close>

type_synonym fields = "(string \<times> string) list"

text \<open>\<^verbatim>\<open>f[k] = msg\<close>: a later message replaces the one of the same field.\<close>

definition field_put :: "bool \<Rightarrow> string \<Rightarrow> string \<Rightarrow> fields \<Rightarrow> fields" where
  "field_put bad k m f =
     (if \<not> bad then f else if k \<in> fst ` set f then map (\<lambda>(k', m'). (k', if k' = k then m else m')) f else f @ [(k, m)])"

definition fields_err :: "string \<Rightarrow> fields \<Rightarrow> error option" where
  "fields_err msg f = (if f = [] then None else Some (with_details (new_validation msg) (map (\<lambda>(k, m). (k, [m])) f)))"

definition currency_pattern :: "string \<Rightarrow> bool" where
  "currency_pattern s \<longleftrightarrow> length s = 3 \<and> list_all is_upper s"

text \<open>\<open>string([]rune(s)[:n])\<close>: a byte that starts no rune becomes the replacement rune.\<close>

fun take_runes :: "nat \<Rightarrow> string \<Rightarrow> string" where
  "take_runes 0 s = []"
| "take_runes (Suc n) s =
     (if s = [] then []
      else (if rune_len s = 1 \<and> 128 \<le> byte (hd s) then [CHR 0xEF, CHR 0xBF, CHR 0xBD] else take (rune_len s) s)
        @ take_runes n (drop (rune_len s) s))"

lemma field_put_Nil [simp]: "field_put bad k m f = [] \<longleftrightarrow> \<not> bad \<and> f = []"
  by (auto simp: field_put_def)

lemma fields_err_None [simp]: "fields_err msg f = None \<longleftrightarrow> f = []"
  by (simp add: fields_err_def)

end
