(* ===== verification/Hotel.thy ===== *)
theory Hotel
  imports Access Rounding Field_Errors
begin

text \<open>
  \<^verbatim>\<open>internal/domain/hotel\<close>: the contract data of a hotel (\<^verbatim>\<open>model.go\<close>), its markup, child and cancellation policies
  (\<^verbatim>\<open>policy.go\<close>), seasons, allotments and stop sales (\<^verbatim>\<open>inventory.go\<close>) and the monthly sheet (\<^verbatim>\<open>monthly.go\<close>).
  The redaction of costs for display (\<^verbatim>\<open>redact.go\<close>) is left out.

  A \<open>Normalize\<close> method cleans a value and reports field problems; a caller drops the value on a problem, so it is
  a function into a problem or the clean value. The map of field problems keeps the first message of a field. The address parser of \<^verbatim>\<open>net/mail\<close> is a parameter.
\<close>

section \<open>Helpers\<close>

definition field_add :: "string \<Rightarrow> string \<Rightarrow> fields \<Rightarrow> fields" where
  "field_add k m f = (if k \<in> fst ` set f then f else f @ [(k, m)])"

definition field_check :: "bool \<Rightarrow> string \<Rightarrow> string \<Rightarrow> fields \<Rightarrow> fields" where
  "field_check bad k m f = (if bad then field_add k m f else f)"

definition clip :: "string \<Rightarrow> nat \<Rightarrow> string" where
  "clip s n = (let s = trim_space s in if n < rune_count s then take_runes n s else s)"

definition index_of :: "'a list \<Rightarrow> 'a \<Rightarrow> int" where
  "index_of xs x = (case find (\<lambda>i. xs ! i = x) [0..<length xs] of None \<Rightarrow> - 1 | Some i \<Rightarrow> int i)"

definition room_types :: "string list" where
  "room_types = [''standard'', ''superior'', ''deluxe'', ''family'', ''suite'', ''triple'', ''quad'']"

definition meal_plans :: "string list" where "meal_plans = [''ro'', ''bb'', ''hb'', ''fb'', ''ai'']"

fun normalize_set_loop :: "string list \<Rightarrow> string list \<Rightarrow> string list \<Rightarrow> string list" where
  "normalize_set_loop menu out [] = out"
| "normalize_set_loop menu out (v # vs) =
     (let v = to_lower (trim_space v)
      in normalize_set_loop menu (if v \<in> set menu \<and> v \<notin> set out then out @ [v] else out) vs)"

definition normalize_set :: "string list \<Rightarrow> string list \<Rightarrow> string list" where
  "normalize_set xs menu = sort_key (index_of menu) (normalize_set_loop menu [] xs)"

definition max_money_amount :: int where "max_money_amount = 100000000000"

definition round_div :: "int \<Rightarrow> int \<Rightarrow> int" where
  "round_div a b = quo64 (add64 a (quo64 b 2)) b"

definition sum64 :: "int list \<Rightarrow> int" where "sum64 xs = foldl add64 0 xs"

section \<open>Days\<close>

text \<open>
  The division of the source is on the floating hours of the duration; the days handed in are midnights, where it
  is exact.
\<close>

definition days_between :: "go_time \<Rightarrow> go_time \<Rightarrow> int" where
  "days_between a b = quo (time_sub b a) day_ns"

definition hotel_day :: "go_time \<Rightarrow> location \<Rightarrow> go_time" where
  "hotel_day t loc = truncate_day (in_loc t loc)"

definition max_span_days :: int where "max_span_days = 731"

definition valid_range :: "go_time \<Rightarrow> go_time \<Rightarrow> fields \<Rightarrow> fields" where
  "valid_range start end' f =
     (if is_zero start \<or> is_zero end' then field_add ''start_date'' ''start_date and end_date are required'' f
      else field_check (days_between start end' > max_span_days) ''end_date'' ''range is limited to two years''
             (field_check (before end' start) ''end_date'' ''must not be before start_date'' f))"

definition covers :: "go_time \<Rightarrow> go_time \<Rightarrow> go_time \<Rightarrow> bool" where
  "covers start end' day \<longleftrightarrow> \<not> before day start \<and> \<not> after day end'"

section \<open>Markup\<close>

record markup =
  mk_kind :: string
  mk_value :: int

definition markup_normalize :: "markup \<Rightarrow> string + markup" where
  "markup_normalize m =
     (let k = to_lower (trim_space (mk_kind m)); k = (if k = [] then ''percent'' else k); v = mk_value m
      in if k = ''percent'' then (if v < 0 \<or> v > 50000 then Inl ''percent markup must be 0-500%'' else Inr (m\<lparr>mk_kind := k\<rparr>))
         else if k = ''fixed'' then (if v < 0 \<or> v > max_money_amount then Inl ''fixed markup out of range'' else Inr (m\<lparr>mk_kind := k\<rparr>))
         else Inl ''kind must be percent or fixed'')"

definition markup_apply :: "markup \<Rightarrow> int \<Rightarrow> int \<Rightarrow> int" where
  "markup_apply m net paying =
     (if net \<le> 0 then net
      else if mk_kind m = ''fixed'' then add64 net (mul64 (mk_value m) paying)
      else add64 net (round_div (mul64 net (mk_value m)) 10000))"

section \<open>Child policy\<close>

record child_rule =
  cr_mode :: string
  cr_value :: int

definition child_rule_normalize :: "string \<Rightarrow> bool \<Rightarrow> child_rule \<Rightarrow> string + child_rule" where
  "child_rule_normalize name allow_percent r =
     (let k = to_lower (trim_space (cr_mode r)); k = (if k = [] then ''free'' else k); v = cr_value r
      in if k = ''free'' then Inr \<lparr>cr_mode = k, cr_value = 0\<rparr>
         else if k = ''percent''
         then (if \<not> allow_percent then Inl (name @ '' must be free or fixed'')
               else if v < 0 \<or> v > 100 then Inl (name @ '' percent must be 0-100'') else Inr (r\<lparr>cr_mode := k\<rparr>))
         else if k = ''fixed'' then (if v < 0 \<or> v > max_money_amount then Inl (name @ '' amount out of range'') else Inr (r\<lparr>cr_mode := k\<rparr>))
         else Inl (name @ '' mode must be free, percent or fixed''))"

definition child_rule_charge :: "child_rule \<Rightarrow> int \<Rightarrow> int" where
  "child_rule_charge r adult =
     (if cr_mode r = ''percent'' then round_div (mul64 adult (cr_value r)) 100
      else if cr_mode r = ''fixed'' then cr_value r else 0)"

record child_policy =
  cp_infant_max :: int
  cp_child1_max :: int
  cp_child2_max :: int
  cp_infant :: child_rule
  cp_child1 :: child_rule
  cp_child2_bed :: child_rule
  cp_child2_no_bed :: child_rule
  cp_extra_bed :: int

definition default_child_policy :: child_policy where
  "default_child_policy = \<lparr>cp_infant_max = 2, cp_child1_max = 6, cp_child2_max = 12, cp_infant = \<lparr>cr_mode = ''free'', cr_value = 0\<rparr>,
     cp_child1 = \<lparr>cr_mode = ''free'', cr_value = 0\<rparr>, cp_child2_bed = \<lparr>cr_mode = ''percent'', cr_value = 75\<rparr>,
     cp_child2_no_bed = \<lparr>cr_mode = ''percent'', cr_value = 50\<rparr>, cp_extra_bed = 0\<rparr>"

definition bind_sum :: "'e + 'a \<Rightarrow> ('a \<Rightarrow> 'e + 'b) \<Rightarrow> 'e + 'b" where
  "bind_sum r f = (case r of Inl e \<Rightarrow> Inl e | Inr x \<Rightarrow> f x)"

definition child_policy_normalize :: "child_policy \<Rightarrow> string + child_policy" where
  "child_policy_normalize p0 =
     (let p = (if cp_infant_max p0 = 0 \<and> cp_child1_max p0 = 0 \<and> cp_child2_max p0 = 0
               then p0\<lparr>cp_infant_max := 2, cp_child1_max := 6, cp_child2_max := 12\<rparr> else p0)
      in if cp_infant_max p < 1 \<or> cp_infant_max p \<ge> cp_child1_max p \<or> cp_child1_max p \<ge> cp_child2_max p \<or> cp_child2_max p > 18
         then Inl ''age breaks must rise: infant < child 1 < child 2 <= 18''
         else
           bind_sum (child_rule_normalize ''infant'' False (cp_infant p)) (\<lambda>i.
           bind_sum (child_rule_normalize ''child1'' True (cp_child1 p)) (\<lambda>c1.
           bind_sum (child_rule_normalize ''child2_with_bed'' True (cp_child2_bed p)) (\<lambda>c2.
           bind_sum (child_rule_normalize ''child2_no_bed'' True (cp_child2_no_bed p)) (\<lambda>c3.
             if cp_extra_bed p < 0 \<or> cp_extra_bed p > max_money_amount then Inl ''extra_bed_adult out of range''
             else Inr (p\<lparr>cp_infant := i, cp_child1 := c1, cp_child2_bed := c2, cp_child2_no_bed := c3\<rparr>))))))"

datatype band = BandInfant | BandChild1 | BandChild2 | BandAdult

definition child_band :: "child_policy \<Rightarrow> int \<Rightarrow> band" where
  "child_band p age =
     (if age < cp_infant_max p then BandInfant else if age < cp_child1_max p then BandChild1
      else if age < cp_child2_max p then BandChild2 else BandAdult)"

definition child_charge :: "child_policy \<Rightarrow> int \<Rightarrow> bool \<Rightarrow> int \<Rightarrow> band \<times> int \<times> bool" where
  "child_charge p age bed adult =
     (case child_band p age of
        BandInfant \<Rightarrow> (BandInfant, child_rule_charge (cp_infant p) adult, True)
      | BandChild1 \<Rightarrow> (BandChild1, child_rule_charge (cp_child1 p) adult, True)
      | BandChild2 \<Rightarrow> (BandChild2, child_rule_charge (if bed then cp_child2_bed p else cp_child2_no_bed p) adult, True)
      | BandAdult \<Rightarrow> (BandAdult, 0, False))"

section \<open>Cancellation policy\<close>

record penalty_tier =
  pt_min_days :: int
  pt_kind :: string
  pt_value :: int

record cancellation_policy =
  cn_free_days :: int
  cn_tiers :: "penalty_tier list"
  cn_no_show :: int

definition default_hotel_cancellation :: cancellation_policy where
  "default_hotel_cancellation = \<lparr>cn_free_days = 14,
     cn_tiers = [\<lparr>pt_min_days = 7, pt_kind = ''nights'', pt_value = 1\<rparr>, \<lparr>pt_min_days = 0, pt_kind = ''percent'', pt_value = 100\<rparr>],
     cn_no_show = 100\<rparr>"

definition tier_problem :: "int \<Rightarrow> int set \<Rightarrow> penalty_tier \<Rightarrow> string option" where
  "tier_problem free seen t =
     (if pt_min_days t < 0 \<or> pt_min_days t \<ge> free then Some ''tier min_days must be below free_days''
      else if pt_min_days t \<in> seen then Some ''tier min_days must be unique''
      else if pt_kind t = ''nights'' \<and> (pt_value t < 1 \<or> pt_value t > 60) then Some ''nights penalty must be 1-60''
      else if pt_kind t = ''percent'' \<and> (pt_value t < 1 \<or> pt_value t > 100) then Some ''percent penalty must be 1-100''
      else if pt_kind t \<noteq> ''nights'' \<and> pt_kind t \<noteq> ''percent'' then Some ''tier kind must be nights or percent''
      else None)"

primrec tiers_normalize :: "int \<Rightarrow> int set \<Rightarrow> penalty_tier list \<Rightarrow> string + penalty_tier list" where
  "tiers_normalize free seen [] = Inr []"
| "tiers_normalize free seen (t0 # ts) =
     (let t = t0\<lparr>pt_kind := to_lower (trim_space (pt_kind t0))\<rparr> in
      case tier_problem free seen t of
        Some m \<Rightarrow> Inl m
      | None \<Rightarrow> bind_sum (tiers_normalize free (insert (pt_min_days t) seen) ts) (\<lambda>ts. Inr (t # ts)))"

definition cancellation_normalize :: "cancellation_policy \<Rightarrow> string + cancellation_policy" where
  "cancellation_normalize c =
     (if cn_free_days c < 0 \<or> cn_free_days c > 365 then Inl ''free_days must be 0-365''
      else if cn_no_show c < 0 \<or> cn_no_show c > 100 then Inl ''no_show_pct must be 0-100''
      else bind_sum (tiers_normalize (cn_free_days c) {} (cn_tiers c)) (\<lambda>ts.
        Inr (c\<lparr>cn_tiers := sort_key (\<lambda>t. - pt_min_days t) ts\<rparr>)))"

definition tier_for :: "cancellation_policy \<Rightarrow> int \<Rightarrow> penalty_tier option" where
  "tier_for c days =
     (if days \<ge> cn_free_days c then None
      else case find (\<lambda>t. days \<ge> pt_min_days t) (cn_tiers c) of
             Some t \<Rightarrow> Some t
           | None \<Rightarrow> Some \<lparr>pt_min_days = 0, pt_kind = ''percent'', pt_value = 100\<rparr>)"

definition tier_charge :: "penalty_tier \<Rightarrow> int list \<Rightarrow> int" where
  "tier_charge t nightly =
     (if pt_kind t = ''nights'' then sum64 (take (nat (min (pt_value t) (int (length nightly)))) nightly)
      else round_div (mul64 (sum64 nightly) (pt_value t)) 100)"

definition cancel_penalty :: "cancellation_policy \<Rightarrow> int \<Rightarrow> int list \<Rightarrow> int" where
  "cancel_penalty c days nightly = (case tier_for c days of None \<Rightarrow> 0 | Some t \<Rightarrow> tier_charge t nightly)"

definition no_show_penalty :: "cancellation_policy \<Rightarrow> int list \<Rightarrow> int" where
  "no_show_penalty c nightly = round_div (mul64 (sum64 nightly) (cn_no_show c)) 100"

definition free_until :: "cancellation_policy \<Rightarrow> go_time \<Rightarrow> go_time" where
  "free_until c check_in = add_date check_in 0 0 (- cn_free_days c)"

section \<open>Hotels\<close>

record hotel_location =
  lo_city :: string
  lo_country :: string
  lo_district :: string
  lo_latitude :: "string option"
  lo_longitude :: "string option"
  lo_landmark :: string
  lo_distance :: int

record hotel_contact =
  hc_name :: string
  hc_phone :: string
  hc_email :: string
  hc_reservations :: string

record hotel =
  h_id :: uuid
  h_branch :: uuid
  h_name :: string
  h_name_ar :: string
  h_stars :: int
  h_location :: hotel_location
  h_contact :: hotel_contact
  h_room_types :: "string list"
  h_meal_plans :: "string list"
  h_currency :: string
  h_markup :: markup
  h_child_policy :: child_policy
  h_cancellation :: cancellation_policy
  h_notes :: string
  h_active :: bool
  h_created :: go_time
  h_updated :: go_time

definition supports :: "hotel \<Rightarrow> string \<Rightarrow> string \<Rightarrow> bool" where
  "supports h room meal \<longleftrightarrow> room \<in> set (h_room_types h) \<and> meal \<in> set (h_meal_plans h)"

text \<open>The patterns \<open>^[A-Z]{3}$\<close> and \<open>^\+?[0-9][0-9 ()-]{5,19}$\<close>.\<close>

definition phone_pattern :: "string \<Rightarrow> bool" where
  "phone_pattern s =
     (let r = (if has_prefix s ''+'' then tl s else s) in
      r \<noteq> [] \<and> is_digit (hd r) \<and> 5 \<le> length (tl r) \<and> length (tl r) \<le> 19
      \<and> list_all (\<lambda>c. is_digit c \<or> c \<in> {CHR '' '', CHR ''('', CHR '')'', CHR ''-''}) (tl r))"

definition valid_email :: "(string \<Rightarrow> string option) \<Rightarrow> string \<Rightarrow> bool" where
  "valid_email parse_address s \<longleftrightarrow> parse_address s = Some s"

definition normalize_location :: "hotel_location \<Rightarrow> fields \<Rightarrow> fields \<times> hotel_location" where
  "normalize_location l f =
     (let city = clip (lo_city l) 80
      in (field_check (city = []) ''city'' ''required'' f,
          \<lparr>lo_city = city, lo_country = clip (join '' '' (fields_of (lo_country l))) 80, lo_district = clip (lo_district l) 120,
           lo_latitude = None, lo_longitude = None, lo_landmark = [], lo_distance = 0\<rparr>))"

definition normalize_contact :: "(string \<Rightarrow> string option) \<Rightarrow> hotel_contact \<Rightarrow> fields \<Rightarrow> fields \<times> hotel_contact" where
  "normalize_contact pa c f =
     (let c = \<lparr>hc_name = clip (hc_name c) 120, hc_phone = trim_space (hc_phone c), hc_email = to_lower (trim_space (hc_email c)),
                hc_reservations = to_lower (trim_space (hc_reservations c))\<rparr>;
          f = field_check (hc_phone c \<noteq> [] \<and> \<not> phone_pattern (hc_phone c)) ''sales_phone'' ''invalid phone number'' f;
          f = field_check (hc_email c \<noteq> [] \<and> \<not> valid_email pa (hc_email c)) ''sales_email'' ''invalid email'' f;
          f = field_check (hc_reservations c \<noteq> [] \<and> \<not> valid_email pa (hc_reservations c)) ''reservations_email'' ''invalid email'' f
      in (f, c))"

definition field_sum :: "string \<Rightarrow> (string + 'a) \<Rightarrow> 'a \<Rightarrow> fields \<Rightarrow> fields \<times> 'a" where
  "field_sum k r old f = (case r of Inl m \<Rightarrow> (field_add k m f, old) | Inr x \<Rightarrow> (f, x))"

definition hotel_normalize :: "(string \<Rightarrow> string option) \<Rightarrow> hotel \<Rightarrow> hotel result" where
  "hotel_normalize pa h =
     (let name = trim_space (h_name h); name_ar = trim_space (h_name_ar h); notes = trim_space (h_notes h);
          cur = to_upper (trim_space (h_currency h));
          f = field_check (rune_count name < 2 \<or> rune_count name > 160) ''name'' ''2-160 characters'' [];
          f = field_check (rune_count name_ar > 160) ''name_ar'' ''at most 160 characters'' f;
          f = field_check (h_stars h < 0 \<or> h_stars h > 5) ''stars'' ''0-5'' f;
          f = field_check (rune_count notes > 4000) ''notes'' ''at most 4000 characters'' f;
          f = field_check (\<not> currency_pattern cur) ''currency'' ''ISO 4217 code'' f;
          (f, l) = normalize_location (h_location h) f;
          (f, c) = normalize_contact pa (h_contact h) f;
          rooms = normalize_set (h_room_types h) room_types;
          meals = normalize_set (h_meal_plans h) meal_plans;
          f = field_check (rooms = []) ''room_types'' ''choose at least one room type'' f;
          f = field_check (meals = []) ''meal_plans'' ''choose at least one meal plan'' f;
          (f, m) = field_sum ''markup'' (markup_normalize (h_markup h)) (h_markup h) f;
          (f, cp) = field_sum ''child_policy'' (child_policy_normalize (h_child_policy h)) (h_child_policy h) f;
          (f, cn) = field_sum ''cancellation'' (cancellation_normalize (h_cancellation h)) (h_cancellation h) f
      in case fields_err ''invalid hotel'' f of
           Some e \<Rightarrow> Inl e
         | None \<Rightarrow> Inr (h\<lparr>h_name := name, h_name_ar := name_ar, h_notes := notes, h_currency := cur, h_location := l, h_contact := c,
                          h_room_types := rooms, h_meal_plans := meals, h_markup := m, h_child_policy := cp, h_cancellation := cn\<rparr>))"

section \<open>Seasons\<close>

record rate =
  rt_room :: string
  rt_meal :: string
  rt_single :: int
  rt_double :: int
  rt_triple :: int
  rt_quad :: int

definition per_person :: "rate \<Rightarrow> int \<Rightarrow> int" where
  "per_person r adults =
     (if adults = 1 then rt_single r else if adults = 2 then rt_double r
      else if adults = 3 then rt_triple r else if adults = 4 then rt_quad r else 0)"

definition adult_reference :: "rate \<Rightarrow> int" where
  "adult_reference r = (if rt_double r > 0 then rt_double r else rt_single r)"

record season =
  se_id :: uuid
  se_hotel :: uuid
  se_name :: string
  se_kind :: string
  se_start :: go_time
  se_end :: go_time
  se_markup :: "markup option"
  se_rates :: "rate list"
  se_created :: go_time
  se_updated :: go_time

definition season_kinds :: "string list" where "season_kinds = [''low'', ''shoulder'', ''high'', ''peak'']"

definition clean_rate :: "rate \<Rightarrow> rate" where
  "clean_rate r = r\<lparr>rt_room := to_lower (trim_space (rt_room r)), rt_meal := to_lower (trim_space (rt_meal r))\<rparr>"

definition amount_bad :: "int \<Rightarrow> bool" where "amount_bad x \<longleftrightarrow> x < 0 \<or> x > max_money_amount"

text \<open>The loop over the cleaned rates; a row is known by its room type and meal plan.\<close>

definition rate_key :: "rate \<Rightarrow> string" where "rate_key r = rt_room r @ ''/'' @ rt_meal r"

definition rate_problem :: "hotel \<Rightarrow> string set \<Rightarrow> rate \<Rightarrow> string option" where
  "rate_problem h seen r =
     (if \<not> supports h (rt_room r) (rt_meal r) then Some (rate_key r @ '' is not offered by the hotel'')
      else if rate_key r \<in> seen then Some (rate_key r @ '' is listed twice'')
      else if amount_bad (rt_single r) \<or> amount_bad (rt_double r) \<or> amount_bad (rt_triple r) \<or> amount_bad (rt_quad r)
      then Some (rate_key r @ '' has an amount out of range'')
      else if rt_single r = 0 \<and> rt_double r = 0 \<and> rt_triple r = 0 \<and> rt_quad r = 0
      then Some (rate_key r @ '' needs at least one price'')
      else None)"

primrec check_rates :: "hotel \<Rightarrow> string set \<Rightarrow> rate list \<Rightarrow> fields \<Rightarrow> fields" where
  "check_rates h seen [] f = f"
| "check_rates h seen (r # rs) f =
     check_rates h (insert (rate_key r) seen) rs (case rate_problem h seen r of None \<Rightarrow> f | Some m \<Rightarrow> field_add ''rates'' m f)"

definition season_normalize :: "hotel \<Rightarrow> season \<Rightarrow> season result" where
  "season_normalize h s =
     (let kind = to_lower (trim_space (se_kind s)); name = clip (se_name s) 80; rates = map clean_rate (se_rates s);
          f = field_check (kind \<notin> set season_kinds) ''kind'' ''low, shoulder, high or peak'' [];
          f = field_check (name = []) ''name'' ''required'' f;
          f = valid_range (se_start s) (se_end s) f;
          (f, m) = (case se_markup s of None \<Rightarrow> (f, None)
                    | Some m \<Rightarrow> (let (f, m') = field_sum ''markup'' (markup_normalize m) m f in (f, Some m')));
          f = field_check (rates = []) ''rates'' ''add at least one rate'' f;
          f = check_rates h {} rates f
      in case fields_err ''invalid season'' f of
           Some e \<Rightarrow> Inl e
         | None \<Rightarrow> Inr (s\<lparr>se_kind := kind, se_name := name, se_markup := m,
                          se_rates := sort_key (\<lambda>r. index_of room_types (rt_room r) * 8 + index_of meal_plans (rt_meal r)) rates\<rparr>))"

definition season_covers :: "season \<Rightarrow> go_time \<Rightarrow> bool" where
  "season_covers s day = covers (se_start s) (se_end s) day"

definition overlaps :: "season \<Rightarrow> season \<Rightarrow> bool" where
  "overlaps s o' \<longleftrightarrow> se_id s \<noteq> se_id o' \<and> \<not> before (se_end s) (se_start o') \<and> \<not> before (se_end o') (se_start s)"

definition rate_for :: "season \<Rightarrow> string \<Rightarrow> string \<Rightarrow> rate option" where
  "rate_for s room meal = find (\<lambda>r. rt_room r = room \<and> rt_meal r = meal) (se_rates s)"

definition markup_for :: "season \<Rightarrow> hotel \<Rightarrow> markup" where
  "markup_for s h = (case se_markup s of Some m \<Rightarrow> m | None \<Rightarrow> h_markup h)"

definition ensure_no_overlap :: "season \<Rightarrow> season list \<Rightarrow> error option" where
  "ensure_no_overlap c existing =
     (case find (overlaps c) existing of
        None \<Rightarrow> None
      | Some x \<Rightarrow> Some (with_details (new_conflict (''season dates overlap '' @ se_name x)) [(''start_date'', [''overlaps '' @ se_name x])]))"

definition season_on :: "season list \<Rightarrow> go_time \<Rightarrow> season option" where
  "season_on seasons day = find (\<lambda>s. season_covers s day) seasons"

section \<open>Allotments\<close>

record allotment =
  al_id :: uuid
  al_hotel :: uuid
  al_room :: string
  al_kind :: string
  al_start :: go_time
  al_end :: go_time
  al_rooms :: int
  al_sold :: int
  al_release :: int
  al_notes :: string
  al_created :: go_time
  al_updated :: go_time

datatype allot_status = AllotOpen | AllotReleased | AllotSoldOut | AllotExpired

definition allotment_normalize :: "hotel \<Rightarrow> allotment \<Rightarrow> allotment result" where
  "allotment_normalize h a =
     (let room = to_lower (trim_space (al_room a)); kind = to_lower (trim_space (al_kind a)); notes = clip (al_notes a) 500;
          f = field_check (room \<notin> set (h_room_types h)) ''room_type'' ''not offered by the hotel'' [];
          f = field_check (kind \<noteq> ''guaranteed'' \<and> kind \<noteq> ''on_request'') ''kind'' ''guaranteed or on_request'' f;
          f = valid_range (al_start a) (al_end a) f;
          f = field_check (al_rooms a < 1 \<or> al_rooms a > 10000) ''rooms'' ''1-10000'' f;
          f = field_check (al_sold a < 0 \<or> al_sold a > al_rooms a) ''sold'' ''0 up to rooms'' f;
          f = field_check (al_release a < 0 \<or> al_release a > 90) ''release_days'' ''0-90'' f
      in case fields_err ''invalid allotment'' f of
           Some e \<Rightarrow> Inl e
         | None \<Rightarrow> Inr (a\<lparr>al_room := room, al_kind := kind, al_notes := notes,
                          al_release := (if kind = ''on_request'' then 0 else al_release a)\<rparr>))"

definition release_date :: "allotment \<Rightarrow> go_time" where
  "release_date a = add_date (al_start a) 0 0 (- al_release a)"

definition allot_status :: "allotment \<Rightarrow> go_time \<Rightarrow> allot_status" where
  "allot_status a today =
     (if after today (al_end a) then AllotExpired
      else if al_sold a \<ge> al_rooms a then AllotSoldOut
      else if al_kind a = ''guaranteed'' \<and> \<not> before today (release_date a) then AllotReleased
      else AllotOpen)"

definition available :: "allotment \<Rightarrow> go_time \<Rightarrow> int" where
  "available a today = (if allot_status a today \<noteq> AllotOpen then 0 else sub64 (al_rooms a) (al_sold a))"

definition adjust_sold :: "allotment \<Rightarrow> int \<Rightarrow> go_time \<Rightarrow> allotment result" where
  "adjust_sold a delta now =
     (if delta = 0 then Inl (new_validation ''delta must not be zero'')
      else let next = add64 (al_sold a) delta in
        if next < 0 then Inl (new_invalid_state ''cannot return more rooms than were sold'')
        else if next > al_rooms a then Inl (new_invalid_state ''not enough rooms left in the allotment'')
        else Inr (a\<lparr>al_sold := next, al_updated := now\<rparr>))"

definition allot_covers :: "allotment \<Rightarrow> go_time \<Rightarrow> string \<Rightarrow> bool" where
  "allot_covers a day room \<longleftrightarrow> al_room a = room \<and> covers (al_start a) (al_end a) day"

section \<open>Stop sales and the monthly sheet\<close>

record stop_sale =
  so_id :: uuid
  so_hotel :: uuid
  so_start :: go_time
  so_end :: go_time
  so_room :: string
  so_reason :: string
  so_by :: "uuid option"
  so_created :: go_time

definition stop_sale_normalize :: "hotel \<Rightarrow> stop_sale \<Rightarrow> stop_sale result" where
  "stop_sale_normalize h s =
     (let room = to_lower (trim_space (so_room s)); reason = clip (so_reason s) 300;
          f = field_check (room \<noteq> [] \<and> room \<notin> set (h_room_types h)) ''room_type'' ''not offered by the hotel'' [];
          f = valid_range (so_start s) (so_end s) f
      in case fields_err ''invalid stop sale'' f of Some e \<Rightarrow> Inl e | None \<Rightarrow> Inr (s\<lparr>so_room := room, so_reason := reason\<rparr>))"

definition stop_covers :: "stop_sale \<Rightarrow> go_time \<Rightarrow> string \<Rightarrow> bool" where
  "stop_covers s day room \<longleftrightarrow> (so_room s = [] \<or> so_room s = room) \<and> covers (so_start s) (so_end s) day"

record monthly_rate =
  mo_hotel :: uuid
  mo_year :: int
  mo_month :: int
  mo_room :: string
  mo_net :: int
  mo_sell :: int

definition sheet_cell :: "hotel \<Rightarrow> int \<Rightarrow> monthly_rate \<Rightarrow> monthly_rate" where
  "sheet_cell h year r = r\<lparr>mo_year := year, mo_hotel := h_id h, mo_room := to_lower (trim_space (mo_room r))\<rparr>"

definition cell_key :: "monthly_rate \<Rightarrow> string" where "cell_key r = mo_room r @ ''/'' @ show_int (mo_month r)"

definition cell_problem :: "hotel \<Rightarrow> string set \<Rightarrow> monthly_rate \<Rightarrow> (string \<times> string) option" where
  "cell_problem h seen r =
     (if mo_month r < 1 \<or> mo_month r > 12 then Some (''month'', ''1-12'')
      else if mo_room r \<notin> set (h_room_types h) then Some (''room_type'', mo_room r @ '' is not offered'')
      else if amount_bad (mo_net r) \<or> amount_bad (mo_sell r) then Some (''rates'', mo_room r @ '' has an amount out of range'')
      else if \<not> (mo_net r = 0 \<and> mo_sell r = 0) \<and> cell_key r \<in> seen then Some (''rates'', cell_key r @ '' is listed twice'')
      else None)"

text \<open>A cell without prices is left out.\<close>

primrec year_sheet_loop :: "hotel \<Rightarrow> int \<Rightarrow> string set \<Rightarrow> monthly_rate list \<Rightarrow> fields \<Rightarrow> monthly_rate list \<times> fields" where
  "year_sheet_loop h year seen [] f = ([], f)"
| "year_sheet_loop h year seen (r0 # rs) f =
     (let r = sheet_cell h year r0 in
      case cell_problem h seen r of
        Some (k, m) \<Rightarrow> year_sheet_loop h year seen rs (field_add k m f)
      | None \<Rightarrow>
          if mo_net r = 0 \<and> mo_sell r = 0 then year_sheet_loop h year seen rs f
          else (let (out, f) = year_sheet_loop h year (insert (cell_key r) seen) rs f in (r # out, f)))"

definition normalize_year_sheet :: "hotel \<Rightarrow> int \<Rightarrow> monthly_rate list \<Rightarrow> monthly_rate list result" where
  "normalize_year_sheet h year rates =
     (let (out, f) = year_sheet_loop h year {} rates (field_check (year < 2020 \<or> year > 2100) ''year'' ''2020-2100'' [])
      in case fields_err ''invalid monthly rates'' f of Some e \<Rightarrow> Inl e | None \<Rightarrow> Inr out)"

definition monthly_on :: "monthly_rate list \<Rightarrow> go_time \<Rightarrow> string \<Rightarrow> monthly_rate option" where
  "monthly_on rates day room =
     (let (y, m, _) = time_date day in find (\<lambda>r. mo_year r = y \<and> mo_month r = m \<and> mo_room r = room) rates)"

end
