(* ===== verification/Hotel_Quote.thy ===== *)
theory Hotel_Quote
  imports Hotel
begin

text \<open>
  \<^verbatim>\<open>internal/domain/hotel/quote.go\<close>: pricing a stay from the contract of a hotel. Amounts are 64-bit; the theorems
  compare them with the same prices in unbounded integers.
\<close>

section \<open>Requests\<close>

record kid =
  kid_age :: int
  kid_bed :: bool

record quote_request =
  qr_check_in :: go_time
  qr_check_out :: go_time
  qr_room :: string
  qr_meal :: string
  qr_rooms :: int
  qr_adults :: int
  qr_children :: "kid list"
  qr_extra_bed :: bool
  qr_today :: go_time

text \<open>The loop over the children: ages out of range are reported, those priced as adults are counted as adults.\<close>

primrec split_kids :: "child_policy \<Rightarrow> kid list \<Rightarrow> int \<Rightarrow> fields \<Rightarrow> kid list \<times> int \<times> fields" where
  "split_kids p [] adults f = ([], adults, f)"
| "split_kids p (c # cs) adults f =
     (if kid_age c < 0 \<or> kid_age c > 17 then split_kids p cs adults (field_add ''children'' ''ages are 0-17'' f)
      else if child_band p (kid_age c) = BandAdult then split_kids p cs (add64 adults 1) f
      else (let (kids, adults, f) = split_kids p cs adults f in (c # kids, adults, f)))"

definition request_normalize :: "hotel \<Rightarrow> quote_request \<Rightarrow> quote_request result" where
  "request_normalize h r =
     (let nights = days_between (qr_check_in r) (qr_check_out r);
          f = (if is_zero (qr_check_in r) \<or> is_zero (qr_check_out r) then field_add ''check_in'' ''check_in and check_out are required'' []
               else if nights < 1 then field_add ''check_out'' ''must be after check_in'' []
               else if nights > 60 then field_add ''check_out'' ''stays are limited to 60 nights'' [] else []);
          rooms = (if qr_rooms r = 0 then 1 else qr_rooms r);
          f = field_check (rooms < 1 \<or> rooms > 50) ''rooms'' ''1-50'' f;
          f = field_check (\<not> supports h (qr_room r) (qr_meal r)) ''room_type'' ''room type or meal plan not offered'' f;
          f = field_check (length (qr_children r) > 4) ''children'' ''at most 4 per room'' f;
          (kids, adults, f) = split_kids (h_child_policy h) (qr_children r) (qr_adults r) f;
          f = field_check (adults < 1 \<or> adults > 4) ''adults'' ''1-4 per room, counting children priced as adults'' f
      in case fields_err ''invalid quote request'' f of
           Some e \<Rightarrow> Inl e
         | None \<Rightarrow> Inr (r\<lparr>qr_rooms := rooms, qr_children := kids, qr_adults := adults\<rparr>))"

section \<open>Nights\<close>

record quote_night =
  qn_date :: string
  qn_season :: string
  qn_kind :: string
  qn_net :: int
  qn_gross :: int
  qn_priced :: bool
  qn_stop :: bool

record child_line =
  cl_age :: int
  cl_band :: band
  cl_bed :: bool
  cl_net :: int

definition blank_night :: "go_time \<Rightarrow> quote_night" where
  "blank_night day = \<lparr>qn_date = format_date day, qn_season = [], qn_kind = [], qn_net = 0, qn_gross = 0, qn_priced = False, qn_stop = False\<rparr>"

definition kid_lines :: "hotel \<Rightarrow> rate \<Rightarrow> kid list \<Rightarrow> child_line list" where
  "kid_lines h rate kids =
     map (\<lambda>c. let (band, net, _) = child_charge (h_child_policy h) (kid_age c) (kid_bed c) (adult_reference rate)
              in \<lparr>cl_age = kid_age c, cl_band = band, cl_bed = kid_bed c, cl_net = net\<rparr>) kids"

text \<open>The price of one room for a night, and how many guests pay.\<close>

definition room_price :: "hotel \<Rightarrow> quote_request \<Rightarrow> rate \<Rightarrow> int \<times> int" where
  "room_price h req rate =
     (let room_net = mul64 (per_person rate (qr_adults req)) (qr_adults req);
          paying = qr_adults req;
          (room_net, paying) = (if qr_extra_bed req then (add64 room_net (cp_extra_bed (h_child_policy h)), add64 paying 1) else (room_net, paying))
      in foldl (\<lambda>(n, p) l. (add64 n (cl_net l), if cl_net l > 0 then add64 p 1 else p)) (room_net, paying)
           (kid_lines h rate (qr_children req)))"

definition price_night :: "hotel \<Rightarrow> season list \<Rightarrow> monthly_rate list \<Rightarrow> quote_request \<Rightarrow> go_time \<Rightarrow> quote_night \<times> child_line list" where
  "price_night h seasons monthly req day =
     (let n = blank_night day; rooms = qr_rooms req in
      case (case monthly_on monthly day (qr_room req) of None \<Rightarrow> None | Some m \<Rightarrow> if mo_sell m > 0 \<or> mo_net m > 0 then Some m else None) of
        Some m \<Rightarrow>
          let net = mul64 (mo_net m) rooms; gross = mul64 (mo_sell m) rooms; bed = mul64 (cp_extra_bed (h_child_policy h)) rooms
          in (n\<lparr>qn_priced := True, qn_net := (if qr_extra_bed req then add64 net bed else net),
                qn_gross := (if qr_extra_bed req then add64 gross bed else gross)\<rparr>, [])
      | None \<Rightarrow>
          (case season_on seasons day of
             None \<Rightarrow> (n, [])
           | Some s \<Rightarrow>
               let n = n\<lparr>qn_season := se_name s, qn_kind := se_kind s\<rparr> in
               (case rate_for s (qr_room req) (qr_meal req) of
                  None \<Rightarrow> (n, [])
                | Some rate \<Rightarrow>
                    if per_person rate (qr_adults req) \<le> 0 then (n, [])
                    else let (room_net, paying) = room_price h req rate
                         in (n\<lparr>qn_priced := True, qn_net := mul64 room_net rooms,
                               qn_gross := mul64 (markup_apply (markup_for s h) room_net paying) rooms\<rparr>,
                             kid_lines h rate (qr_children req)))))"

definition guaranteed_left :: "allotment list \<Rightarrow> go_time \<Rightarrow> string \<Rightarrow> go_time \<Rightarrow> int" where
  "guaranteed_left allotments day room today =
     foldl (\<lambda>left a. if al_kind a = ''guaranteed'' \<and> allot_covers a day room then add64 left (available a today) else left) 0 allotments"

lemma nanos_add_date_days: "nanos (add_date t 0 0 k) = nanos t + k * day_ns"
proof -
  obtain y m d where c: "civil (day_of t) = (y, m, d)" by (metis prod_cases3)
  have "day_number y m (d + k) = day_of t + k" using day_number_civil [OF c] by (simp add: day_number_def Let_def)
  then have "nanos (add_date t 0 0 k) = (day_of t + k) * day_ns + (nanos t + zone t) mod day_ns - zone t"
    by (simp add: add_date_def time_date_def c)
  also have "\<dots> = day_of t * day_ns + (nanos t + zone t) mod day_ns - zone t + k * day_ns" by (simp add: algebra_simps)
  finally show ?thesis by (simp add: day_of_def)
qed

text \<open>The days of the loop over the nights.\<close>

function stay_days :: "go_time \<Rightarrow> go_time \<Rightarrow> go_time list" where
  "stay_days day check_out = (if before day check_out then day # stay_days (add_date day 0 0 1) check_out else [])"
  by pat_completeness auto
termination
  by (relation "measure (\<lambda>(day, check_out). nat (nanos check_out - nanos day))") (auto simp: before_def nanos_add_date_days)

declare stay_days.simps [simp del]

section \<open>Quotes\<close>

record penalty_line =
  pl_min_days :: int
  pl_kind :: string
  pl_value :: int
  pl_amount :: int
  pl_from :: string

record outlook =
  ol_free_until :: string
  ol_free_now :: bool
  ol_today :: int
  ol_tiers :: "penalty_line list"
  ol_no_show :: int

definition first_free_below :: "cancellation_policy \<Rightarrow> int \<Rightarrow> int" where
  "first_free_below p min_days =
     foldl (\<lambda>upper t. if pt_min_days t > min_days \<and> pt_min_days t < upper then pt_min_days t else upper) (cn_free_days p) (cn_tiers p)"

definition outlook_of :: "cancellation_policy \<Rightarrow> go_time \<Rightarrow> go_time \<Rightarrow> int list \<Rightarrow> outlook" where
  "outlook_of p check_in today nightly =
     (let days = days_between today check_in in
      \<lparr>ol_free_until = format_date (free_until p check_in), ol_free_now = (tier_for p days = None),
       ol_today = cancel_penalty p days nightly,
       ol_tiers = map (\<lambda>t. \<lparr>pl_min_days = pt_min_days t, pl_kind = pt_kind t, pl_value = pt_value t, pl_amount = tier_charge t nightly,
           pl_from = format_date (add_date check_in 0 0 (- (first_free_below p (pt_min_days t) - 1)))\<rparr>) (cn_tiers p),
       ol_no_show = no_show_penalty p nightly\<rparr>)"

datatype availability = AvailInstant | AvailOnRequest | AvailStopSale | AvailUnavailable

record quote =
  q_currency :: string
  q_check_in :: string
  q_check_out :: string
  q_nights :: int
  q_rooms :: int
  q_adults :: int
  q_guests :: int
  q_room :: string
  q_meal :: string
  q_net :: int
  q_gross :: int
  q_profit :: int
  q_bookable :: bool
  q_availability :: availability
  q_left :: int
  q_missing :: "string list"
  q_stop_dates :: "string list"
  q_children :: "child_line list"
  q_detail :: "quote_night list"
  q_cancellation :: outlook

definition stopped :: "stop_sale list \<Rightarrow> string \<Rightarrow> go_time \<Rightarrow> bool" where
  "stopped stops room day \<longleftrightarrow> list_ex (\<lambda>s. stop_covers s day room) stops"

definition quote_day ::
  "hotel \<Rightarrow> season list \<Rightarrow> stop_sale list \<Rightarrow> monthly_rate list \<Rightarrow> quote_request \<Rightarrow> go_time \<Rightarrow> quote_night \<times> child_line list" where
  "quote_day h seasons stops monthly req day =
     (let (n, lines) = price_night h seasons monthly req day
      in (if stopped stops (qr_room req) day then n\<lparr>qn_stop := True\<rparr> else n, lines))"

definition least_left :: "allotment list \<Rightarrow> quote_request \<Rightarrow> go_time list \<Rightarrow> int" where
  "least_left allotments req days =
     foldl (\<lambda>left day. let a = guaranteed_left allotments day (qr_room req) (qr_today req) in if left < 0 \<or> a < left then a else left) (- 1) days"

text \<open>Children are recorded on the first night that prices any.\<close>

definition recorded_kids :: "(quote_night \<times> child_line list) list \<Rightarrow> child_line list" where
  "recorded_kids nights = foldl (\<lambda>kids (_, lines). if kids = [] then lines else kids) [] nights"

definition quote_availability :: "bool \<Rightarrow> bool \<Rightarrow> bool \<Rightarrow> availability" where
  "quote_availability stop missing enough =
     (if stop then AvailStopSale else if missing then AvailUnavailable else if enough then AvailInstant else AvailOnRequest)"

definition price_request ::
  "hotel \<Rightarrow> season list \<Rightarrow> allotment list \<Rightarrow> stop_sale list \<Rightarrow> monthly_rate list \<Rightarrow> quote_request \<Rightarrow> quote" where
  "price_request h seasons allotments stops monthly req =
     (let days = stay_days (qr_check_in req) (qr_check_out req);
          nights = map (quote_day h seasons stops monthly req) days;
          detail = map fst nights;
          guests = mul64 (add64 (qr_adults req) (int (length (qr_children req)))) (qr_rooms req);
          net = sum64 (map qn_net detail); gross = sum64 (map qn_gross detail);
          stop_dates = map qn_date (filter qn_stop detail);
          missing = map qn_date (filter (\<lambda>n. \<not> qn_priced n) detail);
          left = max (least_left allotments req days) 0
      in \<lparr>q_currency = h_currency h, q_check_in = format_date (qr_check_in req), q_check_out = format_date (qr_check_out req),
          q_nights = int (length detail), q_rooms = qr_rooms req, q_adults = qr_adults req,
          q_guests = (if qr_extra_bed req then add64 guests (qr_rooms req) else guests),
          q_room = qr_room req, q_meal = qr_meal req, q_net = net, q_gross = gross, q_profit = sub64 gross net,
          q_bookable = (missing = [] \<and> stop_dates = []),
          q_availability = quote_availability (stop_dates \<noteq> []) (missing \<noteq> []) (left \<ge> qr_rooms req),
          q_left = left, q_missing = missing, q_stop_dates = stop_dates, q_children = recorded_kids nights, q_detail = detail,
          q_cancellation = outlook_of (h_cancellation h) (qr_check_in req) (qr_today req) (map qn_gross detail)\<rparr>)"

definition price ::
  "hotel \<Rightarrow> season list \<Rightarrow> allotment list \<Rightarrow> stop_sale list \<Rightarrow> quote_request \<Rightarrow> monthly_rate list \<Rightarrow> quote result" where
  "price h seasons allotments stops req monthly =
     (if \<not> h_active h then Inl (new_invalid_state ''hotel is inactive'')
      else case request_normalize h req of
             Inl e \<Rightarrow> Inl e
           | Inr req \<Rightarrow> Inr (price_request h seasons allotments stops monthly req))"

section \<open>Sound contracts\<close>

definition markup_ok :: "markup \<Rightarrow> bool" where
  "markup_ok m \<longleftrightarrow> (mk_kind m = ''percent'' \<and> 0 \<le> mk_value m \<and> mk_value m \<le> 50000)
     \<or> (mk_kind m = ''fixed'' \<and> 0 \<le> mk_value m \<and> mk_value m \<le> max_money_amount)"

definition child_rule_ok :: "child_rule \<Rightarrow> bool" where
  "child_rule_ok r \<longleftrightarrow> cr_mode r = ''free'' \<or> (cr_mode r = ''percent'' \<and> 0 \<le> cr_value r \<and> cr_value r \<le> 100)
     \<or> (cr_mode r = ''fixed'' \<and> 0 \<le> cr_value r \<and> cr_value r \<le> max_money_amount)"

definition child_policy_ok :: "child_policy \<Rightarrow> bool" where
  "child_policy_ok p \<longleftrightarrow> 1 \<le> cp_infant_max p \<and> cp_infant_max p < cp_child1_max p \<and> cp_child1_max p < cp_child2_max p \<and> cp_child2_max p \<le> 18
     \<and> child_rule_ok (cp_infant p) \<and> child_rule_ok (cp_child1 p) \<and> child_rule_ok (cp_child2_bed p) \<and> child_rule_ok (cp_child2_no_bed p)
     \<and> \<not> amount_bad (cp_extra_bed p)"

definition tier_ok :: "int \<Rightarrow> penalty_tier \<Rightarrow> bool" where
  "tier_ok free t \<longleftrightarrow> 0 \<le> pt_min_days t \<and> pt_min_days t < free
     \<and> (pt_kind t = ''nights'' \<and> 1 \<le> pt_value t \<and> pt_value t \<le> 60 \<or> pt_kind t = ''percent'' \<and> 1 \<le> pt_value t \<and> pt_value t \<le> 100)"

definition cancellation_ok :: "cancellation_policy \<Rightarrow> bool" where
  "cancellation_ok c \<longleftrightarrow> 0 \<le> cn_free_days c \<and> cn_free_days c \<le> 365 \<and> 0 \<le> cn_no_show c \<and> cn_no_show c \<le> 100
     \<and> list_all (tier_ok (cn_free_days c)) (cn_tiers c) \<and> sorted_wrt (\<lambda>a b. pt_min_days b < pt_min_days a) (cn_tiers c)"

definition rate_ok :: "rate \<Rightarrow> bool" where
  "rate_ok r \<longleftrightarrow> \<not> amount_bad (rt_single r) \<and> \<not> amount_bad (rt_double r) \<and> \<not> amount_bad (rt_triple r) \<and> \<not> amount_bad (rt_quad r)"

definition season_ok :: "season \<Rightarrow> bool" where
  "season_ok s \<longleftrightarrow> list_all rate_ok (se_rates s) \<and> (case se_markup s of None \<Rightarrow> True | Some m \<Rightarrow> markup_ok m)
     \<and> \<not> before (se_end s) (se_start s)"

definition hotel_ok :: "hotel \<Rightarrow> bool" where
  "hotel_ok h \<longleftrightarrow> markup_ok (h_markup h) \<and> child_policy_ok (h_child_policy h) \<and> cancellation_ok (h_cancellation h)"

definition monthly_ok :: "monthly_rate \<Rightarrow> bool" where
  "monthly_ok m \<longleftrightarrow> \<not> amount_bad (mo_net m) \<and> \<not> amount_bad (mo_sell m)"

definition contract_ok :: "hotel \<Rightarrow> season list \<Rightarrow> monthly_rate list \<Rightarrow> bool" where
  "contract_ok h seasons monthly \<longleftrightarrow> hotel_ok h \<and> list_all season_ok seasons \<and> list_all monthly_ok monthly"

definition request_ok :: "quote_request \<Rightarrow> bool" where
  "request_ok r \<longleftrightarrow> 1 \<le> qr_rooms r \<and> qr_rooms r \<le> 50 \<and> 1 \<le> qr_adults r \<and> qr_adults r \<le> 4 \<and> length (qr_children r) \<le> 4
     \<and> length (stay_days (qr_check_in r) (qr_check_out r)) \<le> 61"

section \<open>The exact prices\<close>

definition exact_child :: "child_rule \<Rightarrow> int \<Rightarrow> int" where
  "exact_child r adult =
     (if cr_mode r = ''percent'' then round_half_away (adult * cr_value r) 100 else if cr_mode r = ''fixed'' then cr_value r else 0)"

definition exact_kid :: "child_policy \<Rightarrow> rate \<Rightarrow> kid \<Rightarrow> int" where
  "exact_kid p rate c =
     (case child_band p (kid_age c) of
        BandInfant \<Rightarrow> exact_child (cp_infant p) (adult_reference rate)
      | BandChild1 \<Rightarrow> exact_child (cp_child1 p) (adult_reference rate)
      | BandChild2 \<Rightarrow> exact_child (if kid_bed c then cp_child2_bed p else cp_child2_no_bed p) (adult_reference rate)
      | BandAdult \<Rightarrow> 0)"

definition exact_room :: "hotel \<Rightarrow> quote_request \<Rightarrow> rate \<Rightarrow> int" where
  "exact_room h req rate = per_person rate (qr_adults req) * qr_adults req
     + (if qr_extra_bed req then cp_extra_bed (h_child_policy h) else 0)
     + (\<Sum>c \<leftarrow> qr_children req. exact_kid (h_child_policy h) rate c)"

definition exact_paying :: "hotel \<Rightarrow> quote_request \<Rightarrow> rate \<Rightarrow> int" where
  "exact_paying h req rate = qr_adults req + (if qr_extra_bed req then 1 else 0)
     + int (length (filter (\<lambda>c. exact_kid (h_child_policy h) rate c > 0) (qr_children req)))"

definition exact_gross :: "markup \<Rightarrow> int \<Rightarrow> int \<Rightarrow> int" where
  "exact_gross m net paying =
     (if mk_kind m = ''fixed'' then net + mk_value m * paying else net + round_half_away (net * mk_value m) 10000)"

lemma round_div_exact: "0 \<le> a \<Longrightarrow> 0 < b \<Longrightarrow> fits64 (a + b) \<Longrightarrow> round_div a b = round_half_away a b"
proof -
  assume a: "0 \<le> a" "0 < b" "fits64 (a + b)"
  have h: "0 \<le> b div 2" "b div 2 \<le> b" using a(2) by auto
  have "quo64 b 2 = b div 2" using a h by (auto simp: quo64_def quo_nonneg i64_id fits64_def)
  moreover have "add64 a (b div 2) = a + b div 2" using a h by (intro add64_id) (auto simp: fits64_def)
  moreover have "quo64 (a + b div 2) b = (a + b div 2) div b"
  proof -
    have "0 \<le> (a + b div 2) div b" "(a + b div 2) div b \<le> a + b div 2" using a h by (auto simp: pos_imp_zdiv_nonneg_iff intro: div_le_self_int)
    then show ?thesis using a h by (auto simp: quo64_def quo_nonneg i64_id fits64_def)
  qed
  ultimately show ?thesis using half_up_div [OF a(1,2)] by (simp add: round_div_def)
qed

interpretation hotel_rounding: half_away round_div "\<lambda>n d. 0 \<le> n \<and> 0 < d \<and> fits64 (n + d)"
  by unfold_locales (auto intro: round_div_exact)

lemma round_share_le:
  assumes "0 \<le> a" "0 \<le> v" "v \<le> k * d" "0 < d" "0 \<le> k"
  shows "0 \<le> round_half_away (a * v) d" "round_half_away (a * v) d \<le> a * k"
proof -
  have le: "a * v \<le> (a * k) * d" using assms mult_left_mono [of v "k * d" a] by (simp add: mult.assoc)
  show "0 \<le> round_half_away (a * v) d" using round_pos_bounds(3) assms by simp
  have "round_half_away (a * v) d \<le> round_half_away ((a * k) * d) d" using round_mono [of d "a * v" "(a * k) * d"] le assms by simp
  then show "round_half_away (a * v) d \<le> a * k" using round_exact [of d "a * k"] assms by simp
qed

lemma sum64_exact:
  assumes "\<And>x. x \<in> set xs \<Longrightarrow> 0 \<le> x \<and> x \<le> B" "int (length xs) * B \<le> 9223372036854775807"
  shows "sum64 xs = sum_list xs" "0 \<le> sum_list xs" "sum_list xs \<le> int (length xs) * B"
proof -
  have "0 \<le> sum_list xs \<and> sum_list xs \<le> int (length xs) * B" using assms(1)
  proof (induction xs)
    case (Cons x xs)
    then have "0 \<le> x" "x \<le> B" "0 \<le> sum_list xs" "sum_list xs \<le> int (length xs) * B" by auto
    then show ?case by (simp add: algebra_simps)
  qed simp
  then show b: "0 \<le> sum_list xs" "sum_list xs \<le> int (length xs) * B" by auto
  have "0 \<le> a \<Longrightarrow> a + sum_list ys \<le> 9223372036854775807 \<Longrightarrow> (\<forall>y \<in> set ys. 0 \<le> y) \<Longrightarrow> foldl add64 a ys = a + sum_list ys" for a ys
  proof (induction ys arbitrary: a)
    case (Cons y ys)
    have "0 \<le> sum_list ys" using Cons.prems(3) by (induction ys) auto
    then have "add64 a y = a + y" using Cons.prems by (intro add64_id) (auto simp: fits64_def)
    then show ?case using Cons by simp
  qed simp
  from this [of 0 xs] show "sum64 xs = sum_list xs" using b assms by (auto simp: sum64_def)
qed

lemma exact_child_bounds:
  assumes "child_rule_ok r" "0 \<le> a" "a \<le> max_money_amount"
  shows "child_rule_charge r a = exact_child r a" "0 \<le> exact_child r a" "exact_child r a \<le> max_money_amount"
proof -
  have p: "cr_mode r = ''percent'' \<Longrightarrow> 0 \<le> round_half_away (a * cr_value r) 100 \<and> round_half_away (a * cr_value r) 100 \<le> a"
    using round_share_le [of a "cr_value r" 1 100] assms by (auto simp: child_rule_ok_def)
  have m: "cr_mode r = ''percent'' \<Longrightarrow> 0 \<le> a * cr_value r \<and> a * cr_value r \<le> max_money_amount * 100"
    using assms by (auto simp: child_rule_ok_def intro!: mult_mono)
  then have "cr_mode r = ''percent'' \<Longrightarrow> mul64 a (cr_value r) = a * cr_value r"
    by (intro mul64_id) (auto simp: fits64_def max_money_amount_def)
  then show "child_rule_charge r a = exact_child r a" using m
    by (auto simp: child_rule_charge_def exact_child_def fits64_def max_money_amount_def intro!: round_div_exact)
  show "0 \<le> exact_child r a" "exact_child r a \<le> max_money_amount"
    using p assms by (auto simp: exact_child_def child_rule_ok_def max_money_amount_def)
qed

lemma kid_line_exact:
  assumes "child_policy_ok p" "rate_ok r"
  shows "fst (snd (child_charge p (kid_age c) (kid_bed c) (adult_reference r))) = exact_kid p r c"
    "0 \<le> exact_kid p r c" "exact_kid p r c \<le> max_money_amount"
proof -
  have a: "0 \<le> adult_reference r" "adult_reference r \<le> max_money_amount" using assms(2) by (auto simp: rate_ok_def amount_bad_def adult_reference_def)
  have ok: "child_rule_ok (cp_infant p)" "child_rule_ok (cp_child1 p)" "child_rule_ok (cp_child2_bed p)" "child_rule_ok (cp_child2_no_bed p)"
    using assms(1) by (auto simp: child_policy_ok_def)
  note e = exact_child_bounds [OF ok(1) a] exact_child_bounds [OF ok(2) a] exact_child_bounds [OF ok(3) a] exact_child_bounds [OF ok(4) a]
  show "fst (snd (child_charge p (kid_age c) (kid_bed c) (adult_reference r))) = exact_kid p r c"
    "0 \<le> exact_kid p r c" "exact_kid p r c \<le> max_money_amount"
    using e by (auto simp: child_charge_def exact_kid_def max_money_amount_def split: band.split)
qed

lemma kid_fold:
  assumes "\<And>x. x \<in> set ls \<Longrightarrow> 0 \<le> x \<and> x \<le> max_money_amount" "0 \<le> n" "n + int (length ls) * max_money_amount \<le> 9000000000000"
    "0 \<le> p" "p + int (length ls) \<le> 100"
  shows "foldl (\<lambda>(n, p) x. (add64 n x, if x > 0 then add64 p 1 else p)) (n, p) ls
    = (n + sum_list ls, p + int (length (filter (\<lambda>x. x > 0) ls)))"
  using assms
proof (induction ls arbitrary: n p)
  case (Cons x ls)
  have x: "0 \<le> x" "x \<le> max_money_amount" using Cons.prems(1) by auto
  have "add64 n x = n + x" "add64 p 1 = p + 1"
    using Cons.prems(2-) x by (auto intro!: add64_id simp: fits64_def max_money_amount_def)
  moreover have "foldl (\<lambda>(n, p) x. (add64 n x, if x > 0 then add64 p 1 else p)) (n + x, if x > 0 then p + 1 else p) ls
      = (n + x + sum_list ls, (if x > 0 then p + 1 else p) + int (length (filter (\<lambda>x. x > 0) ls)))"
  proof (rule Cons.IH)
    show "n + x + int (length ls) * max_money_amount \<le> 9000000000000" using Cons.prems(3) x by (auto simp: max_money_amount_def)
  qed (use Cons.prems x in auto)
  ultimately show ?case by (auto simp: algebra_simps)
qed simp

lemma room_price_exact:
  assumes h: "child_policy_ok (h_child_policy h)" and r: "rate_ok rate" and q: "request_ok req"
  shows "room_price h req rate = (exact_room h req rate, exact_paying h req rate)"
    "0 \<le> exact_room h req rate" "exact_room h req rate \<le> 9 * max_money_amount" "1 \<le> exact_paying h req rate" "exact_paying h req rate \<le> 9"
proof -
  let ?ks = "map (exact_kid (h_child_policy h) rate) (qr_children req)"
  have pp: "0 \<le> per_person rate (qr_adults req)" "per_person rate (qr_adults req) \<le> max_money_amount"
    using r by (auto simp: per_person_def rate_ok_def amount_bad_def max_money_amount_def)
  have ad: "1 \<le> qr_adults req" "qr_adults req \<le> 4" "length (qr_children req) \<le> 4" using q by (auto simp: request_ok_def)
  have m: "0 \<le> per_person rate (qr_adults req) * qr_adults req" "per_person rate (qr_adults req) * qr_adults req \<le> max_money_amount * 4"
    using pp ad by (auto intro!: mult_mono)
  have bed: "0 \<le> cp_extra_bed (h_child_policy h)" "cp_extra_bed (h_child_policy h) \<le> max_money_amount"
    using h by (auto simp: child_policy_ok_def amount_bad_def)
  have k: "0 \<le> x \<and> x \<le> max_money_amount" if "x \<in> set ?ks" for x using that kid_line_exact [OF h r] by auto
  have ks: "0 \<le> sum_list ?ks" "sum_list ?ks \<le> int (length ?ks) * max_money_amount"
    using sum64_exact(2,3) [of ?ks max_money_amount] k ad by (auto simp: max_money_amount_def)
  have fl: "foldl (\<lambda>(n, p) l. (add64 n (cl_net l), if cl_net l > 0 then add64 p 1 else p)) s (kid_lines h rate (qr_children req))
      = foldl (\<lambda>(n, p) x. (add64 n x, if x > 0 then add64 p 1 else p)) s ?ks" for s
    by (simp add: kid_lines_def foldl_map comp_def case_prod_beta kid_line_exact(1) [OF h r])
  define n0 where "n0 = per_person rate (qr_adults req) * qr_adults req + (if qr_extra_bed req then cp_extra_bed (h_child_policy h) else 0)"
  define p0 where "p0 = qr_adults req + (if qr_extra_bed req then 1 else 0)"
  have n0: "0 \<le> n0" "n0 \<le> 5 * max_money_amount" "1 \<le> p0" "p0 \<le> 5" using m bed ad by (auto simp: n0_def p0_def max_money_amount_def)
  have start: "(if qr_extra_bed req then (add64 (mul64 (per_person rate (qr_adults req)) (qr_adults req)) (cp_extra_bed (h_child_policy h)), add64 (qr_adults req) 1)
      else (mul64 (per_person rate (qr_adults req)) (qr_adults req), qr_adults req)) = (n0, p0)"
  proof -
    have "mul64 (per_person rate (qr_adults req)) (qr_adults req) = per_person rate (qr_adults req) * qr_adults req"
      using m by (intro mul64_id) (auto simp: fits64_def max_money_amount_def)
    moreover have "add64 (per_person rate (qr_adults req) * qr_adults req) (cp_extra_bed (h_child_policy h))
        = per_person rate (qr_adults req) * qr_adults req + cp_extra_bed (h_child_policy h)" "add64 (qr_adults req) 1 = qr_adults req + 1"
      using m bed ad by (auto intro!: add64_id simp: fits64_def max_money_amount_def)
    ultimately show ?thesis by (simp add: n0_def p0_def)
  qed
  have "foldl (\<lambda>(n, p) x. (add64 n x, if x > 0 then add64 p 1 else p)) (n0, p0) ?ks
      = (n0 + sum_list ?ks, p0 + int (length (filter (\<lambda>x. x > 0) ?ks)))"
    using n0 ad k by (intro kid_fold) (auto simp: max_money_amount_def)
  then show "room_price h req rate = (exact_room h req rate, exact_paying h req rate)"
    by (simp add: room_price_def Let_def start fl exact_room_def exact_paying_def n0_def p0_def filter_map comp_def)
  show "0 \<le> exact_room h req rate" "exact_room h req rate \<le> 9 * max_money_amount"
    using n0 ks ad by (auto simp: exact_room_def n0_def max_money_amount_def)
  have "length (filter (\<lambda>c. exact_kid (h_child_policy h) rate c > 0) (qr_children req)) \<le> 4" using ad(3) le_trans length_filter_le by blast
  then show "1 \<le> exact_paying h req rate" "exact_paying h req rate \<le> 9"
    using n0 by (auto simp: exact_paying_def p0_def)
qed

lemma markup_exact:
  assumes "markup_ok m" "0 \<le> net" "net \<le> 9 * max_money_amount" "1 \<le> paying" "paying \<le> 9"
  shows "0 < net \<Longrightarrow> markup_apply m net paying = exact_gross m net paying"
    "net \<le> exact_gross m net paying" "exact_gross m net paying \<le> 54 * max_money_amount"
proof -
  let ?v = "mk_value m"
  have v: "0 \<le> ?v" using assms(1) by (auto simp: markup_ok_def)
  have p: "mk_kind m \<noteq> ''fixed'' \<Longrightarrow> 0 \<le> round_half_away (net * ?v) 10000 \<and> round_half_away (net * ?v) 10000 \<le> net * 5"
    using round_share_le [of net ?v 5 10000] assms by (auto simp: markup_ok_def)
  have f: "mk_kind m = ''fixed'' \<Longrightarrow> 0 \<le> ?v * paying \<and> ?v * paying \<le> max_money_amount * 9"
    using assms by (auto simp: markup_ok_def intro!: mult_mono)
  show "net \<le> exact_gross m net paying" "exact_gross m net paying \<le> 54 * max_money_amount"
    using p f assms(2,3) by (cases "mk_kind m = ''fixed''"; auto simp: exact_gross_def max_money_amount_def)+
  show "markup_apply m net paying = exact_gross m net paying" if "0 < net"
  proof (cases "mk_kind m = ''fixed''")
    case True
    then have "mul64 ?v paying = ?v * paying" "add64 net (?v * paying) = net + ?v * paying"
      using f assms(2,3) by (auto intro!: mul64_id add64_id simp: fits64_def max_money_amount_def)
    then show ?thesis using that True by (simp add: markup_apply_def exact_gross_def)
  next
    case False
    have "0 \<le> net * ?v \<and> net * ?v \<le> (9 * max_money_amount) * 50000"
      using mult_mono [of net "9 * max_money_amount" ?v 50000] assms False v by (auto simp: markup_ok_def max_money_amount_def)
    then have "mul64 net ?v = net * ?v" "round_div (net * ?v) 10000 = round_half_away (net * ?v) 10000"
      by (auto intro!: mul64_id round_div_exact simp: fits64_def max_money_amount_def)
    moreover have "add64 net (round_half_away (net * ?v) 10000) = net + round_half_away (net * ?v) 10000"
      using p [OF False] assms(2,3) by (intro add64_id) (auto simp: fits64_def max_money_amount_def)
    ultimately show ?thesis using that False by (simp add: markup_apply_def exact_gross_def)
  qed
qed

text \<open>The reference price of a night: unpriced, from the monthly sheet, or from the season of the day.\<close>

definition exact_season_night :: "hotel \<Rightarrow> season list \<Rightarrow> quote_request \<Rightarrow> go_time \<Rightarrow> (int \<times> int) option" where
  "exact_season_night h seasons req day =
     (case season_on seasons day of None \<Rightarrow> None
      | Some s \<Rightarrow> (case rate_for s (qr_room req) (qr_meal req) of None \<Rightarrow> None
          | Some rate \<Rightarrow>
              if per_person rate (qr_adults req) \<le> 0 then None
              else Some (exact_room h req rate * qr_rooms req,
                         exact_gross (markup_for s h) (exact_room h req rate) (exact_paying h req rate) * qr_rooms req)))"

definition exact_night :: "hotel \<Rightarrow> season list \<Rightarrow> monthly_rate list \<Rightarrow> quote_request \<Rightarrow> go_time \<Rightarrow> (int \<times> int) option" where
  "exact_night h seasons monthly req day =
     (case monthly_on monthly day (qr_room req) of
        Some m \<Rightarrow>
          if mo_sell m > 0 \<or> mo_net m > 0
          then let bed = (if qr_extra_bed req then cp_extra_bed (h_child_policy h) else 0)
               in Some ((mo_net m + bed) * qr_rooms req, (mo_sell m + bed) * qr_rooms req)
          else exact_season_night h seasons req day
      | None \<Rightarrow> exact_season_night h seasons req day)"

definition night_price :: "quote_night \<Rightarrow> (int \<times> int) option" where
  "night_price n = (if qn_priced n then Some (qn_net n, qn_gross n) else None)"

lemma find_mem: "find P xs = Some x \<Longrightarrow> x \<in> set xs \<and> P x"
  by (auto simp: find_Some_iff)

lemma monthly_night_exact:
  assumes "0 \<le> x" "x \<le> max_money_amount" "0 \<le> b" "b \<le> max_money_amount" "1 \<le> rooms" "rooms \<le> 50"
  shows "mul64 x rooms = x * rooms" "add64 (x * rooms) (b * rooms) = (x + b) * rooms" "0 \<le> x * rooms" "x * rooms \<le> 2700 * max_money_amount"
    "(x + b) * rooms \<le> 2700 * max_money_amount" "0 \<le> (x + b) * rooms"
proof -
  have "0 \<le> x * rooms" "x * rooms \<le> max_money_amount * 50" "0 \<le> b * rooms" "b * rooms \<le> max_money_amount * 50"
    using assms by (auto intro!: mult_mono)
  then show "mul64 x rooms = x * rooms" "add64 (x * rooms) (b * rooms) = (x + b) * rooms" "0 \<le> x * rooms" "x * rooms \<le> 2700 * max_money_amount"
    "(x + b) * rooms \<le> 2700 * max_money_amount" "0 \<le> (x + b) * rooms"
    by (auto simp: distrib_right fits64_def max_money_amount_def intro!: mul64_id add64_id)
qed

lemma season_night_exact:
  assumes h: "hotel_ok h" and s: "season_ok s" and q: "request_ok req" and r: "rate_for s (qr_room req) (qr_meal req) = Some rate"
    and pp: "0 < per_person rate (qr_adults req)"
  defines "net \<equiv> exact_room h req rate" and "paying \<equiv> exact_paying h req rate"
  shows "room_price h req rate = (net, paying)"
    "mul64 net (qr_rooms req) = net * qr_rooms req"
    "mul64 (markup_apply (markup_for s h) net paying) (qr_rooms req) = exact_gross (markup_for s h) net paying * qr_rooms req"
    "0 \<le> net * qr_rooms req" "net * qr_rooms req \<le> exact_gross (markup_for s h) net paying * qr_rooms req"
    "exact_gross (markup_for s h) net paying * qr_rooms req \<le> 2700 * max_money_amount"
proof -
  have ro: "rate_ok rate" using r s find_mem by (fastforce simp: rate_for_def season_ok_def list_all_iff)
  have cp: "child_policy_ok (h_child_policy h)" and mk: "markup_ok (markup_for s h)"
    using h s by (auto simp: hotel_ok_def season_ok_def markup_for_def split: option.splits)
  note e = room_price_exact [OF cp ro q, folded net_def paying_def]
  have kids: "0 \<le> exact_kid (h_child_policy h) rate c" for c using kid_line_exact(2) [OF cp ro] .
  have "0 \<le> (\<Sum>c \<leftarrow> qr_children req. exact_kid (h_child_policy h) rate c)" using kids by (intro sum_list_nonneg) auto
  moreover have "0 \<le> cp_extra_bed (h_child_policy h)" using cp by (auto simp: child_policy_ok_def amount_bad_def)
  moreover have "0 < per_person rate (qr_adults req) * qr_adults req" using pp q by (auto simp: request_ok_def)
  ultimately have pos: "0 < net" by (auto simp: net_def exact_room_def)
  note g = markup_exact [OF mk e(2-5)]
  have rm: "1 \<le> qr_rooms req" "qr_rooms req \<le> 50" using q by (auto simp: request_ok_def)
  show "room_price h req rate = (net, paying)" by (rule e(1))
  have b: "0 \<le> net * qr_rooms req" "net * qr_rooms req \<le> exact_gross (markup_for s h) net paying * qr_rooms req"
    "exact_gross (markup_for s h) net paying * qr_rooms req \<le> (54 * max_money_amount) * 50"
    using e(2) g(2,3) rm mult_mono [OF g(3) rm(2)] by (auto intro!: mult_right_mono simp: max_money_amount_def)
  then show "0 \<le> net * qr_rooms req" "net * qr_rooms req \<le> exact_gross (markup_for s h) net paying * qr_rooms req"
    "exact_gross (markup_for s h) net paying * qr_rooms req \<le> 2700 * max_money_amount"
    "mul64 net (qr_rooms req) = net * qr_rooms req"
    by (auto intro!: mul64_id simp: fits64_def max_money_amount_def)
  show "mul64 (markup_apply (markup_for s h) net paying) (qr_rooms req) = exact_gross (markup_for s h) net paying * qr_rooms req"
    unfolding g(1) [OF pos] using b by (intro mul64_id) (auto simp: fits64_def max_money_amount_def)
qed

lemma price_night_exact:
  assumes c: "contract_ok h seasons monthly" and q: "request_ok req"
  shows "night_price (fst (price_night h seasons monthly req day)) = exact_night h seasons monthly req day"
    "0 \<le> qn_net (fst (price_night h seasons monthly req day))" "qn_net (fst (price_night h seasons monthly req day)) \<le> 2700 * max_money_amount"
    "0 \<le> qn_gross (fst (price_night h seasons monthly req day))" "qn_gross (fst (price_night h seasons monthly req day)) \<le> 2700 * max_money_amount"
proof -
  let ?n = "fst (price_night h seasons monthly req day)"
  have h: "hotel_ok h" and ss: "\<And>s. s \<in> set seasons \<Longrightarrow> season_ok s" and mo: "\<And>m. m \<in> set monthly \<Longrightarrow> monthly_ok m"
    using c by (auto simp: contract_ok_def list_all_iff)
  have bed: "0 \<le> cp_extra_bed (h_child_policy h)" "cp_extra_bed (h_child_policy h) \<le> max_money_amount"
    using h by (auto simp: hotel_ok_def child_policy_ok_def amount_bad_def)
  have rm: "1 \<le> qr_rooms req" "qr_rooms req \<le> 50" using q by (auto simp: request_ok_def)
  let ?goal = "night_price ?n = exact_night h seasons monthly req day \<and> 0 \<le> qn_net ?n \<and> qn_net ?n \<le> 2700 * max_money_amount
    \<and> 0 \<le> qn_gross ?n \<and> qn_gross ?n \<le> 2700 * max_money_amount"
  have zero: "0 \<le> (0 :: int)" "(0 :: int) \<le> 2700 * max_money_amount" by (auto simp: max_money_amount_def)
  have seasonal: ?goal
    if no: "\<And>m. monthly_on monthly day (qr_room req) = Some m \<Longrightarrow> \<not> (mo_sell m > 0 \<or> mo_net m > 0)"
  proof -
    have e: "exact_night h seasons monthly req day = exact_season_night h seasons req day"
      "(case monthly_on monthly day (qr_room req) of None \<Rightarrow> None | Some m \<Rightarrow> if mo_sell m > 0 \<or> mo_net m > 0 then Some m else None) = None"
      using no by (auto simp: exact_night_def split: option.split)
    show ?thesis
    proof (cases "season_on seasons day")
      case None
      then show ?thesis by (simp add: e price_night_def exact_season_night_def night_price_def blank_night_def zero)
    next
      case s: (Some s)
      then have so: "season_ok s" using ss find_mem by (fastforce simp: season_on_def)
      show ?thesis
      proof (cases "\<exists>rate. rate_for s (qr_room req) (qr_meal req) = Some rate \<and> 0 < per_person rate (qr_adults req)")
        case True
        then obtain rate where r: "rate_for s (qr_room req) (qr_meal req) = Some rate" "0 < per_person rate (qr_adults req)" by auto
        note x = season_night_exact [OF h so q r]
        show ?thesis using x r s by (simp add: e price_night_def exact_season_night_def night_price_def Let_def)
      next
        case False
        then show ?thesis using s
          by (auto simp: e price_night_def exact_season_night_def night_price_def blank_night_def zero split: option.split)
      qed
    qed
  qed
  have ?goal
  proof (cases "\<exists>m. monthly_on monthly day (qr_room req) = Some m \<and> (mo_sell m > 0 \<or> mo_net m > 0)")
    case True
    then obtain m where m: "monthly_on monthly day (qr_room req) = Some m" "mo_sell m > 0 \<or> mo_net m > 0" by blast
    then have "monthly_ok m" using mo find_mem by (fastforce simp: monthly_on_def split: prod.splits)
    then have a: "0 \<le> mo_net m" "mo_net m \<le> max_money_amount" "0 \<le> mo_sell m" "mo_sell m \<le> max_money_amount" by (auto simp: monthly_ok_def amount_bad_def)
    note x = monthly_night_exact [OF a(1,2) bed rm] monthly_night_exact [OF a(3,4) bed rm] monthly_night_exact(1) [OF bed bed rm]
    show ?thesis using m x by (simp add: price_night_def exact_night_def night_price_def Let_def)
  next
    case False
    then show ?thesis by (intro seasonal) blast
  qed
  then show "night_price ?n = exact_night h seasons monthly req day" "0 \<le> qn_net ?n" "qn_net ?n \<le> 2700 * max_money_amount"
    "0 \<le> qn_gross ?n" "qn_gross ?n \<le> 2700 * max_money_amount" by auto
qed

section \<open>Stays\<close>

lemma stay_days_bound:
  "nanos check_out \<le> nanos day + int n * day_ns \<Longrightarrow> length (stay_days day check_out) \<le> n"
proof (induction n arbitrary: day)
  case (Suc n)
  have "nanos check_out \<le> nanos (add_date day 0 0 1) + int n * day_ns"
    using Suc.prems by (simp add: nanos_add_date_days algebra_simps)
  from Suc.IH [OF this] show ?case by (simp add: stay_days.simps [of day])
qed (simp add: stay_days.simps [of day for day] before_def)

lemma split_kids_length: "split_kids p cs a f = (kids, a', f') \<Longrightarrow> length kids \<le> length cs"
  by (induction cs arbitrary: a f kids a' f') (fastforce split: if_splits prod.splits)+

lemma field_add_ne [simp]: "field_add k m f \<noteq> []" by (auto simp: field_add_def)

lemma field_check_Nil [simp]: "field_check b k m f = [] \<longleftrightarrow> f = [] \<and> \<not> b" by (simp add: field_check_def)

lemma split_kids_dirty: "f \<noteq> [] \<Longrightarrow> snd (snd (split_kids p cs a f)) \<noteq> []"
  by (induction cs arbitrary: a f) (auto simp: case_prod_beta)

lemma request_normalize_ok:
  assumes "request_normalize h req = Inr req'"
  shows "request_ok req'" "qr_check_in req' = qr_check_in req" "qr_check_out req' = qr_check_out req" "qr_today req' = qr_today req"
proof -
  define nights where "nights = days_between (qr_check_in req) (qr_check_out req)"
  define f0 where "f0 = (if is_zero (qr_check_in req) \<or> is_zero (qr_check_out req) then field_add ''check_in'' ''check_in and check_out are required'' []
      else if nights < 1 then field_add ''check_out'' ''must be after check_in'' []
      else if nights > 60 then field_add ''check_out'' ''stays are limited to 60 nights'' [] else [])"
  define rooms where "rooms = (if qr_rooms req = 0 then 1 else qr_rooms req)"
  define f3 where "f3 = field_check (length (qr_children req) > 4) ''children'' ''at most 4 per room''
      (field_check (\<not> supports h (qr_room req) (qr_meal req)) ''room_type'' ''room type or meal plan not offered''
      (field_check (rooms < 1 \<or> rooms > 50) ''rooms'' ''1-50'' f0))"
  obtain kids adults f4 where k: "split_kids (h_child_policy h) (qr_children req) (qr_adults req) f3 = (kids, adults, f4)" by (metis prod_cases3)
  have f: "f4 = []" "1 \<le> adults" "adults \<le> 4" and req': "req' = req\<lparr>qr_rooms := rooms, qr_children := kids, qr_adults := adults\<rparr>"
    using assms unfolding request_normalize_def Let_def nights_def [symmetric] f0_def [symmetric] rooms_def [symmetric] f3_def [symmetric] k
    by (auto split: option.splits)
  have f3: "f3 = []" using split_kids_dirty [of f3 "h_child_policy h" "qr_children req" "qr_adults req"] k f(1) by auto
  then have f0: "f0 = []" and r: "1 \<le> rooms" "rooms \<le> 50" "length (qr_children req) \<le> 4" by (auto simp: f3_def)
  have n: "nights \<le> 60" using f0 by (auto simp: f0_def split: if_splits)
  have "length (stay_days (qr_check_in req) (qr_check_out req)) \<le> 61"
  proof (rule stay_days_bound, rule ccontr)
    assume "\<not> nanos (qr_check_out req) \<le> nanos (qr_check_in req) + int 61 * day_ns"
    then have "61 * day_ns \<le> time_sub (qr_check_out req) (qr_check_in req)"
      by (auto simp: time_sub_def day_ns_def int64_max_def int64_min_def max_def min_def)
    moreover have "61 \<le> quo x day_ns" if "61 * day_ns \<le> x" for x
      using that zdiv_mono1 [of "61 * day_ns" x day_ns] by (simp add: quo_nonneg day_ns_def)
    ultimately show False using n by (fastforce simp: nights_def days_between_def)
  qed
  then show "request_ok req'" using r f split_kids_length [OF k] by (auto simp: request_ok_def req')
  show "qr_check_in req' = qr_check_in req" "qr_check_out req' = qr_check_out req" "qr_today req' = qr_today req" by (simp_all add: req')
qed

lemma quote_day_fst: "night_price (fst (quote_day h seasons stops monthly req day)) = night_price (fst (price_night h seasons monthly req day))"
  "qn_net (fst (quote_day h seasons stops monthly req day)) = qn_net (fst (price_night h seasons monthly req day))"
  "qn_gross (fst (quote_day h seasons stops monthly req day)) = qn_gross (fst (price_night h seasons monthly req day))"
  "qn_priced (fst (quote_day h seasons stops monthly req day)) = qn_priced (fst (price_night h seasons monthly req day))"
  by (auto simp: quote_day_def case_prod_beta night_price_def)

lemma unpriced_zero: "\<not> qn_priced (fst (price_night h seasons monthly req day)) \<Longrightarrow>
  qn_net (fst (price_night h seasons monthly req day)) = 0 \<and> qn_gross (fst (price_night h seasons monthly req day)) = 0"
  by (auto simp: price_night_def blank_night_def Let_def case_prod_beta split: option.splits if_splits)

definition night_net :: "(int \<times> int) option \<Rightarrow> int" where "night_net x = (case x of None \<Rightarrow> 0 | Some (n, _) \<Rightarrow> n)"
definition night_gross :: "(int \<times> int) option \<Rightarrow> int" where "night_gross x = (case x of None \<Rightarrow> 0 | Some (_, g) \<Rightarrow> g)"

lemma detail_exact:
  fixes stops :: "stop_sale list"
  assumes c: "contract_ok h seasons monthly" and q: "request_ok req"
  defines "days \<equiv> stay_days (qr_check_in req) (qr_check_out req)"
  defines "detail \<equiv> map (\<lambda>day. fst (quote_day h seasons stops monthly req day)) days"
  shows "map night_price detail = map (exact_night h seasons monthly req) days"
    "sum64 (map qn_net detail) = (\<Sum>day \<leftarrow> days. night_net (exact_night h seasons monthly req day))"
    "sum64 (map qn_gross detail) = (\<Sum>day \<leftarrow> days. night_gross (exact_night h seasons monthly req day))"
    "\<And>x. x \<in> set (map qn_net detail) \<union> set (map qn_gross detail) \<Longrightarrow> 0 \<le> x \<and> x \<le> 2700 * max_money_amount"
    "length detail \<le> 61"
proof -
  note e = price_night_exact [OF c q]
  show "map night_price detail = map (exact_night h seasons monthly req) days" by (simp add: detail_def quote_day_fst e(1))
  have n: "qn_net (fst (quote_day h seasons stops monthly req day)) = night_net (exact_night h seasons monthly req day)"
    "qn_gross (fst (quote_day h seasons stops monthly req day)) = night_gross (exact_night h seasons monthly req day)" for day
    using e(1) [of day] unpriced_zero [of h seasons monthly req day] unfolding quote_day_fst
    by (auto simp: night_price_def night_net_def night_gross_def split: if_splits option.split)
  show l: "length detail \<le> 61" using q by (simp add: detail_def days_def request_ok_def)
  show b: "0 \<le> x \<and> x \<le> 2700 * max_money_amount" if "x \<in> set (map qn_net detail) \<union> set (map qn_gross detail)" for x
    using that e(2-5) by (auto simp: detail_def quote_day_fst)
  have small: "int (length (map qn_net detail)) * (2700 * max_money_amount) \<le> 9223372036854775807"
      "int (length (map qn_gross detail)) * (2700 * max_money_amount) \<le> 9223372036854775807"
    using l by (auto simp: max_money_amount_def)
  show "sum64 (map qn_net detail) = (\<Sum>day \<leftarrow> days. night_net (exact_night h seasons monthly req day))"
    using sum64_exact(1) [OF _ small(1)] b by (simp add: detail_def n comp_def)
  show "sum64 (map qn_gross detail) = (\<Sum>day \<leftarrow> days. night_gross (exact_night h seasons monthly req day))"
    using sum64_exact(1) [OF _ small(2)] b by (simp add: detail_def n comp_def)
qed

text \<open>
  C22. Quotes are exact. For a hotel, seasons and monthly sheet as the normalisation admits them, a quote never
  overflows: night by night it has the price of the reference in unbounded integers, unpriced nights are the
  missing dates, and the totals and the profit are the exact sums. The stay is bookable exactly when every night
  has a price and none is stopped.
\<close>

theorem quote_exact:
  assumes "contract_ok h seasons monthly" "price h seasons allotments stops req monthly = Inr q"
  shows "\<exists>req'. request_normalize h req = Inr req'
    \<and> map night_price (q_detail q) = map (exact_night h seasons monthly req') (stay_days (qr_check_in req) (qr_check_out req))
    \<and> q_net q = (\<Sum>day \<leftarrow> stay_days (qr_check_in req) (qr_check_out req). night_net (exact_night h seasons monthly req' day))
    \<and> q_gross q = (\<Sum>day \<leftarrow> stay_days (qr_check_in req) (qr_check_out req). night_gross (exact_night h seasons monthly req' day))
    \<and> q_profit q = q_gross q - q_net q \<and> 0 \<le> q_net q \<and> 0 \<le> q_gross q
    \<and> (q_bookable q \<longleftrightarrow> list_all (\<lambda>day. exact_night h seasons monthly req' day \<noteq> None \<and> \<not> stopped stops (qr_room req') day)
          (stay_days (qr_check_in req) (qr_check_out req)))"
proof -
  obtain r where r: "request_normalize h req = Inr r" and q: "q = price_request h seasons allotments stops monthly r"
    using assms(2) by (auto simp: price_def split: if_splits sum.splits)
  note ok = request_normalize_ok [OF r]
  let ?days = "stay_days (qr_check_in req) (qr_check_out req)"
  let ?detail = "map (\<lambda>day. fst (quote_day h seasons stops monthly r day)) ?days"
  note d = detail_exact [OF assms(1) ok(1), where stops = stops, unfolded ok(2,3)]
  have det: "q_detail q = ?detail" and net: "q_net q = sum64 (map qn_net ?detail)" and gross: "q_gross q = sum64 (map qn_gross ?detail)"
    and prof: "q_profit q = sub64 (q_gross q) (q_net q)"
    and book: "q_bookable q \<longleftrightarrow> filter (\<lambda>n. \<not> qn_priced n) ?detail = [] \<and> filter qn_stop ?detail = []"
    by (simp_all add: q price_request_def Let_def ok(2,3) comp_def)
  have small: "int (length ?detail) * (2700 * max_money_amount) \<le> 9223372036854775807" using d(5) by (auto simp: max_money_amount_def)
  have nn: "0 \<le> q_net q" "q_net q \<le> 9223372036854775807" "0 \<le> q_gross q" "q_gross q \<le> 9223372036854775807"
    using sum64_exact [of "map qn_net ?detail" "2700 * max_money_amount"] sum64_exact [of "map qn_gross ?detail" "2700 * max_money_amount"] d(4) small
    by (auto simp: net gross)
  have "q_profit q = q_gross q - q_net q" unfolding prof using nn by (intro sub64_id) (auto simp: fits64_def)
  moreover have "qn_priced (fst (quote_day h seasons stops monthly r day)) \<longleftrightarrow> exact_night h seasons monthly r day \<noteq> None" for day
    by (simp add: quote_day_fst price_night_exact(1) [OF assms(1) ok(1), of day, symmetric] night_price_def)
  moreover have "qn_stop (fst (quote_day h seasons stops monthly r day)) \<longleftrightarrow> stopped stops (qr_room r) day" for day
    by (auto simp: quote_day_def price_night_def blank_night_def Let_def case_prod_beta split: option.split)
  ultimately show ?thesis using r d(1-3) nn book by (auto simp: det net gross filter_empty_conv list_all_iff)
qed

section \<open>Cancellation\<close>

lemma percent_within:
  assumes "0 \<le> s" "s \<le> 61 * (2700 * max_money_amount)" "0 \<le> v" "v \<le> 100"
  shows "round_div (mul64 s v) 100 = round_half_away (s * v) 100" "0 \<le> round_half_away (s * v) 100" "round_half_away (s * v) 100 \<le> s"
proof -
  have "0 \<le> s * v" "s * v \<le> (61 * (2700 * max_money_amount)) * 100"
    using assms mult_mono [of s "61 * (2700 * max_money_amount)" v 100] by auto
  then have "mul64 s v = s * v" "round_div (s * v) 100 = round_half_away (s * v) 100"
    by (auto intro!: mul64_id round_div_exact simp: fits64_def max_money_amount_def)
  then show "round_div (mul64 s v) 100 = round_half_away (s * v) 100" by simp
  show "0 \<le> round_half_away (s * v) 100" "round_half_away (s * v) 100 \<le> s" using round_share_le [of s v 1 100] assms by auto
qed

lemma sum_take_le: "(\<And>x. x \<in> set xs \<Longrightarrow> 0 \<le> (x :: int)) \<Longrightarrow> sum_list (take n xs) \<le> sum_list xs"
proof (induction xs arbitrary: n)
  case (Cons x xs)
  have "0 \<le> x" "0 \<le> sum_list xs" using Cons.prems by (auto intro: sum_list_nonneg)
  then show ?case using Cons by (cases n) auto
qed simp

definition nights_ok :: "int list \<Rightarrow> bool" where
  "nights_ok nightly \<longleftrightarrow> length nightly \<le> 61 \<and> list_all (\<lambda>x. 0 \<le> x \<and> x \<le> 2700 * max_money_amount) nightly"

lemma nights_sum:
  assumes "nights_ok xs"
  shows "sum64 xs = sum_list xs" "0 \<le> sum_list xs" "sum_list xs \<le> 61 * (2700 * max_money_amount)"
proof -
  have b: "\<And>x. x \<in> set xs \<Longrightarrow> 0 \<le> x \<and> x \<le> 2700 * max_money_amount" "int (length xs) * (2700 * max_money_amount) \<le> 9223372036854775807"
    using assms by (auto simp: nights_ok_def list_all_iff max_money_amount_def)
  note s = sum64_exact [OF b]
  have "int (length xs) * (2700 * max_money_amount) \<le> 61 * (2700 * max_money_amount)" using assms by (auto simp: nights_ok_def max_money_amount_def)
  then show "sum64 xs = sum_list xs" "0 \<le> sum_list xs" "sum_list xs \<le> 61 * (2700 * max_money_amount)" using s by linarith+
qed

lemma tier_charge_within:
  assumes n: "nights_ok nightly" and t: "pt_kind t = ''nights'' \<or> pt_kind t = ''percent'' \<and> 0 \<le> pt_value t \<and> pt_value t \<le> 100"
  shows "0 \<le> tier_charge t nightly \<and> tier_charge t nightly \<le> sum_list nightly"
proof (cases "pt_kind t = ''nights''")
  case True
  let ?k = "nat (min (pt_value t) (int (length nightly)))"
  have "nights_ok (take ?k nightly)" using n by (auto simp: nights_ok_def list_all_iff dest: in_set_takeD)
  note s = nights_sum [OF this]
  have "sum_list (take ?k nightly) \<le> sum_list nightly" using n by (intro sum_take_le) (auto simp: nights_ok_def list_all_iff)
  then show ?thesis using s True by (simp add: tier_charge_def)
next
  case False
  then show ?thesis using t percent_within [OF nights_sum(2,3) [OF n]] nights_sum(1) [OF n] by (auto simp: tier_charge_def)
qed

text \<open>In a normalised policy the tier of a day is the one with the largest lower bound that the day reaches.\<close>

lemma first_is_greatest:
  assumes "sorted_wrt (\<lambda>a b. pt_min_days b < pt_min_days a) ts" "find (\<lambda>t. pt_min_days t \<le> days) ts = Some t" "u \<in> set ts" "pt_min_days u \<le> days"
  shows "pt_min_days u \<le> pt_min_days t"
  using assms by (induction ts) (auto split: if_splits simp: less_imp_le)

lemma tier_cases:
  assumes ok: "cancellation_ok p"
  shows "tier_for p days = None \<Longrightarrow> cancel_penalty p days nightly = 0"
    "tier_for p days = Some t \<Longrightarrow> cancel_penalty p days nightly = tier_charge t nightly"
    "tier_for p days = Some t \<Longrightarrow> \<exists>u \<in> set (cn_tiers p). pt_min_days u \<le> days \<Longrightarrow>
       t \<in> set (cn_tiers p) \<and> pt_min_days t \<le> days \<and> (\<forall>u \<in> set (cn_tiers p). pt_min_days u \<le> days \<longrightarrow> pt_min_days u \<le> pt_min_days t)"
    "tier_for p days = Some t \<Longrightarrow> \<not> (\<exists>u \<in> set (cn_tiers p). pt_min_days u \<le> days) \<Longrightarrow> t = \<lparr>pt_min_days = 0, pt_kind = ''percent'', pt_value = 100\<rparr>"
proof -
  let ?f = "find (\<lambda>t. days \<ge> pt_min_days t) (cn_tiers p)"
  have sorted: "sorted_wrt (\<lambda>a b. pt_min_days b < pt_min_days a) (cn_tiers p)" using ok by (simp add: cancellation_ok_def)
  show "tier_for p days = None \<Longrightarrow> cancel_penalty p days nightly = 0" "tier_for p days = Some t \<Longrightarrow> cancel_penalty p days nightly = tier_charge t nightly"
    by (simp_all add: cancel_penalty_def)
  show "t \<in> set (cn_tiers p) \<and> pt_min_days t \<le> days \<and> (\<forall>u \<in> set (cn_tiers p). pt_min_days u \<le> days \<longrightarrow> pt_min_days u \<le> pt_min_days t)"
    if s: "tier_for p days = Some t" and ex: "\<exists>u \<in> set (cn_tiers p). pt_min_days u \<le> days"
  proof -
    have "?f \<noteq> None" using ex by (auto simp: find_None_iff)
    then have f: "?f = Some t" using s by (auto simp: tier_for_def split: if_splits)
    then show ?thesis using find_mem [OF f] first_is_greatest [OF sorted f] by blast
  qed
  show "t = \<lparr>pt_min_days = 0, pt_kind = ''percent'', pt_value = 100\<rparr>"
    if s: "tier_for p days = Some t" and no: "\<not> (\<exists>u \<in> set (cn_tiers p). pt_min_days u \<le> days)"
  proof -
    have "?f = None" using no by (auto simp: find_None_iff)
    then show ?thesis using s by (auto simp: tier_for_def split: if_splits)
  qed
qed

text \<open>
  Cancelling never costs more than the stay. In every quote for a normalised contract, the penalty of today, the
  no-show penalty and the penalty of every tier lie between zero and the gross total; the penalty of today is that of
  the tier with the largest day bound still reached, the whole stay when none is reached, and nothing as long as
  cancelling is free.
\<close>

theorem penalties_within_stay:
  assumes c: "contract_ok h seasons monthly" and p: "price h seasons allotments stops req monthly = Inr q"
  shows "0 \<le> ol_today (q_cancellation q) \<and> ol_today (q_cancellation q) \<le> q_gross q
    \<and> 0 \<le> ol_no_show (q_cancellation q) \<and> ol_no_show (q_cancellation q) \<le> q_gross q
    \<and> (\<forall>l \<in> set (ol_tiers (q_cancellation q)). 0 \<le> pl_amount l \<and> pl_amount l \<le> q_gross q)
    \<and> (case tier_for (h_cancellation h) (days_between (qr_today req) (qr_check_in req)) of
         None \<Rightarrow> ol_free_now (q_cancellation q) \<and> ol_today (q_cancellation q) = 0
       | Some t \<Rightarrow> \<not> ol_free_now (q_cancellation q)
           \<and> (if \<exists>u \<in> set (cn_tiers (h_cancellation h)). pt_min_days u \<le> days_between (qr_today req) (qr_check_in req)
              then pt_min_days t \<le> days_between (qr_today req) (qr_check_in req)
                \<and> (\<forall>u \<in> set (cn_tiers (h_cancellation h)). pt_min_days u \<le> days_between (qr_today req) (qr_check_in req) \<longrightarrow> pt_min_days u \<le> pt_min_days t)
                \<and> (\<exists>l \<in> set (ol_tiers (q_cancellation q)). pl_min_days l = pt_min_days t \<and> ol_today (q_cancellation q) = pl_amount l)
              else ol_today (q_cancellation q) = q_gross q))"
proof -
  obtain r where r: "request_normalize h req = Inr r" and q: "q = price_request h seasons allotments stops monthly r"
    using p by (auto simp: price_def split: if_splits sum.splits)
  note ok = request_normalize_ok [OF r]
  define nightly where "nightly = map (\<lambda>day. qn_gross (fst (quote_day h seasons stops monthly r day))) (stay_days (qr_check_in req) (qr_check_out req))"
  note d = detail_exact [OF c ok(1), where stops = stops, unfolded ok(2,3)]
  have n: "nights_ok nightly" using d(4,5) by (auto simp: nights_ok_def nightly_def list_all_iff)
  note s = nights_sum [OF n]
  have out: "q_cancellation q = outlook_of (h_cancellation h) (qr_check_in req) (qr_today req) nightly" and g: "q_gross q = sum_list nightly"
    using s(1) by (simp_all add: q price_request_def Let_def ok(2-4) nightly_def comp_def)
  have co: "cancellation_ok (h_cancellation h)" using c by (simp add: contract_ok_def hotel_ok_def)
  have t: "0 \<le> tier_charge x nightly \<and> tier_charge x nightly \<le> sum_list nightly" if "x \<in> set (cn_tiers (h_cancellation h))" for x
    using that co by (intro tier_charge_within [OF n]) (auto simp: cancellation_ok_def list_all_iff tier_ok_def)
  let ?all = "\<lparr>pt_min_days = 0, pt_kind = ''percent'', pt_value = 100\<rparr>"
  have whole: "tier_charge ?all nightly = sum_list nightly"
    using percent_within [OF s(2,3), of 100] s(1) round_exact [of 100 "sum_list nightly"] by (simp add: tier_charge_def)
  have ns: "0 \<le> no_show_penalty (h_cancellation h) nightly" "no_show_penalty (h_cancellation h) nightly \<le> sum_list nightly"
    using percent_within [OF s(2,3), of "cn_no_show (h_cancellation h)"] co s(1) by (auto simp: no_show_penalty_def cancellation_ok_def)
  define days where "days = days_between (qr_today req) (qr_check_in req)"
  have bounds: "0 \<le> cancel_penalty (h_cancellation h) days nightly \<and> cancel_penalty (h_cancellation h) days nightly \<le> sum_list nightly"
    using t whole s(2) find_mem [of "\<lambda>t. days \<ge> pt_min_days t" "cn_tiers (h_cancellation h)"]
    by (auto simp: cancel_penalty_def tier_for_def split: option.split)
  note tier = tier_cases [OF co, where days = days]
  show ?thesis
  proof (cases "tier_for (h_cancellation h) days")
    case None
    then show ?thesis unfolding out g outlook_of_def Let_def days_def [symmetric] using t ns bounds tier(1) by simp
  next
    case (Some x)
    show ?thesis
    proof (cases "\<exists>u \<in> set (cn_tiers (h_cancellation h)). pt_min_days u \<le> days")
      case True
      then have x: "x \<in> set (cn_tiers (h_cancellation h))" "pt_min_days x \<le> days" "cancel_penalty (h_cancellation h) days nightly = tier_charge x nightly"
        "\<forall>u \<in> set (cn_tiers (h_cancellation h)). pt_min_days u \<le> days \<longrightarrow> pt_min_days u \<le> pt_min_days x" using tier(3) [OF Some True] tier(2) [OF Some] by blast+
      show ?thesis unfolding out g outlook_of_def Let_def days_def [symmetric] using t ns bounds x True Some by (simp add: bexI [of _ x])
    next
      case False
      then have "cancel_penalty (h_cancellation h) days nightly = sum_list nightly" using tier(2) [OF Some] tier(4) [OF Some False] whole by simp
      then show ?thesis unfolding out g outlook_of_def Let_def days_def [symmetric] using t ns bounds False Some by simp
    qed
  qed
qed

section \<open>A worked stay\<close>

definition sample_day :: "int \<Rightarrow> go_time" where "sample_day n = \<lparr>nanos = (739162 + n) * day_ns, zone = 0\<rparr>"

definition sample_hotel :: hotel where
  "sample_hotel = \<lparr>h_id = 7, h_branch = 3, h_name = ''HH'', h_name_ar = [], h_stars = 4,
     h_location = \<lparr>lo_city = ''C'', lo_country = ''T'', lo_district = [], lo_latitude = None, lo_longitude = None, lo_landmark = [], lo_distance = 0\<rparr>,
     h_contact = \<lparr>hc_name = [], hc_phone = [], hc_email = [], hc_reservations = []\<rparr>,
     h_room_types = [''standard''], h_meal_plans = [''bb''], h_currency = ''USD'', h_markup = \<lparr>mk_kind = ''percent'', mk_value = 1000\<rparr>,
     h_child_policy = default_child_policy, h_cancellation = default_hotel_cancellation, h_notes = [], h_active = True,
     h_created = sample_day 0, h_updated = sample_day 0\<rparr>"

definition sample_season :: season where
  "sample_season = \<lparr>se_id = 21, se_hotel = 7, se_name = ''S'', se_kind = ''high'', se_start = sample_day 10, se_end = sample_day 20, se_markup = None,
     se_rates = [\<lparr>rt_room = ''standard'', rt_meal = ''bb'', rt_single = 0, rt_double = 5000, rt_triple = 0, rt_quad = 0\<rparr>],
     se_created = sample_day 0, se_updated = sample_day 0\<rparr>"

definition sample_request :: quote_request where
  "sample_request = \<lparr>qr_check_in = sample_day 12, qr_check_out = sample_day 14, qr_room = ''standard'', qr_meal = ''bb'', qr_rooms = 2, qr_adults = 2,
     qr_children = [], qr_extra_bed = False, qr_today = sample_day 11\<rparr>"

lemma sample_contract: "contract_ok sample_hotel [sample_season] []" by code_simp

lemma sample_request_ok: "request_normalize sample_hotel sample_request = Inr sample_request" by code_simp

lemma sample_price:
  obtains q where "price sample_hotel [sample_season] [] [] sample_request [] = Inr q"
  using sample_request_ok that by (simp add: price_def sample_hotel_def)

theorem quote_exact_witness:
  "\<exists>q. price sample_hotel [sample_season] [] [] sample_request [] = Inr q \<and> q_net q = 40000 \<and> q_gross q = 44000 \<and> q_profit q = 4000 \<and> q_bookable q"
proof -
  obtain q where q: "price sample_hotel [sample_season] [] [] sample_request [] = Inr q" by (rule sample_price)
  let ?days = "stay_days (qr_check_in sample_request) (qr_check_out sample_request)"
  let ?e = "exact_night sample_hotel [sample_season] [] sample_request"
  have "sum_list (map (\<lambda>d. night_net (?e d)) ?days) = 40000" "sum_list (map (\<lambda>d. night_gross (?e d)) ?days) = 44000" by code_simp+
  moreover have "list_all (\<lambda>d. ?e d \<noteq> None \<and> \<not> stopped [] (qr_room sample_request) d) ?days" by code_simp
  ultimately show ?thesis using quote_exact [OF sample_contract q] q by (simp add: sample_request_ok)
qed

theorem penalties_within_stay_witness:
  "\<exists>q. price sample_hotel [sample_season] [] [] sample_request [] = Inr q \<and> ol_today (q_cancellation q) \<le> q_gross q
     \<and> \<not> ol_free_now (q_cancellation q)"
proof -
  obtain q where q: "price sample_hotel [sample_season] [] [] sample_request [] = Inr q" by (rule sample_price)
  have "tier_for (h_cancellation sample_hotel) (days_between (qr_today sample_request) (qr_check_in sample_request)) \<noteq> None" by code_simp
  then show ?thesis using penalties_within_stay [OF sample_contract q] q by auto
qed

end
