(* ===== verification/Hotel_Service.thy ===== *)
theory Hotel_Service
  imports Hotel_Quote Unit_Of_Work Status_Machine "HOL-Library.Multiset"
begin

text \<open>
  \<^verbatim>\<open>internal/app/hotel/service.go\<close> over the tables of \<^verbatim>\<open>adapter/postgres/hotel\<close>: contracting a hotel. Every write
  locks the hotel row first, so the operations of one hotel happen one after the other.

  Parameters (\<open>hotel_env\<close>): the caller's scope, the clock and zone, the drawn identifier, the verdict of the plan
  limit, the outcome of the audit record and the address parser. Child tables are reached through the hotel, which
  has to be visible to the caller.
\<close>

section \<open>Store\<close>

record hotel_db =
  hd_hotels :: "hotel list"
  hd_seasons :: "season list"
  hd_allotments :: "allotment list"
  hd_stops :: "stop_sale list"
  hd_monthly :: "monthly_rate list"
  hd_log :: "(string \<times> uuid) list"

record hotel_env =
  he_scope :: "scope option"
  he_now :: go_time
  he_loc :: location
  he_id :: uuid
  he_plan :: "error option"
  he_audit :: "error option"
  he_mail :: "string \<Rightarrow> string option"

definition hotel_columns :: columns where
  "hotel_columns = \<lparr>Branch = ''h.branch_id'', Owner = [], OwnerOrUnassigned = False\<rparr>"

definition hotel_find :: "hotel_env \<Rightarrow> uuid \<Rightarrow> (hotel_db, hotel) uow" where
  "hotel_find env i =
     and_then (lift_result (scope_clause (he_scope env) hotel_columns (\<lambda>_. None))) (\<lambda>sees.
     and_then (reading hd_hotels) (\<lambda>hs.
       case find (\<lambda>h. h_id h = i \<and> sees \<lparr>row_branch = h_branch h, row_owner = None\<rparr>) hs of
         None \<Rightarrow> fail (new_not_found ''hotel'') | Some h \<Rightarrow> ret h))"

definition insert_hotel :: "hotel_env \<Rightarrow> hotel \<Rightarrow> (hotel_db, unit) uow" where
  "insert_hotel env h =
     (case ensure_branch (he_scope env) (h_branch h) of
        Some e \<Rightarrow> fail e
      | None \<Rightarrow>
          and_then (reading hd_hotels) (\<lambda>hs.
            if list_ex (\<lambda>x. h_id x = h_id h) hs then fail (Plain ''duplicate key value'')
            else writing (\<lambda>db. db\<lparr>hd_hotels := hs @ [h]\<rparr>)))"

text \<open>The update writes every column but the identifier, the branch and the creation time.\<close>

definition update_hotel :: "hotel_env \<Rightarrow> hotel \<Rightarrow> (hotel_db, unit) uow" where
  "update_hotel env h =
     and_then (lift_result (scope_clause (he_scope env) \<lparr>Branch = ''branch_id'', Owner = [], OwnerOrUnassigned = False\<rparr> (\<lambda>_. None))) (\<lambda>sees.
     and_then (reading hd_hotels) (\<lambda>hs.
       let hit = (\<lambda>x. h_id x = h_id h \<and> sees \<lparr>row_branch = h_branch x, row_owner = None\<rparr>) in
       if \<not> list_ex hit hs then fail (new_not_found ''hotel'')
       else writing (\<lambda>db. db\<lparr>hd_hotels := map (\<lambda>x. if hit x then h\<lparr>h_branch := h_branch x, h_created := h_created x\<rparr> else x) hs\<rparr>)))"

definition list_seasons :: "hotel_env \<Rightarrow> uuid \<Rightarrow> (hotel_db, season list) uow" where
  "list_seasons env hid =
     and_then (hotel_find env hid) (\<lambda>_.
       reading (\<lambda>db. sort_key (\<lambda>s. nanos (se_start s)) (filter (\<lambda>s. se_hotel s = hid) (hd_seasons db))))"

definition list_allotments :: "hotel_env \<Rightarrow> uuid \<Rightarrow> (hotel_db, allotment list) uow" where
  "list_allotments env hid =
     and_then (hotel_find env hid) (\<lambda>_.
       reading (\<lambda>db. sort_key (\<lambda>a. nanos (al_start a)) (filter (\<lambda>a. al_hotel a = hid) (hd_allotments db))))"

definition list_stops :: "hotel_env \<Rightarrow> uuid \<Rightarrow> (hotel_db, stop_sale list) uow" where
  "list_stops env hid =
     and_then (hotel_find env hid) (\<lambda>_.
       reading (\<lambda>db. sort_key (\<lambda>s. nanos (so_start s)) (filter (\<lambda>s. so_hotel s = hid) (hd_stops db))))"

definition list_monthly :: "hotel_env \<Rightarrow> uuid \<Rightarrow> (hotel_db, monthly_rate list) uow" where
  "list_monthly env hid =
     and_then (hotel_find env hid) (\<lambda>_.
       reading (\<lambda>db. sort_key (\<lambda>m. mo_year m * 16 + mo_month m) (filter (\<lambda>m. mo_hotel m = hid) (hd_monthly db))))"

text \<open>The upsert touches an existing row only when it belongs to the same hotel.\<close>

definition upsert_season :: "hotel_env \<Rightarrow> season \<Rightarrow> (hotel_db, unit) uow" where
  "upsert_season env s =
     and_then (hotel_find env (se_hotel s)) (\<lambda>_.
       writing (\<lambda>db. db\<lparr>hd_seasons :=
         (if list_ex (\<lambda>x. se_id x = se_id s) (hd_seasons db)
          then map (\<lambda>x. if se_id x = se_id s \<and> se_hotel x = se_hotel s then s\<lparr>se_created := se_created x\<rparr> else x) (hd_seasons db)
          else hd_seasons db @ [s])\<rparr>))"

definition find_allotment :: "hotel_env \<Rightarrow> uuid \<Rightarrow> uuid \<Rightarrow> (hotel_db, allotment) uow" where
  "find_allotment env hid i =
     and_then (hotel_find env hid) (\<lambda>_.
     and_then (reading hd_allotments) (\<lambda>xs.
       case find (\<lambda>a. al_id a = i \<and> al_hotel a = hid) xs of None \<Rightarrow> fail (new_not_found ''allotment'') | Some a \<Rightarrow> ret a))"

definition upsert_allotment :: "hotel_env \<Rightarrow> allotment \<Rightarrow> (hotel_db, unit) uow" where
  "upsert_allotment env a =
     and_then (hotel_find env (al_hotel a)) (\<lambda>_.
       writing (\<lambda>db. db\<lparr>hd_allotments :=
         (if list_ex (\<lambda>x. al_id x = al_id a) (hd_allotments db)
          then map (\<lambda>x. if al_id x = al_id a \<and> al_hotel x = al_hotel a then a\<lparr>al_created := al_created x\<rparr> else x) (hd_allotments db)
          else hd_allotments db @ [a])\<rparr>))"

definition insert_stop :: "hotel_env \<Rightarrow> stop_sale \<Rightarrow> (hotel_db, unit) uow" where
  "insert_stop env s =
     and_then (hotel_find env (so_hotel s)) (\<lambda>_.
     and_then (reading hd_stops) (\<lambda>xs.
       if list_ex (\<lambda>x. so_id x = so_id s) xs then fail (Plain ''duplicate key value'')
       else writing (\<lambda>db. db\<lparr>hd_stops := xs @ [s]\<rparr>)))"

definition delete_child ::
  "hotel_env \<Rightarrow> string \<Rightarrow> uuid \<Rightarrow> (hotel_db \<Rightarrow> 'r list) \<Rightarrow> ('r \<Rightarrow> bool) \<Rightarrow> ('r list \<Rightarrow> hotel_db \<Rightarrow> hotel_db) \<Rightarrow> (hotel_db, unit) uow" where
  "delete_child env entity hid table hit put =
     and_then (hotel_find env hid) (\<lambda>_.
     and_then (reading table) (\<lambda>xs.
       if \<not> list_ex hit xs then fail (new_not_found entity) else writing (put (filter (\<lambda>x. \<not> hit x) xs))))"

definition replace_monthly :: "hotel_env \<Rightarrow> uuid \<Rightarrow> int \<Rightarrow> monthly_rate list \<Rightarrow> (hotel_db, unit) uow" where
  "replace_monthly env hid year rates =
     and_then (hotel_find env hid) (\<lambda>_.
       writing (\<lambda>db. db\<lparr>hd_monthly := filter (\<lambda>m. \<not> (mo_hotel m = hid \<and> mo_year m = year)) (hd_monthly db)
         @ map (\<lambda>m. m\<lparr>mo_hotel := hid, mo_year := year\<rparr>) rates\<rparr>))"

section \<open>Service\<close>

definition hotel_record :: "hotel_env \<Rightarrow> string \<Rightarrow> hotel \<Rightarrow> (hotel_db, unit) uow" where
  "hotel_record env action h =
     (case he_audit env of Some e \<Rightarrow> fail e | None \<Rightarrow> writing (\<lambda>db. db\<lparr>hd_log := hd_log db @ [(action, h_id h)]\<rparr>))"

record hotel_input =
  hi_name :: string
  hi_name_ar :: string
  hi_stars :: int
  hi_location :: hotel_location
  hi_contact :: hotel_contact
  hi_room_types :: "string list"
  hi_meal_plans :: "string list"
  hi_currency :: string
  hi_markup :: markup
  hi_child_policy :: "child_policy option"
  hi_cancellation :: "cancellation_policy option"
  hi_notes :: string
  hi_active :: "bool option"
  hi_monthly :: "monthly_rate list"

definition apply_input :: "hotel_input \<Rightarrow> hotel \<Rightarrow> hotel" where
  "apply_input i h =
     h\<lparr>h_name := hi_name i, h_name_ar := hi_name_ar i, h_stars := hi_stars i, h_location := hi_location i, h_contact := hi_contact i,
       h_room_types := hi_room_types i, h_meal_plans := hi_meal_plans i, h_currency := hi_currency i, h_markup := hi_markup i,
       h_notes := hi_notes i,
       h_child_policy := (case hi_child_policy i of Some p \<Rightarrow> p | None \<Rightarrow> h_child_policy h),
       h_cancellation := (case hi_cancellation i of Some c \<Rightarrow> c | None \<Rightarrow> h_cancellation h),
       h_active := (case hi_active i of Some b \<Rightarrow> b | None \<Rightarrow> h_active h)\<rparr>"

record hotel_detail =
  dt_hotel :: hotel
  dt_seasons :: "season list"
  dt_monthly :: "monthly_rate list"
  dt_allotments :: "allotment list"
  dt_stops :: "stop_sale list"

definition detail_of :: "hotel_env \<Rightarrow> hotel \<Rightarrow> (hotel_db, hotel_detail) uow" where
  "detail_of env h =
     and_then (list_seasons env (h_id h)) (\<lambda>ss.
     and_then (list_allotments env (h_id h)) (\<lambda>al.
     and_then (list_stops env (h_id h)) (\<lambda>st.
     and_then (list_monthly env (h_id h)) (\<lambda>mo.
       ret \<lparr>dt_hotel = h, dt_seasons = ss, dt_monthly = mo, dt_allotments = al, dt_stops = st\<rparr>))))"

definition rate_year :: "go_time \<Rightarrow> monthly_rate \<Rightarrow> int" where
  "rate_year now r = (if mo_year r = 0 then fst (time_date now) else mo_year r)"

text \<open>One sheet per year; the order of the years does not matter to the rows written.\<close>

primrec write_sheets :: "hotel_env \<Rightarrow> hotel \<Rightarrow> (int \<times> monthly_rate list) list \<Rightarrow> (hotel_db, monthly_rate list) uow" where
  "write_sheets env h [] = ret []"
| "write_sheets env h (y # ys) =
     and_then (lift_result (normalize_year_sheet h (fst y) (snd y))) (\<lambda>clean.
     and_then (replace_monthly env (h_id h) (fst y) clean) (\<lambda>_.
     and_then (write_sheets env h ys) (\<lambda>rest. ret (clean @ rest))))"

definition hotel_create :: "hotel_env \<Rightarrow> uuid \<Rightarrow> hotel_input \<Rightarrow> (hotel_db, hotel_detail) uow" where
  "hotel_create env branch i =
     (if branch = uuid_nil then fail (new_validation ''branch_id is required'')
      else case he_plan env of
        Some e \<Rightarrow> fail e
      | None \<Rightarrow>
          let now = he_now env;
              h = apply_input i \<lparr>h_id = he_id env, h_branch = branch, h_name = [], h_name_ar = [], h_stars = 0,
                    h_location = hi_location i, h_contact = hi_contact i, h_room_types = [], h_meal_plans = [], h_currency = [],
                    h_markup = hi_markup i, h_child_policy = default_child_policy, h_cancellation = default_hotel_cancellation,
                    h_notes = [], h_active = True, h_created = now, h_updated = now\<rparr>;
              years = remdups (map (rate_year now) (hi_monthly i));
              by_year = map (\<lambda>y. (y, filter (\<lambda>r. rate_year now r = y) (hi_monthly i))) years
          in and_then (lift_result (hotel_normalize (he_mail env) h)) (\<lambda>h.
             and_then (insert_hotel env h) (\<lambda>_.
             and_then (write_sheets env h by_year) (\<lambda>monthly.
             and_then (hotel_record env ''hotel.created'' h) (\<lambda>_.
               ret \<lparr>dt_hotel = h, dt_seasons = [], dt_monthly = monthly, dt_allotments = [], dt_stops = []\<rparr>)))))"

definition in_use :: "string \<Rightarrow> string \<Rightarrow> error" where
  "in_use what wh = with_details (new_conflict (what @ '' is still used by '' @ wh)) [(''room_types'', [what @ '' is still used by '' @ wh])]"

definition ensure_still_offered :: "hotel \<Rightarrow> hotel_detail \<Rightarrow> error option" where
  "ensure_still_offered h d =
     (case find (\<lambda>(s, r). \<not> supports h (rt_room r) (rt_meal r)) (concat (map (\<lambda>s. map (\<lambda>r. (s, r)) (se_rates s)) (dt_seasons d))) of
        Some (s, r) \<Rightarrow> Some (in_use (rt_room r @ ''/'' @ rt_meal r) (''season '' @ se_name s))
      | None \<Rightarrow>
          (case find (\<lambda>a. al_room a \<notin> set (h_room_types h)) (dt_allotments d) of
             Some a \<Rightarrow> Some (in_use (al_room a) ''an allotment'')
           | None \<Rightarrow>
               (case find (\<lambda>s. so_room s \<noteq> [] \<and> so_room s \<notin> set (h_room_types h)) (dt_stops d) of
                  Some s \<Rightarrow> Some (in_use (so_room s) ''a stop sale'')
                | None \<Rightarrow> None)))"

definition fail_if :: "error option \<Rightarrow> (hotel_db, unit) uow" where
  "fail_if e = (case e of Some x \<Rightarrow> fail x | None \<Rightarrow> ret ())"

definition hotel_update :: "hotel_env \<Rightarrow> uuid \<Rightarrow> hotel_input \<Rightarrow> (hotel_db, hotel_detail) uow" where
  "hotel_update env hid i =
     and_then (hotel_find env hid) (\<lambda>h.
     and_then (lift_result (hotel_normalize (he_mail env) ((apply_input i h)\<lparr>h_updated := he_now env\<rparr>))) (\<lambda>h.
     and_then (detail_of env h) (\<lambda>d.
     and_then (fail_if (ensure_still_offered h d)) (\<lambda>_.
     and_then (update_hotel env h) (\<lambda>_.
     and_then (hotel_record env ''hotel.updated'' h) (\<lambda>_. ret (d\<lparr>dt_hotel := h\<rparr>)))))))"

record season_input =
  si_name :: string
  si_kind :: string
  si_start :: go_time
  si_end :: go_time
  si_markup :: "markup option"
  si_rates :: "rate list"

definition season_base :: "hotel_env \<Rightarrow> uuid \<Rightarrow> uuid option \<Rightarrow> season list \<Rightarrow> season result" where
  "season_base env hid i seasons =
     (case i of
        None \<Rightarrow> Inr \<lparr>se_id = he_id env, se_hotel = hid, se_name = [], se_kind = [], se_start = zero_time, se_end = zero_time,
                     se_markup = None, se_rates = [], se_created = he_now env, se_updated = zero_time\<rparr>
      | Some j \<Rightarrow> (case find (\<lambda>s. se_id s = j) seasons of None \<Rightarrow> Inl (new_not_found ''season'') | Some s \<Rightarrow> Inr s))"

definition fill_season :: "season_input \<Rightarrow> go_time \<Rightarrow> season \<Rightarrow> season" where
  "fill_season inp now s =
     s\<lparr>se_name := si_name inp, se_kind := si_kind inp, se_start := si_start inp, se_end := si_end inp, se_markup := si_markup inp,
       se_rates := si_rates inp, se_updated := now\<rparr>"

definition save_season :: "hotel_env \<Rightarrow> uuid \<Rightarrow> uuid option \<Rightarrow> season_input \<Rightarrow> (hotel_db, season) uow" where
  "save_season env hid i inp =
     and_then (hotel_find env hid) (\<lambda>h.
     and_then (list_seasons env hid) (\<lambda>seasons.
     and_then (lift_result (season_base env hid i seasons)) (\<lambda>s0.
     and_then (lift_result (season_normalize h (fill_season inp (he_now env) s0))) (\<lambda>s.
     and_then (fail_if (ensure_no_overlap s seasons)) (\<lambda>_.
     and_then (upsert_season env s) (\<lambda>_.
     and_then (hotel_record env (if i = None then ''hotel.season_created'' else ''hotel.season_updated'') h) (\<lambda>_. ret s)))))))"

definition delete_season :: "hotel_env \<Rightarrow> uuid \<Rightarrow> uuid \<Rightarrow> (hotel_db, unit) uow" where
  "delete_season env hid i =
     and_then (hotel_find env hid) (\<lambda>h.
     and_then (delete_child env ''season'' hid hd_seasons (\<lambda>s. se_id s = i \<and> se_hotel s = hid) (\<lambda>xs db. db\<lparr>hd_seasons := xs\<rparr>)) (\<lambda>_.
       hotel_record env ''hotel.season_deleted'' h))"

record allotment_input =
  ai_room :: string
  ai_kind :: string
  ai_start :: go_time
  ai_end :: go_time
  ai_rooms :: int
  ai_release :: int
  ai_notes :: string

definition allotment_base :: "hotel_env \<Rightarrow> uuid \<Rightarrow> uuid option \<Rightarrow> (hotel_db, allotment) uow" where
  "allotment_base env hid i =
     (case i of
        None \<Rightarrow> ret \<lparr>al_id = he_id env, al_hotel = hid, al_room = [], al_kind = [], al_start = zero_time, al_end = zero_time,
                     al_rooms = 0, al_sold = 0, al_release = 0, al_notes = [], al_created = he_now env, al_updated = zero_time\<rparr>
      | Some j \<Rightarrow> find_allotment env hid j)"

definition fill_allotment :: "allotment_input \<Rightarrow> go_time \<Rightarrow> allotment \<Rightarrow> allotment" where
  "fill_allotment inp now a =
     a\<lparr>al_room := ai_room inp, al_kind := ai_kind inp, al_start := ai_start inp, al_end := ai_end inp, al_rooms := ai_rooms inp,
       al_release := ai_release inp, al_notes := ai_notes inp, al_updated := now\<rparr>"

definition save_allotment :: "hotel_env \<Rightarrow> uuid \<Rightarrow> uuid option \<Rightarrow> allotment_input \<Rightarrow> (hotel_db, allotment) uow" where
  "save_allotment env hid i inp =
     and_then (hotel_find env hid) (\<lambda>h.
     and_then (allotment_base env hid i) (\<lambda>a0.
     and_then (lift_result (allotment_normalize h (fill_allotment inp (he_now env) a0))) (\<lambda>a.
     and_then (upsert_allotment env a) (\<lambda>_.
     and_then (hotel_record env (if i = None then ''hotel.allotment_created'' else ''hotel.allotment_updated'') h) (\<lambda>_. ret a)))))"

definition hotel_today :: "hotel_env \<Rightarrow> go_time" where "hotel_today env = hotel_day (he_now env) (he_loc env)"

definition adjust_allotment :: "hotel_env \<Rightarrow> uuid \<Rightarrow> uuid \<Rightarrow> int \<Rightarrow> (hotel_db, allotment) uow" where
  "adjust_allotment env hid i delta =
     and_then (hotel_find env hid) (\<lambda>h.
     and_then (find_allotment env hid i) (\<lambda>a.
     and_then (ensure (\<not> (delta > 0 \<and> available a (hotel_today env) < delta)) (new_invalid_state ''not enough rooms left in the allotment'')) (\<lambda>_.
     and_then (lift_result (adjust_sold a delta (he_now env))) (\<lambda>a.
     and_then (upsert_allotment env a) (\<lambda>_.
     and_then (hotel_record env ''hotel.allotment_adjusted'' h) (\<lambda>_. ret a))))))"

definition delete_allotment :: "hotel_env \<Rightarrow> uuid \<Rightarrow> uuid \<Rightarrow> (hotel_db, unit) uow" where
  "delete_allotment env hid i =
     and_then (hotel_find env hid) (\<lambda>h.
     and_then (find_allotment env hid i) (\<lambda>a.
     and_then (ensure (\<not> (al_sold a > 0 \<and> allot_status a (hotel_today env) \<noteq> AllotExpired)) (new_invalid_state ''return the sold rooms before deleting the allotment'')) (\<lambda>_.
     and_then (delete_child env ''allotment'' hid hd_allotments (\<lambda>a. al_id a = i \<and> al_hotel a = hid) (\<lambda>xs db. db\<lparr>hd_allotments := xs\<rparr>)) (\<lambda>_.
       hotel_record env ''hotel.allotment_deleted'' h))))"

definition create_stop_sale :: "hotel_env \<Rightarrow> uuid \<Rightarrow> uuid \<Rightarrow> go_time \<Rightarrow> go_time \<Rightarrow> string \<Rightarrow> string \<Rightarrow> (hotel_db, stop_sale) uow" where
  "create_stop_sale env hid actor start end' room reason =
     and_then (hotel_find env hid) (\<lambda>h.
     and_then (lift_result (stop_sale_normalize h \<lparr>so_id = he_id env, so_hotel = hid, so_start = start, so_end = end', so_room = room,
         so_reason = reason, so_by = (if actor = uuid_nil then None else Some actor), so_created = he_now env\<rparr>)) (\<lambda>s.
     and_then (insert_stop env s) (\<lambda>_.
     and_then (hotel_record env ''hotel.stop_sale_created'' h) (\<lambda>_. ret s))))"

definition delete_stop_sale :: "hotel_env \<Rightarrow> uuid \<Rightarrow> uuid \<Rightarrow> (hotel_db, unit) uow" where
  "delete_stop_sale env hid i =
     and_then (hotel_find env hid) (\<lambda>h.
     and_then (delete_child env ''stop sale'' hid hd_stops (\<lambda>s. so_id s = i \<and> so_hotel s = hid) (\<lambda>xs db. db\<lparr>hd_stops := xs\<rparr>)) (\<lambda>_.
       hotel_record env ''hotel.stop_sale_deleted'' h))"

definition replace_monthly_rates :: "hotel_env \<Rightarrow> uuid \<Rightarrow> int \<Rightarrow> monthly_rate list \<Rightarrow> (hotel_db, hotel_detail) uow" where
  "replace_monthly_rates env hid year rates =
     and_then (hotel_find env hid) (\<lambda>h.
     and_then (lift_result (normalize_year_sheet h year rates)) (\<lambda>clean.
     and_then (replace_monthly env hid year clean) (\<lambda>_.
     and_then (detail_of env h) (\<lambda>d.
     and_then (hotel_record env ''hotel.monthly_rates_replaced'' h) (\<lambda>_. ret d)))))"

definition hotel_get :: "hotel_env \<Rightarrow> uuid \<Rightarrow> (hotel_db, hotel_detail) uow" where
  "hotel_get env hid = and_then (hotel_find env hid) (detail_of env)"

definition hotel_quote :: "hotel_env \<Rightarrow> uuid \<Rightarrow> quote_request \<Rightarrow> (hotel_db, quote) uow" where
  "hotel_quote env hid req =
     and_then (hotel_get env hid) (\<lambda>d.
       lift_result (price (dt_hotel d) (dt_seasons d) (dt_allotments d) (dt_stops d) (req\<lparr>qr_today := hotel_today env\<rparr>) (dt_monthly d)))"

section \<open>What the normalisers establish\<close>

lemma markup_normalize_ok: "markup_normalize m = Inr m' \<Longrightarrow> markup_ok m'"
  by (auto simp: markup_normalize_def Let_def markup_ok_def split: if_splits)

lemma child_rule_normalize_ok: "child_rule_normalize n b r = Inr r' \<Longrightarrow> child_rule_ok r'"
  by (auto simp: child_rule_normalize_def Let_def child_rule_ok_def split: if_splits)

lemma bind_sum_Inr: "bind_sum r f = Inr y \<longleftrightarrow> (\<exists>x. r = Inr x \<and> f x = Inr y)"
  by (cases r) (auto simp: bind_sum_def)

lemma child_policy_normalize_ok:
  assumes "child_policy_normalize p = Inr p'"
  shows "child_policy_ok p'"
proof -
  define q where "q = (if cp_infant_max p = 0 \<and> cp_child1_max p = 0 \<and> cp_child2_max p = 0
               then p\<lparr>cp_infant_max := 2, cp_child1_max := 6, cp_child2_max := 12\<rparr> else p)"
  from assms [unfolded child_policy_normalize_def Let_def q_def [symmetric]] show ?thesis
    by (auto simp: bind_sum_Inr child_policy_ok_def amount_bad_def dest!: child_rule_normalize_ok split: if_splits)
qed

lemma tiers_normalize_ok:
  "tiers_normalize free seen ts = Inr ts' \<Longrightarrow>
     list_all (tier_ok free) ts' \<and> distinct (map pt_min_days ts') \<and> pt_min_days ` set ts' \<inter> seen = {}"
proof (induction ts arbitrary: seen ts')
  case (Cons t0 ts)
  define t where "t = t0\<lparr>pt_kind := to_lower (trim_space (pt_kind t0))\<rparr>"
  from Cons.prems have p: "tier_problem free seen t = None" unfolding tiers_normalize.simps Let_def t_def [symmetric] by (auto split: option.splits)
  with Cons.prems obtain rest where r: "tiers_normalize free (insert (pt_min_days t) seen) ts = Inr rest" "ts' = t # rest"
    unfolding tiers_normalize.simps Let_def t_def [symmetric] by (auto simp: bind_sum_Inr)
  have "tier_ok free t" "pt_min_days t \<notin> seen" using p by (auto simp: tier_problem_def tier_ok_def split: if_splits)
  then show ?case using Cons.IH [OF r(1)] r(2) by auto
qed simp

lemma sorted_strict:
  "distinct (map f xs) \<Longrightarrow> sorted_wrt (\<lambda>a b. f a \<le> f b) xs \<Longrightarrow> sorted_wrt (\<lambda>a b. f a < (f b :: int)) xs"
  by (induction xs) (auto simp: image_iff order.strict_iff_order)

lemma cancellation_normalize_ok:
  assumes "cancellation_normalize c = Inr c'"
  shows "cancellation_ok c'"
proof -
  obtain ts where ts: "tiers_normalize (cn_free_days c) {} (cn_tiers c) = Inr ts" "c' = c\<lparr>cn_tiers := sort_key (\<lambda>t. - pt_min_days t) ts\<rparr>"
    and b: "0 \<le> cn_free_days c" "cn_free_days c \<le> 365" "0 \<le> cn_no_show c" "cn_no_show c \<le> 100"
    using assms by (auto simp: cancellation_normalize_def bind_sum_Inr split: if_splits)
  let ?s = "sort_key (\<lambda>t. - pt_min_days t) ts"
  note t = tiers_normalize_ok [OF ts(1)]
  have "distinct (map pt_min_days ?s)"
  proof -
    have "mset (map pt_min_days ?s) = mset (map pt_min_days ts)" by simp
    then show ?thesis using t mset_eq_imp_distinct_iff by blast
  qed
  then have "distinct (map (\<lambda>t. - pt_min_days t) ?s)" by (auto simp: distinct_map inj_on_def)
  moreover have "sorted_wrt (\<lambda>a b. - pt_min_days a \<le> - pt_min_days b) ?s"
    using sorted_sort_key [of "\<lambda>t. - pt_min_days t" ts] by (simp add: sorted_map)
  ultimately have "sorted_wrt (\<lambda>a b. - pt_min_days a < - pt_min_days b) ?s" by (rule sorted_strict)
  then show ?thesis using t b by (auto simp: cancellation_ok_def ts(2) list_all_iff)
qed

lemma field_sum_Nil: "field_sum k r old f = ([], x) \<Longrightarrow> f = [] \<and> r = Inr x"
  by (auto simp: field_sum_def split: sum.splits)

lemma hotel_normalize_ok:
  assumes "hotel_normalize pa h = Inr h'"
  shows "hotel_ok h'" "h_id h' = h_id h" "h_branch h' = h_branch h" "h_created h' = h_created h"
proof -
  from assms obtain f0 f1 f2 f3 m cp cn l c rooms meals where
    f: "field_sum ''markup'' (markup_normalize (h_markup h)) (h_markup h) f0 = (f1, m)"
       "field_sum ''child_policy'' (child_policy_normalize (h_child_policy h)) (h_child_policy h) f1 = (f2, cp)"
       "field_sum ''cancellation'' (cancellation_normalize (h_cancellation h)) (h_cancellation h) f2 = (f3, cn)" "f3 = []"
    and h': "h' = h\<lparr>h_name := trim_space (h_name h), h_name_ar := trim_space (h_name_ar h), h_notes := trim_space (h_notes h),
        h_currency := to_upper (trim_space (h_currency h)), h_location := l, h_contact := c,
        h_room_types := rooms, h_meal_plans := meals, h_markup := m, h_child_policy := cp, h_cancellation := cn\<rparr>"
    unfolding hotel_normalize_def Let_def by (auto split: prod.splits option.splits)
  have 3: "f2 = [] \<and> cancellation_normalize (h_cancellation h) = Inr cn" using f(3) unfolding f(4) by (rule field_sum_Nil)
  then have 2: "f1 = [] \<and> child_policy_normalize (h_child_policy h) = Inr cp" using f(2) field_sum_Nil by metis
  then have "markup_normalize (h_markup h) = Inr m" using f(1) field_sum_Nil by metis
  with 2 3 have "cancellation_normalize (h_cancellation h) = Inr cn" "child_policy_normalize (h_child_policy h) = Inr cp"
    "markup_normalize (h_markup h) = Inr m" by auto
  then show "hotel_ok h'" using markup_normalize_ok child_policy_normalize_ok cancellation_normalize_ok by (auto simp: hotel_ok_def h')
  show "h_id h' = h_id h" "h_branch h' = h_branch h" "h_created h' = h_created h" by (simp_all add: h')
qed

lemma rate_problem_None: "rate_problem h seen r = None \<Longrightarrow> supports h (rt_room r) (rt_meal r) \<and> rate_ok r"
  by (auto simp: rate_problem_def rate_ok_def split: if_splits)

lemma check_rates_Nil: "check_rates h seen rs f = [] \<Longrightarrow> f = [] \<and> (\<forall>r \<in> set rs. supports h (rt_room r) (rt_meal r) \<and> rate_ok r)"
proof (induction rs arbitrary: seen f)
  case (Cons r rs)
  note ih = Cons.IH [OF Cons.prems [unfolded check_rates.simps]]
  then show ?case using rate_problem_None [of h seen r] by (cases "rate_problem h seen r") auto
qed simp

lemma valid_range_Nil: "valid_range s e f = [] \<Longrightarrow> f = [] \<and> \<not> before e s"
  by (auto simp: valid_range_def split: if_splits)

lemma season_normalize_ok:
  assumes "season_normalize h s = Inr s'"
  shows "season_ok s'" "\<forall>r \<in> set (se_rates s'). supports h (rt_room r) (rt_meal r)"
    "se_id s' = se_id s" "se_hotel s' = se_hotel s" "se_created s' = se_created s"
proof -
  define rates where "rates = map clean_rate (se_rates s)"
  define kind where "kind = to_lower (trim_space (se_kind s))"
  define name where "name = clip (se_name s) 80"
  define f2 where "f2 = field_check (name = []) ''name'' ''required'' (field_check (kind \<notin> set season_kinds) ''kind'' ''low, shoulder, high or peak'' [])"
  define f0 where f0: "f0 = valid_range (se_start s) (se_end s) f2"
  obtain f1 m where
    m: "(case se_markup s of None \<Rightarrow> (f0, None) | Some m \<Rightarrow> (let (f, m') = field_sum ''markup'' (markup_normalize m) m f0 in (f, Some m'))) = (f1, m)"
    by fastforce
  have c: "check_rates h {} rates (field_check (rates = []) ''rates'' ''add at least one rate'' f1) = []"
    and s': "s' = s\<lparr>se_kind := kind, se_name := name, se_markup := m,
        se_rates := sort_key (\<lambda>r. index_of room_types (rt_room r) * 8 + index_of meal_plans (rt_meal r)) rates\<rparr>"
    using assms unfolding season_normalize_def Let_def rates_def [symmetric] kind_def [symmetric] name_def [symmetric] f2_def [symmetric] f0 [symmetric]
      m [unfolded Let_def] by (auto split: option.splits)
  note r = check_rates_Nil [OF c]
  then have f1: "f1 = []" by simp
  have "f0 = [] \<and> (case m of None \<Rightarrow> True | Some m \<Rightarrow> markup_ok m)"
    using m f1 by (auto simp: Let_def dest: field_sum_Nil markup_normalize_ok split: option.splits prod.splits)
  moreover from this have "\<not> before (se_end s) (se_start s)" using valid_range_Nil f0 by metis
  ultimately show "season_ok s'" using r by (auto simp: season_ok_def s' list_all_iff)
  show "\<forall>r \<in> set (se_rates s'). supports h (rt_room r) (rt_meal r)" using r by (auto simp: s')
  show "se_id s' = se_id s" "se_hotel s' = se_hotel s" "se_created s' = se_created s" by (simp_all add: s')
qed

definition allot_ok :: "allotment \<Rightarrow> bool" where
  "allot_ok a \<longleftrightarrow> 1 \<le> al_rooms a \<and> al_rooms a \<le> 10000 \<and> 0 \<le> al_sold a \<and> al_sold a \<le> al_rooms a"

lemma allotment_normalize_ok:
  assumes "allotment_normalize h a = Inr a'"
  shows "allot_ok a'" "al_room a' \<in> set (h_room_types h)" "al_id a' = al_id a" "al_hotel a' = al_hotel a" "al_sold a' = al_sold a"
  using assms by (auto simp: allotment_normalize_def Let_def allot_ok_def dest!: valid_range_Nil split: option.splits)

lemma stop_sale_normalize_ok:
  assumes "stop_sale_normalize h s = Inr s'"
  shows "so_room s' = [] \<or> so_room s' \<in> set (h_room_types h)" "so_hotel s' = so_hotel s" "so_id s' = so_id s"
  using assms by (auto simp: stop_sale_normalize_def Let_def dest!: valid_range_Nil split: option.splits)

lemma year_sheet_ok: "year_sheet_loop h y seen rs f = (out, []) \<Longrightarrow> list_all monthly_ok out"
proof (induction rs arbitrary: seen f out)
  case (Cons r0 rs)
  define r where "r = sheet_cell h y r0"
  show ?case
  proof (cases "cell_problem h seen r")
    case None
    then have "monthly_ok r" by (auto simp: cell_problem_def monthly_ok_def split: if_splits)
    then show ?thesis using Cons None unfolding year_sheet_loop.simps Let_def r_def [symmetric] by (auto split: if_splits prod.splits)
  next
    case (Some p)
    then show ?thesis using Cons unfolding year_sheet_loop.simps Let_def r_def [symmetric] by (cases p) auto
  qed
qed simp

lemma normalize_year_sheet_ok: "normalize_year_sheet h y rs = Inr out \<Longrightarrow> list_all monthly_ok out"
  by (auto simp: normalize_year_sheet_def dest: year_sheet_ok split: prod.splits option.splits)

lemma adjust_sold_ok:
  assumes "adjust_sold a delta now = Inr a'" "allot_ok a"
  shows "allot_ok a'" "al_id a' = al_id a" "al_hotel a' = al_hotel a" "al_room a' = al_room a"
  using assms by (auto simp: adjust_sold_def Let_def allot_ok_def split: if_splits)

section \<open>The contract invariant\<close>

definition seasons_ok :: "season list \<Rightarrow> bool" where
  "seasons_ok ss \<longleftrightarrow> distinct (map se_id ss) \<and> (\<forall>s \<in> set ss. season_ok s)
     \<and> (\<forall>s \<in> set ss. \<forall>t \<in> set ss. se_hotel s = se_hotel t \<longrightarrow> \<not> overlaps s t)"

definition offered :: "hotel \<Rightarrow> hotel_db \<Rightarrow> bool" where
  "offered h db \<longleftrightarrow> (\<forall>s \<in> set (hd_seasons db). se_hotel s = h_id h \<longrightarrow> (\<forall>r \<in> set (se_rates s). supports h (rt_room r) (rt_meal r)))
     \<and> (\<forall>a \<in> set (hd_allotments db). al_hotel a = h_id h \<longrightarrow> al_room a \<in> set (h_room_types h))
     \<and> (\<forall>s \<in> set (hd_stops db). so_hotel s = h_id h \<longrightarrow> so_room s = [] \<or> so_room s \<in> set (h_room_types h))"

definition owned :: "hotel_db \<Rightarrow> bool" where
  "owned db \<longleftrightarrow> se_hotel ` set (hd_seasons db) \<union> al_hotel ` set (hd_allotments db) \<union> so_hotel ` set (hd_stops db) \<subseteq> h_id ` set (hd_hotels db)"

definition hotel_db_ok :: "hotel_db \<Rightarrow> bool" where
  "hotel_db_ok db \<longleftrightarrow> distinct (map h_id (hd_hotels db)) \<and> (\<forall>h \<in> set (hd_hotels db). hotel_ok h \<and> offered h db)
     \<and> seasons_ok (hd_seasons db) \<and> (\<forall>a \<in> set (hd_allotments db). allot_ok a) \<and> (\<forall>m \<in> set (hd_monthly db). monthly_ok m) \<and> owned db"

lemma hotel_findE:
  assumes "hotel_find env i db = Inr (h, db')"
  obtains "db' = db" "h \<in> set (hd_hotels db)" "h_id h = i"
  using assms by (auto simp: hotel_find_def dest!: find_mem elim!: and_then_InrE lift_result_InrE split: option.splits)

lemma list_seasonsE:
  assumes "list_seasons env hid db = Inr (ss, db')"
  obtains "db' = db" "set ss = {s \<in> set (hd_seasons db). se_hotel s = hid}"
  using assms by (auto simp: list_seasons_def elim!: and_then_InrE hotel_findE)

lemma detail_ofE:
  assumes "detail_of env h db = Inr (d, db')"
  obtains "db' = db" "dt_hotel d = h" "set (dt_seasons d) = {s \<in> set (hd_seasons db). se_hotel s = h_id h}"
    "set (dt_allotments d) = {a \<in> set (hd_allotments db). al_hotel a = h_id h}"
    "set (dt_stops d) = {s \<in> set (hd_stops db). so_hotel s = h_id h}"
    "set (dt_monthly d) = {m \<in> set (hd_monthly db). mo_hotel m = h_id h}"
  using assms
  by (auto simp: detail_of_def list_allotments_def list_stops_def list_monthly_def elim!: and_then_InrE hotel_findE list_seasonsE)

lemma find_allotmentE:
  assumes "find_allotment env hid i db = Inr (a, db')"
  obtains "db' = db" "a \<in> set (hd_allotments db)" "al_id a = i" "al_hotel a = hid"
  using assms by (auto simp: find_allotment_def dest!: find_mem elim!: and_then_InrE hotel_findE split: option.splits)

lemma hotel_unique: "hotel_db_ok db \<Longrightarrow> h \<in> set (hd_hotels db) \<Longrightarrow> h' \<in> set (hd_hotels db) \<Longrightarrow> h_id h = h_id h' \<Longrightarrow> h = h'"
  by (auto simp: hotel_db_ok_def distinct_map inj_on_def)

lemma record_keeps: "hotel_record env act h db = Inr (u, db') \<Longrightarrow> hotel_db_ok db \<Longrightarrow> hotel_db_ok db'"
proof -
  have "hotel_db_ok (db\<lparr>hd_log := l\<rparr>) = hotel_db_ok db" for l by (simp add: hotel_db_ok_def offered_def owned_def)
  then show "hotel_record env act h db = Inr (u, db') \<Longrightarrow> hotel_db_ok db \<Longrightarrow> hotel_db_ok db'"
    by (auto simp: hotel_record_def split: option.splits)
qed

text \<open>Writing a season that is sound, offered and free of overlaps keeps the invariant.\<close>

lemma upsert_season_keeps:
  assumes ok: "hotel_db_ok db" and u: "upsert_season env s db = Inr (u, db')"
    and s: "season_ok s" "h \<in> set (hd_hotels db)" "se_hotel s = h_id h" "\<forall>r \<in> set (se_rates s). supports h (rt_room r) (rt_meal r)"
    and free: "\<And>t. t \<in> set (hd_seasons db) \<Longrightarrow> se_hotel t = h_id h \<Longrightarrow> \<not> overlaps s t"
  shows "hotel_db_ok db'"
proof -
  define ss where "ss = (if list_ex (\<lambda>x. se_id x = se_id s) (hd_seasons db)
      then map (\<lambda>x. if se_id x = se_id s \<and> se_hotel x = se_hotel s then s\<lparr>se_created := se_created x\<rparr> else x) (hd_seasons db)
      else hd_seasons db @ [s])"
  have db': "db' = db\<lparr>hd_seasons := ss\<rparr>" using u by (auto simp: upsert_season_def ss_def elim!: and_then_InrE hotel_findE)
  have old: "seasons_ok (hd_seasons db)" using ok by (simp add: hotel_db_ok_def)
  have like: "x \<in> set (hd_seasons db) \<or> (\<exists>c. x = s\<lparr>se_created := c\<rparr>)" if "x \<in> set ss" for x
  proof -
    have self: "s\<lparr>se_created := se_created s\<rparr> = s" by simp
    have "x \<in> set (hd_seasons db) \<or> x = s \<or> (\<exists>c. x = s\<lparr>se_created := c\<rparr>)" using that by (auto simp: ss_def split: if_splits)
    then show ?thesis using self by metis
  qed
  have so: "season_ok (s\<lparr>se_created := c\<rparr>)" for c using s(1) by (simp add: season_ok_def)
  have free': "\<not> overlaps (s\<lparr>se_created := c\<rparr>) t" "\<not> overlaps t (s\<lparr>se_created := c\<rparr>)" if "t \<in> set (hd_seasons db)" "se_hotel t = se_hotel s" for t c
    using free [OF that(1)] that(2) s(3) by (auto simp: overlaps_def)
  have "seasons_ok ss" unfolding seasons_ok_def
  proof (intro conjI ballI impI)
    have "map se_id (map (\<lambda>x. if se_id x = se_id s \<and> se_hotel x = se_hotel s then s\<lparr>se_created := se_created x\<rparr> else x) xs) = map se_id xs" for xs by simp
    then show "distinct (map se_id ss)" using old by (auto simp: ss_def seasons_ok_def list_ex_iff simp del: map_map)
    show "season_ok x" if "x \<in> set ss" for x using like [OF that] old so by (auto simp: seasons_ok_def)
    show "\<not> overlaps x y" if "x \<in> set ss" "y \<in> set ss" "se_hotel x = se_hotel y" for x y
    proof -
      have self: "\<not> overlaps (s\<lparr>se_created := c\<rparr>) (s\<lparr>se_created := c'\<rparr>)" for c c' by (simp add: overlaps_def)
      show ?thesis using like [OF that(1)] like [OF that(2)]
      proof (elim disjE exE)
        assume "x \<in> set (hd_seasons db)" "y \<in> set (hd_seasons db)"
        then show ?thesis using old that(3) by (simp add: seasons_ok_def)
      qed (use free' self that(3) in auto)
    qed
  qed
  moreover have "\<forall>k \<in> set (hd_hotels db). offered k db'"
  proof
    fix k assume k: "k \<in> set (hd_hotels db)"
    have "k = h" if "h_id k = h_id h" using hotel_unique [OF ok k s(2) that] .
    note eq = this
    have off: "offered k db" using ok k by (simp add: hotel_db_ok_def)
    show "offered k db'" unfolding offered_def
    proof (intro conjI ballI impI)
      fix x r assume x: "x \<in> set (hd_seasons db')" "se_hotel x = h_id k" "r \<in> set (se_rates x)"
      then have "x \<in> set ss" by (simp add: db')
      from like [OF this] show "supports k (rt_room r) (rt_meal r)"
      proof
        assume "x \<in> set (hd_seasons db)"
        then show ?thesis using off x by (simp add: offered_def)
      next
        assume "\<exists>c. x = s\<lparr>se_created := c\<rparr>"
        then have "se_hotel x = se_hotel s" "se_rates x = se_rates s" by auto
        with x(2,3) s(3) have "k = h" "r \<in> set (se_rates s)" by (auto intro: eq)
        then show ?thesis using s(4) by blast
      qed
    qed (use off in \<open>simp_all add: db' offered_def\<close>)
  qed
  moreover have "owned db'"
  proof -
    have own: "owned db" using ok by (simp add: hotel_db_ok_def)
    have "se_hotel x \<in> h_id ` set (hd_hotels db)" if "x \<in> set ss" for x
      using like [OF that]
    proof
      assume "x \<in> set (hd_seasons db)"
      then show ?thesis using own by (auto simp: owned_def)
    qed (use s(2,3) in auto)
    then show ?thesis using own by (simp add: owned_def db' image_subset_iff)
  qed
  ultimately show ?thesis using ok by (simp add: hotel_db_ok_def db')
qed

lemma upsert_allotment_keeps:
  assumes ok: "hotel_db_ok db" and u: "upsert_allotment env a db = Inr (u, db')"
    and a: "allot_ok a" "h \<in> set (hd_hotels db)" "al_hotel a = h_id h" "al_room a \<in> set (h_room_types h)"
  shows "hotel_db_ok db'"
proof -
  define xs where "xs = (if list_ex (\<lambda>x. al_id x = al_id a) (hd_allotments db)
      then map (\<lambda>x. if al_id x = al_id a \<and> al_hotel x = al_hotel a then a\<lparr>al_created := al_created x\<rparr> else x) (hd_allotments db)
      else hd_allotments db @ [a])"
  have db': "db' = db\<lparr>hd_allotments := xs\<rparr>" using u by (auto simp: upsert_allotment_def xs_def elim!: and_then_InrE hotel_findE)
  have like: "x \<in> set (hd_allotments db) \<or> (\<exists>c. x = a\<lparr>al_created := c\<rparr>)" if "x \<in> set xs" for x
  proof -
    have self: "a\<lparr>al_created := al_created a\<rparr> = a" by simp
    have "x \<in> set (hd_allotments db) \<or> x = a \<or> (\<exists>c. x = a\<lparr>al_created := c\<rparr>)" using that by (auto simp: xs_def split: if_splits)
    then show ?thesis using self by metis
  qed
  have "allot_ok x" if "x \<in> set xs" for x using like [OF that] ok a(1) by (auto simp: hotel_db_ok_def allot_ok_def)
  moreover have "\<forall>k \<in> set (hd_hotels db). offered k db'"
  proof
    fix k assume k: "k \<in> set (hd_hotels db)"
    have "k = h" if "h_id k = h_id h" using hotel_unique [OF ok k a(2) that] .
    note eq = this
    have off: "offered k db" using ok k by (simp add: hotel_db_ok_def)
    show "offered k db'" unfolding offered_def
    proof (intro conjI ballI impI)
      fix x assume x: "x \<in> set (hd_allotments db')" "al_hotel x = h_id k"
      then have "x \<in> set xs" by (simp add: db')
      from like [OF this] show "al_room x \<in> set (h_room_types k)"
      proof
        assume "x \<in> set (hd_allotments db)"
        then show ?thesis using off x by (simp add: offered_def)
      next
        assume "\<exists>c. x = a\<lparr>al_created := c\<rparr>"
        then have "al_hotel x = al_hotel a" "al_room x = al_room a" by auto
        with x(2) a(3) have "k = h" by (auto intro: eq)
        then show ?thesis using a(4) \<open>al_room x = al_room a\<close> by simp
      qed
    qed (use off in \<open>simp_all add: db' offered_def\<close>)
  qed
  moreover have "owned db'"
  proof -
    have own: "owned db" using ok by (simp add: hotel_db_ok_def)
    have "al_hotel x \<in> h_id ` set (hd_hotels db)" if "x \<in> set xs" for x
      using like [OF that]
    proof
      assume "x \<in> set (hd_allotments db)"
      then show ?thesis using own by (auto simp: owned_def)
    qed (use a(2,3) in auto)
    then show ?thesis using own by (simp add: owned_def db' image_subset_iff)
  qed
  ultimately show ?thesis using ok by (simp add: hotel_db_ok_def db')
qed

text \<open>Deleting children, adding a stop sale that names an offered room, and replacing a sheet by sound cells.\<close>

lemma shrunk_keeps:
  assumes "hotel_db_ok db" "hd_hotels db' = hd_hotels db" "seasons_ok (hd_seasons db')"
    "set (hd_seasons db') \<subseteq> set (hd_seasons db)" "set (hd_allotments db') \<subseteq> set (hd_allotments db)"
    "set (hd_stops db') \<subseteq> set (hd_stops db)" "\<forall>m \<in> set (hd_monthly db'). monthly_ok m"
  shows "hotel_db_ok db'"
proof -
  have "offered h db'" if "h \<in> set (hd_hotels db)" for h
  proof -
    have "offered h db" using assms(1) that by (simp add: hotel_db_ok_def)
    then show ?thesis using assms(4-6) unfolding offered_def by blast
  qed
  moreover have "owned db'"
  proof -
    have "owned db" using assms(1) by (simp add: hotel_db_ok_def)
    then show ?thesis using assms(4-6) unfolding owned_def assms(2) by (meson image_mono order_trans Un_mono)
  qed
  moreover have "\<forall>a \<in> set (hd_allotments db'). allot_ok a" using assms(1,5) by (auto simp: hotel_db_ok_def)
  ultimately show ?thesis using assms(1-3,7) by (simp add: hotel_db_ok_def)
qed

lemma seasons_ok_filter: "seasons_ok ss \<Longrightarrow> seasons_ok (filter p ss)"
  by (auto simp: seasons_ok_def distinct_map_filter)

lemma delete_childE:
  assumes "delete_child env e hid table hit put db = Inr (u, db')"
  obtains "db' = put (filter (\<lambda>x. \<not> hit x) (table db)) db"
  using assms by (auto simp: delete_child_def elim!: and_then_InrE hotel_findE split: if_splits)

lemma insert_stop_keeps:
  assumes ok: "hotel_db_ok db" and i: "insert_stop env s db = Inr (u, db')"
    and s: "h \<in> set (hd_hotels db)" "so_hotel s = h_id h" "so_room s = [] \<or> so_room s \<in> set (h_room_types h)"
  shows "hotel_db_ok db'"
proof -
  have db': "db' = db\<lparr>hd_stops := hd_stops db @ [s]\<rparr>"
    using i by (auto simp: insert_stop_def elim!: and_then_InrE hotel_findE split: if_splits)
  have "offered k db'" if k: "k \<in> set (hd_hotels db)" for k
  proof -
    have "offered k db" using ok k by (simp add: hotel_db_ok_def)
    moreover have "so_room s = [] \<or> so_room s \<in> set (h_room_types k)" if "so_hotel s = h_id k"
      using hotel_unique [OF ok k s(1)] that s(2,3) by metis
    ultimately show ?thesis by (auto simp: offered_def db')
  qed
  moreover have "owned db'" using ok s(1,2) by (simp add: hotel_db_ok_def owned_def db')
  ultimately show ?thesis using ok by (simp add: hotel_db_ok_def db')
qed

lemma replace_monthly_keeps:
  assumes ok: "hotel_db_ok db" and r: "replace_monthly env hid y rs db = Inr (u, db')" and rs: "list_all monthly_ok rs"
  shows "hotel_db_ok db'"
proof -
  have db': "db' = db\<lparr>hd_monthly := filter (\<lambda>m. \<not> (mo_hotel m = hid \<and> mo_year m = y)) (hd_monthly db) @ map (\<lambda>m. m\<lparr>mo_hotel := hid, mo_year := y\<rparr>) rs\<rparr>"
    using r by (auto simp: replace_monthly_def elim!: and_then_InrE hotel_findE)
  have "monthly_ok (m\<lparr>mo_hotel := hid, mo_year := y\<rparr>)" if "monthly_ok m" for m using that by (simp add: monthly_ok_def)
  then have "\<forall>m \<in> set (hd_monthly db'). monthly_ok m" using ok rs by (auto simp: db' hotel_db_ok_def list_all_iff)
  then show ?thesis using ok by (intro shrunk_keeps [OF ok]) (auto simp: db' hotel_db_ok_def)
qed

lemma write_sheets_keeps: "write_sheets env h ys db = Inr (x, db') \<Longrightarrow> hotel_db_ok db \<Longrightarrow> hotel_db_ok db'"
proof (induction ys arbitrary: db x)
  case (Cons y ys)
  from Cons.prems(1) obtain clean d d' rest where "normalize_year_sheet h (fst y) (snd y) = Inr clean"
    and r: "replace_monthly env (h_id h) (fst y) clean db = Inr ((), d')" "write_sheets env h ys d' = Inr (rest, db')"
    by (auto elim!: and_then_InrE lift_result_InrE)
  then have "hotel_db_ok d'" using replace_monthly_keeps [OF Cons.prems(2) r(1)] normalize_year_sheet_ok by blast
  then show ?case using Cons.IH [OF r(2)] by simp
qed simp

text \<open>A new hotel has no children; a changed hotel still offers what its children price.\<close>

lemma insert_hotel_keeps:
  assumes ok: "hotel_db_ok db" and i: "insert_hotel env h db = Inr (u, db')" and h: "hotel_ok h"
  shows "hotel_db_ok db'"
proof -
  have db': "db' = db\<lparr>hd_hotels := hd_hotels db @ [h]\<rparr>" and new: "h_id h \<notin> h_id ` set (hd_hotels db)"
    using i by (auto simp: insert_hotel_def list_ex_iff elim!: and_then_InrE split: if_splits option.splits)
  have own: "owned db" using ok by (simp add: hotel_db_ok_def)
  then have "\<forall>s \<in> set (hd_seasons db). se_hotel s \<noteq> h_id h" "\<forall>a \<in> set (hd_allotments db). al_hotel a \<noteq> h_id h"
    "\<forall>s \<in> set (hd_stops db). so_hotel s \<noteq> h_id h"
    using new unfolding owned_def by (metis UnCI image_eqI subsetD)+
  then have "offered h db'" by (auto simp: offered_def db')
  moreover have "offered k db'" if "k \<in> set (hd_hotels db)" for k using ok that by (simp add: hotel_db_ok_def offered_def db')
  moreover have "owned db'" using own by (auto simp: owned_def db')
  ultimately show ?thesis using ok h new by (simp add: hotel_db_ok_def db')
qed

lemma ensure_still_offered_None:
  assumes "ensure_still_offered h d = None"
  shows "\<And>s r. s \<in> set (dt_seasons d) \<Longrightarrow> r \<in> set (se_rates s) \<Longrightarrow> supports h (rt_room r) (rt_meal r)"
    "\<And>a. a \<in> set (dt_allotments d) \<Longrightarrow> al_room a \<in> set (h_room_types h)"
    "\<And>s. s \<in> set (dt_stops d) \<Longrightarrow> so_room s = [] \<or> so_room s \<in> set (h_room_types h)"
proof -
  let ?p = "\<lambda>(s, r). \<not> supports h (rt_room r) (rt_meal r)"
  let ?l = "concat (map (\<lambda>s. map (\<lambda>r. (s, r)) (se_rates s)) (dt_seasons d))"
  have n: "find ?p ?l = None" "find (\<lambda>a. al_room a \<notin> set (h_room_types h)) (dt_allotments d) = None"
    "find (\<lambda>s. so_room s \<noteq> [] \<and> so_room s \<notin> set (h_room_types h)) (dt_stops d) = None"
    using assms unfolding ensure_still_offered_def by (auto split: option.splits)
  show "supports h (rt_room r) (rt_meal r)" if "s \<in> set (dt_seasons d)" "r \<in> set (se_rates s)" for s r
  proof -
    have "(s, r) \<in> set ?l" using that by auto
    then show ?thesis using n(1) unfolding find_None_iff by blast
  qed
  show "\<And>a. a \<in> set (dt_allotments d) \<Longrightarrow> al_room a \<in> set (h_room_types h)" using n(2) unfolding find_None_iff by blast
  show "\<And>s. s \<in> set (dt_stops d) \<Longrightarrow> so_room s = [] \<or> so_room s \<in> set (h_room_types h)" using n(3) unfolding find_None_iff by blast
qed

lemma update_hotel_keeps:
  assumes ok: "hotel_db_ok db" and u: "update_hotel env h db = Inr (u, db')" and h: "hotel_ok h" "offered h db"
  shows "hotel_db_ok db'"
proof -
  obtain hit where db': "db' = db\<lparr>hd_hotels := map (\<lambda>x. if hit x then h\<lparr>h_branch := h_branch x, h_created := h_created x\<rparr> else x) (hd_hotels db)\<rparr>"
    and hit: "\<And>x. hit x \<Longrightarrow> h_id x = h_id h"
    using u by (auto simp: update_hotel_def Let_def elim!: and_then_InrE lift_result_InrE split: if_splits)
  let ?f = "\<lambda>x. if hit x then h\<lparr>h_branch := h_branch x, h_created := h_created x\<rparr> else x"
  have id: "h_id (?f x) = h_id x" for x using hit by simp
  then have ids: "map h_id (hd_hotels db') = map h_id (hd_hotels db)" by (simp add: db' comp_def)
  have good: "hotel_ok k \<and> offered k db'" if k: "k \<in> set (hd_hotels db')" for k
  proof -
    obtain x where x: "x \<in> set (hd_hotels db)" "k = ?f x"
    proof -
      have "set (hd_hotels db') = ?f ` set (hd_hotels db)" by (simp add: db')
      then show ?thesis using that k by blast
    qed
    have old: "hotel_ok x" "offered x db" using ok x(1) by (auto simp: hotel_db_ok_def)
    show ?thesis
    proof (cases "hit x")
      case True
      then have k: "k = h\<lparr>h_branch := h_branch x, h_created := h_created x\<rparr>" using x(2) by simp
      have "offered k db' = offered h db" by (simp add: k offered_def supports_def db')
      moreover have "hotel_ok k = hotel_ok h" by (simp add: k hotel_ok_def)
      ultimately show ?thesis using h by simp
    next
      case False
      then show ?thesis using x old by (simp add: offered_def db')
    qed
  qed
  have "h_id ` set (hd_hotels db') = h_id ` set (hd_hotels db)" using arg_cong [OF ids, of set] by simp
  then have "owned db'" using ok by (simp add: hotel_db_ok_def owned_def db')
  moreover have "distinct (map h_id (hd_hotels db'))" using ok ids by (simp add: hotel_db_ok_def)
  ultimately show ?thesis using ok good by (simp add: hotel_db_ok_def) (simp add: db')
qed

section \<open>Every operation keeps the contract\<close>

lemma fail_if_InrE:
  assumes "fail_if e db = Inr (u, db')"
  obtains "e = None" "db' = db"
  using assms by (auto simp: fail_if_def split: option.splits)

lemma hotel_create_keeps:
  assumes ok: "hotel_db_ok db" and c: "hotel_create env branch i db = Inr (d, db')"
  shows "hotel_db_ok db'"
proof -
  from c obtain h0 h ys d1 d2 mo where n: "hotel_normalize (he_mail env) h0 = Inr h" and ins: "insert_hotel env h db = Inr ((), d1)"
    and w: "write_sheets env h ys d1 = Inr (mo, d2)" and r: "hotel_record env ''hotel.created'' h d2 = Inr ((), db')"
    by (auto simp: hotel_create_def Let_def elim!: and_then_InrE lift_result_InrE split: if_splits option.splits)
  from insert_hotel_keeps [OF ok ins hotel_normalize_ok(1) [OF n]] have "hotel_db_ok d1" .
  then show ?thesis using write_sheets_keeps [OF w] record_keeps [OF r] by blast
qed

lemma hotel_update_keeps:
  assumes ok: "hotel_db_ok db" and c: "hotel_update env hid i db = Inr (d, db')"
  shows "hotel_db_ok db'"
proof -
  from c obtain h0 h1 h e d0 d1 d2 where f: "hotel_find env hid db = Inr (h0, d0)" and n: "hotel_normalize (he_mail env) h1 = Inr h"
    and e0: "detail_of env h d0 = Inr (e, d1)" and so: "ensure_still_offered h e = None" and u0: "update_hotel env h d1 = Inr ((), d2)"
    and r: "hotel_record env ''hotel.updated'' h d2 = Inr ((), db')"
    by (auto simp: hotel_update_def elim!: and_then_InrE lift_result_InrE fail_if_InrE)
  have d0: "d0 = db" using f by (elim hotel_findE)
  moreover have "d1 = d0" using e0 by (elim detail_ofE)
  ultimately have e: "detail_of env h db = Inr (e, db)" and u: "update_hotel env h db = Inr ((), d2)" using e0 u0 by simp_all
  from e have "offered h db"
  proof (rule detail_ofE)
    assume "set (dt_seasons e) = {s \<in> set (hd_seasons db). se_hotel s = h_id h}" "set (dt_allotments e) = {a \<in> set (hd_allotments db). al_hotel a = h_id h}"
      "set (dt_stops e) = {s \<in> set (hd_stops db). so_hotel s = h_id h}"
    then show ?thesis using ensure_still_offered_None [OF so] by (simp add: offered_def)
  qed
  then show ?thesis using update_hotel_keeps [OF ok u hotel_normalize_ok(1) [OF n]] record_keeps [OF r] by blast
qed

lemma season_base_hotel:
  assumes "season_base env hid i ss = Inr s" "\<forall>x \<in> set ss. se_hotel x = hid"
  shows "se_hotel s = hid"
  using assms by (auto simp: season_base_def dest!: find_mem split: option.splits)

lemma save_season_keeps:
  assumes ok: "hotel_db_ok db" and c: "save_season env hid i inp db = Inr (x, db')"
  shows "hotel_db_ok db'"
proof -
  from c obtain h ss s0 s d0 d1 d2 act where f: "hotel_find env hid db = Inr (h, d0)" and ss: "list_seasons env hid d0 = Inr (ss, d1)"
    and b: "season_base env hid i ss = Inr s0" and n: "season_normalize h (fill_season inp (he_now env) s0) = Inr s"
    and free: "ensure_no_overlap s ss = None" and u0: "upsert_season env s d1 = Inr ((), d2)"
    and r: "hotel_record env act h d2 = Inr ((), db')"
    unfolding save_season_def by (auto elim!: and_then_InrE lift_result_InrE fail_if_InrE)
  from f have h: "d0 = db" "h \<in> set (hd_hotels db)" "h_id h = hid" by (auto elim: hotel_findE)
  from ss h(1) have set: "d1 = db" "set ss = {s \<in> set (hd_seasons db). se_hotel s = hid}" by (auto elim: list_seasonsE)
  note u = u0 [unfolded set(1)] and h = h(2,3) and set = set(2)
  have "se_hotel s0 = hid" using season_base_hotel [OF b] set by simp
  then have "se_hotel s = h_id h" using season_normalize_ok(4) [OF n] h(2) by (simp add: fill_season_def)
  moreover have "\<not> overlaps s t" if "t \<in> set (hd_seasons db)" "se_hotel t = h_id h" for t
    using free that set h(2) by (auto simp: ensure_no_overlap_def find_None_iff split: option.splits)
  ultimately have "hotel_db_ok d2" using season_normalize_ok(1,2) [OF n] by (intro upsert_season_keeps [OF ok u _ h(1)])
  then show ?thesis using record_keeps [OF r] by blast
qed

lemma delete_season_keeps:
  assumes ok: "hotel_db_ok db" and c: "delete_season env hid i db = Inr (x, db')"
  shows "hotel_db_ok db'"
proof -
  from c obtain h d2 p where d2: "d2 = db\<lparr>hd_seasons := filter p (hd_seasons db)\<rparr>" and r: "hotel_record env ''hotel.season_deleted'' h d2 = Inr ((), db')"
    unfolding delete_season_def by (elim and_then_InrE hotel_findE delete_childE) auto
  have "hotel_db_ok d2" using ok by (intro shrunk_keeps [OF ok]) (auto simp: d2 hotel_db_ok_def intro: seasons_ok_filter)
  then show ?thesis using record_keeps [OF r] by blast
qed

lemma save_allotment_keeps:
  assumes ok: "hotel_db_ok db" and c: "save_allotment env hid i inp db = Inr (x, db')"
  shows "hotel_db_ok db'"
proof -
  from c obtain h a0 a d1 d2 act where h: "h \<in> set (hd_hotels db)" "h_id h = hid" and b: "allotment_base env hid i db = Inr (a0, d1)"
    and n: "allotment_normalize h (fill_allotment inp (he_now env) a0) = Inr a" and u: "upsert_allotment env a d1 = Inr ((), d2)"
    and r: "hotel_record env act h d2 = Inr ((), db')"
    unfolding save_allotment_def by (elim and_then_InrE lift_result_InrE hotel_findE) auto
  have d1: "d1 = db" "al_hotel a0 = hid" using b by (auto simp: allotment_base_def elim!: find_allotmentE split: option.splits)
  then have "al_hotel a = h_id h" using allotment_normalize_ok(4) [OF n] h(2) by (simp add: fill_allotment_def)
  then have "hotel_db_ok d2" using allotment_normalize_ok(1,2) [OF n] upsert_allotment_keeps [OF ok u [unfolded d1(1)] _ h(1)] by blast
  then show ?thesis using record_keeps [OF r] by blast
qed

lemma adjust_allotment_keeps:
  assumes ok: "hotel_db_ok db" and c: "adjust_allotment env hid i delta db = Inr (x, db')"
  shows "hotel_db_ok db'"
proof -
  from c obtain h a a' d2 where h: "h \<in> set (hd_hotels db)" "h_id h = hid" and a: "a \<in> set (hd_allotments db)" "al_hotel a = hid"
    and n: "adjust_sold a delta (he_now env) = Inr a'" and u: "upsert_allotment env a' db = Inr ((), d2)"
    and r: "hotel_record env ''hotel.allotment_adjusted'' h d2 = Inr ((), db')"
    unfolding adjust_allotment_def by (elim and_then_InrE lift_result_InrE hotel_findE find_allotmentE) (auto split: if_splits)
  have "offered h db" "allot_ok a" using ok h(1) a(1) by (auto simp: hotel_db_ok_def)
  then have "al_room a \<in> set (h_room_types h)" using a h(2) by (simp add: offered_def)
  then have "hotel_db_ok d2" using adjust_sold_ok [OF n \<open>allot_ok a\<close>] a(2) h(2) by (intro upsert_allotment_keeps [OF ok u _ h(1)]) simp_all
  then show ?thesis using record_keeps [OF r] by blast
qed

lemma delete_allotment_keeps:
  assumes ok: "hotel_db_ok db" and c: "delete_allotment env hid i db = Inr (x, db')"
  shows "hotel_db_ok db'"
proof -
  from c obtain h d2 p where d2: "d2 = db\<lparr>hd_allotments := filter p (hd_allotments db)\<rparr>" and r: "hotel_record env ''hotel.allotment_deleted'' h d2 = Inr ((), db')"
    unfolding delete_allotment_def by (elim and_then_InrE hotel_findE find_allotmentE delete_childE) (auto split: if_splits)
  have "hotel_db_ok d2" using ok by (intro shrunk_keeps [OF ok]) (auto simp: d2 hotel_db_ok_def)
  then show ?thesis using record_keeps [OF r] by blast
qed

lemma create_stop_sale_keeps:
  assumes ok: "hotel_db_ok db" and c: "create_stop_sale env hid actor st en room reason db = Inr (x, db')"
  shows "hotel_db_ok db'"
proof -
  from c obtain h s0 s d2 where h: "h \<in> set (hd_hotels db)" "h_id h = hid" and n: "stop_sale_normalize h s0 = Inr s" "so_hotel s0 = hid"
    and u: "insert_stop env s db = Inr ((), d2)" and r: "hotel_record env ''hotel.stop_sale_created'' h d2 = Inr ((), db')"
    unfolding create_stop_sale_def by (elim and_then_InrE lift_result_InrE hotel_findE) auto
  have "hotel_db_ok d2" using stop_sale_normalize_ok(1,2) [OF n(1)] n(2) h(2) insert_stop_keeps [OF ok u h(1)] by simp
  then show ?thesis using record_keeps [OF r] by blast
qed

lemma delete_stop_sale_keeps:
  assumes ok: "hotel_db_ok db" and c: "delete_stop_sale env hid i db = Inr (x, db')"
  shows "hotel_db_ok db'"
proof -
  from c obtain h d2 p where d2: "d2 = db\<lparr>hd_stops := filter p (hd_stops db)\<rparr>" and r: "hotel_record env ''hotel.stop_sale_deleted'' h d2 = Inr ((), db')"
    unfolding delete_stop_sale_def by (elim and_then_InrE hotel_findE delete_childE) auto
  have "hotel_db_ok d2" using ok by (intro shrunk_keeps [OF ok]) (auto simp: d2 hotel_db_ok_def)
  then show ?thesis using record_keeps [OF r] by blast
qed

lemma replace_monthly_rates_keeps:
  assumes ok: "hotel_db_ok db" and c: "replace_monthly_rates env hid y rs db = Inr (x, db')"
  shows "hotel_db_ok db'"
proof -
  from c obtain h clean d2 where n: "normalize_year_sheet h y rs = Inr clean" and w: "replace_monthly env hid y clean db = Inr ((), d2)"
    and r: "hotel_record env ''hotel.monthly_rates_replaced'' h d2 = Inr ((), db')"
    unfolding replace_monthly_rates_def by (elim and_then_InrE lift_result_InrE hotel_findE detail_ofE) auto
  show ?thesis using replace_monthly_keeps [OF ok w normalize_year_sheet_ok [OF n]] record_keeps [OF r] by blast
qed

section \<open>Runs of the service\<close>

inductive hotel_step :: "hotel_db \<Rightarrow> hotel_db \<Rightarrow> bool" where
  created: "within_transaction (hotel_create env branch i) db = (d, db') \<Longrightarrow> hotel_step db db'"
| updated: "within_transaction (hotel_update env hid i) db = (d, db') \<Longrightarrow> hotel_step db db'"
| season_saved: "within_transaction (save_season env hid sid si) db = (s, db') \<Longrightarrow> hotel_step db db'"
| season_deleted: "within_transaction (delete_season env hid j) db = (u, db') \<Longrightarrow> hotel_step db db'"
| allotment_saved: "within_transaction (save_allotment env hid aid ai) db = (a, db') \<Longrightarrow> hotel_step db db'"
| allotment_adjusted: "within_transaction (adjust_allotment env hid j delta) db = (a, db') \<Longrightarrow> hotel_step db db'"
| allotment_deleted: "within_transaction (delete_allotment env hid j) db = (u, db') \<Longrightarrow> hotel_step db db'"
| stop_created: "within_transaction (create_stop_sale env hid actor st en room reason) db = (s', db') \<Longrightarrow> hotel_step db db'"
| stop_deleted: "within_transaction (delete_stop_sale env hid j) db = (u, db') \<Longrightarrow> hotel_step db db'"
| sheet_replaced: "within_transaction (replace_monthly_rates env hid y rs) db = (d, db') \<Longrightarrow> hotel_step db db'"

definition no_hotels :: "hotel_db \<Rightarrow> bool" where
  "no_hotels db \<longleftrightarrow> hd_hotels db = [] \<and> hd_seasons db = [] \<and> hd_allotments db = [] \<and> hd_stops db = [] \<and> hd_monthly db = []"

lemmas hotel_keeps = hotel_create_keeps hotel_update_keeps save_season_keeps delete_season_keeps save_allotment_keeps
  adjust_allotment_keeps delete_allotment_keeps create_stop_sale_keeps delete_stop_sale_keeps replace_monthly_rates_keeps

interpretation contracts: invariant_machine no_hotels hotel_step hotel_db_ok
proof
  show "hotel_db_ok s" if "no_hotels s" for s
    using that by (simp add: no_hotels_def hotel_db_ok_def seasons_ok_def owned_def)
  show "hotel_db_ok t" if ok: "hotel_db_ok s" and st: "hotel_step s t" for s t
    using st by cases (erule transaction_keeps [where P = hotel_db_ok], rule ok, erule hotel_keeps [OF ok])+
qed

lemma season_day_unique:
  assumes "seasons_ok ss" "s \<in> set ss" "t \<in> set ss" "se_hotel s = se_hotel t" "season_covers s day" "season_covers t day"
  shows "s = t"
proof (rule ccontr)
  assume "s \<noteq> t"
  then have "se_id s \<noteq> se_id t" using assms(1-3) by (auto simp: seasons_ok_def distinct_map inj_on_def)
  then have "overlaps s t" using assms(5,6) by (auto simp: overlaps_def season_covers_def covers_def before_def after_def)
  then show False using assms(1-4) by (auto simp: seasons_ok_def)
qed

text \<open>
  C19. Contracts stay sound. Starting without hotels, after any sequence of the operations of the hotel service by any
  callers, every hotel that can be read has a contract within the bounds the pricing relies on; no day lies in two of
  its seasons; every rate, allotment and stop sale names a room (and meal plan) the hotel still offers; and every
  allotment has between zero and all of its rooms sold.
\<close>

theorem hotel_contract_kept:
  assumes "no_hotels db" "hotel_step\<^sup>*\<^sup>* db db'" "hotel_get env hid db' = Inr (d, db'')"
  shows "contract_ok (dt_hotel d) (dt_seasons d) (dt_monthly d)
    \<and> (\<forall>s \<in> set (dt_seasons d). \<forall>t \<in> set (dt_seasons d). \<forall>day. season_covers s day \<and> season_covers t day \<longrightarrow> s = t)
    \<and> (\<forall>s \<in> set (dt_seasons d). \<forall>r \<in> set (se_rates s). supports (dt_hotel d) (rt_room r) (rt_meal r))
    \<and> (\<forall>a \<in> set (dt_allotments d). al_room a \<in> set (h_room_types (dt_hotel d)) \<and> 0 \<le> al_sold a \<and> al_sold a \<le> al_rooms a)
    \<and> (\<forall>s \<in> set (dt_stops d). so_room s = [] \<or> so_room s \<in> set (h_room_types (dt_hotel d)))"
proof -
  have ok: "hotel_db_ok db'" using contracts.reachable_good [OF assms(1,2)] .
  from assms(3) obtain h where h: "h \<in> set (hd_hotels db')" and d: "detail_of env h db' = Inr (d, db'')"
    unfolding hotel_get_def by (elim and_then_InrE hotel_findE) auto
  have off: "offered h db'" and hok: "hotel_ok h" and ss: "seasons_ok (hd_seasons db')"
    and rest: "\<And>a. a \<in> set (hd_allotments db') \<Longrightarrow> allot_ok a" "\<And>m. m \<in> set (hd_monthly db') \<Longrightarrow> monthly_ok m"
    using ok h by (auto simp: hotel_db_ok_def)
  from d show ?thesis
  proof (rule detail_ofE)
    assume e: "dt_hotel d = h" "set (dt_seasons d) = {s \<in> set (hd_seasons db'). se_hotel s = h_id h}"
      "set (dt_allotments d) = {a \<in> set (hd_allotments db'). al_hotel a = h_id h}"
      "set (dt_stops d) = {s \<in> set (hd_stops db'). so_hotel s = h_id h}"
      "set (dt_monthly d) = {m \<in> set (hd_monthly db'). mo_hotel m = h_id h}"
    have "contract_ok h (dt_seasons d) (dt_monthly d)"
      using hok ss rest(2) e by (auto simp: contract_ok_def list_all_iff seasons_ok_def)
    moreover have "\<forall>s \<in> set (dt_seasons d). \<forall>t \<in> set (dt_seasons d). \<forall>day. season_covers s day \<and> season_covers t day \<longrightarrow> s = t"
      using season_day_unique [OF ss] unfolding e(2) by fastforce
    moreover have "\<forall>a \<in> set (dt_allotments d). al_room a \<in> set (h_room_types h) \<and> 0 \<le> al_sold a \<and> al_sold a \<le> al_rooms a"
      using off rest(1) e(3) by (auto simp: offered_def allot_ok_def)
    ultimately show ?thesis using off e by (auto simp: offered_def)
  qed
qed

section \<open>A worked run\<close>

definition sample_henv :: "uuid \<Rightarrow> hotel_env" where
  "sample_henv i = \<lparr>he_scope = Some system_scope, he_now = sample_day 0, he_loc = (\<lambda>_. 0), he_id = i, he_plan = None, he_audit = None, he_mail = Some\<rparr>"

definition sample_hotel_input :: hotel_input where
  "sample_hotel_input = \<lparr>hi_name = ''HH'', hi_name_ar = [], hi_stars = 4, hi_location = h_location sample_hotel, hi_contact = h_contact sample_hotel,
     hi_room_types = [''standard''], hi_meal_plans = [''bb''], hi_currency = ''USD'', hi_markup = h_markup sample_hotel, hi_child_policy = None,
     hi_cancellation = None, hi_notes = [], hi_active = None, hi_monthly = []\<rparr>"

definition sample_season_input :: season_input where
  "sample_season_input = \<lparr>si_name = ''S'', si_kind = ''high'', si_start = sample_day 10, si_end = sample_day 20, si_markup = None,
     si_rates = se_rates sample_season\<rparr>"

definition sample_allotment_input :: allotment_input where
  "sample_allotment_input = \<lparr>ai_room = ''standard'', ai_kind = ''guaranteed'', ai_start = sample_day 10, ai_end = sample_day 20, ai_rooms = 5,
     ai_release = 3, ai_notes = []\<rparr>"

definition empty_hotel_db :: hotel_db where
  "empty_hotel_db = \<lparr>hd_hotels = [], hd_seasons = [], hd_allotments = [], hd_stops = [], hd_monthly = [], hd_log = []\<rparr>"

definition sample_db1 :: hotel_db where "sample_db1 = snd (within_transaction (hotel_create (sample_henv 7) 3 sample_hotel_input) empty_hotel_db)"
definition sample_db2 :: hotel_db where "sample_db2 = snd (within_transaction (save_season (sample_henv 21) 7 None sample_season_input) sample_db1)"
definition sample_db3 :: hotel_db where "sample_db3 = snd (within_transaction (save_allotment (sample_henv 31) 7 None sample_allotment_input) sample_db2)"
definition sample_db4 :: hotel_db where "sample_db4 = snd (within_transaction (adjust_allotment (sample_henv 32) 7 31 4) sample_db3)"

lemma sample_hotel_run: "hotel_step\<^sup>*\<^sup>* empty_hotel_db sample_db4"
proof -
  have "hotel_step empty_hotel_db sample_db1" unfolding sample_db1_def by (rule created [OF prod.collapse [symmetric]])
  moreover have "hotel_step sample_db1 sample_db2" unfolding sample_db2_def by (rule season_saved [OF prod.collapse [symmetric]])
  moreover have "hotel_step sample_db2 sample_db3" unfolding sample_db3_def by (rule allotment_saved [OF prod.collapse [symmetric]])
  moreover have "hotel_step sample_db3 sample_db4" unfolding sample_db4_def by (rule allotment_adjusted [OF prod.collapse [symmetric]])
  ultimately show ?thesis by (meson rtranclp.rtrancl_into_rtrancl rtranclp.rtrancl_refl)
qed

theorem hotel_contract_kept_witness:
  "\<exists>d db. hotel_get (sample_henv 0) 7 sample_db4 = Inr (d, db)
     \<and> map se_id (dt_seasons d) = [21] \<and> map al_sold (dt_allotments d) = [4]
     \<and> contract_ok (dt_hotel d) (dt_seasons d) (dt_monthly d)"
proof -
  have "(case hotel_get (sample_henv 0) 7 sample_db4 of Inl _ \<Rightarrow> False
      | Inr (d, db) \<Rightarrow> map se_id (dt_seasons d) = [21] \<and> map al_sold (dt_allotments d) = [4])" by code_simp
  then obtain d db where d: "hotel_get (sample_henv 0) 7 sample_db4 = Inr (d, db)"
    "map se_id (dt_seasons d) = [21]" "map al_sold (dt_allotments d) = [4]" by (auto split: sum.splits)
  have "no_hotels empty_hotel_db" by code_simp
  note kept = hotel_contract_kept [OF this sample_hotel_run d(1)]
  show ?thesis by (rule exI [of _ d], rule exI [of _ db]) (use d conjunct1 [OF kept] in simp)
qed

end
