(* ===== verification/Finance_Rules.thy ===== *)
theory Finance_Rules
  imports Access Field_Errors Rounding Go_Time Status_Machine "HOL-Library.Product_Lexorder" "HOL-Library.List_Lexorder" "HOL-Library.Multiset"
begin

text \<open>
  \<^verbatim>\<open>internal/domain/finance\<close> without its treasury and reconciliation: amounts in basis points (\<^verbatim>\<open>money.go\<close>), profit,
  commission and the currency distribution (\<^verbatim>\<open>profit.go\<close>), the settlement of cancellations (\<^verbatim>\<open>refund.go\<close>), the credit
  risk of agencies (\<^verbatim>\<open>agency.go\<close>) and balance confirmation letters (\<^verbatim>\<open>letter.go\<close>).

  The address parser of \<^verbatim>\<open>net/mail\<close> is a parameter, as are the secret and the hash of a letter.
\<close>

section \<open>Amounts\<close>

definition max_money :: int where "max_money = 1000000000000"
definition bps :: int where "bps = 10000"

definition finance_currency :: "string \<Rightarrow> string \<times> bool" where
  "finance_currency c = (let c = to_upper (trim_space c) in (c, currency_pattern c))"

definition money_in_range :: "int \<Rightarrow> bool" where "money_in_range v \<longleftrightarrow> v > 0 \<and> v \<le> max_money"

definition apply_bps :: "int \<Rightarrow> int \<Rightarrow> int" where
  "apply_bps amount b =
     (let p = mul64 amount b
      in if p \<ge> 0 then quo64 (add64 p (bps div 2)) bps else neg64 (quo64 (add64 (neg64 p) (bps div 2)) bps))"

definition abs64 :: "int \<Rightarrow> int" where "abs64 v = (if v < 0 then neg64 v else v)"

definition ratio_bps :: "int \<Rightarrow> int \<Rightarrow> int" where
  "ratio_bps part whole =
     (if whole = 0 then 0
      else let num = mul64 part bps; den = whole;
               r = quo64 (add64 (abs64 num) (quo64 (abs64 den) 2)) (abs64 den)
           in if (num < 0) \<noteq> (den < 0) then neg64 r else r)"

text \<open>The calendar date of an instant in a location, as midnight UTC; a missing location is UTC.\<close>

definition finance_day :: "go_time \<Rightarrow> location option \<Rightarrow> go_time" where
  "finance_day t loc = (let (y, m, d) = time_date (in_loc t (case loc of None \<Rightarrow> utc_loc | Some l \<Rightarrow> l)) in date_utc y m d)"

definition finance_days_between :: "go_time \<Rightarrow> go_time \<Rightarrow> int" where
  "finance_days_between a b = quo (time_sub (finance_day b None) (finance_day a None)) day_ns"

section \<open>Profit\<close>

record pnl =
  pl_gross :: int
  pl_net :: int
  pl_tax :: int
  pl_fee :: int
  pl_costed :: bool

definition pnl_revenue :: "pnl \<Rightarrow> int" where "pnl_revenue p = sub64 (pl_gross p) (pl_tax p)"

definition pnl_margin :: "pnl \<Rightarrow> int" where
  "pnl_margin p = (if \<not> pl_costed p then 0 else sub64 (sub64 (sub64 (pl_gross p) (pl_tax p)) (pl_fee p)) (pl_net p))"

definition pnl_margin_bps :: "pnl \<Rightarrow> int" where "pnl_margin_bps p = ratio_bps (pnl_margin p) (pnl_revenue p)"

definition pnl_add :: "pnl \<Rightarrow> pnl \<Rightarrow> pnl" where
  "pnl_add p q = \<lparr>pl_gross = add64 (pl_gross p) (pl_gross q), pl_net = add64 (pl_net p) (pl_net q), pl_tax = add64 (pl_tax p) (pl_tax q),
     pl_fee = add64 (pl_fee p) (pl_fee q), pl_costed = (pl_costed p \<or> pl_costed q)\<rparr>"

record budget =
  bg_departure :: uuid
  bg_currency :: string
  bg_revenue :: int
  bg_cost :: int
  bg_note :: string

definition budget_normalize :: "budget \<Rightarrow> budget result" where
  "budget_normalize b =
     (let (cur, ok) = finance_currency (bg_currency b); remark = trim_space (bg_note b);
          f = field_put (\<not> ok) ''currency'' ''ISO 4217 code'' [];
          f = field_put (bg_revenue b < 0 \<or> bg_revenue b > max_money) ''revenue'' ''out of range'' f;
          f = field_put (bg_cost b < 0 \<or> bg_cost b > max_money) ''cost'' ''out of range'' f;
          f = field_put (length remark > 500) ''note'' ''too long'' f
      in case fields_err ''invalid budget'' f of Some e \<Rightarrow> Inl e | None \<Rightarrow> Inr (b\<lparr>bg_currency := cur, bg_note := remark\<rparr>))"

definition budget_margin :: "budget \<Rightarrow> int" where "budget_margin b = sub64 (bg_revenue b) (bg_cost b)"

record variance =
  va_revenue :: int
  va_cost :: int
  va_margin :: int
  va_overrun :: bool

definition variance_of :: "budget \<Rightarrow> pnl \<Rightarrow> variance" where
  "variance_of b actual = \<lparr>va_revenue = sub64 (pnl_revenue actual) (bg_revenue b), va_cost = sub64 (pl_net actual) (bg_cost b),
     va_margin = sub64 (pnl_margin actual) (budget_margin b), va_overrun = (bg_cost b > 0 \<and> pl_net actual > bg_cost b)\<rparr>"

definition commission :: "int \<Rightarrow> int \<Rightarrow> int" where
  "commission margin b = (if margin \<le> 0 \<or> b \<le> 0 then 0 else apply_bps margin b)"

definition settle_commission :: "int list \<Rightarrow> int \<Rightarrow> int" where
  "settle_commission margins b = foldl (\<lambda>c m. add64 c (commission m b)) 0 margins"

section \<open>The currency distribution\<close>

record currency_share =
  cs_currency :: string
  cs_amount :: int
  cs_converted :: int
  cs_share :: int
  cs_unconverted :: bool

definition counted :: "currency_share \<Rightarrow> bool" where "counted s \<longleftrightarrow> \<not> cs_unconverted s \<and> cs_converted s > 0"

definition shares_total :: "currency_share list \<Rightarrow> int" where
  "shares_total xs = foldl (\<lambda>t s. if counted s then add64 t (cs_converted s) else t) 0 xs"

text \<open>The first loop: the quotients, and the index and remainder of every counted entry.\<close>

definition floor_share :: "int \<Rightarrow> currency_share \<Rightarrow> currency_share" where
  "floor_share tot s = s\<lparr>cs_share := (if counted s then quo64 (mul64 (cs_converted s) bps) tot else 0)\<rparr>"

definition share_rems :: "int \<Rightarrow> currency_share list \<Rightarrow> (nat \<times> int) list" where
  "share_rems tot xs =
     map (\<lambda>(i, s). (i, rem (mul64 (cs_converted s) bps) tot)) (filter (\<lambda>(i, s). counted s) (enumerate 0 xs))"

text \<open>The loop that hands out what is missing to 10000, one point each.\<close>

primrec hand_out :: "int \<Rightarrow> (nat \<times> int) list \<Rightarrow> currency_share list \<Rightarrow> currency_share list" where
  "hand_out assigned [] out = out"
| "hand_out assigned (r # rems) out =
     (if assigned < bps
      then hand_out (assigned + 1) rems (out[fst r := (out ! fst r)\<lparr>cs_share := cs_share (out ! fst r) + 1\<rparr>])
      else out)"

definition shares :: "currency_share list \<Rightarrow> currency_share list" where
  "shares xs =
     (let tot = shares_total xs
      in if tot = 0 then xs
         else let out = map (floor_share tot) xs;
                  assigned = foldl (\<lambda>a s. if counted s then add64 a (cs_share s) else a) 0 out;
                  rems = sort_key (\<lambda>r. - snd r) (share_rems tot xs)
              in sort_key (\<lambda>s. (- cs_converted s, cs_currency s)) (hand_out assigned rems out))"

section \<open>Cancellations\<close>

record refund_input =
  rf_paid :: int
  rf_supplier_cost :: int
  rf_penalty :: int
  rf_fee :: int

record refund_settlement =
  rs_customer :: int
  rs_supplier :: int
  rs_retained :: int
  rs_agency :: int
  rs_shortfall :: int

definition refund_validate :: "refund_input \<Rightarrow> error option" where
  "refund_validate r =
     (let bad = (\<lambda>v. v < 0 \<or> v > max_money);
          f = field_put (bad (rf_paid r)) ''paid'' ''0 or more'' [];
          f = field_put (bad (rf_supplier_cost r)) ''supplier_cost'' ''0 or more'' f;
          f = field_put (bad (rf_penalty r)) ''supplier_penalty'' ''0 or more'' f;
          f = field_put (bad (rf_fee r)) ''service_fee'' ''0 or more'' f;
          f = field_put (rf_penalty r > rf_supplier_cost r \<and> rf_supplier_cost r > 0) ''supplier_penalty'' ''cannot exceed the supplier cost'' f
      in fields_err ''invalid refund'' f)"

definition settle_refund :: "refund_input \<Rightarrow> refund_settlement" where
  "settle_refund r =
     (let owed = add64 (rf_penalty r) (rf_fee r);
          customer = max (sub64 (rf_paid r) owed) 0;
          supplier = max (sub64 (rf_supplier_cost r) (rf_penalty r)) 0
      in \<lparr>rs_customer = customer, rs_supplier = supplier, rs_retained = sub64 (rf_paid r) customer,
          rs_agency = sub64 (sub64 (add64 (rf_paid r) supplier) (rf_supplier_cost r)) customer,
          rs_shortfall = max (sub64 owed (rf_paid r)) 0\<rparr>)"

section \<open>Agencies\<close>

datatype agency_status = AgencyActive | AgencySuspended | AgencyClosed

record agency =
  ag_id :: uuid
  ag_branch :: uuid
  ag_code :: string
  ag_name :: string
  ag_contact :: string
  ag_phone :: string
  ag_email :: string
  ag_tax :: string
  ag_currency :: string
  ag_limit :: int
  ag_terms :: int
  ag_grace :: int
  ag_auto :: bool
  ag_status :: agency_status
  ag_reason :: string
  ag_created :: go_time
  ag_updated :: go_time

text \<open>\<^verbatim>\<open>^[A-Z0-9][A-Z0-9_-]{1,23}$\<close>\<close>

definition agency_code :: "string \<Rightarrow> bool" where
  "agency_code s \<longleftrightarrow> 2 \<le> length s \<and> length s \<le> 24 \<and> (is_upper (hd s) \<or> is_digit (hd s))
     \<and> list_all (\<lambda>c. is_upper c \<or> is_digit c \<or> c = CHR ''_'' \<or> c = CHR ''-'') s"

definition agency_normalize :: "(string \<Rightarrow> bool) \<Rightarrow> agency \<Rightarrow> agency result" where
  "agency_normalize mail_ok a =
     (let cd = to_upper (trim_space (ag_code a)); name = trim_space (ag_name a); contact = trim_space (ag_contact a);
          phone = trim_space (ag_phone a); email = to_lower (trim_space (ag_email a)); tax = trim_space (ag_tax a);
          (cur, ok) = finance_currency (ag_currency a);
          f = field_put (\<not> agency_code cd) ''code'' ''2-24 letters, digits, - or _'' [];
          f = field_put (name = [] \<or> length name > 160) ''name'' ''1-160 characters'' f;
          f = field_put (email \<noteq> [] \<and> \<not> mail_ok email) ''email'' ''invalid email'' f;
          f = field_put (\<not> ok) ''currency'' ''ISO 4217 code'' f;
          f = field_put (ag_limit a < 0 \<or> ag_limit a > max_money) ''credit_limit'' ''out of range'' f;
          f = field_put (ag_terms a < 0 \<or> ag_terms a > 180) ''payment_terms_days'' ''0-180'' f;
          f = field_put (ag_grace a < 0 \<or> ag_grace a > 90) ''grace_days'' ''0-90'' f;
          f = field_put (length contact > 120 \<or> length phone > 40 \<or> length tax > 20) ''contact_name'' ''too long'' f
      in case fields_err ''invalid agency'' f of
           Some e \<Rightarrow> Inl e
         | None \<Rightarrow> Inr (a\<lparr>ag_code := cd, ag_name := name, ag_contact := contact, ag_phone := phone, ag_email := email, ag_tax := tax,
                          ag_currency := cur\<rparr>))"

record exposure =
  ex_outstanding :: int
  ex_overdue :: int
  ex_oldest :: int
  ex_open :: int
  ex_unconverted :: bool

datatype risk_level = RiskOK | RiskWatch | RiskCritical | RiskBlocked

record risk =
  rk_available :: int
  rk_used :: int
  rk_level :: risk_level

definition risk_of :: "agency \<Rightarrow> exposure \<Rightarrow> risk" where
  "risk_of a e =
     (let used = (if ag_limit a > 0 then min (max (quo64 (mul64 (ex_outstanding e) 100) (ag_limit a)) 0) 999 else 0)
      in \<lparr>rk_available = sub64 (ag_limit a) (ex_outstanding e), rk_used = used,
          rk_level = (if ag_status a \<noteq> AgencyActive then RiskBlocked
                      else if used \<ge> 90 \<or> (ex_overdue e > 0 \<and> ex_oldest e > ag_grace a) then RiskCritical
                      else if used \<ge> 70 \<or> ex_overdue e > 0 then RiskWatch else RiskOK)\<rparr>)"

definition should_suspend :: "agency \<Rightarrow> exposure \<Rightarrow> bool" where
  "should_suspend a e \<longleftrightarrow> ag_status a = AgencyActive \<and> ag_auto a \<and> ex_overdue e > 0 \<and> ex_oldest e > ag_grace a"

definition can_sell :: "agency \<Rightarrow> exposure \<Rightarrow> int \<Rightarrow> error option" where
  "can_sell a e amount =
     (case ag_status a of
        AgencySuspended \<Rightarrow> Some (new_invalid_state ''agency is suspended for overdue debt or by finance'')
      | AgencyClosed \<Rightarrow> Some (new_invalid_state ''agency account is closed'')
      | AgencyActive \<Rightarrow>
          if ag_limit a > 0 \<and> add64 (ex_outstanding e) amount > ag_limit a
          then Some (with_details (new_conflict ''agency credit limit would be exceeded'') [(''credit_limit'', [''would be exceeded''])])
          else None)"

definition agency_suspend :: "string \<Rightarrow> go_time \<Rightarrow> agency \<Rightarrow> agency result" where
  "agency_suspend reason now a =
     (if ag_status a = AgencyClosed then Inl (new_invalid_state ''agency account is closed'')
      else if reason \<noteq> ''manual'' \<and> reason \<noteq> ''overdue''
      then Inl (with_details (new_validation ''manual or overdue'') [(''reason'', [''manual or overdue''])])
      else Inr (a\<lparr>ag_status := AgencySuspended, ag_reason := reason, ag_updated := now\<rparr>))"

definition agency_reactivate :: "go_time \<Rightarrow> agency \<Rightarrow> agency result" where
  "agency_reactivate now a =
     (if ag_status a = AgencyClosed then Inl (new_invalid_state ''agency account is closed'')
      else Inr (a\<lparr>ag_status := AgencyActive, ag_reason := [], ag_updated := now\<rparr>))"

datatype age_bucket = AgeCurrent | Age0to15 | Age16to30 | Age31Plus | AgeUnscheduled

definition bucket_of :: "go_time \<Rightarrow> go_time \<Rightarrow> age_bucket" where
  "bucket_of due today =
     (let late = finance_days_between due today
      in if late \<le> 0 then AgeCurrent else if late \<le> 15 then Age0to15 else if late \<le> 30 then Age16to30 else Age31Plus)"

record ageing =
  ge_currency :: string
  ge_buckets :: "age_bucket \<Rightarrow> int"
  ge_counts :: "age_bucket \<Rightarrow> int"

definition new_ageing :: "string \<Rightarrow> ageing" where
  "new_ageing cur = \<lparr>ge_currency = cur, ge_buckets = (\<lambda>_. 0), ge_counts = (\<lambda>_. 0)\<rparr>"

definition ageing_add :: "age_bucket \<Rightarrow> int \<Rightarrow> ageing \<Rightarrow> ageing" where
  "ageing_add b amount g =
     g\<lparr>ge_buckets := (ge_buckets g)(b := add64 (ge_buckets g b) amount), ge_counts := (ge_counts g)(b := add64 (ge_counts g b) 1)\<rparr>"

definition ageing_total :: "ageing \<Rightarrow> int" where
  "ageing_total g = foldl (\<lambda>t b. add64 t (ge_buckets g b)) 0 [AgeCurrent, Age0to15, Age16to30, Age31Plus, AgeUnscheduled]"

definition ageing_overdue :: "ageing \<Rightarrow> int" where
  "ageing_overdue g = add64 (add64 (ge_buckets g Age0to15) (ge_buckets g Age16to30)) (ge_buckets g Age31Plus)"

section \<open>Balance confirmation letters\<close>

datatype letter_status = LetterSent | LetterConfirmed | LetterDisputed | LetterExpired

definition letter_ttl :: int where "letter_ttl = 14 * day_ns"

record letter =
  le_id :: uuid
  le_branch :: uuid
  le_party :: string
  le_party_id :: uuid
  le_party_name :: string
  le_period_end :: go_time
  le_balance :: int
  le_currency :: string
  le_mail :: string
  le_hash :: string
  le_status :: letter_status
  le_remark :: string
  le_by :: string
  le_at :: "go_time option"
  le_expires :: go_time
  le_created :: go_time

definition letter_status_on :: "letter \<Rightarrow> go_time \<Rightarrow> letter_status" where
  "letter_status_on l now = (if le_status l = LetterSent \<and> after now (le_expires l) then LetterExpired else le_status l)"

definition field_error :: "string \<Rightarrow> string \<Rightarrow> error" where
  "field_error k m = with_details (new_validation m) [(k, [m])]"

definition letter_respond :: "bool \<Rightarrow> string \<Rightarrow> string \<Rightarrow> go_time \<Rightarrow> letter \<Rightarrow> letter result" where
  "letter_respond confirm by0 remark0 now l =
     (let by' = trim_space by0; remark = trim_space remark0; st = letter_status_on l now in
      if st = LetterExpired then Inl (new_invalid_state ''this confirmation request has expired'')
      else if st = LetterConfirmed \<or> st = LetterDisputed
      then Inl (new_invalid_state ''this confirmation request was already answered'')
      else if by' = [] \<or> length by' > 120 then Inl (field_error ''name'' ''1-120 characters'')
      else if length remark > 1000 then Inl (field_error ''note'' ''too long'')
      else if \<not> confirm \<and> remark = [] then Inl (field_error ''note'' ''explain the difference you see'')
      else Inr (l\<lparr>le_status := (if confirm then LetterConfirmed else LetterDisputed), le_by := by', le_remark := remark, le_at := Some now\<rparr>))"

section \<open>Rounding of basis points\<close>

lemma apply_bps_exact:
  assumes "\<bar>amount * b\<bar> \<le> int64_max - bps"
  shows "apply_bps amount b = round_half_away (amount * b) bps"
proof -
  define p where "p = amount * b"
  have bound: "\<bar>p\<bar> \<le> int64_max - bps" using assms by (simp only: p_def)
  then have "fits64 p" unfolding fits64_def int64_max_def bps_def by linarith
  then have m: "mul64 amount b = p" by (simp add: mul64_def p_def [symmetric] i64_id)
  have half: "(a + 5000) div 10000 = round_half_away a 10000" if "0 \<le> a" for a :: int
    using half_up_div [OF that, of 10000] by simp
  have pos: "quo64 (add64 a 5000) 10000 = round_half_away a 10000" if "0 \<le> a" "a \<le> int64_max - bps" for a
  proof -
    have "fits64 (a + 5000)" using that by (simp add: fits64_def int64_max_def bps_def)
    then show ?thesis using that half by (simp add: add64_id quo64_nonneg)
  qed
  show ?thesis
  proof (cases "0 \<le> p")
    case True
    then show ?thesis using pos [of p] bound by (simp add: apply_bps_def m bps_def p_def [symmetric] Let_def)
  next
    case False
    have n: "neg64 p = - p" using bound False by (simp add: neg64_id fits64_def int64_max_def bps_def)
    have q: "quo64 (add64 (- p) 5000) 10000 = round_half_away (- p) 10000" using pos [of "- p"] bound False by simp
    have "0 \<le> round_half_away (- p) 10000" "round_half_away (- p) 10000 \<le> - p"
      using round_pos_bounds(3) [of 10000 "- p"] round_le_numerator [of 10000 "- p"] False by auto
    then have "fits64 (- round_half_away (- p) 10000)" using bound False by (simp add: fits64_def int64_max_def bps_def)
    then have "neg64 (round_half_away (- p) 10000) = - round_half_away (- p) 10000" by (rule neg64_id)
    then show ?thesis using False round_neg [of 10000 p] by (simp add: apply_bps_def m bps_def p_def [symmetric] Let_def n q)
  qed
qed

lemma ratio_bps_exact:
  assumes "0 < whole" "\<bar>part * bps\<bar> + whole \<le> int64_max"
  shows "ratio_bps part whole = round_half_away (part * bps) whole"
proof -
  define n where "n = part * bps"
  have bound: "\<bar>n\<bar> + whole \<le> int64_max" using assms(2) by (simp only: n_def)
  then have "fits64 n" using assms(1) unfolding fits64_def int64_max_def by linarith
  then have m: "mul64 part bps = n" by (simp add: mul64_def n_def [symmetric] i64_id)
  have a: "abs64 n = \<bar>n\<bar>" "abs64 whole = whole"
    using assms(1) bound by (auto simp: abs64_def neg64_id fits64_def int64_max_def)
  have h: "quo64 whole 2 = whole div 2" using assms(1) bound by (simp add: quo64_nonneg fits64_def int64_max_def)
  have s: "0 \<le> \<bar>n\<bar> + whole div 2" "\<bar>n\<bar> + whole div 2 \<le> int64_max" using assms(1) bound by auto
  then have f: "fits64 (\<bar>n\<bar> + whole div 2)" by (simp add: fits64_def int64_max_def)
  then have r: "quo64 (add64 \<bar>n\<bar> (whole div 2)) whole = round_half_away \<bar>n\<bar> whole"
    using s assms(1) half_up_div [of "\<bar>n\<bar>" whole] by (simp add: add64_id quo64_nonneg)
  have b: "0 \<le> round_half_away \<bar>n\<bar> whole" "round_half_away \<bar>n\<bar> whole \<le> \<bar>n\<bar>"
    using round_pos_bounds(3) [OF assms(1), of "\<bar>n\<bar>"] round_le_numerator [OF assms(1), of "\<bar>n\<bar>"] by auto
  show ?thesis
  proof (cases "0 \<le> n")
    case True
    then show ?thesis using assms(1) r by (simp add: ratio_bps_def m Let_def a h n_def [symmetric])
  next
    case False
    then have "fits64 (- round_half_away \<bar>n\<bar> whole)" using b bound assms(1) by (simp add: fits64_def int64_max_def)
    then have "neg64 (round_half_away \<bar>n\<bar> whole) = - round_half_away \<bar>n\<bar> whole" by (rule neg64_id)
    then show ?thesis using False assms(1) r round_neg [OF assms(1), of n] by (simp add: ratio_bps_def m Let_def a h n_def [symmetric])
  qed
qed

interpretation bps_rounding: half_away "\<lambda>n d. apply_bps n 1" "\<lambda>n d. d = bps \<and> \<bar>n\<bar> \<le> int64_max - bps"
  by unfold_locales (use apply_bps_exact in \<open>auto simp: bps_def\<close>)

interpretation ratio_rounding: half_away "\<lambda>n d. ratio_bps (n div bps) d" "\<lambda>n d. 0 < d \<and> bps dvd n \<and> \<bar>n\<bar> + d \<le> int64_max"
  by unfold_locales (use ratio_bps_exact in \<open>auto simp: bps_def\<close>)

text \<open>A commission is never more than the margin, and a larger margin never earns less.\<close>

lemma commission_bounds:
  assumes "margin * b \<le> int64_max - bps" "b \<le> bps"
  shows "0 \<le> commission margin b" "margin > 0 \<Longrightarrow> commission margin b \<le> margin"
proof -
  have pos: "0 < margin * b" if "0 < margin" "0 < b" using that by simp
  have e: "commission margin b = round_half_away (margin * b) bps" if "0 < margin" "0 < b"
    using that assms pos apply_bps_exact [of margin b] by (simp add: commission_def)
  show "0 \<le> commission margin b" using e pos round_pos_bounds(3) [of bps "margin * b"] by (cases "0 < margin \<and> 0 < b") (auto simp: commission_def bps_def)
  show "commission margin b \<le> margin" if m: "margin > 0"
  proof (cases "0 < b")
    case True
    have "margin * b \<le> margin * bps" using m assms(2) by simp
    then have "round_half_away (margin * b) bps \<le> round_half_away (margin * bps) bps" by (intro round_mono) (simp_all add: bps_def)
    then show ?thesis using e [OF m True] round_exact [of bps margin] by (simp add: bps_def)
  next
    case False
    then show ?thesis using m by (simp add: commission_def)
  qed
qed

section \<open>The distribution sums up\<close>

definition true_total :: "currency_share list \<Rightarrow> int" where
  "true_total xs = sum_list (map cs_converted (filter counted xs))"

definition quota :: "currency_share list \<Rightarrow> currency_share \<Rightarrow> int" where
  "quota xs s = cs_converted s * bps div true_total xs"

definition remainder :: "currency_share list \<Rightarrow> currency_share \<Rightarrow> int" where
  "remainder xs s = cs_converted s * bps mod true_total xs"

definition balances_ok :: "currency_share list \<Rightarrow> bool" where
  "balances_ok xs \<longleftrightarrow> length xs \<le> 100000 \<and> list_all (\<lambda>s. cs_converted s \<le> max_money) xs"

lemma counted_sum_bounds:
  assumes "list_all (\<lambda>s. cs_converted s \<le> max_money) xs"
  shows "0 \<le> true_total xs" "true_total xs \<le> int (length xs) * max_money" "\<And>s. s \<in> set xs \<Longrightarrow> counted s \<Longrightarrow> 0 < true_total xs"
proof -
  have b: "0 \<le> true_total xs \<and> true_total xs \<le> int (length xs) * max_money"
    using assms by (induction xs) (auto simp: true_total_def counted_def max_money_def algebra_simps)
  then show "0 \<le> true_total xs" "true_total xs \<le> int (length xs) * max_money" by auto
  show "0 < true_total xs" if "s \<in> set xs" "counted s" for s
    using assms that
  proof (induction xs)
    case (Cons x xs)
    have "0 \<le> sum_list (map cs_converted (filter counted xs))" by (rule sum_list_nonneg) (auto simp: counted_def)
    then show ?case using Cons by (auto simp: true_total_def counted_def)
  qed simp
qed

lemma foldl_counted_add:
  assumes "\<And>s. s \<in> set xs \<Longrightarrow> counted s \<Longrightarrow> 0 \<le> f s" "0 \<le> a" "a + sum_list (map f (filter counted xs)) \<le> int64_max"
  shows "foldl (\<lambda>t s. if counted s then add64 t (f s) else t) a xs = a + sum_list (map f (filter counted xs))"
  using assms
proof (induction xs arbitrary: a)
  case (Cons x xs)
  have n: "0 \<le> sum_list (map f (filter counted xs))" using Cons.prems(1) by (intro sum_list_nonneg) auto
  show ?case
  proof (cases "counted x")
    case True
    then have "0 \<le> f x" using Cons.prems(1) by simp
    then have "add64 a (f x) = a + f x" using Cons.prems(2,3) True n by (simp add: add64_id fits64_def int64_max_def)
    then show ?thesis using Cons.IH [of "a + f x"] Cons.prems True \<open>0 \<le> f x\<close> by simp
  next
    case False
    then show ?thesis using Cons by simp
  qed
qed simp

lemma shares_total_exact: "balances_ok xs \<Longrightarrow> shares_total xs = true_total xs"
  using counted_sum_bounds(2) [of xs] foldl_counted_add [of xs cs_converted 0]
  by (auto simp: shares_total_def true_total_def balances_ok_def counted_def max_money_def int64_max_def)

lemma quota_bounds:
  assumes "balances_ok xs" "s \<in> set xs" "counted s"
  shows "mul64 (cs_converted s) bps = cs_converted s * bps" "quo64 (cs_converted s * bps) (true_total xs) = quota xs s"
    "rem (cs_converted s * bps) (true_total xs) = remainder xs s" "0 \<le> quota xs s" "quota xs s \<le> bps"
proof -
  have t: "0 < true_total xs" "cs_converted s \<le> max_money" "0 < cs_converted s"
    using counted_sum_bounds(3) [of xs s] assms by (auto simp: balances_ok_def list_all_iff counted_def)
  have le: "cs_converted s \<le> true_total xs"
  proof -
    have "cs_converted s \<in> set (map cs_converted (filter counted xs))" using assms(2,3) by simp
    moreover have "\<forall>x \<in> set (map cs_converted (filter counted xs)). 0 \<le> x" by (auto simp: counted_def)
    ultimately show ?thesis unfolding true_total_def by (intro member_le_sum_list) auto
  qed
  have f: "fits64 (cs_converted s * bps)" using t by (simp add: fits64_def bps_def max_money_def)
  then show "mul64 (cs_converted s) bps = cs_converted s * bps" by (rule mul64_id)
  have p: "0 \<le> cs_converted s * bps" using t by (simp add: bps_def)
  then show "quo64 (cs_converted s * bps) (true_total xs) = quota xs s" using t f by (simp add: quota_def quo64_nonneg)
  show "rem (cs_converted s * bps) (true_total xs) = remainder xs s" using p t by (simp add: remainder_def rem_nonneg)
  show "0 \<le> quota xs s" using p t by (simp add: quota_def pos_imp_zdiv_nonneg_iff)
  have "quota xs s \<le> true_total xs * bps div true_total xs" unfolding quota_def using le t by (intro zdiv_mono1) (simp_all add: bps_def)
  then show "quota xs s \<le> bps" using t by simp
qed

text \<open>What the quotients leave over is less than one point for each counted entry.\<close>

lemma leftover:
  assumes "balances_ok xs" "0 < true_total xs"
  defines "A \<equiv> sum_list (map (quota xs) (filter counted xs))"
  shows "0 \<le> A" "A \<le> bps" "bps - A \<le> int (length (filter counted xs))"
proof -
  let ?c = "filter counted xs"
  have one: "cs_converted s * bps = quota xs s * true_total xs + remainder xs s" for s by (simp add: quota_def remainder_def)
  have "true_total xs * bps = sum_list (map (\<lambda>s. cs_converted s * bps) ?c)" by (simp add: true_total_def sum_list_mult_const)
  also have "\<dots> = A * true_total xs + sum_list (map (remainder xs) ?c)"
    unfolding one by (simp add: A_def sum_list_addf sum_list_mult_const)
  finally have e: "true_total xs * bps = A * true_total xs + sum_list (map (remainder xs) ?c)" .
  have r: "0 \<le> sum_list (map (remainder xs) ?c)" "sum_list (map (remainder xs) ?c) \<le> true_total xs * int (length ?c)"
  proof -
    show "0 \<le> sum_list (map (remainder xs) ?c)" using assms(2) by (intro sum_list_nonneg) (auto simp: remainder_def)
    have "sum_list (map (remainder xs) ?c) \<le> sum_list (map (\<lambda>_. true_total xs) ?c)"
      using assms(2) by (intro sum_list_mono) (simp add: remainder_def less_imp_le)
    then show "sum_list (map (remainder xs) ?c) \<le> true_total xs * int (length ?c)" by (simp add: sum_list_triv mult.commute)
  qed
  show "0 \<le> A" unfolding A_def using quota_bounds(4) [OF assms(1)] by (intro sum_list_nonneg) auto
  have "A * true_total xs \<le> bps * true_total xs" using e r by (simp add: mult.commute)
  then show "A \<le> bps" using assms(2) by simp
  have "(bps - A) * true_total xs \<le> int (length ?c) * true_total xs" using e r by (simp add: algebra_simps)
  then show "bps - A \<le> int (length ?c)" using assms(2) by simp
qed

definition bump :: "currency_share \<Rightarrow> currency_share" where "bump s = s\<lparr>cs_share := cs_share s + 1\<rparr>"

lemma hand_out_nth:
  assumes "distinct (map fst rems)" "\<forall>r \<in> set rems. fst r < length out"
  shows "length (hand_out a rems out) = length out"
    "i < length out \<Longrightarrow> hand_out a rems out ! i = (if i \<in> fst ` set (take (nat (bps - a)) rems) then bump (out ! i) else out ! i)"
proof -
  have "length (hand_out a rems out) = length out \<and>
    (i < length out \<longrightarrow> hand_out a rems out ! i = (if i \<in> fst ` set (take (nat (bps - a)) rems) then bump (out ! i) else out ! i))"
    using assms
  proof (induction rems arbitrary: a out)
    case (Cons r rems)
    show ?case
    proof (cases "a < bps")
      case True
      then have n: "nat (bps - a) = Suc (nat (bps - (a + 1)))" by simp
      let ?out = "out[fst r := bump (out ! fst r)]"
      have h: "hand_out a (r # rems) out = hand_out (a + 1) rems ?out" using True by (simp add: bump_def)
      have "fst r \<notin> fst ` set (take k rems)" for k using Cons.prems(1) set_take_subset [of k rems] by auto
      then show ?thesis unfolding h n using Cons.IH [of ?out "a + 1"] Cons.prems by (auto simp: nth_list_update)
    next
      case False
      then show ?thesis by simp
    qed
  qed simp
  then show "length (hand_out a rems out) = length out"
    "i < length out \<Longrightarrow> hand_out a rems out ! i = (if i \<in> fst ` set (take (nat (bps - a)) rems) then bump (out ! i) else out ! i)" by auto
qed

lemma counted_floor [simp]: "counted (floor_share t s) = counted s" "counted (bump s) = counted s"
  by (simp_all add: counted_def floor_share_def bump_def)

lemma share_fields [simp]: "cs_converted (floor_share t s) = cs_converted s" "cs_converted (bump s) = cs_converted s"
    "cs_share (bump s) = cs_share s + 1" "(floor_share t s)\<lparr>cs_share := 0\<rparr> = s\<lparr>cs_share := 0\<rparr>" "(bump s)\<lparr>cs_share := 0\<rparr> = s\<lparr>cs_share := 0\<rparr>"
  by (simp_all add: floor_share_def bump_def)

lemma share_rems_spec:
  assumes "balances_ok xs"
  shows "distinct (map fst (share_rems (true_total xs) xs))" "length (share_rems (true_total xs) xs) = length (filter counted xs)"
    "(i, r) \<in> set (share_rems (true_total xs) xs) \<longleftrightarrow> i < length xs \<and> counted (xs ! i) \<and> r = remainder xs (xs ! i)"
proof -
  let ?l = "filter (\<lambda>(i, s). counted s) (enumerate 0 xs)"
  have "map fst (share_rems (true_total xs) xs) = map fst ?l" by (auto simp: share_rems_def)
  moreover have "distinct (map fst ?l)" by (rule distinct_map_filter) simp
  ultimately show "distinct (map fst (share_rems (true_total xs) xs))" by simp
  have "filter counted (map snd (enumerate 0 xs)) = map snd ?l" unfolding filter_map by (simp add: comp_def case_prod_unfold)
  then have "length (filter counted xs) = length ?l" by (metis length_map map_snd_enumerate)
  then show "length (share_rems (true_total xs) xs) = length (filter counted xs)" by (simp add: share_rems_def)
  show "(i, r) \<in> set (share_rems (true_total xs) xs) \<longleftrightarrow> i < length xs \<and> counted (xs ! i) \<and> r = remainder xs (xs ! i)"
  proof -
    have q: "rem (mul64 (cs_converted (xs ! j)) bps) (true_total xs) = remainder xs (xs ! j)" if "j < length xs" "counted (xs ! j)" for j
      using quota_bounds(1,3) [OF assms nth_mem [OF that(1)] that(2)] by simp
    have "(i, r) \<in> set (share_rems (true_total xs) xs) \<longleftrightarrow>
        i < length xs \<and> counted (xs ! i) \<and> r = rem (mul64 (cs_converted (xs ! i)) bps) (true_total xs)"
      by (auto simp: share_rems_def in_set_enumerate_eq image_iff case_prod_unfold intro!: exI [of _ "(i, xs ! i)"])
    then show ?thesis using q by auto
  qed
qed

lemma sum_list_nth: "sum_list (map f xs) = (\<Sum>i < length xs. f (xs ! i))"
  by (simp add: sum_list_sum_nth atLeast0LessThan)

text \<open>The entries before the final sort, position by position.\<close>

lemma shares_before_sort:
  assumes ok: "balances_ok xs" and some: "s0 \<in> set xs" "counted s0"
  defines "A \<equiv> sum_list (map (quota xs) (filter counted xs))"
  obtains ys I where "shares xs = sort_key (\<lambda>s. (- cs_converted s, cs_currency s)) ys" "length ys = length xs"
    "\<And>i. i < length xs \<Longrightarrow> ys ! i = (if i \<in> I then bump (floor_share (true_total xs) (xs ! i)) else floor_share (true_total xs) (xs ! i))"
    "I \<subseteq> {i. i < length xs \<and> counted (xs ! i)}" "int (card I) = bps - A"
    "\<And>i j. i \<in> I \<Longrightarrow> j < length xs \<Longrightarrow> counted (xs ! j) \<Longrightarrow> j \<notin> I \<Longrightarrow> remainder xs (xs ! j) \<le> remainder xs (xs ! i)"
proof -
  define T where "T = true_total xs"
  have T: "0 < T" using counted_sum_bounds(3) [of xs s0] ok some by (simp add: T_def balances_ok_def)
  define R where "R = sort_key (\<lambda>r. - snd r) (share_rems T xs)"
  define out where "out = map (floor_share T) xs"
  define I where "I = fst ` set (take (nat (bps - A)) R)"
  note left = leftover [OF ok T [unfolded T_def], folded A_def]
  have share: "cs_share (floor_share T s) = quota xs s" if "s \<in> set xs" "counted s" for s
    using quota_bounds(1,2) [OF ok that] that by (simp add: floor_share_def T_def)
  have fc: "filter counted out = map (floor_share T) (filter counted xs)" by (simp add: out_def filter_map comp_def)
  have "sum_list (map cs_share (filter counted out)) = A"
    unfolding fc A_def map_map by (rule arg_cong [of _ _ sum_list], rule map_cong) (use share in auto)
  moreover have "0 \<le> cs_share s" if "s \<in> set out" "counted s" for s
    using that share quota_bounds(4) [OF ok] by (auto simp: out_def)
  ultimately have asg: "foldl (\<lambda>a s. if counted s then add64 a (cs_share s) else a) 0 out = A"
    using foldl_counted_add [of out cs_share 0] left(2) by (simp add: bps_def int64_max_def)
  have rem_set: "set R = set (share_rems T xs)" and dist: "distinct (map fst R)" and len: "length R = length (filter counted xs)"
    using share_rems_spec(1,2) [OF ok] by (simp_all add: R_def T_def distinct_map)
  have mem: "(i, r) \<in> set R \<longleftrightarrow> i < length xs \<and> counted (xs ! i) \<and> r = remainder xs (xs ! i)" for i r
    unfolding rem_set T_def by (rule share_rems_spec(3) [OF ok])
  note hand = hand_out_nth [OF dist, where out = out and a = A]
  have idx: "\<forall>r \<in> set R. fst r < length out" using mem by (auto simp: out_def)
  have eq: "shares xs = sort_key (\<lambda>s. (- cs_converted s, cs_currency s)) (hand_out A R out)"
    using T shares_total_exact [OF ok] asg by (simp add: shares_def Let_def T_def out_def R_def)
  show thesis
  proof (rule that [OF eq])
    show "length (hand_out A R out) = length xs" using hand(1) [OF idx] by (simp add: out_def)
    show "hand_out A R out ! i = (if i \<in> I then bump (floor_share (true_total xs) (xs ! i)) else floor_share (true_total xs) (xs ! i))"
      if "i < length xs" for i
      using hand(2) [OF idx, of i] that by (simp add: out_def I_def T_def)
    show "I \<subseteq> {i. i < length xs \<and> counted (xs ! i)}" using mem by (force simp: I_def dest: in_set_takeD)
    have "distinct (map fst (take (nat (bps - A)) R))" using dist by (metis distinct_take take_map)
    then have "card I = length (take (nat (bps - A)) R)" unfolding I_def using distinct_card by fastforce
    then show "int (card I) = bps - A" using left(2,3) len by simp
    fix i j
    assume i: "i \<in> I" and j: "j < length xs" "counted (xs ! j)" "j \<notin> I"
    define k where "k = nat (bps - A)"
    have split: "R = take k R @ drop k R" by simp
    obtain r where r: "(i, r) \<in> set (take k R)" using i by (auto simp: I_def k_def)
    have jR: "(j, remainder xs (xs ! j)) \<in> set R" using mem j by simp
    have "(j, remainder xs (xs ! j)) \<notin> set (take k R)" using j(3) by (force simp: I_def k_def)
    then have jd: "(j, remainder xs (xs ! j)) \<in> set (drop k R)" using jR split by (metis Un_iff set_append)
    have "sorted (map (\<lambda>r. - snd r) (take k R @ drop k R))" by (simp add: R_def)
    then have "- r \<le> - remainder xs (xs ! j)" unfolding map_append sorted_append using r jd by fastforce
    moreover have "r = remainder xs (xs ! i)" using r mem in_set_takeD by metis
    ultimately show "remainder xs (xs ! j) \<le> remainder xs (xs ! i)" by simp
  qed
qed

text \<open>
  C24. The currency distribution is a largest-remainder apportionment. For up to a hundred thousand balances within the
  money bound, one of them positive, the shares add up to exactly 10000 basis points; every counted currency gets its
  exact share rounded down, or one point more, and the extra points go to the largest remainders; the others get
  nothing; nothing but the shares changes, and the result is in the order of the converted amounts.
\<close>

theorem shares_largest_remainder:
  assumes "balances_ok xs" "s0 \<in> set xs" "counted s0"
  shows "sum_list (map cs_share (shares xs)) = bps
    \<and> mset (map (\<lambda>s. s\<lparr>cs_share := 0\<rparr>) (shares xs)) = mset (map (\<lambda>s. s\<lparr>cs_share := 0\<rparr>) xs)
    \<and> sorted_wrt (\<lambda>s t. cs_converted t \<le> cs_converted s) (shares xs)
    \<and> (\<forall>s \<in> set (shares xs). if counted s then cs_share s \<in> {quota xs s, quota xs s + 1} else cs_share s = 0)
    \<and> (\<forall>s \<in> set (shares xs). \<forall>t \<in> set (shares xs). counted s \<and> counted t \<and> cs_share s = quota xs s + 1 \<and> cs_share t = quota xs t
        \<longrightarrow> remainder xs t \<le> remainder xs s)"
proof -
  define A where "A = sum_list (map (quota xs) (filter counted xs))"
  obtain ys I where ys: "shares xs = sort_key (\<lambda>s. (- cs_converted s, cs_currency s)) ys" "length ys = length xs"
    and nth: "\<And>i. i < length xs \<Longrightarrow> ys ! i = (if i \<in> I then bump (floor_share (true_total xs) (xs ! i)) else floor_share (true_total xs) (xs ! i))"
    and I: "I \<subseteq> {i. i < length xs \<and> counted (xs ! i)}" "int (card I) = bps - A"
    and fair: "\<And>i j. i \<in> I \<Longrightarrow> j < length xs \<Longrightarrow> counted (xs ! j) \<Longrightarrow> j \<notin> I \<Longrightarrow> remainder xs (xs ! j) \<le> remainder xs (xs ! i)"
    using shares_before_sort [OF assms] unfolding A_def by blast
  have set: "set (shares xs) = set ys" "mset (shares xs) = mset ys" by (simp_all add: ys(1))
  have share: "cs_share (floor_share (true_total xs) s) = (if counted s then quota xs s else 0)" if "s \<in> set xs" for s
    using quota_bounds(1,2) [OF assms(1) that] by (auto simp: floor_share_def)
  have fin: "finite I" "I \<subseteq> {..<length xs}" using I(1) finite_subset [of I "{..<length xs}"] by auto
  have at: "ys ! i = (if i \<in> I then bump (floor_share (true_total xs) (xs ! i)) else floor_share (true_total xs) (xs ! i))
      \<and> cs_share (ys ! i) = (if counted (xs ! i) then quota xs (xs ! i) else 0) + (if i \<in> I then 1 else 0)
      \<and> (counted (ys ! i) \<longleftrightarrow> counted (xs ! i)) \<and> quota xs (ys ! i) = quota xs (xs ! i) \<and> remainder xs (ys ! i) = remainder xs (xs ! i)"
    if "i < length xs" for i
    using nth [OF that] share [OF nth_mem [OF that]] by (auto simp: quota_def remainder_def)
  have "sum_list (map cs_share ys) = (\<Sum>i < length xs. (if counted (xs ! i) then quota xs (xs ! i) else 0) + (if i \<in> I then 1 else 0))"
    unfolding sum_list_nth ys(2) by (intro sum.cong refl at [THEN conjunct2, THEN conjunct1]) simp
  also have "\<dots> = A + int (card I)"
  proof -
    have "A = (\<Sum>i < length xs. if counted (xs ! i) then quota xs (xs ! i) else 0)" 
      unfolding A_def sum_list_map_filter' by (rule sum_list_nth)
    then show ?thesis using fin by (simp add: sum.distrib sum.If_cases Int_absorb1)
  qed
  finally have "sum_list (map cs_share ys) = bps" using I(2) by simp
  then have 1: "sum_list (map cs_share (shares xs)) = bps" using set(2) by (metis mset_map sum_mset_sum_list)
  have "map (\<lambda>s. s\<lparr>cs_share := 0\<rparr>) ys = map (\<lambda>s. s\<lparr>cs_share := 0\<rparr>) xs"
    by (rule nth_equalityI) (auto simp: ys(2) nth)
  then have 2: "mset (map (\<lambda>s. s\<lparr>cs_share := 0\<rparr>) (shares xs)) = mset (map (\<lambda>s. s\<lparr>cs_share := 0\<rparr>) xs)"
    using set(2) by (metis mset_map)
  have "sorted_wrt (\<lambda>s t. (- cs_converted s, cs_currency s) \<le> (- cs_converted t, cs_currency t)) (shares xs)"
    using sorted_sort_key [of "\<lambda>s. (- cs_converted s, cs_currency s)" ys] by (simp add: ys(1) sorted_map)
  then have 3: "sorted_wrt (\<lambda>s t. cs_converted t \<le> cs_converted s) (shares xs)" by (rule sorted_wrt_mono_rel [rotated]) auto
  have mem: "\<exists>i < length xs. s = ys ! i" if "s \<in> set (shares xs)" for s
    using that ys(2) unfolding set(1) in_set_conv_nth by metis
  have 4: "if counted s then cs_share s \<in> {quota xs s, quota xs s + 1} else cs_share s = 0" if "s \<in> set (shares xs)" for s
    using mem [OF that] at I(1) by fastforce
  have 5: "remainder xs t \<le> remainder xs s"
    if st: "s \<in> set (shares xs)" "t \<in> set (shares xs)" "counted s" "counted t" "cs_share s = quota xs s + 1" "cs_share t = quota xs t" for s t
  proof -
    obtain i j where ij: "i < length xs" "s = ys ! i" "j < length xs" "t = ys ! j" using mem st(1,2) by metis
    have "i \<in> I" using at [OF ij(1)] st(3,5) ij(2) by (auto split: if_splits)
    moreover have "j \<notin> I" "counted (xs ! j)" using at [OF ij(3)] st(4,6) ij(4) by (auto split: if_splits)
    ultimately show ?thesis using fair ij at by metis
  qed
  show ?thesis using 1 2 3 4 5 by blast
qed

text \<open>Three balances, one of them negative: 3333.3 and 6666.7 points become 3333 and 6667.\<close>

definition sample_balances :: "currency_share list" where
  "sample_balances = map (\<lambda>(c, x). \<lparr>cs_currency = c, cs_amount = x, cs_converted = x, cs_share = 0, cs_unconverted = False\<rparr>)
     [(''EUR'', 100), (''GBP'', - 5), (''USD'', 200)]"

theorem shares_largest_remainder_witness:
  "map (\<lambda>s. (cs_currency s, cs_share s)) (shares sample_balances) = [(''USD'', 6667), (''EUR'', 3333), (''GBP'', 0)]
   \<and> sum_list (map cs_share (shares sample_balances)) = bps"
proof -
  have "balances_ok sample_balances" "hd sample_balances \<in> set sample_balances" "counted (hd sample_balances)"
    by (simp_all add: balances_ok_def sample_balances_def max_money_def counted_def)
  note whole = conjunct1 [OF shares_largest_remainder [OF this]]
  have "map (\<lambda>s. (cs_currency s, cs_share s)) (shares sample_balances) = [(''USD'', 6667), (''EUR'', 3333), (''GBP'', 0)]" by code_simp
  then show ?thesis using whole by (rule conjI)
qed

section \<open>Cancellations conserve the money\<close>

text \<open>
  What the customer paid is split into the refund and what is kept; the supplier's refund and penalty are its cost; a
  shortfall is only owed when nothing is refunded; and the agency gains its fee less the shortfall.
\<close>

lemma settle_refund_conserves:
  assumes "refund_validate r = None" "rf_penalty r \<le> rf_supplier_cost r"
  shows "rs_customer (settle_refund r) + rs_retained (settle_refund r) = rf_paid r"
    "rs_supplier (settle_refund r) + rf_penalty r = rf_supplier_cost r"
    "0 \<le> rs_customer (settle_refund r)" "0 \<le> rs_retained (settle_refund r)" "0 \<le> rs_shortfall (settle_refund r)"
    "rs_customer (settle_refund r) = 0 \<or> rs_shortfall (settle_refund r) = 0"
    "rs_agency (settle_refund r) = rf_fee r - rs_shortfall (settle_refund r)"
proof -
  have b: "0 \<le> rf_paid r" "rf_paid r \<le> max_money" "0 \<le> rf_supplier_cost r" "rf_supplier_cost r \<le> max_money"
    "0 \<le> rf_penalty r" "rf_penalty r \<le> max_money" "0 \<le> rf_fee r" "rf_fee r \<le> max_money"
    using assms(1) by (auto simp: refund_validate_def Let_def)
  define owed where "owed = rf_penalty r + rf_fee r"
  have i: "i64 x = x" if "\<bar>x\<bar> \<le> 10 * max_money" for x
    using that by (intro i64_id) (auto simp: fits64_def max_money_def)
  have o: "add64 (rf_penalty r) (rf_fee r) = owed" using b i [of owed] by (simp add: add64_def owed_def max_money_def)
  have c: "sub64 (rf_paid r) owed = rf_paid r - owed" "sub64 owed (rf_paid r) = owed - rf_paid r"
    "sub64 (rf_supplier_cost r) (rf_penalty r) = rf_supplier_cost r - rf_penalty r"
    using b i by (auto simp: sub64_def owed_def max_money_def)
  have s: "settle_refund r = \<lparr>rs_customer = max (rf_paid r - owed) 0, rs_supplier = rf_supplier_cost r - rf_penalty r,
      rs_retained = rf_paid r - max (rf_paid r - owed) 0,
      rs_agency = rf_paid r + (rf_supplier_cost r - rf_penalty r) - rf_supplier_cost r - max (rf_paid r - owed) 0,
      rs_shortfall = max (owed - rf_paid r) 0\<rparr>"
    using b assms(2) i by (simp add: settle_refund_def Let_def o c) (simp add: sub64_def add64_def owed_def max_money_def max_def)
  show "rs_customer (settle_refund r) + rs_retained (settle_refund r) = rf_paid r"
    "rs_supplier (settle_refund r) + rf_penalty r = rf_supplier_cost r"
    "0 \<le> rs_customer (settle_refund r)" "0 \<le> rs_retained (settle_refund r)" "0 \<le> rs_shortfall (settle_refund r)"
    "rs_customer (settle_refund r) = 0 \<or> rs_shortfall (settle_refund r) = 0"
    "rs_agency (settle_refund r) = rf_fee r - rs_shortfall (settle_refund r)"
    using b by (auto simp: s owed_def max_def)
qed

section \<open>Agencies and letters as status machines\<close>

text \<open>A closed agency stays closed; a letter is answered once, and only before it expires.\<close>

inductive agency_move :: "agency \<Rightarrow> agency \<Rightarrow> bool" where
  suspended: "agency_suspend reason now a = Inr a' \<Longrightarrow> agency_move a a'"
| reactivated: "agency_reactivate now a = Inr a' \<Longrightarrow> agency_move a a'"

interpretation agencies: status_machine agency_move ag_status "\<lambda>s. s = AgencyClosed"
  by unfold_locales (auto simp: agency_suspend_def agency_reactivate_def elim!: agency_move.cases split: if_splits)

inductive letter_move :: "letter \<Rightarrow> letter \<Rightarrow> bool" where
  answered: "letter_respond confirm person remark now l = Inr l' \<Longrightarrow> letter_move l l'"

lemma letter_answered_in_time:
  assumes "letter_respond confirm person remark now l = Inr l'"
  shows "le_status l = LetterSent" "\<not> after now (le_expires l)" "le_status l' = (if confirm then LetterConfirmed else LetterDisputed)"
    "le_at l' = Some now" "\<not> confirm \<Longrightarrow> le_remark l' \<noteq> []"
proof -
  have "letter_status_on l now \<notin> {LetterExpired, LetterConfirmed, LetterDisputed}"
    using assms by (auto simp: letter_respond_def Let_def split: if_splits)
  then have "letter_status_on l now = LetterSent" by (cases "letter_status_on l now") auto
  then show "le_status l = LetterSent" "\<not> after now (le_expires l)" by (auto simp: letter_status_on_def split: if_splits)
  show "le_status l' = (if confirm then LetterConfirmed else LetterDisputed)" "le_at l' = Some now" "\<not> confirm \<Longrightarrow> le_remark l' \<noteq> []"
    using assms by (auto simp: letter_respond_def Let_def split: if_splits)
qed

interpretation letters: status_machine letter_move le_status "\<lambda>s. s \<noteq> LetterSent"
  by unfold_locales (use letter_answered_in_time(1) in \<open>blast elim: letter_move.cases\<close>)

text \<open>An agency the sweep suspends may not sell, and a suspended or closed one is graded blocked.\<close>

lemma swept_cannot_sell:
  assumes "agency_suspend ''overdue'' now a = Inr a'"
  shows "can_sell a' e amount \<noteq> None" "rk_level (risk_of a' e) = RiskBlocked"
  using assms by (auto simp: agency_suspend_def can_sell_def risk_of_def Let_def split: if_splits)

lemma should_suspend_critical: "should_suspend a e \<Longrightarrow> rk_level (risk_of a e) = RiskCritical"
  by (auto simp: should_suspend_def risk_of_def Let_def)

end
