(* ===== verification/Treasury.thy ===== *)
theory Treasury
  imports Finance_Rules
begin

text \<open>
  \<^verbatim>\<open>internal/domain/finance/treasury.go\<close>: tills, bank and POS accounts and the movements on them.
\<close>

section \<open>Accounts\<close>

datatype account_kind = AccountCash | AccountBank | AccountPOS | AccountWallet | OtherAccount string

definition account_kind_of :: "string \<Rightarrow> account_kind" where
  "account_kind_of s =
     (if s = ''cash'' then AccountCash else if s = ''bank'' then AccountBank else if s = ''pos'' then AccountPOS
      else if s = ''wallet'' then AccountWallet else OtherAccount s)"

record account =
  ac_id :: uuid
  ac_branch :: uuid
  ac_kind :: account_kind
  ac_name :: string
  ac_currency :: string
  ac_bank :: string
  ac_iban :: string
  ac_commission :: int
  ac_balance :: int
  ac_threshold :: int
  ac_active :: bool
  ac_created :: go_time
  ac_updated :: go_time

text \<open>The rune loop of the check; a byte above 127 is part of a rune outside both ranges.\<close>

primrec iban_loop :: "int \<Rightarrow> string \<Rightarrow> int option" where
  "iban_loop r [] = Some r"
| "iban_loop r (c # cs) =
     (if is_digit c then iban_loop ((r * 10 + (int (byte c) - 48)) mod 97) cs
      else if is_upper c then iban_loop ((r * 100 + (int (byte c) - 65 + 10)) mod 97) cs
      else None)"

definition valid_iban :: "string \<Rightarrow> bool" where
  "valid_iban iban \<longleftrightarrow> 15 \<le> length iban \<and> length iban \<le> 34 \<and> iban_loop 0 (drop 4 iban @ take 4 iban) = Some 1"

definition account_normalize :: "account \<Rightarrow> account result" where
  "account_normalize a =
     (let kind = (case ac_kind a of OtherAccount s \<Rightarrow> account_kind_of (to_lower (trim_space s)) | k \<Rightarrow> k);
          name = trim_space (ac_name a); bank = trim_space (ac_bank a);
          iban = to_upper (filter (\<lambda>c. c \<noteq> CHR '' '') (trim_space (ac_iban a)));
          (cur, ok) = finance_currency (ac_currency a);
          comm = (if kind \<noteq> AccountPOS then 0 else ac_commission a);
          f = field_put (case kind of OtherAccount _ \<Rightarrow> True | _ \<Rightarrow> False) ''kind'' ''cash, bank, pos or wallet'' [];
          f = field_put (name = [] \<or> length name > 120) ''name'' ''1-120 characters'' f;
          f = field_put (\<not> ok) ''currency'' ''ISO 4217 code'' f;
          f = field_put (iban \<noteq> [] \<and> \<not> valid_iban iban) ''iban'' ''invalid IBAN'' f;
          f = field_put (comm < 0 \<or> comm > 2000) ''commission_bps'' ''0-2000'' f;
          f = field_put (ac_threshold a < 0 \<or> ac_threshold a > max_money) ''low_balance_threshold'' ''out of range'' f
      in case fields_err ''invalid account'' f of
           Some e \<Rightarrow> Inl e
         | None \<Rightarrow> Inr (a\<lparr>ac_kind := kind, ac_name := name, ac_currency := cur, ac_bank := bank, ac_iban := iban, ac_commission := comm\<rparr>))"

definition low_balance :: "account \<Rightarrow> bool" where
  "low_balance a \<longleftrightarrow> ac_threshold a > 0 \<and> ac_balance a < ac_threshold a"

section \<open>Movements\<close>

datatype match_state = MatchBlank | MatchNA | MatchUnmatched | MatchMatched | MatchIgnored

record movement =
  mv_id :: uuid
  mv_account :: uuid
  mv_branch :: uuid
  mv_direction :: string
  mv_kind :: string
  mv_amount :: int
  mv_fee :: int
  mv_currency :: string
  mv_balance_after :: int
  mv_booking :: "uuid option"
  mv_supplier :: "uuid option"
  mv_counter :: "uuid option"
  mv_transfer :: "uuid option"
  mv_source :: string
  mv_external :: string
  mv_reference :: string
  mv_party :: string
  mv_remark :: string
  mv_match :: match_state
  mv_payment :: "uuid option"
  mv_on :: go_time
  mv_actor :: "uuid option"
  mv_created :: go_time

text \<open>Go's zero value of the struct.\<close>

definition zero_movement :: movement where
  "zero_movement = \<lparr>mv_id = uuid_nil, mv_account = uuid_nil, mv_branch = uuid_nil, mv_direction = [], mv_kind = [], mv_amount = 0, mv_fee = 0,
     mv_currency = [], mv_balance_after = 0, mv_booking = None, mv_supplier = None, mv_counter = None, mv_transfer = None,
     mv_source = [], mv_external = [], mv_reference = [], mv_party = [], mv_remark = [], mv_match = MatchBlank, mv_payment = None,
     mv_on = zero_time, mv_actor = None, mv_created = zero_time\<rparr>"

definition movement_net :: "movement \<Rightarrow> int" where
  "movement_net m = (if mv_direction m = ''in'' then sub64 (mv_amount m) (mv_fee m) else neg64 (add64 (mv_amount m) (mv_fee m)))"

definition move_kinds :: "string list" where
  "move_kinds = [''collection'', ''supplier_payment'', ''transfer'', ''expense'', ''refund'', ''adjustment'']"

definition clean_movement :: "movement \<Rightarrow> movement" where
  "clean_movement m =
     m\<lparr>mv_direction := to_lower (trim_space (mv_direction m)), mv_kind := to_lower (trim_space (mv_kind m)),
       mv_reference := trim_space (mv_reference m), mv_party := trim_space (mv_party m), mv_remark := trim_space (mv_remark m),
       mv_external := trim_space (mv_external m)\<rparr>"

text \<open>The source and the match state a movement gets when it names none.\<close>

definition default_states :: "movement \<Rightarrow> movement" where
  "default_states m0 =
     (let m = (if mv_source m0 = [] then m0\<lparr>mv_source := ''manual''\<rparr> else m0)
      in if mv_match m \<noteq> MatchBlank then m
         else m\<lparr>mv_match := (if mv_source m = ''bank_feed'' \<and> mv_direction m = ''in'' \<and> mv_booking m = None then MatchUnmatched else MatchNA)\<rparr>)"

definition movement_fields :: "movement \<Rightarrow> fields" where
  "movement_fields m =
     (let dir = mv_direction m; kind = mv_kind m; src = mv_source m;
          f = field_put (dir \<noteq> ''in'' \<and> dir \<noteq> ''out'') ''direction'' ''in or out'' [];
          f = field_put (kind \<notin> set move_kinds) ''kind'' ''unknown movement kind'' f;
          f = field_put (\<not> money_in_range (mv_amount m)) ''amount'' ''must be positive'' f;
          f = field_put (mv_fee m < 0 \<or> mv_fee m > mv_amount m) ''fee'' ''between 0 and the amount'' f;
          f = field_put (length (mv_reference m) > 140 \<or> length (mv_remark m) > 500 \<or> length (mv_party m) > 140 \<or> length (mv_external m) > 120)
                ''reference'' ''too long'' f;
          f = field_put (kind = ''collection'' \<and> dir \<noteq> ''in'') ''direction'' ''collections come in'' f;
          f = field_put (kind \<in> {''supplier_payment'', ''expense'', ''refund''} \<and> dir \<noteq> ''out'') ''direction'' ''this kind goes out'' f
      in field_put (src \<noteq> ''manual'' \<and> src \<noteq> ''bank_feed'') ''source'' ''manual or bank_feed'' f)"

definition movement_validate :: "movement \<Rightarrow> movement result" where
  "movement_validate m0 =
     (let m = default_states (clean_movement m0)
      in case fields_err ''invalid movement'' (movement_fields m) of Some e \<Rightarrow> Inl e | None \<Rightarrow> Inr m)"

definition account_post :: "account \<Rightarrow> movement \<Rightarrow> (account \<times> movement) result" where
  "account_post a m0 =
     (if \<not> ac_active a then Inl (new_invalid_state ''account is inactive'')
      else let m = (if mv_currency m0 = [] then m0\<lparr>mv_currency := ac_currency a\<rparr> else m0) in
        if mv_currency m \<noteq> ac_currency a then Inl (field_error ''currency'' ''movement currency must match the account'')
        else let next = add64 (ac_balance a) (movement_net m) in
          if next < 0 \<and> (ac_kind a = AccountCash \<or> ac_kind a = AccountWallet)
          then Inl (with_details (new_conflict ''balance is not enough for this movement'') [(''amount'', [''balance is not enough''])])
          else if next > max_money \<or> next < - max_money then Inl (field_error ''amount'' ''balance out of range'')
          else Inr (a\<lparr>ac_balance := next\<rparr>, m\<lparr>mv_account := ac_id a, mv_branch := ac_branch a, mv_balance_after := next\<rparr>))"

definition pos_fee :: "account \<Rightarrow> int \<Rightarrow> int" where
  "pos_fee a amount = (if ac_kind a \<noteq> AccountPOS \<or> ac_commission a \<le> 0 then 0 else apply_bps amount (ac_commission a))"

section \<open>The check digits of an IBAN\<close>

text \<open>The number the standard takes the remainder of: letters count for two digits, A for 10.\<close>

definition alnum :: "char \<Rightarrow> bool" where "alnum c \<longleftrightarrow> is_digit c \<or> is_upper c"

definition char_value :: "char \<Rightarrow> int" where
  "char_value c = (if is_digit c then int (byte c) - 48 else int (byte c) - 55)"

definition char_base :: "char \<Rightarrow> int" where "char_base c = (if is_digit c then 10 else 100)"

definition iban_number :: "string \<Rightarrow> int" where
  "iban_number s = foldl (\<lambda>n c. n * char_base c + char_value c) 0 s"

lemma digit_not_upper [simp]: "is_upper c \<Longrightarrow> \<not> is_digit c"
  by (simp add: is_upper_def is_digit_def)

lemma iban_loop_number:
  "iban_loop (r mod 97) s = (if list_all alnum s then Some (foldl (\<lambda>n c. n * char_base c + char_value c) r s mod 97) else None)"
proof (induction s arbitrary: r)
  case (Cons c cs)
  have step: "(r mod 97 * b + v) mod 97 = (r * b + v) mod 97" for b v :: int
    by (metis mod_add_left_eq mod_mult_left_eq)
  note IH = Cons [of "r * char_base c + char_value c"]
  consider (digit) "is_digit c" | (upper) "\<not> is_digit c" "is_upper c" | (neither) "\<not> is_digit c" "\<not> is_upper c" by blast
  then show ?case
  proof cases
    case digit
    have "iban_loop (r mod 97) (c # cs) = iban_loop ((r * 10 + char_value c) mod 97) cs"
      using digit step [of 10 "char_value c"] by (simp add: char_value_def)
    then show ?thesis using IH digit by (simp add: alnum_def char_base_def)
  next
    case upper
    have "iban_loop (r mod 97) (c # cs) = iban_loop ((r * 100 + char_value c) mod 97) cs"
      using upper step [of 100 "char_value c"] by (simp add: char_value_def algebra_simps)
    then show ?thesis using IH upper by (simp add: alnum_def char_base_def)
  next
    case neither
    then show ?thesis by (simp add: alnum_def)
  qed
qed simp

lemma foldl_base:
  "foldl (\<lambda>n c. n * char_base c + char_value c) r s = r * prod_list (map char_base s) + iban_number s"
proof (induction s arbitrary: r)
  case (Cons c cs)
  show ?case unfolding iban_number_def using Cons [of "r * char_base c + char_value c"] Cons [of "char_value c"]
    by (simp add: algebra_simps)
qed (simp add: iban_number_def)

lemma iban_number_append: "iban_number (s @ t) = iban_number s * prod_list (map char_base t) + iban_number t"
  unfolding iban_number_def foldl_append using foldl_base [of "iban_number s" t] by (simp add: iban_number_def)

lemma bases_coprime: "coprime (prod_list (map char_base s)) (97 :: int)"
proof (induction s)
  case (Cons c cs)
  have "coprime (10 :: int) 97" by code_simp
  moreover have "coprime (100 :: int) 97" by code_simp
  ultimately have "coprime (char_base c) 97" by (simp add: char_base_def)
  then show ?case using Cons by simp
qed simp

lemma valid_iban_number:
  "valid_iban s \<longleftrightarrow>
     15 \<le> length s \<and> length s \<le> 34 \<and> list_all alnum s \<and> iban_number (drop 4 s @ take 4 s) mod 97 = 1"
proof -
  have "set (drop 4 s @ take 4 s) = set (take 4 s @ drop 4 s)" by (simp only: set_append Un_commute)
  then have "set (drop 4 s @ take 4 s) = set s" by (simp only: append_take_drop_id)
  then have all: "list_all alnum (drop 4 s @ take 4 s) \<longleftrightarrow> list_all alnum s" unfolding list_all_iff by (rule arg_cong [where f = "\<lambda>A. \<forall>x\<in>A. alnum x"])
  show ?thesis
    unfolding valid_iban_def using iban_loop_number [of 0 "drop 4 s @ take 4 s"]
    by (auto simp del: list_all_append simp add: all iban_number_def)
qed

lemma iban_number_at:
  "iban_number (a @ c # b) = (iban_number a * char_base c + char_value c) * prod_list (map char_base b) + iban_number b"
  using iban_number_append [of "a @ [c]" b] iban_number_append [of a "[c]"] by (simp add: iban_number_def)

lemma rotation_at:
  fixes u v :: "'a list"
  obtains a b where "\<forall>x. drop 4 (u @ x # v) @ take 4 (u @ x # v) = a @ x # b"
proof (cases "length u < 4")
  case True
  then obtain k where k: "4 = length u + Suc k" by (metis less_iff_Suc_add add_Suc_right)
  then have "drop 4 (u @ x # v) @ take 4 (u @ x # v) = (drop k v @ u) @ x # take k v" for x
    by (simp add: k)
  then show ?thesis using that [of "drop k v @ u" "take k v"] by simp
next
  case False
  then have "drop 4 (u @ x # v) @ take 4 (u @ x # v) = drop 4 u @ x # v @ take 4 u" for x by simp
  then show ?thesis using that [of "drop 4 u" "v @ take 4 u"] by simp
qed

definition same_class :: "char \<Rightarrow> char \<Rightarrow> bool" where
  "same_class c d \<longleftrightarrow> is_digit c \<and> is_digit d \<or> is_upper c \<and> is_upper d"

lemma same_class_values:
  assumes "same_class c d" "c \<noteq> d"
  shows "char_base c = char_base d" "\<not> 97 dvd char_value c - char_value d"
proof -
  have "byte c \<noteq> byte d" using assms(2) by simp
  then have "char_value c - char_value d \<noteq> 0" "\<bar>char_value c - char_value d\<bar> < 97"
    using assms(1) by (auto simp: same_class_def char_value_def is_digit_def is_upper_def)
  then show "\<not> 97 dvd char_value c - char_value d" using zdvd_imp_le [of 97 "\<bar>char_value c - char_value d\<bar>"] by auto
  show "char_base c = char_base d" using assms(1) by (auto simp: same_class_def char_base_def)
qed

text \<open>
  The IBAN check catches every mistyped character: when an IBAN passes, no string got from it by replacing one
  digit by another digit, or one letter by another letter, passes.
\<close>

theorem iban_catches_typo:
  assumes "valid_iban (u @ c # v)" "same_class c d" "c \<noteq> d"
  shows "\<not> valid_iban (u @ d # v)"
proof
  assume bad: "valid_iban (u @ d # v)"
  obtain a b where rot: "\<forall>x. drop 4 (u @ x # v) @ take 4 (u @ x # v) = a @ x # b"
    by (rule rotation_at [of u v])
  let ?P = "prod_list (map char_base b)"
  have "iban_number (a @ c # b) mod 97 = iban_number (a @ d # b) mod 97"
    using assms(1) bad rot by (simp add: valid_iban_number)
  then have "97 dvd iban_number (a @ c # b) - iban_number (a @ d # b)" by (rule mod_eq_dvd_iff [THEN iffD1])
  moreover have "iban_number (a @ c # b) - iban_number (a @ d # b) = (char_value c - char_value d) * ?P"
    using same_class_values(1) [OF assms(2,3)] by (simp add: iban_number_at algebra_simps)
  ultimately have "97 dvd (char_value c - char_value d) * ?P" by simp
  then have "97 dvd char_value c - char_value d"
    using bases_coprime [of b] by (simp add: coprime_dvd_mult_left_iff coprime_commute)
  then show False using same_class_values(2) [OF assms(2,3)] by simp
qed

theorem iban_catches_typo_witness:
  "valid_iban ''GB82WEST12345698765432'' \<and> \<not> valid_iban ''GB82WEST12345698765431''"
proof -
  have v: "valid_iban (''GB82WEST1234569876543'' @ CHR ''2'' # [])" by code_simp
  have "\<not> valid_iban (''GB82WEST1234569876543'' @ CHR ''1'' # [])"
    by (rule iban_catches_typo [OF v]) (simp_all add: same_class_def is_digit_def)
  then show ?thesis using v by simp
qed

section \<open>Posting\<close>

lemma max_money_bounds: "0 < max_money" "4 * max_money < int64_max" by (simp_all add: max_money_def int64_max_def)

lemma fits64_small: "\<bar>x\<bar> \<le> 4 * max_money \<Longrightarrow> fits64 x"
  by (simp add: fits64_def max_money_def int64_min_def int64_max_def abs_le_iff)

text \<open>What \<open>Validate\<close> leaves: its second run, inside \<open>post\<close>, changes nothing.\<close>

definition movement_ok :: "movement \<Rightarrow> bool" where
  "movement_ok m \<longleftrightarrow> mv_direction m \<in> {''in'', ''out''} \<and> mv_kind m \<in> set move_kinds \<and> money_in_range (mv_amount m)
     \<and> 0 \<le> mv_fee m \<and> mv_fee m \<le> mv_amount m \<and> mv_source m \<in> {''manual'', ''bank_feed''} \<and> mv_match m \<noteq> MatchBlank
     \<and> (mv_kind m = ''collection'' \<longrightarrow> mv_direction m = ''in'')
     \<and> (mv_kind m \<in> {''supplier_payment'', ''expense'', ''refund''} \<longrightarrow> mv_direction m = ''out'')"

lemma default_states_sel [simp]:
  "mv_direction (default_states m) = mv_direction m" "mv_kind (default_states m) = mv_kind m"
  "mv_amount (default_states m) = mv_amount m" "mv_fee (default_states m) = mv_fee m"
  "mv_match (default_states m) \<noteq> MatchBlank"
  by (simp_all add: default_states_def Let_def)

lemma movement_validate_ok: "movement_validate m = Inr m' \<Longrightarrow> movement_ok m'"
  by (auto simp: movement_validate_def Let_def movement_fields_def movement_ok_def split: option.splits)

definition signed_net :: "movement \<Rightarrow> int" where
  "signed_net m = (if mv_direction m = ''in'' then mv_amount m - mv_fee m else - (mv_amount m + mv_fee m))"

lemma signed_net_bound: "movement_ok m \<Longrightarrow> \<bar>signed_net m\<bar> \<le> 2 * max_money"
  by (auto simp: movement_ok_def signed_net_def money_in_range_def)

lemma movement_net_exact: "movement_ok m \<Longrightarrow> movement_net m = signed_net m"
  using signed_net_bound [of m]
  by (auto simp: movement_net_def signed_net_def movement_ok_def money_in_range_def go_int fits64_small)

lemma movement_net_currency [simp]: "movement_net (m\<lparr>mv_currency := x\<rparr>) = movement_net m"
  by (simp add: movement_net_def)

definition account_ok :: "account \<Rightarrow> bool" where
  "account_ok a \<longleftrightarrow> \<bar>ac_balance a\<bar> \<le> max_money \<and> (ac_kind a \<in> {AccountCash, AccountWallet} \<longrightarrow> 0 \<le> ac_balance a)"

lemma account_post_Inr:
  assumes "account_post a m = Inr (a', m')" "account_ok a" "movement_ok m"
  shows "a' = a\<lparr>ac_balance := ac_balance a + signed_net m\<rparr>" "account_ok a'"
    "m' = m\<lparr>mv_currency := ac_currency a, mv_account := ac_id a, mv_branch := ac_branch a, mv_balance_after := ac_balance a'\<rparr>"
proof -
  define n where "n = ac_balance a + signed_net m"
  have "add64 (ac_balance a) (signed_net m) = n"
    unfolding n_def using assms(2) signed_net_bound [OF assms(3)]
    by (intro add64_id fits64_small) (auto simp: account_ok_def)
  moreover have "movement_net (m\<lparr>mv_currency := x\<rparr>) = signed_net m" for x
    using movement_net_exact [OF assms(3)] by simp
  moreover note movement_net_exact [OF assms(3)]
  ultimately have post: "a' = a\<lparr>ac_balance := n\<rparr> \<and> \<not> (n < 0 \<and> ac_kind a \<in> {AccountCash, AccountWallet}) \<and> \<bar>n\<bar> \<le> max_money
    \<and> m' = m\<lparr>mv_currency := ac_currency a, mv_account := ac_id a, mv_branch := ac_branch a, mv_balance_after := n\<rparr>"
    using assms(1) by (auto simp: account_post_def Let_def split: if_splits)
  then show "a' = a\<lparr>ac_balance := ac_balance a + signed_net m\<rparr>" "account_ok a'"
    "m' = m\<lparr>mv_currency := ac_currency a, mv_account := ac_id a, mv_branch := ac_branch a, mv_balance_after := ac_balance a'\<rparr>"
    by (auto simp: n_def account_ok_def)
qed

end
