(* ===== verification/Finance_Matching.thy ===== *)
theory Finance_Matching
  imports Treasury Booking_Workspace "HOL-Library.Char_ord" "HOL-Library.AList"
begin

text \<open>
  \<^verbatim>\<open>internal/domain/finance/bsp.go\<close>, the cross-check of an airline billing statement against the bookings, and
  \<^verbatim>\<open>matcher.go\<close>, the search for a booking number in the description of a bank transfer. Strings are ordered by bytes,
  as Go orders them. The identifiers drawn for added lines are a parameter.
\<close>

section \<open>Statements\<close>

datatype bsp_status = BSPBlank | BSPMatched | BSPAmountMismatch | BSPMissingInSystem | BSPMissingInBSP

record bsp_line =
  bl_id :: uuid
  bl_statement :: uuid
  bl_document :: string
  bl_pnr :: string
  bl_type :: string
  bl_passenger :: string
  bl_issued :: "go_time option"
  bl_amount :: int
  bl_booking :: "uuid option"
  bl_system :: "int option"
  bl_status :: bsp_status

definition zero_bsp_line :: bsp_line where
  "zero_bsp_line = \<lparr>bl_id = uuid_nil, bl_statement = uuid_nil, bl_document = [], bl_pnr = [], bl_type = [], bl_passenger = [],
     bl_issued = None, bl_amount = 0, bl_booking = None, bl_system = None, bl_status = BSPBlank\<rparr>"

definition bsp_signed_amount :: "bsp_line \<Rightarrow> int" where
  "bsp_signed_amount l = (if bl_type l = ''refund'' \<or> bl_type l = ''acm'' then neg64 (bl_amount l) else bl_amount l)"

record bsp_statement =
  bs_id :: uuid
  bs_branch :: uuid
  bs_label :: string
  bs_start :: go_time
  bs_end :: go_time
  bs_currency :: string
  bs_total :: int
  bs_system_total :: int
  bs_line_count :: int
  bs_matched :: int
  bs_mismatched :: int
  bs_missing_system :: int
  bs_missing_bsp :: int
  bs_created_by :: "uuid option"
  bs_created :: go_time

record system_ticket =
  tk_booking :: uuid
  tk_pnr :: string
  tk_amount :: int
  tk_currency :: string

definition bsp_clean :: "bsp_line \<Rightarrow> bsp_line" where
  "bsp_clean l =
     (let ty = to_lower (trim_space (bl_type l))
      in l\<lparr>bl_document := trim_space (bl_document l), bl_pnr := to_upper (trim_space (bl_pnr l)),
           bl_type := (if ty = [] then ''sale'' else ty), bl_passenger := trim_space (bl_passenger l)\<rparr>)"

definition bsp_line_bad :: "bsp_line \<Rightarrow> bool" where
  "bsp_line_bad l \<longleftrightarrow> bl_document l = [] \<or> length (bl_document l) > 20 \<or> length (bl_pnr l) > 12 \<or> length (bl_passenger l) > 120
     \<or> bl_type l \<notin> {''sale'', ''refund'', ''adm'', ''acm''} \<or> bl_amount l < 0 \<or> bl_amount l > max_money"

definition normalize_lines :: "bsp_line list \<Rightarrow> bsp_line list result" where
  "normalize_lines ls =
     (if ls = [] \<or> length ls > 5000 then Inl (field_error ''lines'' ''1-5000 lines'')
      else let ls' = map bsp_clean ls;
               f = fold (\<lambda>(i, l). field_put (bsp_line_bad l) (''lines.'' @ show_nat i)
                           ''document number, type and a non-negative amount are required'') (enumerate 0 ls') []
      in case fields_err ''invalid statement lines'' f of Some e \<Rightarrow> Inl e | None \<Rightarrow> Inr ls')"

text \<open>The tickets by PNR, an association list with one entry per PNR, and the sums of the lines by PNR.\<close>

definition add_ticket :: "string \<Rightarrow> (string \<times> system_ticket) list \<Rightarrow> system_ticket \<Rightarrow> (string \<times> system_ticket) list" where
  "add_ticket cur m t =
     (let p = to_upper (trim_space (tk_pnr t))
      in if p = [] \<or> tk_currency t \<noteq> cur then m
         else case map_of m p of
           Some prev \<Rightarrow> AList.update p (prev\<lparr>tk_amount := add64 (tk_amount prev) (tk_amount t)\<rparr>) m
         | None \<Rightarrow> AList.update p (t\<lparr>tk_pnr := p\<rparr>) m)"

definition tickets_by_pnr :: "string \<Rightarrow> system_ticket list \<Rightarrow> (string \<times> system_ticket) list" where
  "tickets_by_pnr cur ts = foldl (add_ticket cur) [] ts"

definition line_sums :: "bsp_line list \<Rightarrow> string \<Rightarrow> int" where
  "line_sums ls =
     foldl (\<lambda>s l. if bl_pnr l \<noteq> [] then s(bl_pnr l := add64 (s (bl_pnr l)) (bsp_signed_amount l)) else s) (\<lambda>_. 0) ls"

definition cross_check ::
  "(string \<times> system_ticket) list \<Rightarrow> (string \<Rightarrow> int) \<Rightarrow> bsp_statement \<times> bsp_line list \<Rightarrow> bsp_line \<Rightarrow> bsp_statement \<times> bsp_line list" where
  "cross_check by_pnr sums = (\<lambda>(st, done) l.
     let st = st\<lparr>bs_total := add64 (bs_total st) (bsp_signed_amount l)\<rparr>
     in case (if bl_pnr l = [] then None else map_of by_pnr (bl_pnr l)) of
          None \<Rightarrow> (st\<lparr>bs_missing_system := bs_missing_system st + 1\<rparr>,
                   done @ [l\<lparr>bl_status := BSPMissingInSystem, bl_booking := None, bl_system := None\<rparr>])
        | Some t \<Rightarrow>
            let l = l\<lparr>bl_booking := Some (tk_booking t), bl_system := Some (tk_amount t)\<rparr>
            in if sums (bl_pnr l) = tk_amount t
               then (st\<lparr>bs_matched := bs_matched st + 1\<rparr>, done @ [l\<lparr>bl_status := BSPMatched\<rparr>])
               else (st\<lparr>bs_mismatched := bs_mismatched st + 1\<rparr>, done @ [l\<lparr>bl_status := BSPAmountMismatch\<rparr>]))"

text \<open>The tickets no line named, in the order of their PNR; \<open>seen\<close> holds the PNRs of the lines that met a ticket.\<close>

definition missing_line :: "bsp_statement \<Rightarrow> uuid \<Rightarrow> string \<Rightarrow> system_ticket \<Rightarrow> bsp_line" where
  "missing_line st i p t = zero_bsp_line\<lparr>bl_id := i, bl_statement := bs_id st, bl_pnr := p, bl_type := ''sale'',
     bl_booking := Some (tk_booking t), bl_system := Some (tk_amount t), bl_status := BSPMissingInBSP\<rparr>"

definition add_missing ::
  "(string \<times> system_ticket) list \<Rightarrow> string set \<Rightarrow> (nat \<Rightarrow> uuid) \<Rightarrow> bsp_statement \<times> bsp_line list \<Rightarrow> nat \<times> string \<Rightarrow> bsp_statement \<times> bsp_line list" where
  "add_missing by_pnr seen ids = (\<lambda>(st, done) (i, p).
     case map_of by_pnr p of
       None \<Rightarrow> (st, done)
     | Some t \<Rightarrow>
         let st = st\<lparr>bs_system_total := add64 (bs_system_total st) (tk_amount t)\<rparr>
         in if p \<in> seen then (st, done)
            else (st\<lparr>bs_missing_bsp := bs_missing_bsp st + 1\<rparr>, done @ [missing_line st (ids i) p t]))"

definition reconcile ::
  "(nat \<Rightarrow> uuid) \<Rightarrow> bsp_statement \<Rightarrow> bsp_line list \<Rightarrow> system_ticket list \<Rightarrow> bsp_statement \<times> bsp_line list" where
  "reconcile ids st ls ts =
     (let by_pnr = tickets_by_pnr (bs_currency st) ts; sums = line_sums ls;
          st = st\<lparr>bs_total := 0, bs_system_total := 0, bs_matched := 0, bs_mismatched := 0, bs_missing_system := 0, bs_missing_bsp := 0\<rparr>;
          (st, ls') = foldl (cross_check by_pnr sums) (st, []) ls;
          seen = set (filter (\<lambda>p. p \<noteq> [] \<and> map_of by_pnr p \<noteq> None) (map bl_pnr ls));
          (st, out) = foldl (add_missing by_pnr seen ids) (st, ls') (enumerate 0 (sort (map fst by_pnr)))
      in (st\<lparr>bs_line_count := int (length out)\<rparr>, out))"

definition discrepancy :: "bsp_statement \<Rightarrow> int" where "discrepancy st = sub64 (bs_total st) (bs_system_total st)"

section \<open>References in a transfer description\<close>

definition word_char :: "char \<Rightarrow> bool" where
  "word_char c \<longleftrightarrow> is_digit c \<or> is_upper c \<or> is_lower c \<or> c = CHR ''_''"

definition ref_separator :: "char \<Rightarrow> bool" where
  "ref_separator c \<longleftrightarrow> byte c \<in> {9, 10, 12, 13, 32} \<or> c \<in> {CHR ''-'', CHR ''_'', CHR '':'', CHR ''#''}"

text \<open>Without case: the long s and the Kelvin sign match the letters they fold to.\<close>

definition folded_head :: "string \<Rightarrow> (char \<times> string) option" where
  "folded_head s =
     (case s of
        [] \<Rightarrow> None
      | c # cs \<Rightarrow>
          if byte c = 197 \<and> cs \<noteq> [] \<and> byte (hd cs) = 191 then Some (CHR ''S'', tl cs)
          else if byte c = 226 \<and> 2 \<le> length cs \<and> byte (cs ! 0) = 132 \<and> byte (cs ! 1) = 170 then Some (CHR ''K'', drop 2 cs)
          else Some (upper_char c, cs))"

primrec keyword_at :: "string \<Rightarrow> string \<Rightarrow> string option" where
  "keyword_at [] s = Some s"
| "keyword_at (k # ks) s =
     (case folded_head s of None \<Rightarrow> None | Some (c, rest) \<Rightarrow> if c = k then keyword_at ks rest else None)"

definition ref_keywords :: "string list" where
  "ref_keywords = [''WCC'', ''REZ'', ''RES'', ''BOOKING'', ''BKG'', ''BK'', ''REF'']"

text \<open>One to ten digits and a word boundary: backing up inside a run of digits never ends at one.\<close>

definition number_at :: "string \<Rightarrow> (string \<times> string) option" where
  "number_at s =
     (let ds = takeWhile is_digit s; rest = dropWhile is_digit s
      in if ds \<noteq> [] \<and> length ds \<le> 10 \<and> (rest = [] \<or> \<not> word_char (hd rest)) then Some (ds, rest) else None)"

primrec first_some :: "'a option list \<Rightarrow> 'a option" where
  "first_some [] = None"
| "first_some (x # xs) = (case x of Some y \<Rightarrow> Some y | None \<Rightarrow> first_some xs)"

definition keyword_number :: "string \<Rightarrow> string \<Rightarrow> (string \<times> string) option" where
  "keyword_number s k = (case keyword_at k s of None \<Rightarrow> None | Some r \<Rightarrow> number_at (dropWhile ref_separator r))"

definition ref_at :: "bool \<Rightarrow> string \<Rightarrow> (string \<times> string) option" where
  "ref_at boundary s =
     first_some ((if boundary then map (keyword_number s) ref_keywords else [])
       @ [case s of [] \<Rightarrow> None | c # cs \<Rightarrow> if c = CHR ''#'' then number_at cs else None])"

lemma first_some_Some: "first_some xs = Some y \<Longrightarrow> Some y \<in> set xs"
  by (induction xs) (auto split: option.splits)

lemma length_folded_head: "folded_head s = Some (c, r) \<Longrightarrow> length r < length s"
  by (auto simp: folded_head_def split: list.splits if_splits)

lemma length_keyword_at: "keyword_at k s = Some r \<Longrightarrow> length r \<le> length s"
proof (induction k arbitrary: s)
  case (Cons c k)
  then show ?case by (fastforce split: option.splits if_splits dest: length_folded_head)
qed simp

lemma number_at_Some:
  assumes "number_at s = Some (ds, rest)"
  shows "s = ds @ rest" "ds \<noteq> []" "digits_only ds" "rest = [] \<or> \<not> word_char (hd rest)"
  using assms by (auto simp: number_at_def Let_def digits_only_def list_all_iff dest: set_takeWhileD split: if_splits)

lemma ref_at_Some:
  assumes "ref_at b s = Some m"
  shows "(\<exists>k r. k \<in> set ref_keywords \<and> keyword_at k s = Some r \<and> number_at (dropWhile ref_separator r) = Some m)
    \<or> (\<exists>c cs. s = c # cs \<and> number_at cs = Some m)"
proof -
  let ?h = "case s of [] \<Rightarrow> None | c # cs \<Rightarrow> if c = CHR ''#'' then number_at cs else None"
  have "Some m \<in> keyword_number s ` set ref_keywords \<or> ?h = Some m"
    using first_some_Some [OF assms [unfolded ref_at_def]] by (cases b) (simp_all add: eq_commute disj_commute)
  then show ?thesis
  proof
    assume "Some m \<in> keyword_number s ` set ref_keywords"
    then obtain k where "k \<in> set ref_keywords" "keyword_number s k = Some m" by (metis imageE)
    then show ?thesis by (auto simp only: keyword_number_def split: option.splits)
  next
    assume "?h = Some m"
    then show ?thesis by (cases s) (simp_all split: if_splits)
  qed
qed

lemma length_ref_at:
  assumes "ref_at b s = Some (ds, rest)"
  shows "length rest < length s"
proof -
  have num: "length rest < length t" if "number_at t = Some (ds, rest)" for t
    using number_at_Some(1,2) [OF that] by simp
  from ref_at_Some [OF assms] show ?thesis
  proof (elim disjE exE conjE)
    fix k r
    assume "keyword_at k s = Some r" "number_at (dropWhile ref_separator r) = Some (ds, rest)"
    then have "length rest < length (dropWhile ref_separator r)" "length r \<le> length s"
      using num length_keyword_at by blast+
    then show ?thesis using length_dropWhile_le [of ref_separator r] by linarith
  next
    fix c cs
    assume "s = c # cs" "number_at cs = Some (ds, rest)"
    then show ?thesis using num [of cs] by simp
  qed
qed

text \<open>The matches that do not overlap, from the left; the flag says whether a word character precedes.\<close>

function ref_scan :: "bool \<Rightarrow> string \<Rightarrow> string list" where
  "ref_scan w [] = []"
| "ref_scan w (c # cs) =
     (case ref_at (\<not> w) (c # cs) of
        Some (ds, rest) \<Rightarrow> ds # ref_scan True rest
      | None \<Rightarrow> ref_scan (word_char c) cs)"
  by pat_completeness auto
termination by (relation "measure (\<lambda>(w, s). length s)") (auto dest: length_ref_at)

function pnr_scan :: "bool \<Rightarrow> string \<Rightarrow> string list" where
  "pnr_scan w [] = []"
| "pnr_scan w (c # cs) =
     (let run = takeWhile word_char (c # cs)
      in if \<not> w \<and> length run = 6 \<and> list_all (\<lambda>x. is_upper x \<or> is_digit x) run
         then run # pnr_scan True (drop 6 (c # cs)) else pnr_scan (word_char c) cs)"
  by pat_completeness auto
termination by (relation "measure (\<lambda>(w, s). length s)") auto

definition add_ref :: "int list \<Rightarrow> string \<Rightarrow> int list" where
  "add_ref ns ds = (let n = dec_val ds in if n > 0 \<and> n \<notin> set ns then ns @ [n] else ns)"

definition add_pnr :: "string list \<Rightarrow> string \<Rightarrow> string list" where
  "add_pnr ps tok = (if list_ex is_upper tok \<and> list_ex is_digit tok \<and> tok \<notin> set ps then ps @ [tok] else ps)"

definition extract_refs :: "string \<Rightarrow> int list \<times> string list" where
  "extract_refs s = (foldl add_ref [] (ref_scan False s), foldl add_pnr [] (pnr_scan False (to_upper s)))"

record booking_due =
  du_booking :: uuid
  du_ref :: int
  du_pnr :: string
  du_currency :: string
  du_balance :: int
  du_customer :: string

text \<open>The hits of \<open>MatchCredit\<close>, one per booking; \<open>seen\<close> holds the bookings of the hits.\<close>

definition add_hit :: "int \<Rightarrow> string \<Rightarrow> booking_due list \<Rightarrow> booking_due \<Rightarrow> booking_due list" where
  "add_hit amount cur hit c =
     (if du_booking c \<in> set (map du_booking hit) \<or> du_currency c \<noteq> cur \<or> du_balance c < amount \<or> du_balance c \<le> 0 then hit
      else hit @ [c])"

definition match_credit :: "int \<Rightarrow> string \<Rightarrow> booking_due list \<Rightarrow> booking_due option" where
  "match_credit amount cur cands = (case foldl (add_hit amount cur) [] cands of [c] \<Rightarrow> Some c | _ \<Rightarrow> None)"

section \<open>A booking number is found wherever it stands\<close>

text \<open>An ASCII character that is no word character, such as a blank or a colon, ends every token.\<close>

definition breaks :: "char \<Rightarrow> bool" where "breaks c \<longleftrightarrow> byte c < 128 \<and> \<not> word_char c"

lemma breaks_not:
  assumes "breaks c"
  shows "\<not> is_digit c" "\<not> is_upper (upper_char c)" "byte c < 128" "\<not> word_char c"
  using assms by (auto simp: breaks_def word_char_def upper_char_def)

lemma folded_head_keeps:
  assumes "folded_head (p @ c # s) = Some (x, r)" "is_upper x" "breaks c"
  shows "\<exists>p'. r = p' @ c # s"
proof (cases p)
  case Nil
  have "folded_head (c # s) = Some (upper_char c, s)" using breaks_not(3) [OF assms(3)] by (simp add: folded_head_def)
  then show ?thesis using assms(1,2) breaks_not(2) [OF assms(3)] Nil by auto
next
  case (Cons a p1)
  consider (s) "byte a = 197" "p1 @ c # s \<noteq> []" "byte (hd (p1 @ c # s)) = 191" "r = tl (p1 @ c # s)"
    | (k) "byte ((p1 @ c # s) ! 0) = 132" "byte ((p1 @ c # s) ! 1) = 170" "r = drop 2 (p1 @ c # s)"
    | (other) "r = p1 @ c # s"
    using assms(1) unfolding folded_head_def Cons by (simp split: if_splits)
  then show ?thesis
  proof cases
    case s
    then have "p1 \<noteq> []" using breaks_not(3) [OF assms(3)] by auto
    then show ?thesis using s(4) by auto
  next
    case k
    then obtain b d p2 where "p1 = b # d # p2"
      using breaks_not(3) [OF assms(3)] by (cases p1 rule: remdups_adj.cases) auto
    then show ?thesis using k(3) by auto
  next
    case other
    then show ?thesis by blast
  qed
qed

lemma keyword_keeps:
  assumes "keyword_at k (p @ c # s) = Some r" "list_all is_upper k" "breaks c"
  shows "\<exists>p'. r = p' @ c # s"
  using assms(1,2)
proof (induction k arbitrary: p)
  case (Cons x k)
  then obtain r' where h: "folded_head (p @ c # s) = Some (x, r')" "keyword_at k r' = Some r"
    by (auto split: option.splits if_splits)
  obtain p' where "r' = p' @ c # s" using folded_head_keeps [OF h(1) _ assms(3)] Cons.prems(2) by auto
  then show ?case using Cons.IH [of p'] h(2) Cons.prems(2) by simp
qed auto

lemma number_keeps:
  assumes "number_at (p @ c # s) = Some (ds, r)" "breaks c"
  shows "\<exists>q. r = q @ c # s"
proof -
  have "r = dropWhile is_digit (p @ c # s)" using assms(1) by (auto simp: number_at_def Let_def split: if_splits)
  also have "\<dots> = dropWhile is_digit p @ c # s"
    using breaks_not(1) [OF assms(2)] by (induction p) auto
  finally show ?thesis by blast
qed

lemma ref_at_keeps:
  assumes "ref_at b (p @ c # s) = Some (ds, r)" "breaks c" "number_at s = None" "number_at (dropWhile ref_separator s) = None"
  shows "\<exists>q. r = q @ c # s"
  using ref_at_Some [OF assms(1)]
proof (elim disjE exE conjE)
  fix k t
  assume t: "k \<in> set ref_keywords" "keyword_at k (p @ c # s) = Some t" "number_at (dropWhile ref_separator t) = Some (ds, r)"
  then have "list_all is_upper k" by (auto simp: ref_keywords_def is_upper_def)
  then obtain p' where t': "t = p' @ c # s" using keyword_keeps [OF t(2) _ assms(2)] by blast
  have "(\<exists>q. dropWhile ref_separator t = q @ c # s) \<or> dropWhile ref_separator t = dropWhile ref_separator s"
    unfolding t' by (induction p') (auto intro: exI [of _ "[]"] exI [of _ "_ # _"])
  then obtain q where "dropWhile ref_separator t = q @ c # s" using t(3) assms(4) by auto
  then show ?thesis using t(3) number_keeps [OF _ assms(2)] by simp
next
  fix a cs
  assume "p @ c # s = a # cs" "number_at cs = Some (ds, r)"
  then show ?thesis using assms(3) number_keeps [OF _ assms(2)] by (cases p) auto
qed

lemma ref_scan_finds:
  assumes "breaks c" "number_at s = None" "number_at (dropWhile ref_separator s) = None" "ref_at True s = Some (ds, rest)"
  shows "ds \<in> set (ref_scan w (p @ c # s))"
proof (induction "length p" arbitrary: p w rule: less_induct)
  case less
  have "s \<noteq> []" using length_ref_at [OF assms(4)] by auto
  then have here: "ds \<in> set (ref_scan False s)" using assms(4) by (cases s) simp_all
  obtain a t where at: "p @ c # s = a # t" by (cases p) auto
  show ?case
  proof (cases "ref_at (\<not> w) (p @ c # s)")
    case None
    then have eq: "ref_scan w (p @ c # s) = ref_scan (word_char a) t" by (simp add: at)
    show ?thesis
    proof (cases p)
      case Nil
      then show ?thesis using at here breaks_not(4) [OF assms(1)] eq by simp
    next
      case (Cons b p')
      then show ?thesis using at eq less [of p'] by simp
    qed
  next
    case (Some m)
    obtain d r where m: "m = (d, r)" by (cases m)
    obtain q where q: "r = q @ c # s" using ref_at_keeps [OF Some [unfolded m] assms(1-3)] by blast
    have "length q < length p" using length_ref_at [OF Some [unfolded m]] q by simp
    moreover have "ref_scan w (p @ c # s) = d # ref_scan True r" using Some by (simp add: at m)
    ultimately show ?thesis using less [of q True] q by simp
  qed
qed

lemma add_ref_collects: "set (foldl add_ref ns xs) = set ns \<union> {n. n > 0 \<and> n \<in> dec_val ` set xs}"
  by (induction xs arbitrary: ns) (auto simp: add_ref_def Let_def)

definition ends_token :: "string \<Rightarrow> bool" where "ends_token s \<longleftrightarrow> s = [] \<or> \<not> word_char (hd s)"

lemma number_at_digits:
  assumes "digits_only ds" "ds \<noteq> []" "length ds \<le> 10" "ends_token post"
  shows "number_at (ds @ post) = Some (ds, post)"
proof -
  have "takeWhile is_digit post = []" "dropWhile is_digit post = post"
    using assms(4) by (cases post; simp add: ends_token_def word_char_def)+
  then show ?thesis
    using assms by (simp add: number_at_def takeWhile_append2 dropWhile_append2 digits_only_def list_all_iff ends_token_def)
qed

lemma upper_not_digit_sep [simp]: "\<not> is_digit (CHR ''B'')" "\<not> ref_separator (CHR ''B'')" "ref_separator (CHR ''-'')"
  by (simp_all add: is_digit_def ref_separator_def)

lemma ref_code_at:
  assumes "0 < n" "n < 10 ^ 10" "ends_token post"
  shows "ref_at True (ref_code n @ post) = Some (show_int0 6 n, post)"
proof -
  define ds where "ds = show_int0 6 n"
  note ds = show_int0_pos [OF assms(1), of 6, folded ds_def]
  have "length ds \<le> 10"
    using length_show_nat [of "nat n" 10] assms(1,2) by (simp add: ds_def show_int0_def pad0_def nat_less_iff)
  then have num: "number_at (ds @ post) = Some (ds, post)" using number_at_digits ds assms(3) by blast
  obtain d ds' where dd: "ds = d # ds'" using ds(3) by (cases ds) auto
  have "is_digit d" using ds(1) by (simp add: dd digits_only_def)
  then have nsep: "\<not> ref_separator d" by (auto simp: ref_separator_def is_digit_def)
  have fh: "folded_head (CHR ''B'' # x) = Some (CHR ''B'', x)" "folded_head (CHR ''K'' # x) = Some (CHR ''K'', x)"
    "folded_head (CHR ''-'' # x) = Some (CHR ''-'', x)" for x
    by (simp_all add: folded_head_def upper_char_def is_lower_def)
  have code: "ref_code n @ post = CHR ''B'' # CHR ''K'' # CHR ''-'' # ds @ post"
    using assms(1) by (simp add: ref_code_def ds_def)
  have "dropWhile ref_separator (CHR ''-'' # ds @ post) = ds @ post" using nsep by (simp add: dd)
  then have "keyword_number (ref_code n @ post) ''BK'' = Some (ds, post)"
    unfolding code keyword_number_def by (simp add: fh num)
  moreover have "keyword_number (ref_code n @ post) k = None" if "k \<in> {''WCC'', ''REZ'', ''RES'', ''BOOKING'', ''BKG''}" for k
    using that unfolding code keyword_number_def by (auto simp: fh)
  ultimately show ?thesis by (simp add: ref_at_def ref_keywords_def ds_def)
qed

text \<open>
  A customer who writes the booking number the system prints (\<open>RefCode\<close>, \<^verbatim>\<open>BK-001042\<close>) anywhere in the description
  of a transfer is found: when the number stands apart from other words, \<open>ExtractRefs\<close> lists it, whatever comes before and
  after. Numbers have at most ten digits there.
\<close>

theorem extract_refs_finds_ref_code:
  assumes "0 < n" "n < 10 ^ 10" "pre = [] \<or> breaks (last pre)" "ends_token post"
  shows "n \<in> set (fst (extract_refs (pre @ ref_code n @ post)))"
proof -
  let ?s = "ref_code n @ post"
  have hd: "hd ?s = CHR ''B''" "?s \<noteq> []" using assms(1) by (simp_all add: ref_code_def)
  then have sep: "number_at ?s = None" "dropWhile ref_separator ?s = ?s"
    by (cases ?s; simp add: number_at_def)+
  have "show_int0 6 n \<in> set (ref_scan False (pre @ ?s))"
  proof (cases pre rule: rev_cases)
    case Nil
    then show ?thesis using ref_code_at [OF assms(1,2,4)] hd(2) by (cases ?s) simp_all
  next
    case (snoc p c)
    then show ?thesis using ref_scan_finds [OF _ sep(1) _ ref_code_at [OF assms(1,2,4)]] sep assms(3) by simp
  qed
  moreover have "dec_val (show_int0 6 n) = n" using show_int0_pos [OF assms(1), of 6] by simp
  ultimately show ?thesis using assms(1) by (force simp: extract_refs_def add_ref_collects)
qed

theorem extract_refs_finds_ref_code_witness:
  "1042 \<in> set (fst (extract_refs (''IBAN 123456 REF: '' @ ref_code 1042 @ '' OTEL'')))"
  by (rule extract_refs_finds_ref_code) (simp_all add: breaks_def ends_token_def word_char_def is_digit_def is_upper_def is_lower_def)

section \<open>The booking a credit pays\<close>

definition payable :: "int \<Rightarrow> string \<Rightarrow> booking_due \<Rightarrow> bool" where
  "payable amount cur c \<longleftrightarrow> du_currency c = cur \<and> amount \<le> du_balance c \<and> 0 < du_balance c"

lemma add_hit_cases:
  "add_hit amount cur hs c = (if du_booking c \<in> du_booking ` set hs \<or> \<not> payable amount cur c then hs else hs @ [c])"
  by (auto simp: add_hit_def payable_def)

lemma hits_spec:
  "du_booking ` set (foldl (add_hit amount cur) hs cands) = du_booking ` (set hs \<union> {c \<in> set cands. payable amount cur c})"
proof (induction cands arbitrary: hs)
  case (Cons c cs)
  have "du_booking ` (set (add_hit amount cur hs c) \<union> X) = du_booking ` (set hs \<union> {d. d = c \<and> payable amount cur d} \<union> X)" for X
    by (auto simp: add_hit_cases)
  then have "du_booking ` (set (add_hit amount cur hs c) \<union> {d \<in> set cs. payable amount cur d})
      = du_booking ` (set hs \<union> ({d. d = c \<and> payable amount cur d} \<union> {d \<in> set cs. payable amount cur d}))"
    by (simp only: Un_assoc)
  moreover have "{d. d = c \<and> payable amount cur d} \<union> {d \<in> set cs. payable amount cur d} = {d \<in> set (c # cs). payable amount cur d}"
    by auto
  ultimately show ?case using Cons [of "add_hit amount cur hs c"] by simp
qed simp

lemma hits_payable:
  "h \<in> set (foldl (add_hit amount cur) hs cands) \<Longrightarrow> h \<in> set hs \<or> h \<in> set cands \<and> payable amount cur h"
proof (induction cands arbitrary: hs)
  case (Cons c cs)
  then have "h \<in> set (add_hit amount cur hs c) \<or> h \<in> set cs \<and> payable amount cur h" by simp
  then show ?case by (auto simp: add_hit_cases split: if_splits)
qed simp

lemma match_credit_only:
  assumes "match_credit amount cur cands = Some c"
  shows "c \<in> set cands" "payable amount cur c" "\<And>d. d \<in> set cands \<Longrightarrow> payable amount cur d \<Longrightarrow> du_booking d = du_booking c"
proof -
  have one: "foldl (add_hit amount cur) [] cands = [c]" using assms by (simp add: match_credit_def split: list.splits)
  show "c \<in> set cands" "payable amount cur c" using hits_payable [of c amount cur "[]" cands] by (simp_all add: one)
  show "du_booking d = du_booking c" if "d \<in> set cands" "payable amount cur d" for d
    using hits_spec [of amount cur "[]" cands] that by (auto simp: one)
qed

section \<open>What the cross-check adds up to\<close>

text \<open>The lines of one PNR, as exact numbers; the map the code builds holds the wrapped sum.\<close>

definition pnr_sum :: "bsp_line list \<Rightarrow> string \<Rightarrow> int" where
  "pnr_sum ls p = sum_list (map bsp_signed_amount (filter (\<lambda>l. bl_pnr l = p) ls))"

lemma line_sums_exact:
  assumes "p \<noteq> []"
  shows "line_sums ls p = i64 (pnr_sum ls p)"
proof -
  have "foldl (\<lambda>s l. if bl_pnr l \<noteq> [] then s(bl_pnr l := add64 (s (bl_pnr l)) (bsp_signed_amount l)) else s) s ls p
      = i64 (a + pnr_sum ls p)" if "s p = i64 a" for s a
    using that
  proof (induction ls arbitrary: s a)
    case (Cons l ls)
    let ?s = "if bl_pnr l \<noteq> [] then s(bl_pnr l := add64 (s (bl_pnr l)) (bsp_signed_amount l)) else s"
    have "?s p = i64 (a + (if bl_pnr l = p then bsp_signed_amount l else 0))"
      using Cons.prems assms by (auto simp: add64_i64)
    from Cons.IH [where s = ?s, OF this] show ?case by (simp add: pnr_sum_def add.assoc)
  qed (simp add: pnr_sum_def)
  from this [of "\<lambda>_. 0" 0] show ?thesis by (simp add: line_sums_def)
qed

definition classify :: "(string \<times> system_ticket) list \<Rightarrow> (string \<Rightarrow> int) \<Rightarrow> bsp_line \<Rightarrow> bsp_line" where
  "classify tab sums l =
     (case map_of tab (bl_pnr l) of
        None \<Rightarrow> l\<lparr>bl_status := BSPMissingInSystem, bl_booking := None, bl_system := None\<rparr>
      | Some t \<Rightarrow> l\<lparr>bl_booking := Some (tk_booking t), bl_system := Some (tk_amount t),
          bl_status := (if sums (bl_pnr l) = tk_amount t then BSPMatched else BSPAmountMismatch)\<rparr>)"

definition tally :: "bsp_status \<Rightarrow> bsp_line list \<Rightarrow> int" where
  "tally x ls = int (length (filter (\<lambda>l. bl_status l = x) ls))"

lemma tally_simps [simp]:
  "tally x [] = 0" "tally x (l # ls) = (if bl_status l = x then 1 else 0) + tally x ls" "tally x (as @ bs) = tally x as + tally x bs"
  by (simp_all add: tally_def)

lemma classify_sel [simp]:
  "bl_pnr (classify tab sums l) = bl_pnr l" "bsp_signed_amount (classify tab sums l) = bsp_signed_amount l"
  by (simp_all add: classify_def bsp_signed_amount_def split: option.split)

definition tallied :: "bsp_line list \<Rightarrow> bsp_statement \<Rightarrow> bsp_statement" where
  "tallied ls st = st\<lparr>bs_total := foldl (\<lambda>t l. add64 t (bsp_signed_amount l)) (bs_total st) ls,
     bs_matched := bs_matched st + tally BSPMatched ls, bs_mismatched := bs_mismatched st + tally BSPAmountMismatch ls,
     bs_missing_system := bs_missing_system st + tally BSPMissingInSystem ls\<rparr>"

lemma cross_check_step:
  assumes "[] \<notin> fst ` set tab"
  shows "cross_check tab sums (st, done) l = (tallied [classify tab sums l] st, done @ [classify tab sums l])"
proof -
  have key: "(if bl_pnr l = [] then None else map_of tab (bl_pnr l)) = map_of tab (bl_pnr l)"
    using assms map_of_eq_None_iff [of tab "[]"] by simp
  have sgn: "bsp_signed_amount (l\<lparr>bl_booking := b, bl_system := x, bl_status := y\<rparr>) = bsp_signed_amount l"
    "bsp_signed_amount (l\<lparr>bl_status := y, bl_booking := b, bl_system := x\<rparr>) = bsp_signed_amount l" for b x y
    by (simp_all add: bsp_signed_amount_def)
  show ?thesis
    unfolding cross_check_def Let_def prod.case key
    by (cases "map_of tab (bl_pnr l)") (simp_all add: classify_def tallied_def sgn)
qed

lemma cross_check_fold:
  assumes "[] \<notin> fst ` set tab"
  shows "foldl (cross_check tab sums) (st, done) ls = (tallied (map (classify tab sums) ls) st, done @ map (classify tab sums) ls)"
  by (induction ls arbitrary: st "done") (simp_all add: cross_check_step [OF assms] tallied_def add.assoc)


lemma tickets_keys:
  "distinct (map fst (tickets_by_pnr cur ts))" "[] \<notin> fst ` set (tickets_by_pnr cur ts)"
proof -
  let ?ok = "\<lambda>m. distinct (map fst m) \<and> [] \<notin> fst ` set m"
  have "?ok (add_ticket cur m t)" if "?ok m" for m t
    using that by (auto simp: add_ticket_def Let_def distinct_update dom_update split: option.split)
  then have "?ok m \<Longrightarrow> ?ok (foldl (add_ticket cur) m ts)" for m by (induction ts arbitrary: m) auto
  from this [of "[]"] show "distinct (map fst (tickets_by_pnr cur ts))" "[] \<notin> fst ` set (tickets_by_pnr cur ts)"
    by (simp_all add: tickets_by_pnr_def)
qed

definition ticket_amount :: "(string \<times> system_ticket) list \<Rightarrow> string \<Rightarrow> int" where
  "ticket_amount tab p = (case map_of tab p of None \<Rightarrow> 0 | Some t \<Rightarrow> tk_amount t)"

lemma add_missing_fold:
  assumes "set ps \<subseteq> fst ` set tab"
  shows "\<exists>new. foldl (add_missing tab seen ids) (st, done) (enumerate n ps) =
    (st\<lparr>bs_system_total := foldl (\<lambda>t p. add64 t (ticket_amount tab p)) (bs_system_total st) ps,
        bs_missing_bsp := bs_missing_bsp st + int (length new)\<rparr>, done @ new)
    \<and> map bl_pnr new = filter (\<lambda>p. p \<notin> seen) ps
    \<and> list_all (\<lambda>l. bl_status l = BSPMissingInBSP \<and> bl_system l = Some (ticket_amount tab (bl_pnr l))) new"
  using assms
proof (induction ps arbitrary: st "done" n)
  case (Cons p ps)
  then obtain t where t: "map_of tab p = Some t" using map_of_eq_None_iff [of tab p] by (cases "map_of tab p") auto
  then have amt: "ticket_amount tab p = tk_amount t" by (simp add: ticket_amount_def)
  define st' where "st' = st\<lparr>bs_system_total := add64 (bs_system_total st) (tk_amount t)\<rparr>"
  show ?case
  proof (cases "p \<in> seen")
    case True
    then have "add_missing tab seen ids (st, done) (n, p) = (st', done)" by (simp add: add_missing_def t st'_def)
    then show ?thesis using Cons.IH [of st' "done" "Suc n"] Cons.prems True by (simp add: st'_def amt)
  next
    case False
    define l where "l = missing_line st' (ids n) p t"
    define st2 where "st2 = st'\<lparr>bs_missing_bsp := bs_missing_bsp st' + 1\<rparr>"
    have one: "add_missing tab seen ids (st, done) (n, p) = (st2, done @ [l])"
      using False by (simp add: add_missing_def t st'_def st2_def l_def Let_def)
    have l: "bl_status l = BSPMissingInBSP" "bl_pnr l = p" "bl_system l = Some (ticket_amount tab p)"
      by (simp_all add: l_def missing_line_def amt)
    obtain new where "foldl (add_missing tab seen ids) (st2, done @ [l]) (enumerate (Suc n) ps) =
        (st2\<lparr>bs_system_total := foldl (\<lambda>t p. add64 t (ticket_amount tab p)) (bs_system_total st2) ps,
            bs_missing_bsp := bs_missing_bsp st2 + int (length new)\<rparr>, (done @ [l]) @ new)"
      "map bl_pnr new = filter (\<lambda>p. p \<notin> seen) ps"
      "list_all (\<lambda>l. bl_status l = BSPMissingInBSP \<and> bl_system l = Some (ticket_amount tab (bl_pnr l))) new"
      using Cons.IH [of st2 "done @ [l]" "Suc n"] Cons.prems by auto
    then show ?thesis using False one l by (intro exI [of _ "l # new"]) (simp add: st2_def st'_def amt)
  qed
qed simp

lemma sum_by_pnr:
  assumes "finite K"
  shows "sum_list (map bsp_signed_amount ls) =
    sum_list (map bsp_signed_amount (filter (\<lambda>l. bl_pnr l \<notin> K) ls)) + (\<Sum>p\<in>K. pnr_sum ls p)"
proof (induction ls)
  case (Cons l ls)
  have "(\<Sum>p\<in>K. pnr_sum (l # ls) p) = (\<Sum>p\<in>K. (if p = bl_pnr l then bsp_signed_amount l else 0) + pnr_sum ls p)"
    by (rule sum.cong) (auto simp: pnr_sum_def)
  also have "\<dots> = (if bl_pnr l \<in> K then bsp_signed_amount l else 0) + (\<Sum>p\<in>K. pnr_sum ls p)"
    using assms by (simp add: sum.distrib)
  finally show ?case using Cons by simp
qed (simp add: pnr_sum_def)

text \<open>The three parts a discrepancy has.\<close>

definition unknown_amount :: "bsp_line list \<Rightarrow> int" where
  "unknown_amount out = sum_list (map bsp_signed_amount (filter (\<lambda>l. bl_status l = BSPMissingInSystem) out))"

definition mismatched_pnrs :: "bsp_line list \<Rightarrow> string set" where
  "mismatched_pnrs out = bl_pnr ` set (filter (\<lambda>l. bl_status l = BSPAmountMismatch) out)"

definition absent_amount :: "bsp_line list \<Rightarrow> int" where
  "absent_amount out = sum_list (map (\<lambda>l. case bl_system l of None \<Rightarrow> 0 | Some a \<Rightarrow> a) (filter (\<lambda>l. bl_status l = BSPMissingInBSP) out))"

lemma classify_status:
  "bl_status (classify tab sums l) = BSPMissingInSystem \<longleftrightarrow> bl_pnr l \<notin> fst ` set tab"
  "bl_status (classify tab sums l) = BSPAmountMismatch \<longleftrightarrow> bl_pnr l \<in> fst ` set tab \<and> sums (bl_pnr l) \<noteq> ticket_amount tab (bl_pnr l)"
  "bl_status (classify tab sums l) \<noteq> BSPMissingInBSP" "bl_status (classify tab sums l) \<noteq> BSPBlank"
  using map_of_eq_None_iff [of tab "bl_pnr l"] by (auto simp: classify_def ticket_amount_def split: option.split)

lemma tally_partition:
  assumes "list_all (\<lambda>l. bl_status l \<noteq> BSPBlank) ls"
  shows "int (length ls) = tally BSPMatched ls + tally BSPAmountMismatch ls + tally BSPMissingInSystem ls + tally BSPMissingInBSP ls"
  using assms
proof (induction ls)
  case (Cons l ls)
  then show ?case by (cases "bl_status l") simp_all
qed simp

lemma reconcile_shape:
  assumes "tab = tickets_by_pnr (bs_currency st) ts" "reconcile ids st ls ts = (st', out)"
  shows "\<exists>new. out = map (classify tab (line_sums ls)) ls @ new
    \<and> bs_total st' = i64 (sum_list (map bsp_signed_amount ls))
    \<and> bs_system_total st' = i64 (\<Sum>p \<in> fst ` set tab. ticket_amount tab p)
    \<and> bs_line_count st' = int (length out)
    \<and> bs_matched st' = tally BSPMatched out \<and> bs_mismatched st' = tally BSPAmountMismatch out
    \<and> bs_missing_system st' = tally BSPMissingInSystem out \<and> bs_missing_bsp st' = tally BSPMissingInBSP out
    \<and> map bl_pnr new = filter (\<lambda>p. p \<notin> bl_pnr ` set ls) (sort (map fst tab))
    \<and> list_all (\<lambda>l. bl_status l = BSPMissingInBSP \<and> bl_system l = Some (ticket_amount tab (bl_pnr l))) new"
proof -
  let ?K = "fst ` set tab" and ?ps = "sort (map fst tab)"
  note keys = tickets_keys [of "bs_currency st" ts, folded assms(1)]
  define st1 where "st1 = st\<lparr>bs_total := 0, bs_system_total := 0, bs_matched := 0, bs_mismatched := 0, bs_missing_system := 0, bs_missing_bsp := 0\<rparr>"
  define cl where "cl = map (classify tab (line_sums ls)) ls"
  define seen where "seen = set (filter (\<lambda>p. p \<noteq> [] \<and> map_of tab p \<noteq> None) (map bl_pnr ls))"
  have "seen = bl_pnr ` set ls \<inter> ?K"
    unfolding seen_def map_of_eq_None_iff set_filter set_map using keys(2) by blast
  then have same: "filter (\<lambda>p. p \<notin> seen) ?ps = filter (\<lambda>p. p \<notin> bl_pnr ` set ls) ?ps"
    by (intro filter_cong) auto
  obtain new where new: "foldl (add_missing tab seen ids) (tallied cl st1, cl) (enumerate 0 ?ps) =
      ((tallied cl st1)\<lparr>bs_system_total := foldl (\<lambda>t p. add64 t (ticket_amount tab p)) (bs_system_total (tallied cl st1)) ?ps,
         bs_missing_bsp := bs_missing_bsp (tallied cl st1) + int (length new)\<rparr>, cl @ new)"
    "map bl_pnr new = filter (\<lambda>p. p \<notin> seen) ?ps"
    "list_all (\<lambda>l. bl_status l = BSPMissingInBSP \<and> bl_system l = Some (ticket_amount tab (bl_pnr l))) new"
    using add_missing_fold [of ?ps tab seen ids "tallied cl st1" cl 0] by auto
  have "foldl (cross_check tab (line_sums ls)) (st1, []) ls = (tallied cl st1, cl)"
    using cross_check_fold [OF keys(2), of "line_sums ls" st1 "[]" ls] by (simp add: cl_def)
  then have res: "out = cl @ new" "st' = (tallied cl st1)\<lparr>
      bs_system_total := foldl (\<lambda>t p. add64 t (ticket_amount tab p)) 0 ?ps,
      bs_missing_bsp := int (length new), bs_line_count := int (length out)\<rparr>"
    using assms(2) new(1) unfolding reconcile_def assms(1) [symmetric] st1_def [symmetric] seen_def [symmetric] Let_def
    by (auto simp: tallied_def st1_def)
  have "sum_list (map (ticket_amount tab) ?ps) = (\<Sum>p \<in> ?K. ticket_amount tab p)"
    using keys(1) sum_list_distinct_conv_sum_set [of ?ps "ticket_amount tab"] by simp
  then have sys: "foldl (\<lambda>t p. add64 t (ticket_amount tab p)) 0 ?ps = i64 (\<Sum>p \<in> ?K. ticket_amount tab p)"
    using foldl_add64 [of "ticket_amount tab" 0 ?ps] by simp
  have amounts: "map bsp_signed_amount cl = map bsp_signed_amount ls" by (simp add: cl_def)
  have "tally x new = (if x = BSPMissingInBSP then int (length new) else 0)" for x
    using new(3) by (induction new) auto
  moreover have "tally BSPMissingInBSP cl = 0" by (simp add: cl_def tally_def classify_status comp_def filter_empty_conv)
  ultimately have "bs_matched st' = tally BSPMatched out \<and> bs_mismatched st' = tally BSPAmountMismatch out
    \<and> bs_missing_system st' = tally BSPMissingInSystem out \<and> bs_missing_bsp st' = tally BSPMissingInBSP out"
    by (simp add: res tallied_def st1_def)
  moreover have "bs_total st' = i64 (sum_list (map bsp_signed_amount ls))"
    using foldl_add64 [of bsp_signed_amount 0 cl] by (simp add: res(2) tallied_def st1_def amounts)
  moreover have "bs_system_total st' = i64 (\<Sum>p \<in> ?K. ticket_amount tab p)" "bs_line_count st' = int (length out)"
    by (simp_all add: res(2) sys)
  ultimately show ?thesis using res(1) new(2,3) same by (intro exI [of _ new]) (simp add: cl_def)
qed

lemma reconcile_parts:
  assumes "distinct (map fst tab)" "out = map (classify tab (line_sums ls)) ls @ new"
    "map bl_pnr new = filter (\<lambda>p. p \<notin> bl_pnr ` set ls) (sort (map fst tab))"
    "list_all (\<lambda>l. bl_status l = BSPMissingInBSP \<and> bl_system l = Some (ticket_amount tab (bl_pnr l))) new"
  shows "unknown_amount out = sum_list (map bsp_signed_amount (filter (\<lambda>l. bl_pnr l \<notin> fst ` set tab) ls))"
    "mismatched_pnrs out = {p \<in> bl_pnr ` set ls \<inter> fst ` set tab. line_sums ls p \<noteq> ticket_amount tab p}"
    "absent_amount out = (\<Sum>p \<in> fst ` set tab - bl_pnr ` set ls. ticket_amount tab p)"
proof -
  let ?K = "fst ` set tab" and ?L = "bl_pnr ` set ls"
  have only: "filter (\<lambda>l. bl_status l = x) new = (if x = BSPMissingInBSP then new else [])" for x
    using assms(4) by (auto simp: filter_empty_conv filter_id_conv list_all_iff)
  show "unknown_amount out = sum_list (map bsp_signed_amount (filter (\<lambda>l. bl_pnr l \<notin> ?K) ls))"
    by (simp add: unknown_amount_def assms(2) only filter_map comp_def classify_status)
  have "mismatched_pnrs out = bl_pnr ` {l \<in> set ls. bl_pnr l \<in> ?K \<and> line_sums ls (bl_pnr l) \<noteq> ticket_amount tab (bl_pnr l)}"
    by (simp add: mismatched_pnrs_def assms(2) only filter_map comp_def classify_status image_image)
  also have "\<dots> = {p \<in> ?L \<inter> ?K. line_sums ls p \<noteq> ticket_amount tab p}" by blast
  finally show "mismatched_pnrs out = {p \<in> ?L \<inter> ?K. line_sums ls p \<noteq> ticket_amount tab p}" .
  have "absent_amount out = sum_list (map (\<lambda>l. case bl_system l of None \<Rightarrow> 0 | Some a \<Rightarrow> a) new)"
    by (simp add: absent_amount_def assms(2) only filter_map comp_def classify_status)
  also have "\<dots> = sum_list (map (ticket_amount tab) (map bl_pnr new))"
    using assms(4) by (auto simp: list_all_iff intro!: arg_cong [where f = sum_list])
  also have "\<dots> = (\<Sum>p \<in> set (map bl_pnr new). ticket_amount tab p)"
    using assms(1,3) sum_list_distinct_conv_sum_set by (metis distinct_filter distinct_sort)
  also have "set (map bl_pnr new) = ?K - ?L" unfolding assms(3) by auto
  finally show "absent_amount out = (\<Sum>p \<in> ?K - ?L. ticket_amount tab p)" .
qed

text \<open>Over the PNRs on both sides only the mismatched ones matter: the others differ by a multiple of the word size.\<close>

lemma gaps_of_mismatches:
  assumes "finite K" "[] \<notin> K" "M = {p \<in> bl_pnr ` set ls \<inter> K. line_sums ls p \<noteq> amt p}"
  shows "i64 (sum_list (map bsp_signed_amount ls) - (\<Sum>p \<in> K. amt p))
    = i64 (sum_list (map bsp_signed_amount (filter (\<lambda>l. bl_pnr l \<notin> K) ls)) + (\<Sum>p \<in> M. pnr_sum ls p - amt p)
        - (\<Sum>p \<in> K - bl_pnr ` set ls. amt p))"
proof -
  let ?L = "bl_pnr ` set ls" and ?gap = "\<lambda>p. pnr_sum ls p - amt p"
  have zero: "(\<Sum>p \<in> K - ?L. pnr_sum ls p) = 0"
  proof (rule sum.neutral, rule ballI)
    fix p assume "p \<in> K - ?L"
    then have "filter (\<lambda>l. bl_pnr l = p) ls = []" by (auto simp: filter_empty_conv)
    then show "pnr_sum ls p = 0" by (simp add: pnr_sum_def)
  qed
  have split: "(\<Sum>p \<in> K. f p) = (\<Sum>p \<in> K - ?L. f p) + (\<Sum>p \<in> K \<inter> ?L. f p)" for f :: "string \<Rightarrow> int"
    using sum.Int_Diff [OF assms(1), of f ?L] by simp
  have "(\<Sum>p \<in> K \<inter> ?L. ?gap p) = (\<Sum>p \<in> M. ?gap p) + (\<Sum>p \<in> (K \<inter> ?L) - M. ?gap p)"
    by (subst sum.subset_diff [of M "K \<inter> ?L" ?gap]) (use assms(3) in blast, use assms(1) in simp, rule add.commute)
  moreover have "18446744073709551616 dvd (\<Sum>p \<in> (K \<inter> ?L) - M. ?gap p)"
  proof (rule dvd_sum)
    fix p assume "p \<in> (K \<inter> ?L) - M"
    then have "line_sums ls p = amt p" "p \<noteq> []" using assms(2,3) by blast+
    then show "18446744073709551616 dvd ?gap p" using line_sums_exact [of p ls] i64_diff [of "pnr_sum ls p"] by simp
  qed
  moreover have "sum_list (map bsp_signed_amount ls) - (\<Sum>p \<in> K. amt p)
      = sum_list (map bsp_signed_amount (filter (\<lambda>l. bl_pnr l \<notin> K) ls)) + (\<Sum>p \<in> K \<inter> ?L. ?gap p) - (\<Sum>p \<in> K - ?L. amt p)"
    using sum_by_pnr [OF assms(1), of ls] split [of "pnr_sum ls"] split [of amt] zero by (simp add: sum_subtractf)
  ultimately show ?thesis unfolding i64_eq_iff by (simp add: algebra_simps)
qed

text \<open>
  C23. The cross-check accounts for every line and every amount: the four counters add up to the number of lines it
  returns, and the discrepancy between the statement and the bookings is exactly what the lines unknown to the system
  add, plus the differences of the mismatched PNRs, less the tickets missing from the statement (as 64-bit numbers,
  which wrap). Matched PNRs contribute nothing.
\<close>

theorem reconcile_explains:
  "case reconcile ids st ls ts of (st', out) \<Rightarrow>
     bs_line_count st' = bs_matched st' + bs_mismatched st' + bs_missing_system st' + bs_missing_bsp st'
     \<and> discrepancy st' = i64 (unknown_amount out
         + (\<Sum>p \<in> mismatched_pnrs out. pnr_sum ls p - ticket_amount (tickets_by_pnr (bs_currency st) ts) p) - absent_amount out)"
proof -
  define tab where "tab = tickets_by_pnr (bs_currency st) ts"
  note keys = tickets_keys [of "bs_currency st" ts, folded tab_def]
  obtain st' out where r: "reconcile ids st ls ts = (st', out)" by (cases "reconcile ids st ls ts")
  obtain new where new: "out = map (classify tab (line_sums ls)) ls @ new"
    "bs_total st' = i64 (sum_list (map bsp_signed_amount ls))" "bs_system_total st' = i64 (\<Sum>p \<in> fst ` set tab. ticket_amount tab p)"
    "bs_line_count st' = int (length out)"
    "bs_matched st' = tally BSPMatched out" "bs_mismatched st' = tally BSPAmountMismatch out"
    "bs_missing_system st' = tally BSPMissingInSystem out" "bs_missing_bsp st' = tally BSPMissingInBSP out"
    "map bl_pnr new = filter (\<lambda>p. p \<notin> bl_pnr ` set ls) (sort (map fst tab))"
    "list_all (\<lambda>l. bl_status l = BSPMissingInBSP \<and> bl_system l = Some (ticket_amount tab (bl_pnr l))) new"
    using reconcile_shape [OF tab_def r] by blast
  note parts = reconcile_parts [OF keys(1) new(1,9,10)]
  have "discrepancy st' = i64 (unknown_amount out + (\<Sum>p \<in> mismatched_pnrs out. pnr_sum ls p - ticket_amount tab p) - absent_amount out)"
    using gaps_of_mismatches [OF _ keys(2) parts(2)] by (simp add: discrepancy_def new(2,3) sub64_i64 parts(1,3))
  moreover have "list_all (\<lambda>l. bl_status l \<noteq> BSPBlank) out"
    using new(10) by (auto simp: new(1) list_all_iff classify_status)
  ultimately show ?thesis using tally_partition [of out] by (simp add: r new(4-8) tab_def)
qed

end
