(* ===== verification/Treasury_Service.thy ===== *)
theory Treasury_Service
  imports Finance_Matching Payment_Service
begin

text \<open>
  \<^verbatim>\<open>internal/app/finance/treasury.go\<close> over the tables of \<^verbatim>\<open>adapter/postgres/finance/treasury.go\<close>: accounts, their
  ledger of movements, transfers, the import of bank statements and the settlement of incoming credits, which
  records a payment through the payment service.

  Parameters (\<open>treasury_env\<close>): the environment of the payment service (caller's scope, clock, zone), the identifiers
  drawn (one for each position), the text form of identifiers, the audit recorder (optional, may fail) and the names
  of customers. Foreign keys to branches, users and suppliers are taken to hold. Operations run one after the other.
\<close>

section \<open>Store\<close>

record treasury_db =
  td_accounts :: "account list"
  td_moves :: "movement list"
  td_pay :: payment_db
  td_log :: "(string \<times> uuid \<times> uuid) list"

record treasury_env =
  te_pay :: pay_env
  te_ids :: "nat \<Rightarrow> uuid"
  te_text :: "uuid \<Rightarrow> string"
  te_audit :: "(string \<Rightarrow> error option) option"
  te_customer :: "uuid \<Rightarrow> string"

definition te_scope :: "treasury_env \<Rightarrow> scope option" where "te_scope env = e_scope (pe_booking (te_pay env))"
definition fin_now :: "treasury_env \<Rightarrow> go_time" where "fin_now env = pay_now (te_pay env)"
definition fin_today :: "treasury_env \<Rightarrow> go_time" where
  "fin_today env = finance_day (fin_now env) (Some (e_loc (pe_booking (te_pay env))))"

definition fin_record :: "treasury_env \<Rightarrow> string \<Rightarrow> uuid \<Rightarrow> uuid \<Rightarrow> (treasury_db, unit) uow" where
  "fin_record env action entity branch =
     (case te_audit env of
        None \<Rightarrow> ret ()
      | Some f \<Rightarrow> (case f action of Some e \<Rightarrow> fail e | None \<Rightarrow> writing (\<lambda>db. db\<lparr>td_log := td_log db @ [(action, entity, branch)]\<rparr>)))"

text \<open>Work of the payment service, run on the shared tables.\<close>

definition on_payments :: "(payment_db, 'a) uow \<Rightarrow> (treasury_db, 'a) uow" where
  "on_payments m = (\<lambda>db. case m (td_pay db) of Inl e \<Rightarrow> Inl e | Inr (x, p) \<Rightarrow> Inr (x, db\<lparr>td_pay := p\<rparr>))"

section \<open>Repository\<close>

definition branch_only :: "string \<Rightarrow> columns" where
  "branch_only col = \<lparr>Branch = col, Owner = [], OwnerOrUnassigned = False\<rparr>"

definition account_find :: "treasury_env \<Rightarrow> uuid \<Rightarrow> (treasury_db, account) uow" where
  "account_find env i =
     and_then (lift_result (scope_clause (te_scope env) (branch_only ''a.branch_id'') (\<lambda>_. None))) (\<lambda>sees.
     and_then (reading td_accounts) (\<lambda>xs.
       case find (\<lambda>a. ac_id a = i \<and> sees \<lparr>row_branch = ac_branch a, row_owner = None\<rparr>) xs of
         None \<Rightarrow> fail (new_not_found ''treasury account'') | Some a \<Rightarrow> ret a))"

definition insert_account :: "treasury_env \<Rightarrow> account \<Rightarrow> (treasury_db, unit) uow" where
  "insert_account env a =
     (case ensure_branch (te_scope env) (ac_branch a) of
        Some e \<Rightarrow> fail e
      | None \<Rightarrow>
          and_then (reading td_accounts) (\<lambda>xs.
            if list_ex (\<lambda>x. ac_id x = ac_id a) xs then fail (Plain ''duplicate key value'')
            else writing (\<lambda>db. db\<lparr>td_accounts := xs @ [a]\<rparr>)))"

definition on_account :: "uuid \<Rightarrow> (account \<Rightarrow> account) \<Rightarrow> treasury_db \<Rightarrow> treasury_db" where
  "on_account i f db = db\<lparr>td_accounts := map (\<lambda>x. if ac_id x = i then f x else x) (td_accounts db)\<rparr>"

definition update_account :: "account \<Rightarrow> (treasury_db, unit) uow" where
  "update_account a = writing (on_account (ac_id a) (\<lambda>x. x\<lparr>ac_name := ac_name a, ac_bank := ac_bank a, ac_iban := ac_iban a,
     ac_commission := ac_commission a, ac_threshold := ac_threshold a, ac_active := ac_active a, ac_updated := ac_updated a\<rparr>))"

definition set_balance :: "treasury_env \<Rightarrow> uuid \<Rightarrow> int \<Rightarrow> (treasury_db, unit) uow" where
  "set_balance env i bal = writing (on_account i (\<lambda>x. x\<lparr>ac_balance := bal, ac_updated := fin_now env\<rparr>))"

text \<open>The insert does nothing when the account has a movement with the same external identifier; it says whether it inserted.\<close>

definition insert_movement :: "movement \<Rightarrow> (treasury_db, bool) uow" where
  "insert_movement m =
     and_then (reading td_moves) (\<lambda>ms.
       if list_ex (\<lambda>x. mv_id x = mv_id m) ms then fail (Plain ''duplicate key value'')
       else if mv_external m \<noteq> [] \<and> list_ex (\<lambda>x. mv_account x = mv_account m \<and> mv_external x = mv_external m) ms then ret False
       else and_then (writing (\<lambda>db. db\<lparr>td_moves := ms @ [m]\<rparr>)) (\<lambda>_. ret True))"

definition movement_find :: "treasury_env \<Rightarrow> uuid \<Rightarrow> (treasury_db, movement) uow" where
  "movement_find env i =
     and_then (lift_result (scope_clause (te_scope env) (branch_only ''m.branch_id'') (\<lambda>_. None))) (\<lambda>sees.
     and_then (reading td_moves) (\<lambda>ms.
       case find (\<lambda>m. mv_id m = i \<and> sees \<lparr>row_branch = mv_branch m, row_owner = None\<rparr>) ms of
         None \<Rightarrow> fail (new_not_found ''treasury movement'') | Some m \<Rightarrow> ret m))"

definition resolved :: "match_state \<Rightarrow> uuid option \<Rightarrow> uuid option \<Rightarrow> movement \<Rightarrow> movement" where
  "resolved st bid pid m =
     m\<lparr>mv_match := st, mv_booking := (case bid of None \<Rightarrow> mv_booking m | Some b \<Rightarrow> Some b), mv_payment := pid\<rparr>"

definition resolve_match :: "uuid \<Rightarrow> match_state \<Rightarrow> uuid option \<Rightarrow> uuid option \<Rightarrow> (treasury_db, unit) uow" where
  "resolve_match i st bid pid =
     and_then (reading td_moves) (\<lambda>ms.
       let hit = (\<lambda>m. mv_id m = i \<and> mv_match m = MatchUnmatched) in
       if \<not> list_ex hit ms then fail (new_conflict ''this movement was already resolved'')
       else writing (\<lambda>db. db\<lparr>td_moves := map (\<lambda>m. if hit m then resolved st bid pid m else m) ms\<rparr>))"

text \<open>
  \<open>BookingsByRefs\<close>: open bookings of the branch with one of the numbers or PNRs, twenty at most. The query has no order;
  here it is the order of the table.
\<close>

definition bookings_by_refs :: "treasury_env \<Rightarrow> uuid \<Rightarrow> int list \<Rightarrow> string list \<Rightarrow> (treasury_db, booking_due list) uow" where
  "bookings_by_refs env branch refs pnrs =
     and_then (lift_result (scope_clause (te_scope env) (branch_only ''b.branch_id'') (\<lambda>_. None))) (\<lambda>sees.
       reading (\<lambda>db. map (\<lambda>b. \<lparr>du_booking = b_id b, du_ref = b_ref_no b, du_pnr = b_pnr b, du_currency = b_currency b,
             du_balance = b_balance b, du_customer = te_customer env (b_customer b)\<rparr>)
         (take 20 (filter (\<lambda>b. b_branch b = branch
            \<and> b_status b \<in> {StatusConfirmed, StatusPartiallyPaid, StatusReady, StatusTravelled} \<and> b_balance b > 0
            \<and> (b_ref_no b \<in> set refs \<or> b_pnr b \<noteq> [] \<and> map upper_char (b_pnr b) \<in> set pnrs)
            \<and> sees \<lparr>row_branch = b_branch b, row_owner = None\<rparr>) (db_bookings (pd_core (td_pay db)))))))"

definition booking_facts :: "treasury_env \<Rightarrow> uuid \<Rightarrow> (treasury_db, booking) uow" where
  "booking_facts env bid =
     and_then (lift_result (visible_booking (pe_booking (te_pay env)))) (\<lambda>sees.
     and_then (reading (\<lambda>db. db_bookings (pd_core (td_pay db)))) (\<lambda>bs.
       case find (\<lambda>b. b_id b = bid \<and> sees b) bs of None \<Rightarrow> fail (new_not_found ''booking'') | Some b \<Rightarrow> ret b))"

section \<open>Accounts\<close>

record account_input =
  ai_kind :: string
  ai_name :: string
  ai_cur :: string
  ai_bank :: string
  ai_iban :: string
  ai_commission :: int
  ai_threshold :: int
  ai_active :: "bool option"
  ai_opening :: int

definition err_duplicate :: error where "err_duplicate = new_conflict ''movement already imported''"

text \<open>\<open>post\<close>: the movement is validated again, applied to the locked account, and both are stored.\<close>

definition post :: "treasury_env \<Rightarrow> account \<Rightarrow> movement \<Rightarrow> (treasury_db, account \<times> movement) uow" where
  "post env a m0 =
     and_then (lift_result (movement_validate m0)) (\<lambda>m.
     and_then (lift_result (account_post a m)) (\<lambda>(a', m').
     and_then (insert_movement m') (\<lambda>inserted.
       if \<not> inserted then fail err_duplicate
       else and_then (set_balance env (ac_id a') (ac_balance a')) (\<lambda>_. ret (a', m')))))"

definition create_account :: "treasury_env \<Rightarrow> uuid \<Rightarrow> uuid \<Rightarrow> account_input \<Rightarrow> (treasury_db, account) uow" where
  "create_account env branch actor inp =
     and_then (lift_result (account_normalize \<lparr>ac_id = te_ids env 0, ac_branch = branch, ac_kind = OtherAccount (ai_kind inp),
         ac_name = ai_name inp, ac_currency = ai_cur inp, ac_bank = ai_bank inp, ac_iban = ai_iban inp,
         ac_commission = ai_commission inp, ac_balance = 0, ac_threshold = ai_threshold inp, ac_active = True,
         ac_created = fin_now env, ac_updated = fin_now env\<rparr>)) (\<lambda>a.
     and_then (ensure (0 \<le> ai_opening inp \<and> ai_opening inp \<le> max_money) (new_validation ''opening balance out of range'')) (\<lambda>_.
     and_then (insert_account env a) (\<lambda>_.
     and_then (if ai_opening inp > 0
         then and_then (post env a (zero_movement\<lparr>mv_id := te_ids env 1, mv_direction := ''in'', mv_kind := ''adjustment'',
             mv_amount := ai_opening inp, mv_remark := ''Opening balance'', mv_on := fin_today env, mv_actor := Some actor,
             mv_created := fin_now env\<rparr>)) (\<lambda>(a', _). ret a')
         else ret a) (\<lambda>a.
     and_then (fin_record env ''treasury.account_created'' (ac_id a) branch) (\<lambda>_. ret a)))))"

definition edit_account :: "treasury_env \<Rightarrow> uuid \<Rightarrow> account_input \<Rightarrow> (treasury_db, account) uow" where
  "edit_account env i inp =
     and_then (account_find env i) (\<lambda>a.
     and_then (lift_result (account_normalize (a\<lparr>ac_name := ai_name inp, ac_bank := ai_bank inp, ac_iban := ai_iban inp,
         ac_commission := ai_commission inp, ac_threshold := ai_threshold inp,
         ac_active := (case ai_active inp of None \<Rightarrow> ac_active a | Some x \<Rightarrow> x)\<rparr>))) (\<lambda>a.
     let a = a\<lparr>ac_updated := fin_now env\<rparr> in
     and_then (update_account a) (\<lambda>_.
     and_then (fin_record env ''treasury.account_updated'' (ac_id a) (ac_branch a)) (\<lambda>_. ret a))))"

section \<open>Movements\<close>

definition occurred_on :: "treasury_env \<Rightarrow> string \<Rightarrow> go_time result" where
  "occurred_on env v =
     (if v = [] then Inr (fin_today env)
      else case parse_date (trim_space v) of
        None \<Rightarrow> Inl (new_validation ''occurred_on must be YYYY-MM-DD'')
      | Some d \<Rightarrow> if after d (fin_today env) then Inl (new_validation ''occurred_on cannot be in the future'') else Inr d)"

record movement_input =
  mi_account :: uuid
  mi_direction :: string
  mi_kind :: string
  mi_amount :: int
  mi_fee :: "int option"
  mi_booking :: "uuid option"
  mi_supplier :: "uuid option"
  mi_reference :: string
  mi_party :: string
  mi_remark :: string
  mi_on :: string

definition check_booking_branch :: "treasury_env \<Rightarrow> uuid \<Rightarrow> uuid \<Rightarrow> (treasury_db, unit) uow" where
  "check_booking_branch env bid branch =
     and_then (booking_facts env bid) (\<lambda>b.
       if b_branch b \<noteq> branch then fail (new_validation ''booking belongs to another branch'') else ret ())"

definition input_fee :: "account \<Rightarrow> movement_input \<Rightarrow> int" where
  "input_fee a inp =
     (case mi_fee inp of
        Some f \<Rightarrow> f
      | None \<Rightarrow> if mi_direction inp = ''in'' \<and> mi_kind inp = ''collection'' then pos_fee a (mi_amount inp) else 0)"

definition post_checked :: "treasury_env \<Rightarrow> account \<Rightarrow> movement \<Rightarrow> (treasury_db, movement \<times> account) uow" where
  "post_checked env a m db =
     and_then (case mv_booking m of None \<Rightarrow> ret () | Some bid \<Rightarrow> check_booking_branch env bid (ac_branch a)) (\<lambda>_.
     and_then (post env a m) (\<lambda>(a', m').
     and_then (fin_record env ''treasury.movement_posted'' (mv_id m') (ac_branch a')) (\<lambda>_. ret (m', a')))) db"

definition post_manual :: "treasury_env \<Rightarrow> uuid \<Rightarrow> movement_input \<Rightarrow> (treasury_db, movement \<times> account) uow" where
  "post_manual env actor inp =
     and_then (lift_result (occurred_on env (mi_on inp))) (\<lambda>day.
     and_then (ensure (mi_kind inp \<noteq> ''transfer'') (new_validation ''use the transfer endpoint for transfers'')) (\<lambda>_.
     and_then (account_find env (mi_account inp)) (\<lambda>a.
     and_then (lift_result (movement_validate (zero_movement\<lparr>mv_id := te_ids env 0, mv_direction := mi_direction inp,
         mv_kind := mi_kind inp, mv_amount := mi_amount inp, mv_fee := input_fee a inp, mv_booking := mi_booking inp,
         mv_supplier := mi_supplier inp, mv_reference := mi_reference inp, mv_party := mi_party inp, mv_remark := mi_remark inp,
         mv_on := day, mv_actor := Some actor, mv_created := fin_now env\<rparr>))) (post_checked env a))))"

record transfer_input =
  ti_from :: uuid
  ti_to :: uuid
  ti_amount :: int
  ti_fee :: int
  ti_remark :: string
  ti_on :: string

definition transfer_move ::
  "treasury_env \<Rightarrow> uuid \<Rightarrow> transfer_input \<Rightarrow> go_time \<Rightarrow> uuid \<Rightarrow> string \<Rightarrow> int \<Rightarrow> uuid \<Rightarrow> uuid \<Rightarrow> movement" where
  "transfer_move env actor inp day i dir fee counter tid =
     zero_movement\<lparr>mv_id := i, mv_direction := dir, mv_kind := ''transfer'', mv_amount := ti_amount inp, mv_fee := fee,
       mv_counter := Some counter, mv_transfer := Some tid, mv_remark := ti_remark inp, mv_on := day, mv_actor := Some actor,
       mv_created := fin_now env\<rparr>"

text \<open>The part of \<open>Transfer\<close> after both accounts are locked.\<close>

definition move_between ::
  "treasury_env \<Rightarrow> uuid \<Rightarrow> transfer_input \<Rightarrow> go_time \<Rightarrow> account \<Rightarrow> account \<Rightarrow> (treasury_db, movement list) uow" where
  "move_between env actor inp day src dst =
     (let tid = te_ids env 0 in
     and_then (ensure (ac_currency src = ac_currency dst) (new_validation ''transfers need two accounts in the same currency'')) (\<lambda>_.
     and_then (ensure (ac_branch src = ac_branch dst) (new_validation ''transfers stay within one branch'')) (\<lambda>_.
     and_then (post env src (transfer_move env actor inp day (te_ids env 1) ''out'' (ti_fee inp) (ac_id dst) tid)) (\<lambda>(_, m1).
     and_then (post env dst (transfer_move env actor inp day (te_ids env 2) ''in'' 0 (ac_id src) tid)) (\<lambda>(_, m2).
     and_then (fin_record env ''treasury.transfer'' tid (ac_branch src)) (\<lambda>_. ret [m1, m2]))))))"

definition transfer :: "treasury_env \<Rightarrow> uuid \<Rightarrow> transfer_input \<Rightarrow> (treasury_db, movement list) uow" where
  "transfer env actor inp =
     and_then (ensure (ti_from inp \<noteq> ti_to inp) (new_validation ''choose two different accounts'')) (\<lambda>_.
     and_then (lift_result (occurred_on env (ti_on inp))) (\<lambda>day.
     let (first, second) = (if te_text env (ti_from inp) > te_text env (ti_to inp) then (ti_to inp, ti_from inp) else (ti_from inp, ti_to inp)) in
     and_then (account_find env first) (\<lambda>a1.
     and_then (account_find env second) (\<lambda>a2.
       if ac_id a1 \<noteq> ti_from inp then move_between env actor inp day a2 a1 else move_between env actor inp day a1 a2))))"

section \<open>Settling a credit\<close>

definition truncate_runes :: "string \<Rightarrow> nat \<Rightarrow> string" where
  "truncate_runes s n = (if rune_count s > n then take_runes n s else s)"

definition settle_key :: "treasury_env \<Rightarrow> movement \<Rightarrow> string" where
  "settle_key env m = ''treasury:'' @ te_text env (mv_id m)"

definition settle_input :: "treasury_env \<Rightarrow> movement \<Rightarrow> uuid \<Rightarrow> uuid \<Rightarrow> bool \<Rightarrow> record_input" where
  "settle_input env m bid actor may =
     \<lparr>ri_booking = bid, ri_amount = mv_amount m, ri_currency = mv_currency m, ri_method = ''bank_transfer'',
      ri_reference = truncate_runes (mv_reference m) 120, ri_note = ''Bank feed '' @ mv_external m, ri_recorded_by = actor,
      ri_key = settle_key env m, ri_auto_verify = True, ri_may_approve = may, ri_received = Some (mv_on m)\<rparr>"

text \<open>The payment service draws the identifier \<open>pid\<close>.\<close>

definition settle :: "treasury_env \<Rightarrow> uuid \<Rightarrow> movement \<Rightarrow> uuid \<Rightarrow> uuid \<Rightarrow> bool \<Rightarrow> (treasury_db, movement) uow" where
  "settle env pid m bid actor may =
     and_then (on_payments (pay_record ((te_pay env)\<lparr>pe_fresh := pid\<rparr>) (settle_input env m bid actor may))) (\<lambda>(p, _).
     and_then (resolve_match (mv_id m) MatchMatched (Some bid) (Some (p_id p))) (\<lambda>_.
     and_then (fin_record env ''treasury.credit_matched'' (mv_id m) (mv_branch m)) (\<lambda>_.
       ret (resolved MatchMatched (Some bid) (Some (p_id p)) m))))"

definition match_by_hand :: "treasury_env \<Rightarrow> uuid \<Rightarrow> uuid \<Rightarrow> uuid \<Rightarrow> bool \<Rightarrow> (treasury_db, movement) uow" where
  "match_by_hand env i bid actor may =
     and_then (movement_find env i) (\<lambda>m.
     and_then (ensure (mv_match m = MatchUnmatched) (new_invalid_state ''this movement is not waiting for a match'')) (\<lambda>_.
     and_then (booking_facts env bid) (\<lambda>b.
     and_then (ensure (b_branch b = mv_branch m) (new_validation ''booking belongs to another branch'')) (\<lambda>_.
     and_then (ensure (b_currency b = mv_currency m) (new_validation ''booking currency differs from the bank credit'')) (\<lambda>_.
       settle env (te_ids env 0) m bid actor may)))))"

definition ignore_credit :: "treasury_env \<Rightarrow> uuid \<Rightarrow> (treasury_db, unit) uow" where
  "ignore_credit env i =
     and_then (movement_find env i) (\<lambda>m.
     and_then (ensure (mv_match m = MatchUnmatched) (new_invalid_state ''this movement is not waiting for a match'')) (\<lambda>_.
     and_then (resolve_match (mv_id m) MatchIgnored None None) (\<lambda>_.
       fin_record env ''treasury.credit_ignored'' (mv_id m) (mv_branch m))))"

definition auto_match :: "treasury_env \<Rightarrow> uuid \<Rightarrow> uuid \<Rightarrow> movement \<Rightarrow> uuid \<Rightarrow> bool \<Rightarrow> (treasury_db, bool) uow" where
  "auto_match env pid branch m actor may =
     (let (refs, pnrs) = extract_refs (mv_reference m @ '' '' @ mv_party m) in
      if refs = [] \<and> pnrs = [] then ret False
      else and_then (bookings_by_refs env branch refs pnrs) (\<lambda>cands.
        case match_credit (mv_amount m) (mv_currency m) cands of
          None \<Rightarrow> ret False
        | Some hit \<Rightarrow> and_then (settle env pid m (du_booking hit) actor may) (\<lambda>_. ret True)))"

section \<open>Importing a bank statement\<close>

record feed_row =
  fr_external :: string
  fr_on :: string
  fr_amount :: int
  fr_direction :: string
  fr_description :: string
  fr_party :: string

record feed_result =
  fs_imported :: nat
  fs_duplicates :: nat
  fs_matched :: nat
  fs_unmatched :: nat

definition row_result :: "nat \<Rightarrow> 'a result \<Rightarrow> 'a result" where
  "row_result i r =
     (case r of Inl e \<Rightarrow> Inl (new_validation (''row '' @ show_nat (Suc i) @ '': '' @ error_text e)) | Inr x \<Rightarrow> Inr x)"

definition row_movement :: "treasury_env \<Rightarrow> uuid \<Rightarrow> nat \<Rightarrow> feed_row \<Rightarrow> go_time \<Rightarrow> movement" where
  "row_movement env actor i r day =
     zero_movement\<lparr>mv_id := te_ids env i, mv_direction := fr_direction r,
       mv_kind := (if fr_direction r = ''out'' then ''expense'' else ''collection''), mv_amount := fr_amount r,
       mv_source := ''bank_feed'', mv_external := fr_external r, mv_reference := truncate_runes (fr_description r) 140,
       mv_party := truncate_runes (fr_party r) 140, mv_on := day, mv_actor := Some actor, mv_created := fin_now env\<rparr>"

text \<open>
  One row, with the account as the loop holds it, the counters and the open credits. A duplicate has changed the account
  in memory, which is undone; the row was not stored.
\<close>

type_synonym import_state = "account \<times> feed_result \<times> movement list"

definition store_row :: "treasury_env \<Rightarrow> import_state \<Rightarrow> movement \<Rightarrow> (treasury_db, import_state) uow" where
  "store_row env s m db =
     (case s of (a, res, credits) \<Rightarrow>
        (case post env a m db of
           Inl e \<Rightarrow>
             if e = err_duplicate
             then Inr ((a\<lparr>ac_balance := sub64 (add64 (ac_balance a) (movement_net m)) (movement_net m)\<rparr>,
                        res\<lparr>fs_duplicates := Suc (fs_duplicates res)\<rparr>, credits), db)
             else Inl e
         | Inr ((a', m'), db') \<Rightarrow>
             Inr ((a', res\<lparr>fs_imported := Suc (fs_imported res)\<rparr>,
                   if mv_match m' = MatchUnmatched then credits @ [m'] else credits), db')))"

definition import_row ::
  "treasury_env \<Rightarrow> uuid \<Rightarrow> nat \<Rightarrow> feed_row \<Rightarrow> import_state \<Rightarrow> (treasury_db, import_state) uow" where
  "import_row env actor i r s =
     and_then (lift_result (row_result i (occurred_on env (fr_on r)))) (\<lambda>day.
     and_then (lift_result (row_result i (movement_validate (row_movement env actor i r day)))) (\<lambda>m.
       store_row env s m))"

primrec import_rows ::
  "treasury_env \<Rightarrow> uuid \<Rightarrow> nat \<Rightarrow> feed_row list \<Rightarrow> import_state \<Rightarrow> (treasury_db, import_state) uow" where
  "import_rows env actor i [] s = ret s"
| "import_rows env actor i (r # rs) s = and_then (import_row env actor i r s) (import_rows env actor (Suc i) rs)"

definition no_feed :: feed_result where
  "no_feed = \<lparr>fs_imported = 0, fs_duplicates = 0, fs_matched = 0, fs_unmatched = 0\<rparr>"

definition import_tx ::
  "treasury_env \<Rightarrow> uuid \<Rightarrow> uuid \<Rightarrow> feed_row list \<Rightarrow> (treasury_db, feed_result \<times> movement list) uow" where
  "import_tx env i actor rows =
     and_then (account_find env i) (\<lambda>a.
     and_then (import_rows env actor 0 rows (a, no_feed, [])) (\<lambda>(a', res, credits).
     and_then (fin_record env ''treasury.feed_imported'' (ac_id a') (ac_branch a')) (\<lambda>_. ret (res, credits))))"

text \<open>Credits are settled one by one after the import; a failure is logged and leaves the credit open.\<close>

primrec settle_credits ::
  "treasury_env \<Rightarrow> nat \<Rightarrow> uuid \<Rightarrow> uuid \<Rightarrow> bool \<Rightarrow> movement list \<Rightarrow> feed_result \<Rightarrow> treasury_db \<Rightarrow> feed_result \<times> treasury_db" where
  "settle_credits env i branch actor may [] res db = (res, db)"
| "settle_credits env i branch actor may (m # ms) res db =
     (case within_transaction (auto_match env (te_ids env i) branch m actor may) db of (r, db') \<Rightarrow>
        settle_credits env (Suc i) branch actor may ms
          (if r = Inr True then res\<lparr>fs_matched := Suc (fs_matched res)\<rparr> else res\<lparr>fs_unmatched := Suc (fs_unmatched res)\<rparr>) db')"

definition check_feed :: "treasury_env \<Rightarrow> uuid \<Rightarrow> feed_row list \<Rightarrow> (treasury_db, account) uow" where
  "check_feed env i rows =
     and_then (ensure (rows \<noteq> [] \<and> length rows \<le> 2000) (new_validation ''1-2000 rows'')) (\<lambda>_.
     and_then (account_find env i) (\<lambda>a.
     and_then (ensure (ac_kind a = AccountBank \<or> ac_kind a = AccountPOS)
       (new_validation ''bank feeds import into bank or POS accounts'')) (\<lambda>_.
     case find (\<lambda>(_, r). fr_external r = []) (enumerate 0 rows) of
       Some (k, _) \<Rightarrow> fail (new_validation (''row '' @ show_nat (Suc k) @ '': external_id is required for de-duplication''))
     | None \<Rightarrow> ret a)))"

definition import_feed ::
  "treasury_env \<Rightarrow> uuid \<Rightarrow> uuid \<Rightarrow> bool \<Rightarrow> feed_row list \<Rightarrow> treasury_db \<Rightarrow> feed_result result \<times> treasury_db" where
  "import_feed env i actor may rows db =
     (case check_feed env i rows db of
        Inl e \<Rightarrow> (Inl e, db)
      | Inr (a, _) \<Rightarrow>
          (case within_transaction (import_tx env i actor rows) db of
             (Inl e, db') \<Rightarrow> (Inl e, db')
           | (Inr (res, credits), db') \<Rightarrow>
               (case settle_credits env (length rows) (ac_branch a) actor may credits res db' of (res', db'') \<Rightarrow> (Inr res', db''))))"

section \<open>The books\<close>

definition net_of :: "uuid \<Rightarrow> movement list \<Rightarrow> int" where
  "net_of i ms = sum_list (map signed_net (filter (\<lambda>m. mv_account m = i) ms))"

definition running_ok :: "movement list \<Rightarrow> bool" where
  "running_ok ms \<longleftrightarrow> (\<forall>pre m post. ms = pre @ m # post \<longrightarrow> mv_balance_after m = net_of (mv_account m) (pre @ [m]))"

definition externals :: "movement list \<Rightarrow> (uuid \<times> string) list" where
  "externals ms = map (\<lambda>m. (mv_account m, mv_external m)) (filter (\<lambda>m. mv_external m \<noteq> []) ms)"

definition accounts_ok :: "account list \<Rightarrow> movement list \<Rightarrow> bool" where
  "accounts_ok as ms \<longleftrightarrow> distinct (map ac_id as) \<and> (\<forall>a \<in> set as. account_ok a \<and> ac_balance a = net_of (ac_id a) ms)"

definition moves_ok :: "account list \<Rightarrow> movement list \<Rightarrow> bool" where
  "moves_ok as ms \<longleftrightarrow> distinct (map mv_id ms) \<and> distinct (externals ms) \<and> running_ok ms
     \<and> (\<forall>m \<in> set ms. movement_ok m \<and> mv_account m \<in> ac_id ` set as)"

text \<open>A matched credit points at a payment that was recorded under its own key.\<close>

definition settled_ok :: "(uuid \<Rightarrow> string) \<Rightarrow> movement list \<Rightarrow> payment list \<Rightarrow> bool" where
  "settled_ok idtext ms ps \<longleftrightarrow>
     (\<forall>m \<in> set ms. mv_match m = MatchMatched \<longrightarrow>
        (\<exists>p \<in> set ps. mv_payment m = Some (p_id p) \<and> p_key p = ''treasury:'' @ idtext (mv_id m)))"

definition treasury_ok :: "(uuid \<Rightarrow> string) \<Rightarrow> treasury_db \<Rightarrow> bool" where
  "treasury_ok idtext db \<longleftrightarrow> accounts_ok (td_accounts db) (td_moves db) \<and> moves_ok (td_accounts db) (td_moves db)
     \<and> settled_ok idtext (td_moves db) (pd_payments (td_pay db)) \<and> ledger_ok (td_pay db)"

lemma net_of_simps [simp]:
  "net_of i [] = 0" "net_of i (m # ms) = (if mv_account m = i then signed_net m else 0) + net_of i ms"
  "net_of i (ms @ ns) = net_of i ms + net_of i ns"
  by (simp_all add: net_of_def)

lemma externals_append [simp]: "externals (ms @ ns) = externals ms @ externals ns"
  by (simp add: externals_def)

lemma running_append:
  "running_ok (ms @ [m]) \<longleftrightarrow> running_ok ms \<and> mv_balance_after m = net_of (mv_account m) (ms @ [m])"
proof -
  have "ms @ [m] = pre @ x # post \<longleftrightarrow> (post = [] \<and> pre = ms \<and> x = m) \<or> (\<exists>q. post = q @ [m] \<and> ms = pre @ x # q)" for pre x post
    by (cases post rule: rev_cases) auto
  then show ?thesis unfolding running_ok_def by (simp add: all_conj_distrib imp_disjL) (metis append_Cons)
qed

lemma moves_ok_snoc:
  assumes "moves_ok as ms" "ac_id ` set as' = ac_id ` set as" "mv_account m \<in> ac_id ` set as" "movement_ok m"
    "mv_id m \<notin> set (map mv_id ms)" "mv_external m \<noteq> [] \<Longrightarrow> (mv_account m, mv_external m) \<notin> set (externals ms)"
    "mv_balance_after m = net_of (mv_account m) (ms @ [m])"
  shows "moves_ok as' (ms @ [m])"
proof -
  have "distinct (externals (ms @ [m]))" using assms(1,6) by (simp add: moves_ok_def) (simp add: externals_def)
  then show ?thesis unfolding moves_ok_def running_append assms(2) using assms(1,3-5,7) by (simp add: moves_ok_def)
qed

text \<open>Editing a row without touching what its money says.\<close>

definition same_money :: "movement \<Rightarrow> movement \<Rightarrow> bool" where
  "same_money m n \<longleftrightarrow> mv_id n = mv_id m \<and> mv_account n = mv_account m \<and> mv_balance_after n = mv_balance_after m
     \<and> mv_external n = mv_external m \<and> signed_net n = signed_net m \<and> (movement_ok m \<longrightarrow> movement_ok n)"

lemma moves_ok_map:
  assumes "\<And>m. same_money m (g m)"
  shows "net_of i (map g ms) = net_of i ms" "moves_ok as ms \<Longrightarrow> moves_ok as (map g ms)"
proof -
  note g = assms [unfolded same_money_def]
  have net: "net_of i (map g ms) = net_of i ms" for i ms using g by (induction ms) simp_all
  then show "net_of i (map g ms) = net_of i ms" .
  have "externals (map g ms) = externals ms" using g by (simp add: externals_def filter_map comp_def)
  moreover have "mv_id \<circ> g = mv_id" using g by (simp add: fun_eq_iff)
  moreover have "running_ok (map g ms)" if "running_ok ms"
    unfolding running_ok_def
  proof (intro allI impI)
    fix pre m post
    assume "map g ms = pre @ m # post"
    then obtain pre' m' post' where "ms = pre' @ m' # post'" "pre = map g pre'" "m = g m'"
      by (auto simp: map_eq_append_conv map_eq_Cons_conv)
    then show "mv_balance_after m = net_of (mv_account m) (pre @ [m])" using that g net by (auto simp: running_ok_def)
  qed
  ultimately show "moves_ok as ms \<Longrightarrow> moves_ok as (map g ms)" using g by (auto simp: moves_ok_def)
qed

lemma resolved_sel [simp]:
  "mv_id (resolved st b q m) = mv_id m" "mv_account (resolved st b q m) = mv_account m" "mv_match (resolved st b q m) = st"
  "mv_payment (resolved st b q m) = q" "mv_amount (resolved st b q m) = mv_amount m"
  by (simp_all add: resolved_def)

lemma resolved_same_money: "st \<noteq> MatchBlank \<Longrightarrow> same_money m (resolved st b q m)"
  by (simp add: same_money_def resolved_def signed_net_def movement_ok_def)

lemma resolve_match_Inr:
  assumes "resolve_match i st bid pid db = Inr (u, db')"
  shows "list_ex (\<lambda>m. mv_id m = i \<and> mv_match m = MatchUnmatched) (td_moves db)"
    "db' = db\<lparr>td_moves := map (\<lambda>m. if mv_id m = i \<and> mv_match m = MatchUnmatched then resolved st bid pid m else m) (td_moves db)\<rparr>"
  using assms by (auto simp: resolve_match_def Let_def and_then_def split: if_splits)

lemma fin_record_Inr:
  "fin_record env a i b db = Inr (u, db') \<Longrightarrow>
     td_accounts db' = td_accounts db \<and> td_moves db' = td_moves db \<and> td_pay db' = td_pay db"
  by (auto simp: fin_record_def split: option.splits)

lemma treasury_ok_cong:
  "td_accounts db' = td_accounts db \<Longrightarrow> td_moves db' = td_moves db \<Longrightarrow> td_pay db' = td_pay db \<Longrightarrow> treasury_ok idtext db' = treasury_ok idtext db"
  by (simp add: treasury_ok_def)

lemma resolve_match_ok:
  assumes run: "resolve_match i st bid pid db = Inr (u, db')" and ok: "treasury_ok idtext db" and st: "st \<noteq> MatchBlank"
    and pay: "st = MatchMatched \<Longrightarrow> \<exists>p \<in> set (pd_payments (td_pay db)). pid = Some (p_id p) \<and> p_key p = ''treasury:'' @ idtext i"
  shows "treasury_ok idtext db'"
proof -
  let ?g = "\<lambda>m. if mv_id m = i \<and> mv_match m = MatchUnmatched then resolved st bid pid m else m"
  have d: "db' = db\<lparr>td_moves := map ?g (td_moves db)\<rparr>" using resolve_match_Inr [OF run] by simp
  have g: "same_money m (?g m)" for m using resolved_same_money [OF st] by (simp add: same_money_def)
  have "settled_ok idtext (map ?g (td_moves db)) (pd_payments (td_pay db))"
    using ok pay by (auto simp: treasury_ok_def settled_ok_def)
  moreover have "accounts_ok (td_accounts db) (map ?g (td_moves db))"
    using ok moves_ok_map(1) [where g = ?g, OF g] by (simp add: treasury_ok_def accounts_ok_def)
  ultimately show ?thesis using ok moves_ok_map(2) [where g = ?g, OF g] by (simp add: treasury_ok_def d)
qed

section \<open>Posting keeps the books\<close>

text \<open>The account in memory is the stored one up to its descriptive fields.\<close>

definition stored :: "account \<Rightarrow> treasury_db \<Rightarrow> bool" where
  "stored a db \<longleftrightarrow> (\<exists>s \<in> set (td_accounts db). ac_id s = ac_id a \<and> ac_balance s = ac_balance a \<and> ac_kind s = ac_kind a)"

lemma stored_ok: "stored a db \<Longrightarrow> treasury_ok idtext db \<Longrightarrow> account_ok a \<and> ac_balance a = net_of (ac_id a) (td_moves db)"
  by (fastforce simp: stored_def treasury_ok_def accounts_ok_def account_ok_def)

lemma account_find_Inr:
  assumes "account_find env i db = Inr (a, db')"
  shows "db' = db" "a \<in> set (td_accounts db)" "ac_id a = i" "stored a db"
proof -
  show "db' = db" "a \<in> set (td_accounts db)" "ac_id a = i"
    using assms by (auto simp: account_find_def find_Some_iff elim!: and_then_InrE lift_result_InrE split: option.splits)
  then show "stored a db" by (auto simp: stored_def)
qed

lemma movement_find_Inr:
  assumes "movement_find env i db = Inr (m, db')"
  shows "db' = db" "m \<in> set (td_moves db)" "mv_id m = i"
  using assms by (auto simp: movement_find_def find_Some_iff elim!: and_then_InrE lift_result_InrE split: option.splits)

lemma booking_facts_Inr: "booking_facts env i db = Inr (b, db') \<Longrightarrow> db' = db"
  by (auto simp: booking_facts_def elim!: and_then_InrE lift_result_InrE split: option.splits)

lemma post_Inr:
  assumes "post env a m0 db = Inr ((a', m'), db')"
  obtains m where "movement_validate m0 = Inr m" "account_post a m = Inr (a', m')"
    "\<not> list_ex (\<lambda>x. mv_id x = mv_id m') (td_moves db)"
    "mv_external m' = [] \<or> \<not> list_ex (\<lambda>x. mv_account x = mv_account m' \<and> mv_external x = mv_external m') (td_moves db)"
    "db' = on_account (ac_id a') (\<lambda>x. x\<lparr>ac_balance := ac_balance a', ac_updated := fin_now env\<rparr>) (db\<lparr>td_moves := td_moves db @ [m']\<rparr>)"
  using assms
  by (auto simp: post_def insert_movement_def set_balance_def and_then_def lift_result_def split: sum.splits prod.splits if_splits)

lemma on_account_sel [simp]:
  "td_moves (on_account i f db) = td_moves db" "td_pay (on_account i f db) = td_pay db"
  "td_accounts (on_account i f db) = map (\<lambda>x. if ac_id x = i then f x else x) (td_accounts db)"
  by (simp_all add: on_account_def)

lemma movement_validate_match:
  "movement_validate m = Inr m' \<Longrightarrow> mv_match m \<noteq> MatchMatched \<Longrightarrow> mv_match m' \<noteq> MatchMatched"
  by (auto simp: movement_validate_def default_states_def clean_movement_def Let_def split: option.splits if_splits)

lemma post_ok:
  assumes run: "post env a m0 db = Inr ((a', m'), db')" and ok: "treasury_ok idtext db" and st: "stored a db"
    and open_credit: "mv_match m0 \<noteq> MatchMatched"
  shows "treasury_ok idtext db'" "stored a' db'" "ac_id a' = ac_id a" "movement_ok m'" "ac_branch a' = ac_branch a"
    "ac_balance a' = ac_balance a + signed_net m'"
    "\<And>b. stored b db \<Longrightarrow> ac_id b \<noteq> ac_id a \<Longrightarrow> stored b db'"
proof -
  obtain m where m: "movement_validate m0 = Inr m" and post: "account_post a m = Inr (a', m')"
    and new: "\<not> list_ex (\<lambda>x. mv_id x = mv_id m') (td_moves db)"
      "mv_external m' = [] \<or> \<not> list_ex (\<lambda>x. mv_account x = mv_account m' \<and> mv_external x = mv_external m') (td_moves db)"
    and d: "db' = on_account (ac_id a') (\<lambda>x. x\<lparr>ac_balance := ac_balance a', ac_updated := fin_now env\<rparr>) (db\<lparr>td_moves := td_moves db @ [m']\<rparr>)"
    by (rule post_Inr [OF run])
  have ao: "account_ok a" "ac_balance a = net_of (ac_id a) (td_moves db)" using stored_ok [OF st ok] by auto
  note p = account_post_Inr [OF post ao(1) movement_validate_ok [OF m]]
  have a': "ac_id a' = ac_id a" "ac_kind a' = ac_kind a" "ac_branch a' = ac_branch a" "ac_balance a' = ac_balance a + signed_net m"
    using p(1) by simp_all
  have m': "mv_account m' = ac_id a" "mv_balance_after m' = ac_balance a'" "signed_net m' = signed_net m" "mv_match m' = mv_match m" "movement_ok m'"
    using p(3) movement_validate_ok [OF m] by (simp_all add: signed_net_def movement_ok_def)
  show "ac_id a' = ac_id a" "movement_ok m'" "ac_branch a' = ac_branch a" "ac_balance a' = ac_balance a + signed_net m'"
    using a' m' by simp_all
  show "stored a' db'"
  proof -
    obtain s where s: "s \<in> set (td_accounts db)" "ac_id s = ac_id a" "ac_kind s = ac_kind a" using st by (auto simp: stored_def)
    have "s\<lparr>ac_balance := ac_balance a', ac_updated := fin_now env\<rparr> \<in> set (td_accounts db')"
      unfolding d on_account_sel set_map by (rule image_eqI [of _ _ s]) (use s(1,2) a'(1) in simp_all)
    then show ?thesis unfolding stored_def by (rule rev_bexI) (use s a' in simp)
  qed
  show "stored b db'" if "stored b db" "ac_id b \<noteq> ac_id a" for b using that a'(1) by (force simp: stored_def d)
  let ?f = "\<lambda>x. if ac_id x = ac_id a' then x\<lparr>ac_balance := ac_balance a', ac_updated := fin_now env\<rparr> else x"
  have ids: "map ac_id (map ?f (td_accounts db)) = map ac_id (td_accounts db)" by simp
  obtain s where s: "s \<in> set (td_accounts db)" "ac_id s = ac_id a" "ac_kind s = ac_kind a" using st by (auto simp: stored_def)
  have kind: "ac_kind x = ac_kind a" if "x \<in> set (td_accounts db)" "ac_id x = ac_id a" for x
  proof -
    have "inj_on ac_id (set (td_accounts db))" using ok by (simp add: treasury_ok_def accounts_ok_def distinct_map)
    then show ?thesis using that s by (metis inj_onD)
  qed
  have acc: "accounts_ok (map ?f (td_accounts db)) (td_moves db @ [m'])"
    unfolding accounts_ok_def ids
  proof (intro conjI ballI)
    show "distinct (map ac_id (td_accounts db))" using ok by (simp add: treasury_ok_def accounts_ok_def)
    fix y assume "y \<in> set (map ?f (td_accounts db))"
    then obtain x where x: "x \<in> set (td_accounts db)" "y = ?f x" by auto
    then have "account_ok x \<and> ac_balance x = net_of (ac_id x) (td_moves db)" using ok by (simp add: treasury_ok_def accounts_ok_def)
    then show "account_ok y" "ac_balance y = net_of (ac_id y) (td_moves db @ [m'])"
      using x(2) kind [OF x(1)] p(2) a' m' ao(2) by (auto simp: account_ok_def)
  qed
  have "moves_ok (td_accounts db) (td_moves db)" using ok by (simp add: treasury_ok_def)
  moreover have "ac_id a \<in> ac_id ` set (td_accounts db)" unfolding s(2) [symmetric] by (rule imageI) (rule s(1))
  moreover have "(mv_account m', mv_external m') \<notin> set (externals (td_moves db))" if "mv_external m' \<noteq> []"
    using new(2) that by (auto simp: externals_def list_ex_iff)
  moreover have "ac_id ` set (map ?f (td_accounts db)) = ac_id ` set (td_accounts db)" by (simp only: set_map [symmetric] ids)
  moreover have "mv_id m' \<notin> set (map mv_id (td_moves db))" using new(1) by (auto simp: list_ex_iff)
  ultimately have mov: "moves_ok (map ?f (td_accounts db)) (td_moves db @ [m'])"
    using moves_ok_snoc [of "td_accounts db" "td_moves db" "map ?f (td_accounts db)" m'] m' a' ao(2) by simp
  have "mv_match m' \<noteq> MatchMatched" using movement_validate_match [OF m open_credit] m'(4) by simp
  then show "treasury_ok idtext db'" using acc mov ok by (auto simp: treasury_ok_def d settled_ok_def)
qed

section \<open>Every operation keeps the books\<close>

definition keeps :: "(uuid \<Rightarrow> string) \<Rightarrow> (treasury_db, 'a) uow \<Rightarrow> bool" where
  "keeps idtext m \<longleftrightarrow> (\<forall>db x db'. m db = Inr (x, db') \<longrightarrow> treasury_ok idtext db \<longrightarrow> treasury_ok idtext db')"

lemma keeps_transaction:
  assumes "keeps idtext m" "within_transaction m db = (r, db')" "treasury_ok idtext db"
  shows "treasury_ok idtext db'"
  by (rule transaction_keeps [where P = "treasury_ok idtext", OF assms(2,3)]) (use assms(1,3) in \<open>auto simp: keeps_def\<close>)

lemma fin_record_keeps: "fin_record env a i b db = Inr (u, db') \<Longrightarrow> treasury_ok idtext db \<Longrightarrow> treasury_ok idtext db'"
  using fin_record_Inr treasury_ok_cong by metis

lemma zero_movement_open [simp]: "mv_match zero_movement = MatchBlank"
  by (simp add: zero_movement_def)

lemma insert_account_ok:
  assumes "insert_account env a db = Inr (u, db')" "treasury_ok idtext db" "ac_balance a = 0"
  shows "treasury_ok idtext db'" "stored a db'"
proof -
  have d: "db' = db\<lparr>td_accounts := td_accounts db @ [a]\<rparr>" "ac_id a \<notin> ac_id ` set (td_accounts db)"
    using assms(1) by (auto simp: insert_account_def and_then_def list_ex_iff split: option.splits if_splits)
  have "net_of (ac_id a) (td_moves db) = 0"
  proof -
    have "mv_account m \<noteq> ac_id a" if "m \<in> set (td_moves db)" for m
    proof -
      have "mv_account m \<in> ac_id ` set (td_accounts db)" using that assms(2) by (simp add: treasury_ok_def moves_ok_def)
      then show ?thesis using d(2) by auto
    qed
    then have "filter (\<lambda>m. mv_account m = ac_id a) (td_moves db) = []" by (simp add: filter_empty_conv)
    then show ?thesis by (simp add: net_of_def)
  qed
  moreover have "account_ok a" using assms(3) by (simp add: account_ok_def max_money_def)
  moreover have "moves_ok (td_accounts db @ [a]) (td_moves db)" using assms(2) by (auto simp: treasury_ok_def moves_ok_def)
  ultimately show "treasury_ok idtext db'" using assms(2,3) d by (simp add: treasury_ok_def accounts_ok_def)
  show "stored a db'" by (simp add: stored_def d(1))
qed

lemma account_normalize_sel:
  "account_normalize a = Inr a' \<Longrightarrow> ac_id a' = ac_id a \<and> ac_balance a' = ac_balance a \<and> ac_branch a' = ac_branch a"
  by (auto simp: account_normalize_def Let_def split: prod.splits option.splits)

lemma create_account_keeps: "keeps idtext (create_account env branch actor inp)"
  unfolding keeps_def
proof (intro allI impI)
  fix db x db'
  assume run: "create_account env branch actor inp db = Inr (x, db')" and ok: "treasury_ok idtext db"
  obtain a d where a: "ac_balance a = 0" and i: "insert_account env a db = Inr ((), d)"
    and rest: "and_then (if ai_opening inp > 0
         then and_then (post env a (zero_movement\<lparr>mv_id := te_ids env 1, mv_direction := ''in'', mv_kind := ''adjustment'',
             mv_amount := ai_opening inp, mv_remark := ''Opening balance'', mv_on := fin_today env, mv_actor := Some actor,
             mv_created := fin_now env\<rparr>)) (\<lambda>(a', _). ret a')
         else ret a) (\<lambda>a. and_then (fin_record env ''treasury.account_created'' (ac_id a) branch) (\<lambda>_. ret a)) d = Inr (x, db')"
    using run unfolding create_account_def
    by (elim and_then_InrE lift_result_InrE) (auto dest!: account_normalize_sel split: if_splits)
  note d = insert_account_ok [OF i ok a]
  from rest show "treasury_ok idtext db'"
    by (elim and_then_InrE) (auto split: if_splits elim!: and_then_InrE fin_record_keeps dest!: post_ok(1) [OF _ d] intro: d(1))
qed

lemma edit_account_keeps: "keeps idtext (edit_account env i inp)"
  unfolding keeps_def
proof (intro allI impI)
  fix db x db'
  assume run: "edit_account env i inp db = Inr (x, db')" and ok: "treasury_ok idtext db"
  then obtain a d u where a: "update_account a db = Inr (u, d)" and r: "fin_record env ''treasury.account_updated'' (ac_id a) (ac_branch a) d = Inr ((), db')"
    unfolding edit_account_def Let_def by (auto elim!: and_then_InrE lift_result_InrE dest!: account_find_Inr(1))
  define f where "f y = (if ac_id y = ac_id a then y\<lparr>ac_name := ac_name a, ac_bank := ac_bank a, ac_iban := ac_iban a,
     ac_commission := ac_commission a, ac_threshold := ac_threshold a, ac_active := ac_active a, ac_updated := ac_updated a\<rparr> else y)" for y :: account
  have f: "ac_id (f y) = ac_id y \<and> ac_balance (f y) = ac_balance y \<and> ac_kind (f y) = ac_kind y" for y :: account by (simp add: f_def)
  have d: "td_accounts d = map f (td_accounts db)" "td_moves d = td_moves db" "td_pay d = td_pay db"
    using a by (auto simp: update_account_def f_def)
  have "ac_id \<circ> f = ac_id" using f by auto
  moreover have "ac_id ` set (map f as) = ac_id ` set as" for as using f by (simp add: image_image)
  ultimately have "treasury_ok idtext d" using ok f d by (auto simp: treasury_ok_def accounts_ok_def moves_ok_def account_ok_def)
  then show "treasury_ok idtext db'" using fin_record_keeps [OF r] by blast
qed

lemma check_booking_branch_Inr: "check_booking_branch env b br db = Inr (u, db') \<Longrightarrow> db' = db"
  by (auto simp: check_booking_branch_def elim!: and_then_InrE dest!: booking_facts_Inr split: if_splits)

lemma post_manual_keeps: "keeps idtext (post_manual env actor inp)"
  unfolding keeps_def
proof (intro allI impI)
  fix db x db'
  assume run: "post_manual env actor inp db = Inr (x, db')" and ok: "treasury_ok idtext db"
  obtain day a m a' m' d where a: "account_find env (mi_account inp) db = Inr (a, db)"
    and m: "movement_validate (zero_movement\<lparr>mv_id := te_ids env 0, mv_direction := mi_direction inp,
         mv_kind := mi_kind inp, mv_amount := mi_amount inp, mv_fee := input_fee a inp, mv_booking := mi_booking inp,
         mv_supplier := mi_supplier inp, mv_reference := mi_reference inp, mv_party := mi_party inp, mv_remark := mi_remark inp,
         mv_on := day, mv_actor := Some actor, mv_created := fin_now env\<rparr>) = Inr m"
    and p: "post env a m db = Inr ((a', m'), d)"
    and r: "fin_record env ''treasury.movement_posted'' (mv_id m') (ac_branch a') d = Inr ((), db')"
    using run unfolding post_manual_def post_checked_def
    by (elim and_then_InrE lift_result_InrE)
       (auto dest!: account_find_Inr(1) check_booking_branch_Inr elim!: and_then_InrE split: if_splits option.splits)
  have "mv_match m \<noteq> MatchMatched" using movement_validate_match [OF m] by simp
  then show "treasury_ok idtext db'"
    using post_ok(1) [OF p ok account_find_Inr(4) [OF a]] fin_record_keeps [OF r] by blast
qed

text \<open>A transfer: what leaves one account less the fee, and what reaches the other.\<close>

lemma transfer_InrE:
  assumes "transfer env actor inp db = Inr (ms, db')"
  obtains src dst day d1 m1 d2 m2 where "ti_from inp \<noteq> ti_to inp"
    "stored src db" "stored dst db" "ac_id src = ti_from inp" "ac_id dst = ti_to inp"
    "\<exists>a. post env src (transfer_move env actor inp day (te_ids env 1) ''out'' (ti_fee inp) (ac_id dst) (te_ids env 0)) db = Inr ((a, m1), d1)"
    "\<exists>a. post env dst (transfer_move env actor inp day (te_ids env 2) ''in'' 0 (ac_id src) (te_ids env 0)) d1 = Inr ((a, m2), d2)"
    "ms = [m1, m2]" "fin_record env ''treasury.transfer'' (te_ids env 0) (ac_branch src) d2 = Inr ((), db')"
    "ac_currency src = ac_currency dst"
proof -
  define ids where "ids = (if te_text env (ti_from inp) > te_text env (ti_to inp) then (ti_to inp, ti_from inp) else (ti_from inp, ti_to inp))"
  obtain day a1 a2 d d' where ne: "ti_from inp \<noteq> ti_to inp"
    and f: "account_find env (fst ids) db = Inr (a1, d)" "account_find env (snd ids) d = Inr (a2, d')"
    and m: "(if ac_id a1 \<noteq> ti_from inp then move_between env actor inp day a2 a1 else move_between env actor inp day a1 a2) d' = Inr (ms, db')"
    using assms unfolding transfer_def ids_def [symmetric] Let_def case_prod_beta
    by (elim and_then_InrE lift_result_InrE) (auto simp: ensure_def split: if_splits)
  define src dst where "src = (if ac_id a1 \<noteq> ti_from inp then a2 else a1)" and "dst = (if ac_id a1 \<noteq> ti_from inp then a1 else a2)"
  note a = account_find_Inr [OF f(1)] and b = account_find_Inr [OF f(2)]
  have who: "stored src db" "stored dst db" "ac_id src = ti_from inp" "ac_id dst = ti_to inp"
    using a b ne by (auto simp: src_def dst_def ids_def split: if_splits)
  have "move_between env actor inp day src dst db = Inr (ms, db')"
    using m a(1) b(1) by (simp add: src_def dst_def split: if_splits)
  then obtain x1 m1 d1 x2 m2 d2 where p: "post env src (transfer_move env actor inp day (te_ids env 1) ''out'' (ti_fee inp) (ac_id dst) (te_ids env 0)) db = Inr ((x1, m1), d1)"
    "post env dst (transfer_move env actor inp day (te_ids env 2) ''in'' 0 (ac_id src) (te_ids env 0)) d1 = Inr ((x2, m2), d2)"
    "ms = [m1, m2]" "fin_record env ''treasury.transfer'' (te_ids env 0) (ac_branch src) d2 = Inr ((), db')"
    "ac_currency src = ac_currency dst"
    unfolding move_between_def Let_def by (elim and_then_InrE) (auto elim!: and_then_InrE split: if_splits)
  show thesis by (rule that [OF ne who exI [of _ x1] exI [of _ x2]]) (use p in simp_all)
qed

lemma transfer_keeps: "keeps idtext (transfer env actor inp)"
  unfolding keeps_def
proof (intro allI impI)
  fix db x db'
  assume run: "transfer env actor inp db = Inr (x, db')" and ok: "treasury_ok idtext db"
  from run show "treasury_ok idtext db'"
  proof (cases rule: transfer_InrE)
    case (1 src dst day d1 m1 d2 m2)
    obtain a b where p: "post env src (transfer_move env actor inp day (te_ids env 1) ''out'' (ti_fee inp) (ac_id dst) (te_ids env 0)) db = Inr ((a, m1), d1)"
      "post env dst (transfer_move env actor inp day (te_ids env 2) ''in'' 0 (ac_id src) (te_ids env 0)) d1 = Inr ((b, m2), d2)"
      using 1(6,7) by blast
    have o: "mv_match (transfer_move env actor inp day i dir fee c t) \<noteq> MatchMatched" for i dir fee c t
      by (simp add: transfer_move_def)
    have "treasury_ok idtext d1" "stored dst d1"
      using post_ok(1) [OF p(1) ok 1(2) o] post_ok(7) [OF p(1) ok 1(2) o 1(3)] 1(1,4,5) by simp_all
    then show ?thesis using post_ok(1) [OF p(2) _ _ o] fin_record_keeps [OF 1(9)] by blast
  qed
qed

lemma settled_extends:
  assumes "settled_ok idtext ms (pd_payments p)" "ledger_extends p p'"
  shows "settled_ok idtext ms (pd_payments p')"
proof -
  have "\<exists>q \<in> set (pd_payments p'). p_id q = p_id x \<and> p_key q = p_key x" if x: "x \<in> set (pd_payments p)" for x
  proof -
    obtain i where i: "i < length (pd_payments p)" "x = pd_payments p ! i" using x by (auto simp: in_set_conv_nth)
    let ?new = "take (length (pd_payments p)) (pd_payments p')"
    have "entry_evolves x (?new ! i)" "i < length ?new"
      using assms(2) i list_all2_lengthD list_all2_nthD unfolding ledger_extends_def by fastforce+
    then show ?thesis using entry_evolves_sel(1,5) nth_mem [of i ?new] in_set_takeD by metis
  qed
  then show ?thesis using assms(1) unfolding settled_ok_def by metis
qed

lemma on_payments_InrE:
  assumes "on_payments m db = Inr (x, db')"
  obtains p where "m (td_pay db) = Inr (x, p)" "db' = db\<lparr>td_pay := p\<rparr>"
  using assms by (auto simp: on_payments_def split: sum.splits prod.splits)

lemma settle_InrE:
  assumes "settle env pid m bid actor may db = Inr (x, db')"
  obtains p evs pdb d where "pay_record ((te_pay env)\<lparr>pe_fresh := pid\<rparr>) (settle_input env m bid actor may) (td_pay db) = Inr ((p, evs), pdb)"
    "resolve_match (mv_id m) MatchMatched (Some bid) (Some (p_id p)) (db\<lparr>td_pay := pdb\<rparr>) = Inr ((), d)"
    "fin_record env ''treasury.credit_matched'' (mv_id m) (mv_branch m) d = Inr ((), db')"
    "x = resolved MatchMatched (Some bid) (Some (p_id p)) m"
  using assms unfolding settle_def by (elim and_then_InrE on_payments_InrE) (auto elim!: and_then_InrE)

lemma settle_keeps:
  assumes "settle env pid m bid actor may db = Inr (x, db')" "treasury_ok (te_text env) db" "fits64 (mv_amount m)"
  shows "treasury_ok (te_text env) db'"
  using assms(1)
proof (cases rule: settle_InrE)
  case (1 p evs pdb d)
  have amt: "fits64 (ri_amount (settle_input env m bid actor may))" using assms(3) by (simp add: settle_input_def)
  have l: "ledger_ok (td_pay db)" using assms(2) by (simp add: treasury_ok_def)
  note k = pay_record_ok [OF l 1(1) amt]
  obtain t where "find_by_key ((te_pay env)\<lparr>pe_fresh := pid\<rparr>) (settle_key env m) pdb = Inr (p\<lparr>p_received := t\<rparr>, pdb)"
    using pay_record_found [OF l amt 1(1)] by (auto simp: settle_input_def)
  note q = find_by_key_Inr(2,3) [OF this]
  have "treasury_ok (te_text env) (db\<lparr>td_pay := pdb\<rparr>)"
    using assms(2) k settled_extends [of "te_text env" "td_moves db" "td_pay db" pdb] by (simp add: treasury_ok_def)
  then have "treasury_ok (te_text env) d"
    by (rule resolve_match_ok [OF 1(2)]) (use q in \<open>auto simp: settle_key_def intro!: bexI [of _ "p\<lparr>p_received := t\<rparr>"]\<close>)
  then show ?thesis using fin_record_keeps [OF 1(3)] by blast
qed

lemma movement_ok_fits: "movement_ok m \<Longrightarrow> fits64 (mv_amount m)"
  by (rule fits64_small) (auto simp: movement_ok_def money_in_range_def)

lemma stored_movement_ok: "m \<in> set (td_moves db) \<Longrightarrow> treasury_ok idtext db \<Longrightarrow> movement_ok m"
  by (simp add: treasury_ok_def moves_ok_def)

lemma match_by_hand_InrE:
  assumes "match_by_hand env i bid actor may db = Inr (x, db')"
  obtains m b where "m \<in> set (td_moves db)" "mv_id m = i" "mv_match m = MatchUnmatched" "movement_find env i db = Inr (m, db)"
    "booking_facts env bid db = Inr (b, db)" "b_currency b = mv_currency m" "b_branch b = mv_branch m"
    "settle env (te_ids env 0) m bid actor may db = Inr (x, db')"
proof -
  obtain m d b d' where "movement_find env i db = Inr (m, d)" "mv_match m = MatchUnmatched"
    "booking_facts env bid d = Inr (b, d')" "b_currency b = mv_currency m" "b_branch b = mv_branch m"
    "settle env (te_ids env 0) m bid actor may d' = Inr (x, db')"
    using assms unfolding match_by_hand_def by (elim and_then_InrE) (auto elim!: and_then_InrE split: if_splits)
  then show thesis using that movement_find_Inr [of env i db m d] booking_facts_Inr [of env bid d b d'] by simp
qed

lemma match_by_hand_keeps: "keeps (te_text env) (match_by_hand env i bid actor may)"
  unfolding keeps_def
proof (intro allI impI)
  fix db x db'
  assume run: "match_by_hand env i bid actor may db = Inr (x, db')" and ok: "treasury_ok (te_text env) db"
  from run show "treasury_ok (te_text env) db'"
    by (cases rule: match_by_hand_InrE) (use settle_keeps ok stored_movement_ok movement_ok_fits in blast)
qed

lemma ignore_credit_keeps: "keeps idtext (ignore_credit env i)"
  unfolding keeps_def
proof (intro allI impI)
  fix db x db'
  assume run: "ignore_credit env i db = Inr (x, db')" and ok: "treasury_ok idtext db"
  obtain m :: movement and d where "resolve_match (mv_id m) MatchIgnored None None db = Inr ((), d)"
    "fin_record env ''treasury.credit_ignored'' (mv_id m) (mv_branch m) d = Inr (x, db')"
    using run unfolding ignore_credit_def
    by (elim and_then_InrE) (auto dest!: movement_find_Inr(1) split: if_splits)
  then show "treasury_ok idtext db'" using resolve_match_ok [OF _ ok, of "mv_id m" MatchIgnored] fin_record_keeps by blast
qed

lemma bookings_by_refs_Inr: "bookings_by_refs env br refs pnrs db = Inr (c, db') \<Longrightarrow> db' = db"
  by (auto simp: bookings_by_refs_def elim!: and_then_InrE lift_result_InrE)

lemma auto_match_keeps:
  assumes "auto_match env pid br m actor may db = Inr (x, db')" "treasury_ok (te_text env) db" "movement_ok m"
  shows "treasury_ok (te_text env) db'"
proof -
  obtain refs pnrs where e: "extract_refs (mv_reference m @ '' '' @ mv_party m) = (refs, pnrs)" by (metis prod.exhaust)
  show ?thesis
  proof (cases "refs = [] \<and> pnrs = []")
    case False
    then obtain cands d where c: "bookings_by_refs env br refs pnrs db = Inr (cands, d)"
      and r: "(case match_credit (mv_amount m) (mv_currency m) cands of None \<Rightarrow> ret False
        | Some hit \<Rightarrow> and_then (settle env pid m (du_booking hit) actor may) (\<lambda>_. ret True)) d = Inr (x, db')"
      using assms(1) unfolding auto_match_def e Let_def case_prod_conv by (auto elim!: and_then_InrE)
    then have "d = db" using bookings_by_refs_Inr by blast
    then show ?thesis
      using r assms(2) settle_keeps [OF _ assms(2) movement_ok_fits [OF assms(3)]]
      by (cases "match_credit (mv_amount m) (mv_currency m) cands") (auto elim!: and_then_InrE)
  qed (use assms(1,2) e in \<open>simp add: auto_match_def\<close>)
qed

lemma row_movement_open: "movement_validate (row_movement env actor i r day) = Inr m \<Longrightarrow> mv_match m \<noteq> MatchMatched"
  using movement_validate_match [of "row_movement env actor i r day" m] by (simp add: row_movement_def)

text \<open>One row: it is stored once, or it was stored before and nothing changes.\<close>

lemma import_row_InrE:
  assumes run: "import_row env actor i r (a, res, cr) db = Inr (s, db')" and ok: "treasury_ok idtext db" and st: "stored a db"
  obtains (stored) day m a' m' where "movement_validate (row_movement env actor i r day) = Inr m" "post env a m db = Inr ((a', m'), db')"
      "s = (a', res\<lparr>fs_imported := Suc (fs_imported res)\<rparr>, if mv_match m' = MatchUnmatched then cr @ [m'] else cr)"
  | (again) day m where "movement_validate (row_movement env actor i r day) = Inr m" "post env a m db = Inl err_duplicate"
      "s = (a, res\<lparr>fs_duplicates := Suc (fs_duplicates res)\<rparr>, cr)" "db' = db"
proof -
  obtain day m where m: "movement_validate (row_movement env actor i r day) = Inr m" and k: "store_row env (a, res, cr) m db = Inr (s, db')"
    using run unfolding import_row_def by (auto elim!: and_then_InrE lift_result_InrE simp: row_result_def split: sum.splits)
  have mo: "movement_ok m" by (rule movement_validate_ok [OF m])
  have b: "\<bar>ac_balance a\<bar> \<le> max_money" using stored_ok [OF st ok] unfolding account_ok_def by blast
  then have f: "fits64 (ac_balance a + signed_net m)" "fits64 (ac_balance a)"
    using signed_net_bound [OF mo] by (intro fits64_small; linarith)+
  have "sub64 (add64 (ac_balance a) (movement_net m)) (movement_net m) = ac_balance a"
    unfolding movement_net_exact [OF mo] add64_id [OF f(1)] using sub64_id [of "ac_balance a + signed_net m" "signed_net m"] f(2) by simp
  then have same: "a\<lparr>ac_balance := sub64 (add64 (ac_balance a) (movement_net m)) (movement_net m)\<rparr> = a" by simp
  show thesis
  proof (cases "post env a m db")
    case (Inl e)
    then show ?thesis using k again [OF m] same by (auto simp: store_row_def split: if_splits)
  next
    case (Inr y)
    then obtain a' m' d where "y = ((a', m'), d)" by (metis prod.exhaust)
    then show ?thesis using k stored [OF m] Inr by (auto simp: store_row_def)
  qed
qed

lemma import_row_ok:
  assumes run: "import_row env actor i r (a, res, cr) db = Inr ((a', res', cr'), db')" and ok: "treasury_ok idtext db" and st: "stored a db"
    and cr: "\<forall>m \<in> set cr. movement_ok m"
  shows "treasury_ok idtext db' \<and> stored a' db' \<and> ac_id a' = ac_id a \<and> (\<forall>m \<in> set cr'. movement_ok m)"
  using run ok st
proof (cases rule: import_row_InrE)
  case (stored day m x m')
  note p = post_ok [OF stored(2) ok st row_movement_open [OF stored(1)]]
  show ?thesis using stored(3) p(1-4) cr by auto
next
  case (again day m)
  then show ?thesis using ok st cr by simp
qed

lemma import_rows_ok:
  assumes "import_rows env actor i rows (a, res, cr) db = Inr ((a', res', cr'), db')" "treasury_ok idtext db" "stored a db"
    "\<forall>m \<in> set cr. movement_ok m"
  shows "treasury_ok idtext db' \<and> stored a' db' \<and> ac_id a' = ac_id a \<and> (\<forall>m \<in> set cr'. movement_ok m)"
  using assms
proof (induction rows arbitrary: i a res cr db)
  case (Cons r rs)
  obtain a1 res1 cr1 d where r: "import_row env actor i r (a, res, cr) db = Inr ((a1, res1, cr1), d)"
    and rs: "import_rows env actor (Suc i) rs (a1, res1, cr1) d = Inr ((a', res', cr'), db')"
    using Cons.prems(1) by (auto elim!: and_then_InrE)
  show ?case using import_row_ok [OF r Cons.prems(2-4)] Cons.IH [OF rs] by simp
qed simp

lemma import_tx_InrE:
  assumes "import_tx env i actor rows db = Inr ((res, cr), db')"
  obtains a a' d where "account_find env i db = Inr (a, db)" "import_rows env actor 0 rows (a, no_feed, []) db = Inr ((a', res, cr), d)"
    "fin_record env ''treasury.feed_imported'' (ac_id a') (ac_branch a') d = Inr ((), db')"
  using assms unfolding import_tx_def
  by (elim and_then_InrE) (auto dest: account_find_Inr(1) elim!: and_then_InrE)

lemma settle_credits_ok:
  assumes "settle_credits env i br actor may ms res db = (res', db')" "treasury_ok (te_text env) db" "\<forall>m \<in> set ms. movement_ok m"
  shows "treasury_ok (te_text env) db'"
  using assms
proof (induction ms arbitrary: i res db)
  case (Cons m ms)
  obtain r d where w: "within_transaction (auto_match env (te_ids env i) br m actor may) db = (r, d)" by (metis prod.exhaust)
  have "treasury_ok (te_text env) d"
    by (rule transaction_keeps [where P = "treasury_ok (te_text env)", OF w Cons.prems(2)])
       (use auto_match_keeps Cons.prems in auto)
  then show ?case using Cons.IH Cons.prems(1,3) by (simp add: w)
qed simp

lemma import_feed_cases:
  assumes "import_feed env i actor may rows db = (r, db')"
  obtains (refused) e where "r = Inl e" "db' = db"
  | (imported) a res cr d res' where "check_feed env i rows db = Inr (a, db)" "import_tx env i actor rows db = Inr ((res, cr), d)"
      "settle_credits env (length rows) (ac_branch a) actor may cr res d = (res', db')" "r = Inr res'"
proof (cases "check_feed env i rows db")
  case (Inl e)
  then show thesis using assms by (intro refused [of e]) (simp_all add: import_feed_def)
next
  case (Inr y)
  obtain a d0 where y0: "y = (a, d0)" by (cases y)
  have "d0 = db" using Inr unfolding check_feed_def y0
    by (elim and_then_InrE) (auto dest!: account_find_Inr(1) elim!: and_then_InrE split: if_splits option.splits)
  then have y: "y = (a, db)" by (simp add: y0)
  show thesis
  proof (cases "import_tx env i actor rows db")
    case (Inl e)
    then show thesis using assms Inr by (intro refused [of e]) (simp_all add: import_feed_def within_transaction_def y)
  next
    case rc: (Inr rc)
    obtain res cr d where "rc = ((res, cr), d)" by (metis prod.exhaust)
    then show thesis using assms Inr rc imported by (auto simp: import_feed_def within_transaction_def y split: prod.splits)
  qed
qed

lemma import_tx_ok:
  assumes "import_tx env i actor rows db = Inr ((res, cr), d)" "treasury_ok idtext db"
  shows "treasury_ok idtext d" "\<forall>m \<in> set cr. movement_ok m"
proof -
  obtain x x' d1 where x: "account_find env i db = Inr (x, db)" "import_rows env actor 0 rows (x, no_feed, []) db = Inr ((x', res, cr), d1)"
    "fin_record env ''treasury.feed_imported'' (ac_id x') (ac_branch x') d1 = Inr ((), d)"
    by (rule import_tx_InrE [OF assms(1)])
  show "treasury_ok idtext d" "\<forall>m \<in> set cr. movement_ok m"
    using import_rows_ok [OF x(2) assms(2) account_find_Inr(4) [OF x(1)]] fin_record_keeps [OF x(3)] by simp_all
qed

lemma import_feed_ok:
  assumes "import_feed env i actor may rows db = (r, db')" "treasury_ok (te_text env) db"
  shows "treasury_ok (te_text env) db'"
  using assms(1)
proof (cases rule: import_feed_cases)
  case (imported a res cr d res')
  show ?thesis by (rule settle_credits_ok [OF imported(3) import_tx_ok [OF imported(2) assms(2)]])
qed (use assms(2) in simp)

section \<open>The movements are a ledger\<close>

text \<open>
  What the trigger of the table enforces: a movement stays as it was written, except that a waiting credit is resolved
  once. The collection \<open>moves_kept\<close> shows it of an operation from its parts.
\<close>

definition movement_evolves :: "movement \<Rightarrow> movement \<Rightarrow> bool" where
  "movement_evolves m n \<longleftrightarrow>
     n = m \<or> mv_match m = MatchUnmatched \<and> (\<exists>st bid pid. st \<noteq> MatchUnmatched \<and> n = resolved st bid pid m)"

definition moves_extend :: "movement list \<Rightarrow> movement list \<Rightarrow> bool" where
  "moves_extend ms ns \<longleftrightarrow> list_all2 movement_evolves ms (take (length ms) ns)"

lemma movement_evolves_trans: "movement_evolves a b \<Longrightarrow> movement_evolves b c \<Longrightarrow> movement_evolves a c"
  unfolding movement_evolves_def by (elim disjE conjE exE) (auto simp del: not_None_eq)

lemma moves_extend_refl [simp, intro]: "moves_extend ms ms" "moves_extend ms (ms @ ns)"
  by (simp_all add: moves_extend_def movement_evolves_def list_all2_refl)

lemma moves_extend_trans: "moves_extend a b \<Longrightarrow> moves_extend b c \<Longrightarrow> moves_extend a c"
  unfolding moves_extend_def by (rule list_all2_take_trans [OF movement_evolves_trans])

definition extends :: "(treasury_db, 'a) uow \<Rightarrow> bool" where
  "extends m \<longleftrightarrow> (\<forall>db x db'. m db = Inr (x, db') \<longrightarrow> moves_extend (td_moves db) (td_moves db'))"

named_theorems moves_kept

lemma extends_basic [moves_kept]:
  "extends (ret x)" "extends (fail e)" "extends (reading f)" "extends (ensure p e)" "extends (lift_result r)"
  "extends (fin_record env act i b)" "extends (account_find env i)" "extends (movement_find env i)" "extends (booking_facts env i)"
  "extends (bookings_by_refs env b rs ps)" "extends (insert_account env a)" "extends (update_account a)" "extends (set_balance env i v)"
  by (auto simp: extends_def ensure_def lift_result_def fin_record_def insert_account_def update_account_def set_balance_def and_then_def
      dest!: account_find_Inr(1) movement_find_Inr(1) booking_facts_Inr bookings_by_refs_Inr split: option.splits sum.splits if_splits)

lemma extends_and_then [moves_kept]: "extends m \<Longrightarrow> (\<And>x. extends (f x)) \<Longrightarrow> extends (and_then m f)"
  unfolding extends_def by (blast elim: and_then_InrE intro: moves_extend_trans)

lemma extends_split [moves_kept]:
  "(p \<Longrightarrow> extends m) \<Longrightarrow> (\<not> p \<Longrightarrow> extends n) \<Longrightarrow> extends (if p then m else n)"
  "(\<And>x y. q = (x, y) \<Longrightarrow> extends (f x y)) \<Longrightarrow> extends (case q of (x, y) \<Rightarrow> f x y)"
  "extends n \<Longrightarrow> (\<And>x. extends (g x)) \<Longrightarrow> extends (case z of None \<Rightarrow> n | Some x \<Rightarrow> g x)"
  by (auto split: prod.split option.split)

lemma extends_insert [moves_kept]: "extends (insert_movement m)"
  by (auto simp: extends_def insert_movement_def and_then_def split: if_splits)

lemma extends_payments [moves_kept]: "extends (on_payments m)"
  by (auto simp: extends_def elim!: on_payments_InrE)

lemma extends_resolve [moves_kept]:
  assumes "st \<noteq> MatchUnmatched"
  shows "extends (resolve_match i st bid pid)"
  unfolding extends_def
proof (intro allI impI)
  fix db x db' assume run: "resolve_match i st bid pid db = Inr (x, db')"
  show "moves_extend (td_moves db) (td_moves db')"
    unfolding resolve_match_Inr(2) [OF run] using assms
    by (auto simp: moves_extend_def list_all2_map2 movement_evolves_def intro!: list_all2_refl)
qed

lemma extends_post [moves_kept]: "extends (post env a m)"
  unfolding post_def by (intro moves_kept)

lemma extends_settle [moves_kept]: "extends (settle env pid m bid actor may)"
  unfolding settle_def by (intro moves_kept) simp

lemma extends_auto_match [moves_kept]: "extends (auto_match env pid br m actor may)"
  unfolding auto_match_def Let_def by (intro moves_kept)

lemma extends_store_row [moves_kept]: "extends (store_row env s m)"
  using extends_post by (cases s) (fastforce simp: extends_def store_row_def split: sum.splits if_splits)

lemma extends_import_row [moves_kept]: "extends (import_row env actor i r s)"
  unfolding import_row_def by (intro moves_kept)

lemma extends_import_rows [moves_kept]: "extends (import_rows env actor i rows s)"
  by (induction rows arbitrary: i s) (auto intro!: moves_kept)

lemma extends_post_checked [moves_kept]: "extends (post_checked env a m)"
  unfolding post_checked_def [abs_def] check_booking_branch_def by (intro moves_kept)

lemma extends_operations:
  "extends (create_account env br actor ci)" "extends (edit_account env i ci)" "extends (post_manual env actor mi)"
  "extends (transfer env actor ti)" "extends (match_by_hand env i bid actor may)" "extends (ignore_credit env i)"
  "extends (import_tx env i actor rows)"
  unfolding create_account_def edit_account_def post_manual_def transfer_def move_between_def
    match_by_hand_def ignore_credit_def import_tx_def Let_def
  by (intro moves_kept; simp)+

lemma transaction_extends:
  assumes "extends m" "within_transaction m db = (r, db')"
  shows "moves_extend (td_moves db) (td_moves db')"
  by (rule transaction_keeps [where P = "\<lambda>d. moves_extend (td_moves db) (td_moves d)", OF assms(2)]) (use assms(1) in \<open>auto simp: extends_def\<close>)

lemma settle_credits_extends:
  "settle_credits env i br actor may ms res db = (res', db') \<Longrightarrow> moves_extend (td_moves db) (td_moves db')"
proof (induction ms arbitrary: i res db)
  case (Cons m ms)
  obtain r d where w: "within_transaction (auto_match env (te_ids env i) br m actor may) db = (r, d)" by (metis prod.exhaust)
  obtain i' res1 where "settle_credits env i' br actor may ms res1 d = (res', db')" using Cons.prems w by simp
  then show ?case using Cons.IH transaction_extends [OF extends_auto_match w] moves_extend_trans by blast
qed simp

lemma import_feed_extends:
  assumes "import_feed env i actor may rows db = (r, db')"
  shows "moves_extend (td_moves db) (td_moves db')"
  using assms
proof (cases rule: import_feed_cases)
  case (imported a res cr d res')
  have "moves_extend (td_moves db) (td_moves d)" using extends_operations(7) imported(2) unfolding extends_def by blast
  then show ?thesis using settle_credits_extends [OF imported(3)] moves_extend_trans by blast
qed simp

section \<open>Runs\<close>

text \<open>
  The operations of the treasury, committed or rolled back, between any operations of the payment and booking
  services. Where a key is made from an identifier, its text form is that of the program.
\<close>

inductive treasury_step :: "(uuid \<Rightarrow> string) \<Rightarrow> treasury_db \<Rightarrow> treasury_db \<Rightarrow> bool" for idtext where
  created: "within_transaction (create_account env br actor ci) db = (r, db') \<Longrightarrow> treasury_step idtext db db'"
| edited: "within_transaction (edit_account env i ci) db = (r, db') \<Longrightarrow> treasury_step idtext db db'"
| posted: "within_transaction (post_manual env actor mi) db = (p, db') \<Longrightarrow> treasury_step idtext db db'"
| transferred: "within_transaction (transfer env actor ti) db = (t, db') \<Longrightarrow> treasury_step idtext db db'"
| settled: "te_text env = idtext \<Longrightarrow> within_transaction (match_by_hand env i bid actor may) db = (m, db') \<Longrightarrow> treasury_step idtext db db'"
| ignored: "within_transaction (ignore_credit env i) db = (u, db') \<Longrightarrow> treasury_step idtext db db'"
| imported: "te_text env = idtext \<Longrightarrow> import_feed env i actor may rows db = (f, db') \<Longrightarrow> treasury_step idtext db db'"
| elsewhere: "money_step (td_pay db) p \<Longrightarrow> treasury_step idtext db (db\<lparr>td_pay := p\<rparr>)"

lemma treasury_step_ok: "treasury_step idtext db db' \<Longrightarrow> treasury_ok idtext db \<Longrightarrow> treasury_ok idtext db'"
proof (induction rule: treasury_step.induct)
  case (settled env i bid actor may db m db')
  show ?case by (rule keeps_transaction [OF match_by_hand_keeps [of env, unfolded settled(1)] settled(2,3)])
next
  case (imported env i actor may rows db f db')
  then show ?case using import_feed_ok by blast
next
  case (elsewhere db p)
  then have "ledger_ok p" "ledger_extends (td_pay db) p" using money_step_ok by (auto simp: treasury_ok_def)
  then show ?case using elsewhere(2) settled_extends by (auto simp: treasury_ok_def)
qed (rule keeps_transaction, rule create_account_keeps edit_account_keeps post_manual_keeps transfer_keeps ignore_credit_keeps, assumption+)+

lemma treasury_step_extends: "treasury_step idtext db db' \<Longrightarrow> moves_extend (td_moves db) (td_moves db')"
  by (induction rule: treasury_step.induct) (auto intro: transaction_extends [OF extends_operations(1)] transaction_extends [OF extends_operations(2)]
    transaction_extends [OF extends_operations(3)] transaction_extends [OF extends_operations(4)] transaction_extends [OF extends_operations(5)]
    transaction_extends [OF extends_operations(6)] import_feed_extends)

definition empty_treasury :: "treasury_db \<Rightarrow> bool" where
  "empty_treasury db \<longleftrightarrow> td_accounts db = [] \<and> td_moves db = [] \<and> empty_ledger (td_pay db)"

interpretation books: invariant_machine empty_treasury "treasury_step idtext" "treasury_ok idtext" for idtext
proof
  show "treasury_ok idtext s" if "empty_treasury s" for s
    using that ledger.init_good [of "td_pay s"]
    by (simp add: empty_treasury_def treasury_ok_def accounts_ok_def moves_ok_def settled_ok_def running_ok_def externals_def)
  show "treasury_ok idtext t" if "treasury_ok idtext s" "treasury_step idtext s t" for s t using treasury_step_ok [OF that(2,1)] .
qed

section \<open>A sample treasury\<close>

definition ex_tenv :: "nat \<Rightarrow> treasury_env" where
  "ex_tenv n = \<lparr>te_pay = ex_pay_env 0, te_ids = (\<lambda>k. n + k), te_text = show_nat, te_audit = Some (\<lambda>_. None), te_customer = (\<lambda>_. [])\<rparr>"

definition ex_pay_store :: payment_db where
  "ex_pay_store = ex_pay_db\<lparr>pd_core := ex_db\<lparr>db_bookings :=
     [(ex_booking 11)\<lparr>b_status := StatusConfirmed, b_collected := 0, b_balance := 1000, b_currency := ''SAR'', b_ref_no := 42\<rparr>]\<rparr>\<rparr>"

definition ex_treasury0 :: treasury_db where
  "ex_treasury0 = \<lparr>td_accounts = [], td_moves = [], td_pay = ex_pay_store, td_log = []\<rparr>"

definition ex_bank :: account_input where
  "ex_bank = \<lparr>ai_kind = ''bank'', ai_name = ''Main'', ai_cur = ''SAR'', ai_bank = [], ai_iban = [], ai_commission = 0,
     ai_threshold = 0, ai_active = None, ai_opening = 500\<rparr>"

definition ex_row :: "string \<Rightarrow> string \<Rightarrow> feed_row" where
  "ex_row ext desc = \<lparr>fr_external = ext, fr_on = [], fr_amount = 300, fr_direction = ''in'', fr_description = desc, fr_party = ''Ali''\<rparr>"

definition ex_treasury1 :: treasury_db where
  "ex_treasury1 = snd (within_transaction (create_account (ex_tenv 10) 7 5 ex_bank) ex_treasury0)"

definition ex_feed :: "feed_row list" where
  "ex_feed = [ex_row ''t1'' ''wire BK-000042'', ex_row ''t2'' ''wire'']"

definition ex_treasury2 :: treasury_db where
  "ex_treasury2 = snd (import_feed (ex_tenv 20) 10 5 True ex_feed ex_treasury1)"

definition ex_treasury3 :: treasury_db where
  "ex_treasury3 = snd (within_transaction (match_by_hand (ex_tenv 30) 21 11 5 True) ex_treasury2)"

section \<open>A sample run\<close>

lemma ex_treasury3_step: "treasury_step show_nat ex_treasury2 ex_treasury3"
  unfolding ex_treasury3_def
  by (rule treasury_step.settled [where env = "ex_tenv 30"]) (simp add: ex_tenv_def, rule prod.collapse [symmetric])

lemma ex_run_treasury:
  "empty_treasury ex_treasury0" "treasury_step show_nat ex_treasury0 ex_treasury1" "treasury_step show_nat ex_treasury1 ex_treasury2"
  "(treasury_step show_nat)\<^sup>*\<^sup>* ex_treasury0 ex_treasury2" "(treasury_step show_nat)\<^sup>*\<^sup>* ex_treasury0 ex_treasury3"
proof -
  show "empty_treasury ex_treasury0"
    by (simp add: empty_treasury_def empty_ledger_def ex_treasury0_def ex_pay_store_def ex_pay_db_def)
  show s: "treasury_step show_nat ex_treasury0 ex_treasury1"
    unfolding ex_treasury1_def by (rule treasury_step.created) (rule prod.collapse [symmetric])
  show t: "treasury_step show_nat ex_treasury1 ex_treasury2"
    unfolding ex_treasury2_def by (rule treasury_step.imported [where env = "ex_tenv 20"]) (simp add: ex_tenv_def, rule prod.collapse [symmetric])
  show "(treasury_step show_nat)\<^sup>*\<^sup>* ex_treasury0 ex_treasury2" using s t by (meson rtranclp.intros)
  then show "(treasury_step show_nat)\<^sup>*\<^sup>* ex_treasury0 ex_treasury3" using ex_treasury3_step by (rule rtranclp.rtrancl_into_rtrancl)
qed

definition ex_outline :: "treasury_db \<Rightarrow> (int list \<times> int list) \<times> (match_state list \<times> uuid list) \<times> bool" where
  "ex_outline db = ((map ac_balance (td_accounts db), map mv_balance_after (td_moves db)),
     (map mv_match (td_moves db), map mv_id (td_moves db)),
     ''treasury:'' @ show_nat 21 \<in> set (map p_key (pd_payments (td_pay db))))"

lemma ex_import_run:
  "map_prod (map_sum id (\<lambda>_. ())) ex_outline (import_feed (ex_tenv 20) 10 5 True ex_feed ex_treasury1)
     = (Inr (), ([1100], [500, 800, 1100]), ([MatchNA, MatchMatched, MatchUnmatched], [11, 20, 21]), False)"
  by code_simp

lemma ex_match_run:
  "map_prod (map_sum id (\<lambda>_. ())) ex_outline (within_transaction (match_by_hand (ex_tenv 30) 21 11 5 True) ex_treasury2)
     = (Inr (), ([1100], [500, 800, 1100]), ([MatchNA, MatchMatched, MatchMatched], [11, 20, 21]), True)"
  by code_simp

lemma ex_outline2: "ex_outline ex_treasury2 = (([1100], [500, 800, 1100]), ([MatchNA, MatchMatched, MatchUnmatched], [11, 20, 21]), False)"
  using arg_cong [OF ex_import_run, of snd] by (simp add: ex_treasury2_def)

lemma ex_outline3: "ex_outline ex_treasury3 = (([1100], [500, 800, 1100]), ([MatchNA, MatchMatched, MatchMatched], [11, 20, 21]), True)"
  using arg_cong [OF ex_match_run, of snd] by (simp add: ex_treasury3_def)

lemma inj_show_nat: "inj show_nat"
  by (rule inj_on_inverseI [of _ "\<lambda>s. nat (dec_val s)"]) simp

section \<open>Properties\<close>

text \<open>
  C6. The treasury reconciles. From an empty treasury, after any run of its operations and of the payment and booking
  services, the balance of every account is exactly the sum of its movements (less fees on the way in, plus fees on the way
  out), a till or wallet is never overdrawn, no balance leaves the range, every movement carries the running balance of its
  account, and no two movements of an account carry the same bank identifier.
\<close>

theorem treasury_reconciles:
  assumes "empty_treasury db0" "(treasury_step idtext)\<^sup>*\<^sup>* db0 db"
  shows "(\<forall>a \<in> set (td_accounts db).
      ac_balance a = (\<Sum>m \<leftarrow> filter (\<lambda>m. mv_account m = ac_id a) (td_moves db).
        if mv_direction m = ''in'' then mv_amount m - mv_fee m else - (mv_amount m + mv_fee m))
      \<and> \<bar>ac_balance a\<bar> \<le> max_money \<and> (ac_kind a = AccountCash \<or> ac_kind a = AccountWallet \<longrightarrow> 0 \<le> ac_balance a))
    \<and> running_ok (td_moves db) \<and> distinct (externals (td_moves db))"
  using books.reachable_good [OF assms]
  by (auto simp: treasury_ok_def accounts_ok_def moves_ok_def account_ok_def net_of_def signed_net_def [abs_def])

theorem treasury_reconciles_witness:
  "map ac_balance (td_accounts ex_treasury2) = [1100] \<and> map mv_balance_after (td_moves ex_treasury2) = [500, 800, 1100]
    \<and> running_ok (td_moves ex_treasury2)"
  using treasury_reconciles [OF ex_run_treasury(1,4)] ex_outline2 by (simp add: ex_outline_def)

text \<open>
  C7. Movements are append-only: over any run they keep their place and every column, except that a bank credit that waits
  for a match may be resolved, once.
\<close>

theorem treasury_append_only:
  assumes "(treasury_step idtext)\<^sup>*\<^sup>* db db'" "i < length (td_moves db)"
  shows "i < length (td_moves db')
    \<and> (td_moves db' ! i = td_moves db ! i
       \<or> mv_match (td_moves db ! i) = MatchUnmatched
         \<and> (\<exists>st bid pid. st \<noteq> MatchUnmatched \<and> td_moves db' ! i = resolved st bid pid (td_moves db ! i)))"
proof -
  have "moves_extend (td_moves db) (td_moves db')"
    using assms(1) by (induction rule: rtranclp_induct) (auto intro: moves_extend_trans treasury_step_extends)
  then have "list_all2 movement_evolves (td_moves db) (take (length (td_moves db)) (td_moves db'))" by (simp add: moves_extend_def)
  from list_all2_lengthD [OF this] list_all2_nthD [OF this assms(2)] assms(2)
  show ?thesis by (auto simp: movement_evolves_def)
qed

theorem treasury_append_only_witness: "td_moves ex_treasury2 ! 0 = td_moves ex_treasury1 ! 0"
proof -
  have "length (td_moves ex_treasury1) = 1" "mv_match (td_moves ex_treasury1 ! 0) = MatchNA" by code_simp+
  then show ?thesis
    using treasury_append_only [OF r_into_rtranclp [of "treasury_step show_nat", OF ex_run_treasury(3)], of 0] by simp
qed

lemma moves_unique: "treasury_ok idtext db \<Longrightarrow> m \<in> set (td_moves db) \<Longrightarrow> n \<in> set (td_moves db) \<Longrightarrow> mv_id m = mv_id n \<Longrightarrow> m = n"
  by (auto simp: treasury_ok_def moves_ok_def distinct_map dest: inj_onD)

text \<open>
  C8. No payment settles two credits: the payments of the matched movements of a store the program can reach exist and
  are different ones, when identifiers have different text forms.
\<close>

theorem credits_share_no_payment:
  assumes "empty_treasury db0" "(treasury_step idtext)\<^sup>*\<^sup>* db0 db" "inj idtext"
    "m \<in> set (td_moves db)" "n \<in> set (td_moves db)" "mv_match m = MatchMatched" "mv_match n = MatchMatched" "m \<noteq> n"
  shows "mv_payment m \<noteq> mv_payment n \<and> (\<exists>p \<in> set (pd_payments (td_pay db)). mv_payment m = Some (p_id p))"
proof -
  have ok: "treasury_ok idtext db" by (rule books.reachable_good [OF assms(1,2)])
  obtain p q where p: "p \<in> set (pd_payments (td_pay db))" "mv_payment m = Some (p_id p)" "p_key p = ''treasury:'' @ idtext (mv_id m)"
    and q: "q \<in> set (pd_payments (td_pay db))" "mv_payment n = Some (p_id q)" "p_key q = ''treasury:'' @ idtext (mv_id n)"
    using ok assms(4-7) unfolding treasury_ok_def settled_ok_def by blast
  have "p = q" if "p_id p = p_id q"
    using that p(1) q(1) ok by (auto simp: treasury_ok_def ledger_ok_def distinct_map dest: inj_onD)
  then have "mv_id m = mv_id n" if "p_id p = p_id q" using that p(3) q(3) assms(3) by (auto dest: injD)
  then show ?thesis using p q moves_unique [OF ok assms(4,5)] assms(8) by auto
qed


theorem credits_share_no_payment_witness:
  "map mv_match (td_moves ex_treasury3) = [MatchNA, MatchMatched, MatchMatched]
    \<and> mv_payment (td_moves ex_treasury3 ! 1) \<noteq> mv_payment (td_moves ex_treasury3 ! 2)"
proof -
  have st: "map mv_match (td_moves ex_treasury3) = [MatchNA, MatchMatched, MatchMatched]"
    and ids: "map mv_id (td_moves ex_treasury3) = [11, 20, 21]" using ex_outline3 by (simp_all add: ex_outline_def)
  have len: "length (td_moves ex_treasury3) = 3" using arg_cong [OF ids, of length] by simp
  let ?m = "td_moves ex_treasury3 ! 1" and ?n = "td_moves ex_treasury3 ! 2"
  have "mv_match ?m = MatchMatched" "mv_match ?n = MatchMatched" and ne: "mv_id ?m \<noteq> mv_id ?n"
    using len arg_cong [OF st, of "\<lambda>xs. xs ! 1"] arg_cong [OF st, of "\<lambda>xs. xs ! 2"]
      arg_cong [OF ids, of "\<lambda>xs. xs ! 1"] arg_cong [OF ids, of "\<lambda>xs. xs ! 2"] by simp_all
  moreover from ne have "?m \<noteq> ?n" by metis
  moreover have "?m \<in> set (td_moves ex_treasury3)" "?n \<in> set (td_moves ex_treasury3)" using len by simp_all
  ultimately show ?thesis
    using credits_share_no_payment [OF ex_run_treasury(1,5) inj_show_nat, of ?m ?n] st by simp
qed


section \<open>Importing again\<close>

definition row_key :: "uuid \<Rightarrow> feed_row \<Rightarrow> uuid \<times> string" where
  "row_key i r = (i, trim_space (fr_external r))"

lemma externals_extend: "moves_extend ms ns \<Longrightarrow> set (externals ms) \<subseteq> set (externals ns)"
proof
  fix k assume ext: "moves_extend ms ns" and "k \<in> set (externals ms)"
  then obtain i where i: "i < length ms" "mv_external (ms ! i) \<noteq> []" "k = (mv_account (ms ! i), mv_external (ms ! i))"
    by (auto simp: externals_def in_set_conv_nth)
  have "movement_evolves (ms ! i) (take (length ms) ns ! i)" "length (take (length ms) ns) = length ms"
    using ext i(1) list_all2_nthD list_all2_lengthD unfolding moves_extend_def by fastforce+
  then have "ns ! i \<in> set ns" "movement_evolves (ms ! i) (ns ! i)" using i(1) by simp_all
  moreover from this(2) have "mv_account (ns ! i) = mv_account (ms ! i)" "mv_external (ns ! i) = mv_external (ms ! i)"
    by (auto simp: movement_evolves_def resolved_def)
  ultimately show "k \<in> set (externals ns)" using i(2,3) by (auto simp: externals_def image_iff)
qed

lemma row_movement_external:
  "movement_validate (row_movement env actor i r day) = Inr m \<Longrightarrow> mv_external m = trim_space (fr_external r)"
  by (auto simp: movement_validate_def default_states_def clean_movement_def row_movement_def Let_def split: option.splits if_splits)

lemma movement_validate_external: "movement_validate m = Inr n \<Longrightarrow> mv_external n = trim_space (mv_external m)"
  by (auto simp: movement_validate_def default_states_def clean_movement_def Let_def split: option.splits if_splits)

lemma account_post_sel:
  "account_post a m = Inr (a', m') \<Longrightarrow> mv_external m' = mv_external m \<and> mv_account m' = ac_id a"
  by (auto simp: account_post_def Let_def split: if_splits)

lemma duplicate_only_from_insert:
  "movement_validate m \<noteq> Inl err_duplicate" "account_post a m \<noteq> Inl err_duplicate"
proof -
  have "is_err e ErrValidation" if "movement_validate m = Inl e" for e
    using that by (auto simp: movement_validate_def fields_err_def Let_def split: option.splits if_splits)
  then show "movement_validate m \<noteq> Inl err_duplicate" by (force simp: err_duplicate_def)
  show "account_post a m \<noteq> Inl err_duplicate"
    by (auto simp: account_post_def Let_def err_duplicate_def error_defs field_error_def with_details_def)
qed

lemma post_duplicate:
  assumes "post env a m db = Inl err_duplicate"
  shows "(ac_id a, trim_space (mv_external m)) \<in> set (externals (td_moves db))"
proof -
  obtain n where n: "movement_validate m = Inr n"
    using assms duplicate_only_from_insert(1) [of m] by (cases "movement_validate m") (auto simp: post_def and_then_def)
  obtain a' m' where p: "account_post a n = Inr (a', m')"
    using assms n duplicate_only_from_insert(2) [of a n] by (cases "account_post a n") (auto simp: post_def and_then_def)
  have "mv_external m' \<noteq> [] \<and> list_ex (\<lambda>x. mv_account x = mv_account m' \<and> mv_external x = mv_external m') (td_moves db)"
    using assms n p by (auto simp: post_def and_then_def insert_movement_def set_balance_def err_duplicate_def error_defs split: if_splits)
  then show ?thesis
    using account_post_sel [OF p] movement_validate_external [OF n] by (auto simp: externals_def list_ex_iff image_iff)
qed

lemma post_present:
  assumes "post env a m db = Inr ((a', m'), db')" "trim_space (mv_external m) \<noteq> []"
  shows "(ac_id a, trim_space (mv_external m)) \<notin> set (externals (td_moves db))"
    "(ac_id a, trim_space (mv_external m)) \<in> set (externals (td_moves db'))"
proof -
  obtain n where n: "movement_validate m = Inr n" "account_post a n = Inr (a', m')"
    and fresh: "mv_external m' = [] \<or> \<not> list_ex (\<lambda>x. mv_account x = mv_account m' \<and> mv_external x = mv_external m') (td_moves db)"
    and d: "td_moves db' = td_moves db @ [m']"
    by (rule post_Inr [OF assms(1)]) auto
  have m': "mv_account m' = ac_id a" "mv_external m' = trim_space (mv_external m)"
    using account_post_sel [OF n(2)] movement_validate_external [OF n(1)] by simp_all
  show "(ac_id a, trim_space (mv_external m)) \<notin> set (externals (td_moves db))"
    using fresh assms(2) m' by (auto simp: externals_def list_ex_iff)
  show "(ac_id a, trim_space (mv_external m)) \<in> set (externals (td_moves db'))"
    using assms(2) m' by (simp add: d) (simp add: externals_def)
qed

lemma import_row_key:
  assumes run: "import_row env actor i r (a, res, cr) db = Inr (s, db')" and ok: "treasury_ok idtext db" and st: "stored a db"
    and key: "trim_space (fr_external r) \<noteq> []"
  shows "row_key (ac_id a) r \<in> set (externals (td_moves db')) \<and>
    (row_key (ac_id a) r \<in> set (externals (td_moves db)) \<longrightarrow> s = (a, res\<lparr>fs_duplicates := Suc (fs_duplicates res)\<rparr>, cr) \<and> db' = db)"
  using run ok st
proof (cases rule: import_row_InrE)
  case (stored day m a' m')
  then show ?thesis using post_present [OF stored(2)] row_movement_external [OF stored(1)] key by (simp add: row_key_def)
next
  case (again day m)
  then show ?thesis using post_duplicate [OF again(2)] row_movement_external [OF again(1)] by (simp add: row_key_def)
qed

lemma import_rows_keys:
  assumes "import_rows env actor i rows (a, res, cr) db = Inr (s, db')" "treasury_ok idtext db" "stored a db"
    "\<forall>r \<in> set rows. trim_space (fr_external r) \<noteq> []" "\<forall>m \<in> set cr. movement_ok m"
  shows "row_key (ac_id a) ` set rows \<subseteq> set (externals (td_moves db'))"
  using assms
proof (induction rows arbitrary: i a res cr db)
  case (Cons r rs)
  obtain a1 res1 cr1 d where r: "import_row env actor i r (a, res, cr) db = Inr ((a1, res1, cr1), d)"
    and rs: "import_rows env actor (Suc i) rs (a1, res1, cr1) d = Inr (s, db')"
    using Cons.prems(1) by (auto elim!: and_then_InrE)
  note d = import_row_ok [OF r Cons.prems(2,3,5)]
  have "row_key (ac_id a) r \<in> set (externals (td_moves d))" using import_row_key [OF r Cons.prems(2,3)] Cons.prems(4) by simp
  moreover have "set (externals (td_moves d)) \<subseteq> set (externals (td_moves db'))"
    using extends_import_rows rs externals_extend unfolding extends_def by blast
  ultimately show ?case using Cons.IH [OF rs] d Cons.prems(4) by auto
qed simp

lemma import_rows_again:
  assumes "import_rows env actor i rows (a, res, cr) db = Inr (s, db')" "treasury_ok idtext db" "stored a db"
    "\<forall>r \<in> set rows. trim_space (fr_external r) \<noteq> []" "row_key (ac_id a) ` set rows \<subseteq> set (externals (td_moves db))"
  shows "db' = db \<and> s = (a, res\<lparr>fs_duplicates := fs_duplicates res + length rows\<rparr>, cr)"
  using assms
proof (induction rows arbitrary: i res)
  case (Cons r rs)
  obtain s1 d where r: "import_row env actor i r (a, res, cr) db = Inr (s1, d)" and rs: "import_rows env actor (Suc i) rs s1 d = Inr (s, db')"
    using Cons.prems(1) by (auto elim!: and_then_InrE)
  have "s1 = (a, res\<lparr>fs_duplicates := Suc (fs_duplicates res)\<rparr>, cr) \<and> d = db"
    using import_row_key [OF r Cons.prems(2,3)] Cons.prems(4,5) by simp
  then show ?case using Cons.IH [of "Suc i" "res\<lparr>fs_duplicates := Suc (fs_duplicates res)\<rparr>"] rs Cons.prems(2-5) by simp
qed simp

lemma import_tx_again:
  assumes "import_tx env i actor rows db = Inr ((res, cr), d)" "treasury_ok idtext db"
    "\<forall>r \<in> set rows. trim_space (fr_external r) \<noteq> []" "row_key i ` set rows \<subseteq> set (externals (td_moves db))"
  shows "td_accounts d = td_accounts db \<and> td_moves d = td_moves db \<and> td_pay d = td_pay db
    \<and> res = no_feed\<lparr>fs_duplicates := length rows\<rparr> \<and> cr = []"
  using assms(1)
proof (cases rule: import_tx_InrE)
  case (1 a a' d1)
  note a = account_find_Inr(3,4) [OF 1(1)]
  have "d1 = db \<and> (a', res, cr) = (a, no_feed\<lparr>fs_duplicates := fs_duplicates no_feed + length rows\<rparr>, [])"
    by (rule import_rows_again [OF 1(2) assms(2) a(2) assms(3)]) (use assms(4) a(1) in simp)
  then show ?thesis using fin_record_Inr [OF 1(3)] by (simp add: no_feed_def)
qed

text \<open>
  C10. A bank statement is booked once. When a statement was imported and every row has an identifier that is not blank,
  importing the same rows again into the account, by anyone and after any further operations, stores no movement, changes no
  balance and settles no credit: every row is counted as a duplicate.
\<close>

theorem feed_import_once:
  assumes "empty_treasury db0" "(treasury_step (te_text env))\<^sup>*\<^sup>* db0 db"
    "import_feed env i actor may rows db = (Inr res, db1)" "\<forall>r \<in> set rows. trim_space (fr_external r) \<noteq> []"
    "(treasury_step (te_text env))\<^sup>*\<^sup>* db1 db2" "import_feed env' i actor' may' rows db2 = (r', db3)"
  shows "td_accounts db3 = td_accounts db2 \<and> td_moves db3 = td_moves db2 \<and> td_pay db3 = td_pay db2
    \<and> (\<forall>res'. r' = Inr res' \<longrightarrow> res' = no_feed\<lparr>fs_duplicates := length rows\<rparr>)"
proof -
  have ok: "treasury_ok (te_text env) db" by (rule books.reachable_good [OF assms(1,2)])
  have ok2: "treasury_ok (te_text env) db2" using books.run_good [OF assms(5)] import_feed_ok [OF assms(3) ok] by blast
  have keys: "row_key i ` set rows \<subseteq> set (externals (td_moves db1))"
    using assms(3)
  proof (cases rule: import_feed_cases)
    case (imported b res1 cr d res2)
    obtain a a' d1 where x: "account_find env i db = Inr (a, db)" "import_rows env actor 0 rows (a, no_feed, []) db = Inr ((a', res1, cr), d1)"
      "fin_record env ''treasury.feed_imported'' (ac_id a') (ac_branch a') d1 = Inr ((), d)"
      by (rule import_tx_InrE [OF imported(2)])
    note a = account_find_Inr(3,4) [OF x(1)]
    have "row_key i ` set rows \<subseteq> set (externals (td_moves d))"
      using import_rows_keys [OF x(2) ok a(2) assms(4)] a(1) fin_record_Inr [OF x(3)] by simp
    then show ?thesis using externals_extend [OF settle_credits_extends [OF imported(3)]] by blast
  qed simp
  have "moves_extend (td_moves db1) (td_moves db2)"
    using assms(5) by (induction rule: rtranclp_induct) (auto intro: moves_extend_trans treasury_step_extends)
  then have keys2: "row_key i ` set rows \<subseteq> set (externals (td_moves db2))" using keys externals_extend by blast
  from assms(6) show ?thesis
  proof (cases rule: import_feed_cases)
    case (imported b res1 cr d res2)
    then show ?thesis using import_tx_again [OF imported(2) ok2 assms(4) keys2] by auto
  qed simp
qed

theorem feed_import_once_witness:
  "td_moves (snd (import_feed (ex_tenv 40) 10 6 False ex_feed ex_treasury3)) = td_moves ex_treasury3"
proof -
  have "map_sum id (\<lambda>_. ()) (fst (import_feed (ex_tenv 20) 10 5 True ex_feed ex_treasury1)) = Inr ()"
    using arg_cong [OF ex_import_run, of fst] by simp
  then obtain res where "fst (import_feed (ex_tenv 20) 10 5 True ex_feed ex_treasury1) = Inr res"
    by (cases "fst (import_feed (ex_tenv 20) 10 5 True ex_feed ex_treasury1)") auto
  then have run: "import_feed (ex_tenv 20) 10 5 True ex_feed ex_treasury1 = (Inr res, ex_treasury2)"
    by (metis ex_treasury2_def prod.collapse)
  have keys: "\<forall>r \<in> set ex_feed. trim_space (fr_external r) \<noteq> []"
    by (simp add: ex_feed_def ex_row_def go_str visible_def)
  have text_form: "te_text (ex_tenv 20) = show_nat" by (simp add: ex_tenv_def)
  have "(treasury_step show_nat)\<^sup>*\<^sup>* ex_treasury0 ex_treasury1" "(treasury_step show_nat)\<^sup>*\<^sup>* ex_treasury2 ex_treasury3"
    using ex_run_treasury(2) ex_treasury3_step by (meson r_into_rtranclp)+
  then show ?thesis
    using feed_import_once [OF ex_run_treasury(1) _ run keys, unfolded text_form] prod.collapse by metis
qed

section \<open>What the guards let through\<close>

text \<open>
  The import asks for an identifier before it is trimmed: a row whose identifier is blank is stored each time it is imported.
\<close>

lemma blank_identifier_imported_twice:
  "map mv_balance_after (td_moves (snd (import_feed (ex_tenv 30) 10 5 True [ex_row '' '' ''wire'']
      (snd (import_feed (ex_tenv 20) 10 5 True [ex_row '' '' ''wire''] ex_treasury1))))) = [500, 800, 1100]"
  by code_simp

text \<open>
  \<open>Post\<close> refuses transfers before the kind is trimmed and lowered: one of another spelling is booked, without its other half.
\<close>

lemma transfer_posted_alone:
  "(case post_manual (ex_tenv 20) 5 \<lparr>mi_account = 10, mi_direction = ''out'', mi_kind = ''Transfer'', mi_amount = 100, mi_fee = None,
      mi_booking = None, mi_supplier = None, mi_reference = [], mi_party = [], mi_remark = [], mi_on = []\<rparr> ex_treasury1 of
    Inl _ \<Rightarrow> None | Inr ((m, a), _) \<Rightarrow> Some (mv_kind m, mv_counter m, ac_balance a)) = Some (''transfer'', None, 400)"
  by code_simp

end
