(* ===== verification/Visa_Cases.thy ===== *)
theory Visa_Cases
  imports Booking_Service
begin

text \<open>
  Visa files: \<^verbatim>\<open>internal/domain/visa/model.go\<close> (the status machine), \<^verbatim>\<open>internal/app/visa/service.go\<close> and the tables
  of \<^verbatim>\<open>adapter/postgres/visa/repository.go\<close>. A case inherits its visibility from its booking.

  Parameters (\<open>visa_env\<close>): the caller's scope and the team of a user, the clock, the identifier drawn, the follow-up
  windows of the branches, and the port to the follow-up work (optional, may fail). The booking tables belong to other
  services and may change between two operations in any way.
\<close>

section \<open>The status machine\<close>

datatype visa_status = VisaDraft | VisaSubmitted | VisaProcessing | VisaApproved | VisaRejected | VisaIssued | VisaCancelled
  | OtherVisaStatus string

fun visa_status_text :: "visa_status \<Rightarrow> string" where
  "visa_status_text VisaDraft = ''draft''"
| "visa_status_text VisaSubmitted = ''submitted''"
| "visa_status_text VisaProcessing = ''processing''"
| "visa_status_text VisaApproved = ''approved''"
| "visa_status_text VisaRejected = ''rejected''"
| "visa_status_text VisaIssued = ''issued''"
| "visa_status_text VisaCancelled = ''cancelled''"
| "visa_status_text (OtherVisaStatus s) = s"

fun visa_transitions :: "visa_status \<Rightarrow> visa_status list" where
  "visa_transitions VisaDraft = [VisaSubmitted, VisaCancelled]"
| "visa_transitions VisaSubmitted = [VisaProcessing, VisaRejected, VisaCancelled]"
| "visa_transitions VisaProcessing = [VisaApproved, VisaRejected, VisaIssued, VisaCancelled]"
| "visa_transitions VisaApproved = [VisaIssued, VisaCancelled]"
| "visa_transitions VisaRejected = [VisaDraft, VisaCancelled]"
| "visa_transitions VisaIssued = [VisaCancelled]"
| "visa_transitions VisaCancelled = []"
| "visa_transitions (OtherVisaStatus s) = []"

definition valid_visa_transition :: "visa_status \<Rightarrow> visa_status \<Rightarrow> bool" where
  "valid_visa_transition from to \<longleftrightarrow> list_ex (\<lambda>s. s = to) (visa_transitions from)"

definition valid_visa_status :: "visa_status \<Rightarrow> bool" where
  "valid_visa_status s \<longleftrightarrow> (case s of OtherVisaStatus _ \<Rightarrow> False | _ \<Rightarrow> True)"

record visa_case =
  vc_id :: uuid
  vc_branch :: uuid
  vc_booking :: uuid
  vc_participant :: "uuid option"
  vc_customer :: "uuid option"
  vc_status :: visa_status
  vc_external_ref :: string
  vc_notes :: string
  vc_submitted :: "go_time option"
  vc_decided :: "go_time option"
  vc_expires :: "go_time option"
  vc_created_by :: uuid
  vc_created :: go_time
  vc_updated :: go_time

record visa_event =
  ve_id :: uuid
  ve_case :: uuid
  ve_from :: visa_status
  ve_to :: visa_status
  ve_actor :: "uuid option"
  ve_remark :: string
  ve_created :: go_time

definition merge_note :: "string \<Rightarrow> string \<Rightarrow> string" where
  "merge_note existing add =
     (let add = trim_space add
      in if add = [] then existing else if trim_space existing = [] then add else existing @ CHR 0x0A # add)"

text \<open>\<open>TransitionTo\<close>: the case as it leaves the method, and the event.\<close>

definition visa_moved :: "visa_status \<Rightarrow> go_time \<Rightarrow> string \<Rightarrow> visa_case \<Rightarrow> visa_case" where
  "visa_moved to now remark v =
     (let v = v\<lparr>vc_status := to, vc_updated := now, vc_notes := merge_note (vc_notes v) remark\<rparr>
      in case to of
           VisaSubmitted \<Rightarrow> v\<lparr>vc_submitted := Some now\<rparr>
         | VisaApproved \<Rightarrow> v\<lparr>vc_decided := Some now\<rparr>
         | VisaRejected \<Rightarrow> v\<lparr>vc_decided := Some now\<rparr>
         | VisaIssued \<Rightarrow> v\<lparr>vc_decided := Some now\<rparr>
         | _ \<Rightarrow> v)"

definition visa_transition_to ::
  "uuid \<Rightarrow> go_time \<Rightarrow> visa_status \<Rightarrow> uuid \<Rightarrow> string \<Rightarrow> visa_case \<Rightarrow> (visa_case \<times> visa_event) result" where
  "visa_transition_to eid now to actor remark v =
     (if \<not> valid_visa_status to then Inl (new_validation ''invalid visa status'')
      else if \<not> valid_visa_transition (vc_status v) to
      then Inl (new_invalid_state (''cannot transition visa from '' @ visa_status_text (vc_status v) @ '' to '' @ visa_status_text to))
      else Inr (visa_moved to now remark v,
        \<lparr>ve_id = eid, ve_case = vc_id v, ve_from = vc_status v, ve_to = to, ve_actor = Some actor,
         ve_remark = trim_space remark, ve_created = now\<rparr>))"

definition visa_decided :: "visa_case \<Rightarrow> bool" where
  "visa_decided v \<longleftrightarrow> vc_status v \<in> {VisaApproved, VisaRejected, VisaIssued, VisaCancelled}"

section \<open>Tables\<close>

record visa_db =
  vd_core :: booking_db
  vd_cases :: "visa_case list"
  vd_events :: "visa_event list"

record visa_env =
  ve_booking :: booking_env
  ve_fresh :: uuid
  ve_now :: go_time
  ve_window :: "uuid \<Rightarrow> int option"
  ve_on_decided :: "(visa_case \<Rightarrow> error option) option"
  ve_on_waiting :: "(visa_case \<times> uuid \<Rightarrow> error option) option"

text \<open>The sentinel \<^verbatim>\<open>pgx.ErrNoRows\<close>.\<close>

definition no_rows :: error where "no_rows = Plain ''no rows in result set''"

definition case_row :: "booking_db \<Rightarrow> visa_case \<Rightarrow> db_row" where
  "case_row core v =
     \<lparr>row_branch = vc_branch v, row_owner = map_option b_owner (find (\<lambda>b. b_id b = vc_booking v) (db_bookings core))\<rparr>"

definition case_scope :: columns where
  "case_scope = \<lparr>Branch = ''v.branch_id'', Owner = ''(SELECT b.owner_id FROM bookings b WHERE b.id=v.booking_id)'',
     OwnerOrUnassigned = False\<rparr>"

definition case_clause :: "visa_env \<Rightarrow> (db_row \<Rightarrow> bool) result" where
  "case_clause env = scope_clause (e_scope (ve_booking env)) case_scope (e_users (ve_booking env))"

text \<open>\<open>Create\<close> of the repository pins the case to the branch of its booking.\<close>

definition insert_case :: "visa_env \<Rightarrow> visa_case \<Rightarrow> (visa_db, visa_case) uow" where
  "insert_case env v =
     and_then (lift_result (scope_clause (e_scope (ve_booking env))
         \<lparr>Branch = ''b.branch_id'', Owner = ''b.owner_id'', OwnerOrUnassigned = False\<rparr> (e_users (ve_booking env)))) (\<lambda>sees.
     and_then (reading (\<lambda>db. db_bookings (vd_core db))) (\<lambda>bs.
       case find (\<lambda>b. b_id b = vc_booking v \<and> sees (booking_row b)) bs of
         None \<Rightarrow> fail (new_not_found ''booking'')
       | Some b \<Rightarrow>
           (let v = v\<lparr>vc_branch := b_branch b\<rparr>
            in and_then (reading vd_cases) (\<lambda>vs.
                 if list_ex (\<lambda>x. vc_id x = vc_id v) vs then fail (Plain ''duplicate key value'')
                 else and_then (writing (\<lambda>db. db\<lparr>vd_cases := vs @ [v]\<rparr>)) (\<lambda>_. ret v)))))"

text \<open>The columns \<open>Update\<close> writes.\<close>

definition case_columns :: "visa_case \<Rightarrow> visa_case \<Rightarrow> visa_case" where
  "case_columns v r =
     r\<lparr>vc_participant := vc_participant v, vc_customer := vc_customer v, vc_status := vc_status v,
       vc_external_ref := vc_external_ref v, vc_notes := vc_notes v, vc_submitted := vc_submitted v,
       vc_decided := vc_decided v, vc_expires := vc_expires v, vc_updated := vc_updated v\<rparr>"

definition update_case :: "visa_env \<Rightarrow> visa_case \<Rightarrow> (visa_db, unit) uow" where
  "update_case env v =
     and_then (lift_result (case_clause env)) (\<lambda>sees.
     and_then (reading (\<lambda>db. \<lambda>x. vc_id x = vc_id v \<and> sees (case_row (vd_core db) x))) (\<lambda>hit.
     and_then (reading vd_cases) (\<lambda>vs.
       if \<not> list_ex hit vs then fail no_rows
       else writing (\<lambda>db. db\<lparr>vd_cases := map (\<lambda>x. if hit x then case_columns v x else x) vs\<rparr>))))"

definition case_find :: "visa_env \<Rightarrow> uuid \<Rightarrow> (visa_db, visa_case) uow" where
  "case_find env i =
     and_then (lift_result (case_clause env)) (\<lambda>sees.
     and_then (reading (\<lambda>db. find (\<lambda>x. vc_id x = i \<and> sees (case_row (vd_core db) x)) (vd_cases db))) (\<lambda>hit.
       case hit of None \<Rightarrow> fail no_rows | Some v \<Rightarrow> ret v))"

definition append_event :: "visa_event \<Rightarrow> (visa_db, unit) uow" where
  "append_event ev = writing (\<lambda>db. db\<lparr>vd_events := vd_events db @ [ev]\<rparr>)"

definition events_listed :: "visa_env \<Rightarrow> uuid \<Rightarrow> (visa_db, visa_event list) uow" where
  "events_listed env i =
     and_then (lift_result (case_clause env)) (\<lambda>sees.
       reading (\<lambda>db. sort_key (\<lambda>e. nanos (ve_created e)) (filter (\<lambda>e. ve_case e = i
         \<and> list_ex (\<lambda>v. vc_id v = i \<and> sees (case_row (vd_core db) v)) (vd_cases db)) (vd_events db))))"

text \<open>
  \<open>ListAwaitingDecision\<close>: a join with the bookings; a window of days after the submission, \<open>days\<close> where the branch has
  none of its own.
\<close>

definition overdue_case :: "visa_env \<Rightarrow> go_time \<Rightarrow> int \<Rightarrow> visa_case \<Rightarrow> bool" where
  "overdue_case env now days v \<longleftrightarrow>
     (vc_status v = VisaSubmitted \<or> vc_status v = VisaProcessing)
     \<and> (case vc_submitted v of None \<Rightarrow> False
        | Some t \<Rightarrow> nanos t + (case ve_window env (vc_branch v) of None \<Rightarrow> days | Some d \<Rightarrow> d) * day_ns \<le> nanos now)"

definition awaiting_decision :: "visa_env \<Rightarrow> go_time \<Rightarrow> int \<Rightarrow> int \<Rightarrow> (visa_db, (visa_case \<times> uuid) list) uow" where
  "awaiting_decision env now days limit =
     (let limit = (if limit \<le> 0 then 200 else limit) in
     and_then (lift_result (case_clause env)) (\<lambda>sees.
       reading (\<lambda>db. take (nat limit) (sort_key (\<lambda>(v, _). case vc_submitted v of None \<Rightarrow> 0 | Some t \<Rightarrow> nanos t)
         (List.map_filter (\<lambda>v. if overdue_case env now days v \<and> sees (case_row (vd_core db) v)
             then map_option (\<lambda>b. (v, b_owner b)) (find (\<lambda>b. b_id b = vc_booking v) (db_bookings (vd_core db)))
             else None) (vd_cases db))))))"

section \<open>Service\<close>

record visa_input =
  vi_branch :: uuid
  vi_booking :: uuid
  vi_participant :: "uuid option"
  vi_customer :: "uuid option"
  vi_external_ref :: string
  vi_notes :: string
  vi_expires :: "go_time option"
  vi_created_by :: uuid

definition visa_create :: "visa_env \<Rightarrow> visa_input \<Rightarrow> (visa_db, visa_case) uow" where
  "visa_create env inp =
     and_then (ensure (\<not> (vi_branch inp = uuid_nil \<or> vi_booking inp = uuid_nil \<or> vi_created_by inp = uuid_nil))
       (new_validation ''branch_id, booking_id and created_by are required'')) (\<lambda>_.
       insert_case env \<lparr>vc_id = ve_fresh env, vc_branch = vi_branch inp, vc_booking = vi_booking inp,
         vc_participant = vi_participant inp, vc_customer = vi_customer inp, vc_status = VisaDraft,
         vc_external_ref = trim_space (vi_external_ref inp), vc_notes = trim_space (vi_notes inp), vc_submitted = None,
         vc_decided = None, vc_expires = vi_expires inp, vc_created_by = vi_created_by inp, vc_created = ve_now env,
         vc_updated = ve_now env\<rparr>)"

definition visa_get :: "visa_env \<Rightarrow> uuid \<Rightarrow> (visa_db, visa_case) uow" where
  "visa_get env i = (\<lambda>db. case case_find env i db of Inl _ \<Rightarrow> Inl (new_not_found ''visa_case'') | Inr r \<Rightarrow> Inr r)"

text \<open>\<open>Transition\<close> from the read case on; nothing locks the row in between.\<close>

definition visa_commit :: "visa_env \<Rightarrow> visa_status \<Rightarrow> uuid \<Rightarrow> string \<Rightarrow> visa_case \<Rightarrow> (visa_db, visa_case) uow" where
  "visa_commit env to actor remark v =
     and_then (lift_result (visa_transition_to (ve_fresh env) (ve_now env) to actor remark v)) (\<lambda>(v, ev).
     and_then (update_case env v) (\<lambda>_.
     and_then (append_event ev) (\<lambda>_.
     and_then (case ve_on_decided env of
         None \<Rightarrow> ret ()
       | Some f \<Rightarrow> if visa_decided v then (case f v of Some e \<Rightarrow> fail e | None \<Rightarrow> ret ()) else ret ()) (\<lambda>_. ret v))))"

definition visa_transition :: "visa_env \<Rightarrow> uuid \<Rightarrow> visa_status \<Rightarrow> uuid \<Rightarrow> string \<Rightarrow> (visa_db, visa_case) uow" where
  "visa_transition env i to actor remark =
     and_then (ensure (valid_visa_status to) (new_validation ''invalid status'')) (\<lambda>_.
     and_then (visa_get env i) (visa_commit env to actor remark))"

text \<open>
  \<open>ProcessFollowUps\<close>: the cases are handed over in order, until one fails; the result is the number of cases
  handed over, the error and the cases the port was called with.
\<close>

fun hand_over :: "(visa_case \<times> uuid \<Rightarrow> error option) \<Rightarrow> (visa_case \<times> uuid) list \<Rightarrow> nat \<times> error option \<times> (visa_case \<times> uuid) list" where
  "hand_over f [] = (0, None, [])"
| "hand_over f (c # cs) =
     (case f c of
        Some e \<Rightarrow> (0, Some e, [c])
      | None \<Rightarrow> (case hand_over f cs of (n, r, done) \<Rightarrow> (Suc n, r, c # done)))"

definition process_follow_ups :: "visa_env \<Rightarrow> go_time \<Rightarrow> int \<Rightarrow> visa_db \<Rightarrow> nat \<times> error option \<times> (visa_case \<times> uuid) list" where
  "process_follow_ups env now limit db =
     (case ve_on_waiting env of
        None \<Rightarrow> (0, None, [])
      | Some f \<Rightarrow>
          (case awaiting_decision env now 7 limit db of
             Inl e \<Rightarrow> (0, Some e, [])
           | Inr (cs, _) \<Rightarrow> hand_over f cs))"

section \<open>Histories\<close>

text \<open>An event replayed on a case; a history that starts in a status and follows the allowed transitions.\<close>

definition replay :: "visa_case \<Rightarrow> visa_event \<Rightarrow> visa_case" where
  "replay v e = visa_moved (ve_to e) (ve_created e) (ve_remark e) v"

primrec chain :: "visa_status \<Rightarrow> visa_event list \<Rightarrow> bool" where
  "chain s [] = True"
| "chain s (e # es) = (ve_from e = s \<and> valid_visa_transition s (ve_to e) \<and> chain (ve_to e) es)"

definition history_end :: "visa_status \<Rightarrow> visa_event list \<Rightarrow> visa_status" where
  "history_end s es = (if es = [] then s else ve_to (last es))"

definition fresh_case :: "visa_case \<Rightarrow> bool" where
  "fresh_case v \<longleftrightarrow> vc_status v = VisaDraft \<and> vc_submitted v = None \<and> vc_decided v = None \<and> vc_updated v = vc_created v"

definition case_events :: "visa_db \<Rightarrow> uuid \<Rightarrow> visa_event list" where
  "case_events db i = filter (\<lambda>e. ve_case e = i) (vd_events db)"

definition explained :: "visa_db \<Rightarrow> visa_case \<Rightarrow> bool" where
  "explained db v \<longleftrightarrow> (\<exists>d. fresh_case d \<and> vc_id d = vc_id v \<and> chain VisaDraft (case_events db (vc_id v))
     \<and> foldl replay d (case_events db (vc_id v)) = v)"

definition visa_ok :: "visa_db \<Rightarrow> bool" where
  "visa_ok db \<longleftrightarrow> distinct (map vc_id (vd_cases db)) \<and> (\<forall>v \<in> set (vd_cases db). explained db v)
     \<and> ve_case ` set (vd_events db) \<subseteq> vc_id ` set (vd_cases db)"

inductive visa_step :: "visa_db \<Rightarrow> visa_db \<Rightarrow> bool" where
  create: "visa_create env inp db = Inr (v, db') \<Longrightarrow> visa_step db db'"
| move: "within_transaction (visa_transition env i to actor remark) db = (r, db') \<Longrightarrow> visa_step db db'"
| others: "visa_step db (db\<lparr>vd_core := core\<rparr>)"

lemma merge_note_trim [simp]: "merge_note n (trim_space r) = merge_note n r"
  by (simp add: merge_note_def trim_space_idem)

lemma visa_moved_trim: "visa_moved to now (trim_space r) v = visa_moved to now r v"
  by (simp add: visa_moved_def)

lemma visa_moved_sel [simp]:
  "vc_id (visa_moved to now r v) = vc_id v" "vc_status (visa_moved to now r v) = to"
  "vc_branch (visa_moved to now r v) = vc_branch v" "vc_booking (visa_moved to now r v) = vc_booking v"
  "vc_created_by (visa_moved to now r v) = vc_created_by v" "vc_created (visa_moved to now r v) = vc_created v"
  by (cases to; simp add: visa_moved_def)+

lemma replay_fold_sel [simp]:
  "vc_id (foldl replay v es) = vc_id v" "vc_status (foldl replay v es) = history_end (vc_status v) es"
  by (induction es rule: rev_induct) (auto simp: replay_def history_end_def)

lemma chain_snoc [simp]:
  "chain s (es @ [e]) \<longleftrightarrow> chain s es \<and> ve_from e = history_end s es \<and> valid_visa_transition (history_end s es) (ve_to e)"
  by (induction es arbitrary: s) (auto simp: history_end_def)

text \<open>The columns of the update are all that a transition changes.\<close>

lemma case_columns_moved: "case_columns (visa_moved to now r v) v = visa_moved to now r v"
  by (cases to) (simp_all add: case_columns_def visa_moved_def)

lemma case_find_Inr:
  assumes "case_find env i db = Inr (v, db')"
  shows "db' = db" "v \<in> set (vd_cases db)" "vc_id v = i"
    "\<exists>sees. case_clause env = Inr sees \<and> sees (case_row (vd_core db) v)"
  using assms unfolding case_find_def
  by (auto elim!: and_then_InrE lift_result_InrE split: option.splits simp: find_Some_iff)

lemma case_find_sameD: "case_find env i db = Inr (v, db') \<Longrightarrow> db' = db \<and> case_find env i db = Inr (v, db)"
  using case_find_Inr(1) by auto

lemma visa_get_Inr: "visa_get env i db = Inr (v, db') \<longleftrightarrow> case_find env i db = Inr (v, db')"
  by (auto simp: visa_get_def split: sum.splits)

lemma update_case_Inr:
  assumes "update_case env v db = Inr (u, db')"
  obtains sees where "case_clause env = Inr sees"
    "db' = db\<lparr>vd_cases := map (\<lambda>x. if vc_id x = vc_id v \<and> sees (case_row (vd_core db) x) then case_columns v x else x) (vd_cases db)\<rparr>"
  using assms unfolding update_case_def
  by (auto elim!: and_then_InrE lift_result_InrE split: if_splits)

lemma visa_commit_InrE:
  assumes "visa_commit env to actor remark v db = Inr (v', db')"
  obtains sees where "valid_visa_transition (vc_status v) to" "v' = visa_moved to (ve_now env) remark v" "case_clause env = Inr sees"
    "db' = db\<lparr>vd_cases := map (\<lambda>x. if vc_id x = vc_id v \<and> sees (case_row (vd_core db) x) then case_columns v' x else x) (vd_cases db),
       vd_events := vd_events db @ [\<lparr>ve_id = ve_fresh env, ve_case = vc_id v, ve_from = vc_status v, ve_to = to,
         ve_actor = Some actor, ve_remark = trim_space remark, ve_created = ve_now env\<rparr>]\<rparr>"
  using assms unfolding visa_commit_def visa_transition_to_def
  by (auto elim!: and_then_InrE lift_result_InrE update_case_Inr simp: append_event_def
      split: if_splits option.splits)

lemma visa_transition_Inr:
  assumes "visa_transition env i to actor remark db = Inr (v', db')" "distinct (map vc_id (vd_cases db))"
  obtains v where "v \<in> set (vd_cases db)" "vc_id v = i" "valid_visa_transition (vc_status v) to"
    "v' = visa_moved to (ve_now env) remark v"
    "db' = db\<lparr>vd_cases := map (\<lambda>x. if x = v then v' else x) (vd_cases db),
       vd_events := vd_events db @ [\<lparr>ve_id = ve_fresh env, ve_case = i, ve_from = vc_status v, ve_to = to,
         ve_actor = Some actor, ve_remark = trim_space remark, ve_created = ve_now env\<rparr>]\<rparr>"
proof -
  have valid: "valid_visa_status to"
    using assms(1) by (simp add: visa_transition_def and_then_def split: if_splits)
  have run: "and_then (visa_get env i) (visa_commit env to actor remark) db = Inr (v', db')"
    using assms(1) valid by (simp add: visa_transition_def)
  obtain v d where g: "visa_get env i db = Inr (v, d)" and c: "visa_commit env to actor remark v d = Inr (v', db')"
    by (rule and_then_InrE [OF run])
  have f: "case_find env i db = Inr (v, d)" using g by (simp only: visa_get_Inr)
  have d: "d = db" using case_find_Inr(1) [OF f] .
  note c = c [unfolded d] and f = f [unfolded d]
  note v = case_find_Inr [OF f]
  from c show thesis
  proof (cases rule: visa_commit_InrE)
    case (1 sees)
    have rows: "map (\<lambda>x. if vc_id x = vc_id v \<and> sees (case_row (vd_core db) x) then case_columns v' x else x) (vd_cases db)
        = map (\<lambda>x. if x = v then v' else x) (vd_cases db)"
      using v 1(2,3) assms(2) by (auto simp: distinct_map case_columns_moved dest: inj_onD)
    show thesis by (rule that [OF v(2,3) 1(1,2)]) (simp only: 1(4) rows [unfolded v(3)] v(3))
  qed
qed

lemma insert_case_Inr:
  assumes "insert_case env v db = Inr (v', db')"
  shows "\<exists>b \<in> set (db_bookings (vd_core db)). b_id b = vc_booking v \<and> v' = v\<lparr>vc_branch := b_branch b\<rparr>
    \<and> vc_id v \<notin> vc_id ` set (vd_cases db) \<and> db' = db\<lparr>vd_cases := vd_cases db @ [v']\<rparr>"
proof -
  from assms obtain sees b where b: "find (\<lambda>b. b_id b = vc_booking v \<and> sees (booking_row b)) (db_bookings (vd_core db)) = Some b"
      "\<not> list_ex (\<lambda>x. vc_id x = vc_id v) (vd_cases db)" "v' = v\<lparr>vc_branch := b_branch b\<rparr>" "db' = db\<lparr>vd_cases := vd_cases db @ [v']\<rparr>"
    unfolding insert_case_def Let_def
    by (auto elim!: and_then_InrE lift_result_InrE split: option.splits if_splits)
  then show ?thesis by (auto simp: list_ex_iff find_Some_iff intro!: bexI [of _ b])
qed

lemma visa_create_Inr:
  assumes "visa_create env inp db = Inr (v, db')"
  shows "fresh_case v" "vc_id v \<notin> vc_id ` set (vd_cases db)" "db' = db\<lparr>vd_cases := vd_cases db @ [v]\<rparr>"
    "\<exists>b \<in> set (db_bookings (vd_core db)). b_id b = vc_booking v \<and> vc_branch v = b_branch b"
proof -
  have "\<exists>v0. fresh_case v0 \<and> insert_case env v0 db = Inr (v, db')"
    using assms unfolding visa_create_def by (intro exI conjI) (auto elim!: and_then_InrE split: if_splits simp: fresh_case_def)
  then obtain v0 where v0: "fresh_case v0" and i: "insert_case env v0 db = Inr (v, db')" by blast
  note c = insert_case_Inr [OF i]
  show "fresh_case v" using v0 c by (auto simp: fresh_case_def)
  show "vc_id v \<notin> vc_id ` set (vd_cases db)" using c by fastforce
  show "db' = db\<lparr>vd_cases := vd_cases db @ [v]\<rparr>" using c by blast
  show "\<exists>b \<in> set (db_bookings (vd_core db)). b_id b = vc_booking v \<and> vc_branch v = b_branch b" using c by fastforce
qed

lemma visa_step_ok:
  assumes "visa_ok db" "visa_step db db'"
  shows "visa_ok db'"
  using assms(2)
proof cases
  case (create env inp v)
  note c = visa_create_Inr [OF create]
  have none: "case_events db (vc_id v) = []"
    using assms(1) c(2) unfolding visa_ok_def case_events_def filter_empty_conv by (metis image_eqI subsetD)
  have "explained db' x" if "explained db x" for x using that c(3) by (simp add: explained_def case_events_def)
  moreover have "explained db' v" using c(1,3) none by (auto simp: explained_def case_events_def)
  ultimately show ?thesis using assms(1) c(2,3) by (auto simp: visa_ok_def)
next
  case (move env i to actor remark r)
  show ?thesis
  proof (rule transaction_keeps [where P = visa_ok, OF move assms(1)])
    fix v' d
    assume t: "visa_transition env i to actor remark db = Inr (v', d)"
    have dist: "distinct (map vc_id (vd_cases db))" using assms(1) by (simp add: visa_ok_def)
    from visa_transition_Inr [OF t dist] obtain v where v: "v \<in> set (vd_cases db)" "vc_id v = i"
        "valid_visa_transition (vc_status v) to" "v' = visa_moved to (ve_now env) remark v"
        "d = db\<lparr>vd_cases := map (\<lambda>x. if x = v then v' else x) (vd_cases db),
           vd_events := vd_events db @ [\<lparr>ve_id = ve_fresh env, ve_case = i, ve_from = vc_status v, ve_to = to,
             ve_actor = Some actor, ve_remark = trim_space remark, ve_created = ve_now env\<rparr>]\<rparr>" .
    have other: "case_events d j = case_events db j" if "j \<noteq> i" for j using that v(5) by (simp add: case_events_def)
    obtain c where c: "fresh_case c" "vc_id c = i" "chain VisaDraft (case_events db i)" "foldl replay c (case_events db i) = v"
      using assms(1) v(1,2) by (auto simp: visa_ok_def explained_def)
    have st: "vc_status v = history_end VisaDraft (case_events db i)" using c(1,4) by (auto simp: fresh_case_def)
    have "explained d v'" using c v(2-5) st
      by (auto simp: explained_def case_events_def replay_def visa_moved_trim intro!: exI [of _ c])
    moreover have "explained d x" if "x \<in> set (vd_cases db)" "x \<noteq> v" for x
    proof -
      have "vc_id x \<noteq> i" using that v(1,2) dist by (auto simp: distinct_map dest: inj_onD)
      with that(1) assms(1) show ?thesis by (auto simp: explained_def other visa_ok_def)
    qed
    moreover have ids: "map vc_id (vd_cases d) = map vc_id (vd_cases db)" using v(4,5) by simp
    moreover have "vc_id ` set (vd_cases d) = vc_id ` set (vd_cases db)" using arg_cong [OF ids, of set] by simp
    moreover have "distinct (map vc_id (vd_cases d))" using ids dist by simp
    ultimately show "visa_ok d" using assms(1) v(1,2,5) unfolding visa_ok_def by auto
  qed
next
  case (others core)
  with assms(1) show ?thesis by (simp add: visa_ok_def explained_def case_events_def)
qed

definition no_cases :: "visa_db \<Rightarrow> bool" where "no_cases db \<longleftrightarrow> vd_cases db = [] \<and> vd_events db = []"

interpretation visa_files: invariant_machine no_cases visa_step visa_ok
  by unfold_locales (simp add: no_cases_def visa_ok_def, rule visa_step_ok)

section \<open>Properties\<close>

lemma chain_passes:
  assumes "chain VisaDraft es"
  shows "history_end VisaDraft es \<in> {VisaProcessing, VisaApproved, VisaIssued} \<longrightarrow> VisaProcessing \<in> ve_to ` set es"
    and "history_end VisaDraft es \<in> {VisaSubmitted, VisaProcessing, VisaApproved, VisaIssued, VisaRejected} \<longrightarrow> VisaSubmitted \<in> ve_to ` set es"
    and "history_end VisaDraft es = VisaIssued \<longrightarrow> {VisaSubmitted, VisaProcessing} \<subseteq> ve_to ` set es"
proof -
  have step: "valid_visa_transition s t \<Longrightarrow> t \<in> {VisaApproved, VisaIssued} \<Longrightarrow> s \<in> {VisaProcessing, VisaApproved}"
    "valid_visa_transition s t \<Longrightarrow> t \<in> {VisaProcessing, VisaApproved, VisaIssued, VisaRejected} \<Longrightarrow> s \<in> {VisaSubmitted, VisaProcessing, VisaApproved}"
    for s t by (cases s; auto simp: valid_visa_transition_def)+
  have "(history_end VisaDraft es \<in> {VisaProcessing, VisaApproved, VisaIssued} \<longrightarrow> VisaProcessing \<in> ve_to ` set es)
    \<and> (history_end VisaDraft es \<in> {VisaSubmitted, VisaProcessing, VisaApproved, VisaIssued, VisaRejected} \<longrightarrow> VisaSubmitted \<in> ve_to ` set es)"
    using assms
  proof (induction es rule: rev_induct)
    case Nil
    then show ?case by (simp add: history_end_def)
  next
    case (snoc e es)
    then have IH: "history_end VisaDraft es \<in> {VisaProcessing, VisaApproved, VisaIssued} \<longrightarrow> VisaProcessing \<in> ve_to ` set es"
        "history_end VisaDraft es \<in> {VisaSubmitted, VisaProcessing, VisaApproved, VisaIssued, VisaRejected} \<longrightarrow> VisaSubmitted \<in> ve_to ` set es"
      and t: "valid_visa_transition (history_end VisaDraft es) (ve_to e)" by auto
    have last: "history_end VisaDraft (es @ [e]) = ve_to e" by (simp add: history_end_def)
    show ?case unfolding last using IH step [OF t] by (cases "ve_to e") (simp_all, (blast+)?)
  qed
  then show "history_end VisaDraft es \<in> {VisaProcessing, VisaApproved, VisaIssued} \<longrightarrow> VisaProcessing \<in> ve_to ` set es"
    "history_end VisaDraft es \<in> {VisaSubmitted, VisaProcessing, VisaApproved, VisaIssued, VisaRejected} \<longrightarrow> VisaSubmitted \<in> ve_to ` set es"
    "history_end VisaDraft es = VisaIssued \<longrightarrow> {VisaSubmitted, VisaProcessing} \<subseteq> ve_to ` set es" by auto
qed

text \<open>Cancelled is final: a transition of a cancelled case never succeeds, so its row is never written again.\<close>

lemma cancelled_row_kept:
  assumes "visa_step db db'" "visa_ok db" "v \<in> set (vd_cases db)" "vc_status v = VisaCancelled"
  shows "v \<in> set (vd_cases db') \<and> case_events db' (vc_id v) = case_events db (vc_id v)"
  using assms(1)
proof cases
  case (create env inp x)
  from visa_create_Inr(3) [OF this] assms(3) show ?thesis by (simp add: case_events_def)
next
  case (move env i to actor remark r)
  show ?thesis
  proof (rule transaction_keeps [where P = "\<lambda>d. v \<in> set (vd_cases d) \<and> case_events d (vc_id v) = case_events db (vc_id v)", OF move])
    fix x d
    assume t: "visa_transition env i to actor remark db = Inr (x, d)"
    have dist: "distinct (map vc_id (vd_cases db))" using assms(2) by (simp add: visa_ok_def)
    obtain w e where w: "w \<in> set (vd_cases db)" "vc_id w = i" "valid_visa_transition (vc_status w) to"
        "vd_cases d = map (\<lambda>y. if y = w then x else y) (vd_cases db)" "vd_events d = vd_events db @ [e]" "ve_case e = i"
      by (rule visa_transition_Inr [OF t dist]) auto
    have "v \<noteq> w" using w(3) assms(4) by (auto simp: valid_visa_transition_def)
    then have "vc_id v \<noteq> i" using w(1,2) assms(3) dist by (auto simp: distinct_map dest: inj_onD)
    with \<open>v \<noteq> w\<close> show "v \<in> set (vd_cases d) \<and> case_events d (vc_id v) = case_events db (vc_id v)"
      using w(4-6) assms(3) by (force simp: case_events_def)
  qed (use assms(3) in simp)
qed (use assms(3) in \<open>simp add: case_events_def\<close>)

definition ex_visa_booking :: booking where
  "ex_visa_booking = ex_draft\<lparr>b_id := 20, b_branch := 10, b_owner := 30\<rparr>"

definition ex_visa_env :: visa_env where
  "ex_visa_env = \<lparr>ve_booking = \<lparr>e_scope = Some (for_branch 10), e_users = (\<lambda>_. None), e_package_branch = (\<lambda>_. None), e_docs = None,
       e_audit = None, e_now = midnight 700000, e_loc = utc_loc\<rparr>,
     ve_fresh = 50, ve_now = midnight 700000, ve_window = (\<lambda>_. None), ve_on_decided = None, ve_on_waiting = None\<rparr>"

definition ex_visa0 :: visa_db where
  "ex_visa0 = \<lparr>vd_core = \<lparr>db_bookings = [ex_visa_booking], db_departures = [], db_participants = [], db_checklist = [],
       db_overrides = [], db_lines = [], db_audit = []\<rparr>, vd_cases = [], vd_events = []\<rparr>"

definition ex_visa_input :: visa_input where
  "ex_visa_input = \<lparr>vi_branch = 11, vi_booking = 20, vi_participant = None, vi_customer = None, vi_external_ref = '' K-7 '',
     vi_notes = [], vi_expires = None, vi_created_by = 30\<rparr>"

definition ex_visa1 :: visa_db where "ex_visa1 = snd (within_transaction (visa_create ex_visa_env ex_visa_input) ex_visa0)"

definition ex_visa_to :: "visa_status \<Rightarrow> visa_db \<Rightarrow> visa_db" where
  "ex_visa_to to db = snd (within_transaction (visa_transition ex_visa_env 50 to 30 ''ok'') db)"

definition ex_visa2 :: visa_db where "ex_visa2 = ex_visa_to VisaIssued (ex_visa_to VisaProcessing (ex_visa_to VisaSubmitted ex_visa1))"
definition ex_visa3 :: visa_db where "ex_visa3 = ex_visa_to VisaDraft (ex_visa_to VisaCancelled ex_visa2)"

lemma ex_visa_run: "no_cases ex_visa0" "visa_step\<^sup>*\<^sup>* ex_visa0 ex_visa1" "visa_step\<^sup>*\<^sup>* ex_visa1 ex_visa2"
  "visa_step\<^sup>*\<^sup>* (ex_visa_to VisaCancelled ex_visa2) ex_visa3" "visa_step\<^sup>*\<^sup>* ex_visa2 (ex_visa_to VisaCancelled ex_visa2)"
proof -
  have go: "visa_step db (ex_visa_to to db)" for to db
    unfolding ex_visa_to_def by (rule visa_step.move [OF prod.collapse [symmetric]])
  show "no_cases ex_visa0" by (simp add: no_cases_def ex_visa0_def)
  have "\<exists>v. visa_create ex_visa_env ex_visa_input ex_visa0 = Inr (v, ex_visa1)"
  proof -
    have "\<not> isl (visa_create ex_visa_env ex_visa_input ex_visa0)" by code_simp
    then show ?thesis by (auto simp: ex_visa1_def within_transaction_def split: sum.split)
  qed
  then show "visa_step\<^sup>*\<^sup>* ex_visa0 ex_visa1" by (blast intro: visa_step.create)
  show "visa_step\<^sup>*\<^sup>* ex_visa1 ex_visa2" unfolding ex_visa2_def by ((rule rtranclp.rtrancl_into_rtrancl [rotated], rule go)+, rule rtranclp.rtrancl_refl)
  show "visa_step\<^sup>*\<^sup>* (ex_visa_to VisaCancelled ex_visa2) ex_visa3" unfolding ex_visa3_def by (blast intro: go)
  show "visa_step\<^sup>*\<^sup>* ex_visa2 (ex_visa_to VisaCancelled ex_visa2)" by (blast intro: go)
qed

text \<open>
  C11. The events of a visa case are its complete history: along any run, with the bookings changing in any way, every stored
  case is exactly the draft it began as with its recorded events replayed in order, each event is an allowed transition
  from the status of the one before, and an issued visa has been submitted and processed.
\<close>

theorem visa_history_replays:
  assumes "no_cases db0" "visa_step\<^sup>*\<^sup>* db0 db" "v \<in> set (vd_cases db)"
  shows "\<exists>d. fresh_case d \<and> vc_id d = vc_id v \<and> foldl replay d (case_events db (vc_id v)) = v
    \<and> chain VisaDraft (case_events db (vc_id v))
    \<and> (vc_status v = VisaIssued \<longrightarrow> {VisaSubmitted, VisaProcessing} \<subseteq> ve_to ` set (case_events db (vc_id v)))"
proof -
  have "explained db v" using visa_files.reachable_good [OF assms(1,2)] assms(3) by (simp add: visa_ok_def)
  then obtain d where d: "fresh_case d" "vc_id d = vc_id v" "chain VisaDraft (case_events db (vc_id v))"
      "foldl replay d (case_events db (vc_id v)) = v" by (auto simp: explained_def)
  have "vc_status v = history_end VisaDraft (case_events db (vc_id v))"
    using d(1,4) replay_fold_sel(2) [of d "case_events db (vc_id v)"] by (simp add: fresh_case_def)
  with d chain_passes(3) [OF d(3)] show ?thesis by auto
qed

theorem visa_history_replays_witness:
  "map ve_to (case_events ex_visa2 50) = [VisaSubmitted, VisaProcessing, VisaIssued]
    \<and> map vc_status (vd_cases ex_visa2) = [VisaIssued] \<and> chain VisaDraft (case_events ex_visa2 50)"
proof -
  have e: "map ve_to (case_events ex_visa2 50) = [VisaSubmitted, VisaProcessing, VisaIssued]"
    "map vc_status (vd_cases ex_visa2) = [VisaIssued]" "map vc_id (vd_cases ex_visa2) = [50]" by code_simp+
  then obtain v where v: "v \<in> set (vd_cases ex_visa2)" "vc_id v = 50" by (cases "vd_cases ex_visa2") auto
  show ?thesis using visa_history_replays [OF ex_visa_run(1) rtranclp_trans [OF ex_visa_run(2,3)] v(1)] e v(2) by auto
qed

text \<open>
  Cancelled is final: whatever happens after a case was cancelled, its row keeps every column and no event is added to it.
\<close>

theorem visa_cancelled_final:
  assumes "no_cases db0" "visa_step\<^sup>*\<^sup>* db0 db" "visa_step\<^sup>*\<^sup>* db db'" "v \<in> set (vd_cases db)" "vc_status v = VisaCancelled"
  shows "v \<in> set (vd_cases db') \<and> case_events db' (vc_id v) = case_events db (vc_id v)"
  using assms(3)
proof (induction rule: rtranclp_induct)
  case base
  show ?case using assms(4) by simp
next
  case (step d d')
  have "visa_ok d" using visa_files.reachable_good [OF assms(1) rtranclp_trans [OF assms(2) step(1)]] .
  from cancelled_row_kept [OF step(2) this _ assms(5)] step(3) show ?case by simp
qed

theorem visa_cancelled_final_witness:
  "map vc_status (vd_cases ex_visa3) = [VisaCancelled] \<and> length (case_events ex_visa3 50) = 4"
proof -
  have e: "map vc_status (vd_cases (ex_visa_to VisaCancelled ex_visa2)) = [VisaCancelled]" "map vc_id (vd_cases (ex_visa_to VisaCancelled ex_visa2)) = [50]"
    "length (case_events (ex_visa_to VisaCancelled ex_visa2) 50) = 4" by code_simp+
  have "length (vd_cases ex_visa3) = 1" by code_simp
  moreover obtain v where v: "v \<in> set (vd_cases (ex_visa_to VisaCancelled ex_visa2))" "vc_id v = 50" "vc_status v = VisaCancelled"
    using e by (cases "vd_cases (ex_visa_to VisaCancelled ex_visa2)") auto
  have run: "visa_step\<^sup>*\<^sup>* ex_visa0 (ex_visa_to VisaCancelled ex_visa2)"
    by (rule rtranclp_trans [OF rtranclp_trans [OF ex_visa_run(2,3)] ex_visa_run(5)])
  note visa_cancelled_final [OF ex_visa_run(1) run ex_visa_run(4) v(1,3)]
  ultimately show ?thesis using v e(3) by (cases "vd_cases ex_visa3") auto
qed

text \<open>
  The transition reads the case without locking its row. Two sessions that read the same case may both succeed, and the
  later one brings a cancelled case back.
\<close>

lemma cancelled_case_revived:
  "\<exists>v d. case_find ex_visa_env 50 (ex_visa_to VisaProcessing (ex_visa_to VisaSubmitted ex_visa1))
        = Inr (v, ex_visa_to VisaProcessing (ex_visa_to VisaSubmitted ex_visa1))
    \<and> visa_commit ex_visa_env VisaIssued 30 [] v (ex_visa_to VisaCancelled (ex_visa_to VisaProcessing (ex_visa_to VisaSubmitted ex_visa1))) = Inr d
    \<and> map vc_status (vd_cases (ex_visa_to VisaCancelled (ex_visa_to VisaProcessing (ex_visa_to VisaSubmitted ex_visa1)))) = [VisaCancelled]
    \<and> map vc_status (vd_cases (snd d)) = [VisaIssued]"
proof -
  let ?p = "ex_visa_to VisaProcessing (ex_visa_to VisaSubmitted ex_visa1)"
  let ?v = "hd (vd_cases ?p)" and ?d = "projr (visa_commit ex_visa_env VisaIssued 30 [] (hd (vd_cases ?p)) (ex_visa_to VisaCancelled ?p))"
  have "case_find ex_visa_env 50 ?p = Inr (?v, ?p)" "\<not> isl (visa_commit ex_visa_env VisaIssued 30 [] ?v (ex_visa_to VisaCancelled ?p))"
    "map vc_status (vd_cases (ex_visa_to VisaCancelled ?p)) = [VisaCancelled]" "map vc_status (vd_cases (snd ?d)) = [VisaIssued]"
    by code_simp+
  then show ?thesis by (intro exI [of _ ?v] exI [of _ ?d]) simp
qed

text \<open>The cases handed over are a prefix of the overdue ones, and the count says how many went through.\<close>

lemma hand_over_prefix:
  "hand_over f cs = (n, r, done) \<Longrightarrow>
     n = length (takeWhile (\<lambda>c. f c = None) cs) \<and> done = take (Suc n) cs \<and> r = (if n < length cs then f (cs ! n) else None)"
  by (induction cs arbitrary: n r "done") (auto split: option.splits prod.splits)

lemma awaiting_overdue:
  assumes "awaiting_decision env now days limit db = Inr (cs, db')" "(v, ow) \<in> set cs"
  shows "v \<in> set (vd_cases db) \<and> overdue_case env now days v"
  using assms unfolding awaiting_decision_def Let_def
  by (auto elim!: and_then_InrE lift_result_InrE dest!: in_set_takeD simp: List.map_filter_def split: if_splits)

end
