(* ===== verification/Personal_Data.thy ===== *)
theory Personal_Data
  imports Shared
begin

text \<open>
  \<^verbatim>\<open>internal/domain/shared/pii.go\<close>: normal forms of mail addresses and passport numbers, the masked passport that
  lists show, and the similarity of two names. The phone normalisation keeps every Unicode digit and is left out.
\<close>

section \<open>Normal forms and masks\<close>

definition normalize_mail :: "string \<Rightarrow> string" where "normalize_mail s = trim_space (to_lower s)"

definition normalize_passport :: "string \<Rightarrow> string" where
  "normalize_passport p = filter (\<lambda>c. c \<noteq> CHR '' '') (to_upper (trim_space p))"

definition passport_last4 :: "string \<Rightarrow> string" where
  "passport_last4 p = (let p = normalize_passport p in if length p \<le> 4 then [] else drop (length p - 4) p)"

definition bullet :: string where "bullet = [CHR 0xE2, CHR 0x80, CHR 0xA2]"

definition mask_passport_last4 :: "string \<Rightarrow> string" where
  "mask_passport_last4 last4 = (if last4 = [] then [] else bullet @ bullet @ bullet @ bullet @ last4)"

fun has_substring :: "string \<Rightarrow> string \<Rightarrow> bool" where
  "has_substring t [] = (t = [])"
| "has_substring t (c # cs) = (has_prefix (c # cs) t \<or> has_substring t cs)"

definition is_masked_passport :: "string \<Rightarrow> bool" where "is_masked_passport p = has_substring bullet p"

definition passport_update :: "string option \<Rightarrow> string option" where
  "passport_update p =
     (case p of None \<Rightarrow> None | Some s \<Rightarrow> if is_masked_passport s then None else Some (normalize_passport s))"

definition masked_passport :: "string \<Rightarrow> string" where
  "masked_passport p =
     (if trim_space p = [] then []
      else if passport_last4 p \<noteq> [] then mask_passport_last4 (passport_last4 p)
      else bullet @ bullet @ bullet @ bullet)"

definition mask_passport :: "string \<Rightarrow> string" where
  "mask_passport p =
     (let p = trim_space p
      in if length p \<le> 4 then (if p = [] then [] else ''****'')
         else take 2 p @ replicate (length p - 4) (CHR ''*'') @ drop (length p - 2) p)"

section \<open>Similar names\<close>

definition clean_name :: "string \<Rightarrow> string" where
  "clean_name s = join '' '' (fields_of (map (\<lambda>c. if c = CHR ''-'' then CHR '' '' else c) (to_lower (trim_space s))))"

definition token_score :: "string \<Rightarrow> string \<Rightarrow> int" where
  "token_score a b =
     (let at = fields_of a; bt = fields_of b; hit = length (filter (\<lambda>t. t \<in> set bt) at)
      in quo (int hit * 100) (int (max (length at) (length bt))))"

definition prefix_bonus :: "string \<Rightarrow> string \<Rightarrow> int \<Rightarrow> int" where
  "prefix_bonus a b score =
     (let m = take 3 (if length b < length a then b else a)
      in if (has_prefix a m \<or> has_prefix b m) \<and> score < 60 then score + 15 else score)"

definition name_similarity :: "string \<Rightarrow> string \<Rightarrow> int" where
  "name_similarity a b =
     (let a = clean_name a; b = clean_name b
      in if a = [] \<or> b = [] then 0
         else if a = b then 100
         else if fields_of a = [] \<or> fields_of b = [] then 0
         else let score = prefix_bonus a b (token_score a b) in if score > 100 then 100 else score)"

section \<open>Facts\<close>

lemma token_score_bounds: "fields_of a \<noteq> [] \<Longrightarrow> 0 \<le> token_score a b \<and> token_score a b \<le> 100"
proof -
  assume "fields_of a \<noteq> []"
  let ?h = "int (length (filter (\<lambda>t. t \<in> set (fields_of b)) (fields_of a)))" and ?n = "int (max (length (fields_of a)) (length (fields_of b)))"
  have h: "0 \<le> ?h" "?h \<le> ?n" "0 < ?n"
    using length_filter_le [of "\<lambda>t. t \<in> set (fields_of b)" "fields_of a"] \<open>fields_of a \<noteq> []\<close>
    by (auto simp: le_max_iff_disj less_max_iff_disj simp del: of_nat_max)
  have "?h * 100 div ?n \<le> 100" using h zdiv_mono1 [of "?h * 100" "?n * 100" ?n] \<open>fields_of a \<noteq> []\<close> by (simp del: of_nat_max)
  moreover have "0 \<le> ?h * 100 div ?n" using h by (simp add: pos_imp_zdiv_nonneg_iff del: of_nat_max)
  ultimately show ?thesis using h by (simp add: token_score_def Let_def quo_nonneg del: of_nat_max)
qed

lemma name_similarity_bounds: "0 \<le> name_similarity a b" "name_similarity a b \<le> 100"
  using token_score_bounds [of "clean_name a" "clean_name b"]
  by (auto simp: name_similarity_def prefix_bonus_def Let_def)

lemma name_similarity_refl: "clean_name a \<noteq> [] \<Longrightarrow> name_similarity a a = 100"
  by (simp add: name_similarity_def)

text \<open>The score counts repeated tokens of the first name only, so it is not symmetric.\<close>

lemma name_similarity_asymmetric: "name_similarity ''ana ana'' ''ana'' \<noteq> name_similarity ''ana'' ''ana ana''"
  by code_simp

text \<open>A mask shows the last four bytes of a long number at most, and of a short one nothing.\<close>

lemma masked_passport_blind:
  "trim_space p \<noteq> [] \<Longrightarrow> trim_space q \<noteq> [] \<Longrightarrow> passport_last4 p = passport_last4 q \<Longrightarrow> masked_passport p = masked_passport q"
  by (simp add: masked_passport_def)

lemma has_prefix_append: "has_prefix (s @ t) s"
  by (simp add: has_prefix_def)

lemma masked_is_masked: "trim_space p \<noteq> [] \<Longrightarrow> is_masked_passport (masked_passport p)"
  using has_prefix_append [of bullet]
  by (auto simp: masked_passport_def is_masked_passport_def mask_passport_last4_def bullet_def)

text \<open>The echo of a displayed mask never overwrites the stored number.\<close>

lemma mask_never_stored: "passport_update (Some (masked_passport p)) \<noteq> None \<Longrightarrow> trim_space p = []"
  using masked_is_masked [of p] by (auto simp: passport_update_def split: if_splits)

text \<open>
  A mask of a number of four bytes or less is not kept by a second masking: its last four bytes begin in the middle of a
  bullet.
\<close>

lemma mask_of_short_not_kept:
  "masked_passport ''A1'' = bullet @ bullet @ bullet @ bullet"
  "masked_passport (masked_passport ''A1'') = bullet @ bullet @ bullet @ bullet @ [CHR 0xA2, CHR 0xE2, CHR 0x80, CHR 0xA2]"
  by code_simp+

end
