(* ===== verification/Rooming.thy ===== *)
theory Rooming
  imports Booking_Service Personal_Data
begin

text \<open>
  Rooms of a departure: \<^verbatim>\<open>internal/domain/rooming/model.go\<close>, \<^verbatim>\<open>internal/app/rooming/service.go\<close> and the tables of
  \<^verbatim>\<open>adapter/postgres/rooming/repository.go\<close>: creating, changing and deleting rooms, putting travellers into them, the
  group list and its CSV export.

  Parameters (\<open>rooming_env\<close>): the booking environment (scope, teams, packages), the clock, the identifier drawn, the text
  form of identifiers and the decryption of a traveller's passport. The order in which the database sorts names is a
  parameter too. Bookings and travellers belong to other services: between two operations rows may appear and disappear
  (assignments go with them, by the cascades of the schema), but no booking moves to another departure and no traveller
  to another booking.
\<close>

section \<open>Rooms\<close>

datatype room_type = RoomSingle | RoomDouble | RoomTriple | RoomQuad | RoomSuite | RoomOther | UnknownRoom string

definition valid_room_type :: "room_type \<Rightarrow> bool" where
  "valid_room_type t \<longleftrightarrow> (case t of UnknownRoom _ \<Rightarrow> False | _ \<Rightarrow> True)"

fun room_type_text :: "room_type \<Rightarrow> string" where
  "room_type_text RoomSingle = ''single''"
| "room_type_text RoomDouble = ''double''"
| "room_type_text RoomTriple = ''triple''"
| "room_type_text RoomQuad = ''quad''"
| "room_type_text RoomSuite = ''suite''"
| "room_type_text RoomOther = ''other''"
| "room_type_text (UnknownRoom s) = s"

record room =
  rm_id :: uuid
  rm_departure :: uuid
  rm_branch :: uuid
  rm_label :: string
  rm_type :: room_type
  rm_capacity :: int
  rm_notes :: string
  rm_sort :: int
  rm_created :: go_time
  rm_assigned :: int

definition room_normalize :: "room \<Rightarrow> room result" where
  "room_normalize r =
     (let r = r\<lparr>rm_label := trim_space (rm_label r), rm_notes := trim_space (rm_notes r)\<rparr>;
          r = (if valid_room_type (rm_type r) then r else r\<lparr>rm_type := RoomDouble\<rparr>)
      in if rm_capacity r \<le> 0 then Inl (new_validation ''capacity must be > 0'')
         else Inr (if rm_label r = [] then r\<lparr>rm_label := room_type_text (rm_type r)\<rparr> else r))"

definition room_full :: "room \<Rightarrow> bool" where "room_full r \<longleftrightarrow> rm_assigned r \<ge> rm_capacity r"

record assignment =
  as_id :: uuid
  as_room :: uuid
  as_participant :: uuid
  as_booking :: uuid
  as_at :: go_time
  as_by :: "uuid option"

record group_row =
  gr_participant :: uuid
  gr_booking :: uuid
  gr_name :: string
  gr_passport :: string
  gr_last4 :: string
  gr_nationality :: string
  gr_room :: "uuid option"
  gr_label :: string
  gr_unassigned :: bool

section \<open>Tables\<close>

record rooming_db =
  rd_core :: booking_db
  rd_rooms :: "room list"
  rd_assignments :: "assignment list"

record rooming_env =
  re_booking :: booking_env
  re_fresh :: uuid
  re_now :: go_time
  re_text :: "uuid \<Rightarrow> string"
  re_open :: "participant \<Rightarrow> string result"
  re_names :: "string \<Rightarrow> nat"

definition room_clause :: "rooming_env \<Rightarrow> (room \<Rightarrow> bool) result" where
  "room_clause env =
     map_sum id (\<lambda>p r. p \<lparr>row_branch = rm_branch r, row_owner = None\<rparr>)
       (scope_clause (e_scope (re_booking env)) \<lparr>Branch = ''r.branch_id'', Owner = [], OwnerOrUnassigned = False\<rparr> (\<lambda>_. None))"

text \<open>\<open>Assigned\<close> is counted by the query.\<close>

definition occupancy :: "rooming_db \<Rightarrow> uuid \<Rightarrow> int" where
  "occupancy db i = int (length (filter (\<lambda>a. as_room a = i) (rd_assignments db)))"

definition list_rooms :: "rooming_env \<Rightarrow> uuid \<Rightarrow> (rooming_db, room list) uow" where
  "list_rooms env dep =
     and_then (lift_result (room_clause env)) (\<lambda>sees.
       reading (\<lambda>db. sort_key rm_sort (sort_key (\<lambda>r. nanos (rm_created r))
         (map (\<lambda>r. r\<lparr>rm_assigned := occupancy db (rm_id r)\<rparr>) (filter (\<lambda>r. rm_departure r = dep \<and> sees r) (rd_rooms db))))))"

text \<open>\<open>CreateRoom\<close> pins the room to the branch of the package of its departure.\<close>

definition insert_room :: "rooming_env \<Rightarrow> room \<Rightarrow> (rooming_db, room) uow" where
  "insert_room env r =
     and_then (lift_result (scope_clause (e_scope (re_booking env))
         \<lparr>Branch = ''pk.branch_id'', Owner = [], OwnerOrUnassigned = False\<rparr> (\<lambda>_. None))) (\<lambda>sees.
     and_then (reading (\<lambda>db. List.map_filter (\<lambda>d. if dp_id d = rm_departure r then e_package_branch (re_booking env) (dp_package d) else None)
         (db_departures (rd_core db)))) (\<lambda>branches.
       case find (\<lambda>b. sees \<lparr>row_branch = b, row_owner = None\<rparr>) branches of
         None \<Rightarrow> fail (new_not_found ''departure'')
       | Some b \<Rightarrow>
           (let r = r\<lparr>rm_branch := b\<rparr>
            in and_then (reading rd_rooms) (\<lambda>rs.
                 if list_ex (\<lambda>x. rm_id x = rm_id r) rs then fail (Plain ''duplicate key value'')
                 else and_then (writing (\<lambda>db. db\<lparr>rd_rooms := rs @ [r]\<rparr>)) (\<lambda>_. ret r)))))"

definition room_columns :: "room \<Rightarrow> room \<Rightarrow> room" where
  "room_columns r x = x\<lparr>rm_label := rm_label r, rm_type := rm_type r, rm_capacity := rm_capacity r, rm_notes := rm_notes r, rm_sort := rm_sort r\<rparr>"

definition update_room_row :: "rooming_env \<Rightarrow> room \<Rightarrow> (rooming_db, unit) uow" where
  "update_room_row env r =
     and_then (lift_result (room_clause env)) (\<lambda>sees.
     and_then (reading rd_rooms) (\<lambda>rs.
       let hit = (\<lambda>x. rm_id x = rm_id r \<and> sees x)
       in if \<not> list_ex hit rs then fail (Plain ''no rows in result set'')
          else writing (\<lambda>db. db\<lparr>rd_rooms := map (\<lambda>x. if hit x then room_columns r x else x) rs\<rparr>)))"

text \<open>The assignments of a deleted room go with it.\<close>

definition delete_room_row :: "rooming_env \<Rightarrow> uuid \<Rightarrow> (rooming_db, unit) uow" where
  "delete_room_row env i =
     and_then (lift_result (room_clause env)) (\<lambda>sees.
     and_then (reading rd_rooms) (\<lambda>rs.
       let hit = (\<lambda>x. rm_id x = i \<and> sees x)
       in if \<not> list_ex hit rs then fail (Plain ''no rows in result set'')
          else writing (\<lambda>db. db\<lparr>rd_rooms := filter (\<lambda>x. \<not> hit x) rs,
                 rd_assignments := filter (\<lambda>a. \<not> list_ex (\<lambda>x. hit x \<and> rm_id x = as_room a) rs) (rd_assignments db)\<rparr>)))"

definition ensure_assignable :: "rooming_env \<Rightarrow> assignment \<Rightarrow> (rooming_db, unit) uow" where
  "ensure_assignable env a =
     and_then (lift_result (room_clause env)) (\<lambda>sees_room.
     and_then (lift_result (visible_booking (re_booking env))) (\<lambda>sees.
     and_then (reading (\<lambda>db. list_ex (\<lambda>r. rm_id r = as_room a \<and> sees_room r
         \<and> list_ex (\<lambda>b. b_id b = as_booking a \<and> b_departure b = rm_departure r \<and> sees b
              \<and> list_ex (\<lambda>p. pa_id p = as_participant a \<and> pa_booking p = b_id b) (db_participants (rd_core db)))
            (db_bookings (rd_core db))) (rd_rooms db))) (\<lambda>ok.
       if ok then ret () else fail (new_not_found ''room''))))"

text \<open>The upsert on the traveller: a traveller who has a room moves.\<close>

definition put_assignment :: "rooming_env \<Rightarrow> assignment \<Rightarrow> (rooming_db, unit) uow" where
  "put_assignment env a =
     and_then (ensure_assignable env a) (\<lambda>_.
     and_then (reading rd_assignments) (\<lambda>xs.
       if list_ex (\<lambda>x. as_participant x = as_participant a) xs
       then writing (\<lambda>db. db\<lparr>rd_assignments := map (\<lambda>x. if as_participant x = as_participant a
              then x\<lparr>as_room := as_room a, as_booking := as_booking a, as_at := as_at a, as_by := as_by a\<rparr> else x) xs\<rparr>)
       else if list_ex (\<lambda>x. as_id x = as_id a) xs then fail (Plain ''duplicate key value'')
       else writing (\<lambda>db. db\<lparr>rd_assignments := xs @ [a]\<rparr>)))"

definition drop_assignment :: "rooming_env \<Rightarrow> uuid \<Rightarrow> (rooming_db, unit) uow" where
  "drop_assignment env pid =
     and_then (lift_result (room_clause env)) (\<lambda>sees_room.
     and_then (lift_result (visible_booking (re_booking env))) (\<lambda>sees.
     and_then (reading (\<lambda>db. \<lambda>a. as_participant a = pid
         \<and> list_ex (\<lambda>r. rm_id r = as_room a \<and> sees_room r) (rd_rooms db)
         \<and> list_ex (\<lambda>b. b_id b = as_booking a \<and> sees b) (db_bookings (rd_core db)))) (\<lambda>hit.
     and_then (reading rd_assignments) (\<lambda>xs.
       if \<not> list_ex hit xs then fail (Plain ''no rows in result set'')
       else writing (\<lambda>db. db\<lparr>rd_assignments := filter (\<lambda>a. \<not> hit a) xs\<rparr>)))))"

text \<open>
  \<open>GroupList\<close> of the repository: every traveller of the departure whose booking is not cancelled and visible, those
  without a room first.
\<close>

definition group_row_of :: "rooming_env \<Rightarrow> rooming_db \<Rightarrow> booking \<Rightarrow> participant \<Rightarrow> string \<Rightarrow> group_row" where
  "group_row_of env db b p passport =
     (let a = find (\<lambda>a. as_participant a = pa_id p) (rd_assignments db);
          r = Option.bind a (\<lambda>a. find (\<lambda>r. rm_id r = as_room a) (rd_rooms db))
      in \<lparr>gr_participant = pa_id p, gr_booking = b_id b, gr_name = pa_name p, gr_passport = passport, gr_last4 = [],
          gr_nationality = pa_nationality p, gr_room = map_option as_room a,
          gr_label = (case r of None \<Rightarrow> [] | Some r \<Rightarrow> rm_label r), gr_unassigned = (a = None)\<rparr>)"

definition group_members :: "(booking \<Rightarrow> bool) \<Rightarrow> uuid \<Rightarrow> rooming_db \<Rightarrow> (booking \<times> participant) list" where
  "group_members sees dep db =
     List.map_filter (\<lambda>p. map_option (\<lambda>b. (b, p)) (find (\<lambda>b. b_id b = pa_booking p \<and> b_departure b = dep
         \<and> b_status b \<noteq> StatusCancelled \<and> sees b) (db_bookings (rd_core db)))) (db_participants (rd_core db))"

definition room_rank :: "rooming_db \<Rightarrow> booking \<times> participant \<Rightarrow> int" where
  "room_rank db = (\<lambda>(_, p).
     case Option.bind (find (\<lambda>a. as_participant a = pa_id p) (rd_assignments db)) (\<lambda>a. find (\<lambda>r. rm_id r = as_room a) (rd_rooms db)) of
       None \<Rightarrow> 9999 | Some r \<Rightarrow> rm_sort r)"

definition sorted_members :: "rooming_env \<Rightarrow> rooming_db \<Rightarrow> (booking \<times> participant) list \<Rightarrow> (booking \<times> participant) list" where
  "sorted_members env db ms =
     sort_key (\<lambda>(_, p). if list_ex (\<lambda>a. as_participant a = pa_id p) (rd_assignments db) then 1 else 0 :: nat)
       (sort_key (room_rank db) (sort_key (\<lambda>(_, p). re_names env (pa_name p)) ms))"

primrec open_rows :: "rooming_env \<Rightarrow> rooming_db \<Rightarrow> (booking \<times> participant) list \<Rightarrow> group_row list result" where
  "open_rows env db [] = Inr []"
| "open_rows env db (m # ms) =
     (case re_open env (snd m) of
        Inl e \<Rightarrow> Inl e
      | Inr passport \<Rightarrow> (case open_rows env db ms of Inl e \<Rightarrow> Inl e | Inr rs \<Rightarrow> Inr (group_row_of env db (fst m) (snd m) passport # rs)))"

definition repo_group_list :: "rooming_env \<Rightarrow> uuid \<Rightarrow> (rooming_db, group_row list) uow" where
  "repo_group_list env dep =
     and_then (lift_result (visible_booking (re_booking env))) (\<lambda>sees.
     and_then (reading (\<lambda>db. open_rows env db (sorted_members env db (group_members sees dep db)))) (\<lambda>rows. lift_result rows))"

section \<open>Service\<close>

record room_input =
  ro_branch :: uuid
  ro_label :: string
  ro_type :: room_type
  ro_capacity :: int
  ro_notes :: string
  ro_sort :: int

record room_patch =
  rp_label :: "string option"
  rp_type :: "room_type option"
  rp_capacity :: "int option"
  rp_notes :: "string option"
  rp_sort :: "int option"

definition create_room :: "rooming_env \<Rightarrow> uuid \<Rightarrow> room_input \<Rightarrow> (rooming_db, room) uow" where
  "create_room env dep inp =
     and_then (ensure (ro_branch inp \<noteq> uuid_nil) (new_validation ''branch_id is required'')) (\<lambda>_.
     and_then (lift_result (room_normalize \<lparr>rm_id = re_fresh env, rm_departure = dep, rm_branch = ro_branch inp, rm_label = ro_label inp,
         rm_type = ro_type inp, rm_capacity = ro_capacity inp, rm_notes = ro_notes inp, rm_sort = ro_sort inp,
         rm_created = re_now env, rm_assigned = 0\<rparr>)) (insert_room env))"

text \<open>The search among the rooms of the departure.\<close>

definition room_of :: "rooming_env \<Rightarrow> uuid \<Rightarrow> uuid \<Rightarrow> (rooming_db, room) uow" where
  "room_of env dep i =
     and_then (list_rooms env dep) (\<lambda>rs. case find (\<lambda>r. rm_id r = i) rs of None \<Rightarrow> fail (new_not_found ''room'') | Some r \<Rightarrow> ret r)"

definition patched :: "room_patch \<Rightarrow> room \<Rightarrow> room" where
  "patched p r =
     r\<lparr>rm_label := (case rp_label p of None \<Rightarrow> rm_label r | Some x \<Rightarrow> x),
       rm_type := (case rp_type p of None \<Rightarrow> rm_type r | Some x \<Rightarrow> x),
       rm_capacity := (case rp_capacity p of None \<Rightarrow> rm_capacity r | Some x \<Rightarrow> x),
       rm_notes := (case rp_notes p of None \<Rightarrow> rm_notes r | Some x \<Rightarrow> x),
       rm_sort := (case rp_sort p of None \<Rightarrow> rm_sort r | Some x \<Rightarrow> x)\<rparr>"

definition update_room :: "rooming_env \<Rightarrow> uuid \<Rightarrow> uuid \<Rightarrow> room_patch \<Rightarrow> (rooming_db, room) uow" where
  "update_room env dep i p =
     and_then (room_of env dep i) (\<lambda>r.
     and_then (lift_result (room_normalize (patched p r))) (\<lambda>r.
     and_then (update_room_row env r) (\<lambda>_. ret r)))"

definition delete_room :: "rooming_env \<Rightarrow> uuid \<Rightarrow> uuid \<Rightarrow> (rooming_db, unit) uow" where
  "delete_room env dep i =
     and_then (room_of env dep i) (\<lambda>_. \<lambda>db.
       case delete_room_row env i db of Inl _ \<Rightarrow> Inl (new_not_found ''room'') | Inr x \<Rightarrow> Inr x)"

definition assign_room :: "rooming_env \<Rightarrow> uuid \<Rightarrow> uuid \<Rightarrow> uuid \<Rightarrow> uuid \<Rightarrow> uuid \<Rightarrow> (rooming_db, assignment) uow" where
  "assign_room env dep i pid bid actor =
     and_then (ensure (pid \<noteq> uuid_nil \<and> bid \<noteq> uuid_nil) (new_validation ''participant_id and booking_id are required'')) (\<lambda>_.
     and_then (room_of env dep i) (\<lambda>r.
     and_then (ensure (\<not> room_full r) (new_invalid_state ''room is at capacity'')) (\<lambda>_.
     let a = \<lparr>as_id = re_fresh env, as_room = i, as_participant = pid, as_booking = bid, as_at = re_now env,
              as_by = (if actor \<noteq> uuid_nil then Some actor else None)\<rparr>
     in and_then (put_assignment env a) (\<lambda>_. ret a))))"

definition unassign :: "rooming_env \<Rightarrow> uuid \<Rightarrow> (rooming_db, unit) uow" where
  "unassign env pid =
     and_then (ensure (pid \<noteq> uuid_nil) (new_validation ''participant_id is required'')) (\<lambda>_. \<lambda>db.
       case drop_assignment env pid db of Inl _ \<Rightarrow> Inl (new_not_found ''assignment'') | Inr x \<Rightarrow> Inr x)"

definition masked_row :: "bool \<Rightarrow> group_row \<Rightarrow> group_row" where
  "masked_row reveal r =
     r\<lparr>gr_last4 := passport_last4 (gr_passport r), gr_passport := (if reveal then gr_passport r else masked_passport (gr_passport r))\<rparr>"

definition group_list :: "rooming_env \<Rightarrow> uuid \<Rightarrow> bool \<Rightarrow> (rooming_db, group_row list) uow" where
  "group_list env dep reveal = and_then (repo_group_list env dep) (\<lambda>rows. ret (map (masked_row reveal) rows))"

section \<open>Export\<close>

definition csv_escape :: "string \<Rightarrow> string" where
  "csv_escape s =
     (if list_ex (\<lambda>c. c \<in> {CHR '','', CHR 0x22, CHR 0x0A}) s
      then CHR 0x22 # concat (map (\<lambda>c. if c = CHR 0x22 then [c, c] else [c]) s) @ [CHR 0x22] else s)"

definition csv_header :: string where
  "csv_header = ''participant_id,booking_id,full_name,passport_no,nationality,room_label,unassigned'' @ [CHR 0x0A]"

definition csv_line :: "(uuid \<Rightarrow> string) \<Rightarrow> group_row \<Rightarrow> string" where
  "csv_line idtext r =
     idtext (gr_participant r) @ '','' @ idtext (gr_booking r) @ '','' @ csv_escape (gr_name r) @ '','' @ csv_escape (gr_passport r)
       @ '','' @ csv_escape (gr_nationality r) @ '','' @ csv_escape (gr_label r) @ '','' @ (if gr_unassigned r then ''1'' else ''0'') @ [CHR 0x0A]"

definition export_csv :: "(uuid \<Rightarrow> string) \<Rightarrow> group_row list \<Rightarrow> string" where
  "export_csv idtext rows = csv_header @ concat (map (csv_line idtext) rows)"

section \<open>The invariant of the assignments\<close>

definition placed :: "rooming_db \<Rightarrow> assignment \<Rightarrow> bool" where
  "placed db a \<longleftrightarrow>
     (\<exists>r \<in> set (rd_rooms db). rm_id r = as_room a
        \<and> (\<exists>b \<in> set (db_bookings (rd_core db)). b_id b = as_booking a \<and> b_departure b = rm_departure r))
     \<and> (\<exists>p \<in> set (db_participants (rd_core db)). pa_id p = as_participant a \<and> pa_booking p = as_booking a)"

lemma placedI:
  assumes "r \<in> set (rd_rooms db)" "rm_id r = as_room a" "b \<in> set (db_bookings (rd_core db))" "b_id b = as_booking a"
    "b_departure b = rm_departure r" "p \<in> set (db_participants (rd_core db))" "pa_id p = as_participant a" "pa_booking p = as_booking a"
  shows "placed db a"
  using assms unfolding placed_def by blast

lemma placed_room: "placed db a \<Longrightarrow> as_room a \<in> rm_id ` set (rd_rooms db)"
  by (force simp: placed_def)

lemma placed_again: "placed db a \<Longrightarrow> as_room x = as_room a \<Longrightarrow> as_booking x = as_booking a \<Longrightarrow> as_participant x = as_participant a \<Longrightarrow> placed db x"
  by (simp add: placed_def)

definition rooming_ok :: "rooming_db \<Rightarrow> bool" where
  "rooming_ok db \<longleftrightarrow> distinct (map rm_id (rd_rooms db)) \<and> (\<forall>r \<in> set (rd_rooms db). 0 < rm_capacity r)
     \<and> distinct (map as_participant (rd_assignments db)) \<and> (\<forall>a \<in> set (rd_assignments db). placed db a)"

text \<open>What other services do to the bookings and travellers, with the cascades of the schema.\<close>

definition places_kept :: "booking_db \<Rightarrow> booking_db \<Rightarrow> bool" where
  "places_kept core core' \<longleftrightarrow>
     (\<forall>b \<in> set (db_bookings core). \<forall>b' \<in> set (db_bookings core'). b_id b = b_id b' \<longrightarrow> b_departure b = b_departure b')
     \<and> (\<forall>p \<in> set (db_participants core). \<forall>p' \<in> set (db_participants core'). pa_id p = pa_id p' \<longrightarrow> pa_booking p = pa_booking p')"

definition cascaded :: "booking_db \<Rightarrow> rooming_db \<Rightarrow> rooming_db" where
  "cascaded core db = db\<lparr>rd_core := core, rd_assignments := filter (\<lambda>a. list_ex (\<lambda>b. b_id b = as_booking a) (db_bookings core)
     \<and> list_ex (\<lambda>p. pa_id p = as_participant a) (db_participants core)) (rd_assignments db)\<rparr>"

inductive rooming_step :: "rooming_db \<Rightarrow> rooming_db \<Rightarrow> bool" where
  create: "create_room env dep inp db = Inr (r, db') \<Longrightarrow> rooming_step db db'"
| change: "update_room env dep i p db = Inr (r, db') \<Longrightarrow> rooming_step db db'"
| delete: "delete_room env dep i db = Inr (u, db') \<Longrightarrow> rooming_step db db'"
| assign: "assign_room env dep i pid bid actor db = Inr (a, db') \<Longrightarrow> rooming_step db db'"
| leave: "unassign env pid db = Inr (u, db') \<Longrightarrow> rooming_step db db'"
| others: "places_kept (rd_core db) core \<Longrightarrow> rooming_step db (cascaded core db)"

lemma room_normalize_Inr:
  "room_normalize r = Inr r' \<Longrightarrow> 0 < rm_capacity r' \<and> rm_capacity r' = rm_capacity r \<and> rm_id r' = rm_id r \<and> rm_departure r' = rm_departure r"
  by (auto simp: room_normalize_def Let_def split: if_splits)

lemma list_rooms_Inr:
  assumes "list_rooms env dep db = Inr (rs, db')"
  shows "db' = db" "set rs \<subseteq> (\<lambda>r. r\<lparr>rm_assigned := occupancy db (rm_id r)\<rparr>) ` {r \<in> set (rd_rooms db). rm_departure r = dep}"
  using assms unfolding list_rooms_def by (auto elim!: and_then_InrE lift_result_InrE)

lemma room_of_Inr:
  assumes "room_of env dep i db = Inr (r, db')"
  obtains x where "db' = db" "x \<in> set (rd_rooms db)" "rm_id x = i" "rm_departure x = dep" "r = x\<lparr>rm_assigned := occupancy db i\<rparr>"
proof -
  obtain rs d where l: "list_rooms env dep db = Inr (rs, d)" and f: "find (\<lambda>r. rm_id r = i) rs = Some r" "db' = d"
    using assms unfolding room_of_def by (auto elim!: and_then_InrE split: option.splits)
  then have "r \<in> set rs" "rm_id r = i" by (auto simp: find_Some_iff)
  with list_rooms_Inr [OF l] f(2) that show thesis by auto
qed

lemma insert_room_Inr:
  assumes "insert_room env r db = Inr (r', db')"
  shows "\<exists>b. r' = r\<lparr>rm_branch := b\<rparr> \<and> db' = db\<lparr>rd_rooms := rd_rooms db @ [r']\<rparr> \<and> rm_id r \<notin> rm_id ` set (rd_rooms db)"
  using assms unfolding insert_room_def Let_def
  by (auto elim!: and_then_InrE lift_result_InrE split: option.splits if_splits simp: list_ex_iff)

lemma create_room_Inr:
  assumes "create_room env dep inp db = Inr (r, db')"
  shows "db' = db\<lparr>rd_rooms := rd_rooms db @ [r]\<rparr>" "rm_id r \<notin> rm_id ` set (rd_rooms db)" "0 < rm_capacity r"
proof -
  have "\<exists>r0. insert_room env r0 db = Inr (r, db') \<and> 0 < rm_capacity r0"
    using assms unfolding create_room_def
    by (elim and_then_InrE lift_result_InrE) (auto dest!: room_normalize_Inr split: if_splits)
  then obtain r0 where "insert_room env r0 db = Inr (r, db')" "0 < rm_capacity r0" by blast
  from insert_room_Inr [OF this(1)] this(2)
  show "db' = db\<lparr>rd_rooms := rd_rooms db @ [r]\<rparr>" "rm_id r \<notin> rm_id ` set (rd_rooms db)" "0 < rm_capacity r" by auto
qed

lemma update_room_Inr:
  assumes "update_room env dep i p db = Inr (r, db')"
  shows "\<exists>f. db' = db\<lparr>rd_rooms := map f (rd_rooms db)\<rparr> \<and> (\<forall>x. rm_id (f x) = rm_id x \<and> rm_departure (f x) = rm_departure x)
    \<and> (\<forall>x. 0 < rm_capacity x \<longrightarrow> 0 < rm_capacity (f x))"
proof -
  obtain q d where q: "room_of env dep i db = Inr (q, d)" "room_normalize (patched p q) = Inr r" "update_room_row env r d = Inr ((), db')"
    using assms unfolding update_room_def by (elim and_then_InrE lift_result_InrE) auto
  have d: "d = db" by (rule room_of_Inr [OF q(1)])
  obtain sees where "db' = db\<lparr>rd_rooms := map (\<lambda>x. if rm_id x = rm_id r \<and> sees x then room_columns r x else x) (rd_rooms db)\<rparr>"
    using q(3) unfolding d update_room_row_def Let_def by (auto elim!: and_then_InrE lift_result_InrE split: if_splits)
  then show ?thesis using room_normalize_Inr [OF q(2)]
    by (intro exI [of _ "\<lambda>x. if rm_id x = rm_id r \<and> sees x then room_columns r x else x"]) (auto simp: room_columns_def)
qed

lemma delete_room_Inr:
  assumes "delete_room env dep i db = Inr (u, db')"
  shows "\<exists>hit. (\<forall>x. hit x \<longrightarrow> rm_id x = i) \<and> db' = db\<lparr>rd_rooms := filter (\<lambda>x. \<not> hit x) (rd_rooms db),
    rd_assignments := filter (\<lambda>a. \<not> list_ex (\<lambda>x. hit x \<and> rm_id x = as_room a) (rd_rooms db)) (rd_assignments db)\<rparr>"
proof -
  obtain q d where q: "room_of env dep i db = Inr (q, d)" "delete_room_row env i d = Inr (u, db')"
    using assms unfolding delete_room_def by (elim and_then_InrE) (auto split: sum.splits)
  have d: "d = db" by (rule room_of_Inr [OF q(1)])
  obtain sees where "db' = db\<lparr>rd_rooms := filter (\<lambda>x. \<not> (rm_id x = i \<and> sees x)) (rd_rooms db),
      rd_assignments := filter (\<lambda>a. \<not> list_ex (\<lambda>x. (rm_id x = i \<and> sees x) \<and> rm_id x = as_room a) (rd_rooms db)) (rd_assignments db)\<rparr>"
    using q(2) unfolding d delete_room_row_def Let_def by (auto elim!: and_then_InrE lift_result_InrE split: if_splits)
  then show ?thesis by (intro exI [of _ "\<lambda>x. rm_id x = i \<and> sees x"]) simp
qed

text \<open>The assignment a traveller gets, as the row that was there or a new one.\<close>

definition reassigned :: "assignment \<Rightarrow> assignment \<Rightarrow> assignment" where
  "reassigned a x = (if as_participant x = as_participant a
     then x\<lparr>as_room := as_room a, as_booking := as_booking a, as_at := as_at a, as_by := as_by a\<rparr> else x)"

definition put :: "assignment \<Rightarrow> assignment list \<Rightarrow> assignment list" where
  "put a xs = (if list_ex (\<lambda>x. as_participant x = as_participant a) xs then map (reassigned a) xs else xs @ [a])"

lemma put_assignment_Inr:
  assumes "put_assignment env a db = Inr (u, db')"
  shows "placed db a \<and> db' = db\<lparr>rd_assignments := put a (rd_assignments db)\<rparr>"
proof -
  obtain d where e: "ensure_assignable env a db = Inr ((), d)"
    and w: "d\<lparr>rd_assignments := put a (rd_assignments d)\<rparr> = db'"
    using assms unfolding put_assignment_def put_def reassigned_def [abs_def]
    by (elim and_then_InrE) (auto split: if_splits)
  from e have "placed db a \<and> d = db"
    unfolding ensure_assignable_def by (auto elim!: and_then_InrE lift_result_InrE split: if_splits simp: list_ex_iff) (rule placedI, assumption+)
  with w show ?thesis by auto
qed

lemma assign_room_Inr:
  assumes "assign_room env dep i pid bid actor db = Inr (a, db')"
  obtains x where "x \<in> set (rd_rooms db)" "rm_id x = i" "occupancy db i < rm_capacity x" "as_room a = i" "as_participant a = pid"
    "as_booking a = bid" "placed db a" "db' = db\<lparr>rd_assignments := put a (rd_assignments db)\<rparr>"
proof -
  obtain r d u where r: "room_of env dep i db = Inr (r, d)" "\<not> room_full r" "put_assignment env a d = Inr (u, db')"
      "as_room a = i" "as_participant a = pid" "as_booking a = bid"
    using assms unfolding assign_room_def Let_def by (elim and_then_InrE) (auto split: if_splits)
  from r(1) obtain x where x: "d = db" "x \<in> set (rd_rooms db)" "rm_id x = i" "r = x\<lparr>rm_assigned := occupancy db i\<rparr>" by (rule room_of_Inr)
  show thesis using that x r put_assignment_Inr [OF r(3)] by (simp add: room_full_def)
qed

lemma unassign_Inr:
  assumes "unassign env pid db = Inr (u, db')"
  shows "\<exists>keep. db' = db\<lparr>rd_assignments := filter keep (rd_assignments db)\<rparr>"
  using assms unfolding unassign_def drop_assignment_def
  by (auto elim!: and_then_InrE lift_result_InrE split: sum.splits if_splits) (rule exI, rule refl)

lemma placed_cong:
  "placed db a \<Longrightarrow> rd_rooms db' = rd_rooms db \<Longrightarrow> rd_core db' = rd_core db \<Longrightarrow> placed db' a"
  by (simp add: placed_def)

lemma placed_map:
  assumes "placed db a" "\<And>x. rm_id (f x) = rm_id x \<and> rm_departure (f x) = rm_departure x"
  shows "placed (db\<lparr>rd_rooms := map f (rd_rooms db)\<rparr>) a"
  using assms unfolding placed_def by auto

lemma put_participants: "distinct (map as_participant xs) \<Longrightarrow> distinct (map as_participant (put a xs))"
proof -
  have "map as_participant (map (reassigned a) xs) = map as_participant xs" by (simp add: reassigned_def)
  moreover assume "distinct (map as_participant xs)"
  ultimately show "distinct (map as_participant (put a xs))" by (auto simp: put_def list_ex_iff simp del: map_map)
qed

lemma put_placed:
  assumes "x \<in> set (put a xs)" "placed db a" "\<forall>y \<in> set xs. placed db y"
  shows "placed db x"
  using assms by (auto simp: put_def reassigned_def split: if_splits intro: placed_again)

lemma rooming_step_ok:
  assumes "rooming_ok db" "rooming_step db db'"
  shows "rooming_ok db'"
  using assms(2)
proof cases
  case (create env dep inp r)
  note c = create_room_Inr [OF create]
  have "placed db' a" if "placed db a" for a using that c(1) unfolding placed_def by auto
  with assms(1) c show ?thesis by (auto simp: rooming_ok_def)
next
  case (change env dep i p r)
  from update_room_Inr [OF this] obtain f where f: "db' = db\<lparr>rd_rooms := map f (rd_rooms db)\<rparr>"
      "\<And>x. rm_id (f x) = rm_id x \<and> rm_departure (f x) = rm_departure x" "\<And>x. 0 < rm_capacity x \<Longrightarrow> 0 < rm_capacity (f x)" by blast
  have "map rm_id (map f (rd_rooms db)) = map rm_id (rd_rooms db)" using f(2) by simp
  with assms(1) f placed_map [of db _ f] show ?thesis by (auto simp: rooming_ok_def simp del: map_map)
next
  case (delete env dep i)
  from delete_room_Inr [OF this] obtain hit where h: "\<And>x. hit x \<Longrightarrow> rm_id x = i"
    "db' = db\<lparr>rd_rooms := filter (\<lambda>x. \<not> hit x) (rd_rooms db),
       rd_assignments := filter (\<lambda>a. \<not> list_ex (\<lambda>x. hit x \<and> rm_id x = as_room a) (rd_rooms db)) (rd_assignments db)\<rparr>" by blast
  have "placed db' a" if "placed db a" "\<not> list_ex (\<lambda>x. hit x \<and> rm_id x = as_room a) (rd_rooms db)" for a
    using that h(2) unfolding placed_def list_ex_iff by fastforce
  with assms(1) h(2) show ?thesis by (auto simp: rooming_ok_def distinct_map inj_on_def)
next
  case (assign env dep i pid bid actor a)
  from assign_room_Inr [OF this] obtain "placed db a" "db' = db\<lparr>rd_assignments := put a (rd_assignments db)\<rparr>" by metis
  then show ?thesis using assms(1) put_participants put_placed placed_cong [of db _ db'] by (auto simp: rooming_ok_def)
next
  case (leave env pid)
  from unassign_Inr [OF this] obtain keep where "db' = db\<lparr>rd_assignments := filter keep (rd_assignments db)\<rparr>" by blast
  with assms(1) show ?thesis by (auto simp: rooming_ok_def placed_def distinct_map inj_on_def)
next
  case (others core)
  have "placed db' a" if "placed db a" "a \<in> set (rd_assignments db')" for a
    using that others unfolding placed_def places_kept_def cascaded_def list_ex_iff by fastforce
  with assms(1) others(1) show ?thesis by (auto simp: rooming_ok_def cascaded_def distinct_map inj_on_def)
qed

definition no_rooms :: "rooming_db \<Rightarrow> bool" where "no_rooms db \<longleftrightarrow> rd_rooms db = [] \<and> rd_assignments db = []"

interpretation roomings: invariant_machine no_rooms rooming_step rooming_ok
  by unfold_locales (simp add: no_rooms_def rooming_ok_def, rule rooming_step_ok)

section \<open>Capacity\<close>

definition within_capacity :: "rooming_db \<Rightarrow> bool" where
  "within_capacity db \<longleftrightarrow> (\<forall>r \<in> set (rd_rooms db). occupancy db (rm_id r) \<le> rm_capacity r)"

text \<open>No room is given fewer places than travellers it has.\<close>

definition no_cut :: "rooming_db \<Rightarrow> rooming_db \<Rightarrow> bool" where
  "no_cut db db' \<longleftrightarrow> (\<forall>r \<in> set (rd_rooms db). \<forall>r' \<in> set (rd_rooms db'). rm_id r = rm_id r' \<longrightarrow> occupancy db (rm_id r) \<le> rm_capacity r')"

lemma filter_count_le: "length (filter P (filter Q xs)) \<le> length (filter P xs)"
  by (induction xs) auto

lemma occupancy_filter:
  "\<exists>keep. rd_assignments db' = filter keep (rd_assignments db) \<Longrightarrow> occupancy db' i \<le> occupancy db i"
  using filter_count_le [of "\<lambda>a. as_room a = i"] by (auto simp: occupancy_def)

lemma reassigned_other: "pid \<notin> as_participant ` set xs \<Longrightarrow> as_participant a = pid \<Longrightarrow> map (reassigned a) xs = xs"
  by (induction xs) (auto simp: reassigned_def)

lemma reassigned_count:
  "distinct (map as_participant xs) \<Longrightarrow>
     length (filter (\<lambda>x. as_room x = i) (map (reassigned a) xs))
     \<le> length (filter (\<lambda>x. as_room x = i) xs) + (if as_room a = i then 1 else 0)"
proof (induction xs)
  case (Cons x xs)
  show ?case
  proof (cases "as_participant x = as_participant a")
    case True
    then have "map (reassigned a) xs = xs" using Cons.prems by (auto intro: reassigned_other)
    moreover have "as_room (reassigned a x) = as_room a" using True by (simp add: reassigned_def)
    ultimately show ?thesis by simp
  next
    case False
    then have "reassigned a x = x" by (simp add: reassigned_def)
    with Cons show ?thesis by (simp split: if_splits)
  qed
qed simp

lemma occupancy_put:
  assumes "rd_assignments db' = put a (rd_assignments db)" "distinct (map as_participant (rd_assignments db))"
  shows "occupancy db' i \<le> occupancy db i + (if as_room a = i then 1 else 0)"
  using reassigned_count [OF assms(2), of i a] by (simp add: occupancy_def assms(1) put_def split: if_splits)

lemma careful_step:
  assumes "rooming_ok db" "within_capacity db" "rooming_step db db'" "no_cut db db'"
  shows "within_capacity db'"
  unfolding within_capacity_def
proof
  fix r' assume r': "r' \<in> set (rd_rooms db')"
  have same: "occupancy db' (rm_id r') \<le> rm_capacity r'"
    if "occupancy db' (rm_id r') \<le> occupancy db (rm_id r')" "\<exists>r \<in> set (rd_rooms db). rm_id r = rm_id r'"
    using that assms(4) r' unfolding no_cut_def by fastforce
  from assms(3) show "occupancy db' (rm_id r') \<le> rm_capacity r'"
  proof cases
    case (create env dep inp r)
    note c = create_room_Inr [OF create]
    have "filter (\<lambda>a. as_room a = rm_id r) (rd_assignments db) = []"
      using assms(1) c(2) placed_room [of db] unfolding rooming_ok_def filter_empty_conv by metis
    then have "occupancy db (rm_id r) = 0" by (simp add: occupancy_def)
    with c r' same show ?thesis by (auto simp: occupancy_def)
  next
    case (change env dep i p r)
    from update_room_Inr [OF this] obtain f where f: "db' = db\<lparr>rd_rooms := map f (rd_rooms db)\<rparr>"
      "\<And>x. rm_id (f x) = rm_id x" by blast
    then obtain x where "x \<in> set (rd_rooms db)" "r' = f x" using r' by auto
    then have "\<exists>x \<in> set (rd_rooms db). rm_id x = rm_id r'" using f(2) by auto
    with f(1) same show ?thesis by (simp add: occupancy_def)
  next
    case (delete env dep i)
    from delete_room_Inr [OF this] show ?thesis by (intro same [OF occupancy_filter]) (use r' in auto)
  next
    case (assign env dep i pid bid actor a)
    from this obtain x where x: "x \<in> set (rd_rooms db)" "rm_id x = i" "occupancy db i < rm_capacity x" "as_room a = i"
      and d: "db' = db\<lparr>rd_assignments := put a (rd_assignments db)\<rparr>" by (rule assign_room_Inr)
    have occ: "occupancy db' (rm_id r') \<le> occupancy db (rm_id r') + (if as_room a = rm_id r' then 1 else 0)"
      using d assms(1) by (intro occupancy_put) (auto simp: rooming_ok_def)
    show ?thesis
    proof (cases "rm_id r' = i")
      case True
      with r' d x(1,2) assms(1) have "r' = x" by (auto simp: rooming_ok_def distinct_map dest: inj_onD)
      with occ x True show ?thesis by simp
    next
      case False
      with occ x(4) d r' same show ?thesis by auto
    qed
  next
    case (leave env pid)
    from unassign_Inr [OF this] show ?thesis by (intro same [OF occupancy_filter]) (use r' in auto)
  next
    case (others core)
    then show ?thesis by (intro same [OF occupancy_filter]) (use r' in \<open>auto simp: cascaded_def\<close>)
  qed
qed

section \<open>Reading the export back\<close>

text \<open>A reader of the format: records end with a line feed, a quoted cell doubles its quotes.\<close>

datatype csv_mode = CellStart | InPlain | InQuotes | QuoteSeen

fun csv_read :: "csv_mode \<Rightarrow> string \<Rightarrow> string list \<Rightarrow> string \<Rightarrow> string list list" where
  "csv_read m cell rec [] = (if m = CellStart \<and> rec = [] then [] else [rec @ [cell]])"
| "csv_read CellStart cell rec (c # cs) =
     (if c = CHR 0x22 then csv_read InQuotes [] rec cs
      else if c = CHR '','' then csv_read CellStart [] (rec @ [[]]) cs
      else if c = CHR 0x0A then (rec @ [[]]) # csv_read CellStart [] [] cs
      else csv_read InPlain [c] rec cs)"
| "csv_read InPlain cell rec (c # cs) =
     (if c = CHR '','' then csv_read CellStart [] (rec @ [cell]) cs
      else if c = CHR 0x0A then (rec @ [cell]) # csv_read CellStart [] [] cs
      else csv_read InPlain (cell @ [c]) rec cs)"
| "csv_read InQuotes cell rec (c # cs) =
     (if c = CHR 0x22 then csv_read QuoteSeen cell rec cs else csv_read InQuotes (cell @ [c]) rec cs)"
| "csv_read QuoteSeen cell rec (c # cs) =
     (if c = CHR 0x22 then csv_read InQuotes (cell @ [c]) rec cs
      else if c = CHR '','' then csv_read CellStart [] (rec @ [cell]) cs
      else if c = CHR 0x0A then (rec @ [cell]) # csv_read CellStart [] [] cs
      else csv_read InPlain (cell @ [c]) rec cs)"

definition csv_special :: "char \<Rightarrow> bool" where "csv_special c \<longleftrightarrow> c \<in> {CHR '','', CHR 0x22, CHR 0x0A}"

lemma read_plain: "\<not> list_ex csv_special s \<Longrightarrow> csv_read InPlain cell rec (s @ t) = csv_read InPlain (cell @ s) rec t"
  by (induction s arbitrary: cell) (auto simp: csv_special_def)

lemma read_quoted:
  "csv_read InQuotes cell rec (concat (map (\<lambda>c. if c = CHR 0x22 then [c, c] else [c]) s) @ CHR 0x22 # t)
     = csv_read QuoteSeen (cell @ s) rec t"
  by (induction s arbitrary: cell) auto

lemma csv_escape_alt:
  "csv_escape s = (if list_ex csv_special s
     then CHR 0x22 # concat (map (\<lambda>c. if c = CHR 0x22 then [c, c] else [c]) s) @ [CHR 0x22] else s)"
  by (simp add: csv_escape_def csv_special_def [abs_def])

lemma read_cell:
  "csv_read CellStart [] rec (csv_escape s @ CHR '','' # t) = csv_read CellStart [] (rec @ [s]) t"
  "csv_read CellStart [] rec (csv_escape s @ CHR 0x0A # t) = (rec @ [s]) # csv_read CellStart [] [] t"
proof -
  have start: "csv_read CellStart [] rec (s @ u) = csv_read InPlain s rec u" if "\<not> list_ex csv_special s" "s \<noteq> []" for u
    using that read_plain [of "tl s" "[hd s]" rec u] by (cases s) (auto simp: csv_special_def)
  show "csv_read CellStart [] rec (csv_escape s @ CHR '','' # t) = csv_read CellStart [] (rec @ [s]) t"
    "csv_read CellStart [] rec (csv_escape s @ CHR 0x0A # t) = (rec @ [s]) # csv_read CellStart [] [] t"
    by (cases "s = []"; simp add: csv_escape_alt start read_quoted)+
qed

definition row_cells :: "(uuid \<Rightarrow> string) \<Rightarrow> group_row \<Rightarrow> string list" where
  "row_cells idtext r = [idtext (gr_participant r), idtext (gr_booking r), gr_name r, gr_passport r, gr_nationality r, gr_label r,
     if gr_unassigned r then ''1'' else ''0'']"

lemma read_line:
  assumes "\<forall>i. \<not> list_ex csv_special (idtext i)"
  shows "csv_read CellStart [] [] (csv_line idtext r @ t) = row_cells idtext r # csv_read CellStart [] [] t"
proof -
  have plain: "csv_escape s = s" if "\<not> list_ex csv_special s" for s using that by (simp add: csv_escape_alt)
  have ids: "csv_escape (idtext i) = idtext i" for i using assms plain by blast
  let ?u = "if gr_unassigned r then ''1'' else ''0''"
  have u: "csv_escape ?u = ?u" by (rule plain) (simp add: csv_special_def)
  have "csv_line idtext r @ t = csv_escape (idtext (gr_participant r)) @ CHR '','' # csv_escape (idtext (gr_booking r)) @ CHR '','' #
      csv_escape (gr_name r) @ CHR '','' # csv_escape (gr_passport r) @ CHR '','' # csv_escape (gr_nationality r) @ CHR '','' #
      csv_escape (gr_label r) @ CHR '','' # csv_escape ?u @ CHR 0x0A # t"
    unfolding ids u by (simp add: csv_line_def)
  then show ?thesis by (simp only: read_cell row_cells_def append_Nil append_Cons)
qed

section \<open>Properties\<close>

definition ex_rooming_env :: rooming_env where
  "ex_rooming_env = \<lparr>re_booking = \<lparr>e_scope = Some (for_branch 10), e_users = (\<lambda>_. None), e_package_branch = (\<lambda>_. Some 10), e_docs = None,
       e_audit = None, e_now = midnight 700000, e_loc = utc_loc\<rparr>,
     re_fresh = 50, re_now = midnight 700000, re_text = (\<lambda>_. ''u''), re_open = (\<lambda>p. Inr (pa_passport p)), re_names = length\<rparr>"

definition ex_traveller :: "uuid \<Rightarrow> string \<Rightarrow> participant" where
  "ex_traveller i name = \<lparr>pa_id = i, pa_booking = 20, pa_name = name, pa_passport = ''AB123456'', pa_nationality = ''TR'', pa_birth = None,
     pa_gender = [], pa_national_id = [], pa_national_id_last4 = [], pa_health_ok = True, pa_created = midnight 0\<rparr>"

definition ex_departure40 :: departure where
  "ex_departure40 = \<lparr>dp_id = 40, dp_package = 1, dp_code = [], dp_depart = midnight 0, dp_return = midnight 0, dp_capacity_total = 9,
     dp_capacity_sold = 0, dp_base_price = 0, dp_currency = ''SAR'', dp_active = True, dp_sales_closed = False, dp_soft_threshold = 0,
     dp_allow_oversell = False, dp_created = midnight 0, dp_updated = midnight 0\<rparr>"

definition ex_rooming0 :: rooming_db where
  "ex_rooming0 = \<lparr>rd_core = \<lparr>db_bookings = [ex_draft\<lparr>b_id := 20, b_branch := 10, b_owner := 30, b_departure := 40\<rparr>],
       db_departures = [ex_departure40], db_participants = [ex_traveller 21 ''Ada, \"A\"'', ex_traveller 22 ''Bob''],
       db_checklist = [], db_overrides = [], db_lines = [], db_audit = []\<rparr>, rd_rooms = [], rd_assignments = []\<rparr>"

definition ex_rooming1 :: rooming_db where
  "ex_rooming1 = snd (projr (create_room ex_rooming_env 40 \<lparr>ro_branch = 10, ro_label = '' '', ro_type = UnknownRoom ''x'',
     ro_capacity = 2, ro_notes = [], ro_sort = 1\<rparr> ex_rooming0))"
definition ex_rooming2 :: rooming_db where "ex_rooming2 = snd (projr (assign_room ex_rooming_env 40 50 21 20 0 ex_rooming1))"
definition ex_rooming3 :: rooming_db where
  "ex_rooming3 = snd (projr (assign_room (ex_rooming_env\<lparr>re_fresh := 51\<rparr>) 40 50 22 20 0 ex_rooming2))"

lemma ex_rooming_run: "no_rooms ex_rooming0" "rooming_step ex_rooming0 ex_rooming1" "rooming_step ex_rooming1 ex_rooming2"
  "rooming_step ex_rooming2 ex_rooming3"
proof -
  have run: "\<exists>x. r = Inr (x, snd (projr r))" if "\<not> isl r" for r :: "('a \<times> rooming_db) result"
    using that by (cases r) auto
  show "no_rooms ex_rooming0" by (simp add: no_rooms_def ex_rooming0_def)
  have "\<not> isl (create_room ex_rooming_env 40 \<lparr>ro_branch = 10, ro_label = '' '', ro_type = UnknownRoom ''x'',
     ro_capacity = 2, ro_notes = [], ro_sort = 1\<rparr> ex_rooming0)" by code_simp
  from run [OF this] show "rooming_step ex_rooming0 ex_rooming1" unfolding ex_rooming1_def by (blast intro: rooming_step.create)
  have "\<not> isl (assign_room ex_rooming_env 40 50 21 20 0 ex_rooming1)" by code_simp
  from run [OF this] show "rooming_step ex_rooming1 ex_rooming2" unfolding ex_rooming2_def by (blast intro: rooming_step.assign)
  have "\<not> isl (assign_room (ex_rooming_env\<lparr>re_fresh := 51\<rparr>) 40 50 22 20 0 ex_rooming2)" by code_simp
  from run [OF this] show "rooming_step ex_rooming2 ex_rooming3" unfolding ex_rooming3_def by (blast intro: rooming_step.assign)
qed

text \<open>
  C12. Rooming lists are consistent: after any run of the room operations, with bookings and travellers coming and going, every
  assignment puts an existing traveller of an existing booking into an existing room of the departure the booking travels
  on, and a traveller has one room at most.
\<close>

theorem rooming_consistent:
  assumes "no_rooms db0" "rooming_step\<^sup>*\<^sup>* db0 db" "a \<in> set (rd_assignments db)" "a' \<in> set (rd_assignments db)"
  shows "(as_participant a = as_participant a' \<longrightarrow> a = a')
    \<and> (\<exists>r \<in> set (rd_rooms db). rm_id r = as_room a
        \<and> (\<exists>b \<in> set (db_bookings (rd_core db)). b_id b = as_booking a \<and> b_departure b = rm_departure r))
    \<and> (\<exists>p \<in> set (db_participants (rd_core db)). pa_id p = as_participant a \<and> pa_booking p = as_booking a)"
proof -
  have ok: "rooming_ok db" by (rule roomings.reachable_good [OF assms(1,2)])
  then have "placed db a" using assms(3) by (simp add: rooming_ok_def)
  moreover have "as_participant a = as_participant a' \<longrightarrow> a = a'"
    using ok assms(3,4) by (auto simp: rooming_ok_def distinct_map dest: inj_onD)
  ultimately show ?thesis unfolding placed_def by blast
qed

theorem rooming_consistent_witness:
  "map as_participant (rd_assignments ex_rooming3) = [21, 22]
    \<and> (\<exists>r \<in> set (rd_rooms ex_rooming3). rm_id r = 50
        \<and> (\<exists>b \<in> set (db_bookings (rd_core ex_rooming3)). b_id b = 20 \<and> b_departure b = rm_departure r))"
proof -
  have e: "map as_participant (rd_assignments ex_rooming3) = [21, 22]" "as_room (hd (rd_assignments ex_rooming3)) = 50"
    "as_booking (hd (rd_assignments ex_rooming3)) = 20" by code_simp+
  then have m: "hd (rd_assignments ex_rooming3) \<in> set (rd_assignments ex_rooming3)" by (cases "rd_assignments ex_rooming3") auto
  have "rooming_step\<^sup>*\<^sup>* ex_rooming0 ex_rooming3" using ex_rooming_run(2-4) by auto
  from rooming_consistent [OF ex_rooming_run(1) this m m] e show ?thesis by simp
qed

text \<open>
  C13. Rooms are not overfilled: as long as no room is given fewer places than it has travellers, no run puts more travellers
  into a room than it has places.
\<close>

theorem rooms_not_overfilled:
  assumes "no_rooms db0" "(\<lambda>d d'. rooming_step d d' \<and> no_cut d d')\<^sup>*\<^sup>* db0 db" "r \<in> set (rd_rooms db)"
  shows "occupancy db (rm_id r) \<le> rm_capacity r"
proof -
  have "rooming_ok db \<and> within_capacity db" using assms(2)
  proof (induction rule: rtranclp_induct)
    case base
    show ?case using assms(1) by (simp add: no_rooms_def rooming_ok_def within_capacity_def)
  next
    case (step d d')
    then show ?case using careful_step rooming_step_ok by blast
  qed
  with assms(3) show ?thesis by (simp add: within_capacity_def)
qed

theorem rooms_not_overfilled_witness:
  "map rm_capacity (rd_rooms ex_rooming3) = [2] \<and> occupancy ex_rooming3 50 \<le> 2
    \<and> assign_room (ex_rooming_env\<lparr>re_fresh := 52\<rparr>) 40 50 22 20 0 ex_rooming3 = Inl (new_invalid_state ''room is at capacity'')"
proof -
  have cut: "no_cut ex_rooming0 ex_rooming1" "no_cut ex_rooming1 ex_rooming2" "no_cut ex_rooming2 ex_rooming3"
    unfolding no_cut_def by code_simp+
  have "(\<lambda>d d'. rooming_step d d' \<and> no_cut d d')\<^sup>*\<^sup>* ex_rooming0 ex_rooming3"
    using ex_rooming_run(2-4) cut by (intro rtranclp.rtrancl_into_rtrancl [OF rtranclp.rtrancl_into_rtrancl [OF r_into_rtranclp]]) auto
  note fits = rooms_not_overfilled [OF ex_rooming_run(1) this]
  have e: "map rm_capacity (rd_rooms ex_rooming3) = [2]" "map rm_id (rd_rooms ex_rooming3) = [50]" by code_simp+
  then obtain r where "rd_rooms ex_rooming3 = [r]" "rm_id r = 50" "rm_capacity r = 2" by (cases "rd_rooms ex_rooming3") auto
  moreover have "assign_room (ex_rooming_env\<lparr>re_fresh := 52\<rparr>) 40 50 22 20 0 ex_rooming3 = Inl (new_invalid_state ''room is at capacity'')"
    by code_simp
  ultimately show ?thesis using fits [of r] e by simp
qed

text \<open>
  What the hypothesis excludes: a change may give a room fewer places than it has travellers. And a traveller of a full room
  cannot be assigned to it again, although nobody is added.
\<close>

lemma room_cut_below_occupancy:
  "map (\<lambda>r. (occupancy (snd (projr (update_room ex_rooming_env 40 50 \<lparr>rp_label = None, rp_type = None, rp_capacity = Some 1,
       rp_notes = None, rp_sort = None\<rparr> ex_rooming3))) (rm_id r), rm_capacity r))
     (rd_rooms (snd (projr (update_room ex_rooming_env 40 50 \<lparr>rp_label = None, rp_type = None, rp_capacity = Some 1,
       rp_notes = None, rp_sort = None\<rparr> ex_rooming3)))) = [(2, 1)]"
  by code_simp

text \<open>
  C28. The exported group list reads back: a reader of the format gets the header and, for every row, exactly its cells, whatever
  commas, quotes and line feeds names and labels contain.
\<close>

theorem group_csv_roundtrip:
  assumes "\<forall>i. \<not> list_ex csv_special (idtext i)"
  shows "csv_read CellStart [] [] (export_csv idtext rows)
    = [''participant_id'', ''booking_id'', ''full_name'', ''passport_no'', ''nationality'', ''room_label'', ''unassigned'']
      # map (row_cells idtext) rows"
proof -
  have "csv_read CellStart [] [] (concat (map (csv_line idtext) rows)) = map (row_cells idtext) rows"
    using read_line [OF assms] by (induction rows) auto
  then show ?thesis by (simp add: export_csv_def csv_header_def)
qed

definition ex_rows :: "group_row list" where
  "ex_rows = (case group_list ex_rooming_env 40 False ex_rooming2 of Inl _ \<Rightarrow> [] | Inr (rs, _) \<Rightarrow> rs)"

theorem group_csv_roundtrip_witness:
  "csv_read CellStart [] [] (export_csv (\<lambda>_. ''u'') ex_rows)
    = [[''participant_id'', ''booking_id'', ''full_name'', ''passport_no'', ''nationality'', ''room_label'', ''unassigned''],
       [''u'', ''u'', ''Bob'', bullet @ bullet @ bullet @ bullet @ ''3456'', ''TR'', [], ''1''],
       [''u'', ''u'', ''Ada, \"A\"'', bullet @ bullet @ bullet @ bullet @ ''3456'', ''TR'', ''double'', ''0'']]"
proof -
  have "map (row_cells (\<lambda>_. ''u'')) ex_rows = [[''u'', ''u'', ''Bob'', bullet @ bullet @ bullet @ bullet @ ''3456'', ''TR'', [], ''1''],
       [''u'', ''u'', ''Ada, \"A\"'', bullet @ bullet @ bullet @ bullet @ ''3456'', ''TR'', ''double'', ''0'']]" by code_simp
  then show ?thesis using group_csv_roundtrip [of "\<lambda>_. ''u''" ex_rows] by (simp add: csv_special_def)
qed

text \<open>What the masked list can tell apart: the last four characters and whether the passport is blank.\<close>

definition same_shown :: "string result \<Rightarrow> string result \<Rightarrow> bool" where
  "same_shown x y \<longleftrightarrow> (case (x, y) of
      (Inr p, Inr q) \<Rightarrow> passport_last4 p = passport_last4 q \<and> (trim_space p = [] \<longleftrightarrow> trim_space q = [])
    | (Inl e, Inl e') \<Rightarrow> e = e' | _ \<Rightarrow> False)"

lemma masked_row_shown:
  "passport_last4 p = passport_last4 q \<Longrightarrow> trim_space p = [] \<longleftrightarrow> trim_space q = [] \<Longrightarrow>
     masked_row False (group_row_of env db b x p) = masked_row False (group_row_of env' db b x q)"
  by (simp add: masked_row_def group_row_of_def Let_def masked_passport_def)

lemma open_rows_shown:
  assumes "\<forall>p. same_shown (re_open env p) (re_open env' p)"
  shows "map_sum id (map (masked_row False)) (open_rows env db ms) = map_sum id (map (masked_row False)) (open_rows env' db ms)"
proof (induction ms)
  case (Cons m ms)
  have "same_shown (re_open env (snd m)) (re_open env' (snd m))" using assms by blast
  then show ?case using Cons masked_row_shown
    by (cases "open_rows env db ms"; cases "open_rows env' db ms") (auto simp: same_shown_def split: sum.splits)
qed simp

text \<open>
  The masked group list shows of a passport its last four characters at most: two sets of passports that agree on them
  and on which are blank give the same list.
\<close>

theorem group_list_masks:
  assumes "\<forall>p. same_shown (re_open env p) (shown p)"
  shows "group_list env dep False db = group_list (env\<lparr>re_open := shown\<rparr>) dep False db"
proof (cases "visible_booking (re_booking env)")
  case (Inr sees)
  have s: "sorted_members (env\<lparr>re_open := shown\<rparr>) db ms = sorted_members env db ms" for ms by (simp add: sorted_members_def)
  let ?ms = "sorted_members env db (group_members sees dep db)"
  have "map_sum id (map (masked_row False)) (open_rows env db ?ms) = map_sum id (map (masked_row False)) (open_rows (env\<lparr>re_open := shown\<rparr>) db ?ms)"
    by (rule open_rows_shown) (use assms in simp)
  then show ?thesis using Inr
    by (cases "open_rows env db ?ms"; cases "open_rows (env\<lparr>re_open := shown\<rparr>) db ?ms")
       (auto simp: group_list_def repo_group_list_def and_then_def lift_result_def s)
qed (simp add: group_list_def repo_group_list_def and_then_def lift_result_def)

definition ex_open :: "string \<Rightarrow> string \<Rightarrow> participant \<Rightarrow> string result" where
  "ex_open x y p = Inr (if pa_id p = 21 then x else y)"

theorem group_list_masks_witness:
  "group_list (ex_rooming_env\<lparr>re_open := ex_open ''AB123456'' ''XY7''\<rparr>) 40 False ex_rooming2
    = group_list (ex_rooming_env\<lparr>re_open := ex_open ''zz 99993456'' ''K''\<rparr>) 40 False ex_rooming2"
proof -
  have "passport_last4 ''AB123456'' = passport_last4 ''zz 99993456''" "trim_space ''AB123456'' \<noteq> []" "trim_space ''zz 99993456'' \<noteq> []"
    "passport_last4 ''XY7'' = passport_last4 ''K''" "trim_space ''XY7'' \<noteq> []" "trim_space ''K'' \<noteq> []" by code_simp+
  then have "\<forall>p. same_shown (ex_open ''AB123456'' ''XY7'' p) (ex_open ''zz 99993456'' ''K'' p)"
    by (simp add: same_shown_def ex_open_def)
  then show ?thesis
    using group_list_masks [of "ex_rooming_env\<lparr>re_open := ex_open ''AB123456'' ''XY7''\<rparr>" "ex_open ''zz 99993456'' ''K''" 40 ex_rooming2] by simp
qed

end
