(* ===== verification/Go_Float.thy ===== *)
theory Go_Float
  imports Go_Prelude "HOL-Library.Log_Nat"
begin

text \<open>
  The part of \<^verbatim>\<open>float64\<close> that the program uses: the quotient of two integers, rounded to the nearest number with 53
  significant bits, ties to even. The quotients of 64-bit integers are far from the bounds of the exponent, so no
  overflow, subnormal number or infinity arises. A float is the rational number it stands for.
\<close>

definition binade :: "rat \<Rightarrow> int" where
  "binade x = (let (n, d) = quotient_of x; k = int (floorlog 2 (nat n)) - int (floorlog 2 (nat d))
     in if 2 powi k \<le> x then k else k - 1)"

definition round_even :: "rat \<Rightarrow> int" where
  "round_even x = (let f = \<lfloor>x\<rfloor>; r = x - of_int f
     in if r < 1 / 2 then f else if 1 / 2 < r then f + 1 else if even f then f else f + 1)"

definition float64 :: "rat \<Rightarrow> rat" where
  "float64 x = (if x = 0 then 0
     else let u = 2 powi (binade \<bar>x\<bar> - 52) in sgn x * of_int (round_even (\<bar>x\<bar> / u)) * u)"

definition float_quotient :: "int \<Rightarrow> int \<Rightarrow> rat" where
  "float_quotient a b = float64 (float64 (of_int a) / float64 (of_int b))"

lemma binade_bounds:
  assumes "0 < x"
  shows "2 powi (binade x) \<le> x" "x < 2 powi (binade x + 1)"
proof -
  obtain n d where q: "quotient_of x = (n, d)" by (cases "quotient_of x") auto
  have d: "0 < d" using quotient_of_denom_pos [OF q] .
  have x: "x = of_int n / of_int d" using quotient_of_div [OF q] .
  have n: "0 < n" using assms d by (simp add: x zero_less_divide_iff)
  define i j where "i = floorlog 2 (nat n)" and "j = floorlog 2 (nat d)"
  have ij: "0 < i" "0 < j" using n d by (auto simp: i_def j_def floorlog_def)
  have bounds: "(2::rat) ^ (floorlog 2 (nat m) - 1) \<le> of_int m" "of_int m < (2::rat) ^ floorlog 2 (nat m)" if "0 < m" for m
  proof -
    have "2 ^ (floorlog 2 (nat m) - 1) \<le> nat m" "nat m < 2 ^ floorlog 2 (nat m)"
      using floorlog_bounds [of "nat m" 2] that by auto
    then have "(2::int) ^ (floorlog 2 (nat m) - 1) \<le> m" "m < (2::int) ^ floorlog 2 (nat m)"
      using that by (auto simp: nat_less_iff le_nat_iff)
    then show "(2::rat) ^ (floorlog 2 (nat m) - 1) \<le> of_int m" "of_int m < (2::rat) ^ floorlog 2 (nat m)"
      by (metis of_int_le_iff of_int_numeral of_int_power) (metis \<open>m < 2 ^ floorlog 2 (nat m)\<close> of_int_less_iff of_int_numeral of_int_power)
  qed
  have pn: "(2::rat) powi (int i - 1) \<le> of_int n" "of_int n < (2::rat) powi (int i)"
    using bounds [OF n] ij by (simp_all add: i_def [symmetric] power_int_def nat_diff_distrib)
  have pd: "(2::rat) powi (int j - 1) \<le> of_int d" "of_int d < (2::rat) powi (int j)"
    using bounds [OF d] ij by (simp_all add: j_def [symmetric] power_int_def nat_diff_distrib)
  have pos: "(0::rat) < of_int d" using d by simp
  have e: "(2::rat) powi (int i - int j - 1) * 2 powi (int j) = 2 powi (int i - 1)"
    "(2::rat) powi (int i - int j + 1) * 2 powi (int j - 1) = 2 powi (int i)"
    by (subst power_int_add [symmetric]; simp)+
  have "(2::rat) powi (int i - int j - 1) * of_int d \<le> 2 powi (int i - int j - 1) * 2 powi (int j)" using pd by (intro mult_left_mono) auto
  also have "... = 2 powi (int i - 1)" by (rule e)
  also have "... \<le> of_int n" by (rule pn)
  finally have lo: "2 powi (int i - int j - 1) \<le> x" using pos by (simp add: x pos_le_divide_eq)
  have "of_int n < (2::rat) powi (int i)" by (rule pn)
  also have "... = 2 powi (int i - int j + 1) * 2 powi (int j - 1)" by (simp only: e)
  also have "... \<le> 2 powi (int i - int j + 1) * of_int d" using pd by (intro mult_left_mono) auto
  finally have hi: "x < 2 powi (int i - int j + 1)" using pos by (simp add: x pos_divide_less_eq)
  have k: "binade x = (if 2 powi (int i - int j) \<le> x then int i - int j else int i - int j - 1)"
    by (simp add: binade_def q i_def j_def Let_def)
  show "2 powi (binade x) \<le> x" "x < 2 powi (binade x + 1)" using lo hi by (auto simp: k)
qed

lemma round_even_bounds: "of_int (round_even x) - 1 / 2 \<le> x" "x \<le> of_int (round_even x) + 1 / 2"
  by (simp_all add: round_even_def Let_def) linarith+

lemma round_even_int [simp]: "round_even (of_int n) = n"
  by (simp add: round_even_def)

lemma round_even_mono: "x \<le> y \<Longrightarrow> round_even x \<le> round_even y"
proof (cases "\<lfloor>x\<rfloor> = \<lfloor>y\<rfloor>")
  case True
  assume "x \<le> y"
  with True show ?thesis by (simp add: round_even_def Let_def)
next
  case False
  assume "x \<le> y"
  then have "\<lfloor>x\<rfloor> + 1 \<le> \<lfloor>y\<rfloor>" using False floor_mono [of x y] by linarith
  then show ?thesis by (auto simp: round_even_def Let_def)
qed

lemma powi_pos [simp]: "(0::rat) < 2 powi k" by simp

lemma powi_52: "(2::rat) powi k / 2 powi (k - 52) = of_int (2 ^ 52)" "(2::rat) powi (k + 1) / 2 powi (k - 52) = of_int (2 ^ 53)"
  by (simp_all add: power_int_diff power_int_add)

lemma float64_pos:
  assumes "0 < x"
  shows "float64 x = of_int (round_even (x / 2 powi (binade x - 52))) * 2 powi (binade x - 52)"
  using assms by (simp add: float64_def Let_def)

text \<open>A number stays in its binade, or becomes the first of the next one.\<close>

lemma float64_binade:
  assumes "0 < x"
  shows "2 powi (binade x) \<le> float64 x" "float64 x \<le> 2 powi (binade x + 1)"
proof -
  let ?u = "(2::rat) powi (binade x - 52)"
  have lo: "of_int (2 ^ 52) \<le> x / ?u" and hi: "x / ?u \<le> of_int (2 ^ 53)"
    using binade_bounds [OF assms] powi_52 [of "binade x"] by (metis divide_right_mono less_eq_rat_def powi_pos)+
  have "2 ^ 52 \<le> round_even (x / ?u)" "round_even (x / ?u) \<le> 2 ^ 53"
    using round_even_mono [OF lo] round_even_mono [OF hi] by (simp_all only: round_even_int)
  then have "of_int (2 ^ 52) * ?u \<le> float64 x" "float64 x \<le> of_int (2 ^ 53) * ?u"
    unfolding float64_pos [OF assms] by (intro mult_right_mono; linarith | simp)+
  moreover have "of_int (2 ^ 52) * ?u = 2 powi (binade x)" "of_int (2 ^ 53) * ?u = 2 powi (binade x + 1)"
    using powi_52 [of "binade x"] by (simp_all add: field_simps)
  ultimately show "2 powi (binade x) \<le> float64 x" "float64 x \<le> 2 powi (binade x + 1)" by simp_all
qed

lemma binade_mono:
  assumes "0 < x" "x \<le> y"
  shows "binade x \<le> binade y"
proof (rule ccontr)
  assume "\<not> binade x \<le> binade y"
  then have "(2::rat) powi (binade y + 1) \<le> 2 powi (binade x)" by (intro power_int_increasing) auto
  with binade_bounds [of x] binade_bounds [of y] assms show False by auto
qed

lemma float64_mono_pos:
  assumes "0 < x" "x \<le> y"
  shows "float64 x \<le> float64 y"
proof (cases "binade x = binade y")
  case True
  have "x / 2 powi (binade x - 52) \<le> y / 2 powi (binade x - 52)" using assms by (intro divide_right_mono) auto
  from round_even_mono [OF this] show ?thesis using assms
    by (simp add: float64_pos True)
next
  case False
  then have "binade x + 1 \<le> binade y" using binade_mono [OF assms] by linarith
  then have "(2::rat) powi (binade x + 1) \<le> 2 powi (binade y)" by (intro power_int_increasing) auto
  with float64_binade(2) [of x] float64_binade(1) [of y] assms show ?thesis by auto
qed

lemma float64_pos_pos: "0 < x \<Longrightarrow> 0 < float64 x"
  using float64_binade(1) [of x] powi_pos [of "binade x"] by linarith

lemma float64_0 [simp]: "float64 0 = 0" by (simp add: float64_def)

lemma float64_minus: "float64 (- x) = - float64 x"
  by (simp add: float64_def Let_def)

lemma float64_mono: "x \<le> y \<Longrightarrow> float64 x \<le> float64 y"
proof -
  assume "x \<le> y"
  consider "0 < x" | "x \<le> 0" "0 \<le> y" | "y < 0" by linarith
  then show ?thesis
  proof cases
    case 1
    then show ?thesis using float64_mono_pos \<open>x \<le> y\<close> by blast
  next
    case 2
    have "float64 x \<le> 0" using 2(1) float64_pos_pos [of "- x"] by (cases "x = 0") (auto simp: float64_minus)
    moreover have "0 \<le> float64 y" using 2(2) float64_pos_pos [of y] by (cases "y = 0") auto
    ultimately show ?thesis by linarith
  next
    case 3
    then show ?thesis using float64_mono_pos [of "- y" "- x"] \<open>x \<le> y\<close> by (simp add: float64_minus)
  qed
qed

text \<open>Integers of up to 53 bits are exact.\<close>

lemma float64_int:
  assumes "\<bar>a\<bar> \<le> 2 ^ 53"
  shows "float64 (of_int a) = of_int a"
proof -
  have pos: "float64 (of_int a) = of_int a" if "0 < a" "a \<le> 2 ^ 53" for a
  proof -
    let ?k = "binade (of_int a)"
    have x: "(0::rat) < of_int a" using that by simp
    have k: "2 powi ?k \<le> (of_int a :: rat)" by (rule binade_bounds [OF x])
    have "?k \<le> 53"
    proof (rule ccontr)
      assume "\<not> ?k \<le> 53"
      then have "(2::rat) powi 54 \<le> 2 powi ?k" by (intro power_int_increasing) auto
      also note k
      also have "of_int a \<le> (2::rat) ^ 53" using that by (metis of_int_le_iff of_int_numeral of_int_power)
      finally show False by simp
    qed
    show ?thesis
    proof (cases "?k \<le> 52")
      case True
      define m where "m = nat (52 - ?k)"
      have "?k - 52 = - int m" using True by (simp add: m_def)
      then have "(2::rat) powi (?k - 52) = inverse (2 ^ m)" by (simp only: power_int_minus power_int_of_nat)
      then have u: "(of_int a :: rat) / 2 powi (?k - 52) = of_int (a * 2 ^ m)" by (simp add: divide_inverse)
      have "float64 (of_int a) = of_int (a * 2 ^ m) * 2 powi (?k - 52)"
        unfolding float64_pos [OF x] u by (simp only: round_even_int)
      also have "... = (of_int a :: rat) / 2 powi (?k - 52) * 2 powi (?k - 52)" by (simp only: u)
      finally show ?thesis by simp
    next
      case False
      then have k53: "?k = 53" using \<open>?k \<le> 53\<close> by linarith
      then have "(2::rat) ^ 53 \<le> of_int a" using k by simp
      then have "a = 2 ^ 53" using that by (metis antisym of_int_le_iff of_int_numeral of_int_power)
      moreover have "(of_int (2 ^ 53) :: rat) / 2 powi (53 - 52) = of_int (2 ^ 52)" by simp
      ultimately show ?thesis unfolding float64_pos [OF x] k53 by (simp only: round_even_int) simp
    qed
  qed
  consider "a = 0" | "0 < a" | "0 < - a" by linarith
  then show ?thesis
  proof cases
    case 3
    have "float64 (of_int (- a)) = of_int (- a)" by (rule pos) (use 3 assms in auto)
    then show ?thesis by (simp only: of_int_minus float64_minus neg_equal_iff_equal)
  qed (use pos [of a] assms in auto)
qed

text \<open>The binade is unique, so that two numbers of a binade are told apart by their distance from a half unit.\<close>

lemma binade_unique:
  assumes "2 powi k \<le> x" "x < 2 powi (k + 1)"
  shows "binade x = k"
proof (rule ccontr)
  have x: "0 < x" using assms(1) powi_pos [of k] by linarith
  assume "binade x \<noteq> k"
  then consider "binade x + 1 \<le> k" | "k + 1 \<le> binade x" by linarith
  then show False
  proof cases
    case 1
    then have "(2::rat) powi (binade x + 1) \<le> 2 powi k" by (intro power_int_increasing) auto
    with binade_bounds(2) [OF x] assms(1) show False by linarith
  next
    case 2
    then have "(2::rat) powi (k + 1) \<le> 2 powi binade x" by (intro power_int_increasing) auto
    with binade_bounds(1) [OF x] assms(2) show False by linarith
  qed
qed

lemma float64_separated:
  assumes "2 powi k \<le> x" "x < y" "y < 2 powi (k + 1)"
    "x / 2 powi (k - 52) < of_int n - 1 / 2" "of_int n - 1 / 2 < y / 2 powi (k - 52)"
  shows "float64 x < float64 y"
proof -
  have pos: "0 < x" "0 < y" using assms(1,2) powi_pos [of k] by linarith+
  have b: "binade x = k" "binade y = k" using assms(1-3) by (auto intro: binade_unique)
  have "round_even (x / 2 powi (k - 52)) < n" "n \<le> round_even (y / 2 powi (k - 52))"
    using round_even_bounds(1) [of "x / 2 powi (k - 52)"] round_even_bounds(2) [of "y / 2 powi (k - 52)"] assms(4,5) by linarith+
  then have "(of_int (round_even (x / 2 powi (k - 52))) :: rat) < of_int (round_even (y / 2 powi (k - 52)))" by linarith
  then show ?thesis using pos by (simp add: float64_pos b)
qed

end
