(* ===== verification/Revenue_Target.thy ===== *)
theory Revenue_Target
  imports Access Go_Float
begin

text \<open>
  \<^verbatim>\<open>internal/domain/revenuetarget\<close>: the period of a target (\<^verbatim>\<open>period.go\<close>), its goals (\<^verbatim>\<open>model.go\<close>, \<^verbatim>\<open>customers.go\<close>)
  and the engine that compares what was sold with what is expected by a day (\<^verbatim>\<open>engine.go\<close>).
\<close>

section \<open>Periods\<close>

datatype period_kind = PeriodWeekly | PeriodMonthly | PeriodSeason | PeriodYearly | PeriodCustom | OtherPeriod string

definition period_kinds :: "period_kind list" where
  "period_kinds = [PeriodWeekly, PeriodMonthly, PeriodSeason, PeriodYearly, PeriodCustom]"

definition max_period_days :: int where "max_period_days = 3 * 366"

definition err_period_kind :: error where "err_period_kind = Plain ''period_kind must be weekly, monthly, season, yearly or custom''"
definition err_period_start :: error where "err_period_start = Plain ''period_start is required''"
definition err_period_end :: error where "err_period_end = Plain ''period_end must be on or after period_start''"
definition err_period_span :: error where "err_period_span = Plain ''period is longer than 3 years''"

definition period_valid :: "period_kind \<Rightarrow> bool" where "period_valid k \<longleftrightarrow> list_ex (\<lambda>v. k = v) period_kinds"

definition period_calendar :: "period_kind \<Rightarrow> bool" where
  "period_calendar k \<longleftrightarrow> k = PeriodWeekly \<or> k = PeriodMonthly \<or> k = PeriodYearly"

definition period_rank :: "period_kind \<Rightarrow> nat" where
  "period_rank k = (case find (\<lambda>(_, v). k = v) (enumerate 0 period_kinds) of Some (i, _) \<Rightarrow> i | None \<Rightarrow> length period_kinds)"

definition date_only :: "go_time \<Rightarrow> go_time" where
  "date_only t = (let (y, m, d) = time_date (utc t) in date_utc y m d)"

text \<open>\<open>DaysInclusive\<close> of the package; the engine has its own, which is 0 for a reversed pair.\<close>

definition span_days :: "go_time \<Rightarrow> go_time \<Rightarrow> int" where
  "span_days start end' = add64 (days_of_duration (time_sub (date_only end') (date_only start))) 1"

definition period_covers :: "go_time \<Rightarrow> go_time \<Rightarrow> go_time \<Rightarrow> bool" where
  "period_covers start end' day \<longleftrightarrow>
     (let d = date_only day in \<not> before d (date_only start) \<and> \<not> after d (date_only end'))"

definition resolve_period :: "period_kind \<Rightarrow> go_time \<Rightarrow> go_time \<Rightarrow> (go_time \<times> go_time) result" where
  "resolve_period kind start end' =
     (if \<not> period_valid kind then Inl err_period_kind
      else if is_zero start then Inl err_period_start
      else let s = date_only start; (y, m, _) = time_date s
      in case kind of
           PeriodWeekly \<Rightarrow> (let monday = add_date s 0 0 (- ((weekday s + 6) mod 7)) in Inr (monday, add_date monday 0 0 6))
         | PeriodMonthly \<Rightarrow> (let first = date_utc y m 1 in Inr (first, add_date first 0 1 (- 1)))
         | PeriodYearly \<Rightarrow> Inr (date_utc y 1 1, date_utc y 12 31)
         | _ \<Rightarrow>
             if is_zero end' then Inl err_period_end
             else let e = date_only end'
             in if before e s then Inl err_period_end
                else if span_days s e > max_period_days then Inl err_period_span
                else Inr (s, e))"

section \<open>Goals\<close>

datatype metric = MetricCollected | MetricBooked | OtherMetric string
datatype target_scope = ScopeBranch | ScopeTeam | ScopeEmployee | OtherTargetScope string
datatype curve_type = CurveLinear | CurveSeasonal | OtherCurve string
datatype pace_status = PaceAhead | PaceOnTrack | PaceBehind | PacePlaceholder | NoPace

record weight =
  wt_bucket :: int
  wt_bps :: int

record share =
  sh_user :: uuid
  sh_name :: string
  sh_bps :: int

definition max_target_customers :: int where "max_target_customers = 1000000"

definition normalize_target_customers :: "int option \<Rightarrow> int option result" where
  "normalize_target_customers n =
     (case n of
        None \<Rightarrow> Inr None
      | Some k \<Rightarrow>
          if k \<le> 0 then Inl (Plain ''target_customers must be > 0'')
          else if k > max_target_customers then Inl (Plain ''target_customers is too large'')
          else Inr (Some k))"

fun pace_rank :: "pace_status \<Rightarrow> nat" where
  "pace_rank PaceBehind = 3" | "pace_rank PaceOnTrack = 2" | "pace_rank PaceAhead = 1"
| "pace_rank PacePlaceholder = 0" | "pace_rank NoPace = 0"

definition combine_status :: "pace_status \<Rightarrow> pace_status \<Rightarrow> pace_status" where
  "combine_status money customers = (if pace_rank customers > pace_rank money then customers else money)"

section \<open>Engine\<close>

text \<open>The loops of \<open>ValidateWeights\<close> and \<open>ValidateShares\<close>: what was seen and the sum so far.\<close>

fun weights_loop :: "int list \<Rightarrow> int \<Rightarrow> weight list \<Rightarrow> int result" where
  "weights_loop seen s [] = Inr s"
| "weights_loop seen s (w # ws) =
     (if wt_bps w < 0 \<or> wt_bps w > 10000 then Inl (Plain ''weight_bps out of range'')
      else if wt_bucket w \<in> set seen then Inl (Plain (''duplicate bucket '' @ show_int (wt_bucket w)))
      else weights_loop (wt_bucket w # seen) (add64 s (wt_bps w)) ws)"

definition validate_weights :: "curve_type \<Rightarrow> weight list \<Rightarrow> error option" where
  "validate_weights curve ws =
     (if curve \<noteq> CurveSeasonal then None
      else if ws = [] then Some (Plain ''seasonal curve requires weights'')
      else case weights_loop [] 0 ws of
             Inl e \<Rightarrow> Some e
           | Inr s \<Rightarrow> if s \<noteq> 10000 then Some (Plain (''weights must sum to 10000 bps (got '' @ show_int s @ '')'')) else None)"

fun shares_loop :: "uuid list \<Rightarrow> int \<Rightarrow> share list \<Rightarrow> int result" where
  "shares_loop seen s [] = Inr s"
| "shares_loop seen s (h # hs) =
     (if sh_bps h < 0 \<or> sh_bps h > 10000 then Inl (Plain ''share_bps out of range'')
      else if sh_user h \<in> set seen then Inl (Plain ''duplicate share user'')
      else shares_loop (sh_user h # seen) (add64 s (sh_bps h)) hs)"

definition validate_shares :: "share list \<Rightarrow> error option" where
  "validate_shares hs =
     (if hs = [] then None
      else case shares_loop [] 0 hs of
             Inl e \<Rightarrow> Some e
           | Inr s \<Rightarrow> if s \<noteq> 10000 then Some (Plain (''shares must sum to 10000 bps (got '' @ show_int s @ '')'')) else None)"

record calc_input =
  ci_target :: int
  ci_actual :: int
  ci_start :: go_time
  ci_end :: go_time
  ci_as_of :: go_time
  ci_curve :: curve_type
  ci_weights :: "weight list"

record calc_result =
  cx_expected :: int
  cx_variance :: int
  cx_progress :: int
  cx_pace :: int
  cx_forecast :: int
  cx_required :: int
  cx_status :: pace_status

definition min_time :: "go_time \<Rightarrow> go_time \<Rightarrow> go_time" where
  "min_time a b = (if before a b then a else b)"

definition days_inclusive :: "go_time \<Rightarrow> go_time \<Rightarrow> int" where
  "days_inclusive a b =
     (let a = truncate_day a; b = truncate_day b
      in if before b a then 0 else add64 (days_of_duration (time_sub b a)) 1)"

text \<open>The first and last day of each month from the month of \<open>start\<close> on, 24 at most.\<close>

primrec month_spans :: "nat \<Rightarrow> go_time \<Rightarrow> go_time \<Rightarrow> (go_time \<times> go_time) list" where
  "month_spans 0 cur end' = []"
| "month_spans (Suc n) cur end' =
     (if after cur end' then []
      else let next' = add_date cur 0 1 0 in (cur, add_date next' 0 0 (- 1)) # month_spans n next' end')"

definition month_buckets :: "go_time \<Rightarrow> go_time \<Rightarrow> (go_time \<times> go_time) list" where
  "month_buckets start end' = (let (y, m, _) = time_date start in month_spans 24 (date_utc y m 1) end')"

definition weight_of :: "weight list \<Rightarrow> int \<Rightarrow> int" where
  "weight_of ws i = (case map_of (map (\<lambda>w. (wt_bucket w, wt_bps w)) (rev ws)) i of None \<Rightarrow> 0 | Some b \<Rightarrow> b)"

text \<open>One round of the loop over the months: what it adds to the expected amount.\<close>

definition month_share ::
  "int \<Rightarrow> go_time \<Rightarrow> go_time \<Rightarrow> go_time \<Rightarrow> weight list \<Rightarrow> nat \<times> go_time \<times> go_time \<Rightarrow> int" where
  "month_share target start end' as_of ws = (\<lambda>(i, ms, me).
     let month_target = quo64 (mul64 target (weight_of ws (int i))) 10000;
         me = (if after me end' then end' else me);
         ms = (if before ms start then start else ms);
         mdays = days_inclusive ms me
     in if mdays \<le> 0 \<or> before as_of ms then 0
        else let cut = (if before as_of me then as_of else me)
             in quo64 (mul64 month_target (days_inclusive ms cut)) mdays)"

definition expected_to_date ::
  "int \<Rightarrow> go_time \<Rightarrow> go_time \<Rightarrow> go_time \<Rightarrow> curve_type \<Rightarrow> weight list \<Rightarrow> int" where
  "expected_to_date target start end' as_of curve ws =
     (if \<not> after as_of start \<and> \<not> time_eq as_of start then 0
      else let total_days = days_inclusive start end'
      in if total_days \<le> 0 then 0
         else let elapsed = days_inclusive start (min_time as_of end');
                  linear = quo64 (mul64 target elapsed) total_days
         in if curve \<noteq> CurveSeasonal \<or> ws = [] then linear
            else let months = month_buckets start end'
            in if months = [] then linear
               else foldl (\<lambda>s x. add64 s (month_share target start end' as_of ws x)) 0 (enumerate 0 months))"

text \<open>The thresholds 1.05 and 0.90 are the floats nearest to them.\<close>

definition status_from_pace :: "int \<Rightarrow> int \<Rightarrow> pace_status" where
  "status_from_pace expected actual =
     (if expected \<le> 0 then (if actual > 0 then PaceAhead else PaceOnTrack)
      else let ratio = float_quotient actual expected
      in if ratio \<ge> float64 (105 / 100) then PaceAhead
         else if ratio \<ge> float64 (90 / 100) then PaceOnTrack else PaceBehind)"

definition placeholder_result :: calc_result where
  "placeholder_result = \<lparr>cx_expected = 0, cx_variance = 0, cx_progress = 0, cx_pace = 0, cx_forecast = 0, cx_required = 0,
     cx_status = PacePlaceholder\<rparr>"

definition calculate :: "calc_input \<Rightarrow> calc_result" where
  "calculate inp =
     (if ci_target inp \<le> 0 then placeholder_result
      else let start = truncate_day (ci_start inp); end' = truncate_day (ci_end inp);
               as_of = truncate_day (ci_as_of inp);
               as_of = (if before as_of start then start else as_of)
      in if before end' start then placeholder_result
         else let expected = expected_to_date (ci_target inp) start end' as_of (ci_curve inp) (ci_weights inp);
                  pace = (if expected > 0 then quo64 (mul64 (ci_actual inp) 10000) expected
                          else if ci_actual inp > 0 then 10000 else 0);
                  elapsed = days_inclusive start (min_time as_of end');
                  total_days = days_inclusive start end';
                  forecast = (if elapsed > 0 then quo64 (mul64 (ci_actual inp) total_days) elapsed else 0);
                  remaining_days = (if after as_of end' \<or> time_eq as_of end' then 0
                                    else days_inclusive (min_time (add_date as_of 0 0 1) end') end');
                  remaining = sub64 (ci_target inp) (ci_actual inp);
                  required = (if remaining_days > 0 \<and> remaining > 0
                              then quo64 (sub64 (add64 remaining remaining_days) 1) remaining_days else 0)
         in \<lparr>cx_expected = expected, cx_variance = sub64 (ci_actual inp) expected,
             cx_progress = quo64 (mul64 (ci_actual inp) 10000) (ci_target inp), cx_pace = pace, cx_forecast = forecast,
             cx_required = required, cx_status = status_from_pace expected (ci_actual inp)\<rparr>)"

record series_point =
  sp_date :: string
  sp_actual :: int
  sp_expected :: int

text \<open>One day of the series; the state is the cumulative amount.\<close>

definition series_day ::
  "int \<Rightarrow> int \<Rightarrow> go_time \<Rightarrow> go_time \<Rightarrow> go_time \<Rightarrow> curve_type \<Rightarrow> weight list \<Rightarrow> (string \<times> int) list
   \<Rightarrow> int \<times> series_point list \<Rightarrow> nat \<Rightarrow> int \<times> series_point list" where
  "series_day target actual start end' as_of curve ws daily = (\<lambda>(cum, ps) i.
     let d = add_date start 0 0 (int i);
         key = format_date d;
         cum = add64 cum (case map_of daily key of None \<Rightarrow> 0 | Some x \<Rightarrow> x);
         shown = (if daily = [] \<and> days_inclusive start as_of > 0
                  then quo64 (mul64 actual (days_inclusive start d)) (days_inclusive start as_of) else cum)
     in (cum, ps @ [\<lparr>sp_date = key, sp_actual = shown, sp_expected = expected_to_date target start end' d curve ws\<rparr>]))"

definition cumulative_series ::
  "int \<Rightarrow> int \<Rightarrow> go_time \<Rightarrow> go_time \<Rightarrow> go_time \<Rightarrow> curve_type \<Rightarrow> weight list \<Rightarrow> (string \<times> int) list \<Rightarrow> series_point list" where
  "cumulative_series target actual start end' as_of curve ws daily =
     (let start = truncate_day start; end' = truncate_day end'; as_of = truncate_day as_of;
          as_of = (if after as_of end' then end' else as_of)
      in snd (foldl (series_day target actual start end' as_of curve ws daily) (0, [])
           [0..<nat (day_of as_of - day_of start + 1)]))"

section \<open>Dates and day numbers\<close>

lemma year_start_strict: "a < b \<Longrightarrow> year_start a < year_start b"
proof -
  assume "a < b"
  then obtain k where "b = a + 1 + int k" by (metis zle_iff_zadd int_one_le_iff_zero_less zle_add1_eq_le add.commute zless_iff_Suc_zadd of_nat_Suc add.assoc)
  moreover have "year_start a < year_start (a + 1 + int k)"
    by (induction k) (use year_start_Suc [of a] year_start_Suc [of "a + 1 + int k" for k] in \<open>auto simp: algebra_simps split: if_splits\<close>)
  ultimately show ?thesis by simp
qed

lemma year_of_unique: "year_start y \<le> n \<Longrightarrow> n < year_start (y + 1) \<Longrightarrow> year_of n = y"
  using year_of_spec [of n] year_start_strict [of y "year_of n"] year_start_strict [of "year_of n" y]
    year_start_strict [of "year_of n + 1" y] year_start_strict [of "y + 1" "year_of n"]
  by (cases "year_of n = y"; cases "year_of n < y"; cases "year_of n + 1 = y"; cases "y + 1 = year_of n") auto

lemma month_of_start:
  assumes "1 \<le> m" "m \<le> 12" "0 \<le> k" "k < days_in_month y m"
  shows "month_of (leap y) (month_start (leap y) m + k) = m" "0 \<le> month_start (leap y) m"
    "month_start (leap y) m + k < (if leap y then 366 else 365)"
proof -
  have "m = 1 \<or> m = 2 \<or> m = 3 \<or> m = 4 \<or> m = 5 \<or> m = 6 \<or> m = 7 \<or> m = 8 \<or> m = 9 \<or> m = 10 \<or> m = 11 \<or> m = 12" using assms by presburger
  then have "month_of (leap y) (month_start (leap y) m + k) = m \<and> 0 \<le> month_start (leap y) m
    \<and> month_start (leap y) m + k < (if leap y then 366 else 365)"
    using assms(3,4) by (elim disjE; cases "leap y"; simp add: month_of_def month_start_def days_in_month_def)
  then show "month_of (leap y) (month_start (leap y) m + k) = m" "0 \<le> month_start (leap y) m"
    "month_start (leap y) m + k < (if leap y then 366 else 365)" by simp_all
qed

lemma civil_day_number:
  assumes "1 \<le> m" "m \<le> 12" "1 \<le> d" "d \<le> days_in_month y m"
  shows "civil (day_number y m d) = (y, m, d)"
proof -
  have m: "(m - 1) div 12 = 0" "(m - 1) mod 12 = m - 1" using assms(1,2) by auto
  have n: "day_number y m d = year_start y + (month_start (leap y) m + (d - 1))" by (simp add: day_number_def m)
  have k: "0 \<le> d - 1" "d - 1 < days_in_month y m" using assms(3,4) by auto
  note ms = month_of_start [OF assms(1,2) k]
  have "year_of (day_number y m d) = y"
    using ms k(1) year_start_Suc [of y] by (intro year_of_unique) (auto simp: n split: if_splits)
  with ms(1) show ?thesis by (simp add: civil_def Let_def n)
qed

lemma month_lengths: "1 \<le> m \<Longrightarrow> m \<le> 12 \<Longrightarrow> 28 \<le> days_in_month y m"
proof -
  assume "1 \<le> m" "m \<le> 12"
  then have "m = 1 \<or> m = 2 \<or> m = 3 \<or> m = 4 \<or> m = 5 \<or> m = 6 \<or> m = 7 \<or> m = 8 \<or> m = 9 \<or> m = 10 \<or> m = 11 \<or> m = 12" by presburger
  then show ?thesis by (auto simp: days_in_month_def month_start_def)
qed

lemma next_month: "1 \<le> m \<Longrightarrow> m \<le> 12 \<Longrightarrow> day_number y (m + 1) 1 = day_number y m 1 + days_in_month y m"
proof -
  assume m: "1 \<le> m" "m \<le> 12"
  show ?thesis
  proof (cases "m = 12")
    case True
    then show ?thesis using year_start_Suc [of y] by (auto simp: day_number_def days_in_month_def month_start_def)
  next
    case False
    with m have "(m - 1) div 12 = 0" "(m - 1) mod 12 = m - 1" "m div 12 = 0" "m mod 12 = m" by auto
    with False show ?thesis by (simp add: day_number_def days_in_month_def)
  qed
qed

lemma date_only_eq: "date_only t = midnight (day_of (utc t))"
  by (simp add: date_only_def truncate_day_eq [symmetric] truncate_day_def)

lemma utc_midnight [simp]: "utc (midnight n) = midnight n"
  by (simp add: utc_def midnight_def)

lemma midnight_nanos [simp]: "(midnight a)\<lparr>nanos := b * day_ns\<rparr> = midnight b"
  by (simp add: midnight_def)

section \<open>Calendar periods partition the days\<close>

text \<open>The first and last day number of the calendar period of a day.\<close>

definition calendar_bounds :: "period_kind \<Rightarrow> int \<Rightarrow> int \<times> int" where
  "calendar_bounds k n =
     (case k of
        PeriodWeekly \<Rightarrow> (n - n mod 7, n - n mod 7 + 6)
      | PeriodMonthly \<Rightarrow> (let (y, m, _) = civil n in (day_number y m 1, day_number y m 1 + days_in_month y m - 1))
      | _ \<Rightarrow> (let y = year_of n in (year_start y, year_start (y + 1) - 1)))"

lemma resolve_calendar:
  assumes "period_calendar k" "\<not> is_zero t"
  shows "resolve_period k t e = Inr (case calendar_bounds k (day_of (utc t)) of (a, b) \<Rightarrow> (midnight a, midnight b))"
proof -
  define n where "n = day_of (utc t)"
  obtain y m d where c: "civil n = (y, m, d)" by (metis prod_cases3)
  note v = civil_valid [OF c]
  have dim: "1 \<le> days_in_month y m" using month_lengths [of m y] v by linarith
  consider "k = PeriodWeekly" | "k = PeriodMonthly" | "k = PeriodYearly" using assms(1) by (auto simp: period_calendar_def)
  then show ?thesis
  proof cases
    case 1
    have "((n + 1) mod 7 + 6) mod 7 = n mod 7" by presburger
    then show ?thesis using assms(2) 1
      by (simp add: resolve_period_def period_valid_def period_kinds_def date_only_eq calendar_bounds_def Let_def weekday_def
          add_date_days case_prod_beta n_def [symmetric])
  next
    case 2
    have first: "civil (day_number y m 1) = (y, m, 1)" using v dim by (intro civil_day_number) auto
    have "day_number y (m + 1) 0 = day_number y (m + 1) 1 - 1" by (simp add: day_number_def Let_def)
    then have "add_date (date_utc y m 1) 0 1 (- 1) = midnight (day_number y m 1 + days_in_month y m - 1)"
      using next_month [OF v(1,2), of y] by (simp add: add_date_def time_date_def date_utc_def first)
    then show ?thesis using assms(2) 2 c
      by (simp add: resolve_period_def period_valid_def period_kinds_def date_only_eq calendar_bounds_def Let_def
          time_date_def n_def [symmetric] date_utc_def)
  next
    case 3
    have "day_number y 1 1 = year_start y" "day_number y 12 31 = year_start (y + 1) - 1"
      using year_start_Suc [of y] by (auto simp: day_number_def month_start_def)
    then show ?thesis using assms(2) 3 c v(5)
      by (simp add: resolve_period_def period_valid_def period_kinds_def date_only_eq calendar_bounds_def Let_def
          time_date_def n_def [symmetric] date_utc_def)
  qed
qed

text \<open>A day lies within the bounds of another exactly when both have the same bounds.\<close>

lemma calendar_bounds_self: "fst (calendar_bounds k n) \<le> n \<and> n \<le> snd (calendar_bounds k n)"
proof -
  obtain y m d where c: "civil n = (y, m, d)" by (metis prod_cases3)
  note v = civil_valid [OF c]
  have "day_number y m 1 + (d - 1) = n" using day_number_civil [OF c] by (simp add: day_number_def Let_def)
  then show ?thesis using v c year_of_spec [of n] pos_mod_bound [of 7 n] pos_mod_sign [of 7 n]
    by (auto simp: calendar_bounds_def Let_def split: period_kind.split)
qed

lemma calendar_bounds_same:
  assumes "fst (calendar_bounds k n) \<le> i" "i \<le> snd (calendar_bounds k n)"
  shows "calendar_bounds k i = calendar_bounds k n"
proof -
  obtain y m d where c: "civil n = (y, m, d)" by (metis prod_cases3)
  note v = civil_valid [OF c]
  consider "k = PeriodWeekly" | "k = PeriodMonthly" | "k \<noteq> PeriodWeekly" "k \<noteq> PeriodMonthly" by blast
  then show ?thesis
  proof cases
    case 1
    with assms have "n - n mod 7 \<le> i" "i \<le> n - n mod 7 + 6" by (simp_all add: calendar_bounds_def)
    then have "i div 7 = n div 7" by presburger
    then have "i - i mod 7 = n - n mod 7" by (simp add: minus_mod_eq_mult_div)
    with 1 show ?thesis by (simp add: calendar_bounds_def)
  next
    case 2
    with assms c have b: "day_number y m 1 \<le> i" "i \<le> day_number y m 1 + days_in_month y m - 1" by (simp_all add: calendar_bounds_def)
    have "i = day_number y m (i - day_number y m 1 + 1)" by (simp add: day_number_def Let_def)
    then have "civil i = (y, m, i - day_number y m 1 + 1)"
      using b v by (metis civil_day_number add_le_cancel_right diff_ge_0_iff_ge le_add_same_cancel2 add.commute le_diff_eq diff_le_eq add_diff_eq)
    with 2 c show ?thesis by (simp add: calendar_bounds_def)
  next
    case 3
    then have "year_start (year_of n) \<le> i" "i < year_start (year_of n + 1)"
      using assms by (cases k; simp add: calendar_bounds_def Let_def)+
    then have "year_of i = year_of n" by (rule year_of_unique)
    with 3 show ?thesis by (cases k) (simp_all add: calendar_bounds_def Let_def)
  qed
qed

text \<open>
  C27. The weeks, months and years that targets are set for partition the calendar: the period of a day covers that day, and a
  day is covered by it exactly when the day's own period is the same.
\<close>

theorem calendar_periods_partition:
  assumes "period_calendar k" "\<not> is_zero t" "\<not> is_zero t'"
  shows "\<exists>s e. resolve_period k t x = Inr (s, e) \<and> period_covers s e t
    \<and> (period_covers s e t' \<longleftrightarrow> resolve_period k t' x' = Inr (s, e))"
proof -
  obtain a b where ab: "calendar_bounds k (day_of (utc t)) = (a, b)" by (cases "calendar_bounds k (day_of (utc t))")
  have cov: "period_covers (midnight a) (midnight b) u \<longleftrightarrow> a \<le> day_of (utc u) \<and> day_of (utc u) \<le> b" for u
    by (auto simp: period_covers_def Let_def date_only_eq)
  have inj: "midnight i = midnight j \<longleftrightarrow> i = j" for i j by (simp add: midnight_def day_ns_def)
  have "resolve_period k t x = Inr (midnight a, midnight b)" using resolve_calendar [OF assms(1,2)] ab by simp
  moreover have "period_covers (midnight a) (midnight b) t" using calendar_bounds_self [of k "day_of (utc t)"] ab by (simp add: cov)
  moreover have "period_covers (midnight a) (midnight b) t' \<longleftrightarrow> calendar_bounds k (day_of (utc t')) = (a, b)"
    using calendar_bounds_same [of k "day_of (utc t)" "day_of (utc t')"] calendar_bounds_self [of k "day_of (utc t')"] ab
    unfolding cov by auto
  moreover have "resolve_period k t' x' = Inr (midnight a, midnight b) \<longleftrightarrow> calendar_bounds k (day_of (utc t')) = (a, b)"
    using resolve_calendar [OF assms(1,3)] by (auto simp: inj split: prod.splits)
  ultimately show ?thesis by blast
qed

section \<open>The pace line\<close>

lemma days_inclusive_midnight:
  "b - a \<le> 106751 \<Longrightarrow> days_inclusive (midnight a) (midnight b) = (if b < a then 0 else b - a + 1)"
  using days_of_sub [of b a] by (simp add: days_inclusive_def near_days_def add64_def i64_id fits64_def)

lemma min_time_midnight [simp]: "min_time (midnight a) (midnight b) = midnight (min a b)"
  by (simp add: min_time_def min_def)

lemma mul_quo64:
  assumes "0 \<le> a" "a \<le> 10000000000000" "0 \<le> b" "b \<le> 10000" "0 < c"
  shows "quo64 (mul64 a b) c = a * b div c"
proof -
  have ab: "0 \<le> a * b" "a * b \<le> 10000000000000 * 10000" using assms mult_mono [of a 10000000000000 b 10000] by auto
  then have "mul64 a b = a * b" by (intro mul64_id) (simp add: fits64_def)
  with ab assms(5) show ?thesis by (simp add: quo64_nonneg fits64_def)
qed

lemma share_of_days:
  assumes "(0::int) \<le> t" "0 \<le> x" "x \<le> y" "y \<le> n" "0 < n"
  shows "0 \<le> t * x div n" "t * x div n \<le> t * y div n" "t * y div n \<le> t"
proof -
  show "0 \<le> t * x div n" using assms by (simp add: pos_imp_zdiv_nonneg_iff)
  show "t * x div n \<le> t * y div n" using assms by (intro zdiv_mono1 mult_left_mono) auto
  have "t * y div n \<le> t * n div n" using assms by (intro zdiv_mono1 mult_left_mono) auto
  with assms show "t * y div n \<le> t" by simp
qed

text \<open>The weights as a function, and what a validated list guarantees.\<close>

lemma weights_loop_Inr:
  "weights_loop seen s ws = Inr r \<Longrightarrow> distinct (map wt_bucket ws) \<and> wt_bucket ` set ws \<inter> set seen = {}
     \<and> (\<forall>w \<in> set ws. 0 \<le> wt_bps w \<and> wt_bps w \<le> 10000) \<and> (fits64 s \<longrightarrow> r = i64 (s + sum_list (map wt_bps ws)))"
proof (induction seen s ws rule: weights_loop.induct)
  case (2 seen s w ws)
  then show ?case using i64_id [of s] add64_i64 [of s "wt_bps w"] add64_i64 [of "s + wt_bps w" "sum_list (map wt_bps ws)"]
    by (auto split: if_splits simp: add64_def add.assoc)
qed (simp add: i64_id)

lemma weight_of_sum:
  "distinct (map wt_bucket ws) \<Longrightarrow> weight_of ws i = (\<Sum>w\<leftarrow>ws. if wt_bucket w = i then wt_bps w else 0)"
proof (induction ws)
  case (Cons w ws)
  have "(\<Sum>v\<leftarrow>ws. if wt_bucket v = wt_bucket w then wt_bps v else 0) = 0"
    if "wt_bucket w \<notin> wt_bucket ` set ws" using that by (induction ws) auto
  moreover have "weight_of (w # ws) i = (if wt_bucket w = i \<and> map_of (map (\<lambda>w. (wt_bucket w, wt_bps w)) (rev ws)) i = None
      then wt_bps w else weight_of ws i)"
    by (auto simp: weight_of_def map_add_def split: option.splits)
  moreover have "map_of (map (\<lambda>w. (wt_bucket w, wt_bps w)) (rev ws)) (wt_bucket w) = None" using Cons.prems
    by (auto simp: map_of_eq_None_iff image_image)
  ultimately show ?case using Cons by auto
qed (simp add: weight_of_def)

lemma one_bucket: "(\<Sum>i\<leftarrow>[0..<n]. if b = int i then v else 0) = (if 0 \<le> b \<and> b < int n then v else (0::int))"
  by (induction n) auto

lemma weights_total_le:
  assumes "distinct (map wt_bucket ws)" "\<forall>w \<in> set ws. 0 \<le> wt_bps w"
  shows "(\<Sum>i\<leftarrow>[0..<n]. weight_of ws (int i)) \<le> sum_list (map wt_bps ws)"
proof -
  have "(\<Sum>i\<leftarrow>[0..<n]. \<Sum>w\<leftarrow>ws. if wt_bucket w = int i then wt_bps w else 0) \<le> sum_list (map wt_bps ws)" using assms(2)
  proof (induction ws)
    case (Cons w ws)
    then show ?case using one_bucket [of "wt_bucket w" "wt_bps w" n] by (simp add: sum_list_addf)
  qed simp
  then show ?thesis by (simp only: weight_of_sum [OF assms(1)])
qed

lemma floors_le: "0 < (c::int) \<Longrightarrow> (\<Sum>i\<leftarrow>xs. t * f i div c) \<le> t * (\<Sum>i\<leftarrow>xs. f i) div c"
proof (induction xs)
  case (Cons x xs)
  let ?a = "t * f x" and ?b = "t * (\<Sum>i\<leftarrow>xs. f i)"
  have "c * (?a div c + ?b div c) \<le> ?a + ?b"
    using div_bounds [OF Cons.prems, of ?a] div_bounds [OF Cons.prems, of ?b] by (simp add: distrib_left)
  from zdiv_mono1 [OF this Cons.prems] Cons have "?a div c + ?b div c \<le> (?a + ?b) div c" by simp
  with Cons show ?case by (simp add: distrib_left)
qed simp

lemma add_date_midnight: "\<exists>k. add_date (midnight n) dy dm dd = midnight k"
  by (cases "civil n") (auto simp: add_date_def time_date_def)

lemma month_spans_midnight: "\<exists>ps. month_spans n (midnight c) end' = map (\<lambda>(p, q). (midnight p, midnight q)) ps"
proof (induction n arbitrary: c)
  case (Suc n)
  obtain k where k: "add_date (midnight c) 0 1 0 = midnight k" using add_date_midnight by blast
  obtain q where q: "add_date (midnight k) 0 0 (- 1) = midnight q" using add_date_midnight by blast
  obtain ps where "month_spans n (midnight k) end' = map (\<lambda>(p, q). (midnight p, midnight q)) ps" using Suc by blast
  then have "month_spans (Suc n) (midnight c) end' = map (\<lambda>(p, q). (midnight p, midnight q)) (if after (midnight c) end' then [] else (c, q) # ps)"
    by (simp add: k q)
  then show ?case by blast
qed simp

definition sane_goal :: "int \<Rightarrow> int \<Rightarrow> int \<Rightarrow> bool" where
  "sane_goal target s e \<longleftrightarrow> 0 < target \<and> target \<le> 10000000000000 \<and> s \<le> e \<and> e - s < max_period_days"

lemma month_share_midnight:
  assumes "sane_goal t s e" "0 \<le> weight_of ws (int i)" "weight_of ws (int i) \<le> 10000"
  shows "month_share t (midnight s) (midnight e) (midnight a) ws (i, midnight p, midnight q)
    = (let m = t * weight_of ws (int i) div 10000; hi = min e q; lo = max s p
       in if hi < lo \<or> a < lo then 0 else m * (min a hi - lo + 1) div (hi - lo + 1))"
proof -
  have t: "0 \<le> t" "t \<le> 10000000000000" "e - s < 1098" using assms(1) by (auto simp: sane_goal_def max_period_days_def)
  let ?m = "t * weight_of ws (int i) div 10000"
  have m: "quo64 (mul64 t (weight_of ws (int i))) 10000 = ?m" by (rule mul_quo64) (use t assms in auto)
  have mb: "0 \<le> ?m" "?m \<le> 10000000000000"
    using share_of_days [of t "weight_of ws (int i)" "weight_of ws (int i)" 10000] t assms(2,3) by auto
  define hi lo where "hi = min e q" and "lo = max s p"
  have near: "hi - lo \<le> 1098" "min a hi - lo \<le> 1098" using t by (auto simp: hi_def lo_def)
  have ends: "(if after (midnight q) (midnight e) then midnight e else midnight q) = midnight hi"
    "(if before (midnight p) (midnight s) then midnight s else midnight p) = midnight lo"
    "(if before (midnight a) (midnight hi) then midnight a else midnight hi) = midnight (min a hi)"
    by (auto simp: hi_def lo_def min_def max_def)
  have d1: "days_inclusive (midnight lo) (midnight hi) = (if hi < lo then 0 else hi - lo + 1)"
    by (rule days_inclusive_midnight) (use near in auto)
  have d2: "days_inclusive (midnight lo) (midnight (min a hi)) = (if min a hi < lo then 0 else min a hi - lo + 1)"
    by (rule days_inclusive_midnight) (use near in auto)
  have "quo64 (mul64 ?m (min a hi - lo + 1)) (hi - lo + 1) = ?m * (min a hi - lo + 1) div (hi - lo + 1)" if "lo \<le> hi" "lo \<le> a"
    by (rule mul_quo64) (use that near mb in auto)
  then show ?thesis
    unfolding month_share_def Let_def prod.case m ends hi_def [symmetric] lo_def [symmetric] d1 d2
    by auto
qed

lemma month_share_mono:
  assumes "sane_goal t s e" "0 \<le> weight_of ws (int i)" "weight_of ws (int i) \<le> 10000" "a \<le> a'"
  shows "0 \<le> month_share t (midnight s) (midnight e) (midnight a) ws (i, midnight p, midnight q)"
    "month_share t (midnight s) (midnight e) (midnight a) ws (i, midnight p, midnight q)
       \<le> month_share t (midnight s) (midnight e) (midnight a') ws (i, midnight p, midnight q)"
    "month_share t (midnight s) (midnight e) (midnight a') ws (i, midnight p, midnight q) \<le> t * weight_of ws (int i) div 10000"
proof -
  let ?m = "t * weight_of ws (int i) div 10000"
  define hi lo where "hi = min e q" and "lo = max s p"
  have m: "0 \<le> ?m" using assms(1-3) by (simp add: sane_goal_def pos_imp_zdiv_nonneg_iff)
  note eq = month_share_midnight [OF assms(1-3), of _ p q, unfolded Let_def, folded hi_def lo_def]
  consider "hi < lo \<or> a' < lo" | "lo \<le> hi" "a < lo" "lo \<le> a'" | "lo \<le> hi" "lo \<le> a" using assms(4) by linarith
  then show "0 \<le> month_share t (midnight s) (midnight e) (midnight a) ws (i, midnight p, midnight q)"
    "month_share t (midnight s) (midnight e) (midnight a) ws (i, midnight p, midnight q)
       \<le> month_share t (midnight s) (midnight e) (midnight a') ws (i, midnight p, midnight q)"
    "month_share t (midnight s) (midnight e) (midnight a') ws (i, midnight p, midnight q) \<le> ?m"
  proof (atomize (full), cases)
    case 1
    then show "0 \<le> month_share t (midnight s) (midnight e) (midnight a) ws (i, midnight p, midnight q) \<and>
      month_share t (midnight s) (midnight e) (midnight a) ws (i, midnight p, midnight q)
       \<le> month_share t (midnight s) (midnight e) (midnight a') ws (i, midnight p, midnight q) \<and>
      month_share t (midnight s) (midnight e) (midnight a') ws (i, midnight p, midnight q) \<le> ?m"
      using assms(4) m unfolding eq by auto
  next
    case 2
    with share_of_days [OF m, of "min a' hi - lo + 1" "min a' hi - lo + 1" "hi - lo + 1"] assms(4)
    show "0 \<le> month_share t (midnight s) (midnight e) (midnight a) ws (i, midnight p, midnight q) \<and>
      month_share t (midnight s) (midnight e) (midnight a) ws (i, midnight p, midnight q)
       \<le> month_share t (midnight s) (midnight e) (midnight a') ws (i, midnight p, midnight q) \<and>
      month_share t (midnight s) (midnight e) (midnight a') ws (i, midnight p, midnight q) \<le> ?m"
      unfolding eq by auto
  next
    case 3
    with share_of_days [OF m, of "min a hi - lo + 1" "min a' hi - lo + 1" "hi - lo + 1"] assms(4)
    show "0 \<le> month_share t (midnight s) (midnight e) (midnight a) ws (i, midnight p, midnight q) \<and>
      month_share t (midnight s) (midnight e) (midnight a) ws (i, midnight p, midnight q)
       \<le> month_share t (midnight s) (midnight e) (midnight a') ws (i, midnight p, midnight q) \<and>
      month_share t (midnight s) (midnight e) (midnight a') ws (i, midnight p, midnight q) \<le> ?m"
      unfolding eq by auto
  qed
qed

text \<open>The expected amount as a sum over the months, and its linear form.\<close>

lemma expected_linear:
  assumes "sane_goal t s e" "curve \<noteq> CurveSeasonal \<or> ws = []"
  shows "expected_to_date t (midnight s) (midnight e) (midnight a) curve ws
    = (if a < s then 0 else t * (min a e - s + 1) div (e - s + 1))"
proof -
  have t: "0 \<le> t" "t \<le> 10000000000000" "s \<le> e" "e - s < 1098" using assms(1) by (auto simp: sane_goal_def max_period_days_def)
  have d: "days_inclusive (midnight s) (midnight e) = e - s + 1" using days_inclusive_midnight [of e s] t by simp
  have el: "days_inclusive (midnight s) (midnight (min a e)) = min a e - s + 1" if "s \<le> a"
    using days_inclusive_midnight [of "min a e" s] t that by simp
  have "quo64 (mul64 t (min a e - s + 1)) (e - s + 1) = t * (min a e - s + 1) div (e - s + 1)" if "s \<le> a"
    by (rule mul_quo64) (use t that in auto)
  then show ?thesis using assms(2) d el t by (auto simp: expected_to_date_def Let_def)
qed

lemma expected_seasonal:
  assumes "sane_goal t s e" "curve = CurveSeasonal" "ws \<noteq> []" "distinct (map wt_bucket ws)"
    "\<forall>w \<in> set ws. 0 \<le> wt_bps w \<and> wt_bps w \<le> 10000" "sum_list (map wt_bps ws) = 10000" "a \<le> a'"
  shows "0 \<le> expected_to_date t (midnight s) (midnight e) (midnight a) curve ws"
    "expected_to_date t (midnight s) (midnight e) (midnight a) curve ws \<le> expected_to_date t (midnight s) (midnight e) (midnight a') curve ws"
    "expected_to_date t (midnight s) (midnight e) (midnight a') curve ws \<le> t"
proof -
  have t: "0 < t" "t \<le> 10000000000000" "s \<le> e" "e - s < 1098" using assms(1) by (auto simp: sane_goal_def max_period_days_def)
  have d: "days_inclusive (midnight s) (midnight e) = e - s + 1" using days_inclusive_midnight [of e s] t by simp
  obtain y m dd where c: "time_date (midnight s) = (y, m, dd)" by (metis prod_cases3)
  obtain ps where ps: "month_buckets (midnight s) (midnight e) = map (\<lambda>(p, q). (midnight p, midnight q)) ps"
    using month_spans_midnight [of 24 "day_number y m 1" "midnight e"] by (auto simp: month_buckets_def c date_utc_def)
  have some: "ps \<noteq> []"
  proof -
    have "day_number y m 1 \<le> s" using c civil_valid(3) [of s y m dd] day_number_civil [of s y m dd]
      by (simp add: time_date_def day_number_def Let_def)
    then have "month_buckets (midnight s) (midnight e) \<noteq> []" using t by (simp add: month_buckets_def c date_utc_def eval_nat_numeral Let_def)
    with ps show ?thesis by auto
  qed
  define part where "part a x = month_share t (midnight s) (midnight e) (midnight a) ws (case x of (i, p, q) \<Rightarrow> (i, midnight p, midnight q))" for a x
  have w: "0 \<le> weight_of ws i" "weight_of ws i \<le> 10000" for i
  proof -
    show "0 \<le> weight_of ws i" unfolding weight_of_sum [OF assms(4)] using assms(5) by (intro sum_list_nonneg) auto
    have "weight_of ws i \<le> sum_list (map wt_bps ws)"
      unfolding weight_of_sum [OF assms(4)] using assms(5) by (intro sum_list_mono) auto
    with assms(6) show "weight_of ws i \<le> 10000" by simp
  qed
  define total where "total a = (\<Sum>x\<leftarrow>enumerate 0 ps. part a x)" for a
  have tot: "0 \<le> total a" "total a \<le> total b" "total b \<le> t" if "a \<le> b" for a b
  proof -
    have m: "0 \<le> part a x" "part a x \<le> part b x" "part b x \<le> t * weight_of ws (int (fst x)) div 10000" for x
      using month_share_mono [OF assms(1) w that] by (simp_all add: part_def split: prod.split)
    show "0 \<le> total a" unfolding total_def using m(1) by (intro sum_list_nonneg) auto
    show "total a \<le> total b" unfolding total_def using m(2) by (intro sum_list_mono) auto
    have "total b \<le> (\<Sum>x\<leftarrow>enumerate 0 ps. t * weight_of ws (int (fst x)) div 10000)"
      unfolding total_def using m(3) by (intro sum_list_mono) auto
    also have "... \<le> t * (\<Sum>x\<leftarrow>enumerate 0 ps. weight_of ws (int (fst x))) div 10000" by (rule floors_le) simp
    also have "(\<Sum>x\<leftarrow>enumerate 0 ps. weight_of ws (int (fst x))) = (\<Sum>i\<leftarrow>[0..<length ps]. weight_of ws (int i))"
      by (simp add: map_map [symmetric, unfolded comp_def, of "\<lambda>i. weight_of ws (int i)" fst])
    also have "t * ... div 10000 \<le> t * 10000 div 10000"
      using weights_total_le [of ws "length ps"] assms(4-6) t(1) by (intro zdiv_mono1 mult_left_mono) auto
    finally show "total b \<le> t" by simp
  qed
  have E: "expected_to_date t (midnight s) (midnight e) (midnight a) curve ws = (if a < s then 0 else total a)" for a
  proof (cases "a < s")
    case False
    have "foldl (\<lambda>r x. add64 r (month_share t (midnight s) (midnight e) (midnight a) ws x)) (i64 0)
        (enumerate 0 (map (\<lambda>(p, q). (midnight p, midnight q)) ps)) = i64 (0 + total a)"
      unfolding foldl_add64 total_def part_def by (simp add: enumerate_map_upt comp_def case_prod_beta enumerate_eq_zip zip_map2)
    also have "... = total a" using tot [of a a] t by (simp add: i64_id fits64_def)
    finally show ?thesis using False assms(2,3) d t some by (simp add: expected_to_date_def Let_def ps)
  qed (simp add: expected_to_date_def)
  show "0 \<le> expected_to_date t (midnight s) (midnight e) (midnight a) curve ws"
    "expected_to_date t (midnight s) (midnight e) (midnight a) curve ws \<le> expected_to_date t (midnight s) (midnight e) (midnight a') curve ws"
    "expected_to_date t (midnight s) (midnight e) (midnight a') curve ws \<le> t"
    using tot [OF assms(7)] tot [of a' a'] t(1) assms(7) unfolding E by auto
qed

text \<open>
  C25. The pace line of a target is sound: for a linear curve or validated weights the expected amount never decreases from one
  day to the next, stays between zero and the target, and a linear target is expected in full at the end of its period.
\<close>

theorem pace_line_sound:
  assumes "sane_goal t s e" "validate_weights curve ws = None" "length ws \<le> 1000000" "a \<le> a'"
  shows "0 \<le> expected_to_date t (midnight s) (midnight e) (midnight a) curve ws
    \<and> expected_to_date t (midnight s) (midnight e) (midnight a) curve ws \<le> expected_to_date t (midnight s) (midnight e) (midnight a') curve ws
    \<and> expected_to_date t (midnight s) (midnight e) (midnight a') curve ws \<le> t
    \<and> (curve = CurveLinear \<longrightarrow> e \<le> a' \<longrightarrow> expected_to_date t (midnight s) (midnight e) (midnight a') curve ws = t)"
proof (cases "curve = CurveSeasonal")
  case True
  with assms(2) have ws: "ws \<noteq> []" "weights_loop [] 0 ws = Inr 10000"
    by (auto simp: validate_weights_def split: if_splits sum.splits)
  note l = weights_loop_Inr [OF ws(2)]
  have "\<forall>w \<in> set ws. wt_bps w \<le> 10000" using l by blast
  then have "sum_list (map wt_bps ws) \<le> 10000 * int (length ws)" by (induction ws) auto
  moreover have "0 \<le> sum_list (map wt_bps ws)" using l by (intro sum_list_nonneg) auto
  ultimately have "i64 (sum_list (map wt_bps ws)) = sum_list (map wt_bps ws)" using assms(3) by (intro i64_id) (simp add: fits64_def)
  with l have sum: "sum_list (map wt_bps ws) = 10000" by (simp add: fits64_def)
  show ?thesis using expected_seasonal [OF assms(1) True ws(1) _ _ sum assms(4)] l True by auto
next
  case False
  have t: "0 < t" "s \<le> e" using assms(1) by (auto simp: sane_goal_def)
  have lin: "expected_to_date t (midnight s) (midnight e) (midnight x) curve ws = (if x < s then 0 else t * (min x e - s + 1) div (e - s + 1))" for x
    by (rule expected_linear [OF assms(1)]) (use False in simp)
  show ?thesis unfolding lin
    using t assms(4) share_of_days [of t "min a e - s + 1" "min a' e - s + 1" "e - s + 1"]
      share_of_days [of t "min a' e - s + 1" "min a' e - s + 1" "e - s + 1"]
    by auto
qed

definition ex_weights :: "weight list" where
  "ex_weights = [\<lparr>wt_bucket = 0, wt_bps = 2500\<rparr>, \<lparr>wt_bucket = 1, wt_bps = 7500\<rparr>]"

theorem pace_line_sound_witness:
  "0 \<le> expected_to_date 1000 (midnight 730119) (midnight 730177) (midnight 730160) CurveSeasonal ex_weights
    \<and> expected_to_date 1000 (midnight 730119) (midnight 730177) (midnight 730160) CurveSeasonal ex_weights
      \<le> expected_to_date 1000 (midnight 730119) (midnight 730177) (midnight 730170) CurveSeasonal ex_weights
    \<and> expected_to_date 1000 (midnight 730119) (midnight 730177) (midnight 730170) CurveSeasonal ex_weights \<le> 1000"
proof -
  have "sane_goal 1000 730119 730177" by (simp add: sane_goal_def max_period_days_def)
  moreover have "validate_weights CurveSeasonal ex_weights = None" by code_simp
  moreover have "length ex_weights \<le> 1000000" by (simp add: ex_weights_def)
  ultimately show ?thesis using pace_line_sound [of 1000 730119 730177 CurveSeasonal ex_weights 730160 730170] by simp
qed

theorem calendar_periods_partition_witness:
  "\<exists>s e. resolve_period PeriodMonthly (midnight 730160) zero_time = Inr (s, e) \<and> period_covers s e (midnight 730160)
    \<and> (period_covers s e (midnight 730178) \<longleftrightarrow> resolve_period PeriodMonthly (midnight 730178) zero_time = Inr (s, e))"
  by (rule calendar_periods_partition) (simp_all add: period_calendar_def)

text \<open>
  Weights are not matched with the months of the period: the weight of a month that the period does not have, or that comes
  after the 24th although periods may last three years, is accepted and lost, and that part of the target is never expected.
\<close>

lemma weight_outside_period_lost:
  assumes "\<forall>w \<in> set ws. int (length (month_buckets s e)) \<le> wt_bucket w" "ws \<noteq> []" "month_buckets s e \<noteq> []"
  shows "expected_to_date t s e a CurveSeasonal ws = 0"
proof -
  have "weight_of ws (int i) = 0" if "i < length (month_buckets s e)" for i
    using assms(1) that by (fastforce simp: weight_of_def split: option.splits dest!: map_of_SomeD)
  then have zero: "month_share t s e a ws (i, p, q) = 0" if "i < length (month_buckets s e)" for i p q
    using that by (simp add: month_share_def Let_def mul64_def quo64_def quo_def i64_0)
  have "i < length (month_buckets s e)" if "(i, pq) \<in> set (enumerate 0 (month_buckets s e))" for i pq
    using that by (auto simp: enumerate_eq_zip dest!: set_zip_leftD)
  then have all: "\<forall>x \<in> set (enumerate 0 (month_buckets s e)). month_share t s e a ws x = 0" using zero by force
  have "(\<Sum>x\<leftarrow>enumerate 0 (month_buckets s e). month_share t s e a ws x) = 0" using all by (simp cong: map_cong)
  then have "foldl (\<lambda>r x. add64 r (month_share t s e a ws x)) (i64 0) (enumerate 0 (month_buckets s e)) = 0"
    unfolding foldl_add64 by (simp add: i64_0)
  then show ?thesis using assms(2,3) by (simp add: expected_to_date_def Let_def i64_0)
qed

lemma lost_weights_are_valid: "validate_weights CurveSeasonal [\<lparr>wt_bucket = 20, wt_bps = 10000\<rparr>] = None"
  by code_simp

section \<open>The required pace\<close>

lemma ceil_div:
  assumes "0 < (n::int)"
  shows "x \<le> ((x + n - 1) div n) * n" "((x + n - 1) div n - 1) * n < x"
  using div_bounds [OF assms, of "x + n - 1"] by (simp_all add: algebra_simps)

text \<open>
  The required daily pace is the least one that works: before the last day of the period, selling that much on every day
  that is left reaches the target, and selling one unit less does not.
\<close>

theorem required_pace_least:
  assumes "sane_goal t s e" "s \<le> a" "a < e" "0 \<le> sold" "sold < t"
  shows "let r = cx_required (calculate \<lparr>ci_target = t, ci_actual = sold, ci_start = midnight s, ci_end = midnight e,
      ci_as_of = midnight a, ci_curve = curve, ci_weights = ws\<rparr>)
    in t \<le> sold + r * (e - a) \<and> sold + (r - 1) * (e - a) < t"
proof -
  have t: "0 < t" "t \<le> 10000000000000" "e - s < 1098" using assms(1) by (auto simp: sane_goal_def max_period_days_def)
  have m: "min (a + 1) e = a + 1" using assms(3) by simp
  have left: "days_inclusive (midnight (a + 1)) (midnight e) = e - a"
    using days_inclusive_midnight [of e "a + 1"] t assms(2,3) by simp
  have ar: "sub64 t sold = t - sold" "sub64 (add64 (t - sold) (e - a)) 1 = t - sold + (e - a) - 1"
    using t assms by (simp_all add: sub64_def add64_def i64_id fits64_def)
  have q: "quo64 (t - sold + (e - a) - 1) (e - a) = (t - sold + (e - a) - 1) div (e - a)"
    using t assms by (intro quo64_nonneg) (auto simp: fits64_def)
  have "cx_required (calculate \<lparr>ci_target = t, ci_actual = sold, ci_start = midnight s, ci_end = midnight e,
      ci_as_of = midnight a, ci_curve = curve, ci_weights = ws\<rparr>) = (t - sold + (e - a) - 1) div (e - a)"
    using assms t by (simp add: calculate_def Let_def add_date_days m left ar q)
  then show ?thesis using ceil_div [of "e - a" "t - sold"] assms(3) by (simp add: Let_def algebra_simps)
qed

theorem required_pace_least_witness:
  "cx_required (calculate \<lparr>ci_target = 1000, ci_actual = 300, ci_start = midnight 10, ci_end = midnight 19, ci_as_of = midnight 13,
      ci_curve = CurveLinear, ci_weights = []\<rparr>) = 117 \<and> 1000 \<le> 300 + 117 * (6::int) \<and> 300 + 116 * (6::int) < 1000"
proof -
  have "cx_required (calculate \<lparr>ci_target = 1000, ci_actual = 300, ci_start = midnight 10, ci_end = midnight 19, ci_as_of = midnight 13,
      ci_curve = CurveLinear, ci_weights = []\<rparr>) = 117" by code_simp
  with required_pace_least [of 1000 10 19 13 300 CurveLinear "[]"] show ?thesis
    by (simp add: sane_goal_def max_period_days_def)
qed

section \<open>The status in floating point\<close>

lemma quotient_exact: "\<bar>a\<bar> \<le> 2 ^ 53 \<Longrightarrow> \<bar>b\<bar> \<le> 2 ^ 53 \<Longrightarrow> float_quotient a b = float64 (of_int a / of_int b)"
  by (simp add: float_quotient_def float64_int)

text \<open>A threshold \<open>p/q\<close> that still differs in floating point from the next smaller quotient that can arise.\<close>

lemma threshold_exact:
  assumes "0 < e" "e \<le> 100000000000000" "\<bar>a\<bar> \<le> 2 ^ 53" "0 < q"
    "float64 (of_int p / of_int q - 1 / (of_int q * 100000000000000)) < float64 (of_int p / of_int q)"
  shows "float64 (of_int p / of_int q) \<le> float_quotient a e \<longleftrightarrow> p * e \<le> q * a"
proof
  have f: "float_quotient a e = float64 (of_int a / of_int e)" using assms(1-3) by (intro quotient_exact) auto
  have e: "(0::rat) < of_int e" "(0::rat) < of_int q" using assms(1,4) by auto
  assume h: "float64 (of_int p / of_int q) \<le> float_quotient a e"
  show "p * e \<le> q * a"
  proof (rule ccontr)
    assume "\<not> p * e \<le> q * a"
    then have "q * a + 1 \<le> p * e" by linarith
    then have "(of_int q * of_int a + 1 :: rat) \<le> of_int p * of_int e"
      by (metis of_int_1 of_int_add of_int_le_iff of_int_mult)
    then have "of_int a / of_int e \<le> of_int p / of_int q - 1 / (of_int q * of_int e :: rat)"
      using e by (simp add: field_simps)
    also have "... \<le> of_int p / of_int q - 1 / (of_int q * 100000000000000)"
    proof -
      have "(of_int e :: rat) \<le> 100000000000000" using assms(2) by (metis of_int_le_iff of_int_numeral)
      then have "1 / (of_int q * 100000000000000) \<le> 1 / (of_int q * of_int e :: rat)" using e
        by (intro divide_left_mono mult_left_mono) auto
      then show ?thesis by simp
    qed
    finally have "float_quotient a e \<le> float64 (of_int p / of_int q - 1 / (of_int q * 100000000000000))"
      unfolding f by (rule float64_mono)
    with h assms(5) show False by linarith
  qed
next
  have f: "float_quotient a e = float64 (of_int a / of_int e)" using assms(1-3) by (intro quotient_exact) auto
  have e: "(0::rat) < of_int e" "(0::rat) < of_int q" using assms(1,4) by auto
  assume "p * e \<le> q * a"
  then have "(of_int p * of_int e :: rat) \<le> of_int q * of_int a" by (metis of_int_le_iff of_int_mult)
  then have "of_int p / of_int q \<le> (of_int a / of_int e :: rat)" using e by (simp add: field_simps)
  then show "float64 (of_int p / of_int q) \<le> float_quotient a e" unfolding f by (rule float64_mono)
qed

lemma pace_thresholds:
  "float64 (21 / 20 - 1 / (20 * 100000000000000)) < float64 (21 / 20)"
  "float64 (9 / 10 - 1 / (10 * 100000000000000)) < float64 (9 / 10)"
proof -
  have u: "(2::rat) powi (0 - 52) = 1 / 2 ^ 52" "(2::rat) powi (- 1 - 52) = 1 / 2 ^ 53" "(2::rat) powi (- 1) = 1 / 2"
    by (simp_all add: power_int_def field_simps)
  show "float64 (21 / 20 - 1 / (20 * 100000000000000)) < float64 (21 / 20)"
    by (rule float64_separated [where k = 0 and n = 4728779608739020], unfold u) simp_all
  show "float64 (9 / 10 - 1 / (10 * 100000000000000)) < float64 (9 / 10)"
    by (rule float64_separated [where k = "- 1" and n = 8106479329266890], unfold u) simp_all
qed

text \<open>
  C26. Floating point does not blur the status: for amounts up to a trillion currency units the computed status is exactly the one
  of the quotient of the integers, ahead from 105 percent of the expected amount on and behind below 90 percent.
\<close>

theorem status_from_pace_exact:
  assumes "0 < expected" "expected \<le> 100000000000000" "\<bar>sold\<bar> \<le> 2 ^ 53"
  shows "status_from_pace expected sold =
    (if 105 * expected \<le> 100 * sold then PaceAhead else if 90 * expected \<le> 100 * sold then PaceOnTrack else PaceBehind)"
proof -
  have "float64 (21 / 20) \<le> float_quotient sold expected \<longleftrightarrow> 21 * expected \<le> 20 * sold"
    using threshold_exact [OF assms, of 20 21] pace_thresholds(1) by simp
  moreover have "float64 (9 / 10) \<le> float_quotient sold expected \<longleftrightarrow> 9 * expected \<le> 10 * sold"
    using threshold_exact [OF assms, of 10 9] pace_thresholds(2) by simp
  ultimately show ?thesis using assms(1) by (simp add: status_from_pace_def Let_def)
qed

theorem status_from_pace_exact_witness: "status_from_pace 2000 2099 = PaceOnTrack"
  using status_from_pace_exact [of 2000 2099] by simp

end
