(* ===== verification/Revenue_Service.thy ===== *)
theory Revenue_Service
  imports Revenue_Target Payment_Service "HOL-Library.Char_ord" "HOL-Library.List_Lexorder"
begin

text \<open>
  \<^verbatim>\<open>internal/app/revenuetarget/service.go\<close> over the tables of \<^verbatim>\<open>adapter/postgres/revenuetarget/repository.go\<close>: setting,
  revising and deleting targets, their weights and shares, and the progress that is computed from bookings and ledger
  entries, stored as the snapshot of the day and announced when the status moves.

  Parameters (\<open>goal_env\<close>): the environment of the payment service (scope, teams, clock, rates), the identifier drawn, the
  names of users and the order the database sorts names in, the managers of a branch, the ports (currency settings,
  recovery tasks, alerts, outbox, audit recorder). The session of the database runs in UTC. Foreign keys to users and
  branches are taken to hold; the check and uniqueness constraints of the tables are modelled.
\<close>

section \<open>Targets\<close>

record goal =
  tg_id :: uuid
  tg_branch :: uuid
  tg_owner :: "uuid option"
  tg_team :: "uuid option"
  tg_label :: string
  tg_amount :: int
  tg_customers :: "int option"
  tg_currency :: string
  tg_metric :: metric
  tg_scope :: target_scope
  tg_curve :: curve_type
  tg_period :: period_kind
  tg_start :: go_time
  tg_end :: go_time
  tg_created_by :: "uuid option"
  tg_created :: go_time
  tg_updated :: go_time

record pace_snapshot =
  sn_goal :: uuid
  sn_as_of :: go_time
  sn_actual :: int
  sn_expected :: int
  sn_variance :: int
  sn_progress :: int
  sn_pace :: int
  sn_forecast :: int
  sn_status :: pace_status
  sn_updated :: go_time

text \<open>\<open>targetSnapshot\<close>, as it goes into revisions and the audit log.\<close>

record goal_view =
  tv_id :: uuid
  tv_branch :: uuid
  tv_label :: string
  tv_amount :: int
  tv_currency :: string
  tv_metric :: metric
  tv_scope :: target_scope
  tv_curve :: curve_type
  tv_period :: period_kind
  tv_start :: string
  tv_end :: string
  tv_customers :: "int option"
  tv_owner :: "uuid option"
  tv_team :: "uuid option"

definition goal_view_of :: "goal \<Rightarrow> goal_view" where
  "goal_view_of t = \<lparr>tv_id = tg_id t, tv_branch = tg_branch t, tv_label = tg_label t, tv_amount = tg_amount t,
     tv_currency = tg_currency t, tv_metric = tg_metric t, tv_scope = tg_scope t, tv_curve = tg_curve t,
     tv_period = tg_period t, tv_start = format_date (tg_start t), tv_end = format_date (tg_end t),
     tv_customers = tg_customers t, tv_owner = tg_owner t, tv_team = tg_team t\<rparr>"

datatype revision_body = OfGoal goal_view | OfWeights "weight list" | OfShares "share list"

record revision =
  rv_goal :: uuid
  rv_actor :: uuid
  rv_action :: string
  rv_before :: revision_body
  rv_after :: revision_body
  rv_at :: go_time

record status_event =
  se_goal :: uuid
  se_branch :: uuid
  se_label :: string
  se_from :: pace_status
  se_to :: pace_status
  se_deficit :: int
  se_variance_pct :: int

record revenue_db =
  gd_pay :: payment_db
  gd_goals :: "goal list"
  gd_weights :: "(uuid \<times> weight) list"
  gd_shares :: "(uuid \<times> share) list"
  gd_snapshots :: "pace_snapshot list"
  gd_revisions :: "revision list"
  gd_outbox :: "status_event list"
  gd_audit :: "(string \<times> uuid) list"

record goal_env =
  ge_pay :: pay_env
  ge_fresh :: uuid
  ge_names :: "uuid \<Rightarrow> string"
  ge_name_order :: "string \<Rightarrow> nat"
  ge_managers :: "uuid \<Rightarrow> uuid list"
  ge_reporting :: bool
  ge_outbox :: bool
  ge_audit :: "(string \<Rightarrow> error option) option"
  ge_task :: "(uuid \<times> uuid \<times> uuid \<times> string \<times> int \<Rightarrow> error option) option"
  ge_alert :: "(uuid \<times> uuid \<times> int \<Rightarrow> error option) option"

definition ge_scope :: "goal_env \<Rightarrow> scope option" where "ge_scope env = e_scope (pe_booking (ge_pay env))"
definition ge_team :: "goal_env \<Rightarrow> uuid \<Rightarrow> uuid option" where "ge_team env = e_users (pe_booking (ge_pay env))"
definition ge_now :: "goal_env \<Rightarrow> go_time" where "ge_now env = utc (e_now (pe_booking (ge_pay env)))"
definition goal_today :: "goal_env \<Rightarrow> go_time" where "goal_today env = truncate_day (ge_now env)"

section \<open>Repository\<close>

text \<open>\<open>targetScope\<close>: the branch of the caller, and below the branch level the targets that concern the caller.\<close>

definition goal_concerns :: "goal_env \<Rightarrow> (uuid \<times> share) list \<Rightarrow> goal \<Rightarrow> bool" where
  "goal_concerns env shares t =
     (case ge_scope env of
        None \<Rightarrow> True
      | Some s \<Rightarrow>
          (case Level s of
             LevelOwn \<Rightarrow> tg_scope t = ScopeBranch \<or> tg_owner t = Some (UserID s)
               \<or> list_ex (\<lambda>(i, h). i = tg_id t \<and> sh_user h = UserID s) shares
           | LevelTeam \<Rightarrow> tg_scope t = ScopeBranch \<or> tg_team t = Some (TeamID s) \<or> tg_owner t = Some (UserID s)
               \<or> (case tg_owner t of None \<Rightarrow> False | Some u \<Rightarrow> ge_team env u = Some (TeamID s))
           | _ \<Rightarrow> True))"

definition goal_sees :: "goal_env \<Rightarrow> (revenue_db \<Rightarrow> goal \<Rightarrow> bool) result" where
  "goal_sees env =
     map_sum id (\<lambda>p db t. p \<lparr>row_branch = tg_branch t, row_owner = None\<rparr> \<and> goal_concerns env (gd_shares db) t)
       (scope_clause (ge_scope env) \<lparr>Branch = ''t.branch_id'', Owner = [], OwnerOrUnassigned = False\<rparr> (ge_team env))"

text \<open>The guard \<open>targetVisible\<close> on the rows that belong to a target.\<close>

definition goal_visible :: "goal_env \<Rightarrow> uuid \<Rightarrow> (revenue_db, bool) uow" where
  "goal_visible env i =
     and_then (lift_result (goal_sees env)) (\<lambda>sees. reading (\<lambda>db. list_ex (\<lambda>t. tg_id t = i \<and> sees db t) (gd_goals db)))"

definition ensure_goal :: "goal_env \<Rightarrow> uuid \<Rightarrow> (revenue_db, unit) uow" where
  "ensure_goal env i =
     and_then (goal_visible env i) (\<lambda>ok. if ok then ret () else fail (new_not_found ''revenue_target''))"

text \<open>The check constraints of the table.\<close>

definition goal_columns :: "goal \<Rightarrow> bool" where
  "goal_columns t \<longleftrightarrow> 0 < tg_amount t \<and> tg_metric t \<in> {MetricCollected, MetricBooked}
     \<and> tg_scope t \<in> {ScopeBranch, ScopeTeam, ScopeEmployee} \<and> tg_curve t \<in> {CurveLinear, CurveSeasonal}
     \<and> period_valid (tg_period t) \<and> \<not> before (tg_end t) (tg_start t)
     \<and> (case tg_customers t of None \<Rightarrow> True | Some n \<Rightarrow> 0 < n \<and> n \<le> 1000000)"

definition err_constraint :: error where "err_constraint = Plain ''check constraint violated''"
definition err_unique :: error where "err_unique = Plain ''duplicate key value''"

definition insert_goal :: "goal_env \<Rightarrow> goal \<Rightarrow> (revenue_db, unit) uow" where
  "insert_goal env t =
     (case ensure_branch (ge_scope env) (tg_branch t) of
        Some e \<Rightarrow> fail e
      | None \<Rightarrow>
          and_then (reading gd_goals) (\<lambda>ts.
            if list_ex (\<lambda>x. tg_id x = tg_id t) ts then fail err_unique
            else if \<not> goal_columns t then fail err_constraint
            else writing (\<lambda>db. db\<lparr>gd_goals := ts @ [t]\<rparr>)))"

definition goal_written :: "goal \<Rightarrow> goal \<Rightarrow> goal" where
  "goal_written t x =
     x\<lparr>tg_owner := tg_owner t, tg_team := tg_team t, tg_label := tg_label t, tg_amount := tg_amount t,
       tg_customers := tg_customers t, tg_currency := tg_currency t, tg_metric := tg_metric t, tg_scope := tg_scope t,
       tg_curve := tg_curve t, tg_period := tg_period t, tg_start := tg_start t, tg_end := tg_end t, tg_updated := tg_updated t\<rparr>"

definition update_goal_row :: "goal_env \<Rightarrow> goal \<Rightarrow> (revenue_db, unit) uow" where
  "update_goal_row env t =
     and_then (lift_result (goal_sees env)) (\<lambda>sees.
     and_then (reading (\<lambda>db. \<lambda>x. tg_id x = tg_id t \<and> sees db x)) (\<lambda>hit.
     and_then (reading gd_goals) (\<lambda>ts.
       if \<not> list_ex hit ts then fail (new_not_found ''revenue_target'')
       else if \<not> goal_columns t then fail err_constraint
       else writing (\<lambda>db. db\<lparr>gd_goals := map (\<lambda>x. if hit x then goal_written t x else x) ts\<rparr>))))"

text \<open>\<open>Delete\<close>, with the cascades of the schema.\<close>

definition delete_goal_row :: "goal_env \<Rightarrow> uuid \<Rightarrow> (revenue_db, unit) uow" where
  "delete_goal_row env i =
     and_then (lift_result (goal_sees env)) (\<lambda>sees.
     and_then (reading (\<lambda>db. \<lambda>x. tg_id x = i \<and> sees db x)) (\<lambda>hit.
     and_then (reading gd_goals) (\<lambda>ts.
       if \<not> list_ex hit ts then fail (new_not_found ''revenue_target'')
       else writing (\<lambda>db. db\<lparr>gd_goals := filter (\<lambda>x. \<not> hit x) ts,
              gd_weights := filter (\<lambda>(j, _). j \<noteq> i) (gd_weights db),
              gd_shares := filter (\<lambda>(j, _). j \<noteq> i) (gd_shares db),
              gd_snapshots := filter (\<lambda>s. sn_goal s \<noteq> i) (gd_snapshots db),
              gd_revisions := filter (\<lambda>r. rv_goal r \<noteq> i) (gd_revisions db)\<rparr>))))"

definition find_goal :: "goal_env \<Rightarrow> uuid \<Rightarrow> (revenue_db, goal option) uow" where
  "find_goal env i =
     and_then (lift_result (goal_sees env)) (\<lambda>sees. reading (\<lambda>db. find (\<lambda>t. tg_id t = i \<and> sees db t) (gd_goals db)))"

definition list_goals :: "goal_env \<Rightarrow> uuid option \<Rightarrow> (revenue_db, goal list) uow" where
  "list_goals env branch =
     and_then (lift_result (goal_sees env)) (\<lambda>sees.
       reading (\<lambda>db. sort_key (\<lambda>t. - nanos (tg_start t)) (sort_key (\<lambda>t. ge_name_order env (tg_label t))
         (filter (\<lambda>t. (case branch of None \<Rightarrow> True | Some b \<Rightarrow> tg_branch t = b) \<and> sees db t) (gd_goals db)))))"

text \<open>A row of a target is inserted unless a constraint of its table is violated.\<close>

fun insert_weights :: "uuid \<Rightarrow> weight list \<Rightarrow> (uuid \<times> weight) list \<Rightarrow> (uuid \<times> weight) list result" where
  "insert_weights i [] rows = Inr rows"
| "insert_weights i (w # ws) rows =
     (if wt_bucket w < 0 \<or> wt_bucket w \<ge> 24 \<or> wt_bps w < 0 \<or> wt_bps w > 10000 then Inl err_constraint
      else if list_ex (\<lambda>(j, x). j = i \<and> wt_bucket x = wt_bucket w) rows then Inl err_unique
      else insert_weights i ws (rows @ [(i, w)]))"

definition replace_weights :: "goal_env \<Rightarrow> uuid \<Rightarrow> weight list \<Rightarrow> (revenue_db, unit) uow" where
  "replace_weights env i ws =
     and_then (ensure_goal env i) (\<lambda>_.
     and_then (reading gd_weights) (\<lambda>rows.
     and_then (lift_result (insert_weights i ws (filter (\<lambda>(j, _). j \<noteq> i) rows))) (\<lambda>rows.
       writing (\<lambda>db. db\<lparr>gd_weights := rows\<rparr>))))"

definition weights_of :: "uuid \<Rightarrow> revenue_db \<Rightarrow> weight list" where
  "weights_of i db = map snd (filter (\<lambda>(j, _). j = i) (gd_weights db))"

definition list_weights :: "goal_env \<Rightarrow> uuid \<Rightarrow> (revenue_db, weight list) uow" where
  "list_weights env i =
     and_then (goal_visible env i) (\<lambda>ok. reading (\<lambda>db. if ok then sort_key wt_bucket (weights_of i db) else []))"

fun insert_shares :: "uuid \<Rightarrow> share list \<Rightarrow> (uuid \<times> share) list \<Rightarrow> (uuid \<times> share) list result" where
  "insert_shares i [] rows = Inr rows"
| "insert_shares i (h # hs) rows =
     (if sh_bps h < 0 \<or> sh_bps h > 10000 then Inl err_constraint
      else if list_ex (\<lambda>(j, x). j = i \<and> sh_user x = sh_user h) rows then Inl err_unique
      else insert_shares i hs (rows @ [(i, h\<lparr>sh_name := []\<rparr>)]))"

definition replace_shares :: "goal_env \<Rightarrow> uuid \<Rightarrow> share list \<Rightarrow> (revenue_db, unit) uow" where
  "replace_shares env i hs =
     and_then (ensure_goal env i) (\<lambda>_.
     and_then (reading gd_shares) (\<lambda>rows.
     and_then (lift_result (insert_shares i hs (filter (\<lambda>(j, _). j \<noteq> i) rows))) (\<lambda>rows.
       writing (\<lambda>db. db\<lparr>gd_shares := rows\<rparr>))))"

definition shares_of :: "uuid \<Rightarrow> revenue_db \<Rightarrow> share list" where
  "shares_of i db = map snd (filter (\<lambda>(j, _). j = i) (gd_shares db))"

text \<open>The names come from the users table.\<close>

definition list_shares :: "goal_env \<Rightarrow> uuid \<Rightarrow> (revenue_db, share list) uow" where
  "list_shares env i =
     and_then (goal_visible env i) (\<lambda>ok. reading (\<lambda>db. if ok
       then sort_key (\<lambda>h. - sh_bps h) (sort_key (\<lambda>h. ge_name_order env (sh_name h))
              (map (\<lambda>h. h\<lparr>sh_name := ge_names env (sh_user h)\<rparr>) (shares_of i db))) else []))"

text \<open>One snapshot for a target and a day; the percentages are 32-bit columns.\<close>

definition fits_int4 :: "int \<Rightarrow> bool" where "fits_int4 n \<longleftrightarrow> - 2147483648 \<le> n \<and> n \<le> 2147483647"

definition upsert_snapshot :: "pace_snapshot \<Rightarrow> (revenue_db, unit) uow" where
  "upsert_snapshot s =
     (if \<not> fits_int4 (sn_progress s) \<or> \<not> fits_int4 (sn_pace s) then fail (Plain ''value out of range for int4'')
      else and_then (reading gd_goals) (\<lambda>ts.
        if \<not> list_ex (\<lambda>t. tg_id t = sn_goal s) ts then fail (Plain ''foreign key violated'')
        else and_then (reading gd_snapshots) (\<lambda>ss.
          let same = (\<lambda>x. sn_goal x = sn_goal s \<and> time_eq (sn_as_of x) (sn_as_of s))
          in writing (\<lambda>db. db\<lparr>gd_snapshots := (if list_ex same ss then map (\<lambda>x. if same x then s else x) ss else ss @ [s])\<rparr>))))"

text \<open>The newest of the snapshots of a target.\<close>

fun newest_snapshot :: "pace_snapshot list \<Rightarrow> pace_snapshot option" where
  "newest_snapshot [] = None"
| "newest_snapshot (s # ss) =
     (case newest_snapshot ss of None \<Rightarrow> Some s | Some x \<Rightarrow> if after (sn_as_of x) (sn_as_of s) then Some x else Some s)"

definition snapshots_of :: "uuid \<Rightarrow> revenue_db \<Rightarrow> pace_snapshot list" where
  "snapshots_of i db = filter (\<lambda>s. sn_goal s = i) (gd_snapshots db)"

definition latest_snapshot :: "goal_env \<Rightarrow> uuid \<Rightarrow> (revenue_db, pace_snapshot option) uow" where
  "latest_snapshot env i =
     and_then (goal_visible env i) (\<lambda>ok. reading (\<lambda>db. if ok then newest_snapshot (snapshots_of i db) else None))"

definition insert_revision :: "revision \<Rightarrow> (revenue_db, unit) uow" where
  "insert_revision r = writing (\<lambda>db. db\<lparr>gd_revisions := gd_revisions db @ [r]\<rparr>)"

text \<open>Newest first; at most \<open>limit\<close>, 50 unless it is positive.\<close>

definition list_revisions :: "goal_env \<Rightarrow> uuid \<Rightarrow> int \<Rightarrow> (revenue_db, revision list) uow" where
  "list_revisions env i limit =
     (let limit = (if limit \<le> 0 then 50 else limit) in
     and_then (goal_visible env i) (\<lambda>ok. reading (\<lambda>db. if ok
       then take (nat limit) (sort_key (\<lambda>r. - nanos (rv_at r)) (filter (\<lambda>r. rv_goal r = i) (gd_revisions db))) else [])))"

section \<open>What was sold\<close>

definition goal_owner_filter :: "goal \<Rightarrow> uuid option" where
  "goal_owner_filter t = (if tg_scope t = ScopeEmployee then tg_owner t else None)"

definition utc_midnight_of :: "go_time \<Rightarrow> go_time" where "utc_midnight_of t = midnight (nanos t div day_ns)"

definition booking_sold :: "booking \<Rightarrow> bool" where
  "booking_sold b \<longleftrightarrow> b_status b \<in> {StatusConfirmed, StatusPartiallyPaid, StatusReady, StatusTravelled, StatusCompleted}"

definition goal_booking :: "goal \<Rightarrow> booking \<Rightarrow> bool" where
  "goal_booking t b \<longleftrightarrow> b_branch b = tg_branch t \<and> (case goal_owner_filter t of None \<Rightarrow> True | Some u \<Rightarrow> b_owner b = u)"

text \<open>Created on the days from \<open>from\<close> to \<open>to\<close>, both included.\<close>

definition created_between :: "go_time \<Rightarrow> go_time \<Rightarrow> go_time \<Rightarrow> bool" where
  "created_between from to x \<longleftrightarrow>
     \<not> before x (utc_midnight_of from) \<and> before x (add_date (utc_midnight_of to) 0 0 1)"

definition err_bigint :: error where "err_bigint = Plain ''bigint out of range''"

text \<open>\<open>bookedCur\<close>, \<open>bookedAmt\<close>, \<open>paidCur\<close> and \<open>paidAmt\<close>: the frozen conversion where it is into the target's currency.\<close>

definition booked_row :: "(uuid \<times> reporting_snapshot) list \<Rightarrow> goal \<Rightarrow> booking \<Rightarrow> string \<times> int result" where
  "booked_row frozen t b =
     (case map_of frozen (b_id b) of
        None \<Rightarrow> (b_currency b, Inr (b_total b))
      | Some s \<Rightarrow>
          if rs_currency s = tg_currency t
          then (tg_currency t, case div_round (b_total b * rs_rate s) 100000000 of Inl _ \<Rightarrow> Inl err_bigint | Inr x \<Rightarrow> Inr x)
          else (b_currency b, Inr (b_total b)))"

definition paid_row :: "goal \<Rightarrow> payment \<Rightarrow> string \<times> int result" where
  "paid_row t p =
     (case p_reporting p of
        None \<Rightarrow> (p_currency p, Inr (p_amount p))
      | Some s \<Rightarrow> if rs_currency s = tg_currency t then (tg_currency t, Inr (rs_amount s)) else (p_currency p, Inr (p_amount p)))"

definition goal_rows :: "goal \<Rightarrow> go_time \<Rightarrow> go_time \<Rightarrow> payment_db \<Rightarrow> (string \<times> int result) list" where
  "goal_rows t from to db =
     (if tg_metric t = MetricBooked
      then map (booked_row (pd_snapshots db) t)
        (filter (\<lambda>b. goal_booking t b \<and> booking_sold b \<and> created_between from to (b_created b)) (db_bookings (pd_core db)))
      else map (paid_row t)
        (filter (\<lambda>p. list_ex (\<lambda>b. b_id b = p_booking p \<and> goal_booking t b) (db_bookings (pd_core db))
           \<and> counts_toward_collected p \<and> \<not> before (p_received p) (utc_midnight_of from) \<and> \<not> after (p_received p) (utc_midnight_of to))
          (pd_payments db)))"

text \<open>The grouped totals, one for each currency; a sum is scanned into an \<open>int64\<close>.\<close>

fun all_amounts :: "(string \<times> int result) list \<Rightarrow> (string \<times> int) list result" where
  "all_amounts [] = Inr []"
| "all_amounts ((c, r) # rs) =
     (case r of Inl e \<Rightarrow> Inl e | Inr x \<Rightarrow> (case all_amounts rs of Inl e \<Rightarrow> Inl e | Inr xs \<Rightarrow> Inr ((c, x) # xs)))"

definition currency_sums :: "(string \<times> int) list \<Rightarrow> (string \<times> int) list" where
  "currency_sums xs = map (\<lambda>c. (c, sum_list (map snd (filter (\<lambda>(d, _). d = c) xs)))) (remdups (map fst xs))"

definition sum_actual :: "goal \<Rightarrow> go_time \<Rightarrow> go_time \<Rightarrow> (revenue_db, (string \<times> int) list) uow" where
  "sum_actual t from to =
     and_then (reading (\<lambda>db. all_amounts (goal_rows t from to (gd_pay db)))) (\<lambda>r.
     and_then (lift_result r) (\<lambda>xs.
       if list_all (\<lambda>(_, n). fits64 n) (currency_sums xs) then ret (currency_sums xs)
       else fail (Plain ''cannot scan numeric into int64'')))"

definition sum_customers :: "goal \<Rightarrow> go_time \<Rightarrow> go_time \<Rightarrow> (revenue_db, int) uow" where
  "sum_customers t from to =
     and_then (reading (\<lambda>db. sum_list (map b_pax (filter (\<lambda>b. goal_booking t b \<and> booking_sold b \<and> created_between from to (b_created b))
       (db_bookings (pd_core (gd_pay db))))))) (\<lambda>n.
       if fits64 n then ret n else fail err_bigint)"

text \<open>The service's \<open>actual\<close>: amounts in other currencies are converted at the rate of the last day, or reported as missing.\<close>

fun actual_loop :: "rate list option \<Rightarrow> string \<Rightarrow> go_time \<Rightarrow> int \<Rightarrow> string list \<Rightarrow> (string \<times> int) list \<Rightarrow> (int \<times> string list) result" where
  "actual_loop rates cur to total' missing [] = Inr (total', missing)"
| "actual_loop rates cur to total' missing ((c, n) # rs) =
     (if n = 0 then actual_loop rates cur to total' missing rs
      else if c = cur then actual_loop rates cur to (add64 total' n) missing rs
      else case rates of
             None \<Rightarrow> actual_loop rates cur to total' (missing @ [c]) rs
           | Some ts \<Rightarrow>
               (case convert (latest ts) n c cur to of
                  Inr v \<Rightarrow> actual_loop rates cur to (add64 total' (c_amount v)) missing rs
                | Inl e \<Rightarrow> if e = err_rate_not_found then actual_loop rates cur to total' (missing @ [c]) rs else Inl e))"

definition goal_actual :: "goal_env \<Rightarrow> goal \<Rightarrow> go_time \<Rightarrow> (revenue_db, int \<times> string list) uow" where
  "goal_actual env t as_of =
     (let to = min_time as_of (tg_end t) in
     and_then (sum_actual t (tg_start t) to) (\<lambda>rows.
     and_then (lift_result (actual_loop (pe_rates (ge_pay env)) (tg_currency t) to 0 [] rows)) (\<lambda>(n, missing).
       ret (n, sort missing))))"

section \<open>Setting targets\<close>

record goal_input =
  gi_branch :: uuid
  gi_owner :: "uuid option"
  gi_team :: "uuid option"
  gi_label :: string
  gi_amount :: int
  gi_customers :: "int option"
  gi_currency :: string
  gi_metric :: metric
  gi_scope :: target_scope
  gi_curve :: curve_type
  gi_period :: period_kind
  gi_start :: go_time
  gi_end :: go_time
  gi_actor :: uuid

record goal_patch =
  gp_id :: uuid
  gp_owner :: "uuid option"
  gp_clear_owner :: bool
  gp_team :: "uuid option"
  gp_clear_team :: bool
  gp_label :: "string option"
  gp_amount :: "int option"
  gp_customers :: "int option"
  gp_clear_customers :: bool
  gp_currency :: "string option"
  gp_metric :: "metric option"
  gp_scope :: "target_scope option"
  gp_curve :: "curve_type option"
  gp_period :: "period_kind option"
  gp_start :: "go_time option"
  gp_end :: "go_time option"
  gp_actor :: uuid

definition goal_log :: "goal_env \<Rightarrow> string \<Rightarrow> uuid \<Rightarrow> (revenue_db, unit) uow" where
  "goal_log env action i =
     (case ge_audit env of
        None \<Rightarrow> ret ()
      | Some f \<Rightarrow> (case f action of Some e \<Rightarrow> fail e | None \<Rightarrow> writing (\<lambda>db. db\<lparr>gd_audit := gd_audit db @ [(action, i)]\<rparr>)))"

definition as_validation :: "'a result \<Rightarrow> 'a result" where
  "as_validation r = (case r of Inl e \<Rightarrow> Inl (new_validation (error_text e)) | Inr x \<Rightarrow> Inr x)"

definition goal_currency_ok :: "string \<Rightarrow> bool" where
  "goal_currency_ok c \<longleftrightarrow> length c = 3 \<and> list_all is_upper c"

definition err_goal_currency :: error where
  "err_goal_currency = new_validation ''currency must be a 3-letter ISO code''"

definition target_currency :: "goal_env \<Rightarrow> uuid \<Rightarrow> string \<Rightarrow> (revenue_db, string) uow" where
  "target_currency env branch raw =
     (let cur = to_upper (trim_space raw) in
     and_then (reading (\<lambda>db.
        if cur = [] \<and> ge_reporting env
        then (case get_finance_settings branch (gd_pay db) of Inl e \<Rightarrow> Inl e | Inr (c, _) \<Rightarrow> Inr (to_upper (trim_space c)))
        else Inr cur)) (\<lambda>r.
     and_then (lift_result r) (\<lambda>cur.
       let cur = (if cur = [] then ''SAR'' else cur)
       in if \<not> goal_currency_ok cur then fail err_goal_currency else ret cur)))"

definition err_label :: error where "err_label = new_validation ''label is required''"
definition err_amount_positive :: error where "err_amount_positive = new_validation ''target_amount must be > 0''"
definition err_metric :: error where "err_metric = new_validation ''metric must be collected or booked''"
definition err_curve :: error where "err_curve = new_validation ''curve_type must be linear or seasonal''"

definition metric_ok :: "metric \<Rightarrow> bool" where "metric_ok m \<longleftrightarrow> \<not> (m \<noteq> MetricCollected \<and> m \<noteq> MetricBooked)"
definition curve_ok :: "curve_type \<Rightarrow> bool" where "curve_ok c \<longleftrightarrow> \<not> (c \<noteq> CurveLinear \<and> c \<noteq> CurveSeasonal)"

definition create_goal :: "goal_env \<Rightarrow> goal_input \<Rightarrow> (revenue_db, goal) uow" where
  "create_goal env inp =
     (let label = trim_space (gi_label inp) in
     and_then (ensure (label \<noteq> []) err_label) (\<lambda>_.
     and_then (ensure (0 < gi_amount inp) err_amount_positive) (\<lambda>_.
     and_then (lift_result (as_validation (normalize_target_customers (gi_customers inp)))) (\<lambda>customers.
     and_then (ensure (gi_branch inp \<noteq> uuid_nil) err_branch_required) (\<lambda>_.
     let kind = (if gi_period inp = OtherPeriod [] then PeriodCustom else gi_period inp) in
     and_then (lift_result (as_validation (resolve_period kind (gi_start inp) (gi_end inp)))) (\<lambda>(start, end').
     let met = (if gi_metric inp = OtherMetric [] then MetricCollected else gi_metric inp) in
     and_then (ensure (metric_ok met) err_metric) (\<lambda>_.
     let scope = (if gi_scope inp = OtherTargetScope [] then (if gi_owner inp \<noteq> None then ScopeEmployee else ScopeBranch) else gi_scope inp);
         curve = (if gi_curve inp = OtherCurve [] then CurveLinear else gi_curve inp) in
     and_then (ensure (curve_ok curve) err_curve) (\<lambda>_.
     and_then (target_currency env (gi_branch inp) (gi_currency inp)) (\<lambda>cur.
     let t = \<lparr>tg_id = ge_fresh env, tg_branch = gi_branch inp, tg_owner = gi_owner inp, tg_team = gi_team inp, tg_label = label,
              tg_amount = gi_amount inp, tg_customers = customers, tg_currency = cur, tg_metric = met, tg_scope = scope,
              tg_curve = curve, tg_period = kind, tg_start = start, tg_end = end', tg_created_by = Some (gi_actor inp),
              tg_created = ge_now env, tg_updated = ge_now env\<rparr>
     in and_then (insert_goal env t) (\<lambda>_.
        and_then (goal_log env ''revenue_target.created'' (tg_id t)) (\<lambda>_. ret t)))))))))))"

text \<open>\<open>Get\<close>, also the first step of every change: an error is reported as a missing target.\<close>

definition get_goal :: "goal_env \<Rightarrow> uuid \<Rightarrow> (revenue_db, goal) uow" where
  "get_goal env i = (\<lambda>db. case find_goal env i db of
     Inr (Some t, db) \<Rightarrow> Inr (t, db) | _ \<Rightarrow> Inl (new_not_found ''revenue_target''))"

definition patched_goal :: "goal_patch \<Rightarrow> goal \<Rightarrow> goal result" where
  "patched_goal p t =
     (let label = (case gp_label p of None \<Rightarrow> tg_label t | Some l \<Rightarrow> trim_space l);
          cur = (case gp_currency p of None \<Rightarrow> tg_currency t | Some c \<Rightarrow> to_upper (trim_space c))
      in if gp_label p \<noteq> None \<and> label = [] then Inl err_label
         else if (case gp_amount p of None \<Rightarrow> False | Some n \<Rightarrow> n \<le> 0) then Inl err_amount_positive
         else case (if gp_clear_customers p then Inr None
                    else if gp_customers p = None then Inr (tg_customers t)
                    else as_validation (normalize_target_customers (gp_customers p))) of
                Inl e \<Rightarrow> Inl e
              | Inr customers \<Rightarrow>
                  if gp_currency p \<noteq> None \<and> \<not> goal_currency_ok cur then Inl err_goal_currency
                  else if (case gp_metric p of None \<Rightarrow> False | Some m \<Rightarrow> \<not> metric_ok m) then Inl err_metric
                  else if (case gp_curve p of None \<Rightarrow> False | Some c \<Rightarrow> \<not> curve_ok c) then Inl err_curve
                  else Inr (t\<lparr>
                    tg_owner := (if gp_clear_owner p then None else case gp_owner p of None \<Rightarrow> tg_owner t | Some u \<Rightarrow> Some u),
                    tg_team := (if gp_clear_team p then None else case gp_team p of None \<Rightarrow> tg_team t | Some u \<Rightarrow> Some u),
                    tg_label := label,
                    tg_amount := (case gp_amount p of None \<Rightarrow> tg_amount t | Some n \<Rightarrow> n),
                    tg_customers := customers,
                    tg_currency := cur,
                    tg_metric := (case gp_metric p of None \<Rightarrow> tg_metric t | Some m \<Rightarrow> m),
                    tg_scope := (case gp_scope p of None \<Rightarrow> tg_scope t | Some x \<Rightarrow> x),
                    tg_curve := (case gp_curve p of None \<Rightarrow> tg_curve t | Some c \<Rightarrow> c),
                    tg_period := (case gp_period p of Some k \<Rightarrow> k
                      | None \<Rightarrow> if tg_period t = OtherPeriod [] then PeriodCustom else tg_period t),
                    tg_start := (case gp_start p of None \<Rightarrow> tg_start t | Some x \<Rightarrow> x),
                    tg_end := (case gp_end p of None \<Rightarrow> tg_end t | Some x \<Rightarrow> x)\<rparr>))"

definition update_goal :: "goal_env \<Rightarrow> goal_patch \<Rightarrow> (revenue_db, goal) uow" where
  "update_goal env p =
     and_then (get_goal env (gp_id p)) (\<lambda>t0.
     and_then (lift_result (patched_goal p t0)) (\<lambda>t.
     and_then (lift_result (as_validation (resolve_period (tg_period t) (tg_start t) (tg_end t)))) (\<lambda>(start, end').
     let t = t\<lparr>tg_start := start, tg_end := end', tg_updated := ge_now env\<rparr>
     in and_then (update_goal_row env t) (\<lambda>_.
        and_then (insert_revision \<lparr>rv_goal = tg_id t, rv_actor = gp_actor p, rv_action = ''revise'',
          rv_before = OfGoal (goal_view_of t0), rv_after = OfGoal (goal_view_of t), rv_at = ge_now env\<rparr>) (\<lambda>_.
        and_then (goal_log env ''revenue_target.updated'' (tg_id t)) (\<lambda>_. ret t))))))"

definition delete_goal :: "goal_env \<Rightarrow> uuid \<Rightarrow> (revenue_db, unit) uow" where
  "delete_goal env i =
     and_then (get_goal env i) (\<lambda>_.
     and_then (delete_goal_row env i) (\<lambda>_. goal_log env ''revenue_target.deleted'' i))"

definition revise_goal ::
  "goal_env \<Rightarrow> goal \<Rightarrow> uuid \<Rightarrow> string \<Rightarrow> string \<Rightarrow> revision_body \<Rightarrow> revision_body \<Rightarrow> (revenue_db, unit) uow \<Rightarrow> (revenue_db, unit) uow" where
  "revise_goal env t actor kind action before' after' change =
     and_then change (\<lambda>_.
     and_then (insert_revision \<lparr>rv_goal = tg_id t, rv_actor = actor, rv_action = kind, rv_before = before', rv_after = after',
       rv_at = ge_now env\<rparr>) (\<lambda>_. goal_log env action (tg_id t)))"

definition set_weights :: "goal_env \<Rightarrow> uuid \<Rightarrow> uuid \<Rightarrow> weight list \<Rightarrow> (revenue_db, unit) uow" where
  "set_weights env i actor ws =
     and_then (get_goal env i) (\<lambda>t.
     and_then (case validate_weights (tg_curve t) ws of Some e \<Rightarrow> fail (new_validation (error_text e)) | None \<Rightarrow> ret ()) (\<lambda>_.
     and_then (\<lambda>db. case list_weights env i db of Inl _ \<Rightarrow> Inr ([], db) | Inr r \<Rightarrow> Inr r) (\<lambda>old.
       revise_goal env t actor ''set_weights'' ''revenue_target.weights_changed'' (OfWeights old) (OfWeights ws)
         (replace_weights env i ws))))"

definition set_shares :: "goal_env \<Rightarrow> uuid \<Rightarrow> uuid \<Rightarrow> share list \<Rightarrow> (revenue_db, unit) uow" where
  "set_shares env i actor hs =
     and_then (get_goal env i) (\<lambda>t.
     and_then (case validate_shares hs of Some e \<Rightarrow> fail (new_validation (error_text e)) | None \<Rightarrow> ret ()) (\<lambda>_.
     and_then (\<lambda>db. case list_shares env i db of Inl _ \<Rightarrow> Inr ([], db) | Inr r \<Rightarrow> Inr r) (\<lambda>old.
       revise_goal env t actor ''set_shares'' ''revenue_target.shares_changed'' (OfShares old) (OfShares hs)
         (replace_shares env i hs))))"

section \<open>Progress\<close>

record goal_progress =
  pg_goal :: uuid
  pg_label :: string
  pg_currency :: string
  pg_metric :: metric
  pg_scope :: target_scope
  pg_curve :: curve_type
  pg_period :: period_kind
  pg_amount :: int
  pg_actual :: int
  pg_expected :: int
  pg_variance :: int
  pg_progress :: int
  pg_pace :: int
  pg_forecast :: int
  pg_required :: int
  pg_status :: pace_status
  pg_start :: string
  pg_end :: string
  pg_as_of :: string
  pg_days_total :: int
  pg_days_left :: int
  pg_unconverted :: "string list"
  pg_customers :: "(int \<times> int \<times> calc_result) option"

definition max_time :: "go_time \<Rightarrow> go_time \<Rightarrow> go_time" where
  "max_time a b = (if after a b then a else b)"

definition goal_calc :: "goal \<Rightarrow> int \<Rightarrow> int \<Rightarrow> go_time \<Rightarrow> weight list \<Rightarrow> calc_result" where
  "goal_calc t target actual as_of ws =
     calculate \<lparr>ci_target = target, ci_actual = actual, ci_start = tg_start t, ci_end = tg_end t, ci_as_of = as_of,
       ci_curve = tg_curve t, ci_weights = ws\<rparr>"

text \<open>\<open>variancePct\<close>, in whole percent.\<close>

definition variance_pct :: "int \<Rightarrow> int \<Rightarrow> int" where
  "variance_pct expected actual =
     (if expected \<le> 0 \<or> actual \<ge> expected then 0 else quo64 (mul64 (sub64 expected actual) 100) expected)"

definition status_moved :: "goal \<Rightarrow> pace_status \<Rightarrow> pace_snapshot \<Rightarrow> status_event" where
  "status_moved t from s =
     \<lparr>se_goal = tg_id t, se_branch = tg_branch t, se_label = tg_label t, se_from = from, se_to = sn_status s,
      se_deficit = (let d = sub64 (sn_expected s) (sn_actual s) in if d < 0 then 0 else d),
      se_variance_pct = variance_pct (sn_expected s) (sn_actual s)\<rparr>"

definition save_snapshot :: "goal_env \<Rightarrow> goal \<Rightarrow> pace_snapshot \<Rightarrow> (revenue_db, unit) uow" where
  "save_snapshot env t s =
     and_then (latest_snapshot env (tg_id t)) (\<lambda>prev.
     and_then (upsert_snapshot s) (\<lambda>_.
     let from = (case prev of None \<Rightarrow> NoPace | Some p \<Rightarrow> sn_status p)
     in if from = sn_status s \<or> (prev = None \<and> sn_status s \<noteq> PaceBehind) then ret ()
        else if ge_outbox env then writing (\<lambda>db. db\<lparr>gd_outbox := gd_outbox db @ [status_moved t from s]\<rparr>) else ret ()))"

text \<open>The customers of the goal: how many are expected and the combined status.\<close>

definition customers_of :: "goal \<Rightarrow> go_time \<Rightarrow> weight list \<Rightarrow> (revenue_db, (int \<times> int \<times> calc_result) option) uow" where
  "customers_of t as_of ws =
     (case tg_customers t of
        None \<Rightarrow> ret None
      | Some n \<Rightarrow> and_then (sum_customers t (tg_start t) (min_time as_of (tg_end t))) (\<lambda>k. ret (Some (n, k, goal_calc t n k as_of ws))))"

definition goal_progress :: "goal_env \<Rightarrow> goal \<Rightarrow> go_time \<Rightarrow> (revenue_db, goal_progress) uow" where
  "goal_progress env t as_of =
     and_then (list_weights env (tg_id t)) (\<lambda>ws.
     and_then (goal_actual env t as_of) (\<lambda>(actual, missing).
     let c = goal_calc t (tg_amount t) actual as_of ws in
     and_then (customers_of t as_of ws) (\<lambda>cust.
     let status = (case cust of None \<Rightarrow> cx_status c | Some (_, _, cc) \<Rightarrow> combine_status (cx_status c) (cx_status cc));
         p = \<lparr>pg_goal = tg_id t, pg_label = tg_label t, pg_currency = tg_currency t, pg_metric = tg_metric t, pg_scope = tg_scope t,
              pg_curve = tg_curve t, pg_period = tg_period t, pg_amount = tg_amount t, pg_actual = actual,
              pg_expected = cx_expected c, pg_variance = cx_variance c, pg_progress = cx_progress c, pg_pace = cx_pace c,
              pg_forecast = cx_forecast c, pg_required = cx_required c, pg_status = status,
              pg_start = format_date (tg_start t), pg_end = format_date (tg_end t), pg_as_of = format_date as_of,
              pg_days_total = span_days (tg_start t) (tg_end t),
              pg_days_left = (if \<not> after as_of (tg_end t) then span_days (max_time as_of (tg_start t)) (tg_end t) else 0),
              pg_unconverted = missing, pg_customers = cust\<rparr>
     in and_then (save_snapshot env t \<lparr>sn_goal = tg_id t, sn_as_of = as_of, sn_actual = actual, sn_expected = cx_expected c,
          sn_variance = cx_variance c, sn_progress = cx_progress c, sn_pace = cx_pace c, sn_forecast = cx_forecast c,
          sn_status = status, sn_updated = ge_now env\<rparr>) (\<lambda>_. ret p))))"

definition progress_of :: "goal_env \<Rightarrow> uuid \<Rightarrow> (revenue_db, goal_progress) uow" where
  "progress_of env i = and_then (get_goal env i) (\<lambda>t. goal_progress env t (goal_today env))"

text \<open>Each progress is a transaction of its own; an error stops the loop and keeps what was stored before.\<close>

fun each_in_turn :: "('a \<Rightarrow> (revenue_db, 'b) uow) \<Rightarrow> 'a list \<Rightarrow> revenue_db \<Rightarrow> 'b list result \<times> revenue_db" where
  "each_in_turn f [] db = (Inr [], db)"
| "each_in_turn f (x # xs) db =
     (case f x db of
        Inl e \<Rightarrow> (Inl e, db)
      | Inr (y, db) \<Rightarrow> (case each_in_turn f xs db of (r, db) \<Rightarrow> (map_sum id (\<lambda>ys. y # ys) r, db)))"

text \<open>\<open>Active\<close>: the targets of a branch that cover today, shortest horizon first, then the one that ends first, then by label.\<close>

definition active_goals :: "go_time \<Rightarrow> goal list \<Rightarrow> goal list" where
  "active_goals today ts =
     sort_key (\<lambda>t. period_rank (tg_period t)) (sort_key (\<lambda>t. nanos (tg_end t)) (sort_key tg_label
       (filter (\<lambda>t. tg_scope t = ScopeBranch \<and> period_covers (tg_start t) (tg_end t) today) ts)))"

definition active_progress :: "goal_env \<Rightarrow> uuid option \<Rightarrow> revenue_db \<Rightarrow> goal_progress list result \<times> revenue_db" where
  "active_progress env branch db =
     (case list_goals env branch db of
        Inl e \<Rightarrow> (Inl e, db)
      | Inr (ts, db) \<Rightarrow> each_in_turn (\<lambda>t. goal_progress env t (goal_today env)) (active_goals (goal_today env) ts) db)"

definition recompute_branch :: "goal_env \<Rightarrow> uuid \<Rightarrow> revenue_db \<Rightarrow> goal_progress list result \<times> revenue_db" where
  "recompute_branch env branch db =
     (case list_goals env (Some branch) db of
        Inl e \<Rightarrow> (Inl e, db)
      | Inr (ts, db) \<Rightarrow> each_in_turn (progress_of env) (map tg_id ts) db)"

text \<open>\<open>CheckBehindAlerts\<close>: the number of targets behind that were dealt with, and the error that stopped the loop.\<close>

definition behind_deficit :: "goal_progress \<Rightarrow> int" where
  "behind_deficit p = (let d = sub64 (pg_expected p) (pg_actual p) in if d < 0 then 0 else d)"

fun alert_loop :: "goal_env \<Rightarrow> (uuid \<times> uuid \<times> uuid \<times> string \<times> int \<Rightarrow> error option) \<Rightarrow> uuid \<Rightarrow> uuid \<Rightarrow> nat \<Rightarrow> goal_progress list \<Rightarrow> nat \<times> error option" where
  "alert_loop env task branch assignee n [] = (n, None)"
| "alert_loop env task branch assignee n (p # ps) =
     (if pg_status p \<noteq> PaceBehind then alert_loop env task branch assignee n ps
      else case (if assignee \<noteq> uuid_nil then task (branch, pg_goal p, assignee, pg_label p, behind_deficit p) else None) of
             Some e \<Rightarrow> (n, Some e)
           | None \<Rightarrow>
               (case (case ge_alert env of None \<Rightarrow> None | Some f \<Rightarrow> f (branch, pg_goal p, behind_deficit p)) of
                  Some e \<Rightarrow> (n, Some e)
                | None \<Rightarrow> alert_loop env task branch assignee (Suc n) ps))"

definition check_behind :: "goal_env \<Rightarrow> uuid \<Rightarrow> uuid \<Rightarrow> revenue_db \<Rightarrow> (nat \<times> error option) \<times> revenue_db" where
  "check_behind env branch actor db =
     (case recompute_branch env branch db of
        (Inl e, db) \<Rightarrow> ((0, Some e), db)
      | (Inr ps, db) \<Rightarrow>
          (case ge_task env of
             None \<Rightarrow> ((0, None), db)
           | Some task \<Rightarrow>
               (case ensure_branch (ge_scope env) branch of
                  Some e \<Rightarrow> ((0, Some e), db)
                | None \<Rightarrow>
                    let assignee = (case ge_managers env branch of [] \<Rightarrow> actor | m # _ \<Rightarrow> m)
                    in (alert_loop env task branch assignee 0 ps, db))))"

section \<open>Contributions\<close>

record contribution =
  co_user :: uuid
  co_name :: string
  co_bps :: int
  co_actual :: int
  co_share :: int
  co_rank :: nat

text \<open>The amounts by the owner of the booking; all currencies are added up.\<close>

definition owner_rows :: "goal \<Rightarrow> go_time \<Rightarrow> go_time \<Rightarrow> payment_db \<Rightarrow> (uuid \<times> int) list" where
  "owner_rows t from to db =
     (let last = add_date (utc_midnight_of to) 0 0 1; inside = (\<lambda>x. \<not> before x from \<and> before x last)
      in if tg_metric t = MetricBooked
         then map (\<lambda>b. (b_owner b, b_total b)) (filter (\<lambda>b. goal_booking t b \<and> booking_sold b \<and> inside (b_created b)) (db_bookings (pd_core db)))
         else List.map_filter (\<lambda>p. if counts_toward_collected p \<and> inside (p_created p)
                then map_option (\<lambda>b. (b_owner b, p_amount p)) (find (\<lambda>b. b_id b = p_booking p \<and> goal_booking t b) (db_bookings (pd_core db)))
                else None) (pd_payments db))"

definition sum_by_owner :: "goal_env \<Rightarrow> goal \<Rightarrow> go_time \<Rightarrow> go_time \<Rightarrow> (revenue_db, contribution list) uow" where
  "sum_by_owner env t from to =
     and_then (reading (\<lambda>db. owner_rows t from to (gd_pay db))) (\<lambda>rows.
       let totals = map (\<lambda>u. (u, sum_list (map snd (filter (\<lambda>(v, _). v = u) rows)))) (remdups (map fst rows));
           ranked = sort_key (\<lambda>(_, n). - n) totals
       in if \<not> list_all (\<lambda>(_, n). fits64 n) totals then fail (Plain ''cannot scan numeric into int64'')
          else ret (map (\<lambda>(i, u, n). \<lparr>co_user = u, co_name = ge_names env u, co_bps = 0, co_actual = n, co_share = 0, co_rank = Suc i\<rparr>)
                 (enumerate 0 ranked)))"

definition share_row :: "goal \<Rightarrow> contribution list \<Rightarrow> share \<Rightarrow> contribution" where
  "share_row t by_owner h =
     (let c = \<lparr>co_user = sh_user h, co_name = sh_name h, co_bps = sh_bps h, co_actual = 0,
               co_share = quo64 (mul64 (tg_amount t) (sh_bps h)) 10000, co_rank = 0\<rparr>
      in case find (\<lambda>a. co_user a = sh_user h) (rev by_owner) of
           None \<Rightarrow> c
         | Some a \<Rightarrow> c\<lparr>co_actual := co_actual a, co_name := (if co_name a \<noteq> [] then co_name a else co_name c)\<rparr>)"

text \<open>The exchange sort: position \<open>i\<close> is compared with every later position and exchanged where that one is greater.\<close>

fun exchange_pass :: "contribution \<Rightarrow> contribution list \<Rightarrow> contribution \<times> contribution list" where
  "exchange_pass x [] = (x, [])"
| "exchange_pass x (y # ys) =
     (if co_actual y > co_actual x
      then (case exchange_pass y ys of (m, zs) \<Rightarrow> (m, x # zs))
      else (case exchange_pass x ys of (m, zs) \<Rightarrow> (m, y # zs)))"

lemma exchange_pass_length [simp]: "length (snd (exchange_pass x ys)) = length ys"
  by (induction x ys rule: exchange_pass.induct) (auto split: prod.splits)

function rank_contributions :: "contribution list \<Rightarrow> contribution list" where
  "rank_contributions [] = []"
| "rank_contributions (x # xs) = (case exchange_pass x xs of (m, zs) \<Rightarrow> m # rank_contributions zs)"
  by pat_completeness auto

termination
  by (relation "measure length") (auto simp: less_Suc_eq_le dest: arg_cong [of _ _ "length \<circ> snd"])

definition number_ranks :: "contribution list \<Rightarrow> contribution list" where
  "number_ranks cs = map (\<lambda>(i, c). c\<lparr>co_rank := Suc i\<rparr>) (enumerate 0 cs)"

definition contributions :: "goal_env \<Rightarrow> uuid \<Rightarrow> (revenue_db, contribution list) uow" where
  "contributions env i =
     and_then (get_goal env i) (\<lambda>t.
     and_then (list_shares env i) (\<lambda>hs.
     and_then (sum_by_owner env t (tg_start t) (min_time (goal_today env) (tg_end t))) (\<lambda>by_owner.
       if hs = [] then ret (map (\<lambda>c. c\<lparr>co_share := 0\<rparr>) by_owner)
       else ret (number_ranks (rank_contributions (map (share_row t by_owner) hs))))))"

definition goal_series :: "goal_env \<Rightarrow> uuid \<Rightarrow> (revenue_db, series_point list) uow" where
  "goal_series env i =
     and_then (get_goal env i) (\<lambda>t.
     and_then (list_weights env i) (\<lambda>ws.
     and_then (goal_actual env t (goal_today env)) (\<lambda>(actual, _).
       ret (cumulative_series (tg_amount t) actual (tg_start t) (tg_end t) (goal_today env) (tg_curve t) ws []))))"

end
