(* ===== verification/Revenue_History.thy ===== *)
theory Revenue_History
  imports Revenue_Service "HOL-Library.Multiset"
begin

text \<open>
  What holds along every run of the target service: targets keep valid settings and periods, shares hand out the whole
  target, the revisions of a target are a chain that ends in its settings, and every move of a status was announced.
\<close>

section \<open>What one operation does\<close>

lemma goal_log_Inr: "goal_log env action i db = Inr (u, db') \<Longrightarrow> \<exists>l. db' = db\<lparr>gd_audit := l\<rparr>"
  by (auto simp: goal_log_def intro: exI [of _ "gd_audit db'"] split: option.splits)

lemma as_validation_Inr [simp]: "as_validation r = Inr x \<longleftrightarrow> r = Inr x"
  by (auto simp: as_validation_def split: sum.splits)

lemma goal_visible_Inr: "goal_visible env i db = Inr (ok, db') \<Longrightarrow> db' = db"
  unfolding goal_visible_def by (elim and_then_InrE lift_result_InrE) simp

lemma list_weights_Inr: "list_weights env i db = Inr (ws, db') \<Longrightarrow> db' = db"
  unfolding list_weights_def by (elim and_then_InrE lift_result_InrE) (auto dest: goal_visible_Inr)

lemma list_shares_Inr: "list_shares env i db = Inr (hs, db') \<Longrightarrow> db' = db"
  unfolding list_shares_def by (elim and_then_InrE lift_result_InrE) (auto dest: goal_visible_Inr)

lemma find_goal_Inr: "find_goal env i db = Inr (r, db') \<Longrightarrow>
  \<exists>sees. goal_sees env = Inr sees \<and> find (\<lambda>t. tg_id t = i \<and> sees db t) (gd_goals db) = r \<and> db' = db"
  unfolding find_goal_def by (elim and_then_InrE lift_result_InrE) auto

lemma get_goal_Inr:
  "get_goal env i db = Inr (t, db') \<Longrightarrow> db' = db \<and> t \<in> set (gd_goals db) \<and> tg_id t = i
     \<and> (\<exists>sees. goal_sees env = Inr sees \<and> sees db t)"
  by (auto simp: get_goal_def find_Some_iff split: sum.splits option.splits prod.splits dest!: find_goal_Inr)

lemma target_currency_Inr:
  "target_currency env b raw db = Inr (c, db') \<Longrightarrow> db' = db \<and> goal_currency_ok c"
  unfolding target_currency_def Let_def by (elim and_then_InrE lift_result_InrE) (auto split: if_splits)

lemma insert_goal_Inr:
  "insert_goal env t db = Inr (u, db') \<Longrightarrow> tg_id t \<notin> tg_id ` set (gd_goals db) \<and> goal_columns t \<and> db' = db\<lparr>gd_goals := gd_goals db @ [t]\<rparr>"
  unfolding insert_goal_def by (auto simp: list_ex_iff elim!: and_then_InrE split: option.splits if_splits)

lemma create_goal_Inr:
  assumes "create_goal env inp db = Inr (t, db')"
  shows "tg_id t = ge_fresh env \<and> tg_id t \<notin> tg_id ` set (gd_goals db) \<and> goal_columns t \<and> tg_label t \<noteq> []
    \<and> goal_currency_ok (tg_currency t) \<and> (\<exists>x y. resolve_period (tg_period t) x y = Inr (tg_start t, tg_end t))
    \<and> (\<exists>l. db' = db\<lparr>gd_goals := gd_goals db @ [t], gd_audit := l\<rparr>)"
  using assms unfolding create_goal_def Let_def case_prod_beta
  apply (elim and_then_InrE lift_result_InrE)
  apply (drule target_currency_Inr insert_goal_Inr goal_log_Inr run_Inr)+
  apply (elim conjE exE)
  apply (simp del: not_None_eq)
  apply auto
  done

lemma patched_goal_fields:
  "patched_goal p t = Inr t' \<Longrightarrow> tg_id t' = tg_id t" "patched_goal p t = Inr t' \<Longrightarrow> tg_branch t' = tg_branch t"
  "patched_goal p t = Inr t' \<Longrightarrow> tg_created_by t' = tg_created_by t" "patched_goal p t = Inr t' \<Longrightarrow> tg_created t' = tg_created t"
  unfolding patched_goal_def Let_def if_Inl_Inr case_Inl_Inr sum.inject by (elim exE conjE, hypsubst, simp)+

lemma patched_goal_label: "patched_goal p t = Inr t' \<Longrightarrow> tg_label t \<noteq> [] \<Longrightarrow> tg_label t' \<noteq> []"
  unfolding patched_goal_def Let_def if_Inl_Inr case_Inl_Inr sum.inject
  by (elim exE conjE, hypsubst) (cases "gp_label p"; simp)

lemma patched_goal_currency: "patched_goal p t = Inr t' \<Longrightarrow> goal_currency_ok (tg_currency t) \<Longrightarrow> goal_currency_ok (tg_currency t')"
  unfolding patched_goal_def Let_def if_Inl_Inr case_Inl_Inr sum.inject
  by (elim exE conjE, hypsubst) (cases "gp_currency p"; simp)

lemma goal_written_same:
  "tg_id t = tg_id x \<Longrightarrow> tg_branch t = tg_branch x \<Longrightarrow> tg_created_by t = tg_created_by x \<Longrightarrow> tg_created t = tg_created x \<Longrightarrow>
     goal_written t x = t"
  by (cases t; cases x) (simp add: goal_written_def)

lemma update_goal_row_Inr:
  "update_goal_row env t db = Inr (u, db') \<Longrightarrow> goal_columns t \<and> (\<exists>sees. goal_sees env = Inr sees \<and>
     db' = db\<lparr>gd_goals := map (\<lambda>x. if tg_id x = tg_id t \<and> sees db x then goal_written t x else x) (gd_goals db)\<rparr>)"
  unfolding update_goal_row_def by (elim and_then_InrE lift_result_InrE) (auto split: if_splits)

lemma update_goal_Inr:
  assumes "update_goal env p db = Inr (t, db')" "distinct (map tg_id (gd_goals db))"
  shows "\<exists>t0. t0 \<in> set (gd_goals db) \<and> tg_id t0 = tg_id t \<and> goal_columns t \<and> (tg_label t0 \<noteq> [] \<longrightarrow> tg_label t \<noteq> [])
    \<and> (goal_currency_ok (tg_currency t0) \<longrightarrow> goal_currency_ok (tg_currency t))
    \<and> (\<exists>x y. resolve_period (tg_period t) x y = Inr (tg_start t, tg_end t))
    \<and> (\<exists>l. db' = db\<lparr>gd_goals := map (\<lambda>x. if tg_id x = tg_id t then t else x) (gd_goals db),
         gd_revisions := gd_revisions db @ [\<lparr>rv_goal = tg_id t, rv_actor = gp_actor p, rv_action = ''revise'',
           rv_before = OfGoal (goal_view_of t0), rv_after = OfGoal (goal_view_of t), rv_at = ge_now env\<rparr>], gd_audit := l\<rparr>)"
proof -
  let ?r = "\<lambda>t0. \<lparr>rv_goal = tg_id t, rv_actor = gp_actor p, rv_action = ''revise'', rv_before = OfGoal (goal_view_of t0),
    rv_after = OfGoal (goal_view_of t), rv_at = ge_now env\<rparr>"
  have "\<exists>t0 db0 t1 r u1 db1 u2 db2 u3. get_goal env (gp_id p) db = Inr (t0, db0) \<and> patched_goal p t0 = Inr t1
    \<and> resolve_period (tg_period t1) (tg_start t1) (tg_end t1) = Inr r
    \<and> t = t1\<lparr>tg_start := fst r, tg_end := snd r, tg_updated := ge_now env\<rparr>
    \<and> update_goal_row env t db0 = Inr (u1, db1) \<and> insert_revision (?r t0) db1 = Inr (u2, db2)
    \<and> goal_log env ''revenue_target.updated'' (tg_id t) db2 = Inr (u3, db')"
    using assms(1) unfolding update_goal_def Let_def case_prod_beta as_validation_Inr
    apply (elim and_then_InrE lift_result_InrE)
    apply (drule ret_Inr)
    apply (simp only: as_validation_Inr)
    apply (elim conjE)
    apply hypsubst
    apply (intro exI conjI)
    apply (assumption | rule refl)+
    done
  then obtain t0 db0 t1 r u1 db1 u2 db2 u3 where g0: "get_goal env (gp_id p) db = Inr (t0, db0)" and pt: "patched_goal p t0 = Inr t1"
    and rp: "resolve_period (tg_period t1) (tg_start t1) (tg_end t1) = Inr r"
    and t: "t = t1\<lparr>tg_start := fst r, tg_end := snd r, tg_updated := ge_now env\<rparr>"
    and up0: "update_goal_row env t db0 = Inr (u1, db1)" and ins: "insert_revision (?r t0) db1 = Inr (u2, db2)"
    and lg: "goal_log env ''revenue_target.updated'' (tg_id t) db2 = Inr (u3, db')"
    by blast
  have g: "get_goal env (gp_id p) db = Inr (t0, db)" and up: "update_goal_row env t db = Inr (u1, db1)"
    using g0 up0 get_goal_Inr [OF g0] by auto
  obtain l where db': "db' = db1\<lparr>gd_revisions := gd_revisions db1 @ [?r t0], gd_audit := l\<rparr>"
    using ins goal_log_Inr [OF lg] by (auto simp: insert_revision_def)
  note g' = get_goal_Inr [OF g] note p' = patched_goal_fields [OF pt] patched_goal_label [OF pt] patched_goal_currency [OF pt]
  from g' obtain sees where sees: "goal_sees env = Inr sees" "sees db t0" by blast
  have same: "tg_id x = tg_id t0 \<longleftrightarrow> x = t0" if "x \<in> set (gd_goals db)" for x
    using that g' assms(2) by (auto simp: distinct_map inj_on_def)
  have "goal_written t t0 = t" by (rule goal_written_same) (use p' t in simp_all)
  then have "map (\<lambda>x. if tg_id x = tg_id t \<and> sees db x then goal_written t x else x) (gd_goals db)
    = map (\<lambda>x. if tg_id x = tg_id t then t else x) (gd_goals db)"
    using p' sees(2) by (auto simp: t same)
  with update_goal_row_Inr [OF up] sees(1)
  have "goal_columns t" "db1 = db\<lparr>gd_goals := map (\<lambda>x. if tg_id x = tg_id t then t else x) (gd_goals db)\<rparr>" by auto
  with db' g' p' rp show ?thesis by (intro exI [of _ t0]) (cases r, auto simp: t)
qed

definition without_goal :: "uuid \<Rightarrow> revenue_db \<Rightarrow> revenue_db" where
  "without_goal i db = db\<lparr>gd_goals := filter (\<lambda>x. tg_id x \<noteq> i) (gd_goals db), gd_weights := filter (\<lambda>(j, _). j \<noteq> i) (gd_weights db),
     gd_shares := filter (\<lambda>(j, _). j \<noteq> i) (gd_shares db), gd_snapshots := filter (\<lambda>s. sn_goal s \<noteq> i) (gd_snapshots db),
     gd_revisions := filter (\<lambda>r. rv_goal r \<noteq> i) (gd_revisions db)\<rparr>"

lemma delete_goal_row_Inr:
  "delete_goal_row env i db = Inr (u, db') \<Longrightarrow> \<exists>sees. goal_sees env = Inr sees \<and>
     db' = (without_goal i db)\<lparr>gd_goals := filter (\<lambda>x. \<not> (tg_id x = i \<and> sees db x)) (gd_goals db)\<rparr>"
  unfolding delete_goal_row_def by (elim and_then_InrE lift_result_InrE) (auto simp: without_goal_def split: if_splits)

lemma delete_goal_Inr:
  assumes "delete_goal env i db = Inr (u, db')" "distinct (map tg_id (gd_goals db))"
  shows "\<exists>l. db' = (without_goal i db)\<lparr>gd_audit := l\<rparr>"
proof -
  obtain t db0 u1 db1 where g: "get_goal env i db = Inr (t, db0)" and d: "delete_goal_row env i db0 = Inr (u1, db1)"
    and l: "goal_log env ''revenue_target.deleted'' i db1 = Inr (u, db')"
    using assms(1) unfolding delete_goal_def by (elim and_then_InrE) blast
  note g' = get_goal_Inr [OF g]
  then obtain sees where sees: "goal_sees env = Inr sees" "sees db t" by blast
  have "tg_id x = i \<longleftrightarrow> x = t" if "x \<in> set (gd_goals db)" for x
    using that g' assms(2) by (auto simp: distinct_map inj_on_def)
  then have "filter (\<lambda>x. \<not> (tg_id x = i \<and> sees db x)) (gd_goals db) = filter (\<lambda>x. tg_id x \<noteq> i) (gd_goals db)"
    using sees(2) by (auto intro!: filter_cong)
  with delete_goal_row_Inr [OF d] sees(1) g' have "db1 = without_goal i db" by (auto simp: without_goal_def)
  with goal_log_Inr [OF l] show ?thesis by simp
qed

lemma insert_weights_Inr:
  "insert_weights i ws rows = Inr rows' \<Longrightarrow> rows' = rows @ map (Pair i) ws \<and> distinct (map wt_bucket ws)
     \<and> (\<forall>w \<in> set ws. 0 \<le> wt_bucket w \<and> wt_bucket w < 24 \<and> 0 \<le> wt_bps w \<and> wt_bps w \<le> 10000 \<and> \<not> list_ex (\<lambda>(j, x). j = i \<and> wt_bucket x = wt_bucket w) rows)"
  by (induction i ws rows rule: insert_weights.induct) (auto split: if_splits simp: list_ex_iff)

definition share_columns :: "share \<Rightarrow> share" where "share_columns h = h\<lparr>sh_name := []\<rparr>"

lemma share_columns_simps [simp]: "sh_user (share_columns h) = sh_user h" "sh_bps (share_columns h) = sh_bps h"
  by (simp_all add: share_columns_def)

lemma insert_shares_Inr:
  "insert_shares i hs rows = Inr rows' \<Longrightarrow> rows' = rows @ map (\<lambda>h. (i, share_columns h)) hs \<and> distinct (map sh_user hs)
     \<and> (\<forall>h \<in> set hs. 0 \<le> sh_bps h \<and> sh_bps h \<le> 10000 \<and> \<not> list_ex (\<lambda>(j, x). j = i \<and> sh_user x = sh_user h) rows)"
  by (induction i hs rows rule: insert_shares.induct) (auto split: if_splits simp: list_ex_iff share_columns_def)

lemma revise_goal_Inr:
  assumes "revise_goal env t actor kind action b a change db = Inr (u, db')"
  shows "\<exists>u1 db1 l. change db = Inr (u1, db1) \<and> db' = db1\<lparr>gd_revisions := gd_revisions db1 @ [\<lparr>rv_goal = tg_id t, rv_actor = actor,
    rv_action = kind, rv_before = b, rv_after = a, rv_at = ge_now env\<rparr>], gd_audit := l\<rparr>"
proof -
  obtain u1 db1 u2 db2 where "change db = Inr (u1, db1)"
    "insert_revision \<lparr>rv_goal = tg_id t, rv_actor = actor, rv_action = kind, rv_before = b, rv_after = a, rv_at = ge_now env\<rparr> db1 = Inr (u2, db2)"
    and l: "goal_log env action (tg_id t) db2 = Inr (u, db')"
    using assms unfolding revise_goal_def by (elim and_then_InrE) blast
  with goal_log_Inr [OF l] show ?thesis by (auto simp: insert_revision_def)
qed

lemma ensure_goal_Inr: "ensure_goal env i db = Inr (u, db') \<Longrightarrow> db' = db"
  unfolding ensure_goal_def by (elim and_then_InrE) (auto dest: goal_visible_Inr split: if_splits)

lemma replace_weights_Inr:
  "replace_weights env i ws db = Inr (u, db') \<Longrightarrow> \<exists>rows. insert_weights i ws (filter (\<lambda>(j, _). j \<noteq> i) (gd_weights db)) = Inr rows
     \<and> db' = db\<lparr>gd_weights := rows\<rparr>"
  unfolding replace_weights_def by (elim and_then_InrE lift_result_InrE) (auto dest!: ensure_goal_Inr)

lemma replace_shares_Inr:
  "replace_shares env i hs db = Inr (u, db') \<Longrightarrow> \<exists>rows. insert_shares i hs (filter (\<lambda>(j, _). j \<noteq> i) (gd_shares db)) = Inr rows
     \<and> db' = db\<lparr>gd_shares := rows\<rparr>"
  unfolding replace_shares_def by (elim and_then_InrE lift_result_InrE) (auto dest!: ensure_goal_Inr)

lemma set_weights_Inr:
  assumes "set_weights env i actor ws db = Inr (u, db')"
  shows "\<exists>t rows old l. t \<in> set (gd_goals db) \<and> tg_id t = i \<and> validate_weights (tg_curve t) ws = None
    \<and> insert_weights i ws (filter (\<lambda>(j, _). j \<noteq> i) (gd_weights db)) = Inr rows
    \<and> db' = db\<lparr>gd_weights := rows, gd_revisions := gd_revisions db @ [\<lparr>rv_goal = i, rv_actor = actor, rv_action = ''set_weights'',
         rv_before = OfWeights old, rv_after = OfWeights ws, rv_at = ge_now env\<rparr>], gd_audit := l\<rparr>"
proof -
  obtain t db0 u1 db1 old db2 where g: "get_goal env i db = Inr (t, db0)"
    and v: "(case validate_weights (tg_curve t) ws of Some e \<Rightarrow> fail (new_validation (error_text e)) | None \<Rightarrow> ret ()) db0 = Inr (u1, db1)"
    and o: "(case list_weights env i db1 of Inl _ \<Rightarrow> Inr ([], db1) | Inr r \<Rightarrow> Inr r) = (Inr (old, db2) :: (weight list \<times> revenue_db) result)"
    and r: "revise_goal env t actor ''set_weights'' ''revenue_target.weights_changed'' (OfWeights old) (OfWeights ws)
      (replace_weights env i ws) db2 = Inr (u, db')"
    using assms unfolding set_weights_def by (elim and_then_InrE) (rule that)
  have "validate_weights (tg_curve t) ws = None" "db1 = db0" using v by (auto split: option.splits)
  moreover have "db2 = db1" using o by (auto split: sum.splits dest: list_weights_Inr)
  ultimately show ?thesis using get_goal_Inr [OF g] revise_goal_Inr [OF r] replace_weights_Inr [of env i ws db] by fastforce
qed

lemma set_shares_Inr:
  assumes "set_shares env i actor hs db = Inr (u, db')"
  shows "\<exists>t rows old l. t \<in> set (gd_goals db) \<and> tg_id t = i \<and> validate_shares hs = None
    \<and> insert_shares i hs (filter (\<lambda>(j, _). j \<noteq> i) (gd_shares db)) = Inr rows
    \<and> db' = db\<lparr>gd_shares := rows, gd_revisions := gd_revisions db @ [\<lparr>rv_goal = i, rv_actor = actor, rv_action = ''set_shares'',
         rv_before = OfShares old, rv_after = OfShares hs, rv_at = ge_now env\<rparr>], gd_audit := l\<rparr>"
proof -
  obtain t db0 u1 db1 old db2 where g: "get_goal env i db = Inr (t, db0)"
    and v: "(case validate_shares hs of Some e \<Rightarrow> fail (new_validation (error_text e)) | None \<Rightarrow> ret ()) db0 = Inr (u1, db1)"
    and o: "(case list_shares env i db1 of Inl _ \<Rightarrow> Inr ([], db1) | Inr r \<Rightarrow> Inr r) = (Inr (old, db2) :: (share list \<times> revenue_db) result)"
    and r: "revise_goal env t actor ''set_shares'' ''revenue_target.shares_changed'' (OfShares old) (OfShares hs)
      (replace_shares env i hs) db2 = Inr (u, db')"
    using assms unfolding set_shares_def by (elim and_then_InrE) (rule that)
  have "validate_shares hs = None" "db1 = db0" using v by (auto split: option.splits)
  moreover have "db2 = db1" using o by (auto split: sum.splits dest: list_shares_Inr)
  ultimately show ?thesis using get_goal_Inr [OF g] revise_goal_Inr [OF r] replace_shares_Inr [of env i hs db] by fastforce
qed

text \<open>Computing progress changes nothing but the snapshot of the day and the announcements.\<close>

lemma sum_actual_Inr: "sum_actual t from to db = Inr (xs, db') \<Longrightarrow> db' = db"
  unfolding sum_actual_def by (elim and_then_InrE lift_result_InrE) (auto split: if_splits)

lemma goal_actual_Inr: "goal_actual env t as_of db = Inr (r, db') \<Longrightarrow> db' = db"
  unfolding goal_actual_def Let_def case_prod_beta by (elim and_then_InrE lift_result_InrE) (auto dest!: sum_actual_Inr)

lemma customers_of_Inr: "customers_of t as_of ws db = Inr (r, db') \<Longrightarrow> db' = db"
  unfolding customers_of_def sum_customers_def by (cases "tg_customers t") (auto elim!: and_then_InrE split: if_splits)

definition with_snapshot :: "pace_snapshot \<Rightarrow> revenue_db \<Rightarrow> revenue_db" where
  "with_snapshot s db = (let same = (\<lambda>x. sn_goal x = sn_goal s \<and> time_eq (sn_as_of x) (sn_as_of s)); ss = gd_snapshots db
     in db\<lparr>gd_snapshots := (if list_ex same ss then map (\<lambda>x. if same x then s else x) ss else ss @ [s])\<rparr>)"

lemma upsert_snapshot_Inr: "upsert_snapshot s db = Inr (u, db') \<Longrightarrow> db' = with_snapshot s db"
  unfolding upsert_snapshot_def with_snapshot_def Let_def by (auto elim!: and_then_InrE split: if_splits)

definition announce :: "goal \<Rightarrow> pace_snapshot option \<Rightarrow> pace_snapshot \<Rightarrow> status_event list" where
  "announce t prev s =
     (let from = (case prev of None \<Rightarrow> NoPace | Some p \<Rightarrow> sn_status p)
      in if from = sn_status s \<or> (prev = None \<and> sn_status s \<noteq> PaceBehind) then [] else [status_moved t from s])"

lemma save_snapshot_Inr:
  assumes "save_snapshot env t s db = Inr (u, db')" "ge_outbox env" "goal_visible env (tg_id t) db = Inr (True, db)"
  shows "db' = (with_snapshot s db)\<lparr>gd_outbox := gd_outbox db @ announce t (newest_snapshot (snapshots_of (tg_id t) db)) s\<rparr>"
proof -
  obtain prev db1 u2 db2 where l: "latest_snapshot env (tg_id t) db = Inr (prev, db1)" and up: "upsert_snapshot s db1 = Inr (u2, db2)"
    and w: "(let from = (case prev of None \<Rightarrow> NoPace | Some p \<Rightarrow> sn_status p)
      in if from = sn_status s \<or> (prev = None \<and> sn_status s \<noteq> PaceBehind) then ret ()
         else if ge_outbox env then writing (\<lambda>db. db\<lparr>gd_outbox := gd_outbox db @ [status_moved t from s]\<rparr>) else ret ()) db2 = Inr (u, db')"
    using assms(1) unfolding save_snapshot_def by (elim and_then_InrE) blast
  have "db1 = db" "prev = newest_snapshot (snapshots_of (tg_id t) db)"
    using l assms(3) by (auto simp: latest_snapshot_def and_then_def)
  with upsert_snapshot_Inr [OF up] w assms(2) show ?thesis
    by (auto simp: announce_def with_snapshot_def Let_def split: if_splits)
qed

lemma progress_of_Inr:
  assumes "progress_of env i db = Inr (p, db')" "ge_outbox env"
  shows "\<exists>t s. t \<in> set (gd_goals db) \<and> tg_id t = i \<and> sn_goal s = i \<and> sn_as_of s = goal_today env \<and> sn_status s = pg_status p
    \<and> db' = (with_snapshot s db)\<lparr>gd_outbox := gd_outbox db @ announce t (newest_snapshot (snapshots_of i db)) s\<rparr>"
proof -
  obtain t db0 where g: "get_goal env i db = Inr (t, db0)" and pr: "goal_progress env t (goal_today env) db0 = Inr (p, db')"
    using assms(1) unfolding progress_of_def by (elim and_then_InrE)
  note g' = get_goal_Inr [OF g]
  then have vis: "goal_visible env (tg_id t) db = Inr (True, db)" by (auto simp: goal_visible_def list_ex_iff)
  obtain s where s: "sn_goal s = tg_id t" "sn_as_of s = goal_today env" "sn_status s = pg_status p"
    and sv: "\<exists>u. save_snapshot env t s db = Inr (u, db')"
    using pr g' unfolding goal_progress_def Let_def case_prod_beta
    apply (elim and_then_InrE lift_result_InrE)
    apply (drule list_weights_Inr goal_actual_Inr customers_of_Inr ret_Inr)+
    apply (elim conjE)
    apply hypsubst
    apply (rule that [rotated 3])
       apply (rule exI)
       apply assumption
      apply simp_all
    done
  from sv obtain u where sv: "save_snapshot env t s db = Inr (u, db')" by blast
  from save_snapshot_Inr [OF sv assms(2) vis] s g' show ?thesis by blast
qed

section \<open>Ranked contributions\<close>

lemma exchange_pass_mset: "exchange_pass x ys = (m, zs) \<Longrightarrow> add_mset m (mset zs) = add_mset x (mset ys)"
  by (induction x ys arbitrary: m zs rule: exchange_pass.induct) (auto split: if_splits prod.splits)

lemma exchange_pass_max:
  "exchange_pass x ys = (m, zs) \<Longrightarrow> co_actual x \<le> co_actual m \<and> (\<forall>z \<in> set zs. co_actual z \<le> co_actual m)"
  by (induction x ys arbitrary: m zs rule: exchange_pass.induct) (fastforce split: if_splits prod.splits)+

lemma rank_contributions_mset: "mset (rank_contributions cs) = mset cs"
  by (induction cs rule: rank_contributions.induct) (auto split: prod.splits dest: exchange_pass_mset)

lemma rank_contributions_sorted: "sorted_wrt (\<lambda>c d. co_actual d \<le> co_actual c) (rank_contributions cs)"
proof (induction cs rule: rank_contributions.induct)
  case (2 x xs)
  obtain m zs where p: "exchange_pass x xs = (m, zs)" by fastforce
  have "set (rank_contributions zs) = set zs" by (metis rank_contributions_mset set_mset_mset)
  with 2 [OF p [symmetric]] exchange_pass_max [OF p] show ?case by (simp add: p)
qed simp

lemma number_ranks_nth: "i < length cs \<Longrightarrow> number_ranks cs ! i = (cs ! i)\<lparr>co_rank := Suc i\<rparr>"
  by (simp add: number_ranks_def nth_enumerate_eq)

lemma number_ranks_length [simp]: "length (number_ranks cs) = length cs"
  by (simp add: number_ranks_def)

text \<open>
  C16. The ranking of contributions is right: every share of the target appears once, with its part of the target, the lines
  are ordered from the largest amount to the smallest and numbered from one on.
\<close>

theorem contributions_ranked:
  assumes "shared \<noteq> []"
    "contributions env i db = Inr (cs, db')" "list_shares env i db = Inr (shared, db)"
  shows "mset (map (\<lambda>c. (co_user c, co_bps c)) cs) = mset (map (\<lambda>h. (sh_user h, sh_bps h)) shared)
    \<and> (\<exists>t \<in> set (gd_goals db). tg_id t = i \<and> (\<forall>c \<in> set cs. co_share c = quo64 (mul64 (tg_amount t) (co_bps c)) 10000))
    \<and> (\<forall>j k. j < k \<longrightarrow> k < length cs \<longrightarrow> co_actual (cs ! k) \<le> co_actual (cs ! j))
    \<and> (\<forall>k < length cs. co_rank (cs ! k) = Suc k) \<and> db' = db"
proof -
  obtain t db0 hs db1 rows db2 where g: "get_goal env i db = Inr (t, db0)" and l: "list_shares env i db0 = Inr (hs, db1)"
    and b: "sum_by_owner env t (tg_start t) (min_time (goal_today env) (tg_end t)) db1 = Inr (rows, db2)"
    and r: "(if hs = [] then ret (map (\<lambda>c. c\<lparr>co_share := 0\<rparr>) rows)
      else ret (number_ranks (rank_contributions (map (share_row t rows) hs)))) db2 = Inr (cs, db')"
    using assms(2) unfolding contributions_def by (elim and_then_InrE) (rule that)
  note g' = get_goal_Inr [OF g]
  have hs: "hs = shared" "db1 = db" using l assms(3) g' by auto
  have b': "db2 = db1" using b unfolding sum_by_owner_def Let_def by (auto elim!: and_then_InrE split: if_splits)
  define ws where "ws = rank_contributions (map (share_row t rows) shared)"
  have cs: "cs = number_ranks ws" "db' = db" using r hs b' assms(1) by (auto simp: ws_def)
  have row: "co_user (share_row t rows h) = sh_user h" "co_bps (share_row t rows h) = sh_bps h"
    "co_share (share_row t rows h) = quo64 (mul64 (tg_amount t) (sh_bps h)) 10000" for h
    by (auto simp: share_row_def Let_def split: option.splits)
  have nth: "j < length ws \<Longrightarrow> cs ! j = (ws ! j)\<lparr>co_rank := Suc j\<rparr>" for j by (simp add: cs number_ranks_nth)
  have len: "length cs = length ws" by (simp add: cs)
  have ms: "mset ws = mset (map (share_row t rows) shared)" by (simp add: ws_def rank_contributions_mset)
  have "map (\<lambda>c. (co_user c, co_bps c)) cs = map (\<lambda>c. (co_user c, co_bps c)) ws"
    by (rule nth_equalityI) (simp_all add: len nth)
  then have 1: "mset (map (\<lambda>c. (co_user c, co_bps c)) cs) = mset (map (\<lambda>h. (sh_user h, sh_bps h)) shared)"
    using arg_cong [OF ms, of "image_mset (\<lambda>c. (co_user c, co_bps c))"] by (simp add: row image_mset.compositionality comp_def)
  have "\<forall>c \<in> set ws. co_share c = quo64 (mul64 (tg_amount t) (co_bps c)) 10000"
    using arg_cong [OF ms, of set_mset] by (auto simp: row)
  then have 2: "\<forall>c \<in> set cs. co_share c = quo64 (mul64 (tg_amount t) (co_bps c)) 10000"
    by (auto simp: in_set_conv_nth [of _ cs] len nth)
  have 3: "co_actual (cs ! k) \<le> co_actual (cs ! j)" if "j < k" "k < length cs" for j k
    using sorted_wrt_nth_less [OF rank_contributions_sorted, of j k "map (share_row t rows) shared"] that
    by (simp add: len nth ws_def)
  have 4: "co_rank (cs ! k) = Suc k" if "k < length cs" for k using that by (simp add: len nth)
  show ?thesis using 1 2 3 4 g' cs(2) by blast
qed

section \<open>The team of a target plays no part in what is measured\<close>

lemma team_goal_counts_branch:
  "goal_rows (t\<lparr>tg_scope := ScopeTeam, tg_team := x\<rparr>) from to db = goal_rows (t\<lparr>tg_scope := ScopeBranch, tg_team := None\<rparr>) from to db"
proof -
  have rows: "booked_row fs (t\<lparr>tg_scope := y, tg_team := z\<rparr>) = booked_row fs t" "paid_row (t\<lparr>tg_scope := y, tg_team := z\<rparr>) = paid_row t" for fs y z
    by (simp_all add: booked_row_def paid_row_def fun_eq_iff split: option.split)
  show ?thesis unfolding goal_rows_def rows by (simp add: goal_booking_def goal_owner_filter_def)
qed

section \<open>Periods of stored targets\<close>

lemma days_of_sub_far: "106751 < b - a \<Longrightarrow> 106751 \<le> days_of_duration (time_sub (midnight b) (midnight a))"
proof -
  assume far: "106751 < b - a"
  then have "106751 * day_ns \<le> (b - a) * day_ns" by (intro mult_right_mono) (auto simp: day_ns_def)
  then have "106751 * day_ns \<le> time_sub (midnight b) (midnight a)"
    by (auto simp: time_sub_def midnight_def left_diff_distrib int64_max_def int64_min_def day_ns_def)
  then have "106751 * day_ns div day_ns \<le> time_sub (midnight b) (midnight a) div day_ns"
    by (intro zdiv_mono1) (auto simp: day_ns_def)
  moreover have "0 \<le> time_sub (midnight b) (midnight a)"
    using \<open>106751 * day_ns \<le> time_sub (midnight b) (midnight a)\<close> by (simp add: day_ns_def)
  ultimately show ?thesis by (simp add: days_of_duration_def quo_nonneg day_ns_def)
qed

lemma time_sub_days_bounded: "\<bar>days_of_duration (time_sub x y)\<bar> \<le> 106752"
proof -
  have "\<bar>time_sub x y\<bar> \<le> 9223372036854775808" by (auto simp: time_sub_def int64_max_def int64_min_def)
  then have "\<bar>time_sub x y\<bar> div day_ns \<le> 9223372036854775808 div day_ns" by (intro zdiv_mono1) (auto simp: day_ns_def)
  moreover have "\<bar>days_of_duration (time_sub x y)\<bar> = \<bar>time_sub x y\<bar> div day_ns"
    by (auto simp: days_of_duration_def quo_def abs_mult sgn_if day_ns_def pos_imp_zdiv_nonneg_iff)
  ultimately show ?thesis by (simp add: day_ns_def)
qed

definition period_sound :: "go_time \<Rightarrow> go_time \<Rightarrow> bool" where
  "period_sound s e \<longleftrightarrow> (\<exists>a b. s = midnight a \<and> e = midnight b \<and> a \<le> b \<and> b - a < max_period_days)"

lemma calendar_bounds_short:
  assumes "calendar_bounds k n = (a, b)"
  shows "a \<le> b \<and> b - a < 366"
proof -
  obtain y m d where c: "civil n = (y, m, d)" by (metis prod_cases3)
  note v = civil_valid [OF c]
  have "days_in_month y m \<le> 31"
  proof -
    have "m = 1 \<or> m = 2 \<or> m = 3 \<or> m = 4 \<or> m = 5 \<or> m = 6 \<or> m = 7 \<or> m = 8 \<or> m = 9 \<or> m = 10 \<or> m = 11 \<or> m = 12"
      using v(1,2) by presburger
    then show ?thesis by (auto simp: days_in_month_def month_start_def)
  qed
  then show ?thesis using assms c month_lengths [OF v(1,2), of y] year_start_Suc [of "year_of n"]
    by (auto simp: calendar_bounds_def Let_def split: period_kind.splits if_splits)
qed

lemma resolve_period_sound:
  assumes "resolve_period k x y = Inr (s, e)"
  shows "period_sound s e"
proof (cases "period_calendar k")
  case True
  have nz: "\<not> is_zero x" using assms by (auto simp: resolve_period_def split: if_splits)
  obtain a b where ab: "calendar_bounds k (day_of (utc x)) = (a, b)" by fastforce
  with resolve_calendar [OF True nz] assms have "s = midnight a" "e = midnight b" by auto
  with calendar_bounds_short [OF ab] show ?thesis unfolding period_sound_def max_period_days_def
    by (intro exI [of _ a] exI [of _ b]) simp
next
  case False
  define a b where "a = day_of (utc x)" and "b = day_of (utc y)"
  have r: "s = midnight a" "e = midnight b" "\<not> before (midnight b) (midnight a)" "\<not> span_days (midnight a) (midnight b) > max_period_days"
    using assms False unfolding resolve_period_def Let_def period_calendar_def
    by (auto simp: date_only_eq a_def b_def time_date_def split: if_splits period_kind.splits prod.splits)
  then have le: "a \<le> b" by auto
  have "fits64 (days_of_duration (time_sub (midnight b) (midnight a)) + 1)"
    using time_sub_days_bounded [of "midnight b" "midnight a"] unfolding fits64_def by linarith
  then have d: "span_days (midnight a) (midnight b) = days_of_duration (time_sub (midnight b) (midnight a)) + 1"
    by (simp add: span_days_def date_only_eq add64_def i64_id)
  have "b - a \<le> 106751" using days_of_sub_far [of b a] r(4) d by (fastforce simp: max_period_days_def)
  then have "days_of_duration (time_sub (midnight b) (midnight a)) = b - a" using le by (intro days_of_sub) (simp add: near_days_def)
  with r(4) d le r(1,2) show ?thesis unfolding period_sound_def by (intro exI [of _ a] exI [of _ b]) simp
qed

section \<open>Runs\<close>

text \<open>
  The state of a run is the last day on which progress was computed and the store. The identifier of a new target is fresh,
  the clock does not go back, and other services may do anything to bookings and payments.
\<close>

inductive goal_step :: "int \<times> revenue_db \<Rightarrow> int \<times> revenue_db \<Rightarrow> bool" where
  create: "create_goal env inp db = Inr (t, db') \<Longrightarrow> ge_fresh env \<notin> se_goal ` set (gd_outbox db) \<Longrightarrow> goal_step (n, db) (n, db')"
| update: "update_goal env p db = Inr (t, db') \<Longrightarrow> goal_step (n, db) (n, db')"
| delete: "delete_goal env i db = Inr (u, db') \<Longrightarrow> goal_step (n, db) (n, db')"
| weights: "set_weights env i actor ws db = Inr (u, db') \<Longrightarrow> goal_step (n, db) (n, db')"
| shares: "set_shares env i actor hs db = Inr (u, db') \<Longrightarrow> goal_step (n, db) (n, db')"
| progress: "progress_of env i db = Inr (p, db') \<Longrightarrow> ge_outbox env \<Longrightarrow> n \<le> day_of (ge_now env) \<Longrightarrow>
    goal_step (n, db) (day_of (ge_now env), db')"
| others: "goal_step (n, db) (n, db\<lparr>gd_pay := pay\<rparr>)"

definition no_goals :: "int \<times> revenue_db \<Rightarrow> bool" where
  "no_goals = (\<lambda>(n, db). gd_goals db = [] \<and> gd_weights db = [] \<and> gd_shares db = [] \<and> gd_snapshots db = [] \<and> gd_revisions db = []
     \<and> gd_outbox db = [])"

definition goal_fine :: "goal \<Rightarrow> bool" where
  "goal_fine t \<longleftrightarrow> goal_columns t \<and> tg_label t \<noteq> [] \<and> goal_currency_ok (tg_currency t) \<and> period_sound (tg_start t) (tg_end t)"

definition whole_shares :: "share list \<Rightarrow> bool" where
  "whole_shares hs \<longleftrightarrow> hs = [] \<or> distinct (map sh_user hs) \<and> (\<forall>h \<in> set hs. 0 \<le> sh_bps h \<and> sh_bps h \<le> 10000) \<and> i64 (sum_list (map sh_bps hs)) = 10000"

text \<open>The settings before and after each revision of a target, and the moves announced for it.\<close>

fun goal_change :: "uuid \<Rightarrow> revision \<Rightarrow> (goal_view \<times> goal_view) list" where
  "goal_change i r = (case (rv_before r, rv_after r) of (OfGoal b, OfGoal a) \<Rightarrow> if rv_goal r = i then [(b, a)] else [] | _ \<Rightarrow> [])"

definition goal_changes :: "uuid \<Rightarrow> revenue_db \<Rightarrow> (goal_view \<times> goal_view) list" where
  "goal_changes i db = concat (map (goal_change i) (gd_revisions db))"

definition goal_moves :: "uuid \<Rightarrow> revenue_db \<Rightarrow> (pace_status \<times> pace_status) list" where
  "goal_moves i db = map (\<lambda>e. (se_from e, se_to e)) (filter (\<lambda>e. se_goal e = i) (gd_outbox db))"

definition linked :: "('a \<times> 'a) list \<Rightarrow> bool" where "linked = successively (\<lambda>x y. snd x = fst y)"

lemma linked_Nil [simp]: "linked []" "linked [x]" by (simp_all add: linked_def)

lemma linked_snoc: "linked xs \<Longrightarrow> (xs \<noteq> [] \<longrightarrow> snd (last xs) = fst x) \<Longrightarrow> linked (xs @ [x])"
  by (auto simp: linked_def successively_append_iff)

definition changes_explain :: "goal \<Rightarrow> revenue_db \<Rightarrow> bool" where
  "changes_explain t db \<longleftrightarrow> linked (goal_changes (tg_id t) db)
     \<and> (goal_changes (tg_id t) db \<noteq> [] \<longrightarrow> snd (last (goal_changes (tg_id t) db)) = goal_view_of t)"

definition moves_announced :: "uuid \<Rightarrow> revenue_db \<Rightarrow> bool" where
  "moves_announced i db \<longleftrightarrow> linked (goal_moves i db) \<and> (\<forall>(x, y) \<in> set (goal_moves i db). x \<noteq> y)
     \<and> (case newest_snapshot (snapshots_of i db) of
          None \<Rightarrow> goal_moves i db = []
        | Some s \<Rightarrow> if goal_moves i db = [] then sn_status s \<noteq> PaceBehind else snd (last (goal_moves i db)) = sn_status s)"

definition goal_ok :: "revenue_db \<Rightarrow> goal \<Rightarrow> bool" where
  "goal_ok db t \<longleftrightarrow> goal_fine t \<and> whole_shares (shares_of (tg_id t) db) \<and> changes_explain t db \<and> moves_announced (tg_id t) db"

definition goal_ids :: "revenue_db \<Rightarrow> uuid set" where "goal_ids db = tg_id ` set (gd_goals db)"

definition children_ok :: "revenue_db \<Rightarrow> bool" where
  "children_ok db \<longleftrightarrow> fst ` set (gd_shares db) \<subseteq> goal_ids db \<and> sn_goal ` set (gd_snapshots db) \<subseteq> goal_ids db
     \<and> rv_goal ` set (gd_revisions db) \<subseteq> goal_ids db"

definition days_ok :: "int \<Rightarrow> revenue_db \<Rightarrow> bool" where
  "days_ok n db \<longleftrightarrow> (\<forall>s \<in> set (gd_snapshots db). \<exists>d \<le> n. sn_as_of s = midnight d)"

definition revenue_ok :: "int \<times> revenue_db \<Rightarrow> bool" where
  "revenue_ok = (\<lambda>(n, db). distinct (map tg_id (gd_goals db)) \<and> (\<forall>t \<in> set (gd_goals db). goal_ok db t) \<and> children_ok db \<and> days_ok n db)"

lemma revenue_okD:
  assumes "revenue_ok (n, db)"
  shows "distinct (map tg_id (gd_goals db))" "t \<in> set (gd_goals db) \<Longrightarrow> goal_ok db t" "children_ok db" "days_ok n db"
  using assms by (auto simp: revenue_ok_def)

lemmas frame_defs = shares_of_def snapshots_of_def goal_changes_def goal_moves_def

lemma goal_ok_frame:
  assumes "goal_ok db t" "shares_of (tg_id t) db' = shares_of (tg_id t) db" "snapshots_of (tg_id t) db' = snapshots_of (tg_id t) db"
    "goal_changes (tg_id t) db' = goal_changes (tg_id t) db" "goal_moves (tg_id t) db' = goal_moves (tg_id t) db"
  shows "goal_ok db' t"
  using assms(1) unfolding goal_ok_def changes_explain_def moves_announced_def assms(2-5) .

lemma moves_announced_frame:
  assumes "goal_moves i db' = goal_moves i db" "snapshots_of i db' = snapshots_of i db"
  shows "moves_announced i db' \<longleftrightarrow> moves_announced i db"
  unfolding moves_announced_def assms ..

lemma create_ok:
  assumes ok: "revenue_ok (n, db)" and run: "create_goal env inp db = Inr (t, db')" and fresh: "ge_fresh env \<notin> se_goal ` set (gd_outbox db)"
  shows "revenue_ok (n, db')"
proof -
  note c = create_goal_Inr [OF run]
  then obtain l where db': "db' = db\<lparr>gd_goals := gd_goals db @ [t], gd_audit := l\<rparr>" by blast
  note inv = revenue_okD [OF ok]
  have "tg_id t \<notin> goal_ids db" using c unfolding goal_ids_def by blast
  with inv(3) have ch: "tg_id t \<notin> fst ` set (gd_shares db)" "tg_id t \<notin> sn_goal ` set (gd_snapshots db)" "tg_id t \<notin> rv_goal ` set (gd_revisions db)"
    by (auto simp: children_ok_def)
  have "goal_fine t" using c resolve_period_sound by (auto simp: goal_fine_def)
  moreover have "shares_of (tg_id t) db' = []" "snapshots_of (tg_id t) db' = []" "goal_changes (tg_id t) db' = []" "goal_moves (tg_id t) db' = []"
    using ch fresh c by (auto simp: frame_defs db' filter_empty_conv image_iff split: revision_body.splits)
  ultimately have "goal_ok db' t" by (simp add: goal_ok_def whole_shares_def changes_explain_def moves_announced_def)
  moreover have "goal_ok db' x" if "x \<in> set (gd_goals db)" for x
    by (rule goal_ok_frame [OF inv(2) [OF that]]) (simp_all add: frame_defs db')
  moreover have "children_ok db'" using inv(3) by (auto simp: children_ok_def goal_ids_def db')
  moreover have "days_ok n db'" using inv(4) by (simp add: days_ok_def db')
  ultimately show ?thesis using c inv(1) by (auto simp: revenue_ok_def db')
qed

lemma update_ok:
  assumes ok: "revenue_ok (n, db)" and run: "update_goal env p db = Inr (t, db')"
  shows "revenue_ok (n, db')"
proof -
  note inv = revenue_okD [OF ok]
  let ?r = "\<lambda>t0. \<lparr>rv_goal = tg_id t, rv_actor = gp_actor p, rv_action = ''revise'', rv_before = OfGoal (goal_view_of t0),
    rv_after = OfGoal (goal_view_of t), rv_at = ge_now env\<rparr>"
  obtain t0 l where t0: "t0 \<in> set (gd_goals db)" "tg_id t0 = tg_id t"
    and f: "goal_columns t" "tg_label t0 \<noteq> [] \<longrightarrow> tg_label t \<noteq> []" "goal_currency_ok (tg_currency t0) \<longrightarrow> goal_currency_ok (tg_currency t)"
      "\<exists>x y. resolve_period (tg_period t) x y = Inr (tg_start t, tg_end t)"
    and db0: "db' = db\<lparr>gd_goals := map (\<lambda>x. if tg_id x = tg_id t then t else x) (gd_goals db), gd_revisions := gd_revisions db @ [?r t0], gd_audit := l\<rparr>"
    using update_goal_Inr [OF run inv(1)] by blast
  define r where "r = ?r t0"
  then have r: "rv_goal r = tg_id t" "rv_before r = OfGoal (goal_view_of t0)" "rv_after r = OfGoal (goal_view_of t)" by simp_all
  note db' = db0 [folded r_def]
  have ids: "map tg_id (gd_goals db') = map tg_id (gd_goals db)" by (simp add: db')
  have o: "goal_ok db t0" by (rule inv(2) [OF t0(1)])
  have "goal_fine t" using o f resolve_period_sound by (auto simp: goal_ok_def goal_fine_def)
  moreover have "goal_changes (tg_id t) db' = goal_changes (tg_id t) db @ [(goal_view_of t0, goal_view_of t)]"
    by (simp add: goal_changes_def db' r)
  moreover have "shares_of (tg_id t) db' = shares_of (tg_id t) db" "snapshots_of (tg_id t) db' = snapshots_of (tg_id t) db" "goal_moves (tg_id t) db' = goal_moves (tg_id t) db"
    by (simp_all add: frame_defs db')
  ultimately have "goal_ok db' t" using o t0(2) moves_announced_frame [of "tg_id t" db' db]
    by (auto simp: goal_ok_def changes_explain_def intro!: linked_snoc)
  moreover have "goal_ok db' x" if "x \<in> set (gd_goals db)" "tg_id x \<noteq> tg_id t" for x
    by (rule goal_ok_frame [OF inv(2) [OF that(1)]]) (use that(2) r in \<open>simp_all add: frame_defs db'\<close>)
  moreover have "goal_ids db' = goal_ids db" using arg_cong [OF ids, of set] by (simp add: goal_ids_def)
  then have "children_ok db'" using inv(3) imageI [OF t0(1), of tg_id] t0(2) r(1)
    unfolding children_ok_def by (auto simp: goal_ids_def db')
  moreover have "days_ok n db'" using inv(4) by (simp add: days_ok_def db')
  moreover have "x \<in> set (gd_goals db') \<Longrightarrow> x = t \<or> (x \<in> set (gd_goals db) \<and> tg_id x \<noteq> tg_id t)" for x by (auto simp: db')
  ultimately show ?thesis using inv(1) ids by (auto simp: revenue_ok_def)
qed

lemma delete_ok:
  assumes ok: "revenue_ok (n, db)" and run: "delete_goal env i db = Inr (u, db')"
  shows "revenue_ok (n, db')"
proof -
  note inv = revenue_okD [OF ok]
  obtain l where db': "db' = (without_goal i db)\<lparr>gd_audit := l\<rparr>" using delete_goal_Inr [OF run inv(1)] by blast
  have "goal_ok db' x" if x: "x \<in> set (gd_goals db)" "tg_id x \<noteq> i" for x
  proof (rule goal_ok_frame [OF inv(2) [OF x(1)]])
    show "shares_of (tg_id x) db' = shares_of (tg_id x) db" "snapshots_of (tg_id x) db' = snapshots_of (tg_id x) db" "goal_moves (tg_id x) db' = goal_moves (tg_id x) db"
      using x(2) by (auto simp: frame_defs db' without_goal_def intro!: arg_cong [of _ _ "map snd"] filter_cong)
    have "concat (map (goal_change (tg_id x)) (filter (\<lambda>r. rv_goal r \<noteq> i) rs)) = concat (map (goal_change (tg_id x)) rs)" for rs
      using x(2) by (induction rs) (auto split: revision_body.splits)
    then show "goal_changes (tg_id x) db' = goal_changes (tg_id x) db" by (simp add: goal_changes_def db' without_goal_def)
  qed
  moreover have "goal_ids db' = goal_ids db - {i}" by (auto simp: goal_ids_def db' without_goal_def)
  then have "children_ok db'" using inv(3) unfolding children_ok_def by (auto simp: db' without_goal_def)
  moreover have "days_ok n db'" using inv(4) by (simp add: days_ok_def db' without_goal_def)
  moreover have "distinct (map tg_id (gd_goals db'))" using inv(1) by (simp add: db' without_goal_def distinct_map_filter)
  ultimately show ?thesis by (simp add: revenue_ok_def db' without_goal_def)
qed

lemma weights_ok:
  assumes ok: "revenue_ok (n, db)" and run: "set_weights env i actor ws db = Inr (u, db')"
  shows "revenue_ok (n, db')"
proof -
  note inv = revenue_okD [OF ok]
  obtain t rows old l where t: "t \<in> set (gd_goals db)" "tg_id t = i"
    and db': "db' = db\<lparr>gd_weights := rows, gd_revisions := gd_revisions db @ [\<lparr>rv_goal = i, rv_actor = actor, rv_action = ''set_weights'',
         rv_before = OfWeights old, rv_after = OfWeights ws, rv_at = ge_now env\<rparr>], gd_audit := l\<rparr>"
    using set_weights_Inr [OF run] by blast
  have "goal_ok db' x" if "x \<in> set (gd_goals db)" for x
    by (rule goal_ok_frame [OF inv(2) [OF that]]) (simp_all add: frame_defs db')
  moreover have "children_ok db'" using inv(3) t by (auto simp: children_ok_def goal_ids_def db')
  moreover have "days_ok n db'" using inv(4) by (simp add: days_ok_def db')
  ultimately show ?thesis using inv(1) by (auto simp: revenue_ok_def db')
qed

lemma shares_loop_Inr:
  "shares_loop seen s hs = Inr r \<Longrightarrow> distinct (map sh_user hs) \<and> sh_user ` set hs \<inter> set seen = {}
     \<and> (\<forall>h \<in> set hs. 0 \<le> sh_bps h \<and> sh_bps h \<le> 10000) \<and> (fits64 s \<longrightarrow> r = i64 (s + sum_list (map sh_bps hs)))"
proof (induction seen s hs rule: shares_loop.induct)
  case (2 seen s h hs)
  then show ?case using i64_id [of s] add64_i64 [of s "sh_bps h"] add64_i64 [of "s + sh_bps h" "sum_list (map sh_bps hs)"]
    by (auto split: if_splits simp: add64_def add.assoc)
qed (simp add: i64_id)

lemma validated_shares_whole: "validate_shares hs = None \<Longrightarrow> whole_shares (map share_columns hs)"
proof -
  assume v: "validate_shares hs = None"
  have "fits64 0" by (simp add: fits64_def)
  with v shares_loop_Inr [of "[]" 0 hs 10000] show ?thesis
    by (auto simp: validate_shares_def whole_shares_def comp_def split: if_splits sum.splits)
qed

lemma shares_ok:
  assumes ok: "revenue_ok (n, db)" and run: "set_shares env i actor hs db = Inr (u, db')"
  shows "revenue_ok (n, db')"
proof -
  note inv = revenue_okD [OF ok]
  obtain t rows old l where t: "t \<in> set (gd_goals db)" "tg_id t = i" and v: "validate_shares hs = None"
    and ins: "insert_shares i hs (filter (\<lambda>(j, _). j \<noteq> i) (gd_shares db)) = Inr rows"
    and db': "db' = db\<lparr>gd_shares := rows, gd_revisions := gd_revisions db @ [\<lparr>rv_goal = i, rv_actor = actor, rv_action = ''set_shares'',
         rv_before = OfShares old, rv_after = OfShares hs, rv_at = ge_now env\<rparr>], gd_audit := l\<rparr>"
    using set_shares_Inr [OF run] by blast
  have rows: "rows = filter (\<lambda>(j, _). j \<noteq> i) (gd_shares db) @ map (\<lambda>h. (i, share_columns h)) hs"
    using insert_shares_Inr [OF ins] by blast
  have fi: "filter (\<lambda>x. (case x of (j, _) \<Rightarrow> j \<noteq> i) \<and> (case x of (j, _) \<Rightarrow> j = k)) xs = (if k = i then [] else filter (\<lambda>(j, _). j = k) xs)" for k and xs :: "(uuid \<times> share) list"
    by (induction xs) auto
  have mine: "shares_of i db' = map share_columns hs" by (simp add: shares_of_def db' rows fi filter_map comp_def)
  have "goal_ok db' x" if "x \<in> set (gd_goals db)" for x
  proof (cases "tg_id x = i")
    case True
    have "goal_ok db x" by (rule inv(2) [OF that])
    moreover have "whole_shares (shares_of (tg_id x) db')" using validated_shares_whole [OF v] mine True by simp
    moreover have "snapshots_of (tg_id x) db' = snapshots_of (tg_id x) db" "goal_changes (tg_id x) db' = goal_changes (tg_id x) db"
      "goal_moves (tg_id x) db' = goal_moves (tg_id x) db" by (simp_all add: frame_defs db')
    ultimately show ?thesis using moves_announced_frame [of "tg_id x" db' db] unfolding goal_ok_def changes_explain_def by simp
  next
    case False
    then have "shares_of (tg_id x) db' = shares_of (tg_id x) db" by (simp add: shares_of_def db' rows fi filter_map comp_def)
    then show ?thesis by (rule goal_ok_frame [OF inv(2) [OF that]]) (simp_all add: frame_defs db')
  qed
  moreover have "children_ok db'" using inv(3) t by (auto simp: children_ok_def goal_ids_def db' rows)
  moreover have "days_ok n db'" using inv(4) by (simp add: days_ok_def db')
  ultimately show ?thesis using inv(1) by (auto simp: revenue_ok_def db')
qed

text \<open>A snapshot that is not older than the others is the newest one.\<close>

lemma newest_snapshot_None: "newest_snapshot ss = None \<longleftrightarrow> ss = []"
  by (cases ss) (auto split: option.splits)

lemma newest_snapshot_max:
  "newest_snapshot ss = Some x \<Longrightarrow> x \<in> set ss \<and> (\<forall>y \<in> set ss. \<not> after (sn_as_of y) (sn_as_of x))"
  by (induction ss arbitrary: x) (auto split: option.splits if_splits simp: after_def before_def newest_snapshot_None)

lemma with_snapshot_newest:
  assumes "days_ok n db" "n \<le> d" "sn_as_of s = midnight d"
  shows "newest_snapshot (snapshots_of (sn_goal s) (with_snapshot s db)) = Some s"
proof -
  let ?ss = "snapshots_of (sn_goal s) (with_snapshot s db)"
  have in': "s \<in> set ?ss" by (auto simp: snapshots_of_def with_snapshot_def Let_def list_ex_iff)
  have old: "x = s \<or> after (sn_as_of s) (sn_as_of x)" if x: "x \<in> set ?ss" for x
  proof (cases "x = s")
    case False
    then have g: "x \<in> set (gd_snapshots db)" "sn_goal x = sn_goal s" "\<not> time_eq (sn_as_of x) (sn_as_of s)"
      using x by (auto simp: snapshots_of_def with_snapshot_def Let_def list_ex_iff split: if_splits)
    then obtain e where e: "e \<le> n" "sn_as_of x = midnight e" using assms(1) by (auto simp: days_ok_def)
    with g(3) assms have "e < d" by (cases "e = d") (auto simp: time_eq_def)
    with e assms show ?thesis by simp
  qed simp
  from in' obtain x where x: "newest_snapshot ?ss = Some x" by (cases "newest_snapshot ?ss") (auto simp: newest_snapshot_None)
  then show ?thesis using newest_snapshot_max [OF x] old [of x] in' by auto
qed

lemma progress_ok:
  assumes ok: "revenue_ok (n, db)" and run: "progress_of env i db = Inr (p, db')" and out: "ge_outbox env" and later: "n \<le> day_of (ge_now env)"
  shows "revenue_ok (day_of (ge_now env), db')"
proof -
  note inv = revenue_okD [OF ok]
  let ?d = "day_of (ge_now env)"
  obtain t s where t: "t \<in> set (gd_goals db)" "tg_id t = i" and s: "sn_goal s = i" "sn_as_of s = goal_today env"
    and db': "db' = (with_snapshot s db)\<lparr>gd_outbox := gd_outbox db @ announce t (newest_snapshot (snapshots_of i db)) s\<rparr>"
    using progress_of_Inr [OF run out] by blast
  have today: "sn_as_of s = midnight ?d" using s by (simp add: goal_today_def truncate_day_eq)
  have new: "newest_snapshot (snapshots_of i db') = Some s"
    using with_snapshot_newest [OF inv(4) later today] s by (simp add: db' snapshots_of_def)
  define ms where "ms = map (\<lambda>e. (se_from e, se_to e)) (announce t (newest_snapshot (snapshots_of i db)) s)"
  have "filter (\<lambda>e. se_goal e = i) (announce t pr s) = announce t pr s" for pr
    using t by (simp add: announce_def status_moved_def Let_def)
  then have moves: "goal_moves i db' = goal_moves i db @ ms" by (simp add: goal_moves_def db' ms_def)
  have frame: "goal_changes k db' = goal_changes k db" "shares_of k db' = shares_of k db" for k
    by (simp_all add: frame_defs db' with_snapshot_def Let_def)
  have "goal_ok db' x" if x: "x \<in> set (gd_goals db)" for x
  proof (cases "tg_id x = i")
    case True
    have o: "goal_ok db x" by (rule inv(2) [OF x])
    have "moves_announced i db'"
      using o True unfolding moves_announced_def goal_ok_def new moves
      by (cases "newest_snapshot (snapshots_of i db)")
         (auto simp: ms_def announce_def status_moved_def Let_def intro!: linked_snoc)
    with o True show ?thesis by (simp add: goal_ok_def changes_explain_def frame)
  next
    case False
    have "goal_moves (tg_id x) db' = goal_moves (tg_id x) db"
      using False t by (simp add: goal_moves_def db' announce_def status_moved_def Let_def)
    moreover have "snapshots_of (tg_id x) db' = snapshots_of (tg_id x) db"
    proof -
      have "filter (\<lambda>y. sn_goal y = tg_id x) (map (\<lambda>y. if sn_goal y = sn_goal s \<and> time_eq (sn_as_of y) (sn_as_of s) then s else y) ss)
        = filter (\<lambda>y. sn_goal y = tg_id x) ss" for ss
        using False s by (induction ss) auto
      then show ?thesis using False s by (simp add: snapshots_of_def db' with_snapshot_def Let_def)
    qed
    ultimately show ?thesis by (intro goal_ok_frame [OF inv(2) [OF x]]) (simp_all add: frame)
  qed
  moreover have "gd_goals db' = gd_goals db" by (simp add: db' with_snapshot_def Let_def)
  moreover have "children_ok db'" using inv(3) t s by (auto simp: children_ok_def goal_ids_def db' with_snapshot_def Let_def)
  moreover have "days_ok ?d db'"
    unfolding days_ok_def
  proof
    fix x assume "x \<in> set (gd_snapshots db')"
    then consider "x = s" | "x \<in> set (gd_snapshots db)" by (auto simp: db' with_snapshot_def Let_def split: if_splits)
    then show "\<exists>d \<le> ?d. sn_as_of x = midnight d"
      by cases (use today inv(4) later in \<open>auto simp: days_ok_def intro: order_trans\<close>)
  qed
  ultimately show ?thesis using inv(1) by (simp add: revenue_ok_def)
qed

lemma others_ok: "revenue_ok (n, db) \<Longrightarrow> revenue_ok (n, db\<lparr>gd_pay := pay\<rparr>)"
  using moves_announced_frame [of _ "db\<lparr>gd_pay := pay\<rparr>" db]
  by (simp add: revenue_ok_def goal_ok_def changes_explain_def children_ok_def goal_ids_def days_ok_def frame_defs)

interpretation targets: invariant_machine no_goals goal_step revenue_ok
proof unfold_locales
  show "no_goals x \<Longrightarrow> revenue_ok x" for x
    by (cases x) (simp add: no_goals_def revenue_ok_def children_ok_def days_ok_def)
  show "revenue_ok y" if "revenue_ok x" "goal_step x y" for x y
    using that(2,1) by cases (blast intro: create_ok update_ok delete_ok weights_ok shares_ok progress_ok others_ok)+
qed

text \<open>Recomputing a branch is a run: one step for each target, up to an error.\<close>

lemma recompute_run:
  assumes "ge_outbox env" "n \<le> day_of (ge_now env)" "each_in_turn (progress_of env) ids db = (r, db')"
  shows "\<exists>m \<le> day_of (ge_now env). goal_step\<^sup>*\<^sup>* (n, db) (m, db')"
  using assms(2,3)
proof (induction ids arbitrary: n db r)
  case (Cons i ids)
  show ?case
  proof (cases "progress_of env i db")
    case (Inl e)
    with Cons.prems show ?thesis by auto
  next
    case (Inr y)
    obtain p d where y: "progress_of env i db = Inr (p, d)" using Inr by (cases y) auto
    obtain r' where "each_in_turn (progress_of env) ids d = (r', db')" using Cons.prems(2) by (auto simp: y split: prod.splits)
    then obtain m where "m \<le> day_of (ge_now env)" "goal_step\<^sup>*\<^sup>* (day_of (ge_now env), d) (m, db')"
      using Cons.IH [of "day_of (ge_now env)" d r'] by auto
    with goal_step.progress [OF y assms(1) Cons.prems(1)] show ?thesis by (meson converse_rtranclp_into_rtranclp)
  qed
qed auto

text \<open>
  Targets stay sound: whatever is created, revised, deleted and computed, every stored target has a positive amount, a label,
  a currency code, known settings and a period of at most three years that begins and ends at midnight, and its shares are
  either none or for different users and ten thousand basis points together.
\<close>

theorem targets_stay_sound:
  assumes "no_goals (m, db0)" "goal_step\<^sup>*\<^sup>* (m, db0) (n, db)" "t \<in> set (gd_goals db)"
  shows "0 < tg_amount t \<and> tg_label t \<noteq> [] \<and> goal_currency_ok (tg_currency t) \<and> metric_ok (tg_metric t) \<and> curve_ok (tg_curve t)
    \<and> period_sound (tg_start t) (tg_end t) \<and> whole_shares (shares_of (tg_id t) db)"
proof -
  have "goal_ok db t" using revenue_okD(2) [OF targets.reachable_good [OF assms(1,2)] assms(3)] .
  then show ?thesis by (auto simp: goal_ok_def goal_fine_def goal_columns_def metric_ok_def curve_ok_def)
qed

text \<open>
  C15. The revisions of a target explain its settings: they form a chain in which each begins with the settings the one before
  ended with, and the last one ends with the settings that are stored.
\<close>

theorem revisions_explain_settings:
  assumes "no_goals (m, db0)" "goal_step\<^sup>*\<^sup>* (m, db0) (n, db)" "t \<in> set (gd_goals db)"
  shows "linked (goal_changes (tg_id t) db)
    \<and> (goal_changes (tg_id t) db \<noteq> [] \<longrightarrow> snd (last (goal_changes (tg_id t) db)) = goal_view_of t)"
proof -
  have "goal_ok db t" using revenue_okD(2) [OF targets.reachable_good [OF assms(1,2)] assms(3)] .
  then show ?thesis by (simp add: goal_ok_def changes_explain_def)
qed

text \<open>
  C14. No move of a status goes unannounced: the announcements for a target form a chain of real moves, which ends in the status of
  its newest snapshot; in particular a target that is behind was last announced as behind.
\<close>

theorem status_moves_announced:
  assumes "no_goals (m, db0)" "goal_step\<^sup>*\<^sup>* (m, db0) (n, db)" "t \<in> set (gd_goals db)"
    "newest_snapshot (snapshots_of (tg_id t) db) = Some s"
  shows "linked (goal_moves (tg_id t) db) \<and> (\<forall>(x, y) \<in> set (goal_moves (tg_id t) db). x \<noteq> y)
    \<and> (goal_moves (tg_id t) db \<noteq> [] \<longrightarrow> snd (last (goal_moves (tg_id t) db)) = sn_status s)
    \<and> (sn_status s = PaceBehind \<longrightarrow> goal_moves (tg_id t) db \<noteq> [])"
proof -
  have "goal_ok db t" using revenue_okD(2) [OF targets.reachable_good [OF assms(1,2)] assms(3)] .
  then show ?thesis using assms(4) by (auto simp: goal_ok_def moves_announced_def split: if_splits)
qed

section \<open>A run\<close>

text \<open>A target of ten days is set, shared out, renamed and measured twice on its first day, before and after a booking.\<close>

definition ex_goal_env :: goal_env where
  "ex_goal_env = \<lparr>ge_pay = ex_pay_env 31, ge_fresh = 1, ge_names = (\<lambda>_. ''Ada''), ge_name_order = (\<lambda>_. 0), ge_managers = (\<lambda>_. []),
     ge_reporting = False, ge_outbox = True, ge_audit = None, ge_task = None, ge_alert = None\<rparr>"

definition ex_goal_input :: goal_input where
  "ex_goal_input = \<lparr>gi_branch = 7, gi_owner = None, gi_team = None, gi_label = ''May'', gi_amount = 5, gi_customers = None,
     gi_currency = ''sar'', gi_metric = MetricBooked, gi_scope = OtherTargetScope [], gi_curve = OtherCurve [],
     gi_period = PeriodCustom, gi_start = midnight 739000, gi_end = midnight 739009, gi_actor = 5\<rparr>"

definition ex_goal_patch :: goal_patch where
  "ex_goal_patch = \<lparr>gp_id = 1, gp_owner = None, gp_clear_owner = False, gp_team = None, gp_clear_team = False,
     gp_label = Some ''June'', gp_amount = None, gp_customers = None, gp_clear_customers = False, gp_currency = None,
     gp_metric = None, gp_scope = None, gp_curve = None, gp_period = None, gp_start = None, gp_end = None, gp_actor = 5\<rparr>"

definition ex_goal_shares :: "share list" where
  "ex_goal_shares = [\<lparr>sh_user = 5, sh_name = [], sh_bps = 4000\<rparr>, \<lparr>sh_user = 6, sh_name = [], sh_bps = 6000\<rparr>]"

definition ex_goal_db0 :: revenue_db where
  "ex_goal_db0 = \<lparr>gd_pay = ex_pay_db, gd_goals = [], gd_weights = [], gd_shares = [], gd_snapshots = [], gd_revisions = [],
     gd_outbox = [], gd_audit = []\<rparr>"

definition ex_sold :: payment_db where
  "ex_sold = ex_pay_db\<lparr>pd_core := ex_db\<lparr>db_bookings := [(ex_booking 11)\<lparr>b_status := StatusConfirmed, b_total := 1,
     b_currency := ''SAR'', b_created := midnight 739000\<rparr>]\<rparr>\<rparr>"


definition ex_goal :: goal where
  "ex_goal = \<lparr>tg_id = 1, tg_branch = 7, tg_owner = None, tg_team = None, tg_label = ''May'', tg_amount = 5, tg_customers = None,
     tg_currency = ''SAR'', tg_metric = MetricBooked, tg_scope = ScopeBranch, tg_curve = CurveLinear, tg_period = PeriodCustom,
     tg_start = midnight 739000, tg_end = midnight 739009, tg_created_by = Some 5, tg_created = midnight 739000, tg_updated = midnight 739000\<rparr>"

definition ex_goal_db1 :: revenue_db where "ex_goal_db1 = ex_goal_db0\<lparr>gd_goals := [ex_goal]\<rparr>"


definition ex_goal2 :: goal where "ex_goal2 = ex_goal\<lparr>tg_label := ''June''\<rparr>"

definition ex_snapshot :: "int \<Rightarrow> int \<Rightarrow> int \<Rightarrow> int \<Rightarrow> pace_status \<Rightarrow> pace_snapshot" where
  "ex_snapshot actual prog pc fore st = \<lparr>sn_goal = 1, sn_as_of = midnight 739000, sn_actual = actual, sn_expected = 0, sn_variance = actual,
     sn_progress = prog, sn_pace = pc, sn_forecast = fore, sn_status = st, sn_updated = midnight 739000\<rparr>"

definition ex_goal_db2 :: revenue_db where "ex_goal_db2 = ex_goal_db1\<lparr>gd_snapshots := [ex_snapshot 0 0 0 0 PaceOnTrack]\<rparr>"
definition ex_goal_db3 :: revenue_db where "ex_goal_db3 = ex_goal_db2\<lparr>gd_pay := ex_sold\<rparr>"
definition ex_goal_db4 :: revenue_db where
  "ex_goal_db4 = ex_goal_db3\<lparr>gd_snapshots := [ex_snapshot 1 2000 10000 10 PaceAhead],
     gd_outbox := [\<lparr>se_goal = 1, se_branch = 7, se_label = ''May'', se_from = PaceOnTrack, se_to = PaceAhead, se_deficit = 0, se_variance_pct = 0\<rparr>]\<rparr>"

lemma ex_create: "create_goal ex_goal_env ex_goal_input ex_goal_db0 = Inr (ex_goal, ex_goal_db1)" by code_simp
lemma ex_set: "\<not> isl (set_shares ex_goal_env 1 5 ex_goal_shares ex_goal_db1)" by code_simp

lemma ex_calc:
  "goal_calc ex_goal 5 0 (midnight 739000) [] = \<lparr>cx_expected = 0, cx_variance = 0, cx_progress = 0, cx_pace = 0, cx_forecast = 0, cx_required = 1, cx_status = PaceOnTrack\<rparr>"
  "goal_calc ex_goal 5 1 (midnight 739000) [] = \<lparr>cx_expected = 0, cx_variance = 1, cx_progress = 2000, cx_pace = 10000, cx_forecast = 10, cx_required = 1, cx_status = PaceAhead\<rparr>"
  by code_simp+

lemma ex_parts:
  "get_goal ex_goal_env 1 ex_goal_db1 = Inr (ex_goal, ex_goal_db1)" "get_goal ex_goal_env 1 ex_goal_db3 = Inr (ex_goal, ex_goal_db3)"
  "list_weights ex_goal_env 1 ex_goal_db1 = Inr ([], ex_goal_db1)" "list_weights ex_goal_env 1 ex_goal_db3 = Inr ([], ex_goal_db3)"
  "goal_actual ex_goal_env ex_goal (midnight 739000) ex_goal_db1 = Inr ((0, []), ex_goal_db1)"
  "goal_actual ex_goal_env ex_goal (midnight 739000) ex_goal_db3 = Inr ((1, []), ex_goal_db3)"
  "save_snapshot ex_goal_env ex_goal (ex_snapshot 0 0 0 0 PaceOnTrack) ex_goal_db1 = Inr ((), ex_goal_db2)"
  "save_snapshot ex_goal_env ex_goal (ex_snapshot 1 2000 10000 10 PaceAhead) ex_goal_db3 = Inr ((), ex_goal_db4)"
  "goal_today ex_goal_env = midnight 739000" "ge_now ex_goal_env = midnight 739000"
  by code_simp+

lemma ex_fields: "tg_id ex_goal = 1" "tg_amount ex_goal = 5" "tg_customers ex_goal = None" by (simp_all add: ex_goal_def)

lemma ex_progress: "\<exists>p. progress_of ex_goal_env 1 ex_goal_db1 = Inr (p, ex_goal_db2)" "\<exists>p. progress_of ex_goal_env 1 ex_goal_db3 = Inr (p, ex_goal_db4)"
  using ex_parts
  by (simp_all add: progress_of_def goal_progress_def customers_of_def ex_fields ex_calc ex_snapshot_def Let_def and_then_def
      del: One_nat_def)

lemma ex_update: "\<not> isl (update_goal ex_goal_env ex_goal_patch ex_goal_db1)"
proof -
  have "patched_goal ex_goal_patch ex_goal = Inr ex_goal2" by code_simp
  moreover have "resolve_period (tg_period ex_goal2) (tg_start ex_goal2) (tg_end ex_goal2) = Inr (midnight 739000, midnight 739009)" by code_simp
  moreover have "\<not> isl (update_goal_row ex_goal_env (ex_goal2\<lparr>tg_start := midnight 739000, tg_end := midnight 739009, tg_updated := ge_now ex_goal_env\<rparr>) ex_goal_db1)"
    by code_simp
  moreover have "ge_audit ex_goal_env = None" by (simp add: ex_goal_env_def)
  moreover have "gp_id ex_goal_patch = 1" by (simp add: ex_goal_patch_def)
  ultimately show ?thesis using ex_parts(1)
    by (auto simp: update_goal_def Let_def isl_def and_then_def insert_revision_def goal_log_def as_validation_def split: sum.splits)
qed

lemma ex_goal_run: "goal_step\<^sup>*\<^sup>* (0, ex_goal_db0) (739000, ex_goal_db4)"
proof -
  have "goal_step (0, ex_goal_db0) (0, ex_goal_db1)" by (rule goal_step.create [OF ex_create]) (simp add: ex_goal_db0_def)
  moreover have "goal_step (0, ex_goal_db1) (739000, ex_goal_db2)" "goal_step (739000, ex_goal_db3) (739000, ex_goal_db4)"
    using ex_progress goal_step.progress [of ex_goal_env 1 ex_goal_db1 _ ex_goal_db2 0] goal_step.progress [of ex_goal_env 1 ex_goal_db3 _ ex_goal_db4 739000] ex_parts(10)
    by (auto simp: ex_goal_env_def)
  moreover have "goal_step (739000, ex_goal_db2) (739000, ex_goal_db3)" unfolding ex_goal_db3_def by (rule goal_step.others)
  ultimately show ?thesis by (meson converse_rtranclp_into_rtranclp rtranclp.rtrancl_refl)
qed

lemma ex_goal_start: "no_goals (0, ex_goal_db0)" by (simp add: no_goals_def ex_goal_db0_def)

theorem status_moves_announced_witness:
  "goal_moves 1 ex_goal_db4 = [(PaceOnTrack, PaceAhead)] \<and> linked (goal_moves 1 ex_goal_db4)
    \<and> snd (last (goal_moves 1 ex_goal_db4)) = PaceAhead"
proof -
  have m: "goal_moves 1 ex_goal_db4 = [(PaceOnTrack, PaceAhead)]" by code_simp
  have "newest_snapshot (snapshots_of 1 ex_goal_db4) = Some (ex_snapshot 1 2000 10000 10 PaceAhead)" by code_simp
  moreover have "gd_goals ex_goal_db4 = [ex_goal]" by code_simp
  moreover have "sn_status (ex_snapshot 1 2000 10000 10 PaceAhead) = PaceAhead" by (simp add: ex_snapshot_def)
  ultimately show ?thesis using status_moves_announced [OF ex_goal_start ex_goal_run, of ex_goal "ex_snapshot 1 2000 10000 10 PaceAhead"] m ex_fields by simp
qed

theorem targets_stay_sound_witness:
  "\<exists>db t. gd_goals db = [t] \<and> length (shares_of 1 db) = 2 \<and> whole_shares (shares_of 1 db) \<and> period_sound (tg_start t) (tg_end t)"
proof -
  obtain u db where s: "set_shares ex_goal_env 1 5 ex_goal_shares ex_goal_db1 = Inr (u, db)"
    using ex_set by (cases "set_shares ex_goal_env 1 5 ex_goal_shares ex_goal_db1") auto
  have l: "map_sum id (\<lambda>(_, d). (gd_goals d, length (shares_of 1 d))) (set_shares ex_goal_env 1 5 ex_goal_shares ex_goal_db1) = Inr ([ex_goal], 2)" by code_simp
  have "goal_step (0, ex_goal_db0) (0, ex_goal_db1)" by (rule goal_step.create [OF ex_create]) (simp add: ex_goal_db0_def)
  with goal_step.shares [OF s, of 0] have "goal_step\<^sup>*\<^sup>* (0, ex_goal_db0) (0, db)" by (meson converse_rtranclp_into_rtranclp rtranclp.rtrancl_refl)
  from targets_stay_sound [OF ex_goal_start this, of ex_goal] l s ex_fields show ?thesis by auto
qed

theorem revisions_explain_settings_witness:
  "\<exists>db t b a. gd_goals db = [t] \<and> goal_changes 1 db = [(b, a)] \<and> a = goal_view_of t \<and> tv_label b = ''May''"
proof -
  obtain t db where u: "update_goal ex_goal_env ex_goal_patch ex_goal_db1 = Inr (t, db)"
    using ex_update by (cases "update_goal ex_goal_env ex_goal_patch ex_goal_db1") auto
  have "distinct (map tg_id (gd_goals ex_goal_db1))" "gd_goals ex_goal_db1 = [ex_goal]" "gd_revisions ex_goal_db1 = []"
    by (simp_all add: ex_goal_db1_def ex_goal_db0_def)
  with update_goal_Inr [OF u this(1)] have g: "gd_goals db = [t]" and c: "goal_changes (tg_id t) db = [(goal_view_of ex_goal, goal_view_of t)]" and i: "tg_id t = 1"
    by (auto simp: goal_changes_def ex_fields)
  have "goal_step (0, ex_goal_db0) (0, ex_goal_db1)" by (rule goal_step.create [OF ex_create]) (simp add: ex_goal_db0_def)
  with goal_step.update [OF u, of 0] have "goal_step\<^sup>*\<^sup>* (0, ex_goal_db0) (0, db)" by (meson converse_rtranclp_into_rtranclp rtranclp.rtrancl_refl)
  from revisions_explain_settings [OF ex_goal_start this, of t] g c i show ?thesis
    by (intro exI [of _ db] exI [of _ t] exI [of _ "goal_view_of ex_goal"] exI [of _ "goal_view_of t"]) (auto simp: goal_view_of_def ex_goal_def)
qed

definition ex_shared_db :: revenue_db where
  "ex_shared_db = ex_goal_db1\<lparr>gd_shares := [(1, \<lparr>sh_user = 5, sh_name = [], sh_bps = 4000\<rparr>), (1, \<lparr>sh_user = 6, sh_name = [], sh_bps = 6000\<rparr>)]\<rparr>"

definition ex_listed :: "share list" where
  "ex_listed = [\<lparr>sh_user = 6, sh_name = ''Ada'', sh_bps = 6000\<rparr>, \<lparr>sh_user = 5, sh_name = ''Ada'', sh_bps = 4000\<rparr>]"

theorem contributions_ranked_witness:
  "\<exists>cs. contributions ex_goal_env 1 ex_shared_db = Inr (cs, ex_shared_db) \<and> length cs = 2
    \<and> mset (map co_user cs) = {#5, 6#} \<and> (\<forall>k < length cs. co_rank (cs ! k) = Suc k)"
proof -
  define cs where "cs = number_ranks (rank_contributions (map (share_row ex_goal []) ex_listed))"
  have l: "list_shares ex_goal_env 1 ex_shared_db = Inr (ex_listed, ex_shared_db)" by code_simp
  have g: "get_goal ex_goal_env 1 ex_shared_db = Inr (ex_goal, ex_shared_db)" by code_simp
  have b: "sum_by_owner ex_goal_env ex_goal (midnight 739000) (midnight 739000) ex_shared_db = Inr ([], ex_shared_db)" by code_simp
  have d: "tg_start ex_goal = midnight 739000" "min_time (goal_today ex_goal_env) (tg_end ex_goal) = midnight 739000" by code_simp+
  have n: "ex_listed \<noteq> []" by (simp add: ex_listed_def)
  have r: "contributions ex_goal_env 1 ex_shared_db = Inr (cs, ex_shared_db)"
    using l g b n by (simp add: contributions_def and_then_def d cs_def del: One_nat_def)
  note p = contributions_ranked [OF n r l]
  then have "mset (map (\<lambda>c. (co_user c, co_bps c)) cs) = {#(5, 4000), (6, 6000)#}" by (simp add: ex_listed_def add_mset_commute)
  from arg_cong [OF this, of "image_mset fst"] have "mset (map co_user cs) = {#5, 6#}" by (simp add: image_mset.compositionality comp_def)
  moreover from arg_cong [OF this, of size] have "length cs = 2" by (metis length_map size_add_mset size_empty size_mset numeral_2_eq_2)
  ultimately show ?thesis using r p by blast
qed

end
