(* ===== verification/Spec2Isabelle.thy ===== *)
theory Spec2Isabelle
  imports Payment_Plans Auth_Login Totp_Code Outbox Hotel_Service Treasury_Service Visa_Cases Rooming Revenue_History
begin

text \<open>
  A verification library for the core of the CRM back end of a travel agency under \<^verbatim>\<open>src/internal\<close>: the rules of its
  domain packages (\<^verbatim>\<open>domain/*\<close>), the services that apply them (\<^verbatim>\<open>app/*\<close>) and the tables the services read and write
  (\<^verbatim>\<open>adapter/postgres/*\<close>).

  \<^bold>\<open>How the program hangs together.\<close> A request carries the scope of its caller (\<^verbatim>\<open>domain/access\<close>); every query appends the
  predicates of that scope (\<^verbatim>\<open>adapter/postgres/pgscope\<close>). A service works in one transaction (\<^verbatim>\<open>platform/tx\<close>): it reads rows,
  applies a rule of the domain, writes rows and records events in the outbox, or fails and leaves the store as it was.
  Bookings are the centre. Payments recompute the money of a booking; the treasury settles bank credits by recording
  payments; visa files and rooms refer to bookings and travellers; revenue targets are measured by bookings and payments.

  \<^bold>\<open>How the model reads it.\<close> A Go struct is a record, an enumeration a datatype (with a constructor for any other string where
  the code accepts one), a function that returns an error a function into \<open>error + 'a\<close>, and a service operation a unit of
  work \<open>db \<Rightarrow> error + ('a \<times> db)\<close> (\<open>Unit_Of_Work\<close>), where \<open>db\<close> is a record of the tables as lists in the order of insertion.
  \<open>int64\<close> is \<open>int\<close> with \<open>add64\<close>, \<open>mul64\<close>, \<open>quo64\<close> and so on, which wrap at 64 bits; strings are byte lists; instants are
  nanoseconds with a zone offset. Check and uniqueness constraints and the triggers of the schema that a rule relies on are
  part of the table operations. Operations run one after the other: races between transactions are named as findings, not
  modelled. The environment record of each service holds what is not under \<^verbatim>\<open>src\<close> or is passed in: the scope, the clock, the
  identifiers drawn, hashes and ciphers, audit recorders and other ports, the collation of the database.

  \<^bold>\<open>Foundations.\<close>
  \<^item> \<open>Go_Prelude\<close>, \<open>Go_Time\<close>, \<open>Go_Float\<close>, \<open>Rounding\<close>: wrap-around integers and division, ASCII and UTF-8 case folding and trimming,
    civil dates and instants, the quotient of two integers as a \<^verbatim>\<open>float64\<close>, rounded division.
  \<^item> \<open>Shared\<close>, \<open>Field_Errors\<close>, \<open>Personal_Data\<close>: typed errors, field errors, CSV cells, paging, masking of passports (\<^verbatim>\<open>domain/shared\<close>).
  \<^item> \<open>Status_Machine\<close>: the locales \<open>status_machine\<close> (final statuses are absorbing) and \<open>invariant_machine\<close> (an invariant of every
    run), interpreted by the step relations of the components; \<open>Unit_Of_Work\<close>: transactions and rules to read off runs.
  \<^item> \<open>Access\<close>, \<open>Pg_Scope\<close>: scopes and the SQL predicates made of them, with their meaning as the selection of rows.

  \<^bold>\<open>Components.\<close>
  \<^item> Exchange rates: \<open>Fx\<close> (\<^verbatim>\<open>domain/fx\<close>: parsing, exact conversion, choice of the rate), \<open>Fx_Service\<close> (\<^verbatim>\<open>app/fx\<close>).
  \<^item> Bookings: \<open>Booking\<close>, \<open>Booking_Workspace\<close> (\<^verbatim>\<open>domain/booking\<close>: statuses, totals, profile, reference codes, cancellation quotes),
    \<open>Booking_Service\<close> (\<^verbatim>\<open>app/booking\<close>: transitions with the seats of the departure, holds, updates, recomputation).
  \<^item> Payments: \<open>Payment\<close> (\<^verbatim>\<open>domain/payment\<close>), \<open>Payment_Service\<close> (recording, verifying, reversing, adjusting, refunds),
    \<open>Payment_Plans\<close> (schedules, promises, summaries).
  \<^item> Finance: \<open>Finance_Rules\<close> (profit, commission, currency shares, refunds, agency credit, ageing), \<open>Treasury\<close> (accounts,
    movements, IBAN), \<open>Finance_Matching\<close> (ticket statements, references in bank texts), \<open>Treasury_Service\<close>
    (\<^verbatim>\<open>app/finance/treasury.go\<close>).
  \<^item> Revenue targets: \<open>Revenue_Target\<close> (\<^verbatim>\<open>domain/revenuetarget\<close>: periods, weights, the pacing engine), \<open>Revenue_Service\<close>
    (\<^verbatim>\<open>app/revenuetarget\<close> and its tables), \<open>Revenue_History\<close> (what holds along every run of that service).
  \<^item> Visa files and rooms: \<open>Visa_Cases\<close>, \<open>Rooming\<close> (\<^verbatim>\<open>domain\<close>, \<^verbatim>\<open>app\<close> and \<^verbatim>\<open>adapter/postgres\<close> of \<^verbatim>\<open>visa\<close> and \<^verbatim>\<open>rooming\<close>).
  \<^item> Hotels: \<open>Hotel\<close>, \<open>Hotel_Quote\<close> (contracts and quotes), \<open>Hotel_Service\<close> (their store).
  \<^item> Authentication: \<open>Auth_Security\<close>, \<open>Totp_Code\<close>, \<open>Rate_Limit\<close>, \<open>Auth_Sessions\<close>, \<open>Auth_Login\<close> (\<^verbatim>\<open>domain/authsec\<close>, \<^verbatim>\<open>domain/totp\<close>,
    \<^verbatim>\<open>platform/ratelimit\<close>, \<^verbatim>\<open>app/auth\<close>).
  \<^item> Events: \<open>Outbox\<close> (\<^verbatim>\<open>app/outbox\<close> and its table).

  \<^bold>\<open>What the lemmas show.\<close> Each service theory has, in this order: its definitions; inversion lemmas, one for each operation,
  that say what a successful run read and wrote; an invariant kept by every step, through an interpretation of
  \<open>invariant_machine\<close>; and theorems about whole runs. Thus no departure is oversold, the money of a booking is the sum of its
  ledger, ledgers of payments and of the treasury only grow and reconcile, refunds need a second person, recording and
  matching are idempotent, the histories of visa cases, targets and statuses replay to the stored rows, rooms are
  consistent and not overfilled, sessions need every factor and die when revoked, and no event is lost. Domain theories
  show exactness (conversion, quotes, shares, floating point status), equivalence with a simpler reference, bounds and round
  trips. Every theorem with hypotheses has a witness that evaluates the definitions on a small store.

  \<^bold>\<open>Bounds and fuel.\<close> Loops are structural recursion or have a measure. \<open>month_spans\<close> stops after 24 months because
  \<^verbatim>\<open>monthBuckets\<close> does; the dispatcher runs for a given number of rounds, and \<open>outbox_drains\<close> gives a number that is enough.
  Theorems about 64-bit amounts state the range in which the code does not wrap.

  \<^bold>\<open>Not modelled.\<close> HTTP handlers, routing, configuration, logging, queues, files, PDF layout and the main functions (glue);
  language models, messaging channels, flight search and rate providers (protocols of third parties); cryptographic
  libraries (parameters); read-only lists, searches, dashboards and reports in SQL; receivables, letters and settings of
  the finance service; tasks, leads, suppliers, tour packages, companies and plans, customers, users, documents,
  notifications, automation, imports, bus operators, support and administration, whose rules are mostly field validation
  around one table. Isolation between concurrent transactions is the database's and is not part of the model.
\<close>

end
